(* ===== verification/Prelude.thy ===== *)
theory Prelude
  imports Main "HOL-Library.AList" "HOL-Library.Multiset"
begin

text \<open>
  Shared vocabulary of the development.

  \<^item> A Go \<open>time.Time\<close> is the integer number of nanoseconds since Go's zero time, so
    \<open>t.IsZero()\<close> is \<open>t = 0\<close>, \<open>t.After(u)\<close> is \<open>u < t\<close> and \<open>t.Add(d)\<close> is \<open>t + d\<close>.
    A \<open>time.Duration\<close> is an integer number of nanoseconds.
  \<^item> A Go map is an association list with distinct keys.  The order of the list is the order
    in which the runtime happens to iterate, so a theorem about every such list is a theorem
    about every iteration order.
  \<^item> A fallible operation returns a sum: \<open>Inl\<close> the error, \<open>Inr\<close> the value.
\<close>

named_theorems inv_simps "invariants unfolded by the component proofs"

type_synonym gotime = int
type_synonym duration = int

definition zero_time :: gotime where
  "zero_time = 0"

definition second :: duration where
  "second = 1000000000"

definition minute :: duration where
  "minute = 60 * second"

definition hour :: duration where
  "hour = 60 * minute"

lemma second_pos [simp]: "0 < second"
  by (simp add: second_def)

lemma minute_pos [simp]: "0 < minute"
  by (simp add: minute_def)

lemma hour_pos [simp]: "0 < hour"
  by (simp add: hour_def)

text \<open>\<open>time.Time.Unix()\<close>: whole seconds since 1970, which is this many seconds after the zero time.\<close>

definition unixSeconds :: "gotime \<Rightarrow> int" where
  "unixSeconds t = t div second - 62135596800"

section \<open>Association lists as Go maps\<close>

lemma map_of_put [simp]: "map_of (AList.update k v m) = (map_of m)(k \<mapsto> v)"
  by (simp add: update_conv')

lemma map_of_del [simp]: "map_of (AList.delete k m) = (map_of m)(k := None)"
  by (simp add: delete_conv')

lemma list_all_put:
  "list_all P m \<Longrightarrow> P (k, v) \<Longrightarrow> list_all P (AList.update k v m)"
  by (induction m) auto

lemma list_all_del: "list_all P m \<Longrightarrow> list_all P (AList.delete k m)"
  by (auto simp: AList.delete_eq list_all_iff)

lemma list_all_map_of: "list_all P m \<Longrightarrow> map_of m k = Some v \<Longrightarrow> P (k, v)"
  by (auto simp: list_all_iff dest: map_of_SomeD)

lemma length_put:
  "length (AList.update k v m) = (if map_of m k = None then Suc (length m) else length m)"
  by (induction m) auto

lemma length_del_le: "length (AList.delete k m) \<le> length m"
  by (simp add: AList.delete_eq)

lemma length_del_less: "map_of m k = Some v \<Longrightarrow> length (AList.delete k m) < length m"
  by (induction m) (auto simp: AList.delete_eq le_imp_less_Suc split: if_splits)

lemma fst_set_map_of: "map_of m k \<noteq> None \<longleftrightarrow> k \<in> fst ` set m"
  by (simp add: map_of_eq_None_iff)

lemma distinct_filter_keys:
  "distinct (map fst m) \<Longrightarrow> distinct (map fst (filter P m))"
  by (induction m) auto

lemma map_of_filter_keys:
  "distinct (map fst m) \<Longrightarrow>
   map_of (filter P m) k =
     (case map_of m k of None \<Rightarrow> None | Some v \<Rightarrow> if P (k, v) then Some v else None)"
  by (induction m) (auto split: option.splits simp: map_of_eq_None_iff image_iff)

lemma in_set_map_of: "distinct (map fst m) \<Longrightarrow> (k, v) \<in> set m \<longleftrightarrow> map_of m k = Some v"
  by simp

lemma perm_distinct_keys:
  assumes "mset m' = mset m"
  shows "distinct (map fst m') = distinct (map fst m)"
proof -
  have "mset (map fst m') = mset (map fst m)" using assms by simp
  then show ?thesis by (rule mset_eq_imp_distinct_iff)
qed

lemma perm_map_of:
  assumes "mset m' = mset m" "distinct (map fst m)"
  shows "map_of m' = map_of m"
proof -
  have "distinct (map fst m')" using assms by (simp add: perm_distinct_keys [OF assms(1)])
  then show ?thesis
    using assms mset_eq_setD [OF assms(1)] by (simp add: map_of_inject_set)
qed

lemma perm_list_all: "mset m' = mset m \<Longrightarrow> list_all P m' = list_all P m"
  by (simp add: list_all_iff flip: set_mset_mset)

lemma map_of_foldl_put:
  "map_of (foldl (\<lambda>m k. AList.update k (f k) m) m ks) k =
     (if k \<in> set ks then Some (f k) else map_of m k)"
  by (induction ks arbitrary: m) auto

lemma map_of_foldl_put_if:
  "map_of (foldl (\<lambda>m k. if P k then AList.update k (f k) m else m) m ks) k =
     (if k \<in> set ks \<and> P k then Some (f k) else map_of m k)"
  by (induction ks arbitrary: m) auto

lemma find_SomeD: "find P xs = Some x \<Longrightarrow> x \<in> set xs \<and> P x"
  by (auto simp: find_Some_iff)

lemma find_append_None: "find P xs = None \<Longrightarrow> find P (xs @ ys) = find P ys"
  by (induction xs) (auto split: if_splits)

lemma length_filter_filter_le: "length (filter P (filter Q xs)) \<le> length (filter P xs)"
  by (induction xs) (auto simp: le_SucI)

section \<open>Results\<close>

text \<open>
  \<open>rbind\<close> is Go's \<open>if err != nil { return err }\<close> between two steps.
\<close>

definition rbind :: "'e + 'a \<Rightarrow> ('a \<Rightarrow> 'e + 'b) \<Rightarrow> 'e + 'b" where
  "rbind r f = (case r of Inl e \<Rightarrow> Inl e | Inr x \<Rightarrow> f x)"

lemma rbind_simps [simp]: "rbind (Inl e) f = Inl e" "rbind (Inr x) f = f x"
  by (simp_all add: rbind_def)

lemma rbind_Inr_iff: "rbind r f = Inr y \<longleftrightarrow> (\<exists>x. r = Inr x \<and> f x = Inr y)"
  by (cases r) auto

definition isOk :: "'e + 'a \<Rightarrow> bool" where
  "isOk r = (case r of Inl _ \<Rightarrow> False | Inr _ \<Rightarrow> True)"

lemma isOk_simps [simp]: "isOk (Inl e) = False" "isOk (Inr x) = True"
  by (simp_all add: isOk_def)

section \<open>Strings\<close>

text \<open>
  \<open>strings.ToLower\<close> and \<open>strings.TrimSpace\<close> on ASCII text.  Other characters are left alone, where
  Go also folds the Unicode letters and trims U+0085 and U+00A0.  For the values that go through them (e-mail
  addresses, user names, locales, domains) the models are exact on ASCII input only: Go folds two letters outside
  ASCII into it, the Kelvin sign into k and the dotted capital I into i.
\<close>

definition asciiLower :: "char \<Rightarrow> char" where
  "asciiLower c = (if 65 \<le> (of_char c :: nat) \<and> (of_char c :: nat) \<le> 90
                   then char_of ((of_char c :: nat) + 32) else c)"

definition goToLower :: "string \<Rightarrow> string" where
  "goToLower s = map asciiLower s"

definition isGoSpace :: "char \<Rightarrow> bool" where
  "isGoSpace c = ((of_char c :: nat) \<in> {9, 10, 11, 12, 13, 32})"

definition goTrimSpace :: "string \<Rightarrow> string" where
  "goTrimSpace s = rev (dropWhile isGoSpace (rev (dropWhile isGoSpace s)))"

section \<open>Decimal numbers\<close>

text \<open>\<open>strconv.FormatInt(n, 10)\<close> of a non-negative number and \<open>strconv.ParseInt(s, 10, 64)\<close>.\<close>

definition digitChar :: "nat \<Rightarrow> char" where
  "digitChar d = char_of (48 + d)"

fun formatNat :: "nat \<Rightarrow> string" where
  "formatNat n = (if n < 10 then [digitChar n] else formatNat (n div 10) @ [digitChar (n mod 10)])"

declare formatNat.simps [simp del]

definition digitVal :: "char \<Rightarrow> nat option" where
  "digitVal c = (let n = (of_char c :: nat) in if 48 \<le> n \<and> n \<le> 57 then Some (n - 48) else None)"

fun parseDigits :: "nat \<Rightarrow> string \<Rightarrow> nat option" where
  "parseDigits acc [] = Some acc"
| "parseDigits acc (c # cs) =
     (case digitVal c of None \<Rightarrow> None | Some d \<Rightarrow> parseDigits (10 * acc + d) cs)"

definition parseInt64 :: "string \<Rightarrow> int option" where
  "parseInt64 s =
     (let neg = (s \<noteq> [] \<and> hd s = CHR ''-'');
          ds = (if s \<noteq> [] \<and> hd s \<in> {CHR ''-'', CHR ''+''} then tl s else s)
      in if ds = [] then None
         else (case parseDigits 0 ds of
                 None \<Rightarrow> None
               | Some n \<Rightarrow> let v = (if neg then - int n else int n)
                           in if - (2 ^ 63) \<le> v \<and> v < 2 ^ 63 then Some v else None))"

lemma digitVal_digitChar: "d < 10 \<Longrightarrow> digitVal (digitChar d) = Some d"
  by (simp add: digitVal_def digitChar_def)

lemma parseDigits_append:
  "parseDigits acc (xs @ ys) = (case parseDigits acc xs of None \<Rightarrow> None | Some a \<Rightarrow> parseDigits a ys)"
  by (induction acc xs rule: parseDigits.induct) (auto split: option.splits)

lemma parse_format: "parseDigits 0 (formatNat n) = Some n"
proof (induction n rule: formatNat.induct)
  case (1 n)
  show ?case
  proof (cases "n < 10")
    case True
    then show ?thesis by (subst formatNat.simps) (simp add: digitVal_digitChar)
  next
    case False
    with 1 show ?thesis
      by (subst formatNat.simps) (simp add: parseDigits_append digitVal_digitChar)
  qed
qed

lemma formatNat_digits: "list_all (\<lambda>c. \<exists>d<10. c = digitChar d) (formatNat n)"
proof (induction n rule: formatNat.induct)
  case (1 n)
  then show ?case by (subst formatNat.simps) (auto simp: list_all_iff intro: exI [of _ "n mod 10"])
qed

lemma formatNat_nonempty: "formatNat n \<noteq> []"
  by (subst formatNat.simps) simp

lemma digitChar_inj: "d < 10 \<Longrightarrow> of_char (digitChar d) = (48 + d :: nat)"
  by (simp add: digitChar_def)

lemma formatNat_range: "c \<in> set (formatNat n) \<Longrightarrow> 48 \<le> (of_char c :: nat) \<and> (of_char c :: nat) \<le> 57"
  using formatNat_digits [of n] digitChar_inj by (fastforce simp: list_all_iff)

lemma parseInt64_format:
  assumes "int n < 2 ^ 63"
  shows "parseInt64 (formatNat n) = Some (int n)"
proof -
  have "hd (formatNat n) \<in> set (formatNat n)" by (simp add: formatNat_nonempty)
  then have "48 \<le> (of_char (hd (formatNat n)) :: nat)" by (rule formatNat_range [THEN conjunct1])
  moreover have "(of_char CHR ''-'' :: nat) = 45" "(of_char CHR ''+'' :: nat) = 43" by simp_all
  ultimately have "hd (formatNat n) \<noteq> CHR ''-''" "hd (formatNat n) \<noteq> CHR ''+''" by auto
  with assms show ?thesis by (simp add: parseInt64_def Let_def formatNat_nonempty parse_format)
qed

definition formatInt :: "int \<Rightarrow> string" where
  "formatInt i = (if i < 0 then CHR ''-'' # formatNat (nat (- i)) else formatNat (nat i))"

lemma formatNat_inj: "formatNat m = formatNat n \<Longrightarrow> m = n"
  by (metis parse_format option.inject)

lemma formatInt_chars: "c \<in> set (formatInt i) \<Longrightarrow> c = CHR ''-'' \<or> 48 \<le> (of_char c :: nat) \<and> (of_char c :: nat) \<le> 57"
  using formatNat_range [of c] by (auto simp: formatInt_def split: if_splits)

lemma formatNat_no_minus: "CHR ''-'' \<notin> set (formatNat n)"
  using formatNat_range [of "CHR ''-''" n] by auto

lemma formatInt_inj: "formatInt i = formatInt j \<Longrightarrow> i = j"
proof -
  assume e: "formatInt i = formatInt j"
  have "CHR ''-'' \<in> set (formatInt k) \<longleftrightarrow> k < 0" for k
    by (simp add: formatInt_def formatNat_no_minus)
  then have "i < 0 \<longleftrightarrow> j < 0" using e by metis
  with e show "i = j" by (auto simp: formatInt_def dest: formatNat_inj split: if_splits)
qed

lemma parseInt64_formatInt:
  assumes "- (2 ^ 63) \<le> i" "i < 2 ^ 63"
  shows "parseInt64 (formatInt i) = Some i"
proof (cases "i < 0")
  case True
  with assms show ?thesis by (simp add: parseInt64_def Let_def formatInt_def formatNat_nonempty parse_format)
next
  case False
  with assms parseInt64_format [of "nat i"] show ?thesis by (simp add: formatInt_def)
qed

text \<open>\<open>strings.Cut(s, sep)\<close> and \<open>strings.SplitN(s, sep, 2)\<close> for a one-character separator.\<close>

definition splitFirst :: "char \<Rightarrow> string \<Rightarrow> (string \<times> string) option" where
  "splitFirst c s =
     (case dropWhile (\<lambda>x. x \<noteq> c) s of [] \<Rightarrow> None | _ # rest \<Rightarrow> Some (takeWhile (\<lambda>x. x \<noteq> c) s, rest))"

lemma dropWhile_first: "list_all P xs \<Longrightarrow> \<not> P c \<Longrightarrow> dropWhile P (xs @ c # ys) = c # ys \<and> takeWhile P (xs @ c # ys) = xs"
  by (induction xs) auto

lemma splitFirst_append:
  assumes "c \<notin> set xs"
  shows "splitFirst c (xs @ c # ys) = Some (xs, ys)"
proof -
  have "list_all (\<lambda>x. x \<noteq> c) xs" using assms by (auto simp: list_all_iff)
  from dropWhile_first [OF this, of c ys] show ?thesis by (simp add: splitFirst_def)
qed

lemma splitFirst_Some:
  assumes "splitFirst c s = Some (a, b)"
  shows "s = a @ c # b \<and> c \<notin> set a"
proof -
  obtain x rest where d: "dropWhile (\<lambda>x. x \<noteq> c) s = x # rest" "a = takeWhile (\<lambda>x. x \<noteq> c) s" "b = rest"
    using assms by (auto simp: splitFirst_def split: list.splits)
  have "\<not> hd (dropWhile (\<lambda>x. x \<noteq> c) s) \<noteq> c" by (rule hd_dropWhile) (simp only: d(1), simp)
  then have x: "x = c" by (simp only: d(1) list.sel simp_thms)
  have "s = a @ dropWhile (\<lambda>x. x \<noteq> c) s" unfolding d(2) by (rule takeWhile_dropWhile_id [symmetric])
  moreover have "c \<notin> set a" unfolding d(2) by (auto dest: set_takeWhileD)
  ultimately show ?thesis by (simp only: d(1,3) x simp_thms)
qed

lemma sep_inj:
  fixes c :: char
  assumes "a @ c # b = a' @ c # b'" "c \<notin> set a" "c \<notin> set a'"
  shows "a = a' \<and> b = b'"
proof -
  have "splitFirst c (a' @ c # b') = Some (a, b)"
    unfolding assms(1) [symmetric] by (rule splitFirst_append [OF assms(2)])
  then show ?thesis by (simp add: splitFirst_append [OF assms(3)])
qed

lemma goTrimSpace_solid:
  assumes "s \<noteq> []" "\<not> isGoSpace (hd s)" "\<not> isGoSpace (last s)"
  shows "goTrimSpace s = s"
proof -
  have "dropWhile isGoSpace s = s" using assms by (cases s) auto
  moreover have "dropWhile isGoSpace (rev s) = rev s" using assms
    by (metis dropWhile_eq_self_iff hd_rev rev_is_Nil_conv)
  ultimately show ?thesis by (simp add: goTrimSpace_def)
qed

lemma goTrimSpace_shape:
  "goTrimSpace s = [] \<or> \<not> isGoSpace (hd (goTrimSpace s)) \<and> \<not> isGoSpace (last (goTrimSpace s))"
proof -
  let ?a = "dropWhile isGoSpace s"
  let ?b = "dropWhile isGoSpace (rev ?a)"
  have t: "goTrimSpace s = rev ?b" by (simp add: goTrimSpace_def)
  show ?thesis
  proof (cases "?b = []")
    case False
    then have l: "\<not> isGoSpace (last (rev ?b))" by (simp add: last_rev hd_dropWhile)
    obtain pre where "rev ?a = pre @ ?b" by (metis takeWhile_dropWhile_id)
    then have a: "?a = rev ?b @ rev pre" by (metis rev_append rev_rev_ident)
    then have "?a \<noteq> []" "hd ?a = hd (rev ?b)" using False by (metis Nil_is_append_conv rev_is_Nil_conv, metis hd_append rev_is_Nil_conv)
    then have "\<not> isGoSpace (hd (rev ?b))" using hd_dropWhile [of isGoSpace s] by metis
    with l show ?thesis by (simp only: t) simp
  qed (simp add: t)
qed

lemma goTrimSpace_idem [simp]: "goTrimSpace (goTrimSpace s) = goTrimSpace s"
proof (cases "goTrimSpace s = []")
  case True
  then show ?thesis by (simp only: True) (simp add: goTrimSpace_def)
next
  case False
  then show ?thesis using goTrimSpace_shape [of s] by (intro goTrimSpace_solid) auto
qed

text \<open>\<open>strings.Split(s, c)\<close> for a one-character separator, and \<open>strings.Join\<close>.\<close>

fun splitOn :: "char \<Rightarrow> string \<Rightarrow> string list" where
  "splitOn c [] = [[]]"
| "splitOn c (x # xs) = (if x = c then [] # splitOn c xs
                         else (case splitOn c xs of [] \<Rightarrow> [[x]] | y # ys \<Rightarrow> (x # y) # ys))"

fun joinWith :: "string \<Rightarrow> string list \<Rightarrow> string" where
  "joinWith sep [] = []"
| "joinWith sep [x] = x"
| "joinWith sep (x # y # ys) = x @ sep @ joinWith sep (y # ys)"

lemma splitOn_solid: "c \<notin> set xs \<Longrightarrow> splitOn c xs = [xs]"
  by (induction xs) auto

lemma splitOn_append: "c \<notin> set xs \<Longrightarrow> splitOn c (xs @ c # ys) = xs # splitOn c ys"
  by (induction xs) auto

end
