(* ===== verification/AttemptLimit.thy ===== *)
theory AttemptLimit
  imports Prelude
begin

text \<open>
  The shared in-memory brute-force throttle, \<open>backend/internal/pkg/attemptlimit/attemptlimit.go\<close>.

  \<open>limiter\<close> is Go's \<open>Limiter\<close> struct without its mutex (every exported method holds the mutex for
  its whole body, so a method is one atomic step) and without its clock: the time a method reads
  with \<open>l.now()\<close> is its argument \<open>now\<close>.  A method that mutates an entry through its pointer is
  modelled by storing the mutated entry back.
\<close>

section \<open>State\<close>

definition MaxMembersPerKey :: nat where
  "MaxMembersPerKey = 128"

definition DefaultMaxKeys :: int where
  "DefaultMaxKeys = 10000"

record attempt =
  fails :: nat
  inFlight :: nat
  members :: "(string \<times> gotime) list option"
  lockedUntil :: gotime
  lastFail :: gotime

record limiter =
  entries :: "(string \<times> attempt) list"
  limMax :: nat
  maxKeys :: int
  lockout :: duration

definition new_attempt :: attempt where
  "new_attempt = \<lparr>fails = 0, inFlight = 0, members = None, lockedUntil = zero_time,
                  lastFail = zero_time\<rparr>"

text \<open>\<open>len(e.members)\<close>: the length of a nil map is 0.\<close>

definition memberCount :: "attempt \<Rightarrow> nat" where
  "memberCount e = (case members e of None \<Rightarrow> 0 | Some ms \<Rightarrow> length ms)"

definition count :: "attempt \<Rightarrow> nat" where
  "count e = max (fails e) (memberCount e)"

definition pruneMembersLocked :: "gotime \<Rightarrow> duration \<Rightarrow> attempt \<Rightarrow> attempt" where
  "pruneMembersLocked now window e =
     (case members e of
        None \<Rightarrow> e
      | Some ms \<Rightarrow> e\<lparr>members := Some (filter (\<lambda>(m, at). now - window < at) ms)\<rparr>)"

definition clampMax :: "int \<Rightarrow> nat" where
  "clampMax n = (if n < 1 then 1 else nat n)"

definition NewLimiter :: "int \<Rightarrow> duration \<Rightarrow> limiter" where
  "NewLimiter mx lock = \<lparr>entries = [], limMax = clampMax mx, maxKeys = DefaultMaxKeys, lockout = lock\<rparr>"

definition WithMaxKeys :: "int \<Rightarrow> limiter \<Rightarrow> limiter" where
  "WithMaxKeys n l = l\<lparr>maxKeys := (if n < 1 then 1 else n)\<rparr>"

definition Configure :: "int \<Rightarrow> duration \<Rightarrow> limiter \<Rightarrow> limiter" where
  "Configure mx lock l = l\<lparr>limMax := clampMax mx, lockout := lock\<rparr>"

definition putEntry :: "string \<Rightarrow> attempt \<Rightarrow> limiter \<Rightarrow> limiter" where
  "putEntry key e l = l\<lparr>entries := AList.update key e (entries l)\<rparr>"

definition Reset :: "string \<Rightarrow> limiter \<Rightarrow> limiter" where
  "Reset key l = l\<lparr>entries := AList.delete key (entries l)\<rparr>"

definition Len :: "limiter \<Rightarrow> nat" where
  "Len l = length (entries l)"

section \<open>Making room\<close>

text \<open>
  The candidate scan of \<open>stalestLocked\<close>: \<open>bestKey = ""\<close> is the sentinel for "no candidate yet",
  exactly as in the code, also for an entry whose own key is the empty string.
\<close>

fun stalestScan ::
  "gotime \<Rightarrow> bool \<Rightarrow> (string \<times> attempt) list \<Rightarrow> string \<times> gotime \<Rightarrow> string \<times> gotime" where
  "stalestScan now wantLocked [] best = best"
| "stalestScan now wantLocked ((key, e) # es) (bestKey, bestRank) =
     (if 0 < inFlight e \<or> (now < lockedUntil e) \<noteq> wantLocked
      then stalestScan now wantLocked es (bestKey, bestRank)
      else let rank = (if wantLocked then lockedUntil e else lastFail e)
           in if bestKey = [] \<or> rank < bestRank
              then stalestScan now wantLocked es (key, rank)
              else stalestScan now wantLocked es (bestKey, bestRank))"

definition stalestLocked :: "gotime \<Rightarrow> bool \<Rightarrow> limiter \<Rightarrow> string option" where
  "stalestLocked now wantLocked l =
     (let bestKey = fst (stalestScan now wantLocked (entries l) ([], zero_time))
      in if bestKey = [] then None else Some bestKey)"

definition evictOneLocked :: "gotime \<Rightarrow> limiter \<Rightarrow> limiter option" where
  "evictOneLocked now l =
     (case stalestLocked now False l of
        Some key \<Rightarrow> Some (Reset key l)
      | None \<Rightarrow> (case stalestLocked now True l of
                   Some key \<Rightarrow> Some (Reset key l)
                 | None \<Rightarrow> None))"

lemma stalestScan_key:
  "fst (stalestScan now w es best) \<in> insert (fst best) (fst ` set es)"
proof (induction now w es best rule: stalestScan.induct)
  case (1 now w best)
  then show ?case by simp
next
  case (2 now w key e es bestKey bestRank)
  then show ?case by (auto simp: Let_def split: if_splits)
qed

lemma stalestLocked_key: "stalestLocked now w l = Some k \<Longrightarrow> k \<in> fst ` set (entries l)"
  using stalestScan_key [of now w "entries l" "([], zero_time)"]
  by (auto simp: stalestLocked_def Let_def split: if_splits)

lemma Reset_length_less: "k \<in> fst ` set (entries l) \<Longrightarrow> length (entries (Reset k l)) < length (entries l)"
  by (auto simp: Reset_def fst_set_map_of [symmetric] intro: length_del_less)

lemma evictOneLocked_cases:
  assumes "evictOneLocked now l = Some l'"
  shows "\<exists>k. k \<in> fst ` set (entries l) \<and> l' = Reset k l"
  using assms by (fastforce simp: evictOneLocked_def split: option.splits dest: stalestLocked_key)

lemma evictOneLocked_length:
  "evictOneLocked now l = Some l' \<Longrightarrow> length (entries l') < length (entries l)"
  by (metis evictOneLocked_cases Reset_length_less)

text \<open>The loop of \<open>makeRoomLocked\<close> ends because every eviction removes an entry.\<close>

function evictLoop :: "gotime \<Rightarrow> limiter \<Rightarrow> limiter" where
  "evictLoop now l =
     (if maxKeys l \<le> int (length (entries l))
      then (case evictOneLocked now l of None \<Rightarrow> l | Some l' \<Rightarrow> evictLoop now l')
      else l)"
  by pat_completeness auto
termination
  by (relation "measure (\<lambda>(now, l). length (entries l))") (auto dest: evictOneLocked_length)

declare evictLoop.simps [simp del]

definition makeRoomLocked :: "gotime \<Rightarrow> limiter \<Rightarrow> limiter" where
  "makeRoomLocked now l =
     evictLoop now (if maxKeys l < 1 then l\<lparr>maxKeys := DefaultMaxKeys\<rparr> else l)"

definition entryLocked :: "gotime \<Rightarrow> string \<Rightarrow> limiter \<Rightarrow> attempt \<times> limiter" where
  "entryLocked now key l =
     (case map_of (entries l) key of
        Some e \<Rightarrow> (e, l)
      | None \<Rightarrow> (new_attempt, putEntry key new_attempt (makeRoomLocked now l)))"

section \<open>Operations\<close>

definition LockedUntil :: "gotime \<Rightarrow> string \<Rightarrow> limiter \<Rightarrow> gotime" where
  "LockedUntil now key l =
     (case map_of (entries l) key of
        None \<Rightarrow> zero_time
      | Some e \<Rightarrow> if now < lockedUntil e then lockedUntil e else zero_time)"

definition clearExpiredLocked :: "gotime \<Rightarrow> attempt \<Rightarrow> attempt" where
  "clearExpiredLocked now e =
     (if lockedUntil e \<noteq> zero_time \<and> \<not> now < lockedUntil e
      then e\<lparr>fails := 0, members := None, lockedUntil := zero_time\<rparr> else e)"

definition edge :: "bool \<Rightarrow> gotime \<Rightarrow> gotime" where
  "edge wasLocked until = (if wasLocked then zero_time else until)"

definition releaseSlot :: "attempt \<Rightarrow> attempt" where
  "releaseSlot e = (if 0 < inFlight e then e\<lparr>inFlight := inFlight e - 1\<rparr> else e)"

definition gcLocked :: "string \<Rightarrow> attempt \<Rightarrow> limiter \<Rightarrow> limiter" where
  "gcLocked key e l =
     (if count e = 0 \<and> inFlight e = 0 \<and> lockedUntil e = zero_time then Reset key l else l)"

text \<open>\<open>Begin\<close> returns \<open>(lockedUntil, ok)\<close> and the new state.\<close>

definition Begin :: "gotime \<Rightarrow> string \<Rightarrow> limiter \<Rightarrow> (gotime \<times> bool) \<times> limiter" where
  "Begin now key l =
     (let (e0, l0) = entryLocked now key l;
          e1 = clearExpiredLocked now e0
      in if now < lockedUntil e1 then ((lockedUntil e1, False), putEntry key e1 l0)
         else let e2 = pruneMembersLocked now (lockout l0) e1
              in if limMax l0 \<le> count e2 + inFlight e2
                 then let e3 = e2\<lparr>lockedUntil := now + lockout l0\<rparr>
                      in ((lockedUntil e3, False), putEntry key e3 l0)
                 else ((zero_time, True), putEntry key (e2\<lparr>inFlight := Suc (inFlight e2)\<rparr>) l0))"

definition Release :: "string \<Rightarrow> limiter \<Rightarrow> limiter" where
  "Release key l =
     (case map_of (entries l) key of
        None \<Rightarrow> l
      | Some e \<Rightarrow>
          if inFlight e = 0 then l
          else let e' = e\<lparr>inFlight := inFlight e - 1\<rparr> in gcLocked key e' (putEntry key e' l))"

text \<open>
  The part of \<open>CommitFail\<close> and \<open>Fail\<close> after the reservation: count one scalar failure, lock the
  key when the cap is reached, report the expiry only when this call armed it.
\<close>

definition countFail :: "gotime \<Rightarrow> limiter \<Rightarrow> attempt \<Rightarrow> (nat \<times> gotime) \<times> attempt" where
  "countFail now l e =
     (let e1 = clearExpiredLocked now e;
          wasLocked = (now < lockedUntil e1);
          e2 = e1\<lparr>fails := Suc (fails e1), lastFail := now\<rparr>;
          e3 = (if limMax l \<le> count e2 then e2\<lparr>lockedUntil := now + lockout l\<rparr> else e2)
      in ((fails e3, edge wasLocked (lockedUntil e3)), e3))"

definition CommitFail :: "gotime \<Rightarrow> string \<Rightarrow> limiter \<Rightarrow> (nat \<times> gotime) \<times> limiter" where
  "CommitFail now key l =
     (let (e0, l0) = entryLocked now key l;
          (r, e) = countFail now l0 (releaseSlot e0)
      in (r, putEntry key e l0))"

definition Fail :: "gotime \<Rightarrow> string \<Rightarrow> limiter \<Rightarrow> (nat \<times> gotime) \<times> limiter" where
  "Fail now key l =
     (let (e0, l0) = entryLocked now key l;
          (r, e) = countFail now l0 e0
      in (r, putEntry key e l0))"

text \<open>
  Set mode.  \<open>admitMember\<close> is the step from the pruned set to the set with this failure in it.
\<close>

definition admitMember :: "gotime \<Rightarrow> string \<Rightarrow> (string \<times> gotime) list \<Rightarrow> (string \<times> gotime) list" where
  "admitMember now member ms =
     (if map_of ms member \<noteq> None \<or> length ms < MaxMembersPerKey
      then AList.update member now ms else ms)"

definition ensureMembers :: "attempt \<Rightarrow> attempt" where
  "ensureMembers e = (case members e of None \<Rightarrow> e\<lparr>members := Some []\<rparr> | Some _ \<Rightarrow> e)"

definition countMember :: "gotime \<Rightarrow> string \<Rightarrow> limiter \<Rightarrow> attempt \<Rightarrow> (nat \<times> gotime) \<times> attempt" where
  "countMember now member l e =
     (let e1 = clearExpiredLocked now e;
          wasLocked = (now < lockedUntil e1);
          e2 = pruneMembersLocked now (lockout l) (ensureMembers e1);
          ms = admitMember now member (the (members e2));
          e3 = e2\<lparr>members := Some ms, lastFail := now\<rparr>;
          n = length ms;
          e4 = (if limMax l \<le> n \<or> MaxMembersPerKey \<le> n
                then e3\<lparr>lockedUntil := now + lockout l\<rparr> else e3)
      in ((n, edge wasLocked (lockedUntil e4)), e4))"

definition commitFailForLocked ::
  "gotime \<Rightarrow> string \<Rightarrow> string \<Rightarrow> bool \<Rightarrow> limiter \<Rightarrow> (nat \<times> gotime) \<times> limiter" where
  "commitFailForLocked now key member rel l =
     (let (e0, l0) = entryLocked now key l;
          (r, e) = countMember now member l0 (if rel then releaseSlot e0 else e0)
      in (r, putEntry key e l0))"

definition CommitFailFor :: "gotime \<Rightarrow> string \<Rightarrow> string \<Rightarrow> limiter \<Rightarrow> (nat \<times> gotime) \<times> limiter" where
  "CommitFailFor now key member l = commitFailForLocked now key member True l"

definition FailFor :: "gotime \<Rightarrow> string \<Rightarrow> string \<Rightarrow> limiter \<Rightarrow> (nat \<times> gotime) \<times> limiter" where
  "FailFor now key member l = commitFailForLocked now key member False l"

definition CommitSuccess :: "gotime \<Rightarrow> string \<Rightarrow> limiter \<Rightarrow> limiter" where
  "CommitSuccess now key l =
     (case map_of (entries l) key of
        None \<Rightarrow> l
      | Some e \<Rightarrow>
          let e1 = (releaseSlot e)\<lparr>fails := 0\<rparr>;
              e2 = (if members e1 = None then e1\<lparr>lockedUntil := zero_time\<rparr> else e1);
              e3 = pruneMembersLocked now (lockout l) e2
          in gcLocked key e3 (putEntry key e3 l))"

definition sweepKeeps :: "gotime \<Rightarrow> duration \<Rightarrow> string \<times> attempt \<Rightarrow> bool" where
  "sweepKeeps now olderThan kv =
     (case kv of (k, e) \<Rightarrow>
        0 < inFlight e \<or> now < lockedUntil e \<or> now - olderThan < lastFail e)"

definition Sweep :: "gotime \<Rightarrow> duration \<Rightarrow> limiter \<Rightarrow> nat \<times> limiter" where
  "Sweep now olderThan l =
     (let kept = filter (sweepKeeps now olderThan) (entries l)
      in (length (entries l) - length kept, l\<lparr>entries := kept\<rparr>))"

section \<open>What the table operations keep\<close>

lemma entries_putEntry [simp]: "entries (putEntry k e l) = AList.update k e (entries l)"
  by (simp add: putEntry_def)

lemma putEntry_frame [simp]:
  "limMax (putEntry k e l) = limMax l" "lockout (putEntry k e l) = lockout l"
  "maxKeys (putEntry k e l) = maxKeys l"
  by (simp_all add: putEntry_def)

lemma entries_Reset [simp]: "entries (Reset k l) = AList.delete k (entries l)"
  by (simp add: Reset_def)

lemma Reset_frame [simp]:
  "limMax (Reset k l) = limMax l" "lockout (Reset k l) = lockout l" "maxKeys (Reset k l) = maxKeys l"
  by (simp_all add: Reset_def)

text \<open>
  \<open>entries l'\<close> is a sub-table of \<open>entries l\<close>: what eviction, garbage collection and sweeping
  produce.
\<close>

definition subTable :: "(string \<times> attempt) list \<Rightarrow> (string \<times> attempt) list \<Rightarrow> bool" where
  "subTable es' es = (\<exists>P. es' = filter P es)"

lemma subTable_refl [simp]: "subTable es es"
  by (auto simp: subTable_def intro: exI [of _ "\<lambda>_. True"])

lemma subTable_trans: "subTable a b \<Longrightarrow> subTable b c \<Longrightarrow> subTable a c"
  by (auto simp: subTable_def)

lemma subTable_delete [simp]: "subTable (AList.delete k es) es"
  by (auto simp: subTable_def AList.delete_eq)

lemma subTable_list_all: "subTable es' es \<Longrightarrow> list_all P es \<Longrightarrow> list_all P es'"
  by (auto simp: subTable_def list_all_iff)

lemma subTable_distinct: "subTable es' es \<Longrightarrow> distinct (map fst es) \<Longrightarrow> distinct (map fst es')"
  by (auto simp: subTable_def distinct_filter_keys)

lemma subTable_map_of:
  "subTable es' es \<Longrightarrow> distinct (map fst es) \<Longrightarrow> map_of es' k = Some e \<Longrightarrow> map_of es k = Some e"
  by (auto simp: subTable_def map_of_filter_keys split: option.splits if_splits)

lemma evictLoop_frame:
  "limMax (evictLoop now l) = limMax l \<and> lockout (evictLoop now l) = lockout l \<and>
   maxKeys (evictLoop now l) = maxKeys l \<and> subTable (entries (evictLoop now l)) (entries l)"
proof (induction now l rule: evictLoop.induct)
  case (1 now l)
  show ?case
  proof (cases "maxKeys l \<le> int (length (entries l)) \<and> evictOneLocked now l \<noteq> None")
    case True
    then obtain l' where e: "evictOneLocked now l = Some l'" by auto
    then obtain k where "l' = Reset k l" using evictOneLocked_cases by blast
    with "1.IH" [OF _ e] True e show ?thesis
      by (subst (1 2 3 4) evictLoop.simps) (auto intro: subTable_trans)
  next
    case False
    then show ?thesis by (subst (1 2 3 4) evictLoop.simps) auto
  qed
qed

lemma makeRoomLocked_frame [simp]:
  "limMax (makeRoomLocked now l) = limMax l" "lockout (makeRoomLocked now l) = lockout l"
  "subTable (entries (makeRoomLocked now l)) (entries l)"
  using evictLoop_frame [of now "l\<lparr>maxKeys := DefaultMaxKeys\<rparr>"] evictLoop_frame [of now l]
  by (simp_all add: makeRoomLocked_def)

lemma makeRoomLocked_maxKeys:
  "maxKeys (makeRoomLocked now l) = (if maxKeys l < 1 then DefaultMaxKeys else maxKeys l)"
  by (simp add: makeRoomLocked_def evictLoop_frame)

lemma entryLocked_frame:
  assumes "entryLocked now key l = (e, l0)"
  shows "limMax l0 = limMax l" "lockout l0 = lockout l" "map_of (entries l0) key = Some e"
  using assms by (auto simp: entryLocked_def split: option.splits)

lemma entryLocked_all:
  assumes "entryLocked now key l = (e, l0)" "list_all P (entries l)" "P (key, new_attempt)"
  shows "P (key, e)" "list_all P (entries l0)"
proof -
  have r: "list_all P (entries (makeRoomLocked now l))"
    using assms(2) by (rule subTable_list_all [OF makeRoomLocked_frame(3)])
  show "P (key, e)" "list_all P (entries l0)"
    using assms r by (auto simp: entryLocked_def list_all_put list_all_map_of split: option.splits)
qed

lemma entryLocked_distinct:
  assumes "entryLocked now key l = (e, l0)" "distinct (map fst (entries l))"
  shows "distinct (map fst (entries l0))"
proof -
  have "distinct (map fst (entries (makeRoomLocked now l)))"
    using assms(2) by (rule subTable_distinct [OF makeRoomLocked_frame(3)])
  with assms show ?thesis
    by (auto simp: entryLocked_def split: option.splits intro: distinct_update)
qed

lemma gcLocked_subTable: "subTable (entries (gcLocked k e l)) (entries l)"
  by (simp add: gcLocked_def)

lemma gcLocked_frame [simp]: "limMax (gcLocked k e l) = limMax l" "lockout (gcLocked k e l) = lockout l"
  by (simp_all add: gcLocked_def)

section \<open>Invariants\<close>

definition wfAttempt :: "attempt \<Rightarrow> bool" where
  "wfAttempt e =
     (case members e of
        None \<Rightarrow> True
      | Some ms \<Rightarrow> length ms \<le> MaxMembersPerKey \<and> distinct (map fst ms))"

definition wfLimiter :: "limiter \<Rightarrow> bool" where
  "wfLimiter l = (1 \<le> limMax l \<and> distinct (map fst (entries l)) \<and>
                  list_all (\<lambda>(k, e). wfAttempt e) (entries l))"

text \<open>What the cap is measured against, reservations included.\<close>

definition charged :: "attempt \<Rightarrow> nat" where
  "charged e = count e + inFlight e"

definition withinBudget :: "limiter \<Rightarrow> bool" where
  "withinBudget l = list_all (\<lambda>(k, e). charged e \<le> limMax l) (entries l)"

subsection \<open>One entry\<close>

lemmas attempt_defs = clearExpiredLocked_def pruneMembersLocked_def releaseSlot_def countFail_def
  countMember_def memberCount_def count_def charged_def

lemma new_attempt_simps [simp]:
  "fails new_attempt = 0" "inFlight new_attempt = 0" "members new_attempt = None"
  "lockedUntil new_attempt = zero_time" "count new_attempt = 0" "charged new_attempt = 0"
  "wfAttempt new_attempt"
  by (simp_all add: new_attempt_def attempt_defs wfAttempt_def)

lemma memberCount_fails_update [simp]:
  "memberCount (e\<lparr>fails := n\<rparr>) = memberCount e" "memberCount (e\<lparr>inFlight := n\<rparr>) = memberCount e"
  "memberCount (e\<lparr>lockedUntil := t\<rparr>) = memberCount e" "memberCount (e\<lparr>lastFail := t\<rparr>) = memberCount e"
  by (simp_all add: memberCount_def)

lemma count_field_update [simp]:
  "count (e\<lparr>inFlight := n\<rparr>) = count e" "count (e\<lparr>lockedUntil := t\<rparr>) = count e"
  "count (e\<lparr>lastFail := t\<rparr>) = count e"
  by (simp_all add: count_def)

lemma wfAttempt_update [simp]:
  "wfAttempt (e\<lparr>fails := n\<rparr>) = wfAttempt e" "wfAttempt (e\<lparr>inFlight := n\<rparr>) = wfAttempt e"
  "wfAttempt (e\<lparr>lockedUntil := t\<rparr>) = wfAttempt e" "wfAttempt (e\<lparr>lastFail := t\<rparr>) = wfAttempt e"
  by (simp_all add: wfAttempt_def)

lemma clearExpiredLocked_le:
  "count (clearExpiredLocked now e) \<le> count e" "inFlight (clearExpiredLocked now e) = inFlight e"
  "memberCount (clearExpiredLocked now e) \<le> memberCount e" "fails (clearExpiredLocked now e) \<le> fails e"
  by (simp_all add: attempt_defs)

lemma pruneMembersLocked_le:
  "count (pruneMembersLocked now w e) \<le> count e" "inFlight (pruneMembersLocked now w e) = inFlight e"
  "memberCount (pruneMembersLocked now w e) \<le> memberCount e"
  "fails (pruneMembersLocked now w e) = fails e" "lockedUntil (pruneMembersLocked now w e) = lockedUntil e"
  by (auto simp: attempt_defs split: option.splits intro: max.mono le_trans [OF length_filter_le])

lemma clearExpiredLocked_wf: "wfAttempt e \<Longrightarrow> wfAttempt (clearExpiredLocked now e)"
  by (simp add: wfAttempt_def clearExpiredLocked_def)

lemma pruneMembersLocked_wf: "wfAttempt e \<Longrightarrow> wfAttempt (pruneMembersLocked now w e)"
  by (auto simp: wfAttempt_def pruneMembersLocked_def distinct_filter_keys split: option.splits
      intro: le_trans [OF length_filter_le])

lemma admitMember_wf:
  assumes "length ms \<le> MaxMembersPerKey" "distinct (map fst ms)"
  shows "length (admitMember now m ms) \<le> MaxMembersPerKey" "distinct (map fst (admitMember now m ms))"
    "length (admitMember now m ms) \<le> Suc (length ms)" "length ms \<le> length (admitMember now m ms)"
  using assms by (auto simp: admitMember_def length_put intro: distinct_update)

lemma releaseSlot_simps [simp]:
  "inFlight (releaseSlot e) = inFlight e - 1" "count (releaseSlot e) = count e"
  "members (releaseSlot e) = members e" "lockedUntil (releaseSlot e) = lockedUntil e"
  "fails (releaseSlot e) = fails e" "wfAttempt (releaseSlot e) = wfAttempt e"
  by (simp_all add: releaseSlot_def)

lemma countFail_props:
  assumes "countFail now l e = (r, e')"
  shows "count e' \<le> Suc (count e)" "inFlight e' = inFlight e" "wfAttempt e \<Longrightarrow> wfAttempt e'"
  using assms clearExpiredLocked_le [of now e] clearExpiredLocked_wf [of e now]
  by (auto simp: countFail_def Let_def count_def)

definition memberList :: "attempt \<Rightarrow> (string \<times> gotime) list" where
  "memberList e = (case members e of None \<Rightarrow> [] | Some ms \<Rightarrow> ms)"

lemma memberCount_eq: "memberCount e = length (memberList e)"
  by (simp add: memberCount_def memberList_def split: option.splits)

lemma ensureMembers_simps [simp]:
  "fails (ensureMembers e) = fails e" "inFlight (ensureMembers e) = inFlight e"
  "lockedUntil (ensureMembers e) = lockedUntil e" "members (ensureMembers e) = Some (memberList e)"
  by (simp_all add: ensureMembers_def memberList_def split: option.splits)

lemma pruned_ensured [simp]:
  "members (pruneMembersLocked now w (ensureMembers e)) =
   Some (filter (\<lambda>(m, at). now - w < at) (memberList e))"
  by (simp add: pruneMembersLocked_def)

lemma countMember_props:
  assumes "countMember now m l e = (r, e')" and wf: "wfAttempt e"
  shows "count e' \<le> Suc (count e)" "inFlight e' = inFlight e" "wfAttempt e'"
proof -
  define e1 where "e1 = clearExpiredLocked now e"
  define ms where "ms = memberList e1"
  define kept where "kept = filter (\<lambda>(m, at). now - lockout l < at) ms"
  have wf1: "wfAttempt e1" unfolding e1_def using wf by (rule clearExpiredLocked_wf)
  then have "length ms \<le> MaxMembersPerKey" "distinct (map fst ms)"
    by (auto simp: wfAttempt_def ms_def memberList_def split: option.splits)
  then have k: "length kept \<le> MaxMembersPerKey" "distinct (map fst kept)" "length kept \<le> length ms"
    by (auto simp: kept_def distinct_filter_keys intro: le_trans [OF length_filter_le])
  note adm = admitMember_wf [OF k(1,2), of now m]
  have c: "length ms = memberCount e1" by (simp add: ms_def memberCount_eq)
  have e': "members e' = Some (admitMember now m kept)" "inFlight e' = inFlight e" "fails e' = fails e1"
    using assms(1) clearExpiredLocked_le(2) [of now e]
    by (auto simp: countMember_def Let_def pruneMembersLocked_le kept_def ms_def e1_def)
  show "inFlight e' = inFlight e" by (rule e')
  show "wfAttempt e'" using adm e' by (simp add: wfAttempt_def)
  have "count e' \<le> max (fails e1) (Suc (memberCount e1))"
    using adm(3) k(3) c e' by (simp add: count_def memberCount_def max.coboundedI2)
  also have "\<dots> \<le> Suc (count e)"
    using clearExpiredLocked_le(1) [of now e] by (simp add: count_def e1_def)
  finally show "count e' \<le> Suc (count e)" .
qed

subsection \<open>The table\<close>

lemma update_entry_all:
  assumes "entryLocked now key l = (e0, l0)" "list_all P (entries l)" "P (key, new_attempt)"
    and "P (key, e0) \<Longrightarrow> P (key, e)"
  shows "list_all P (entries (putEntry key e l0))"
  using entryLocked_all [OF assms(1-3)] assms(4) by (simp add: list_all_put)

lemma update_entry_wf:
  assumes "entryLocked now key l = (e0, l0)" "wfLimiter l" "wfAttempt e0 \<Longrightarrow> wfAttempt e"
  shows "wfLimiter (putEntry key e l0)"
  using assms entryLocked_distinct [OF assms(1)] entryLocked_frame [OF assms(1)]
    update_entry_all [OF assms(1), of "\<lambda>(k, e). wfAttempt e" e]
  by (auto simp: wfLimiter_def intro: distinct_update)

lemma wf_entry: "wfLimiter l \<Longrightarrow> map_of (entries l) k = Some e \<Longrightarrow> wfAttempt e"
  by (auto simp: wfLimiter_def dest: list_all_map_of)

lemma wf_entryLocked: "entryLocked now key l = (e0, l0) \<Longrightarrow> wfLimiter l \<Longrightarrow> wfAttempt e0"
  using entryLocked_all [of now key l e0 l0 "\<lambda>(k, e). wfAttempt e"] by (simp add: wfLimiter_def)

lemma wf_subTable:
  "wfLimiter l \<Longrightarrow> subTable (entries l') (entries l) \<Longrightarrow> limMax l' = limMax l \<Longrightarrow> wfLimiter l'"
  by (auto simp: wfLimiter_def intro: subTable_list_all subTable_distinct)

lemma wf_putEntry: "wfLimiter l \<Longrightarrow> wfAttempt e \<Longrightarrow> wfLimiter (putEntry k e l)"
  by (auto simp: wfLimiter_def list_all_put intro: distinct_update)

lemma wf_gcLocked: "wfLimiter l \<Longrightarrow> wfLimiter (gcLocked k e l)"
  by (erule wf_subTable) (simp_all add: gcLocked_subTable)

lemma Begin_wf: "wfLimiter l \<Longrightarrow> wfLimiter (snd (Begin now key l))"
  by (auto simp: Begin_def Let_def split: prod.splits
      intro!: update_entry_wf clearExpiredLocked_wf pruneMembersLocked_wf)

lemma CommitFail_wf: "wfLimiter l \<Longrightarrow> wfLimiter (snd (CommitFail now key l))"
  by (auto simp: CommitFail_def Let_def split: prod.splits
      intro!: update_entry_wf dest: countFail_props(3))

lemma Fail_wf: "wfLimiter l \<Longrightarrow> wfLimiter (snd (Fail now key l))"
  by (auto simp: Fail_def Let_def split: prod.splits
      intro!: update_entry_wf dest: countFail_props(3))

lemma commitFailForLocked_wf: "wfLimiter l \<Longrightarrow> wfLimiter (snd (commitFailForLocked now key m rel l))"
  by (auto simp: commitFailForLocked_def Let_def split: prod.splits if_splits
      intro!: update_entry_wf dest: countMember_props(3))

lemma Release_wf: "wfLimiter l \<Longrightarrow> wfLimiter (Release key l)"
  by (auto simp: Release_def Let_def split: option.splits dest: wf_entry
      intro!: wf_gcLocked wf_putEntry)

lemma CommitSuccess_wf: "wfLimiter l \<Longrightarrow> wfLimiter (CommitSuccess now key l)"
  by (auto simp: CommitSuccess_def Let_def split: option.splits dest: wf_entry
      intro!: wf_gcLocked wf_putEntry pruneMembersLocked_wf)

lemma Reset_wf: "wfLimiter l \<Longrightarrow> wfLimiter (Reset key l)"
  by (erule wf_subTable) simp_all

lemma Sweep_wf: "wfLimiter l \<Longrightarrow> wfLimiter (snd (Sweep now d l))"
  by (erule wf_subTable) (auto simp: Sweep_def Let_def subTable_def)

lemma Configure_wf: "wfLimiter l \<Longrightarrow> wfLimiter (Configure mx lock l)"
  by (auto simp: wfLimiter_def Configure_def clampMax_def)

section \<open>Every interleaving\<close>

text \<open>
  One step of the limiter, by any goroutine.  A commit belongs to a reservation (the pairing
  \<open>Begin\<close> documents), so it needs a slot of its key in flight; everything else may happen at any
  time, with any clock reading.  \<open>reorder\<close> is the runtime's freedom to iterate the map in a new
  order.
\<close>

definition heldSlot :: "string \<Rightarrow> limiter \<Rightarrow> bool" where
  "heldSlot key l = (case map_of (entries l) key of None \<Rightarrow> False | Some e \<Rightarrow> 0 < inFlight e)"

inductive limStep :: "limiter \<Rightarrow> limiter \<Rightarrow> bool" where
  begins: "limStep l (snd (Begin now key l))"
| commitFail: "heldSlot key l \<Longrightarrow> limStep l (snd (CommitFail now key l))"
| commitFailFor: "heldSlot key l \<Longrightarrow> limStep l (snd (CommitFailFor now key m l))"
| commitSuccess: "limStep l (CommitSuccess now key l)"
| release: "limStep l (Release key l)"
| reset: "limStep l (Reset key l)"
| sweep: "limStep l (snd (Sweep now d l))"
| reorder: "mset es = mset (entries l) \<Longrightarrow> limStep l (l\<lparr>entries := es\<rparr>)"

inductive limReachable :: "int \<Rightarrow> duration \<Rightarrow> limiter \<Rightarrow> bool" for mx lock where
  new: "limReachable mx lock (NewLimiter mx lock)"
| newKeys: "limReachable mx lock (WithMaxKeys n (NewLimiter mx lock))"
| step: "limReachable mx lock l \<Longrightarrow> limStep l l' \<Longrightarrow> limReachable mx lock l'"

lemma limStep_wf: "limStep l l' \<Longrightarrow> wfLimiter l \<Longrightarrow> wfLimiter l'"
proof (induction rule: limStep.induct)
  case (reorder es l)
  from reorder(2) show ?case
    by (simp add: wfLimiter_def perm_distinct_keys [OF reorder(1)] perm_list_all [OF reorder(1)])
qed (simp_all add: Begin_wf CommitFail_wf commitFailForLocked_wf CommitFailFor_def CommitSuccess_wf
    Release_wf Reset_wf Sweep_wf)

subsection \<open>The budget\<close>

lemma budget_subTable:
  "withinBudget l \<Longrightarrow> subTable (entries l') (entries l) \<Longrightarrow> limMax l' = limMax l \<Longrightarrow> withinBudget l'"
  by (auto simp: withinBudget_def intro: subTable_list_all)

lemma budget_entry: "withinBudget l \<Longrightarrow> map_of (entries l) k = Some e \<Longrightarrow> charged e \<le> limMax l"
  by (auto simp: withinBudget_def dest: list_all_map_of)

lemma budget_putEntry: "withinBudget l \<Longrightarrow> charged e \<le> limMax l \<Longrightarrow> withinBudget (putEntry k e l)"
  by (simp add: withinBudget_def list_all_put)

lemma budget_gcLocked: "withinBudget l \<Longrightarrow> withinBudget (gcLocked k e l)"
  by (erule budget_subTable) (simp_all add: gcLocked_subTable)

lemma budget_update:
  assumes "entryLocked now key l = (e0, l0)" "withinBudget l"
    and "charged e0 \<le> limMax l \<Longrightarrow> charged e \<le> limMax l"
  shows "withinBudget (putEntry key e l0)"
  using update_entry_all [OF assms(1), of "\<lambda>(k, e). charged e \<le> limMax l" e] assms(2,3)
    entryLocked_frame [OF assms(1)] by (simp add: withinBudget_def)

lemma charged_clear: "charged (clearExpiredLocked now e) \<le> charged e"
  using clearExpiredLocked_le [of now e] by (simp add: charged_def)

lemma charged_prune: "charged (pruneMembersLocked now w e) \<le> charged e"
  using pruneMembersLocked_le [of now w e] by (simp add: charged_def)

lemma charged_update [simp]:
  "charged (e\<lparr>lockedUntil := t\<rparr>) = charged e" "charged (e\<lparr>inFlight := n\<rparr>) = count e + n"
  by (simp_all add: charged_def)

lemma charged_prune_clear:
  "charged (pruneMembersLocked now w (clearExpiredLocked now e)) \<le> charged e"
  by (rule order_trans [OF charged_prune charged_clear])

lemma Begin_budget:
  assumes "withinBudget l"
  shows "withinBudget (snd (Begin now key l))"
proof -
  obtain e l0 where e: "entryLocked now key l = (e, l0)" by (meson surj_pair)
  let ?e1 = "clearExpiredLocked now e"
  let ?e2 = "pruneMembersLocked now (lockout l0) ?e1"
  have "withinBudget (putEntry key ?e1 l0)"
    by (rule budget_update [OF e assms]) (rule order_trans [OF charged_clear])
  moreover have "withinBudget (putEntry key (?e2\<lparr>lockedUntil := t\<rparr>) l0)" for t
    by (rule budget_update [OF e assms]) (simp add: order_trans [OF charged_prune_clear])
  moreover have "withinBudget (putEntry key (?e2\<lparr>inFlight := Suc (inFlight ?e2)\<rparr>) l0)"
    if "\<not> limMax l0 \<le> count ?e2 + inFlight ?e2"
    using that entryLocked_frame(1) [OF e] by (intro budget_update [OF e assms]) simp
  ultimately show ?thesis using e by (simp add: Begin_def Let_def)
qed

lemma CommitFail_budget:
  assumes "withinBudget l" "heldSlot key l"
  shows "withinBudget (snd (CommitFail now key l))"
proof -
  obtain e where e: "map_of (entries l) key = Some e" "0 < inFlight e"
    using assms(2) by (auto simp: heldSlot_def split: option.splits)
  obtain r e' where c: "countFail now l (releaseSlot e) = (r, e')" by (meson surj_pair)
  have "charged e' \<le> charged e"
    using countFail_props(1,2) [OF c] e(2) by (simp add: charged_def)
  with e c budget_entry [OF assms(1) e(1)] show ?thesis
    by (simp add: CommitFail_def entryLocked_def budget_putEntry assms(1))
qed

lemma CommitFailFor_budget:
  assumes "withinBudget l" "heldSlot key l" "wfLimiter l"
  shows "withinBudget (snd (CommitFailFor now key m l))"
proof -
  obtain e where e: "map_of (entries l) key = Some e" "0 < inFlight e"
    using assms(2) by (auto simp: heldSlot_def split: option.splits)
  obtain r e' where c: "countMember now m l (releaseSlot e) = (r, e')" by (meson surj_pair)
  have "charged e' \<le> charged e"
    using countMember_props(1,2) [OF c] wf_entry [OF assms(3) e(1)] e(2) by (simp add: charged_def)
  with e c budget_entry [OF assms(1) e(1)] show ?thesis
    by (simp add: CommitFailFor_def commitFailForLocked_def entryLocked_def budget_putEntry assms(1))
qed

lemma Release_budget: "withinBudget l \<Longrightarrow> withinBudget (Release key l)"
  by (auto simp: Release_def Let_def charged_def split: option.splits dest: budget_entry
      intro!: budget_gcLocked budget_putEntry)

lemma CommitSuccess_budget:
  assumes "withinBudget l"
  shows "withinBudget (CommitSuccess now key l)"
proof (cases "map_of (entries l) key")
  case None
  with assms show ?thesis by (simp add: CommitSuccess_def)
next
  case (Some e)
  let ?e1 = "(releaseSlot e)\<lparr>fails := 0\<rparr>"
  let ?e2 = "if members ?e1 = None then ?e1\<lparr>lockedUntil := zero_time\<rparr> else ?e1"
  let ?e3 = "pruneMembersLocked now (lockout l) ?e2"
  have "count ?e1 \<le> count e" by (simp add: count_def memberCount_def)
  then have "charged ?e2 \<le> charged e" unfolding charged_def
    by (cases "members e") simp_all
  then have "charged ?e3 \<le> limMax l"
    by (rule order_trans [OF charged_prune order_trans [OF _ budget_entry [OF assms Some]]])
  then have "withinBudget (gcLocked key ?e3 (putEntry key ?e3 l))"
    by (intro budget_gcLocked budget_putEntry assms)
  with Some show ?thesis by (simp only: CommitSuccess_def Let_def option.case)
qed

lemma limStep_budget: "limStep l l' \<Longrightarrow> wfLimiter l \<Longrightarrow> withinBudget l \<Longrightarrow> withinBudget l'"
proof (induction rule: limStep.induct)
  case (reset l key)
  show ?case by (rule budget_subTable [OF reset(2)]) simp_all
next
  case (sweep l now d)
  show ?case by (rule budget_subTable [OF sweep(2)]) (auto simp: Sweep_def Let_def subTable_def)
next
  case (reorder es l)
  from reorder(3) show ?case by (simp add: withinBudget_def perm_list_all [OF reorder(1)])
qed (simp_all add: Begin_budget CommitFail_budget CommitFailFor_budget Release_budget
    CommitSuccess_budget)

lemma limStep_limMax: "limStep l l' \<Longrightarrow> limMax l' = limMax l"
  by (induction rule: limStep.induct)
     (auto simp: Begin_def CommitFail_def CommitFailFor_def commitFailForLocked_def Release_def
       CommitSuccess_def Sweep_def Let_def split: prod.splits option.splits
       dest: entryLocked_frame(1))

lemma limReachable_inv:
  "limReachable mx lock l \<Longrightarrow> wfLimiter l \<and> withinBudget l \<and> limMax l = clampMax mx"
proof (induction rule: limReachable.induct)
  case (step l l')
  then show ?case by (auto simp: limStep_wf limStep_budget limStep_limMax)
qed (auto simp: NewLimiter_def WithMaxKeys_def wfLimiter_def withinBudget_def clampMax_def)

section \<open>Brute force is capped\<close>

text \<open>
  An attacker who always guesses wrong on one key: any interleaving of reservations, failed commits and
  aborted attempts (a release), at any times.  An attempt is settled once, so \<open>GFail\<close> and \<open>GAbort\<close> need one
  that is open.  \<open>guessRun\<close> answers the attempts still open, the wrong guesses that were
  examined, and the calls that reported a lockout.
\<close>

datatype guess = GBegin | GFail | GAbort

fun guessRun :: "string \<Rightarrow> nat \<Rightarrow> (gotime \<times> guess) list \<Rightarrow> limiter \<Rightarrow> (nat \<times> nat \<times> nat) \<times> limiter" where
  "guessRun key open [] l = ((open, 0, 0), l)"
| "guessRun key open ((t, GBegin) # ops) l =
     (let ((_, ok), l1) = Begin t key l in guessRun key (if ok then Suc open else open) ops l1)"
| "guessRun key open ((t, GFail) # ops) l =
     (if open = 0 then guessRun key open ops l
      else let ((_, until), l1) = CommitFail t key l; ((h, w, r), l2) = guessRun key (open - 1) ops l1
           in ((h, Suc w, (if until \<noteq> zero_time then Suc r else r)), l2))"
| "guessRun key open ((t, GAbort) # ops) l =
     (if open = 0 then guessRun key open ops l else guessRun key (open - 1) ops (Release key l))"

lemma clearExpired_inactive:
  "lockedUntil e = zero_time \<or> now < lockedUntil e \<Longrightarrow> clearExpiredLocked now e = e"
  by (auto simp: clearExpiredLocked_def)

lemma prune_scalar [simp]: "members e = None \<Longrightarrow> pruneMembersLocked now w e = e"
  by (simp add: pruneMembersLocked_def)

lemma count_scalar: "members e = None \<Longrightarrow> count e = fails e"
  by (simp add: count_def memberCount_def)

lemma entryLocked_single:
  assumes "entries l = [] \<or> entries l = [(key, e)]" "1 \<le> maxKeys l"
  shows "entryLocked now key l =
    (if entries l = [] then (new_attempt, putEntry key new_attempt l) else (e, l))"
  using assms by (auto simp: entryLocked_def makeRoomLocked_def evictLoop.simps)

text \<open>
  The entry of the key after \<open>n\<close> lockouts were served since \<open>t0\<close>: \<open>w\<close> wrong guesses and \<open>r\<close> reports so far,
  \<open>h\<close> attempts open.
\<close>

definition charged_up :: "gotime \<Rightarrow> nat \<Rightarrow> duration \<Rightarrow> nat \<Rightarrow> attempt \<Rightarrow> nat \<Rightarrow> nat \<Rightarrow> nat \<Rightarrow> bool" where
  "charged_up t0 mx lk n e h w r =
     (members e = None \<and> h \<le> inFlight e \<and> fails e + inFlight e \<le> mx \<and> w \<le> mx * n + fails e \<and>
      (if lockedUntil e = zero_time then r \<le> n else t0 + int n * lk + lk \<le> lockedUntil e \<and> r \<le> Suc n))"

definition entryOf :: "string \<Rightarrow> limiter \<Rightarrow> attempt" where
  "entryOf key l = (case map_of (entries l) key of None \<Rightarrow> new_attempt | Some e \<Rightarrow> e)"

lemma entryLocked_of:
  obtains l0 where "entryLocked now key l = (entryOf key l, l0)" "limMax l0 = limMax l" "lockout l0 = lockout l"
proof (cases "map_of (entries l) key")
  case None
  then show ?thesis using that [of "putEntry key new_attempt (makeRoomLocked now l)"]
    by (simp add: entryLocked_def entryOf_def)
next
  case (Some e)
  then show ?thesis using that [of l] by (simp add: entryLocked_def entryOf_def)
qed

lemma entryOf_put [simp]: "entryOf key (putEntry key e l) = e"
  by (simp add: entryOf_def putEntry_def update_conv')

lemma charged_up_clear:
  assumes "charged_up t0 mx lk n e h w r" "t0 + int n * lk \<le> now"
  obtains m where "charged_up t0 mx lk m (clearExpiredLocked now e) h w r" "t0 + int m * lk \<le> now"
    "lockedUntil (clearExpiredLocked now e) = zero_time \<or> now < lockedUntil (clearExpiredLocked now e)"
proof (cases "lockedUntil e \<noteq> zero_time \<and> \<not> now < lockedUntil e")
  case True
  have "charged_up t0 mx lk (Suc n) (clearExpiredLocked now e) h w r"
    using assms(1) True by (auto simp: charged_up_def clearExpiredLocked_def)
  moreover have "t0 + int (Suc n) * lk \<le> now"
    using assms(1) True by (auto simp: charged_up_def distrib_right)
  ultimately show ?thesis using that by (simp add: clearExpiredLocked_def True)
next
  case False
  then show ?thesis using that [of n] assms by (auto simp: clearExpiredLocked_def)
qed

lemma Begin_charged:
  assumes "charged_up t0 (limMax l) (lockout l) n (entryOf key l) h w r" "t0 + int n * lockout l \<le> now" "0 < t0" "0 < lockout l"
    and "t0 \<le> now"
  obtains m where "charged_up t0 (limMax l) (lockout l) m (entryOf key (snd (Begin now key l)))
      (if snd (fst (Begin now key l)) then Suc h else h) w r" "t0 + int m * lockout l \<le> now"
    "limMax (snd (Begin now key l)) = limMax l" "lockout (snd (Begin now key l)) = lockout l"
proof -
  let ?e = "clearExpiredLocked now (entryOf key l)"
  obtain l0 where l0: "entryLocked now key l = (entryOf key l, l0)" "limMax l0 = limMax l" "lockout l0 = lockout l"
    by (rule entryLocked_of)
  obtain m where m: "charged_up t0 (limMax l) (lockout l) m ?e h w r" "t0 + int m * lockout l \<le> now"
    "lockedUntil ?e = zero_time \<or> now < lockedUntil ?e" by (rule charged_up_clear [OF assms(1,2)])
  have s: "members ?e = None" using m(1) by (simp add: charged_up_def)
  have p: "now + lockout l \<noteq> zero_time" using assms(3-5) by (simp add: zero_time_def)
  have b: "Begin now key l =
    (if now < lockedUntil ?e then ((lockedUntil ?e, False), putEntry key ?e l0)
     else if limMax l \<le> fails ?e + inFlight ?e
     then ((now + lockout l, False), putEntry key (?e\<lparr>lockedUntil := now + lockout l\<rparr>) l0)
     else ((zero_time, True), putEntry key (?e\<lparr>inFlight := Suc (inFlight ?e)\<rparr>) l0))"
    using s l0 by (simp add: Begin_def Let_def count_scalar)
  have z: "\<not> now < lockedUntil ?e \<Longrightarrow> lockedUntil ?e = zero_time" using m(3) by simp
  show ?thesis
    by (rule that [of m]) (use m(1,2) l0 z p in \<open>auto simp: b charged_up_def split: if_splits\<close>)
qed

lemma CommitFail_charged:
  assumes "charged_up t0 (limMax l) (lockout l) n (entryOf key l) (Suc h) w r" "t0 + int n * lockout l \<le> now" "0 < t0" "0 < lockout l"
    and "t0 \<le> now"
  obtains m where "charged_up t0 (limMax l) (lockout l) m (entryOf key (snd (CommitFail now key l))) h (Suc w)
      (if snd (fst (CommitFail now key l)) \<noteq> zero_time then Suc r else r)" "t0 + int m * lockout l \<le> now"
    "limMax (snd (CommitFail now key l)) = limMax l" "lockout (snd (CommitFail now key l)) = lockout l"
proof -
  let ?e = "clearExpiredLocked now (entryOf key l)"
  obtain l0 where l0: "entryLocked now key l = (entryOf key l, l0)" "limMax l0 = limMax l" "lockout l0 = lockout l"
    by (rule entryLocked_of)
  obtain m where m: "charged_up t0 (limMax l) (lockout l) m ?e (Suc h) w r" "t0 + int m * lockout l \<le> now"
    "lockedUntil ?e = zero_time \<or> now < lockedUntil ?e" by (rule charged_up_clear [OF assms(1,2)])
  have s: "members ?e = None" "0 < inFlight ?e" using m(1) by (simp_all add: charged_up_def)
  have p: "now + lockout l \<noteq> zero_time" using assms(3-5) by (simp add: zero_time_def)
  have i: "0 < inFlight (entryOf key l)" using s(2) by (simp add: clearExpiredLocked_def split: if_splits)
  have c: "clearExpiredLocked now (releaseSlot (entryOf key l)) = ?e\<lparr>inFlight := inFlight ?e - 1\<rparr>"
    using i by (simp add: clearExpiredLocked_def releaseSlot_def)
  let ?f = "?e\<lparr>inFlight := inFlight ?e - 1, fails := Suc (fails ?e), lastFail := now\<rparr>"
  let ?g = "if limMax l \<le> Suc (fails ?e) then ?f\<lparr>lockedUntil := now + lockout l\<rparr> else ?f"
  have b: "CommitFail now key l = ((fails ?g, edge (now < lockedUntil ?e) (lockedUntil ?g)), putEntry key ?g l0)"
    using l0 s(1) by (simp add: CommitFail_def countFail_def c Let_def count_scalar)
  have z: "\<not> now < lockedUntil ?e \<Longrightarrow> lockedUntil ?e = zero_time" using m(3) by simp
  have u: "now < lockedUntil ?e \<Longrightarrow> lockedUntil ?e \<noteq> zero_time" using assms(3,5) by (auto simp: zero_time_def)
  show ?thesis
    by (rule that [of m]) (use m(1,2) l0 z u p s(2) in \<open>auto simp: b charged_up_def edge_def split: if_splits\<close>)
qed

lemma Release_charged:
  assumes "charged_up t0 (limMax l) (lockout l) n (entryOf key l) (Suc h) w r"
  shows "charged_up t0 (limMax l) (lockout l) n (entryOf key (Release key l)) h w r"
    "limMax (Release key l) = limMax l" "lockout (Release key l) = lockout l"
proof -
  have i: "0 < inFlight (entryOf key l)" using assms by (simp add: charged_up_def)
  then obtain e where e: "map_of (entries l) key = Some e" "entryOf key l = e"
    by (auto simp: entryOf_def split: option.splits)
  let ?f = "e\<lparr>inFlight := inFlight e - 1\<rparr>"
  have s: "members e = None" using assms e(2) by (simp add: charged_up_def)
  have r: "Release key l = gcLocked key ?f (putEntry key ?f l)" using e i by (simp add: Release_def Let_def)
  have "entryOf key (Release key l) = (if fails e = 0 \<and> inFlight e = 1 \<and> lockedUntil e = zero_time then new_attempt else ?f)"
    using i e s by (auto simp: r gcLocked_def count_scalar entryOf_def delete_conv')
  then show "charged_up t0 (limMax l) (lockout l) n (entryOf key (Release key l)) h w r"
    using assms e(2) by (auto simp: charged_up_def)
  show "limMax (Release key l) = limMax l" "lockout (Release key l) = lockout l" by (simp_all add: r)
qed

lemma guessRun_charged:
  assumes "charged_up t0 (limMax l) (lockout l) n (entryOf key l) h w r" "t0 + int n * lockout l \<le> t" "0 < t0" "0 < lockout l"
    and "t0 \<le> t" "sorted (t # map fst ops @ [end])"
  shows "w + fst (snd (fst (guessRun key h ops l))) \<le> limMax l * Suc (nat ((end - t0) div lockout l)) \<and>
    r + snd (snd (fst (guessRun key h ops l))) \<le> Suc (nat ((end - t0) div lockout l))"
  using assms
proof (induction ops arbitrary: l n h w r t)
  case Nil
  have "int n \<le> (end - t0) div lockout l"
    using Nil.prems(2,4,6) by (intro zdiv_mono1 [of "int n * lockout l" _ "lockout l", simplified]) auto
  then have n: "n \<le> nat ((end - t0) div lockout l)" by linarith
  have "w \<le> limMax l * Suc n" "r \<le> Suc n" using Nil.prems(1) by (auto simp: charged_up_def split: if_splits)
  moreover have "limMax l * Suc n \<le> limMax l * Suc (nat ((end - t0) div lockout l))"
    using n by (intro mult_le_mono2) simp
  ultimately have "w \<le> limMax l * Suc (nat ((end - t0) div lockout l))" by (meson order_trans)
  then show ?case using \<open>r \<le> Suc n\<close> n by simp
next
  case (Cons op ops)
  obtain now g where op: "op = (now, g)" by (cases op)
  have now: "t \<le> now" "t0 \<le> now" "t0 + int n * lockout l \<le> now" "sorted (now # map fst ops @ [end])"
    using Cons.prems(2,5,6) by (auto simp: op)
  note c = Cons.prems(1,3,4)
  show ?case
  proof (cases g)
    case GBegin
    obtain m where m: "charged_up t0 (limMax l) (lockout l) m (entryOf key (snd (Begin now key l)))
        (if snd (fst (Begin now key l)) then Suc h else h) w r" "t0 + int m * lockout l \<le> now"
      "limMax (snd (Begin now key l)) = limMax l" "lockout (snd (Begin now key l)) = lockout l"
      by (rule Begin_charged [OF c(1) now(3) c(2,3) now(2)])
    from Cons.IH [of "snd (Begin now key l)" m "if snd (fst (Begin now key l)) then Suc h else h" w r now] m c(2,3) now(2,4)
    show ?thesis by (simp add: op GBegin case_prod_unfold Let_def)
  next
    case GFail
    show ?thesis
    proof (cases h)
      case 0
      from Cons.IH [OF c(1) now(3) c(2,3) now(2,4)] show ?thesis by (simp add: op GFail 0)
    next
      case (Suc k)
      let ?r = "if snd (fst (CommitFail now key l)) \<noteq> zero_time then Suc r else r"
      obtain m where m: "charged_up t0 (limMax l) (lockout l) m (entryOf key (snd (CommitFail now key l))) k (Suc w) ?r"
        "t0 + int m * lockout l \<le> now" "limMax (snd (CommitFail now key l)) = limMax l"
        "lockout (snd (CommitFail now key l)) = lockout l"
        by (rule CommitFail_charged [OF c(1) [unfolded Suc] now(3) c(2,3) now(2)])
      from Cons.IH [of "snd (CommitFail now key l)" m k "Suc w" ?r now] m c(2,3) now(2,4)
      show ?thesis by (auto simp add: op GFail Suc case_prod_unfold Let_def split: if_splits)
    qed
  next
    case GAbort
    show ?thesis
    proof (cases h)
      case 0
      from Cons.IH [OF c(1) now(3) c(2,3) now(2,4)] show ?thesis by (simp add: op GAbort 0)
    next
      case (Suc k)
      note m = Release_charged [OF c(1) [unfolded Suc]]
      from Cons.IH [of "Release key l" n k w r now] m c(2,3) now(2-4)
      show ?thesis by (simp add: op GAbort Suc)
    qed
  qed
qed

text \<open>
  C2. However an attacker interleaves reservations, wrong guesses and aborted attempts on one key that has no
  entry yet, in a table with any other keys, whatever the clock reads as long as it does not go back: until any moment
  \<open>end\<close> the limiter lets at most \<open>max\<close> wrong guesses be examined per lockout window begun since \<open>t0\<close>, and
  at most one call per window reports (and so audits) a lockout.  No entry is swept or evicted meanwhile,
  and no guess is right.
\<close>

theorem wrong_guesses_capped:
  assumes "map_of (entries l) key = None" "0 < t0" "0 < lockout l" "sorted (t0 # map fst ops @ [end])"
  shows "fst (snd (fst (guessRun key 0 ops l))) \<le> limMax l * Suc (nat ((end - t0) div lockout l)) \<and>
    snd (snd (fst (guessRun key 0 ops l))) \<le> Suc (nat ((end - t0) div lockout l))"
proof -
  have "charged_up t0 (limMax l) (lockout l) 0 (entryOf key l) 0 0 0"
    using assms(1) by (simp add: charged_up_def entryOf_def)
  from guessRun_charged [OF this _ assms(2,3) order_refl assms(4)] show ?thesis by simp
qed

text \<open>Two windows of a cap of two, one attempt aborted: two wrong guesses and one report in each.\<close>

theorem wrong_guesses_capped_witness:
  "fst (guessRun ''k'' 0 [(5, GBegin), (6, GBegin), (7, GAbort), (7, GBegin), (8, GFail), (9, GFail), (20, GBegin),
      (110, GBegin), (111, GBegin), (112, GFail), (113, GFail)] (NewLimiter 2 100)) = (0, 4, 2) \<and>
   (4::nat) \<le> 2 * Suc (nat ((113 - 5) div 100))"
proof -
  let ?ops = "[(5, GBegin), (6, GBegin), (7, GAbort), (7, GBegin), (8, GFail), (9, GFail), (20, GBegin),
      (110, GBegin), (111, GBegin), (112, GFail), (113, GFail)]"
  have "fst (guessRun ''k'' 0 ?ops (NewLimiter 2 100)) = (0, 4, 2)" by code_simp
  moreover have "fst (snd (fst (guessRun ''k'' 0 ?ops (NewLimiter 2 100)))) \<le> 2 * Suc (nat ((113 - 5) div 100))"
    using wrong_guesses_capped [of "NewLimiter 2 100" "''k''" 5 ?ops 113]
    by (simp add: NewLimiter_def clampMax_def)
  ultimately show ?thesis by simp
qed

text \<open>
  In every state any interleaving of goroutines can reach, on any number of keys, the failures
  (or distinct members) counted on a key together with the attempts still in flight on it never
  exceed the cap, and the member set of a key never outgrows \<open>MaxMembersPerKey\<close>.
\<close>

theorem reachable_within_budget:
  assumes "limReachable mx lock l" "map_of (entries l) key = Some e"
  shows "count e + inFlight e \<le> clampMax mx \<and> memberCount e \<le> MaxMembersPerKey"
  using limReachable_inv [OF assms(1)] budget_entry [OF _ assms(2), of ] wf_entry [OF _ assms(2)]
  by (auto simp: charged_def wfAttempt_def memberCount_def split: option.splits)

theorem reachable_within_budget_witness:
  "\<exists>e. map_of (entries (snd (Begin 7 ''k'' (NewLimiter 2 100)))) ''k'' = Some e \<and> inFlight e = 1 \<and>
       count e + inFlight e \<le> clampMax 2"
proof -
  have r: "limReachable 2 100 (snd (Begin 7 ''k'' (NewLimiter 2 100)))"
    by (rule limReachable.step [OF limReachable.new limStep.begins])
  have "map_of (entries (snd (Begin 7 ''k'' (NewLimiter 2 100)))) ''k'' =
      Some (new_attempt\<lparr>inFlight := 1\<rparr>)"
    by (simp add: Begin_def NewLimiter_def entryLocked_def makeRoomLocked_def evictLoop.simps
        DefaultMaxKeys_def clampMax_def clearExpired_inactive zero_time_def putEntry_def)
  with reachable_within_budget [OF r this] show ?thesis by simp
qed

section \<open>The life of a lockout\<close>

lemma Begin_present:
  assumes "map_of (entries l) key = Some e"
  shows "Begin now key l =
    (let e1 = clearExpiredLocked now e; e2 = pruneMembersLocked now (lockout l) e1
     in if now < lockedUntil e1 then ((lockedUntil e1, False), putEntry key e1 l)
        else if limMax l \<le> count e2 + inFlight e2
        then ((now + lockout l, False), putEntry key (e2\<lparr>lockedUntil := now + lockout l\<rparr>) l)
        else ((zero_time, True), putEntry key (e2\<lparr>inFlight := Suc (inFlight e2)\<rparr>) l))"
  using assms by (simp add: Begin_def entryLocked_def Let_def)

lemma putEntry_same: "map_of (entries l) key = Some e \<Longrightarrow> putEntry key e l = l"
  by (simp add: putEntry_def update_triv)

text \<open>
  A lockout is served exactly: before its expiry every \<open>Begin\<close> is refused with that expiry and
  changes nothing, and at its expiry the key starts afresh (no failures, no members), so a new
  attempt is admitted as soon as the attempts still in flight leave room for it.
\<close>

theorem lockout_served:
  assumes "map_of (entries l) key = Some e" "lockedUntil e \<noteq> zero_time" "0 < now"
  shows "(now < lockedUntil e \<longrightarrow> Begin now key l = ((lockedUntil e, False), l)) \<and>
    (lockedUntil e \<le> now \<and> inFlight e < limMax l \<longrightarrow>
       fst (Begin now key l) = (zero_time, True) \<and>
       map_of (entries (snd (Begin now key l))) key =
         Some (e\<lparr>fails := 0, members := None, lockedUntil := zero_time, inFlight := Suc (inFlight e)\<rparr>))"
  using assms
  by (auto simp: Begin_present clearExpiredLocked_def Let_def count_def memberCount_def
      zero_time_def putEntry_same)

theorem lockout_served_witness:
  "Begin 50 ''k'' \<lparr>entries = [(''k'', new_attempt\<lparr>lockedUntil := 100\<rparr>)], limMax = 1, maxKeys = 9,
      lockout = 60\<rparr> =
   ((100, False), \<lparr>entries = [(''k'', new_attempt\<lparr>lockedUntil := 100\<rparr>)], limMax = 1, maxKeys = 9,
      lockout = 60\<rparr>)"
  using lockout_served [of "\<lparr>entries = [(''k'', new_attempt\<lparr>lockedUntil := 100\<rparr>)], limMax = 1,
      maxKeys = 9, lockout = 60\<rparr>" "''k''" "new_attempt\<lparr>lockedUntil := 100\<rparr>" 50]
  by (simp add: zero_time_def)

text \<open>
  A success does not buy back breadth: on a key written in set mode, \<open>CommitSuccess\<close> keeps
  every member that failed inside the window and leaves the lockout as it was.
\<close>

theorem success_keeps_breadth:
  assumes "map_of (entries l) key = Some e" "members e = Some ms" "distinct (map fst ms)"
    and "map_of ms m = Some at" "now - lockout l < at"
  shows "\<exists>e' ms'. map_of (entries (CommitSuccess now key l)) key = Some e' \<and>
           members e' = Some ms' \<and> map_of ms' m = Some at \<and> lockedUntil e' = lockedUntil e"
proof -
  let ?ms = "filter (\<lambda>(m, at). now - lockout l < at) ms"
  let ?e = "((releaseSlot e)\<lparr>fails := 0\<rparr>)\<lparr>members := Some ?ms\<rparr>"
  have m: "map_of ?ms m = Some at" using assms(3-5) by (simp add: map_of_filter_keys)
  then have "?ms \<noteq> []" by (metis map_of.simps(1) option.distinct(1))
  then have "count ?e \<noteq> 0" by (simp add: count_def memberCount_def)
  then have "CommitSuccess now key l = putEntry key ?e l"
    using assms(1,2) by (simp add: CommitSuccess_def pruneMembersLocked_def gcLocked_def)
  with m show ?thesis by auto
qed

theorem success_keeps_breadth_witness:
  "\<exists>e' ms'. map_of (entries (CommitSuccess 110 ''ip''
      \<lparr>entries = [(''ip'', new_attempt\<lparr>members := Some [(''a'', 90), (''b'', 20)], inFlight := 1\<rparr>)],
       limMax = 5, maxKeys = 9, lockout = 60\<rparr>)) ''ip'' = Some e' \<and>
     members e' = Some ms' \<and> map_of ms' ''a'' = Some 90 \<and> lockedUntil e' = zero_time"
  using success_keeps_breadth [of "\<lparr>entries = [(''ip'',
      new_attempt\<lparr>members := Some [(''a'', 90), (''b'', 20)], inFlight := 1\<rparr>)],
      limMax = 5, maxKeys = 9, lockout = 60\<rparr>" "''ip''"
      "new_attempt\<lparr>members := Some [(''a'', 90), (''b'', 20)], inFlight := 1\<rparr>"
      "[(''a'', 90), (''b'', 20)]" "''a''" 90 110]
  by simp

section \<open>What may be forgotten\<close>

text \<open>
  The sweeper drops exactly the entries that decide nothing any more: every entry with a live
  lockout, an attempt in flight or a recent failure survives unchanged, every other one is gone,
  and the returned number is the number dropped.
\<close>

theorem sweep_exact:
  assumes "wfLimiter l"
  shows "map_of (entries (snd (Sweep now d l))) k =
      (case map_of (entries l) k of
         None \<Rightarrow> None
       | Some e \<Rightarrow> if 0 < inFlight e \<or> now < lockedUntil e \<or> now - d < lastFail e
                   then Some e else None) \<and>
    fst (Sweep now d l) + Len (snd (Sweep now d l)) = Len l"
  using assms
  by (auto simp: Sweep_def Let_def Len_def sweepKeeps_def wfLimiter_def map_of_filter_keys
      split: option.splits)

theorem sweep_exact_witness:
  "map_of (entries (snd (Sweep 100 10 \<lparr>entries = [(''a'', new_attempt\<lparr>lockedUntil := 200\<rparr>),
     (''b'', new_attempt\<lparr>lastFail := 50\<rparr>)], limMax = 3, maxKeys = 5, lockout = 60\<rparr>))) ''b'' = None"
  using sweep_exact [of "\<lparr>entries = [(''a'', new_attempt\<lparr>lockedUntil := 200\<rparr>),
     (''b'', new_attempt\<lparr>lastFail := 50\<rparr>)], limMax = 3, maxKeys = 5, lockout = 60\<rparr>" 100 10 "''b''"]
  by (simp add: wfLimiter_def zero_time_def)

subsection \<open>Eviction\<close>

text \<open>An entry the scan may pick: idle and in the wanted lock state.\<close>

definition evictable :: "gotime \<Rightarrow> bool \<Rightarrow> string \<times> attempt \<Rightarrow> bool" where
  "evictable now w kv = (case kv of (k, e) \<Rightarrow> k \<noteq> [] \<and> inFlight e = 0 \<and> (now < lockedUntil e) = w)"

lemma stalestScan_sound:
  assumes "fst (stalestScan now w es best) = k" "k \<noteq> []" "k \<noteq> fst best"
  shows "\<exists>e. (k, e) \<in> set es \<and> evictable now w (k, e)"
  using assms
proof (induction now w es best rule: stalestScan.induct)
  case (2 now w key e es bestKey bestRank)
  then show ?case
    by (cases "key = k") (auto simp: Let_def evictable_def split: if_splits)
qed simp

lemma stalestScan_keeps:
  "fst best \<noteq> [] \<Longrightarrow> [] \<notin> fst ` set es \<Longrightarrow> fst (stalestScan now w es best) \<noteq> []"
  by (induction now w es best rule: stalestScan.induct) (auto simp: Let_def)

lemma stalestScan_complete:
  "kv \<in> set es \<Longrightarrow> evictable now w kv \<Longrightarrow> [] \<notin> fst ` set es \<Longrightarrow>
   fst (stalestScan now w es best) \<noteq> []"
proof (induction now w es best rule: stalestScan.induct)
  case (2 now w key e es bestKey bestRank)
  from "2.prems" have k: "key \<noteq> []" "[] \<notin> fst ` set es" by auto
  show ?case
  proof (cases "kv = (key, e)")
    case True
    with "2.prems"(2) have "inFlight e = 0" "(now < lockedUntil e) = w" by (simp_all add: evictable_def)
    with k stalestScan_keeps [of "(key, if w then lockedUntil e else lastFail e)" es now w]
      stalestScan_keeps [of "(bestKey, bestRank)" es now w]
    show ?thesis by (simp add: Let_def)
  next
    case False
    with "2.prems"(1) have "kv \<in> set es" by simp
    with "2.IH" "2.prems"(2) k(2) show ?thesis by (simp add: Let_def)
  qed
qed simp

lemma stalestLocked_Some:
  assumes "stalestLocked now w l = Some k"
  shows "\<exists>e. (k, e) \<in> set (entries l) \<and> evictable now w (k, e)"
  using assms stalestScan_sound [of now w "entries l" "([], zero_time)" k]
  by (auto simp: stalestLocked_def Let_def split: if_splits)

lemma stalestLocked_None:
  assumes "stalestLocked now w l = None" "[] \<notin> fst ` set (entries l)" "kv \<in> set (entries l)"
  shows "\<not> evictable now w kv"
  using assms stalestScan_complete [of kv "entries l" now w "([], zero_time)"]
  by (auto simp: stalestLocked_def Let_def split: if_splits)

lemma evictOne_victim:
  assumes "evictOneLocked now l = Some l'" "wfLimiter l" "[] \<notin> fst ` set (entries l)"
  shows "\<exists>k e. l' = Reset k l \<and> map_of (entries l) k = Some e \<and> inFlight e = 0 \<and>
    (now < lockedUntil e \<longrightarrow> (\<forall>k' e'. map_of (entries l) k' = Some e' \<longrightarrow> inFlight e' = 0 \<longrightarrow> now < lockedUntil e'))"
proof -
  have d: "distinct (map fst (entries l))" using assms(2) by (simp add: wfLimiter_def)
  show ?thesis
  proof (cases "stalestLocked now False l")
    case (Some k)
    with assms(1) stalestLocked_Some [OF Some] d show ?thesis
      by (auto simp: evictOneLocked_def evictable_def)
  next
    case None
    with assms(1) obtain k where k: "stalestLocked now True l = Some k" "l' = Reset k l"
      by (auto simp: evictOneLocked_def split: option.splits)
    from stalestLocked_Some [OF k(1)] d obtain e where "map_of (entries l) k = Some e" "inFlight e = 0"
      by (auto simp: evictable_def)
    moreover have "now < lockedUntil e'"
      if "map_of (entries l) k' = Some e'" "inFlight e' = 0" for k' e'
    proof -
      have i: "(k', e') \<in> set (entries l)" using that(1) by (rule map_of_SomeD)
      with assms(3) have "k' \<noteq> []" by force
      with stalestLocked_None [OF None assms(3) i] that(2) show ?thesis by (simp add: evictable_def)
    qed
    ultimately show ?thesis using k by blast
  qed
qed

lemma evictOne_None:
  assumes "evictOneLocked now l = None" "[] \<notin> fst ` set (entries l)" "(k, e) \<in> set (entries l)"
  shows "0 < inFlight e"
proof -
  from assms(1) have "stalestLocked now False l = None" "stalestLocked now True l = None"
    by (auto simp: evictOneLocked_def split: option.splits)
  then have "\<not> evictable now w (k, e)" for w
    using stalestLocked_None [OF _ assms(2,3)] by (cases w) simp_all
  moreover from assms(2,3) have "k \<noteq> []" by force
  ultimately show ?thesis by (auto simp: evictable_def)
qed

lemma evictLoop_inflight:
  assumes "wfLimiter l" "[] \<notin> fst ` set (entries l)" "map_of (entries l) k = Some e" "0 < inFlight e"
  shows "map_of (entries (evictLoop now l)) k = Some e"
  using assms
proof (induction now l rule: evictLoop.induct)
  case (1 now l)
  show ?case
  proof (cases "maxKeys l \<le> int (length (entries l)) \<and> evictOneLocked now l \<noteq> None")
    case True
    then obtain l' where e: "evictOneLocked now l = Some l'" by auto
    from evictOne_victim [OF e "1.prems"(1,2)] obtain k0 e0
      where l': "l' = Reset k0 l" and k0: "map_of (entries l) k0 = Some e0" "inFlight e0 = 0" by blast
    from k0 "1.prems"(3,4) have ne: "k0 \<noteq> k" by auto
    have "wfLimiter l'" using "1.prems"(1) l' by (simp add: Reset_wf)
    moreover have "[] \<notin> fst ` set (entries l')" using "1.prems"(2) l' by (auto simp: AList.delete_eq)
    ultimately show ?thesis
      using "1.IH" [OF _ e] True e l' ne "1.prems"(3,4) by (subst evictLoop.simps) simp
  next
    case False
    then show ?thesis using "1.prems" by (subst evictLoop.simps) auto
  qed
qed

lemma evictLoop_spares_locks:
  assumes "wfLimiter l" "[] \<notin> fst ` set (entries l)"
    "map_of (entries l) k = Some e" "now < lockedUntil e"
    "map_of (entries (evictLoop now l)) k = None"
    "map_of (entries (evictLoop now l)) k' = Some e'" "inFlight e' = 0"
  shows "now < lockedUntil e'"
  using assms
proof (induction now l rule: evictLoop.induct)
  case (1 now l)
  show ?case
  proof (cases "maxKeys l \<le> int (length (entries l)) \<and> evictOneLocked now l \<noteq> None")
    case True
    then obtain l' where e: "evictOneLocked now l = Some l'" by auto
    with True have s: "evictLoop now l = evictLoop now l'" by (subst evictLoop.simps) simp
    from evictOne_victim [OF e "1.prems"(1,2)] obtain k0 e0 where v: "l' = Reset k0 l"
      "map_of (entries l) k0 = Some e0"
      "now < lockedUntil e0 \<Longrightarrow> map_of (entries l) j = Some f \<Longrightarrow> inFlight f = 0 \<Longrightarrow> now < lockedUntil f"
      for j f by blast
    have wf: "wfLimiter l'" using "1.prems"(1) v by (simp add: Reset_wf)
    show ?thesis
    proof (cases "k0 = k")
      case True
      have "subTable (entries (evictLoop now l')) (entries l)"
        using evictLoop_frame [of now l'] v(1) by (auto intro: subTable_trans)
      then have "map_of (entries l) k' = Some e'"
        using "1.prems"(1,6) s by (metis subTable_map_of wfLimiter_def)
      with v True "1.prems"(3,4,7) show ?thesis by auto
    next
      case False
      have "[] \<notin> fst ` set (entries l')" using "1.prems"(2) v(1) by (auto simp: AList.delete_eq)
      then show ?thesis
        using "1.IH" [OF _ e wf] True e v(1) False "1.prems"(3-7) s by simp
    qed
  next
    case False
    then have "evictLoop now l = l" by (subst evictLoop.simps) auto
    with "1.prems" show ?thesis by simp
  qed
qed

lemma evictLoop_room:
  assumes "[] \<notin> fst ` set (entries l)"
  shows "int (length (entries (evictLoop now l))) < maxKeys l \<or>
         list_all (\<lambda>(k, e). 0 < inFlight e) (entries (evictLoop now l))"
  using assms
proof (induction now l rule: evictLoop.induct)
  case (1 now l)
  consider (stop) "int (length (entries l)) < maxKeys l"
    | (stuck) "maxKeys l \<le> int (length (entries l))" "evictOneLocked now l = None"
    | (go) l' where "maxKeys l \<le> int (length (entries l))" "evictOneLocked now l = Some l'"
    by fastforce
  then show ?case
  proof cases
    case stop
    then show ?thesis by (subst evictLoop.simps) simp
  next
    case stuck
    then have "evictLoop now l = l" by (subst evictLoop.simps) simp
    moreover have "list_all (\<lambda>(k, e). 0 < inFlight e) (entries l)"
      using evictOne_None [OF stuck(2) "1.prems"] by (auto simp: list_all_iff)
    ultimately show ?thesis by simp
  next
    case go
    then have s: "evictLoop now l = evictLoop now l'" by (subst evictLoop.simps) simp
    from evictOneLocked_cases [OF go(2)] obtain k where l': "l' = Reset k l" by blast
    with "1.prems" have "[] \<notin> fst ` set (entries l')" by (auto simp: AList.delete_eq)
    with "1.IH" [OF go(1,2)] s l' show ?thesis by simp
  qed
qed

text \<open>The whole of what inserting a new key may do to the keys already tracked.\<close>

definition evictionOk :: "gotime \<Rightarrow> limiter \<Rightarrow> string \<Rightarrow> limiter \<Rightarrow> bool" where
  "evictionOk now l key l' =
     ((\<forall>k e. map_of (entries l) k = Some e \<longrightarrow> 0 < inFlight e \<longrightarrow> map_of (entries l') k = Some e) \<and>
      (\<forall>k e k' e'. map_of (entries l) k = Some e \<longrightarrow> now < lockedUntil e \<longrightarrow>
          map_of (entries l') k = None \<longrightarrow> map_of (entries l') k' = Some e' \<longrightarrow> k' \<noteq> key \<longrightarrow>
          inFlight e' = 0 \<longrightarrow> now < lockedUntil e') \<and>
      (int (Len l') \<le> maxKeys l' \<or>
       (\<forall>k e. map_of (entries l') k = Some e \<longrightarrow> k \<noteq> key \<longrightarrow> 0 < inFlight e)))"

text \<open>
  Bounded memory without corrupting the accounting: when a request names a key the table does
  not hold, the eviction that makes room never removes an entry with a reservation in flight; it
  removes a live lockout only when every idle entry that is left is itself serving a lockout; and
  afterwards the table is within \<open>maxKeys\<close>, unless every other entry has a reservation in flight.
  The hypothesis excludes the empty string as a key, see \<open>empty_key_never_evicted\<close>.
\<close>

theorem eviction_spares_inflight:
  assumes "wfLimiter l" "map_of (entries l) [] = None" "map_of (entries l) key = None"
  shows "evictionOk now l key (snd (entryLocked now key l))"
proof -
  define l1 where "l1 = (if maxKeys l < 1 then l\<lparr>maxKeys := DefaultMaxKeys\<rparr> else l)"
  let ?m = "evictLoop now l1"
  have e1: "entries l1 = entries l" and wf: "wfLimiter l1"
    using assms(1) by (simp_all add: l1_def wfLimiter_def)
  have ne: "[] \<notin> fst ` set (entries l1)" using assms(2) e1 by (simp add: map_of_eq_None_iff)
  have st: "subTable (entries ?m) (entries l)" using evictLoop_frame [of now l1] e1 by simp
  have nk: "map_of (entries ?m) key = None"
  proof (cases "map_of (entries ?m) key")
    case (Some e)
    with subTable_map_of [OF st _ Some] assms(1,3) show ?thesis by (simp add: wfLimiter_def)
  qed
  have r: "snd (entryLocked now key l) = putEntry key new_attempt ?m"
    using assms(3) by (simp add: entryLocked_def makeRoomLocked_def l1_def)
  show ?thesis
    unfolding evictionOk_def r
  proof (intro conjI allI impI)
    fix k e assume "map_of (entries l) k = Some e" "0 < inFlight e"
    with evictLoop_inflight [OF wf ne] e1 assms(3)
    show "map_of (entries (putEntry key new_attempt ?m)) k = Some e" by auto
  next
    fix k e k' e'
    assume "map_of (entries l) k = Some e" "now < lockedUntil e"
      "map_of (entries (putEntry key new_attempt ?m)) k = None"
      "map_of (entries (putEntry key new_attempt ?m)) k' = Some e'" "k' \<noteq> key" "inFlight e' = 0"
    then show "now < lockedUntil e'"
      using evictLoop_spares_locks [OF wf ne] e1 by (simp split: if_splits)
  next
    have "list_all (\<lambda>(k, e). 0 < inFlight e) (entries ?m) \<Longrightarrow> map_of (entries ?m) k = Some e \<Longrightarrow>
      0 < inFlight e" for k e by (auto dest: list_all_map_of)
    with evictLoop_room [OF ne, of now] nk evictLoop_frame [of now l1]
    show "int (Len (putEntry key new_attempt ?m)) \<le> maxKeys (putEntry key new_attempt ?m) \<or>
      (\<forall>k e. map_of (entries (putEntry key new_attempt ?m)) k = Some e \<longrightarrow> k \<noteq> key \<longrightarrow> 0 < inFlight e)"
      by (auto simp: Len_def length_put)
  qed
qed

definition fullTable :: limiter where
  "fullTable = \<lparr>entries =
     [(''busy'', new_attempt\<lparr>inFlight := 1\<rparr>), (''locked'', new_attempt\<lparr>fails := 5, lockedUntil := 90, lastFail := 30\<rparr>),
      (''idle'', new_attempt\<lparr>fails := 1, lastFail := 40\<rparr>)],
     limMax = 5, maxKeys = 3, lockout = 60\<rparr>"

lemma eviction_spares_inflight_witness:
  "evictionOk 50 fullTable ''new'' (snd (entryLocked 50 ''new'' fullTable)) \<and>
   map fst (entries (snd (entryLocked 50 ''new'' fullTable))) = [''busy'', ''locked'', ''new'']"
proof
  show "evictionOk 50 fullTable ''new'' (snd (entryLocked 50 ''new'' fullTable))"
    by (rule eviction_spares_inflight)
      (simp_all add: fullTable_def wfLimiter_def wfAttempt_def new_attempt_def)
  show "map fst (entries (snd (entryLocked 50 ''new'' fullTable))) = [''busy'', ''locked'', ''new'']"
    by code_simp
qed

text \<open>
  The sentinel of \<open>stalestLocked\<close> at work: the empty string as a key is never an eviction candidate,
  so a table that holds it may exceed \<open>maxKeys\<close> with nothing in flight.
\<close>

lemma stalestLocked_not_empty: "stalestLocked now w l \<noteq> Some []"
  by (simp add: stalestLocked_def Let_def)

text \<open>
  An entry stored under the empty string survives every eviction: nothing that makes room for
  another key removes it, whatever its state, so the table can stay above its ceiling with nothing in
  flight.
\<close>

theorem empty_key_never_evicted:
  "map_of (entries (snd (entryLocked now key l))) [] =
     (if key = [] \<and> map_of (entries l) [] = None then Some new_attempt else map_of (entries l) [])"
proof -
  have "map_of (entries (evictLoop now m)) [] = map_of (entries m) []" for m
  proof (induction now m rule: evictLoop.induct)
    case (1 now m)
    show ?case
    proof (cases "maxKeys m \<le> int (length (entries m)) \<and> evictOneLocked now m \<noteq> None")
      case True
      then obtain m' where e: "evictOneLocked now m = Some m'" by auto
      then obtain k where "m' = Reset k m" "\<exists>w. stalestLocked now w m = Some k"
        by (auto simp: evictOneLocked_def split: option.splits)
      with stalestLocked_not_empty [of now _ m] have "m' = Reset k m" "k \<noteq> []" by auto
      with "1.IH" [OF _ e] True e show ?thesis by (subst evictLoop.simps) simp
    next
      case False
      then show ?thesis by (subst evictLoop.simps) auto
    qed
  qed
  then show ?thesis by (auto simp: entryLocked_def makeRoomLocked_def split: option.splits)
qed

subsection \<open>Set mode as a sliding window\<close>

text \<open>
  The abstract reading of set mode: a log of failures \<open>(when, member)\<close>, oldest first, and the number
  of distinct members whose failure is younger than the lockout window.
\<close>

definition windowMembers :: "duration \<Rightarrow> gotime \<Rightarrow> (gotime \<times> string) list \<Rightarrow> string set" where
  "windowMembers w now log = set (map snd (filter (\<lambda>(t, m). now - w < t) log))"

definition windowCap :: "int \<Rightarrow> nat" where
  "windowCap mx = min (clampMax mx) MaxMembersPerKey"

fun staysBelow :: "int \<Rightarrow> duration \<Rightarrow> (gotime \<times> string) list \<Rightarrow> (gotime \<times> string) list \<Rightarrow> bool" where
  "staysBelow mx w past [] = True"
| "staysBelow mx w past ((t, m) # log) =
     (card (windowMembers w t (past @ [(t, m)])) < windowCap mx \<and> staysBelow mx w (past @ [(t, m)]) log)"

definition failForRun :: "string \<Rightarrow> (gotime \<times> string) list \<Rightarrow> limiter \<Rightarrow> limiter" where
  "failForRun key log l = foldl (\<lambda>l (t, m). snd (FailFor t key m l)) l log"

text \<open>The members of an entry that has seen the log \<open>past\<close>, the last failure at \<open>now\<close>.\<close>

definition windowInv :: "duration \<Rightarrow> gotime \<Rightarrow> (gotime \<times> string) list \<Rightarrow> (string \<times> gotime) list \<Rightarrow> bool" where
  "windowInv w now past ms =
     (distinct (map fst ms) \<and>
      (\<forall>m t. map_of ms m = Some t \<longrightarrow> (t, m) \<in> set past \<and> now - w < t) \<and>
      (\<forall>t m. (t, m) \<in> set past \<longrightarrow> now - w < t \<longrightarrow> (\<exists>t'\<ge>t. map_of ms m = Some t')))"

lemma windowInv_card:
  assumes "windowInv w now past ms"
  shows "length ms = card (windowMembers w now past)"
proof -
  have "windowMembers w now past = fst ` set ms"
  proof
    show "windowMembers w now past \<subseteq> fst ` set ms"
    proof
      fix m assume "m \<in> windowMembers w now past"
      then obtain u where "(u, m) \<in> set past" "now - w < u" by (auto simp: windowMembers_def)
      with assms obtain t where "map_of ms m = Some t" unfolding windowInv_def by blast
      then show "m \<in> fst ` set ms" by (auto dest: map_of_SomeD intro: rev_image_eqI)
    qed
    have "m \<in> windowMembers w now past" if "m \<in> fst ` set ms" for m
    proof -
      from that obtain t where "map_of ms m = Some t" by (auto simp: fst_set_map_of [symmetric])
      with assms show ?thesis by (force simp: windowMembers_def windowInv_def)
    qed
    then show "fst ` set ms \<subseteq> windowMembers w now past" by blast
  qed
  moreover have "card (fst ` set ms) = length ms"
    using assms by (metis distinct_card length_map list.set_map windowInv_def)
  ultimately show ?thesis by simp
qed

lemma windowInv_prune:
  assumes "windowInv w now past ms" "now \<le> t"
  shows "windowInv w t past (filter (\<lambda>(m, at). t - w < at) ms)"
  unfolding windowInv_def
proof (intro conjI allI impI)
  have d: "distinct (map fst ms)" using assms(1) by (simp add: windowInv_def)
  then show "distinct (map fst (filter (\<lambda>(m, at). t - w < at) ms))" by (rule distinct_filter_keys)
  note f = map_of_filter_keys [OF d]
  fix m u
  { assume "map_of (filter (\<lambda>(m, at). t - w < at) ms) m = Some u"
    then have u: "map_of ms m = Some u" "t - w < u" by (auto simp: f split: option.splits if_splits)
    with assms(1) show "(u, m) \<in> set past" "t - w < u" by (auto simp: windowInv_def) }
  assume "(u, m) \<in> set past" "t - w < u"
  moreover from this(2) assms(2) have "now - w < u" by simp
  ultimately obtain t' where "t' \<ge> u" "map_of ms m = Some t'" using assms(1) by (fastforce simp: windowInv_def)
  with \<open>t - w < u\<close> show "\<exists>t'\<ge>u. map_of (filter (\<lambda>(m, at). t - w < at) ms) m = Some t'"
    by (simp add: f)
qed

lemma windowInv_admit:
  assumes "windowInv w t past ms" "0 < w" "list_all (\<lambda>(u, _). u \<le> t) past" "length ms < MaxMembersPerKey"
  shows "windowInv w t (past @ [(t, m)]) (admitMember t m ms)"
proof -
  have "admitMember t m ms = AList.update m t ms" using assms(4) by (simp add: admitMember_def)
  moreover have "windowInv w t (past @ [(t, m)]) (AList.update m t ms)"
    using assms(1,2,3) by (auto simp: windowInv_def distinct_update list_all_iff)
  ultimately show ?thesis by simp
qed

definition windowEntry :: "duration \<Rightarrow> gotime \<Rightarrow> (gotime \<times> string) list \<Rightarrow> attempt \<Rightarrow> bool" where
  "windowEntry w now past e =
     (lockedUntil e = zero_time \<and> windowInv w now past (case members e of None \<Rightarrow> [] | Some ms \<Rightarrow> ms))"

lemma countMember_window:
  fixes m :: string
  assumes "windowEntry w now past e" "now \<le> t" "0 \<le> t" "0 < w" "lockout l = w"
    "list_all (\<lambda>(u, _). u \<le> t) past" "card (windowMembers w t past) < MaxMembersPerKey"
  defines "n \<equiv> card (windowMembers w t (past @ [(t, m)]))"
  shows "fst (countMember t m l e) =
      (n, if min (limMax l) MaxMembersPerKey \<le> n then t + w else zero_time)"
    "n < min (limMax l) MaxMembersPerKey \<Longrightarrow> windowEntry w t (past @ [(t, m)]) (snd (countMember t m l e))"
proof -
  define ms where "ms = filter (\<lambda>(m, at). t - w < at) (case members e of None \<Rightarrow> [] | Some ms \<Rightarrow> ms)"
  have p: "windowInv w t past ms"
    unfolding ms_def using assms(1,2) by (intro windowInv_prune [of w now]) (simp_all add: windowEntry_def)
  with assms(7) have "length ms < MaxMembersPerKey" by (simp add: windowInv_card)
  with p assms(4,6) have a: "windowInv w t (past @ [(t, m)]) (admitMember t m ms)"
    by (intro windowInv_admit)
  then have n: "length (admitMember t m ms) = n" unfolding n_def by (rule windowInv_card)
  have c: "clearExpiredLocked t e = e" using assms(1) by (simp add: clearExpiredLocked_def windowEntry_def)
  have lk: "lockedUntil e = zero_time" "\<not> t < zero_time"
    using assms(1,3) by (simp_all add: windowEntry_def zero_time_def)
  have pr: "the (members (pruneMembersLocked t w (ensureMembers e))) = ms"
    "lockedUntil (pruneMembersLocked t w (ensureMembers e)) = zero_time"
    using lk by (auto simp: pruneMembersLocked_def ensureMembers_def ms_def split: option.split)
  show "fst (countMember t m l e) = (n, if min (limMax l) MaxMembersPerKey \<le> n then t + w else zero_time)"
    using n lk pr assms(5) by (simp add: countMember_def Let_def c edge_def min_le_iff_disj)
  show "windowEntry w t (past @ [(t, m)]) (snd (countMember t m l e))"
    if "n < min (limMax l) MaxMembersPerKey"
    using that n lk pr a assms(5) by (simp add: countMember_def Let_def c windowEntry_def)
qed

definition windowState :: "string \<Rightarrow> int \<Rightarrow> duration \<Rightarrow> gotime \<Rightarrow> (gotime \<times> string) list \<Rightarrow> limiter \<Rightarrow> bool" where
  "windowState key mx w now past l =
     (limMax l = clampMax mx \<and> lockout l = w \<and> maxKeys l = DefaultMaxKeys \<and>
      windowEntry w now past (fst (entryLocked now key l)) \<and>
      (entries l = [] \<or> (\<exists>e. entries l = [(key, e)])))"

lemma entryLocked_one:
  assumes "entries l = [] \<or> (\<exists>e. entries l = [(key, e)])" "maxKeys l = DefaultMaxKeys"
  shows "\<exists>e l0. entryLocked now key l = (e, l0) \<and> entries l0 = [(key, e)] \<and> limMax l0 = limMax l \<and>
    lockout l0 = lockout l \<and> maxKeys l0 = maxKeys l \<and>
    e = (case entries l of [] \<Rightarrow> new_attempt | (_, e) # _ \<Rightarrow> e)"
  using assms entryLocked_single [of l key _ now]
  by (auto simp: DefaultMaxKeys_def split: list.split)

lemma FailFor_window:
  fixes m :: string
  assumes "windowState key mx w now past l" "now \<le> t" "0 \<le> t" "0 < w"
    "list_all (\<lambda>(u, _). u \<le> t) past" "card (windowMembers w t past) < MaxMembersPerKey"
  defines "n \<equiv> card (windowMembers w t (past @ [(t, m)]))"
  shows "fst (FailFor t key m l) = (n, if windowCap mx \<le> n then t + w else zero_time)"
    "n < windowCap mx \<Longrightarrow> windowState key mx w t (past @ [(t, m)]) (snd (FailFor t key m l))"
proof -
  from assms(1) have s: "limMax l = clampMax mx" "lockout l = w" "maxKeys l = DefaultMaxKeys"
    "windowEntry w now past (fst (entryLocked now key l))"
    and one: "entries l = [] \<or> (\<exists>e. entries l = [(key, e)])" by (simp_all add: windowState_def)
  obtain e l0 where e: "entryLocked t key l = (e, l0)" "entries l0 = [(key, e)]" "limMax l0 = limMax l"
    "lockout l0 = lockout l" "maxKeys l0 = maxKeys l" "e = (case entries l of [] \<Rightarrow> new_attempt | (_, e) # _ \<Rightarrow> e)"
    using entryLocked_one [OF one s(3), of t] by blast
  have "windowEntry w now past e"
    using entryLocked_one [OF one s(3), of now] s(4) e(6) by auto
  note c = countMember_window [OF this assms(2-4) _ assms(5,6), of l0 m]
  obtain r e' where r: "countMember t m l0 e = (r, e')" by fastforce
  have f: "FailFor t key m l = (r, putEntry key e' l0)"
    by (simp add: FailFor_def commitFailForLocked_def e(1) r)
  show "fst (FailFor t key m l) = (n, if windowCap mx \<le> n then t + w else zero_time)"
    using c(1) e s r f by (simp add: n_def windowCap_def)
  have one': "entries (putEntry key e' l0) = [(key, e')]" using e(2) by simp
  show "windowState key mx w t (past @ [(t, m)]) (snd (FailFor t key m l))" if "n < windowCap mx"
    using that c(2) e s r one' entryLocked_one [of "putEntry key e' l0" key t]
    by (auto simp: n_def windowCap_def windowState_def f)
qed

lemma windowMembers_mono:
  assumes "now \<le> t" shows "card (windowMembers w t log) \<le> card (windowMembers w now log)"
  using assms by (intro card_mono) (auto simp: windowMembers_def)

lemma failForRun_window:
  assumes "windowState key mx w now past l" "0 < w" "0 \<le> now" "sorted (now # map fst log)"
    "list_all (\<lambda>(u, _). u \<le> now) past" "card (windowMembers w now past) < windowCap mx"
    "staysBelow mx w past log"
  shows "\<exists>now'. windowState key mx w now' (past @ log) (failForRun key log l) \<and>
    now' = last (now # map fst log) \<and> card (windowMembers w now' (past @ log)) < windowCap mx"
  using assms
proof (induction log arbitrary: now past l)
  case Nil
  then show ?case by (simp add: failForRun_def)
next
  case (Cons a log)
  obtain t m where a: "a = (t, m)" by (cases a)
  with Cons.prems have b: "now \<le> t" "0 \<le> t" "sorted (t # map fst log)" by auto
  have past: "list_all (\<lambda>(u, _). u \<le> t) past" using Cons.prems(5) b(1) by (auto simp: list_all_iff)
  have c: "card (windowMembers w t past) < MaxMembersPerKey"
    using windowMembers_mono [OF b(1), of w past] Cons.prems(6) by (simp add: windowCap_def)
  have n: "card (windowMembers w t (past @ [(t, m)])) < windowCap mx"
    and st: "staysBelow mx w (past @ [(t, m)]) log" using Cons.prems(7) a by simp_all
  from FailFor_window(2) [OF Cons.prems(1) b(1,2) Cons.prems(2) past c n]
  have "windowState key mx w t (past @ [(t, m)]) (snd (FailFor t key m l))" .
  from Cons.IH [OF this Cons.prems(2) b(2,3) _ n st] past a show ?case by (simp add: failForRun_def)
qed

lemma windowState_new: "windowState key mx w now [] (NewLimiter mx w)"
proof -
  have "fst (entryLocked now key (NewLimiter mx w)) = new_attempt"
    by (simp add: entryLocked_def NewLimiter_def)
  then show ?thesis by (simp add: windowState_def windowEntry_def windowInv_def NewLimiter_def)
qed

text \<open>
  Set mode implements a sliding window.  Take a fresh limiter and any log of failures of one
  key, in time order, that has not reached the cap.  The next failure reports exactly the number of
  distinct members whose failure is younger than the window, and it locks the key, for one window,
  exactly when that number reaches the cap (the configured maximum, or 128 if that is smaller).
\<close>

theorem set_mode_sliding_window:
  assumes "0 < w" "sorted (map fst (log @ [(t, m)]))" "list_all (\<lambda>(u, _). 0 \<le> u) (log @ [(t, m)])"
    "staysBelow mx w [] log"
  shows "fst (FailFor t key m (failForRun key log (NewLimiter mx w))) =
    (let n = card (windowMembers w t (log @ [(t, m)])) in (n, if windowCap mx \<le> n then t + w else zero_time))"
proof -
  have cap: "0 < windowCap mx" by (simp add: windowCap_def clampMax_def MaxMembersPerKey_def)
  have s: "sorted (0 # map fst log)" "list_all (\<lambda>(u, _). u \<le> t) log" "\<forall>u\<in>set (0 # map fst log). u \<le> t" "0 \<le> t"
    using assms(2,3) by (auto simp: sorted_append list_all_iff)
  have la: "last (0 # map fst log) \<le> t" using s(3) last_in_set by blast
  from failForRun_window [OF windowState_new assms(1) order_refl s(1) _ _ assms(4)] cap
  have r: "windowState key mx w (last (0 # map fst log)) log (failForRun key log (NewLimiter mx w))"
    "card (windowMembers w (last (0 # map fst log)) log) < windowCap mx"
    by (simp_all add: windowMembers_def del: last.simps)
  have "card (windowMembers w t log) < MaxMembersPerKey"
    using windowMembers_mono [OF la, of w log] r(2) by (simp add: windowCap_def)
  from FailFor_window(1) [OF r(1) la s(4) assms(1) s(2) this] show ?thesis by (simp add: Let_def)
qed

lemma set_mode_sliding_window_witness:
  "fst (FailFor 70 ''ip'' ''carol'' (failForRun ''ip'' [(0, ''alice''), (50, ''bob''), (60, ''bob'')] (NewLimiter 3 60)))
   = (2, zero_time)"
  by (subst set_mode_sliding_window) (simp_all add: windowMembers_def windowCap_def clampMax_def MaxMembersPerKey_def Let_def)

end
