(* ===== verification/Rbac.thy ===== *)
theory Rbac
  imports Prelude
begin

text \<open>
  Role based access control: the compiled matrix (\<open>pkg/authctx\<close>), the configurable half of it
  (\<open>roleperm\<close>, its repository with the in-process snapshot included) and the gates that ask the
  matrix (\<open>pkg/authgate\<close>).

  A role and a permission are strings, as in Go, so every theorem also speaks about a string the
  program does not know.  A \<open>map[Role]map[Permission]bool\<close> is an association list of association
  lists; indexing a missing key gives the nil map, and indexing that gives \<open>false\<close>.
\<close>

section \<open>The compiled matrix\<close>

type_synonym role = string
type_synonym permission = string
type_synonym heldSets = "(role \<times> (permission \<times> bool) list) list"

definition RoleOwner :: role where "RoleOwner = ''owner''"
definition RoleAdmin :: role where "RoleAdmin = ''admin''"
definition RoleEditor :: role where "RoleEditor = ''editor''"
definition RoleViewer :: role where "RoleViewer = ''viewer''"

definition PermContentRead :: permission where "PermContentRead = ''content.read''"
definition PermContentWrite :: permission where "PermContentWrite = ''content.write''"
definition PermBackupExport :: permission where "PermBackupExport = ''backup.export''"
definition PermBackupRestore :: permission where "PermBackupRestore = ''backup.restore''"
definition PermImportRun :: permission where "PermImportRun = ''import.run''"
definition PermUsersRead :: permission where "PermUsersRead = ''users.read''"
definition PermUsersWrite :: permission where "PermUsersWrite = ''users.write''"
definition PermRolesAssign :: permission where "PermRolesAssign = ''roles.assign''"
definition PermInvitesRead :: permission where "PermInvitesRead = ''invites.read''"
definition PermInvitesWrite :: permission where "PermInvitesWrite = ''invites.write''"
definition PermAuditRead :: permission where "PermAuditRead = ''audit.read''"
definition PermPolicyRead :: permission where "PermPolicyRead = ''policy.read''"
definition PermPolicyWrite :: permission where "PermPolicyWrite = ''policy.write''"
definition PermInstanceTransfer :: permission where "PermInstanceTransfer = ''instance.transfer''"
definition PermInstanceBackupRead :: permission where "PermInstanceBackupRead = ''instance.backup''"
definition PermInstanceBackupDownload :: permission where
  "PermInstanceBackupDownload = ''instance.backup_download''"
definition PermInstanceBackupSchedule :: permission where
  "PermInstanceBackupSchedule = ''instance.backup_schedule''"
definition PermInstanceIPBlock :: permission where "PermInstanceIPBlock = ''instance.ip_block''"
definition PermInstanceRateLimits :: permission where
  "PermInstanceRateLimits = ''instance.rate_limits''"

definition AllPermissions :: "permission list" where
  "AllPermissions =
     [PermContentRead, PermContentWrite, PermBackupExport, PermBackupRestore, PermImportRun,
      PermUsersRead, PermUsersWrite, PermRolesAssign, PermInvitesRead, PermInvitesWrite,
      PermAuditRead, PermPolicyRead, PermPolicyWrite, PermInstanceTransfer, PermInstanceBackupRead,
      PermInstanceBackupDownload, PermInstanceBackupSchedule, PermInstanceIPBlock,
      PermInstanceRateLimits]"

definition AllRoles :: "role list" where
  "AllRoles = [RoleOwner, RoleAdmin, RoleEditor, RoleViewer]"

definition rolePermissions :: heldSets where
  "rolePermissions =
     [(RoleOwner,
        [(PermContentRead, True), (PermContentWrite, True), (PermBackupExport, True),
         (PermBackupRestore, True), (PermImportRun, True), (PermUsersRead, True),
         (PermUsersWrite, True), (PermRolesAssign, True), (PermInvitesRead, True),
         (PermInvitesWrite, True), (PermAuditRead, True), (PermPolicyRead, True),
         (PermPolicyWrite, True), (PermInstanceTransfer, True), (PermInstanceBackupRead, True),
         (PermInstanceBackupDownload, True), (PermInstanceBackupSchedule, True),
         (PermInstanceIPBlock, True), (PermInstanceRateLimits, True)]),
      (RoleAdmin,
        [(PermContentRead, True), (PermContentWrite, True), (PermBackupExport, True),
         (PermBackupRestore, True), (PermImportRun, True), (PermUsersRead, True),
         (PermUsersWrite, True), (PermInvitesRead, True), (PermInvitesWrite, True),
         (PermAuditRead, True), (PermPolicyRead, True), (PermInstanceBackupRead, True)]),
      (RoleEditor,
        [(PermContentRead, True), (PermContentWrite, True), (PermBackupExport, True),
         (PermBackupRestore, True), (PermImportRun, True)]),
      (RoleViewer,
        [(PermContentRead, True), (PermBackupExport, True)])]"

text \<open>\<open>held[r][p]\<close> on a Go map of maps.\<close>

definition heldAt :: "heldSets \<Rightarrow> role \<Rightarrow> permission \<Rightarrow> bool" where
  "heldAt held r p = (case map_of held r of None \<Rightarrow> False | Some h \<Rightarrow> map_of h p = Some True)"

definition roleCan :: "role \<Rightarrow> permission \<Rightarrow> bool" where
  "roleCan r p = heldAt rolePermissions r p"

definition rolePermissionList :: "role \<Rightarrow> permission list" where
  "rolePermissionList r = filter (roleCan r) AllPermissions"

definition roleValid :: "role \<Rightarrow> bool" where
  "roleValid r = (map_of rolePermissions r \<noteq> None)"

text \<open>The copy Go makes is a value here, so copying every inner map is the map itself.\<close>

definition DefaultGrants :: heldSets where
  "DefaultGrants = map (\<lambda>(r, held). (r, map (\<lambda>(p, ok). (p, ok)) held)) rolePermissions"

definition lockedPermissions :: "(permission \<times> bool) list" where
  "lockedPermissions =
     [(PermRolesAssign, True), (PermPolicyWrite, True), (PermInstanceTransfer, True),
      (PermContentRead, True), (PermInstanceBackupDownload, True),
      (PermInstanceBackupSchedule, True), (PermInstanceIPBlock, True),
      (PermInstanceRateLimits, True)]"

definition IsPermissionLocked :: "permission \<Rightarrow> bool" where
  "IsPermissionLocked p = (map_of lockedPermissions p = Some True)"

definition IsRoleEditable :: "role \<Rightarrow> bool" where
  "IsRoleEditable r = (r \<noteq> RoleOwner \<and> roleValid r)"

definition IsAdmin :: "role \<Rightarrow> bool" where
  "IsAdmin r = (r = RoleOwner \<or> r = RoleAdmin)"

section \<open>The configurable matrix\<close>

type_synonym storedGrants = "(role \<times> permission list) list"

record Grants =
  held :: heldSets

definition grantsCan :: "Grants \<Rightarrow> role \<Rightarrow> permission \<Rightarrow> bool" where
  "grantsCan g r p = heldAt (held g) r p"

definition grantsPermissions :: "Grants \<Rightarrow> role \<Rightarrow> permission list" where
  "grantsPermissions g r = filter (grantsCan g r) AllPermissions"

text \<open>Indexing the stored map of a role that is not there gives the nil slice.\<close>

definition storedAt :: "storedGrants \<Rightarrow> role \<Rightarrow> permission list" where
  "storedAt stored r = (case map_of stored r of None \<Rightarrow> [] | Some ps \<Rightarrow> ps)"

definition grantsForRole :: "role \<Rightarrow> permission list \<Rightarrow> heldSets \<Rightarrow> (permission \<times> bool) list" where
  "grantsForRole r stored compiled =
     (if \<not> IsRoleEditable r
      then (case map_of compiled r of None \<Rightarrow> [] | Some set0 \<Rightarrow> set0)
      else let set1 = foldl (\<lambda>s p. if \<not> IsPermissionLocked p then AList.update p True s else s)
                        [] stored
           in foldl (\<lambda>s p. if IsPermissionLocked p \<and> heldAt compiled r p
                           then AList.update p True s else s) set1 AllPermissions)"

definition Resolve :: "storedGrants \<Rightarrow> Grants" where
  "Resolve stored =
     \<lparr>held = foldl (\<lambda>h r. AList.update r (grantsForRole r (storedAt stored r) DefaultGrants) h)
               [] AllRoles\<rparr>"

definition defaultStored :: storedGrants where
  "defaultStored =
     foldl (\<lambda>st r. foldl (\<lambda>st p. if heldAt DefaultGrants r p
                                then AList.update r (storedAt st r @ [p]) st else st)
                     st AllPermissions) [] AllRoles"

definition DefaultMatrix :: Grants where
  "DefaultMatrix = Resolve defaultStored"

datatype permErr =
    ErrRoleNotEditable
  | ErrPermissionLocked permission
  | ErrUnknownPermission permission
  | ErrEscalation string
  | ErrDatabase

fun validateWant :: "Grants \<Rightarrow> role \<Rightarrow> permission list \<Rightarrow> permErr option" where
  "validateWant current caller [] = None"
| "validateWant current caller (p # want) =
     (if p \<notin> set AllPermissions then Some (ErrUnknownPermission p)
      else if IsPermissionLocked p then Some (ErrPermissionLocked p)
      else if \<not> grantsCan current caller p then Some (ErrEscalation p)
      else validateWant current caller want)"

definition ValidateWrite :: "Grants \<Rightarrow> role \<Rightarrow> role \<Rightarrow> permission list \<Rightarrow> permErr option" where
  "ValidateWrite current caller target want =
     (if \<not> grantsCan current caller PermRolesAssign then Some (ErrEscalation caller)
      else if \<not> IsRoleEditable target then Some ErrRoleNotEditable
      else validateWant current caller want)"

text \<open>
  \<open>OrDefault\<close> receives an interface: nil, a typed nil pointer inside the interface, or a reader.
\<close>

datatype reader = NilReader | TypedNilReader | Reader "role \<Rightarrow> permission \<Rightarrow> bool"

definition OrDefault :: "reader \<Rightarrow> role \<Rightarrow> permission \<Rightarrow> bool" where
  "OrDefault g = (case g of NilReader \<Rightarrow> grantsCan DefaultMatrix
                          | TypedNilReader \<Rightarrow> grantsCan DefaultMatrix
                          | Reader can \<Rightarrow> can)"

section \<open>The repository and its snapshot\<close>

text \<open>
  The table \<open>role_permission\<close> has the primary key \<open>(role, permission)\<close>.  \<open>fetchGrants\<close> groups its
  rows by role; the argument \<open>ok\<close> of an operation is whether the database answered.
\<close>

type_synonym rolePermTable = "(role \<times> permission) list"

record permRepo =
  snapshot :: Grants

definition NewPermRepository :: permRepo where
  "NewPermRepository = \<lparr>snapshot = DefaultMatrix\<rparr>"

definition repoCan :: "permRepo \<Rightarrow> role \<Rightarrow> permission \<Rightarrow> bool" where
  "repoCan rp r p = grantsCan (snapshot rp) r p"

definition fetchGrants :: "rolePermTable \<Rightarrow> storedGrants" where
  "fetchGrants tbl = foldl (\<lambda>out (r, p). AList.update r (storedAt out r @ [p]) out) [] tbl"

definition LoadGrants :: "bool \<Rightarrow> rolePermTable \<Rightarrow> permRepo \<Rightarrow> permErr option \<times> permRepo" where
  "LoadGrants ok tbl rp =
     (if ok then (None, rp\<lparr>snapshot := Resolve (fetchGrants tbl)\<rparr>) else (Some ErrDatabase, rp))"

text \<open>
  The transaction of \<open>Set\<close>: delete the role's rows, then insert the wanted ones, skipping duplicates.
\<close>

definition replaceRows :: "role \<Rightarrow> permission list \<Rightarrow> rolePermTable \<Rightarrow> rolePermTable" where
  "replaceRows target want tbl =
     foldl (\<lambda>t p. if (target, p) \<in> set t then t else t @ [(target, p)])
       (filter (\<lambda>(r, p). r \<noteq> target) tbl) want"

definition SetGrants ::
  "bool \<Rightarrow> bool \<Rightarrow> role \<Rightarrow> role \<Rightarrow> permission list \<Rightarrow> rolePermTable \<Rightarrow> permRepo \<Rightarrow>
   permErr option \<times> rolePermTable \<times> permRepo" where
  "SetGrants txOk loadOk caller target want tbl rp =
     (case ValidateWrite (snapshot rp) caller target want of
        Some err \<Rightarrow> (Some err, tbl, rp)
      | None \<Rightarrow>
          if \<not> txOk then (Some ErrDatabase, tbl, rp)
          else let tbl' = replaceRows target want tbl
               in (None, tbl', snd (LoadGrants loadOk tbl' rp)))"

section \<open>Facts about the compiled matrix\<close>

lemma DefaultGrants_compiled: "DefaultGrants = rolePermissions"
proof -
  have c: "(\<lambda>(r, h). (r, map (\<lambda>(p :: permission, ok :: bool). (p, ok)) h)) = (\<lambda>x :: role \<times> (permission \<times> bool) list. x)"
    by (auto simp: fun_eq_iff)
  show ?thesis unfolding DefaultGrants_def by (simp add: c)
qed

lemma roleValid_iff: "roleValid r \<longleftrightarrow> r \<in> set AllRoles"
  by (auto simp: roleValid_def rolePermissions_def AllRoles_def)

lemma roleCan_valid: "roleCan r p \<Longrightarrow> r \<in> set AllRoles"
  unfolding roleValid_iff [symmetric]
  by (auto simp: roleCan_def heldAt_def roleValid_def split: option.splits)

lemma owner_all: "list_all (roleCan RoleOwner) AllPermissions"
  by code_simp

lemma owner_only_list: "list_all (\<lambda>(p, h). roleCan RoleOwner p) (the (map_of rolePermissions RoleOwner))"
  by code_simp

lemma locked_known: "IsPermissionLocked p \<Longrightarrow> p \<in> set AllPermissions"
  by (auto simp: IsPermissionLocked_def lockedPermissions_def AllPermissions_def split: if_splits)

lemma locked_closed:
  "list_all (\<lambda>r. list_all (\<lambda>(p, _). roleCan r p \<longrightarrow> p = PermContentRead \<or> r = RoleOwner) lockedPermissions)
     AllRoles"
  by code_simp

lemma content_read_all: "list_all (\<lambda>r. roleCan r PermContentRead) AllRoles"
  by code_simp

lemma compiled_known:
  "list_all (\<lambda>(r, h). list_all (\<lambda>(p, _). p \<in> set AllPermissions) h) rolePermissions"
  by code_simp

lemma roleCan_known: "roleCan r p \<Longrightarrow> p \<in> set AllPermissions"
proof -
  assume "roleCan r p"
  then obtain h where "map_of rolePermissions r = Some h" "map_of h p = Some True"
    by (auto simp: roleCan_def heldAt_def split: option.splits)
  with list_all_map_of [OF compiled_known] show ?thesis
    by (fastforce dest: list_all_map_of)
qed

lemma owner_iff: "roleCan RoleOwner p \<longleftrightarrow> p \<in> set AllPermissions"
  using owner_all roleCan_known by (auto simp: list_all_iff)

lemma locked_compiled_owner:
  assumes "IsPermissionLocked p" "p \<noteq> PermContentRead" "roleCan r p"
  shows "r = RoleOwner"
proof -
  from assms(1) have "(p, True) \<in> set lockedPermissions"
    by (auto simp: IsPermissionLocked_def dest: map_of_SomeD)
  with locked_closed roleCan_valid [OF assms(3)] assms(2,3) show ?thesis by (fastforce simp: list_all_iff)
qed

text \<open>What a resolved matrix answers, on every role and permission string.\<close>

lemma grantsForRole_can:
  "(map_of (grantsForRole r st DefaultGrants) p = Some True) =
     (if \<not> IsRoleEditable r then roleCan r p
      else if IsPermissionLocked p then roleCan r p else p \<in> set st)"
proof -
  have set1: "map_of (foldl (\<lambda>s p. if \<not> IsPermissionLocked p then AList.update p True s else s) [] st) p =
    (if p \<in> set st \<and> \<not> IsPermissionLocked p then Some True else None)"
    by (simp add: map_of_foldl_put_if [where f = "\<lambda>_. True"])
  show ?thesis
    using locked_known [of p] roleCan_known [of r p]
    by (auto simp: grantsForRole_def Let_def DefaultGrants_compiled roleCan_def heldAt_def set1
        map_of_foldl_put_if [where f = "\<lambda>_. True"] split: option.splits)
qed

lemma Resolve_can:
  "grantsCan (Resolve stored) r p =
     (if \<not> roleValid r then False
      else if r = RoleOwner \<or> IsPermissionLocked p then roleCan r p
      else p \<in> set (storedAt stored r))"
  unfolding grantsCan_def Resolve_def heldAt_def
  by (auto simp: map_of_foldl_put roleValid_iff grantsForRole_can IsRoleEditable_def)

lemma fetchGrants_at: "storedAt (fetchGrants tbl) r = map snd (filter (\<lambda>x. fst x = r) tbl)"
proof -
  have "storedAt (foldl (\<lambda>out (r, p). AList.update r (storedAt out r @ [p]) out) m tbl) r =
    storedAt m r @ map snd (filter (\<lambda>x. fst x = r) tbl)" for m
    by (induction tbl arbitrary: m) (auto simp: storedAt_def)
  then show ?thesis by (simp add: fetchGrants_def storedAt_def)
qed

lemma set_replaceRows:
  "set (replaceRows target want tbl) =
     {x \<in> set tbl. fst x \<noteq> target} \<union> (\<lambda>p. (target, p)) ` set want"
proof -
  have "set (foldl (\<lambda>t p. if (target, p) \<in> set t then t else t @ [(target, p)]) t want) =
    set t \<union> (\<lambda>p. (target, p)) ` set want" for t
    by (induction want arbitrary: t) auto
  then show ?thesis by (auto simp: replaceRows_def)
qed

section \<open>The contract of a matrix\<close>

text \<open>
  What the gates rely on, whichever matrix they were mounted with (\<open>authgate.Grants\<close>): the owner
  holds everything, an unknown role nothing, and the locked permissions are the compiled ones.
\<close>

locale auth_matrix =
  fixes can :: "role \<Rightarrow> permission \<Rightarrow> bool"
  assumes owner_holds: "p \<in> set AllPermissions \<Longrightarrow> can RoleOwner p"
    and unknown_powerless: "\<not> roleValid r \<Longrightarrow> \<not> can r p"
    and locked_as_compiled: "IsPermissionLocked p \<Longrightarrow> can r p = roleCan r p"
begin

lemma locked_owner_only:
  "IsPermissionLocked p \<Longrightarrow> p \<noteq> PermContentRead \<Longrightarrow> can r p \<Longrightarrow> r = RoleOwner"
  using locked_as_compiled locked_compiled_owner by blast

lemma locked_owner_iff:
  "IsPermissionLocked p \<Longrightarrow> p \<noteq> PermContentRead \<Longrightarrow> can r p \<longleftrightarrow> r = RoleOwner"
  using locked_owner_only owner_holds locked_known by blast

lemma content_read_kept: "can r PermContentRead \<longleftrightarrow> roleValid r"
proof
  show "can r PermContentRead \<Longrightarrow> roleValid r" using unknown_powerless by blast
  assume "roleValid r"
  then have "roleCan r PermContentRead" using content_read_all by (simp add: roleValid_iff list_all_iff)
  moreover have "IsPermissionLocked PermContentRead" by code_simp
  ultimately show "can r PermContentRead" using locked_as_compiled by blast
qed

end

interpretation compiled: auth_matrix roleCan
  by unfold_locales (auto simp: owner_iff roleValid_iff dest: roleCan_valid)

interpretation resolved: auth_matrix "grantsCan (Resolve stored)" for stored
  by unfold_locales
    (auto simp: Resolve_can owner_iff roleValid_iff AllRoles_def dest: roleCan_valid)

lemma assign_locked: "IsPermissionLocked PermRolesAssign" "PermRolesAssign \<noteq> PermContentRead"
  by code_simp+

text \<open>
  The stored rows decide exactly the editable half of the matrix.  Whatever rows the table
  holds, hand-written ones included: the owner holds every permission and nothing else; a role string
  the program does not know holds nothing; a locked permission is held exactly where the compiled
  matrix grants it; and every other permission is held exactly when the table has its row.
\<close>

theorem stored_rows_decide_editable_half:
  "grantsCan (Resolve (fetchGrants tbl)) r p =
     (if r = RoleOwner then p \<in> set AllPermissions
      else roleValid r \<and> (if IsPermissionLocked p then roleCan r p else (r, p) \<in> set tbl))"
proof -
  have "roleValid RoleOwner" by (simp add: roleValid_iff AllRoles_def)
  moreover have "p \<in> set (storedAt (fetchGrants tbl) r) \<longleftrightarrow> (r, p) \<in> set tbl"
    by (force simp: fetchGrants_at)
  ultimately show ?thesis by (auto simp: Resolve_can owner_iff)
qed

lemma defaultStored_at: "storedAt defaultStored r = (if roleValid r then filter (roleCan r) AllPermissions else [])"
proof -
  have inner: "storedAt (foldl (\<lambda>st p. if roleCan r p then AList.update r (storedAt st r @ [p]) st else st) st ps) r'
     = (if r' = r then storedAt st r @ filter (roleCan r) ps else storedAt st r')" for st ps r r'
    by (induction ps arbitrary: st) (auto simp: storedAt_def)
  have "heldAt DefaultGrants = roleCan" by (intro ext) (simp add: roleCan_def DefaultGrants_compiled)
  moreover have "storedAt [] r = []" by (simp add: storedAt_def)
  moreover have "distinct AllRoles" by code_simp
  ultimately show ?thesis
    by (auto simp: defaultStored_def AllRoles_def inner roleValid_iff)
qed

lemma DefaultMatrix_can: "grantsCan DefaultMatrix r p = roleCan r p"
proof -
  have "roleCan r p \<Longrightarrow> roleValid r" by (simp add: roleValid_iff roleCan_valid)
  then show ?thesis
    by (auto simp: DefaultMatrix_def Resolve_can defaultStored_at dest: roleCan_known)
qed

text \<open>
  C39.  With nothing configured, and with a nil or typed-nil reader, the effective matrix is the
  compiled one, entry for entry, on known and unknown roles and permissions alike.
\<close>

theorem default_is_compiled:
  "OrDefault NilReader r p = roleCan r p \<and> OrDefault TypedNilReader r p = roleCan r p \<and>
   repoCan NewPermRepository r p = roleCan r p"
  by (simp add: OrDefault_def repoCan_def NewPermRepository_def DefaultMatrix_can)

section \<open>Reachable repositories\<close>

text \<open>
  A repository together with the shared table.  \<open>edit\<close> is any change of the table by somebody else:
  another replica's \<open>Set\<close>, a migration, a hand-written statement.
\<close>

inductive permStep :: "rolePermTable \<times> permRepo \<Rightarrow> rolePermTable \<times> permRepo \<Rightarrow> bool" where
  load: "LoadGrants ok tbl rp = (res, rp') \<Longrightarrow> permStep (tbl, rp) (tbl, rp')"
| set: "SetGrants txOk loadOk caller target want tbl rp = (res, tbl', rp') \<Longrightarrow>
        permStep (tbl, rp) (tbl', rp')"
| edit: "permStep (tbl, rp) (tbl', rp)"

inductive permReach :: "rolePermTable \<times> permRepo \<Rightarrow> bool" where
  start: "permReach (tbl, NewPermRepository)"
| step: "permReach s \<Longrightarrow> permStep s s' \<Longrightarrow> permReach s'"

lemma LoadGrants_snapshot:
  "LoadGrants ok tbl rp = (res, rp') \<Longrightarrow> \<exists>st. snapshot rp = Resolve st \<Longrightarrow> \<exists>st. snapshot rp' = Resolve st"
  by (auto simp: LoadGrants_def split: if_splits)

lemma SetGrants_snapshot:
  "SetGrants txOk loadOk caller target want tbl rp = (res, tbl', rp') \<Longrightarrow>
   \<exists>st. snapshot rp = Resolve st \<Longrightarrow> \<exists>st. snapshot rp' = Resolve st"
  by (auto simp: SetGrants_def LoadGrants_def Let_def split: option.splits if_splits)

lemma permReach_snapshot: "permReach s \<Longrightarrow> \<exists>st. snapshot (snd s) = Resolve st"
proof (induction rule: permReach.induct)
  case (start tbl)
  show ?case by (auto simp: NewPermRepository_def DefaultMatrix_def)
next
  case (step s s')
  obtain tbl rp where s: "s = (tbl, rp)" by (cases s)
  with step.IH have st: "\<exists>st. snapshot rp = Resolve st" by simp
  from step.hyps(2) show ?case unfolding s
  proof (cases rule: permStep.cases)
    case (load ok res rp')
    with LoadGrants_snapshot [OF load(2) st] show ?thesis by simp
  next
    case (set txOk loadOk caller target want res tbl' rp')
    with SetGrants_snapshot [OF set(2) st] show ?thesis by simp
  next
    case (edit tbl')
    with st show ?thesis by simp
  qed
qed

lemma validateWant_ok:
  "validateWant g caller want = None \<longleftrightarrow>
   (\<forall>p\<in>set want. p \<in> set AllPermissions \<and> \<not> IsPermissionLocked p \<and> grantsCan g caller p)"
  by (induction want) auto

text \<open>
  C5.  The choke point of the configurable matrix.  In every reachable state of the repository, after
  any history of loads, failed loads, writes by anybody and edits of the table behind its back: a
  \<open>Set\<close> by a role other than the owner is refused as an escalation and changes nothing, so does every
  \<open>Set\<close> that reports an error; and when a \<open>Set\<close> succeeds and its refresh does, the target role holds
  exactly the wanted permissions plus its compiled locked ones, every other role holds what the table
  already gave it, and the owner still holds everything.
\<close>

theorem only_owner_rewrites_matrix:
  assumes "permReach (tbl, rp)" "SetGrants txOk loadOk caller target want tbl rp = (res, tbl', rp')"
  shows "(caller \<noteq> RoleOwner \<longrightarrow> res = Some (ErrEscalation caller)) \<and>
    (res \<noteq> None \<longrightarrow> tbl' = tbl \<and> rp' = rp) \<and>
    (res = None \<longrightarrow> target \<noteq> RoleOwner \<and> roleValid target \<and>
      (loadOk \<longrightarrow>
        (\<forall>p. repoCan rp' target p = (if IsPermissionLocked p then roleCan target p else p \<in> set want)) \<and>
        (\<forall>r p. r \<noteq> target \<longrightarrow> repoCan rp' r p = grantsCan (Resolve (fetchGrants tbl)) r p) \<and>
        (\<forall>p \<in> set AllPermissions. repoCan rp' RoleOwner p)))"
proof -
  from permReach_snapshot [OF assms(1)] obtain st where st: "snapshot rp = Resolve st" by auto
  have own: "grantsCan (snapshot rp) caller PermRolesAssign \<longleftrightarrow> caller = RoleOwner"
    using resolved.locked_owner_iff [OF assign_locked] st by simp
  show ?thesis
  proof (cases "res = None")
    case False
    with assms(2) own show ?thesis
      by (auto simp: SetGrants_def ValidateWrite_def Let_def split: option.splits if_splits)
  next
    case True
    with assms(2) have ok: "ValidateWrite (snapshot rp) caller target want = None"
      and t: "tbl' = replaceRows target want tbl" and r: "rp' = snd (LoadGrants loadOk tbl' rp)"
      by (auto simp: SetGrants_def Let_def split: option.splits if_splits)
    from ok own have e: "IsRoleEditable target" and c: "caller = RoleOwner"
      and w: "validateWant (snapshot rp) caller want = None"
      by (auto simp: ValidateWrite_def split: if_splits)
    have at: "p \<in> set (storedAt (fetchGrants tbl') r) \<longleftrightarrow>
      (if r = target then p \<in> set want else p \<in> set (storedAt (fetchGrants tbl) r))" for r p
      by (force simp: fetchGrants_at t set_replaceRows)
    have cur: "loadOk \<Longrightarrow> repoCan rp' = grantsCan (Resolve (fetchGrants tbl'))"
      by (intro ext) (simp add: r repoCan_def LoadGrants_def)
    from e c True cur show ?thesis
      by (auto simp: Resolve_can at IsRoleEditable_def owner_iff roleValid_iff AllRoles_def)
  qed
qed

lemma only_owner_rewrites_matrix_witness:
  "fst (SetGrants True True RoleAdmin RoleAdmin [] [] NewPermRepository) = Some (ErrEscalation RoleAdmin) \<and>
   repoCan (snd (snd (SetGrants True True RoleOwner RoleViewer [PermContentWrite] [] NewPermRepository)))
     RoleViewer PermContentWrite"
proof -
  have lit: "IsPermissionLocked PermContentWrite = False" "(RoleAdmin = RoleOwner) = False"
    "IsRoleEditable RoleViewer" "PermContentWrite \<in> set AllPermissions" "roleCan RoleOwner PermContentWrite"
    "roleCan RoleOwner PermRolesAssign" by code_simp+
  have "fst (SetGrants True True RoleOwner RoleViewer [PermContentWrite] [] NewPermRepository) = None"
    using lit by (simp add: SetGrants_def ValidateWrite_def NewPermRepository_def DefaultMatrix_can Let_def)
  note ok = this lit
  obtain res tbl' rp' where a: "SetGrants True True RoleAdmin RoleAdmin [] [] NewPermRepository = (res, tbl', rp')"
    by (rule prod_cases3)
  obtain res2 tbl2 rp2 where
    b: "SetGrants True True RoleOwner RoleViewer [PermContentWrite] [] NewPermRepository = (res2, tbl2, rp2)"
    by (rule prod_cases3)
  have "res = Some (ErrEscalation RoleAdmin)"
    using only_owner_rewrites_matrix [OF permReach.start a] ok(3) by simp
  moreover have "res2 = None" using ok(1) b by simp
  with only_owner_rewrites_matrix [OF permReach.start b] ok(2)
  have "repoCan rp2 RoleViewer PermContentWrite" by simp
  ultimately show ?thesis using a b by simp
qed

end
