(* ===== verification/Identity.thy ===== *)
theory Identity
  imports Rbac
begin

text \<open>
  The identity half of the schema as \<open>auth.Repository\<close> uses it
  (\<open>backend/internal/auth/repository.go\<close>): accounts, invitations and the rows of sessions.

  \<open>identity\<close> is the database: one list of records per table.  The order of a list is the order in
  which a statement scans the table, so nothing may depend on it.  Every method runs one transaction,
  modelled as one function \<open>identity \<Rightarrow> (authErr + 'a) \<times> identity\<close>; a method that fails before its
  commit returns the database it was given.  \<open>now\<close> is the transaction's \<open>now()\<close>.  Hashing a password
  and comparing one with its hash (bcrypt) are the arguments \<open>hashpw\<close> and \<open>verify\<close>; a token is
  represented by the hash the database stores.
\<close>

section \<open>Tables\<close>

record user =
  uId :: int
  uEmail :: string
  uEmailNorm :: string
  uUsername :: "string option"
  uUsernameNorm :: "string option"
  uName :: string
  uRole :: role
  uStatus :: string
  uPwHash :: "string option"
  uVerifiedAt :: "gotime option"
  uLastLogin :: "gotime option"
  uTokenVersion :: nat
  uLocale :: "string option"

record session =
  sId :: int
  sUser :: int
  sFamily :: string
  sAccess :: string
  sAccessExp :: gotime
  sRefresh :: string
  sRefreshExp :: gotime
  sCsrf :: string
  sCreated :: gotime
  sRotated :: "gotime option"
  sLastSeen :: gotime
  sRevoked :: "gotime option"
  sReason :: "string option"
  sIP :: "string option"
  sUA :: "string option"

record usedToken =
  utHash :: string
  utFamily :: string
  utSession :: int
  utAt :: gotime

record invite =
  iId :: int
  iEmail :: string
  iEmailNorm :: string
  iRole :: role
  iToken :: string
  iInvitedBy :: "int option"
  iCreated :: gotime
  iExpires :: gotime
  iAccepted :: "gotime option"
  iAcceptedUser :: "int option"
  iRevoked :: "gotime option"

record linkedIdentity =
  liUser :: int
  liProvider :: string
  liSubject :: string
  liEmail :: "string option"

record identity =
  users :: "user list"
  sessions :: "session list"
  usedTokens :: "usedToken list"
  invites :: "invite list"
  identities :: "linkedIdentity list"
  userSeq :: int
  sessionSeq :: int
  inviteSeq :: int

datatype authErr =
    ErrNoUser | ErrBadCredentials | ErrSessionInvalid | ErrSessionReuse | ErrInviteInvalid
  | ErrAlreadySetUp | ErrEmailTaken | ErrInvalidRole | ErrLastAdmin | ErrOwnerImmutable
  | ErrNotTransferable | ErrSelfTarget | ErrUserNotActive | ErrPasswordMissing | ErrPasswordExists
  | ErrInviteNotFound | ErrSessionNotFound | ErrInviteEmailMismatch | ErrUsernameTaken
  | ErrIdentityTaken | ErrIdentityExists | ErrPwHash | ErrSql
  | ErrChallengeInvalid | ErrChallengeWrongPurpose | ErrChallengeExhausted | ErrTooSoon
  | ErrEmailAlreadyVerified | ErrSendsExhausted | ErrNoTOTP | ErrTOTPEnrollmentChanged | ErrResetInvalid
  | ErrRecoveryUnavailable | ErrTOTPAlreadyConfirmed | ErrFactorAlreadyConfirmed | ErrNoPendingFactor
  | ErrReplay | ErrMail | ErrTOTPParams | ErrTOTPGenerate | ErrRandom
  | ErrOAuthStateInvalid | ErrOAuthLinkInvalid | ErrIdentityMissing | ErrLastCredential | ErrEmailUnchanged
  | ErrEmailChangeInvalid

definition StatusPending :: string where "StatusPending = ''pending''"
definition StatusActive :: string where "StatusActive = ''active''"
definition StatusDisabled :: string where "StatusDisabled = ''disabled''"

definition ReasonLogout :: string where "ReasonLogout = ''logout''"
definition ReasonLogoutAll :: string where "ReasonLogoutAll = ''logout_all''"
definition ReasonReuseDetected :: string where "ReasonReuseDetected = ''reuse_detected''"
definition ReasonPasswordChanged :: string where "ReasonPasswordChanged = ''password_changed''"
definition ReasonAdminRevoked :: string where "ReasonAdminRevoked = ''admin_revoked''"
definition ReasonUserDisabled :: string where "ReasonUserDisabled = ''user_disabled''"
definition ReasonEmailChanged :: string where "ReasonEmailChanged = ''email_changed''"

definition NormalizeEmail :: "string \<Rightarrow> string" where
  "NormalizeEmail email = goToLower (goTrimSpace email)"

section \<open>What the schema enforces on accounts\<close>

datatype constraint = EmailNormUniq | UsernameNormUniq | SingleOwnerUniq | UserCheck

definition userRowOk :: "user \<Rightarrow> bool" where
  "userRowOk u = (roleValid (uRole u) \<and>
                  uStatus u \<in> {StatusPending, StatusActive, StatusDisabled} \<and>
                  3 \<le> length (uEmail u) \<and> length (uEmail u) \<le> 320 \<and>
                  (uUsername u = None \<longleftrightarrow> uUsernameNorm u = None))"

text \<open>
  The check PostgreSQL makes when it writes the row \<open>u\<close> while the other live rows are \<open>others\<close>.  Its
  unique indexes are not deferrable, so they are checked as each row is written.
\<close>

definition violates :: "user \<Rightarrow> user list \<Rightarrow> constraint option" where
  "violates u others =
     (if \<not> userRowOk u then Some UserCheck
      else if \<exists>v\<in>set others. uEmailNorm v = uEmailNorm u then Some EmailNormUniq
      else if uUsernameNorm u \<noteq> None \<and> (\<exists>v\<in>set others. uUsernameNorm v = uUsernameNorm u)
      then Some UsernameNormUniq
      else if uRole u = RoleOwner \<and> (\<exists>v\<in>set others. uRole v = RoleOwner) then Some SingleOwnerUniq
      else None)"

text \<open>\<open>UPDATE app_user SET f WHERE P\<close>, row by row in scan order.\<close>

fun updateUserRows :: "(user \<Rightarrow> bool) \<Rightarrow> (user \<Rightarrow> user) \<Rightarrow> user list \<Rightarrow> user list \<Rightarrow> constraint + user list"
  where
  "updateUserRows P f seen [] = Inr seen"
| "updateUserRows P f seen (u # us) =
     (if P u
      then (case violates (f u) (seen @ us) of
              Some c \<Rightarrow> Inl c
            | None \<Rightarrow> updateUserRows P f (seen @ [f u]) us)
      else updateUserRows P f (seen @ [u]) us)"

definition userById :: "int \<Rightarrow> identity \<Rightarrow> user option" where
  "userById i st = find (\<lambda>u. uId u = i) (users st)"

definition writeUsers :: "(user \<Rightarrow> bool) \<Rightarrow> (user \<Rightarrow> user) \<Rightarrow> identity \<Rightarrow> constraint + identity" where
  "writeUsers P f st =
     (case updateUserRows P f [] (users st) of Inl c \<Rightarrow> Inl c | Inr us \<Rightarrow> Inr (st\<lparr>users := us\<rparr>))"

definition insertUser :: "user \<Rightarrow> identity \<Rightarrow> constraint + user \<times> identity" where
  "insertUser u st =
     (let u' = u\<lparr>uId := userSeq st\<rparr>
      in case violates u' (users st) of
           Some c \<Rightarrow> Inl c
         | None \<Rightarrow> Inr (u', st\<lparr>users := users st @ [u'], userSeq := userSeq st + 1\<rparr>))"

text \<open>
  The deferred trigger of migration 21, checked at commit for the account \<open>i\<close> whose status or password
  was written: an active account has a password or a linked identity.
\<close>

definition hasCredential :: "identity \<Rightarrow> user \<Rightarrow> bool" where
  "hasCredential st u =
     (uStatus u \<noteq> StatusActive \<or> uPwHash u \<noteq> None \<or> (\<exists>li\<in>set (identities st). liUser li = uId u))"

definition commitTx :: "int \<Rightarrow> 'a \<Rightarrow> identity \<Rightarrow> identity \<Rightarrow> (authErr + 'a) \<times> identity" where
  "commitTx i r st' st =
     (case userById i st' of
        None \<Rightarrow> (Inr r, st')
      | Some u \<Rightarrow> if hasCredential st' u then (Inr r, st') else (Inl ErrSql, st))"

definition isAdminRow :: "user \<Rightarrow> bool" where
  "isAdminRow u = (uRole u \<in> {RoleOwner, RoleAdmin} \<and> uStatus u = StatusActive)"

section \<open>Reading accounts\<close>

definition GetUser :: "int \<Rightarrow> identity \<Rightarrow> authErr + user" where
  "GetUser i st = (case userById i st of None \<Rightarrow> Inl ErrNoUser | Some u \<Rightarrow> Inr u)"

definition adminListCeiling :: int where
  "adminListCeiling = 200"

definition ListUsers :: "int \<Rightarrow> int \<Rightarrow> identity \<Rightarrow> user list" where
  "ListUsers limit afterID st =
     (let n = (if limit \<le> 0 \<or> adminListCeiling < limit then adminListCeiling else limit)
      in take (nat n)
           (rev (sort_key uId (filter (\<lambda>u. afterID = 0 \<or> uId u < afterID) (users st)))))"

definition userByName :: "string \<Rightarrow> identity \<Rightarrow> user option" where
  "userByName norm st =
     find (\<lambda>u. uEmailNorm u = norm \<or> uUsernameNorm u = Some norm) (users st)"

text \<open>\<open>verifyPassword\<close> returns the account, whether one was found, and the error.\<close>

definition verifyPassword ::
  "(string \<Rightarrow> string \<Rightarrow> bool) \<Rightarrow> string \<Rightarrow> string \<Rightarrow> identity \<Rightarrow> user option \<times> bool \<times> authErr option" where
  "verifyPassword verify identifier password st =
     (case userByName (NormalizeEmail identifier) st of
        None \<Rightarrow> (None, False, None)
      | Some u \<Rightarrow>
          (case uPwHash u of
             None \<Rightarrow> (None, True, Some ErrBadCredentials)
           | Some h \<Rightarrow> if \<not> verify h password then (None, True, Some ErrBadCredentials)
                       else (Some u, True, None)))"

definition loginBucketKey :: "string \<Rightarrow> identity \<Rightarrow> string" where
  "loginBucketKey identifier st =
     (let norm = NormalizeEmail identifier
      in case userByName norm st of
           None \<Rightarrow> norm
         | Some u \<Rightarrow> if uEmailNorm u = [] then norm else uEmailNorm u)"

definition NeedsBootstrap :: "identity \<Rightarrow> bool" where
  "NeedsBootstrap st = (\<not> (\<exists>u\<in>set (users st). uStatus u = StatusActive))"

section \<open>Writing accounts\<close>

definition revokeWhere :: "(session \<Rightarrow> bool) \<Rightarrow> string \<Rightarrow> gotime \<Rightarrow> identity \<Rightarrow> identity" where
  "revokeWhere P reason now st =
     st\<lparr>sessions := map (\<lambda>s. if P s \<and> sRevoked s = None
                             then s\<lparr>sRevoked := Some now, sReason := Some reason\<rparr> else s) (sessions st)\<rparr>"

text \<open>\<open>Bootstrap\<close>: claim the pending placeholder with the lowest id, or insert the first owner.\<close>

definition lowestId :: "user list \<Rightarrow> user option" where
  "lowestId us = (case us of [] \<Rightarrow> None
                  | u # vs \<Rightarrow> Some (foldl (\<lambda>a b. if uId b < uId a then b else a) u vs))"

definition bootErr :: "constraint \<Rightarrow> authErr" where
  "bootErr c = (if c = EmailNormUniq then ErrEmailTaken else ErrSql)"

definition newUser :: "string \<Rightarrow> string \<Rightarrow> role \<Rightarrow> string option \<Rightarrow> gotime option \<Rightarrow> user" where
  "newUser email name r pw verified =
     \<lparr>uId = 0, uEmail = goTrimSpace email, uEmailNorm = NormalizeEmail email, uUsername = None,
      uUsernameNorm = None, uName = name, uRole = r, uStatus = StatusActive, uPwHash = pw,
      uVerifiedAt = verified, uLastLogin = None, uTokenVersion = 0, uLocale = None\<rparr>"

definition Bootstrap ::
  "(string \<Rightarrow> string option) \<Rightarrow> gotime \<Rightarrow> string \<Rightarrow> string \<Rightarrow> string \<Rightarrow> identity \<Rightarrow> (authErr + user) \<times> identity"
  where
  "Bootstrap hashpw now email name password st =
     (case hashpw password of
        None \<Rightarrow> (Inl ErrPwHash, st)
      | Some h \<Rightarrow>
          if \<not> NeedsBootstrap st then (Inl ErrAlreadySetUp, st)
          else (case lowestId (filter (\<lambda>u. uRole u \<in> {RoleOwner, RoleAdmin} \<and> uStatus u = StatusPending)
                                 (users st)) of
                  Some p \<Rightarrow>
                    let f = (\<lambda>u. u\<lparr>uEmail := goTrimSpace email, uEmailNorm := NormalizeEmail email,
                                   uName := name, uPwHash := Some h, uStatus := StatusActive,
                                   uRole := RoleOwner, uVerifiedAt := Some now\<rparr>)
                    in (case writeUsers (\<lambda>u. uId u = uId p) f st of
                          Inl c \<Rightarrow> (Inl (bootErr c), st)
                        | Inr st' \<Rightarrow> commitTx (uId p) (f p) st' st)
                | None \<Rightarrow>
                    (case insertUser (newUser email name RoleOwner (Some h) (Some now)) st of
                       Inl c \<Rightarrow> (Inl (bootErr c), st)
                     | Inr (u, st') \<Rightarrow> commitTx (uId u) u st' st)))"

definition ChangePassword ::
  "(string \<Rightarrow> string \<Rightarrow> bool) \<Rightarrow> (string \<Rightarrow> string option) \<Rightarrow> gotime \<Rightarrow> int \<Rightarrow> int \<Rightarrow> string \<Rightarrow> string \<Rightarrow>
   identity \<Rightarrow> (authErr + unit) \<times> identity" where
  "ChangePassword verify hashpw now i keepSession currentPassword newPassword st =
     (case userById i st of
        None \<Rightarrow> (Inl ErrNoUser, st)
      | Some u \<Rightarrow>
          (case uPwHash u of
             None \<Rightarrow> (Inl ErrPasswordMissing, st)
           | Some h \<Rightarrow>
               if \<not> verify h currentPassword then (Inl ErrBadCredentials, st)
               else (case hashpw newPassword of
                       None \<Rightarrow> (Inl ErrPwHash, st)
                     | Some h' \<Rightarrow>
                         (case writeUsers (\<lambda>v. uId v = i)
                                 (\<lambda>v. v\<lparr>uPwHash := Some h', uTokenVersion := uTokenVersion v + 1\<rparr>) st of
                            Inl c \<Rightarrow> (Inl ErrSql, st)
                          | Inr st1 \<Rightarrow>
                              commitTx i () (revokeWhere (\<lambda>s. sUser s = i \<and> sId s \<noteq> keepSession)
                                               ReasonPasswordChanged now st1) st))))"

definition VerifyUserPasswordEpoch ::
  "(string \<Rightarrow> string \<Rightarrow> bool) \<Rightarrow> int \<Rightarrow> string \<Rightarrow> identity \<Rightarrow> authErr + nat" where
  "VerifyUserPasswordEpoch verify i password st =
     (case userById i st of
        None \<Rightarrow> Inl ErrNoUser
      | Some u \<Rightarrow>
          (case uPwHash u of
             None \<Rightarrow> Inl ErrPasswordMissing
           | Some h \<Rightarrow> if \<not> verify h password then Inl ErrBadCredentials else Inr (uTokenVersion u)))"

definition guardLastAdminTx :: "int \<Rightarrow> identity \<Rightarrow> authErr option" where
  "guardLastAdminTx target st =
     (case userById target st of
        None \<Rightarrow> Some ErrNoUser
      | Some u \<Rightarrow>
          if \<not> IsAdmin (uRole u) \<or> uStatus u \<noteq> StatusActive then None
          else if length (filter isAdminRow (users st)) \<le> 1 then Some ErrLastAdmin else None)"

definition nullif :: "string \<Rightarrow> string option" where
  "nullif s = (if s = [] then None else Some s)"

definition derefOr :: "string option \<Rightarrow> string \<Rightarrow> string" where
  "derefOr s fallback = (case s of None \<Rightarrow> fallback | Some x \<Rightarrow> x)"

definition profileUpdate ::
  "string option \<Rightarrow> string option \<Rightarrow> string option \<Rightarrow> string option \<Rightarrow> user \<Rightarrow> user" where
  "profileUpdate name locale username displayUsername u =
     u\<lparr>uName := (if name \<noteq> None then derefOr name [] else uName u),
       uLocale := (if locale \<noteq> None then nullif (derefOr locale []) else uLocale u),
       uUsername := (if username \<noteq> None then nullif (derefOr displayUsername []) else uUsername u),
       uUsernameNorm := (if username \<noteq> None then nullif (derefOr username []) else uUsernameNorm u)\<rparr>"

definition UpdateOwnProfile ::
  "int \<Rightarrow> string option \<Rightarrow> string option \<Rightarrow> string option \<Rightarrow> string option \<Rightarrow> identity \<Rightarrow>
   (authErr + user) \<times> identity" where
  "UpdateOwnProfile i name locale username displayUsername st =
     (case userById i st of
        None \<Rightarrow> (Inl ErrNoUser, st)
      | Some u \<Rightarrow>
          (case writeUsers (\<lambda>v. uId v = i) (profileUpdate name locale username displayUsername) st of
             Inl c \<Rightarrow> (Inl (if c = UsernameNormUniq then ErrUsernameTaken else ErrSql), st)
           | Inr st' \<Rightarrow> (Inr (profileUpdate name locale username displayUsername u), st')))"

definition renameUser :: "int \<Rightarrow> string option \<Rightarrow> identity \<Rightarrow> (authErr + user) \<times> identity" where
  "renameUser i name st =
     (case name of
        None \<Rightarrow> (GetUser i st, st)
      | Some n \<Rightarrow>
          (case userById i st of
             None \<Rightarrow> (Inl ErrNoUser, st)
           | Some u \<Rightarrow>
               (case writeUsers (\<lambda>v. uId v = i) (\<lambda>v. v\<lparr>uName := n\<rparr>) st of
                  Inl c \<Rightarrow> (Inl ErrSql, st)
                | Inr st' \<Rightarrow> (Inr (u\<lparr>uName := n\<rparr>), st'))))"

definition ownerIsImmutable :: "role \<Rightarrow> role option \<Rightarrow> string option \<Rightarrow> bool" where
  "ownerIsImmutable previous r status = (previous = RoleOwner \<and> (r \<noteq> None \<or> status \<noteq> None))"

definition isDemoteOrDisable :: "role option \<Rightarrow> string option \<Rightarrow> bool" where
  "isDemoteOrDisable r status =
     ((case r of None \<Rightarrow> False | Some x \<Rightarrow> \<not> IsAdmin x) \<or> status = Some StatusDisabled)"

definition isAdminPromotion :: "role \<Rightarrow> role option \<Rightarrow> bool" where
  "isAdminPromotion previous r = (case r of None \<Rightarrow> False | Some x \<Rightarrow> \<not> IsAdmin previous \<and> IsAdmin x)"

definition applyUserUpdate :: "string option \<Rightarrow> role option \<Rightarrow> string option \<Rightarrow> user \<Rightarrow> user" where
  "applyUserUpdate name r status u =
     u\<lparr>uName := (case name of Some n \<Rightarrow> n | None \<Rightarrow> uName u),
       uRole := (case r of Some x \<Rightarrow> x | None \<Rightarrow> uRole u),
       uStatus := (case status of Some x \<Rightarrow> x | None \<Rightarrow> uStatus u),
       uTokenVersion := uTokenVersion u + (if r \<noteq> None \<or> status \<noteq> None then 1 else 0)\<rparr>"

definition UpdateUser ::
  "gotime \<Rightarrow> int \<Rightarrow> string option \<Rightarrow> role option \<Rightarrow> string option \<Rightarrow> identity \<Rightarrow> (authErr + user) \<times> identity"
  where
  "UpdateUser now i name r status st =
     (if r = None \<and> status = None then renameUser i name st
      else (case userById i st of
              None \<Rightarrow> (Inl ErrNoUser, st)
            | Some u \<Rightarrow>
                if ownerIsImmutable (uRole u) r status then (Inl ErrOwnerImmutable, st)
                else (case (if isDemoteOrDisable r status then guardLastAdminTx i st else None) of
                        Some e \<Rightarrow> (Inl e, st)
                      | None \<Rightarrow>
                          (case writeUsers (\<lambda>v. uId v = i) (applyUserUpdate name r status) st of
                             Inl c \<Rightarrow> (Inl ErrSql, st)
                           | Inr st1 \<Rightarrow>
                               commitTx i (applyUserUpdate name r status u)
                                 (if isAdminPromotion (uRole u) r
                                  then revokeWhere (\<lambda>s. sUser s = i) ReasonAdminRevoked now st1 else st1)
                                 st))))"

text \<open>\<open>DELETE FROM app_user\<close> with the foreign keys of the identity tables.\<close>

definition cascadeUser :: "int \<Rightarrow> identity \<Rightarrow> identity" where
  "cascadeUser i st =
     (let dead = map sId (filter (\<lambda>s. sUser s = i) (sessions st))
      in st\<lparr>users := filter (\<lambda>u. uId u \<noteq> i) (users st),
            sessions := filter (\<lambda>s. sUser s \<noteq> i) (sessions st),
            usedTokens := filter (\<lambda>t. utSession t \<notin> set dead) (usedTokens st),
            identities := filter (\<lambda>li. liUser li \<noteq> i) (identities st),
            invites := map (\<lambda>v. v\<lparr>iInvitedBy := (if iInvitedBy v = Some i then None else iInvitedBy v),
                                  iAcceptedUser := (if iAcceptedUser v = Some i then None
                                                    else iAcceptedUser v)\<rparr>) (invites st)\<rparr>)"

definition DeleteUser :: "int \<Rightarrow> identity \<Rightarrow> (authErr + unit) \<times> identity" where
  "DeleteUser i st =
     (case userById i st of
        None \<Rightarrow> (Inl ErrNoUser, st)
      | Some u \<Rightarrow>
          if uRole u = RoleOwner then (Inl ErrOwnerImmutable, st)
          else (case guardLastAdminTx i st of
                  Some e \<Rightarrow> (Inl e, st)
                | None \<Rightarrow> (Inr (), cascadeUser i st)))"

definition TransferOwnership :: "gotime \<Rightarrow> int \<Rightarrow> int \<Rightarrow> identity \<Rightarrow> (authErr + user) \<times> identity" where
  "TransferOwnership now from to st =
     (if from = to then (Inl ErrSelfTarget, st)
      else (case (userById from st, userById to st) of
              (Some f, Some t) \<Rightarrow>
                if uRole f \<noteq> RoleOwner then (Inl ErrOwnerImmutable, st)
                else if uStatus t \<noteq> StatusActive then (Inl ErrNotTransferable, st)
                else (case writeUsers (\<lambda>u. uId u \<in> {from, to})
                             (\<lambda>u. u\<lparr>uRole := (if uId u = from then RoleAdmin else RoleOwner),
                                    uTokenVersion := uTokenVersion u + 1\<rparr>) st of
                        Inl c \<Rightarrow> (Inl ErrSql, st)
                      | Inr st1 \<Rightarrow>
                          (case userById to st1 of
                             None \<Rightarrow> (Inl ErrSql, st)
                           | Some u \<Rightarrow>
                               (Inr u, revokeWhere (\<lambda>s. sUser s \<in> {from, to}) ReasonAdminRevoked now st1)))
            | _ \<Rightarrow> (Inl ErrNoUser, st)))"

definition AdminCreateUser ::
  "(string \<Rightarrow> string option) \<Rightarrow> string \<Rightarrow> string \<Rightarrow> string \<Rightarrow> role \<Rightarrow> identity \<Rightarrow> (authErr + user) \<times> identity"
  where
  "AdminCreateUser hashpw email name password r st =
     (if r = RoleOwner \<or> \<not> roleValid r then (Inl ErrInvalidRole, st)
      else (case hashpw password of
              None \<Rightarrow> (Inl ErrPwHash, st)
            | Some h \<Rightarrow>
                (case insertUser (newUser email (goTrimSpace name) r (Some h) None) st of
                   Inl c \<Rightarrow> (Inl (bootErr c), st)
                 | Inr (u, st') \<Rightarrow> commitTx (uId u) u st' st)))"

section \<open>Invitations\<close>

definition inviteOpen :: "invite \<Rightarrow> bool" where
  "inviteOpen v = (iAccepted v = None \<and> iRevoked v = None)"

definition inviteLive :: "gotime \<Rightarrow> invite \<Rightarrow> bool" where
  "inviteLive now v = (inviteOpen v \<and> now < iExpires v)"

text \<open>
  \<open>CreateInvite\<close>; \<open>token\<close> is the hash of the token just minted and \<open>mailOk\<close> whether the message could
  be queued in the same transaction.  \<open>inviteRefused\<close> is when the insert fails: on the role check, the
  unique token hash, the partial unique index of open invitations per address or the foreign key.
\<close>

definition supersedeInvites :: "gotime \<Rightarrow> string \<Rightarrow> invite list \<Rightarrow> invite list" where
  "supersedeInvites now norm vs =
     map (\<lambda>v. if iEmailNorm v = norm \<and> inviteOpen v then v\<lparr>iRevoked := Some now\<rparr> else v) vs"

definition inviteRefused :: "invite \<Rightarrow> invite list \<Rightarrow> identity \<Rightarrow> bool" where
  "inviteRefused v others st =
     (iRole v \<notin> {RoleAdmin, RoleEditor, RoleViewer} \<or> (\<exists>w\<in>set others. iToken w = iToken v) \<or>
      (\<exists>w\<in>set others. iEmailNorm w = iEmailNorm v \<and> inviteOpen w) \<or>
      (case iInvitedBy v of None \<Rightarrow> False | Some i \<Rightarrow> userById i st = None))"

definition CreateInvite ::
  "gotime \<Rightarrow> string \<Rightarrow> bool \<Rightarrow> string \<Rightarrow> role \<Rightarrow> int \<Rightarrow> duration \<Rightarrow> identity \<Rightarrow> (authErr + invite) \<times> identity"
  where
  "CreateInvite now token mailOk email r invitedBy ttl st =
     (let norm = NormalizeEmail email
      in if \<exists>u\<in>set (users st). uEmailNorm u = norm then (Inl ErrEmailTaken, st)
         else let old = supersedeInvites now norm (invites st);
                  v = \<lparr>iId = inviteSeq st, iEmail = goTrimSpace email, iEmailNorm = norm, iRole = r,
                       iToken = token, iInvitedBy = Some invitedBy, iCreated = now,
                       iExpires = now + ttl, iAccepted = None, iAcceptedUser = None, iRevoked = None\<rparr>
              in if inviteRefused v old st \<or> \<not> mailOk then (Inl ErrSql, st)
                 else (Inr v, st\<lparr>invites := old @ [v], inviteSeq := inviteSeq st + 1\<rparr>))"

definition LookupInvite :: "gotime \<Rightarrow> string \<Rightarrow> identity \<Rightarrow> authErr + invite" where
  "LookupInvite now token st =
     (case find (\<lambda>v. iToken v = token \<and> inviteLive now v) (invites st) of
        None \<Rightarrow> Inl ErrInviteInvalid | Some v \<Rightarrow> Inr v)"

definition ListInvites :: "gotime \<Rightarrow> int \<Rightarrow> identity \<Rightarrow> invite list" where
  "ListInvites now limit st =
     (let n = (if limit \<le> 0 \<or> adminListCeiling < limit then adminListCeiling else limit)
      in take (nat n) (rev (sort_key iCreated (filter (inviteLive now) (invites st)))))"

definition RevokeInvite :: "gotime \<Rightarrow> int \<Rightarrow> identity \<Rightarrow> (authErr + unit) \<times> identity" where
  "RevokeInvite now i st =
     (if \<exists>v\<in>set (invites st). iId v = i \<and> inviteOpen v
      then (Inr (), st\<lparr>invites := map (\<lambda>v. if iId v = i \<and> inviteOpen v then v\<lparr>iRevoked := Some now\<rparr>
                                           else v) (invites st)\<rparr>)
      else (Inl ErrInviteNotFound, st))"

record inviteBy =
  byToken :: "string option"
  byId :: "int option"

record providerIdentity =
  piProvider :: string
  piSubject :: string
  piEmail :: string

record inviteCredential =
  icPassword :: "string option"
  icIdentity :: "providerIdentity option"

definition lookupLiveInvite :: "gotime \<Rightarrow> inviteBy \<Rightarrow> identity \<Rightarrow> authErr + invite" where
  "lookupLiveInvite now loc st =
     (case find (\<lambda>v. (byToken loc = None \<or> byToken loc = Some (iToken v)) \<and>
                     (byId loc = None \<or> byId loc = Some (iId v)) \<and> inviteLive now v) (invites st) of
        None \<Rightarrow> Inl ErrInviteInvalid | Some v \<Rightarrow> Inr v)"

definition linkIdentity :: "int \<Rightarrow> providerIdentity \<Rightarrow> identity \<Rightarrow> authErr + identity" where
  "linkIdentity i pid st =
     (if piProvider pid \<noteq> ''google'' then Inl ErrSql
      else if \<exists>li\<in>set (identities st). liProvider li = piProvider pid \<and> liSubject li = piSubject pid
      then Inl ErrIdentityTaken
      else if \<exists>li\<in>set (identities st). liProvider li = piProvider pid \<and> liUser li = i
      then Inl ErrIdentityExists
      else Inr (st\<lparr>identities := identities st @
                  [\<lparr>liUser = i, liProvider = piProvider pid, liSubject = piSubject pid,
                    liEmail = (if piEmail pid = [] then None else Some (piEmail pid))\<rparr>]\<rparr>))"

definition insertAcceptedUser ::
  "gotime \<Rightarrow> string \<Rightarrow> string \<Rightarrow> inviteCredential \<Rightarrow> role \<Rightarrow> identity \<Rightarrow> authErr + user \<times> identity" where
  "insertAcceptedUser now email name cred r st =
     (case insertUser (newUser email name r (icPassword cred) (Some now)) st of
        Inl c \<Rightarrow> Inl (bootErr c)
      | Inr (u, st1) \<Rightarrow>
          (case icIdentity cred of
             None \<Rightarrow> Inr (u, st1)
           | Some pid \<Rightarrow> rbind (linkIdentity (uId u) pid st1) (\<lambda>st2. Inr (u, st2))))"

definition acceptInvite ::
  "gotime \<Rightarrow> inviteBy \<Rightarrow> string \<Rightarrow> inviteCredential \<Rightarrow> identity \<Rightarrow> (authErr + user) \<times> identity" where
  "acceptInvite now loc name cred st =
     (if icPassword cred = None \<and> icIdentity cred = None then (Inl ErrPasswordMissing, st)
      else if byToken loc = None \<and> byId loc = None then (Inl ErrInviteInvalid, st)
      else (case lookupLiveInvite now loc st of
              Inl e \<Rightarrow> (Inl e, st)
            | Inr v \<Rightarrow>
                if (case icIdentity cred of None \<Rightarrow> False
                    | Some pid \<Rightarrow> NormalizeEmail (piEmail pid) \<noteq> NormalizeEmail (iEmail v))
                then (Inl ErrInviteEmailMismatch, st)
                else (case insertAcceptedUser now (iEmail v) name cred (iRole v) st of
                        Inl e \<Rightarrow> (Inl e, st)
                      | Inr (u, st1) \<Rightarrow>
                          commitTx (uId u) u
                            (st1\<lparr>invites := map (\<lambda>w. if iId w = iId v
                                    then w\<lparr>iAccepted := Some now, iAcceptedUser := Some (uId u)\<rparr> else w)
                                  (invites st1)\<rparr>) st)))"

definition AcceptInvite ::
  "(string \<Rightarrow> string option) \<Rightarrow> gotime \<Rightarrow> string \<Rightarrow> string \<Rightarrow> string \<Rightarrow> identity \<Rightarrow> (authErr + user) \<times> identity"
  where
  "AcceptInvite hashpw now token name password st =
     (case hashpw password of
        None \<Rightarrow> (Inl ErrPwHash, st)
      | Some h \<Rightarrow> acceptInvite now \<lparr>byToken = Some token, byId = None\<rparr> name
                    \<lparr>icPassword = Some h, icIdentity = None\<rparr> st)"

definition AcceptInviteWithIdentityByID ::
  "gotime \<Rightarrow> int \<Rightarrow> string \<Rightarrow> providerIdentity \<Rightarrow> identity \<Rightarrow> (authErr + user) \<times> identity" where
  "AcceptInviteWithIdentityByID now i name pid st =
     acceptInvite now \<lparr>byToken = None, byId = Some i\<rparr> name
       \<lparr>icPassword = None, icIdentity = Some pid\<rparr> st"

section \<open>What a statement on accounts does\<close>

lemma updateUserRows_map:
  "updateUserRows P f seen us = Inr r \<Longrightarrow> r = seen @ map (\<lambda>u. if P u then f u else u) us"
  by (induction P f seen us rule: updateUserRows.induct) (auto split: if_splits option.splits)

lemma writeUsers_Inr:
  "writeUsers P f st = Inr st' \<Longrightarrow> st' = st\<lparr>users := map (\<lambda>u. if P u then f u else u) (users st)\<rparr>"
  by (auto simp: writeUsers_def dest!: updateUserRows_map split: sum.splits)

lemma lowestId_mem: "lowestId us = Some p \<Longrightarrow> p \<in> set us"
proof -
  have "foldl (\<lambda>a b. if uId b < uId a then b else a) u vs \<in> insert u (set vs)" for u :: user and vs
  proof (induction vs arbitrary: u)
    case (Cons a vs)
    from Cons [of "if uId a < uId u then a else u"] show ?case by (auto split: if_splits)
  qed simp
  then show "lowestId us = Some p \<Longrightarrow> p \<in> set us" by (cases us) (auto simp: lowestId_def)
qed

text \<open>What the checks and the indexes keep: rows in range, unique addresses and names, at most one owner.\<close>

definition uniqueUsers :: "user list \<Rightarrow> bool" where
  "uniqueUsers us =
     (list_all userRowOk us \<and> distinct (map uEmailNorm us) \<and>
      distinct (filter (\<lambda>n. n \<noteq> None) (map uUsernameNorm us)) \<and>
      length (filter (\<lambda>u. uRole u = RoleOwner) us) \<le> 1)"

lemma violates_None:
  assumes "violates u others = None"
  shows "uEmailNorm u \<notin> uEmailNorm ` set others" "userRowOk u"
    "uRole u = RoleOwner \<Longrightarrow> filter (\<lambda>u. uRole u = RoleOwner) others = []"
    "uUsernameNorm u \<noteq> None \<Longrightarrow> uUsernameNorm u \<notin> uUsernameNorm ` set others"
  using assms by (auto simp: violates_def filter_empty_conv image_iff split: if_splits)

lemma uniqueUsers_replace:
  assumes "uniqueUsers (seen @ u # us)" "violates v (seen @ us) = None"
  shows "uniqueUsers (seen @ v # us)"
  using assms(1) violates_None [OF assms(2)]
  by (cases "uRole v = RoleOwner"; cases "uUsernameNorm v = None") (auto simp: uniqueUsers_def split: if_splits)

lemma distinct_some_filter:
  "distinct (filter Q (map f us)) \<Longrightarrow> distinct (filter Q (map f (filter P us)))"
  by (induction us) auto

lemma updateUserRows_unique:
  "updateUserRows P f seen us = Inr r \<Longrightarrow> uniqueUsers (seen @ us) \<Longrightarrow> uniqueUsers r"
proof (induction P f seen us rule: updateUserRows.induct)
  case (2 P f seen u us)
  then show ?case
    by (auto split: if_splits option.splits dest: uniqueUsers_replace)
qed simp

lemma writeUsers_unique:
  "writeUsers P f st = Inr st' \<Longrightarrow> uniqueUsers (users st) \<Longrightarrow> uniqueUsers (users st')"
  using updateUserRows_unique [of P f "[]" "users st"]
  by (auto simp: writeUsers_def split: sum.splits)

lemma insertUser_Inr:
  assumes "insertUser u st = Inr (u', st')"
  shows "u' = u\<lparr>uId := userSeq st\<rparr>" "st' = st\<lparr>users := users st @ [u'], userSeq := userSeq st + 1\<rparr>"
    "uniqueUsers (users st) \<Longrightarrow> uniqueUsers (users st')"
    "uRole u = RoleOwner \<Longrightarrow> filter (\<lambda>u. uRole u = RoleOwner) (users st) = []"
proof -
  from assms have v: "violates (u\<lparr>uId := userSeq st\<rparr>) (users st) = None"
    and e: "u' = u\<lparr>uId := userSeq st\<rparr>" "st' = st\<lparr>users := users st @ [u'], userSeq := userSeq st + 1\<rparr>"
    by (auto simp: insertUser_def Let_def split: option.splits)
  show "u' = u\<lparr>uId := userSeq st\<rparr>" "st' = st\<lparr>users := users st @ [u'], userSeq := userSeq st + 1\<rparr>"
    by (fact e)+
  show "uniqueUsers (users st) \<Longrightarrow> uniqueUsers (users st')"
    using violates_None [OF v] e by (auto simp: uniqueUsers_def)
  show "uRole u = RoleOwner \<Longrightarrow> filter (\<lambda>u. uRole u = RoleOwner) (users st) = []"
    using violates_None(3) [OF v] by simp
qed

end
