(* ===== verification/Sessions.thy ===== *)
theory Sessions
  imports Identity
begin

text \<open>
  Sessions: issue, resolution, rotation with replay detection and revocation
  (\<open>backend/internal/auth/repository.go\<close>, section Sessions, and \<open>rotate.go\<close>).

  A refresh attempt runs in one serializable transaction, so \<open>rotateOnce\<close> is one atomic function.  The
  three tokens a successful call mints are the argument \<open>minted\<close>, given by the hashes the database
  stores; \<open>now\<close> stands for both the transaction's \<open>now()\<close> and \<open>time.Now()\<close>.
\<close>

section \<open>Definitions\<close>

record sessionTTL =
  ttlAccess :: duration
  ttlRefresh :: duration
  ttlAbsolute :: duration
  ttlGrace :: duration

definition maxLiveSessionsPerFamily :: nat where
  "maxLiveSessionsPerFamily = 5"

definition maxRotateAttempts :: nat where
  "maxRotateAttempts = 3"

record sessionIssue =
  isAccess :: string
  isRefresh :: string
  isCsrf :: string
  isAccessExp :: gotime
  isRefreshExp :: gotime

definition newSessionIssue :: "gotime \<Rightarrow> sessionTTL \<Rightarrow> string \<times> string \<times> string \<Rightarrow> sessionIssue" where
  "newSessionIssue now ttl minted =
     (case minted of (a, r, c) \<Rightarrow>
        \<lparr>isAccess = a, isRefresh = r, isCsrf = c, isAccessExp = now + ttlAccess ttl,
         isRefreshExp = now + ttlRefresh ttl\<rparr>)"

definition nullIP :: "string \<Rightarrow> string option" where
  "nullIP ip = (if ip = [] then None else Some ip)"

definition truncateStr :: "string \<Rightarrow> nat \<Rightarrow> string" where
  "truncateStr s n = (if length s \<le> n then s else take n s)"

record sessionOrigin =
  soFamily :: string
  soCreated :: "gotime option"
  soIP :: "string option"
  soUA :: "string option"

text \<open>The insert; the two unique token indexes and the foreign key to the account may refuse it.\<close>

definition insertSessionTx ::
  "gotime \<Rightarrow> int \<Rightarrow> sessionIssue \<Rightarrow> sessionOrigin \<Rightarrow> identity \<Rightarrow> authErr + int \<times> identity" where
  "insertSessionTx now uid issue origin st =
     (if userById uid st = None \<or>
         (\<exists>s\<in>set (sessions st). sAccess s = isAccess issue \<or> sRefresh s = isRefresh issue)
      then Inl ErrSql
      else Inr (sessionSeq st,
        st\<lparr>sessions := sessions st @
             [\<lparr>sId = sessionSeq st, sUser = uid, sFamily = soFamily origin, sAccess = isAccess issue,
               sAccessExp = isAccessExp issue, sRefresh = isRefresh issue,
               sRefreshExp = isRefreshExp issue, sCsrf = isCsrf issue,
               sCreated = (case soCreated origin of Some t \<Rightarrow> t | None \<Rightarrow> now), sRotated = None,
               sLastSeen = now, sRevoked = None, sReason = None, sIP = soIP origin, sUA = soUA origin\<rparr>],
           sessionSeq := sessionSeq st + 1\<rparr>))"

definition issueSessionTx ::
  "gotime \<Rightarrow> string \<Rightarrow> int \<Rightarrow> sessionIssue \<Rightarrow> string \<Rightarrow> string \<Rightarrow> identity \<Rightarrow> authErr + int \<times> identity" where
  "issueSessionTx now family uid issue ip ua st =
     insertSessionTx now uid issue
       \<lparr>soFamily = family, soCreated = None, soIP = nullIP ip, soUA = Some (truncateStr ua 512)\<rparr> st"

definition IssueSession ::
  "gotime \<Rightarrow> string \<Rightarrow> string \<times> string \<times> string \<Rightarrow> int \<Rightarrow> nat \<Rightarrow> sessionTTL \<Rightarrow> string \<Rightarrow> string \<Rightarrow> identity \<Rightarrow>
   (authErr + sessionIssue \<times> int) \<times> identity" where
  "IssueSession now family minted uid tokenVersion ttl ip ua st =
     (let issue = newSessionIssue now ttl minted
      in case find (\<lambda>u. uId u = uid \<and> uStatus u = StatusActive \<and> uTokenVersion u = tokenVersion)
                (users st) of
           None \<Rightarrow> (Inl ErrSessionInvalid, st)
         | Some _ \<Rightarrow>
             (case issueSessionTx now family uid issue ip ua st of
                Inl e \<Rightarrow> (Inl e, st)
              | Inr (sid, st1) \<Rightarrow>
                  (case writeUsers (\<lambda>u. uId u = uid) (\<lambda>u. u\<lparr>uLastLogin := Some now\<rparr>) st1 of
                     Inl c \<Rightarrow> (Inl ErrSql, st)
                   | Inr st2 \<Rightarrow> (Inr (issue, sid), st2))))"

record principal =
  prUser :: int
  prRole :: role
  prSession :: int
  prToken :: int
  prVia :: string

definition ViaSession :: string where "ViaSession = ''session''"
definition ViaAPIToken :: string where "ViaAPIToken = ''api_token''"

definition sessionLive :: "gotime \<Rightarrow> session \<Rightarrow> bool" where
  "sessionLive now s = (sRevoked s = None \<and> now < sAccessExp s)"

text \<open>\<open>ResolveAccess\<close>: session and account in one read; the result carries the CSRF hash.\<close>

definition ResolveAccess :: "gotime \<Rightarrow> string \<Rightarrow> identity \<Rightarrow> authErr + principal \<times> string" where
  "ResolveAccess now tokHash st =
     (case find (\<lambda>s. sAccess s = tokHash \<and> sessionLive now s \<and> userById (sUser s) st \<noteq> None)
             (sessions st) of
        None \<Rightarrow> Inl ErrSessionInvalid
      | Some s \<Rightarrow>
          (case userById (sUser s) st of
             None \<Rightarrow> Inl ErrSessionInvalid
           | Some u \<Rightarrow>
               if uStatus u \<noteq> StatusActive then Inl ErrUserNotActive
               else Inr (\<lparr>prUser = sUser s, prRole = uRole u, prSession = sId s, prToken = 0,
                          prVia = ViaSession\<rparr>, sCsrf s)))"

definition TouchSession :: "gotime \<Rightarrow> int \<Rightarrow> identity \<Rightarrow> identity" where
  "TouchSession now i st =
     st\<lparr>sessions := map (\<lambda>s. if sId s = i then s\<lparr>sLastSeen := now\<rparr> else s) (sessions st)\<rparr>"

definition requireLiveSessionTx :: "gotime \<Rightarrow> int \<Rightarrow> int \<Rightarrow> identity \<Rightarrow> authErr option" where
  "requireLiveSessionTx now uid i st =
     (if \<exists>s\<in>set (sessions st). sId s = i \<and> sUser s = uid \<and> sessionLive now s
      then None else Some ErrSessionInvalid)"

definition ListSessions :: "gotime \<Rightarrow> int \<Rightarrow> int \<Rightarrow> identity \<Rightarrow> (session \<times> bool) list" where
  "ListSessions now uid current st =
     map (\<lambda>s. (s, sId s = current))
       (rev (sort_key sLastSeen
          (filter (\<lambda>s. sUser s = uid \<and> sRevoked s = None \<and> now < sRefreshExp s) (sessions st))))"

definition RevokeSession :: "gotime \<Rightarrow> int \<Rightarrow> int \<Rightarrow> string \<Rightarrow> identity \<Rightarrow> (authErr + unit) \<times> identity" where
  "RevokeSession now uid i reason st =
     (if \<exists>s\<in>set (sessions st). sId s = i \<and> sUser s = uid \<and> sRevoked s = None
      then (Inr (), revokeWhere (\<lambda>s. sId s = i \<and> sUser s = uid) reason now st)
      else (Inl ErrSessionNotFound, st))"

text \<open>\<open>accessTok\<close> and \<open>refreshTok\<close> are the hashes of the two cookies, absent for an empty cookie.\<close>

definition RevokeFamilyByTokens ::
  "gotime \<Rightarrow> string option \<Rightarrow> string option \<Rightarrow> string \<Rightarrow> identity \<Rightarrow> identity" where
  "RevokeFamilyByTokens now accessTok refreshTok reason st =
     (let families =
        map sFamily (filter (\<lambda>s. accessTok = Some (sAccess s) \<or> refreshTok = Some (sRefresh s)) (sessions st)) @
        map utFamily (filter (\<lambda>t. refreshTok = Some (utHash t)) (usedTokens st))
      in revokeWhere (\<lambda>s. sFamily s \<in> set families) reason now st)"

definition RevokeAllForUser :: "gotime \<Rightarrow> int \<Rightarrow> string \<Rightarrow> identity \<Rightarrow> (authErr + unit) \<times> identity" where
  "RevokeAllForUser now uid reason st =
     (case userById uid st of
        None \<Rightarrow> (Inl ErrNoUser, st)
      | Some _ \<Rightarrow>
          (case writeUsers (\<lambda>u. uId u = uid) (\<lambda>u. u\<lparr>uTokenVersion := uTokenVersion u + 1\<rparr>) st of
             Inl c \<Rightarrow> (Inl ErrSql, st)
           | Inr st1 \<Rightarrow> (Inr (), revokeWhere (\<lambda>s. sUser s = uid) reason now st1)))"

definition SweepIdentity :: "gotime \<Rightarrow> duration \<Rightarrow> identity \<Rightarrow> nat \<times> identity" where
  "SweepIdentity now retain st =
     (let dead = filter (\<lambda>s. sRefreshExp s < now - retain) (sessions st);
          st1 = st\<lparr>sessions := filter (\<lambda>s. \<not> sRefreshExp s < now - retain) (sessions st),
                   usedTokens := filter (\<lambda>t. utSession t \<notin> set (map sId dead)) (usedTokens st)\<rparr>;
          old = filter (\<lambda>t. utAt t < now - retain) (usedTokens st1);
          st2 = st1\<lparr>usedTokens := filter (\<lambda>t. \<not> utAt t < now - retain) (usedTokens st1)\<rparr>;
          inv = filter (\<lambda>v. iExpires v < now - retain \<and> iAccepted v = None) (invites st2)
      in (length dead + length old + length inv,
          st2\<lparr>invites := filter (\<lambda>v. \<not> (iExpires v < now - retain \<and> iAccepted v = None)) (invites st2)\<rparr>))"

section \<open>Rotation\<close>

record rotateResult =
  rrTokens :: "sessionIssue option"
  rrUser :: int
  rrSession :: int
  rrReplayed :: bool

definition revokeFamily :: "gotime \<Rightarrow> string \<Rightarrow> string \<Rightarrow> identity \<Rightarrow> identity" where
  "revokeFamily now family reason st = revokeWhere (\<lambda>s. sFamily s = family) reason now st"

definition revokeAndPurgeFamily :: "gotime \<Rightarrow> string \<Rightarrow> identity \<Rightarrow> identity" where
  "revokeAndPurgeFamily now family st =
     (revokeFamily now family ReasonReuseDetected st)
       \<lparr>usedTokens := filter (\<lambda>t. utFamily t \<noteq> family) (usedTokens st)\<rparr>"

definition lookupConsumedRefresh :: "string \<Rightarrow> identity \<Rightarrow> usedToken option" where
  "lookupConsumedRefresh tokHash st = find (\<lambda>t. utHash t = tokHash) (usedTokens st)"

definition lockLiveRefresh :: "gotime \<Rightarrow> string \<Rightarrow> identity \<Rightarrow> authErr + session \<times> user" where
  "lockLiveRefresh now tokHash st =
     (case find (\<lambda>s. sRefresh s = tokHash \<and> sRevoked s = None \<and> now < sRefreshExp s \<and>
                     userById (sUser s) st \<noteq> None) (sessions st) of
        None \<Rightarrow> Inl ErrSessionInvalid
      | Some s \<Rightarrow> (case userById (sUser s) st of
                     None \<Rightarrow> Inl ErrSessionInvalid | Some u \<Rightarrow> Inr (s, u)))"

text \<open>The update of \<open>writeNewTokens\<close> on the session row; the unique token indexes may refuse it.\<close>

definition renewSession :: "gotime \<Rightarrow> sessionIssue \<Rightarrow> string \<Rightarrow> string \<Rightarrow> session \<Rightarrow> session" where
  "renewSession now issue ip ua s =
     s\<lparr>sAccess := isAccess issue, sAccessExp := isAccessExp issue, sRefresh := isRefresh issue,
       sRefreshExp := isRefreshExp issue, sCsrf := isCsrf issue,
       sIP := (case nullIP ip of Some x \<Rightarrow> Some x | None \<Rightarrow> sIP s),
       sUA := (let x = truncateStr ua 512 in if x = [] then sUA s else Some x),
       sRotated := Some now, sLastSeen := now\<rparr>"

definition writeNewTokens ::
  "gotime \<Rightarrow> int \<Rightarrow> sessionIssue \<Rightarrow> string \<Rightarrow> string \<Rightarrow> identity \<Rightarrow> authErr + identity" where
  "writeNewTokens now i issue ip ua st =
     (if \<exists>s\<in>set (sessions st). sId s \<noteq> i \<and> (sAccess s = isAccess issue \<or> sRefresh s = isRefresh issue)
      then Inl ErrSql
      else Inr (st\<lparr>sessions := map (\<lambda>s. if sId s = i then renewSession now issue ip ua s else s)
                                (sessions st)\<rparr>))"

definition emptyRotate :: rotateResult where
  "emptyRotate = \<lparr>rrTokens = None, rrUser = 0, rrSession = 0, rrReplayed = False\<rparr>"

text \<open>
  A refresh attempt returns Go's error and result and the committed database; on the reuse paths the
  error comes with the owner and with the revocation committed.
\<close>

definition replayOutsideGrace ::
  "gotime \<Rightarrow> string \<Rightarrow> int \<Rightarrow> identity \<Rightarrow> authErr option \<times> rotateResult \<times> identity" where
  "replayOutsideGrace now family i st =
     (let owner = (case find (\<lambda>s. sId s = i) (sessions st) of Some s \<Rightarrow> sUser s | None \<Rightarrow> 0)
      in (Some ErrSessionReuse, emptyRotate\<lparr>rrUser := owner\<rparr>, revokeAndPurgeFamily now family st))"

definition liveInFamily :: "string \<Rightarrow> identity \<Rightarrow> nat" where
  "liveInFamily family st = length (filter (\<lambda>s. sFamily s = family \<and> sRevoked s = None) (sessions st))"

definition graceSibling ::
  "gotime \<Rightarrow> sessionTTL \<Rightarrow> string \<times> string \<times> string \<Rightarrow> string \<Rightarrow> int \<Rightarrow> identity \<Rightarrow>
   authErr option \<times> rotateResult \<times> identity" where
  "graceSibling now ttl minted family i st =
     (case find (\<lambda>s. sId s = i) (sessions st) of
        None \<Rightarrow> (Some ErrSessionInvalid, emptyRotate, st)
      | Some s \<Rightarrow>
          if sRevoked s \<noteq> None then (Some ErrSessionInvalid, emptyRotate, st)
          else if maxLiveSessionsPerFamily \<le> liveInFamily family st
          then (Some ErrSessionReuse, emptyRotate\<lparr>rrUser := sUser s\<rparr>, revokeAndPurgeFamily now family st)
          else let issue = newSessionIssue now ttl minted
               in case insertSessionTx now (sUser s) issue
                         \<lparr>soFamily = family, soCreated = Some (sCreated s), soIP = sIP s, soUA = sUA s\<rparr> st of
                    Inl e \<Rightarrow> (Some e, emptyRotate, st)
                  | Inr (sib, st') \<Rightarrow>
                      (None, \<lparr>rrTokens = Some issue, rrUser = sUser s, rrSession = sib, rrReplayed = True\<rparr>, st'))"

definition handleConsumed ::
  "gotime \<Rightarrow> sessionTTL \<Rightarrow> string \<times> string \<times> string \<Rightarrow> usedToken \<Rightarrow> identity \<Rightarrow>
   authErr option \<times> rotateResult \<times> identity" where
  "handleConsumed now ttl minted t st =
     (if ttlGrace ttl < now - utAt t then replayOutsideGrace now (utFamily t) (utSession t) st
      else graceSibling now ttl minted (utFamily t) (utSession t) st)"

definition rotateOnce ::
  "gotime \<Rightarrow> sessionTTL \<Rightarrow> string \<times> string \<times> string \<Rightarrow> string \<Rightarrow> string \<Rightarrow> string \<Rightarrow> identity \<Rightarrow>
   authErr option \<times> rotateResult \<times> identity" where
  "rotateOnce now ttl minted tokHash ip ua st =
     (case lookupConsumedRefresh tokHash st of
        Some t \<Rightarrow> handleConsumed now ttl minted t st
      | None \<Rightarrow>
          (case lockLiveRefresh now tokHash st of
             Inl e \<Rightarrow> (Some e, emptyRotate, st)
           | Inr (s, u) \<Rightarrow>
               if ttlAbsolute ttl < now - sCreated s
               then (Some ErrSessionInvalid, emptyRotate, revokeFamily now (sFamily s) ''expired'' st)
               else if uStatus u \<noteq> StatusActive
               then (Some ErrUserNotActive, emptyRotate, revokeFamily now (sFamily s) ReasonUserDisabled st)
               else let st1 = st\<lparr>usedTokens := usedTokens st @
                          [\<lparr>utHash = tokHash, utFamily = sFamily s, utSession = sId s, utAt = now\<rparr>]\<rparr>;
                        issue = newSessionIssue now ttl minted
                    in case writeNewTokens now (sId s) issue ip ua st1 of
                         Inl e \<Rightarrow> (Some e, emptyRotate, st)
                       | Inr st2 \<Rightarrow>
                           (None, \<lparr>rrTokens = Some issue, rrUser = uId u, rrSession = sId s,
                                   rrReplayed = False\<rparr>, st2)))"

text \<open>
  \<open>Rotate\<close> retries an attempt that lost a serialization conflict.  \<open>conflict n st\<close> is \<open>Some st'\<close> when
  attempt \<open>n\<close> aborts and the winner leaves the database in \<open>st'\<close>, and \<open>None\<close> when it runs;
  \<open>alive n\<close> is whether the request's context is still alive after attempt \<open>n\<close>.
\<close>

fun rotateAttempts ::
  "(nat \<Rightarrow> identity \<Rightarrow> identity option) \<Rightarrow> (nat \<Rightarrow> bool) \<Rightarrow>
   (identity \<Rightarrow> authErr option \<times> rotateResult \<times> identity) \<Rightarrow> nat list \<Rightarrow> identity \<Rightarrow>
   authErr option \<times> rotateResult \<times> identity" where
  "rotateAttempts conflict alive once [] st = (Some ErrSql, emptyRotate, st)"
| "rotateAttempts conflict alive once (n # ns) st =
     (case conflict n st of
        None \<Rightarrow> once st
      | Some st' \<Rightarrow> if \<not> alive n then (Some ErrSql, emptyRotate, st')
                     else rotateAttempts conflict alive once ns st')"

definition Rotate ::
  "(nat \<Rightarrow> identity \<Rightarrow> identity option) \<Rightarrow> (nat \<Rightarrow> bool) \<Rightarrow> gotime \<Rightarrow> sessionTTL \<Rightarrow>
   string \<times> string \<times> string \<Rightarrow> string \<Rightarrow> string \<Rightarrow> string \<Rightarrow> identity \<Rightarrow> authErr option \<times> rotateResult \<times> identity"
  where
  "Rotate conflict alive now ttl minted tokHash ip ua st =
     rotateAttempts conflict alive (rotateOnce now ttl minted tokHash ip ua) [0..<maxRotateAttempts] st"

section \<open>The invariant of the session tables\<close>

definition famKey :: "session \<Rightarrow> int \<times> int \<times> string \<times> gotime" where
  "famKey s = (sId s, sUser s, sFamily s, sCreated s)"

definition sessInv :: "sessionTTL \<Rightarrow> identity \<Rightarrow> bool" where
  "sessInv ttl st =
     (distinct (map sId (sessions st)) \<and>
      (\<forall>s\<in>set (sessions st). sId s < sessionSeq st) \<and>
      (\<forall>s\<in>set (sessions st). \<forall>s'\<in>set (sessions st). sFamily s = sFamily s' \<longrightarrow>
          sUser s = sUser s' \<and> sCreated s = sCreated s') \<and>
      (\<forall>f. liveInFamily f st \<le> maxLiveSessionsPerFamily) \<and>
      (\<forall>t\<in>set (usedTokens st). \<exists>s\<in>set (sessions st). sId s = utSession t \<and> sFamily s = utFamily t \<and>
          utAt t \<le> sCreated s + ttlAbsolute ttl))"

lemma sessInvI:
  assumes "distinct (map sId (sessions st))" "\<And>s. s \<in> set (sessions st) \<Longrightarrow> sId s < sessionSeq st"
    "\<And>s s'. s \<in> set (sessions st) \<Longrightarrow> s' \<in> set (sessions st) \<Longrightarrow> sFamily s = sFamily s' \<Longrightarrow>
       sUser s = sUser s' \<and> sCreated s = sCreated s'"
    "\<And>f. liveInFamily f st \<le> maxLiveSessionsPerFamily"
    "\<And>t. t \<in> set (usedTokens st) \<Longrightarrow> \<exists>s\<in>set (sessions st). sId s = utSession t \<and>
       sFamily s = utFamily t \<and> utAt t \<le> sCreated s + ttlAbsolute ttl"
  shows "sessInv ttl st"
  unfolding sessInv_def using assms by blast

lemma sessInvD:
  assumes "sessInv ttl st"
  shows "distinct (map sId (sessions st))" "s \<in> set (sessions st) \<Longrightarrow> sId s < sessionSeq st"
    "s \<in> set (sessions st) \<Longrightarrow> s' \<in> set (sessions st) \<Longrightarrow> sFamily s = sFamily s' \<Longrightarrow>
       sUser s = sUser s' \<and> sCreated s = sCreated s'"
    "liveInFamily f st \<le> maxLiveSessionsPerFamily"
    "t \<in> set (usedTokens st) \<Longrightarrow> \<exists>s\<in>set (sessions st). sId s = utSession t \<and>
       sFamily s = utFamily t \<and> utAt t \<le> sCreated s + ttlAbsolute ttl"
  using assms unfolding sessInv_def by blast+

text \<open>An update in place that moves no session to another family and brings none back to life.\<close>

lemma sessInv_map:
  assumes "sessInv ttl st" "sessions st' = map f (sessions st)" "usedTokens st' = usedTokens st"
    "sessionSeq st' = sessionSeq st"
    and f: "\<And>s. s \<in> set (sessions st) \<Longrightarrow> famKey (f s) = famKey s"
      "\<And>s. s \<in> set (sessions st) \<Longrightarrow> sRevoked (f s) = None \<Longrightarrow> sRevoked s = None"
  shows "sessInv ttl st'"
proof -
  have k: "sId (f s) = sId s" "sUser (f s) = sUser s" "sFamily (f s) = sFamily s" "sCreated (f s) = sCreated s"
    if "s \<in> set (sessions st)" for s
    using f(1) [OF that] by (simp_all add: famKey_def)
  have ids: "map sId (sessions st') = map sId (sessions st)" using k(1) assms(2) by simp
  note D = sessInvD [OF assms(1)]
  have live: "liveInFamily g st' \<le> liveInFamily g st" for g
  proof -
    have "length (filter (\<lambda>s. sFamily s = g \<and> sRevoked s = None) (map f ss)) \<le>
      length (filter (\<lambda>s. sFamily s = g \<and> sRevoked s = None) ss)" if "set ss \<subseteq> set (sessions st)" for ss
      using that by (induction ss) (auto simp: k f(2) le_SucI)
    from this [of "sessions st"] show ?thesis by (simp add: liveInFamily_def assms(2))
  qed
  show ?thesis
  proof (rule sessInvI)
    show "distinct (map sId (sessions st'))" using D(1) by (simp only: ids)
    show "sId s < sessionSeq st'" if "s \<in> set (sessions st')" for s
      using that D(2) k(1) assms(2,4) by auto
    show "sUser s = sUser s' \<and> sCreated s = sCreated s'"
      if "s \<in> set (sessions st')" "s' \<in> set (sessions st')" "sFamily s = sFamily s'" for s s'
    proof -
      from that(1,2) assms(2) obtain x y where "x \<in> set (sessions st)" "y \<in> set (sessions st)" "s = f x" "s' = f y"
        by auto
      with that(3) D(3) [of x y] k show ?thesis by simp
    qed
    show "liveInFamily g st' \<le> maxLiveSessionsPerFamily" for g using live D(4) le_trans by blast
    show "\<exists>s\<in>set (sessions st'). sId s = utSession t \<and> sFamily s = utFamily t \<and> utAt t \<le> sCreated s + ttlAbsolute ttl"
      if "t \<in> set (usedTokens st')" for t
    proof -
      from that D(5) assms(3) obtain x where "x \<in> set (sessions st)" "sId x = utSession t" "sFamily x = utFamily t"
        "utAt t \<le> sCreated x + ttlAbsolute ttl" by auto
      with k [of x] assms(2) show ?thesis by (intro bexI [of _ "f x"]) simp_all
    qed
  qed
qed

lemma sessInv_purge:
  assumes "sessInv ttl st" "sessions st' = sessions st" "set (usedTokens st') \<subseteq> set (usedTokens st)"
    "sessionSeq st' = sessionSeq st"
  shows "sessInv ttl st'"
proof (rule sessInvI)
  note D = sessInvD [OF assms(1)]
  show "distinct (map sId (sessions st'))" using D(1) assms(2) by simp
  show "sId s < sessionSeq st'" if "s \<in> set (sessions st')" for s using that D(2) assms(2,4) by simp
  show "sUser s = sUser s' \<and> sCreated s = sCreated s'"
    if "s \<in> set (sessions st')" "s' \<in> set (sessions st')" "sFamily s = sFamily s'" for s s'
    using that D(3) [of s s'] assms(2) by simp
  show "liveInFamily f st' \<le> maxLiveSessionsPerFamily" for f
    using D(4) [of f] assms(2) by (simp add: liveInFamily_def)
  show "\<exists>s\<in>set (sessions st'). sId s = utSession t \<and> sFamily s = utFamily t \<and> utAt t \<le> sCreated s + ttlAbsolute ttl"
    if "t \<in> set (usedTokens st')" for t
    using that D(5) [of t] assms(2,3) by auto
qed

lemma sessInv_cong:
  "sessInv ttl st \<Longrightarrow> sessions st' = sessions st \<Longrightarrow> usedTokens st' = usedTokens st \<Longrightarrow>
   sessionSeq st' = sessionSeq st \<Longrightarrow> sessInv ttl st'"
  by (rule sessInv_purge) simp_all

lemma sessInv_drop:
  assumes "sessInv ttl st" "sessions st' = filter (\<lambda>s. \<not> P s) (sessions st)"
    "set (usedTokens st') \<subseteq> {t \<in> set (usedTokens st). utSession t \<notin> sId ` {s \<in> set (sessions st). P s}}"
    "sessionSeq st' = sessionSeq st"
  shows "sessInv ttl st'"
proof -
  have l: "liveInFamily f st' \<le> liveInFamily f st" for f
    by (simp only: liveInFamily_def assms(2) length_filter_filter_le)
  have u: "\<exists>s\<in>set (sessions st'). sId s = utSession t \<and> sFamily s = utFamily t \<and>
          utAt t \<le> sCreated s + ttlAbsolute ttl" if "t \<in> set (usedTokens st')" for t
  proof -
    from that assms(3) have t: "t \<in> set (usedTokens st)" "utSession t \<notin> sId ` {s \<in> set (sessions st). P s}" by auto
    with sessInvD(5) [OF assms(1)] obtain s where s: "s \<in> set (sessions st)" "sId s = utSession t"
      "sFamily s = utFamily t" "utAt t \<le> sCreated s + ttlAbsolute ttl" by blast
    with t(2) have "\<not> P s" by (metis (mono_tags, lifting) image_eqI mem_Collect_eq)
    with s assms(2) show ?thesis by auto
  qed
  have d: "distinct (map sId (sessions st'))"
    using assms(1,2) by (simp add: sessInv_def distinct_map_filter)
  note D = sessInvD [OF assms(1)]
  show ?thesis
  proof (rule sessInvI)
    show "distinct (map sId (sessions st'))" by (fact d)
    show "sId s < sessionSeq st'" if "s \<in> set (sessions st')" for s using that D(2) assms(2,4) by simp
    show "sUser s = sUser s' \<and> sCreated s = sCreated s'"
      if "s \<in> set (sessions st')" "s' \<in> set (sessions st')" "sFamily s = sFamily s'" for s s'
      using that D(3) [of s s'] assms(2) by simp
    show "liveInFamily f st' \<le> maxLiveSessionsPerFamily" for f using l D(4) le_trans by blast
  qed (fact u)
qed

lemma revokeWhere_frame [simp]:
  "users (revokeWhere P r now st) = users st" "usedTokens (revokeWhere P r now st) = usedTokens st"
  "sessionSeq (revokeWhere P r now st) = sessionSeq st" "invites (revokeWhere P r now st) = invites st"
  "identities (revokeWhere P r now st) = identities st" "userSeq (revokeWhere P r now st) = userSeq st"
  by (simp_all add: revokeWhere_def)

lemma sessInv_revokeWhere: "sessInv ttl st \<Longrightarrow> sessInv ttl (revokeWhere P r now st)"
  by (rule sessInv_map [where f = "\<lambda>s. if P s \<and> sRevoked s = None
      then s\<lparr>sRevoked := Some now, sReason := Some r\<rparr> else s"])
    (auto simp: revokeWhere_def famKey_def split: if_splits)

lemma sessInv_revokeAndPurge: "sessInv ttl st \<Longrightarrow> sessInv ttl (revokeAndPurgeFamily now f st)"
  by (rule sessInv_purge [where st = "revokeFamily now f ReasonReuseDetected st"])
    (auto simp: revokeAndPurgeFamily_def revokeFamily_def sessInv_revokeWhere)

lemma sessInv_insert:
  assumes "sessInv ttl st" "insertSessionTx now uid issue origin st = Inr (i, st')"
    "liveInFamily (soFamily origin) st < maxLiveSessionsPerFamily"
    "\<And>s. s \<in> set (sessions st) \<Longrightarrow> sFamily s = soFamily origin \<Longrightarrow>
        sUser s = uid \<and> Some (sCreated s) = soCreated origin"
  shows "sessInv ttl st'"
proof -
  from assms(2) obtain s where i: "i = sessionSeq st" and st': "st' = st\<lparr>sessions := sessions st @ [s],
      sessionSeq := sessionSeq st + 1\<rparr>"
    and s: "sId s = sessionSeq st" "sUser s = uid" "sFamily s = soFamily origin"
      "sCreated s = (case soCreated origin of Some t \<Rightarrow> t | None \<Rightarrow> now)"
    by (auto simp: insertSessionTx_def split: if_splits)
  note D = sessInvD [OF assms(1)]
  have cap: "liveInFamily f st' \<le> maxLiveSessionsPerFamily" for f
    using D(4) [of f] assms(3) s(3) by (auto simp: liveInFamily_def st')
  have fam: "x \<in> set (sessions st) \<Longrightarrow> sFamily x = sFamily s \<Longrightarrow> sUser x = sUser s \<and> sCreated x = sCreated s" for x
    using assms(4) [of x] s by (auto split: option.splits)
  show ?thesis
  proof (rule sessInvI)
    show "distinct (map sId (sessions st'))" using D(1) D(2) s(1) by (force simp: st')
    show "sId x < sessionSeq st'" if "x \<in> set (sessions st')" for x
      using that D(2) [of x] s(1) by (auto simp: st')
    show "sUser x = sUser y \<and> sCreated x = sCreated y"
      if "x \<in> set (sessions st')" "y \<in> set (sessions st')" "sFamily x = sFamily y" for x y
      using that D(3) [of x y] fam [of x] fam [of y] by (auto simp: st')
    show "liveInFamily f st' \<le> maxLiveSessionsPerFamily" for f by (fact cap)
    show "\<exists>x\<in>set (sessions st'). sId x = utSession t \<and> sFamily x = utFamily t \<and> utAt t \<le> sCreated x + ttlAbsolute ttl"
      if "t \<in> set (usedTokens st')" for t
      using that D(5) [of t] by (auto simp: st')
  qed
qed

subsection \<open>Every operation keeps it\<close>

lemma writeUsers_frame:
  assumes "writeUsers P f st = Inr st'"
  shows "sessions st' = sessions st" "usedTokens st' = usedTokens st" "sessionSeq st' = sessionSeq st"
    "invites st' = invites st" "identities st' = identities st" "userSeq st' = userSeq st"
  using writeUsers_Inr [OF assms] by simp_all

lemma insertUser_frame:
  assumes "insertUser u st = Inr (u', st')"
  shows "sessions st' = sessions st" "usedTokens st' = usedTokens st" "sessionSeq st' = sessionSeq st"
    "invites st' = invites st" "identities st' = identities st"
  using insertUser_Inr(2) [OF assms] by simp_all

lemma commitTx_cases: "snd (commitTx i r st' st) = st' \<or> snd (commitTx i r st' st) = st"
  by (simp add: commitTx_def split: option.splits)

lemma sessInv_commitTx: "sessInv ttl st \<Longrightarrow> sessInv ttl st' \<Longrightarrow> sessInv ttl (snd (commitTx i r st' st))"
  using commitTx_cases [of i r st' st] by auto

lemma sessInv_upd [simp]:
  "sessInv ttl (st\<lparr>users := us\<rparr>) = sessInv ttl st" "sessInv ttl (st\<lparr>invites := vs\<rparr>) = sessInv ttl st"
  "sessInv ttl (st\<lparr>identities := ids\<rparr>) = sessInv ttl st" "sessInv ttl (st\<lparr>userSeq := n\<rparr>) = sessInv ttl st"
  "sessInv ttl (st\<lparr>inviteSeq := n\<rparr>) = sessInv ttl st"
  by (simp_all add: sessInv_def liveInFamily_def)

lemma sessInv_writeUsers: "writeUsers P f st = Inr st' \<Longrightarrow> sessInv ttl st \<Longrightarrow> sessInv ttl st'"
  by (drule writeUsers_Inr) simp

lemma sessInv_insertUser: "insertUser u st = Inr (u', st') \<Longrightarrow> sessInv ttl st \<Longrightarrow> sessInv ttl st'"
  by (drule insertUser_Inr(2)) simp

lemma sessInv_Bootstrap: "sessInv ttl st \<Longrightarrow> sessInv ttl (snd (Bootstrap hashpw now e n p st))"
  by (auto simp: Bootstrap_def Let_def split: option.splits sum.splits
      intro: sessInv_commitTx sessInv_writeUsers sessInv_insertUser)

lemma sessInv_ChangePassword:
  "sessInv ttl st \<Longrightarrow> sessInv ttl (snd (ChangePassword verify hashpw now i k c n st))"
  by (auto simp: ChangePassword_def split: option.splits sum.splits
      intro!: sessInv_commitTx sessInv_revokeWhere intro: sessInv_writeUsers)

lemma sessInv_renameUser: "sessInv ttl st \<Longrightarrow> sessInv ttl (snd (renameUser i n st))"
  by (auto simp: renameUser_def split: option.splits sum.splits intro: sessInv_writeUsers)

lemma sessInv_UpdateUser: "sessInv ttl st \<Longrightarrow> sessInv ttl (snd (UpdateUser now i n r s st))"
  by (auto simp: UpdateUser_def sessInv_renameUser split: option.splits sum.splits
      intro!: sessInv_commitTx sessInv_revokeWhere intro: sessInv_writeUsers)

lemma sessInv_UpdateOwnProfile: "sessInv ttl st \<Longrightarrow> sessInv ttl (snd (UpdateOwnProfile i own l u d st))"
  by (auto simp: UpdateOwnProfile_def split: option.splits sum.splits intro: sessInv_writeUsers)

lemma sessInv_TransferOwnership: "sessInv ttl st \<Longrightarrow> sessInv ttl (snd (TransferOwnership now f t st))"
  by (auto simp: TransferOwnership_def split: option.splits sum.splits
      intro!: sessInv_revokeWhere intro: sessInv_writeUsers)

lemma sessInv_cascadeUser: "sessInv ttl st \<Longrightarrow> sessInv ttl (cascadeUser i st)"
  by (rule sessInv_drop [where P = "\<lambda>s. sUser s = i"]) (auto simp: cascadeUser_def Let_def)

lemma sessInv_DeleteUser: "sessInv ttl st \<Longrightarrow> sessInv ttl (snd (DeleteUser i st))"
  by (auto simp: DeleteUser_def sessInv_cascadeUser split: option.splits)

lemma sessInv_AdminCreateUser: "sessInv ttl st \<Longrightarrow> sessInv ttl (snd (AdminCreateUser hashpw e n p r st))"
  by (auto simp: AdminCreateUser_def split: option.splits sum.splits
      intro: sessInv_commitTx sessInv_insertUser)

lemma sessInv_CreateInvite: "sessInv ttl st \<Longrightarrow> sessInv ttl (snd (CreateInvite now tok m e r b d st))"
  by (simp only: CreateInvite_def Let_def snd_conv sessInv_upd simp_thms split: if_split)

lemma sessInv_RevokeInvite: "sessInv ttl st \<Longrightarrow> sessInv ttl (snd (RevokeInvite now i st))"
  by (simp only: RevokeInvite_def snd_conv sessInv_upd simp_thms split: if_split)

lemma insertAcceptedUser_frame:
  assumes "insertAcceptedUser now e n c r st = Inr (u, st')"
  shows "sessions st' = sessions st" "usedTokens st' = usedTokens st" "sessionSeq st' = sessionSeq st"
    "invites st' = invites st"
  using assms
  by (auto simp: insertAcceptedUser_def linkIdentity_def rbind_Inr_iff insertUser_frame
      split: sum.splits option.splits if_splits)

lemma sessInv_insertAcceptedUser:
  "insertAcceptedUser now e n c r st = Inr (u, st') \<Longrightarrow> sessInv ttl st \<Longrightarrow> sessInv ttl st'"
  by (rule sessInv_cong [of ttl st]) (simp_all add: insertAcceptedUser_frame)

lemma sessInv_acceptInvite: "sessInv ttl st \<Longrightarrow> sessInv ttl (snd (acceptInvite now loc n c st))"
  by (auto simp: acceptInvite_def split: sum.splits option.splits
      intro!: sessInv_commitTx intro: sessInv_insertAcceptedUser)

lemma sessInv_TouchSession: "sessInv ttl st \<Longrightarrow> sessInv ttl (TouchSession now i st)"
  by (rule sessInv_map [where f = "\<lambda>s. if sId s = i then s\<lparr>sLastSeen := now\<rparr> else s"])
    (auto simp: TouchSession_def famKey_def split: if_splits)

lemma sessInv_RevokeSession: "sessInv ttl st \<Longrightarrow> sessInv ttl (snd (RevokeSession now u i r st))"
  by (simp add: RevokeSession_def sessInv_revokeWhere)

lemma sessInv_RevokeFamilyByTokens: "sessInv ttl st \<Longrightarrow> sessInv ttl (RevokeFamilyByTokens now a r x st)"
  by (simp add: RevokeFamilyByTokens_def Let_def sessInv_revokeWhere)

lemma sessInv_RevokeAllForUser: "sessInv ttl st \<Longrightarrow> sessInv ttl (snd (RevokeAllForUser now u r st))"
  by (auto simp: RevokeAllForUser_def split: option.splits sum.splits
      intro!: sessInv_revokeWhere intro: sessInv_writeUsers)

lemma sessInv_SweepIdentity: "sessInv ttl st \<Longrightarrow> sessInv ttl (snd (SweepIdentity now d st))"
  by (rule sessInv_drop [where P = "\<lambda>s. sRefreshExp s < now - d"])
    (auto simp: SweepIdentity_def Let_def)

lemma liveInFamily_fresh: "family \<notin> sFamily ` set (sessions st) \<Longrightarrow> liveInFamily family st = 0"
  by (auto simp: liveInFamily_def filter_empty_conv)

lemma sessInv_IssueSession:
  assumes "sessInv ttl st" "family \<notin> sFamily ` set (sessions st)"
  shows "sessInv ttl (snd (IssueSession now family minted uid tv ttl' ip ua st))"
proof -
  have "sessInv ttl st1"
    if "issueSessionTx now family uid issue ip ua st = Inr (i, st1)" for issue i st1
    using that assms unfolding issueSessionTx_def
    by (intro sessInv_insert [OF assms(1)])
      (auto simp: liveInFamily_fresh maxLiveSessionsPerFamily_def)
  with assms(1) show ?thesis
    by (auto simp: IssueSession_def Let_def split: option.splits sum.splits intro: sessInv_writeUsers)
qed

lemma sessInv_addUsed:
  assumes "sessInv ttl st" "s \<in> set (sessions st)" "sId s = utSession t" "sFamily s = utFamily t"
    "utAt t \<le> sCreated s + ttlAbsolute ttl"
  shows "sessInv ttl (st\<lparr>usedTokens := usedTokens st @ [t]\<rparr>)"
proof -
  note D = sessInvD [OF assms(1)]
  let ?st = "st\<lparr>usedTokens := usedTokens st @ [t]\<rparr>"
  show ?thesis
  proof (rule sessInvI)
    show "distinct (map sId (sessions ?st))" using D(1) by simp
    show "x \<in> set (sessions ?st) \<Longrightarrow> sId x < sessionSeq ?st" for x using D(2) by simp
    show "x \<in> set (sessions ?st) \<Longrightarrow> y \<in> set (sessions ?st) \<Longrightarrow> sFamily x = sFamily y \<Longrightarrow>
      sUser x = sUser y \<and> sCreated x = sCreated y" for x y using D(3) [of x y] by simp
    show "liveInFamily f ?st \<le> maxLiveSessionsPerFamily" for f using D(4) [of f] by (simp add: liveInFamily_def)
    show "\<exists>s\<in>set (sessions ?st). sId s = utSession x \<and> sFamily s = utFamily x \<and> utAt x \<le> sCreated s + ttlAbsolute ttl"
      if "x \<in> set (usedTokens ?st)" for x
      using that D(5) [of x] assms(2-) by auto
  qed
qed

lemma writeNewTokens_Inr:
  "writeNewTokens now i issue ip ua st = Inr st' \<Longrightarrow>
   st' = st\<lparr>sessions := map (\<lambda>s. if sId s = i then renewSession now issue ip ua s else s) (sessions st)\<rparr>"
  by (simp add: writeNewTokens_def split: if_splits)

lemma sessInv_writeNewTokens:
  "writeNewTokens now i issue ip ua st = Inr st' \<Longrightarrow> sessInv ttl st \<Longrightarrow> sessInv ttl st'"
  by (drule writeNewTokens_Inr, rule sessInv_map [of ttl st _ "\<lambda>s. if sId s = i then renewSession now issue ip ua s else s"])
    (simp_all add: famKey_def renewSession_def split: if_splits)

lemma sessInv_rotateOnce:
  assumes "sessInv ttl st" "rotateOnce now ttl minted tok ip ua st = (err, res, st')"
  shows "sessInv ttl st'"
proof (cases "lookupConsumedRefresh tok st")
  case (Some t)
  then have t: "t \<in> set (usedTokens st)" by (auto simp: lookupConsumedRefresh_def find_Some_iff)
  have h: "handleConsumed now ttl minted t st = (err, res, st')" using assms(2) Some by (simp add: rotateOnce_def)
  have "sessInv ttl (snd (snd (graceSibling now ttl minted (utFamily t) (utSession t) st)))"
  proof (cases "find (\<lambda>s. sId s = utSession t) (sessions st)")
    case None
    with assms(1) show ?thesis by (simp add: graceSibling_def)
  next
    case (Some s)
    then have s: "s \<in> set (sessions st)" "sId s = utSession t" by (auto simp: find_Some_iff)
    from sessInvD(5) [OF assms(1) t] obtain s' where "s' \<in> set (sessions st)" "sId s' = utSession t"
      "sFamily s' = utFamily t" by blast
    with s sessInvD(1) [OF assms(1)] have f: "sFamily s = utFamily t"
      by (metis distinct_map inj_onD)
    have "sessInv ttl st1" if "liveInFamily (utFamily t) st < maxLiveSessionsPerFamily"
      "insertSessionTx now (sUser s) issue \<lparr>soFamily = utFamily t, soCreated = Some (sCreated s),
         soIP = sIP s, soUA = sUA s\<rparr> st = Inr (i, st1)" for issue i st1
      using sessInvD(3) [OF assms(1) _ s(1)] f that(1) by (intro sessInv_insert [OF assms(1) that(2)]) auto
    with Some assms(1) show ?thesis
      by (auto simp: graceSibling_def Let_def sessInv_revokeAndPurge not_le split: sum.splits)
  qed
  with h assms(1) show ?thesis
    by (auto simp: handleConsumed_def replayOutsideGrace_def sessInv_revokeAndPurge split: if_splits)
next
  case None
  show ?thesis
  proof (cases "lockLiveRefresh now tok st")
    case (Inl e)
    with None assms show ?thesis by (simp add: rotateOnce_def)
  next
    case (Inr su)
    obtain s u where su: "su = (s, u)" by (cases su)
    with Inr have s: "s \<in> set (sessions st)"
      by (auto simp: lockLiveRefresh_def find_Some_iff split: option.splits)
    let ?t = "\<lparr>utHash = tok, utFamily = sFamily s, utSession = sId s, utAt = now\<rparr>"
    let ?st1 = "st\<lparr>usedTokens := usedTokens st @ [?t]\<rparr>"
    have "sessInv ttl ?st1" if "\<not> ttlAbsolute ttl < now - sCreated s"
      using that s by (intro sessInv_addUsed [OF assms(1) s]) simp_all
    moreover have "sessInv ttl st2" if "sessInv ttl ?st1" "writeNewTokens now i issue ip ua ?st1 = Inr st2"
      for i issue st2 using that by (rule sessInv_writeNewTokens [rotated])
    ultimately show ?thesis
      using None Inr su assms
      by (auto simp: rotateOnce_def Let_def revokeFamily_def sessInv_revokeWhere split: if_splits sum.splits)
  qed
qed

section \<open>Reachable databases\<close>

text \<open>
  One step is one committed method of the repository, by anybody, with any arguments; \<open>scan\<close> says that
  nothing depends on the order in which a table is scanned.  A new login names a fresh family, since
  the family is a new random UUID.
\<close>

inductive idStep :: "sessionTTL \<Rightarrow> identity \<Rightarrow> identity \<Rightarrow> bool" for ttl where
  bootstrap: "Bootstrap hashpw now e n p st = (r, st') \<Longrightarrow> idStep ttl st st'"
| changePassword: "ChangePassword verify hashpw now i k c n st = (r0, st') \<Longrightarrow> idStep ttl st st'"
| ownProfile: "UpdateOwnProfile i n l u d st = (r, st') \<Longrightarrow> idStep ttl st st'"
| updateUser: "UpdateUser now i n ro s st = (r, st') \<Longrightarrow> idStep ttl st st'"
| deleteUser: "DeleteUser i st = (r0, st') \<Longrightarrow> idStep ttl st st'"
| transfer: "TransferOwnership now from to st = (r, st') \<Longrightarrow> idStep ttl st st'"
| createUser: "AdminCreateUser hashpw e n p ro st = (r, st') \<Longrightarrow> idStep ttl st st'"
| createInvite: "CreateInvite now tok mailOk e ro b d st = (ri, st') \<Longrightarrow> idStep ttl st st'"
| revokeInvite: "RevokeInvite now i st = (r0, st') \<Longrightarrow> idStep ttl st st'"
| accept: "acceptInvite now loc n cred st = (r, st') \<Longrightarrow> idStep ttl st st'"
| issue: "family \<notin> sFamily ` set (sessions st) \<Longrightarrow>
    IssueSession now family minted uid tv ttl ip ua st = (rs, st') \<Longrightarrow> idStep ttl st st'"
| touch: "TouchSession now i st = st' \<Longrightarrow> idStep ttl st st'"
| rotate: "rotateOnce now ttl minted tok ip ua st = (err, res, st') \<Longrightarrow> idStep ttl st st'"
| revokeSession: "RevokeSession now uid i reason st = (r0, st') \<Longrightarrow> idStep ttl st st'"
| logout: "RevokeFamilyByTokens now a rt reason st = st' \<Longrightarrow> idStep ttl st st'"
| revokeAll: "RevokeAllForUser now uid reason st = (r0, st') \<Longrightarrow> idStep ttl st st'"
| sweep: "SweepIdentity now retain st = (k, st') \<Longrightarrow> idStep ttl st st'"
| scan: "mset us = mset (users st) \<Longrightarrow> idStep ttl st (st\<lparr>users := us\<rparr>)"

text \<open>A migrated database: accounts with unique ids, addresses and owner, and nobody signed in.\<close>

definition initIdentity :: "identity \<Rightarrow> bool" where
  "initIdentity st =
     (sessions st = [] \<and> usedTokens st = [] \<and> uniqueUsers (users st) \<and> distinct (map uId (users st)) \<and>
      list_all (\<lambda>u. uId u < userSeq st) (users st))"

inductive idReach :: "sessionTTL \<Rightarrow> identity \<Rightarrow> bool" for ttl where
  start: "initIdentity st \<Longrightarrow> idReach ttl st"
| step: "idReach ttl st \<Longrightarrow> idStep ttl st st' \<Longrightarrow> idReach ttl st'"

lemma sessInv_step:
  assumes "idStep ttl st st'" "sessInv ttl st"
  shows "sessInv ttl st'"
  using assms
proof cases
  case (bootstrap hashpw now e n p r)
  with sessInv_Bootstrap [OF assms(2)] show ?thesis by (metis snd_conv)
next
  case (changePassword verify hashpw now i k c n r0)
  with sessInv_ChangePassword [OF assms(2)] show ?thesis by (metis snd_conv)
next
  case (ownProfile i n l u d r)
  with sessInv_UpdateOwnProfile [OF assms(2)] show ?thesis by (metis snd_conv)
next
  case (updateUser now i n ro s r)
  with sessInv_UpdateUser [OF assms(2)] show ?thesis by (metis snd_conv)
next
  case (deleteUser i r0)
  with sessInv_DeleteUser [OF assms(2)] show ?thesis by (metis snd_conv)
next
  case (transfer now a b r)
  with sessInv_TransferOwnership [OF assms(2)] show ?thesis by (metis snd_conv)
next
  case (createUser hashpw e n p ro r)
  with sessInv_AdminCreateUser [OF assms(2)] show ?thesis by (metis snd_conv)
next
  case (createInvite now tok mailOk e ro b d ri)
  with sessInv_CreateInvite [OF assms(2)] show ?thesis by (metis snd_conv)
next
  case (revokeInvite now i r0)
  with sessInv_RevokeInvite [OF assms(2)] show ?thesis by (metis snd_conv)
next
  case (accept now loc n cred r)
  with sessInv_acceptInvite [OF assms(2)] show ?thesis by (metis snd_conv)
next
  case (issue family now minted uid tv ip ua rs)
  with sessInv_IssueSession [OF assms(2) issue(1)] show ?thesis by (metis snd_conv)
next
  case (rotate now minted tok ip ua err res)
  with sessInv_rotateOnce [OF assms(2)] show ?thesis by blast
next
  case (revokeSession now uid i reason r0)
  with sessInv_RevokeSession [OF assms(2)] show ?thesis by (metis snd_conv)
next
  case (revokeAll now uid reason r0)
  with sessInv_RevokeAllForUser [OF assms(2)] show ?thesis by (metis snd_conv)
next
  case (sweep now retain k)
  with sessInv_SweepIdentity [OF assms(2)] show ?thesis by (metis snd_conv)
qed (use assms(2) sessInv_TouchSession sessInv_RevokeFamilyByTokens in \<open>auto\<close>)

lemma idReach_sessInv: "idReach ttl st \<Longrightarrow> sessInv ttl st"
proof (induction rule: idReach.induct)
  case (start st)
  then show ?case by (simp add: initIdentity_def sessInv_def liveInFamily_def maxLiveSessionsPerFamily_def)
next
  case (step st st')
  then show ?case by (blast intro: sessInv_step)
qed

section \<open>Properties\<close>

text \<open>
  C37. A session family is one sign-in on one device, in every reachable database and whatever mix of logins,
  refreshes, replays inside the grace window, revocations, sweeps and account changes led there: its sessions
  belong to one account and carry the time of that one sign-in, at most five of them are not revoked, and
  every refresh token on record as used belongs to a session of its family that is still there, and was used
  before that sign-in's lifetime ended.
\<close>

theorem family_is_one_sign_in:
  assumes "idReach ttl st"
  shows "liveInFamily family st \<le> 5 \<and>
    (\<forall>s\<in>set (sessions st). \<forall>s'\<in>set (sessions st). sFamily s = sFamily s' \<longrightarrow> sUser s = sUser s' \<and> sCreated s = sCreated s') \<and>
    (\<forall>t\<in>set (usedTokens st). \<exists>s\<in>set (sessions st). sId s = utSession t \<and> sFamily s = utFamily t \<and>
       utAt t \<le> sCreated s + ttlAbsolute ttl)"
proof -
  note inv = idReach_sessInv [OF assms]
  have "liveInFamily family st \<le> 5" using sessInvD(4) [OF inv, of family] by (simp add: maxLiveSessionsPerFamily_def)
  then show ?thesis using inv unfolding sessInv_def by blast
qed

definition demoTTL :: sessionTTL where
  "demoTTL = \<lparr>ttlAccess = 15, ttlRefresh = 100, ttlAbsolute = 1000, ttlGrace = 10\<rparr>"

definition demoUser :: user where
  "demoUser = \<lparr>uId = 1, uEmail = ''ana@example.org'', uEmailNorm = ''ana@example.org'', uUsername = None,
     uUsernameNorm = None, uName = ''Ana'', uRole = RoleOwner, uStatus = StatusActive,
     uPwHash = Some ''h'', uVerifiedAt = None, uLastLogin = None, uTokenVersion = 0, uLocale = None\<rparr>"

definition demoDb :: identity where
  "demoDb = \<lparr>users = [demoUser], sessions = [], usedTokens = [], invites = [], identities = [],
     userSeq = 2, sessionSeq = 1, inviteSeq = 1\<rparr>"

text \<open>A login, a refresh, and a racing refresh with the same token inside the grace window.\<close>

definition demoLogin :: identity where
  "demoLogin = snd (IssueSession 100 ''fam'' (''a1'', ''r1'', ''c1'') 1 0 demoTTL ''10.0.0.1'' ''ua'' demoDb)"

definition demoRotated :: identity where
  "demoRotated = snd (snd (rotateOnce 110 demoTTL (''a2'', ''r2'', ''c2'') ''r1'' [] [] demoLogin))"

definition demoSibling :: identity where
  "demoSibling = snd (snd (rotateOnce 115 demoTTL (''a3'', ''r3'', ''c3'') ''r1'' [] [] demoRotated))"

lemma demo_init: "initIdentity demoDb"
  by code_simp

lemma demo_login_reach: "idReach demoTTL demoLogin"
proof (rule idReach.step [OF idReach.start [OF demo_init]])
  have f: "''fam'' \<notin> sFamily ` set (sessions demoDb)" by (simp add: demoDb_def)
  show "idStep demoTTL demoDb demoLogin" unfolding demoLogin_def
    by (rule idStep.issue [OF f prod.collapse [symmetric]])
qed

lemma demo_rotated_reach: "idReach demoTTL demoRotated"
  unfolding demoRotated_def
  by (rule idReach.step [OF demo_login_reach]) (metis idStep.rotate prod.collapse)

lemma demo_sibling_reach: "idReach demoTTL demoSibling"
  unfolding demoSibling_def
  by (rule idReach.step [OF demo_rotated_reach]) (metis idStep.rotate prod.collapse)

lemma family_is_one_sign_in_witness:
  "liveInFamily ''fam'' demoSibling = 2 \<and>
   (\<exists>t. usedTokens demoSibling = [t] \<and> utAt t = 110 \<and>
      (\<exists>s\<in>set (sessions demoSibling). sId s = utSession t \<and> sFamily s = ''fam'' \<and> sCreated s = 100))"
proof -
  obtain t where t: "usedTokens demoSibling = [t]" "utAt t = 110" "utFamily t = ''fam''"
  proof -
    have "map (\<lambda>t. (utAt t, utFamily t)) (usedTokens demoSibling) = [(110, ''fam'')]" by code_simp
    then show thesis using that by auto
  qed
  have c: "list_all (\<lambda>s. sCreated s = 100) (sessions demoSibling)" "liveInFamily ''fam'' demoSibling = 2" by code_simp+
  from family_is_one_sign_in [OF demo_sibling_reach, of "''fam''"]
  obtain s where "s \<in> set (sessions demoSibling)" "sId s = utSession t" "sFamily s = utFamily t"
    by (auto simp: t(1))
  with c t show ?thesis by (auto simp: list_all_iff)
qed

text \<open>
  C33.  No login is immortal: in every reachable database, a refresh attempt that hands out tokens
  does so for a session whose family was born at most the absolute lifetime plus the grace window
  ago, and the session it creates or rotates keeps the birth time of its family.
\<close>

theorem refresh_respects_absolute_ceiling:
  assumes "idReach ttl st" "0 \<le> ttlGrace ttl"
    and "rotateOnce now ttl minted tok ip ua st = (None, res, st')"
  shows "\<exists>s\<in>set (sessions st'). sId s = rrSession res \<and>
    now \<le> sCreated s + ttlAbsolute ttl + ttlGrace ttl \<and>
    (\<forall>s'\<in>set (sessions st'). sFamily s' = sFamily s \<longrightarrow> sCreated s' = sCreated s)"
proof -
  note inv = idReach_sessInv [OF assms(1)]
  have "\<exists>s\<in>set (sessions st'). sId s = rrSession res \<and> now \<le> sCreated s + ttlAbsolute ttl + ttlGrace ttl"
  proof (cases "lookupConsumedRefresh tok st")
    case (Some t)
    then have t: "t \<in> set (usedTokens st)" by (auto simp: lookupConsumedRefresh_def find_Some_iff)
    from assms(3) Some have g: "now - utAt t \<le> ttlGrace ttl"
      "graceSibling now ttl minted (utFamily t) (utSession t) st = (None, res, st')"
      by (auto simp: rotateOnce_def handleConsumed_def replayOutsideGrace_def split: if_splits)
    then obtain s where s: "find (\<lambda>s. sId s = utSession t) (sessions st) = Some s"
      by (auto simp: graceSibling_def split: option.splits)
    from sessInvD(5) [OF inv t] obtain x where x: "x \<in> set (sessions st)" "sId x = utSession t"
      "utAt t \<le> sCreated x + ttlAbsolute ttl" by blast
    from s have "s \<in> set (sessions st)" "sId s = sId x" using x(2) by (auto simp: find_Some_iff)
    with x(1) sessInvD(1) [OF inv] have "s = x" by (metis distinct_map inj_onD)
    with g s x(3) show ?thesis
      by (auto simp: graceSibling_def Let_def insertSessionTx_def split: if_splits sum.splits)
  next
    case None
    from assms(3) None obtain s u where l: "lockLiveRefresh now tok st = Inr (s, u)"
      and ok: "now - sCreated s \<le> ttlAbsolute ttl" and w: "writeNewTokens now (sId s) (newSessionIssue now ttl minted) ip ua
        (st\<lparr>usedTokens := usedTokens st @ [\<lparr>utHash = tok, utFamily = sFamily s, utSession = sId s, utAt = now\<rparr>]\<rparr>)
        = Inr st'" and r: "rrSession res = sId s"
      by (auto simp: rotateOnce_def Let_def split: sum.splits if_splits)
    from l have "s \<in> set (sessions st)" by (auto simp: lockLiveRefresh_def find_Some_iff split: option.splits)
    with ok assms(2) r writeNewTokens_Inr [OF w] show ?thesis
      by (intro bexI [of _ "renewSession now (newSessionIssue now ttl minted) ip ua s"])
        (auto simp: renewSession_def)
  qed
  moreover have "sessInv ttl st'" by (rule sessInv_rotateOnce [OF inv assms(3)])
  ultimately show ?thesis using sessInvD(3) by blast
qed

lemma refresh_respects_absolute_ceiling_witness:
  "\<exists>s\<in>set (sessions demoSibling). sId s = 2 \<and> 115 \<le> sCreated s + 1000 + 10"
proof -
  obtain res where r: "rotateOnce 115 demoTTL (''a3'', ''r3'', ''c3'') ''r1'' [] [] demoRotated = (None, res, demoSibling)"
    "rrSession res = 2"
  proof -
    have "fst (rotateOnce 115 demoTTL (''a3'', ''r3'', ''c3'') ''r1'' [] [] demoRotated) = None"
      "rrSession (fst (snd (rotateOnce 115 demoTTL (''a3'', ''r3'', ''c3'') ''r1'' [] [] demoRotated))) = 2"
      by code_simp+
    then show thesis using that demoSibling_def by (metis prod.collapse)
  qed
  have "0 \<le> ttlGrace demoTTL" by (simp add: demoTTL_def)
  from refresh_respects_absolute_ceiling [OF demo_rotated_reach this r(1)] r(2)
  show ?thesis by (auto simp: demoTTL_def)
qed

lemma find_same_id:
  assumes "distinct (map sId ss)" "s \<in> set ss" "sId s = i"
  shows "find (\<lambda>s. sId s = i) ss = Some s"
  using assms by (induction ss) (auto simp: image_iff)

lemma liveInFamily_revoked: "liveInFamily f (revokeAndPurgeFamily now f st) = 0"
  by (auto simp: liveInFamily_def revokeAndPurgeFamily_def revokeFamily_def revokeWhere_def filter_empty_conv)

lemma userById_id: "userById i st = Some u \<Longrightarrow> uId u = i \<and> u \<in> set (users st)"
  by (auto simp: userById_def find_Some_iff)

lemma rotateOnce_live:
  assumes "rotateOnce now ttl minted tok ip ua st = (None, res, st')" "lookupConsumedRefresh tok st = None"
  obtains s u where "s \<in> set (sessions st)" "rrSession res = sId s" "rrUser res = sUser s"
    "rrTokens res = Some (newSessionIssue now ttl minted)"
    "sessions st' = map (\<lambda>x. if sId x = sId s then renewSession now (newSessionIssue now ttl minted) ip ua x else x)
                      (sessions st)"
    "usedTokens st' = usedTokens st @ [\<lparr>utHash = tok, utFamily = sFamily s, utSession = sId s, utAt = now\<rparr>]"
proof -
  from assms obtain s u where l: "lockLiveRefresh now tok st = Inr (s, u)"
    and w: "writeNewTokens now (sId s) (newSessionIssue now ttl minted) ip ua
        (st\<lparr>usedTokens := usedTokens st @ [\<lparr>utHash = tok, utFamily = sFamily s, utSession = sId s, utAt = now\<rparr>]\<rparr>)
        = Inr st'" and r: "rrSession res = sId s" "rrUser res = uId u"
        "rrTokens res = Some (newSessionIssue now ttl minted)"
    by (auto simp: rotateOnce_def Let_def split: sum.splits if_splits)
  from l have "s \<in> set (sessions st)" "userById (sUser s) st = Some u"
    by (auto simp: lockLiveRefresh_def find_Some_iff split: option.splits)
  with that r writeNewTokens_Inr [OF w] userById_id show thesis by simp
qed

section \<open>The memory of the reuse detector\<close>

text \<open>
  A database that still holds every consumed token and every session of another, in order, with their
  owners and families.
\<close>

definition remembers :: "identity \<Rightarrow> identity \<Rightarrow> bool" where
  "remembers st st' = ((\<exists>ts. usedTokens st' = usedTokens st @ ts) \<and> (\<exists>ks. map famKey (sessions st') = map famKey (sessions st) @ ks))"

lemma remembers_refl [simp, intro]: "remembers st st"
  by (simp add: remembers_def)

lemma remembers_trans: "remembers a b \<Longrightarrow> remembers b c \<Longrightarrow> remembers a c"
  unfolding remembers_def by (metis append.assoc)

lemma remembers_same: "sessions st' = sessions st \<Longrightarrow> usedTokens st' = usedTokens st \<Longrightarrow> remembers st st'"
  by (simp add: remembers_def)

lemma remembers_map:
  "sessions st' = map f (sessions st) \<Longrightarrow> usedTokens st' = usedTokens st \<Longrightarrow> (\<And>s. famKey (f s) = famKey s) \<Longrightarrow> remembers st st'"
  by (simp add: remembers_def comp_def)

lemma remembers_revoke: "remembers st (revokeWhere P r now st)"
  by (rule remembers_map [where f = "\<lambda>s. if P s \<and> sRevoked s = None then s\<lparr>sRevoked := Some now, sReason := Some r\<rparr> else s"])
    (simp_all add: revokeWhere_def famKey_def)

lemma remembers_write: "writeUsers P f st = Inr st' \<Longrightarrow> remembers st st'"
  by (rule remembers_same) (simp_all add: writeUsers_frame)

lemma remembers_insert: "insertUser u st = Inr (u', st') \<Longrightarrow> remembers st st'"
  by (rule remembers_same) (simp_all add: insertUser_frame)

lemma remembers_commit: "remembers st st' \<Longrightarrow> remembers st (snd (commitTx i r st' st))"
  using commitTx_cases [of i r st' st] by auto

lemma remembers_writeRevoke: "writeUsers P f st = Inr st' \<Longrightarrow> remembers st (revokeWhere Q r now st')"
  by (rule remembers_trans [OF remembers_write remembers_revoke])

lemma remembers_session: "insertSessionTx now uid issue origin st = Inr (i, st') \<Longrightarrow> remembers st st'"
  by (auto simp: insertSessionTx_def remembers_def split: if_splits)

lemmas remembers_rules = remembers_commit remembers_revoke remembers_write remembers_insert remembers_writeRevoke

lemma remembers_accounts:
  "remembers st (snd (Bootstrap hashpw now e n p st))"
  "remembers st (snd (ChangePassword verify hashpw now i k c n st))"
  "remembers st (snd (UpdateOwnProfile i own lng uname pic st))"
  "remembers st (snd (UpdateUser now i rename newRole s st))"
  "remembers st (snd (TransferOwnership now from to st))"
  "remembers st (snd (AdminCreateUser hashpw e n p ro st))"
  "remembers st (snd (CreateInvite now tok mailOk e r b ttl2 st))"
  "remembers st (snd (RevokeInvite now i st))"
  "remembers st (snd (acceptInvite now loc n cred st))"
proof -
  show "remembers st (snd (Bootstrap hashpw now e n p st))"
    by (auto simp: Bootstrap_def Let_def intro!: remembers_commit intro: remembers_rules split: option.split sum.split)
  show "remembers st (snd (ChangePassword verify hashpw now i k c n st))"
    by (auto simp: ChangePassword_def intro!: remembers_commit intro: remembers_rules split: option.split sum.split)
  show "remembers st (snd (UpdateOwnProfile i own lng uname pic st))"
    by (auto simp: UpdateOwnProfile_def intro: remembers_rules split: option.split sum.split)
  have "remembers st (snd (renameUser i rename st))"
    by (auto simp: renameUser_def intro: remembers_rules split: option.split sum.split)
  then show "remembers st (snd (UpdateUser now i rename newRole s st))"
    by (auto simp: UpdateUser_def intro!: remembers_commit intro: remembers_rules split: option.split sum.split)
  show "remembers st (snd (TransferOwnership now from to st))"
    by (auto simp: TransferOwnership_def intro: remembers_rules remembers_trans [OF remembers_write remembers_writeRevoke]
        split: option.split sum.split)
  show "remembers st (snd (AdminCreateUser hashpw e n p ro st))"
    by (auto simp: AdminCreateUser_def intro!: remembers_commit intro: remembers_rules split: option.split sum.split)
  show "remembers st (snd (CreateInvite now tok mailOk e r b ttl2 st))" "remembers st (snd (RevokeInvite now i st))"
    by (auto simp: CreateInvite_def RevokeInvite_def Let_def intro!: remembers_same split: if_splits)
  show "remembers st (snd (acceptInvite now loc n cred st))"
    by (auto simp: acceptInvite_def intro!: remembers_commit remembers_same split: option.split sum.split
        dest: insertAcceptedUser_frame)
qed

lemma remembers_rotate:
  assumes "rotateOnce now ttl minted tok ip ua st = (err, res, st')" "err \<noteq> Some ErrSessionReuse"
  shows "remembers st st'"
proof (cases "lookupConsumedRefresh tok st")
  case (Some t)
  then have "graceSibling now ttl minted (utFamily t) (utSession t) st = (err, res, st')"
    using assms by (auto simp: rotateOnce_def handleConsumed_def replayOutsideGrace_def Let_def split: if_splits)
  then show ?thesis using assms(2)
    by (auto simp: graceSibling_def Let_def split: option.splits if_splits sum.splits intro: remembers_session)
next
  case None
  have w: "remembers st st2" if "writeNewTokens now i issue ip ua (st\<lparr>usedTokens := usedTokens st @ [t]\<rparr>) = Inr st2" for i issue t st2
  proof -
    have k: "famKey (if sId s = i then renewSession now issue ip ua s else s) = famKey s" for s
      by (simp add: famKey_def renewSession_def)
    show ?thesis by (simp add: remembers_def writeNewTokens_Inr [OF that] comp_def k)
  qed
  show ?thesis
    using assms None w
    by (auto simp: rotateOnce_def Let_def revokeFamily_def split: sum.splits if_splits prod.splits intro: remembers_revoke)
qed

text \<open>What may drop a consumed token: the sweeper, the deletion of an account, and a report of reuse.\<close>

definition forgets :: "sessionTTL \<Rightarrow> identity \<Rightarrow> identity \<Rightarrow> bool" where
  "forgets ttl st st' =
     ((\<exists>now retain k. SweepIdentity now retain st = (k, st')) \<or> (\<exists>i. DeleteUser i st = (Inr (), st')) \<or>
      (\<exists>now minted tok ip ua res. rotateOnce now ttl minted tok ip ua st = (Some ErrSessionReuse, res, st')))"

lemma forgets_shrinks:
  assumes "forgets ttl st st'"
  shows "length (usedTokens st') \<le> length (usedTokens st)"
proof -
  have "length (usedTokens st') \<le> length (usedTokens st)"
    if "rotateOnce now ttl minted tok ip ua st = (Some ErrSessionReuse, res, st')" for now minted tok ip ua res
    using that
    by (auto simp: rotateOnce_def handleConsumed_def replayOutsideGrace_def graceSibling_def revokeAndPurgeFamily_def
        lockLiveRefresh_def Let_def writeNewTokens_def insertSessionTx_def split: option.splits if_splits sum.splits)
  then show ?thesis using assms
    by (auto simp: forgets_def SweepIdentity_def DeleteUser_def cascadeUser_def Let_def split: option.splits if_splits
        intro: le_trans [OF length_filter_le])
qed

lemma step_remembers:
  assumes "idStep ttl st st'" "\<not> forgets ttl st st'"
  shows "remembers st st'"
  using assms(1)
proof cases
  case (deleteUser i r0)
  then show ?thesis using assms(2) by (cases r0) (auto simp: forgets_def DeleteUser_def split: option.splits if_splits)
next
  case (issue family now minted uid tv ip ua rs)
  have "remembers st st1" if "issueSessionTx now family uid is ip ua st = Inr (i, st1)" for "is" i st1
    using that unfolding issueSessionTx_def by (rule remembers_session)
  then have "remembers st (snd (IssueSession now family minted uid tv ttl ip ua st))"
    by (auto simp: IssueSession_def Let_def split: option.split sum.split intro: remembers_trans [OF _ remembers_write])
  then show ?thesis using issue(2) by simp
next
  case (touch now i)
  have "famKey (if sId s = i then s\<lparr>sLastSeen := now\<rparr> else s) = famKey s" for s by (simp add: famKey_def)
  then show ?thesis unfolding touch [symmetric]
    by (intro remembers_map [where f = "\<lambda>s. if sId s = i then s\<lparr>sLastSeen := now\<rparr> else s"]) (simp_all add: TouchSession_def)
next
  case (rotate now minted tok ip ua err res)
  then have "err \<noteq> Some ErrSessionReuse" using assms(2) unfolding forgets_def by blast
  then show ?thesis using remembers_rotate [OF rotate] by simp
next
  case (logout now a rt reason)
  then show ?thesis using remembers_revoke by (auto simp: RevokeFamilyByTokens_def Let_def)
next
  case (sweep now retain k)
  then show ?thesis using assms(2) by (auto simp: forgets_def)
next
  case (revokeSession now uid i reason r0)
  then show ?thesis using remembers_revoke by (auto simp: RevokeSession_def split: if_splits)
next
  case (revokeAll now uid reason r0)
  have "remembers st (snd (RevokeAllForUser now uid reason st))"
    by (auto simp: RevokeAllForUser_def split: option.split sum.split intro: remembers_rules)
  then show ?thesis using revokeAll by simp
qed (use remembers_accounts in \<open>(metis snd_conv | simp add: remembers_def)+\<close>)

abbreviation idRun :: "sessionTTL \<Rightarrow> identity \<Rightarrow> identity \<Rightarrow> bool" where
  "idRun ttl \<equiv> (\<lambda>a b. idStep ttl a b \<and> \<not> forgets ttl a b)\<^sup>*\<^sup>*"

lemma run_remembers: "idRun ttl st st' \<Longrightarrow> remembers st st'"
  by (induction rule: rtranclp_induct) (auto intro: remembers_trans step_remembers)

lemma run_sessInv: "idRun ttl st st' \<Longrightarrow> sessInv ttl st \<Longrightarrow> sessInv ttl st'"
  by (induction rule: rtranclp_induct) (auto intro: sessInv_step)

lemma find_append_Some: "find P xs = Some x \<Longrightarrow> find P (xs @ ys) = Some x"
  by (induction xs) auto

lemma remembers_session_row:
  assumes "remembers st st'" "s \<in> set (sessions st)"
  obtains s' where "s' \<in> set (sessions st')" "famKey s' = famKey s"
proof -
  have "famKey s \<in> famKey ` set (sessions st')"
    using assms unfolding remembers_def by (metis Un_iff image_eqI set_append set_map)
  then show ?thesis using that by auto
qed

text \<open>
  C3.  Replay of a rotated refresh token.  After a refresh has consumed a token, let any other operations on
  accounts and sessions follow: more refreshes, logins, replays inside the grace window, revocations, account changes.
  As long as none of them is a sweep, the deletion of an account, or itself a report of reuse, presenting the token
  again once the grace window is over is reported as reuse, for the right account; no session of that
  login survives it, not even the ones the thief rotated to, and its trail of consumed tokens is gone; sessions of
  every other family are untouched.
\<close>

theorem replay_after_rotation_kills_family:
  assumes "idReach ttl st" "lookupConsumedRefresh tok st = None"
    and "rotateOnce now ttl minted tok ip ua st = (None, res, st1)" "idRun ttl st1 st2"
    and "rotateOnce now' ttl minted' tok ip' ua' st2 = (err, res', st3)" "ttlGrace ttl < now' - now"
  shows "err = Some ErrSessionReuse \<and> rrTokens res' = None \<and> rrUser res' = rrUser res \<and>
    (\<exists>s\<in>set (sessions st2). sId s = rrSession res \<and> sUser s = rrUser res \<and> liveInFamily (sFamily s) st3 = 0 \<and>
       list_all (\<lambda>t. utFamily t \<noteq> sFamily s) (usedTokens st3) \<and>
       filter (\<lambda>x. sFamily x \<noteq> sFamily s) (sessions st3) = filter (\<lambda>x. sFamily x \<noteq> sFamily s) (sessions st2))"
proof -
  from rotateOnce_live [OF assms(3,2)] obtain s where s: "s \<in> set (sessions st)" "rrSession res = sId s"
    "rrUser res = sUser s"
    "sessions st1 = map (\<lambda>x. if sId x = sId s then renewSession now (newSessionIssue now ttl minted) ip ua x else x)
                      (sessions st)"
    "usedTokens st1 = usedTokens st @ [\<lparr>utHash = tok, utFamily = sFamily s, utSession = sId s, utAt = now\<rparr>]"
    by blast
  let ?s = "renewSession now (newSessionIssue now ttl minted) ip ua s"
  note inv1 = sessInv_rotateOnce [OF idReach_sessInv [OF assms(1)] assms(3)]
  note rem = run_remembers [OF assms(4)]
  have "?s \<in> set (sessions st1)" using s(1,4) by auto
  then obtain x where x: "x \<in> set (sessions st2)" "famKey x = famKey ?s" by (rule remembers_session_row [OF rem])
  have k: "sId x = sId s" "sFamily x = sFamily s" "sUser x = sUser s"
    using x(2) by (simp_all add: famKey_def renewSession_def)
  have d: "distinct (map sId (sessions st2))" using run_sessInv [OF assms(4) inv1] by (rule sessInvD)
  have "lookupConsumedRefresh tok st1 = Some \<lparr>utHash = tok, utFamily = sFamily s, utSession = sId s, utAt = now\<rparr>"
    using assms(2) s(5) by (simp add: lookupConsumedRefresh_def find_append_None)
  then have "lookupConsumedRefresh tok st2 = Some \<lparr>utHash = tok, utFamily = sFamily s, utSession = sId s, utAt = now\<rparr>"
    using rem by (auto simp: remembers_def lookupConsumedRefresh_def find_append_Some)
  then have e: "(err, res', st3) = replayOutsideGrace now' (sFamily s) (sId s) st2"
    using assms(5,6) by (simp add: rotateOnce_def handleConsumed_def)
  have "find (\<lambda>x. sId x = sId s) (sessions st2) = Some x" using find_same_id [OF d x(1) k(1)] .
  with e have r: "err = Some ErrSessionReuse" "rrTokens res' = None" "rrUser res' = rrUser res"
    "st3 = revokeAndPurgeFamily now' (sFamily s) st2"
    using k s(3) by (simp_all add: replayOutsideGrace_def Let_def emptyRotate_def)
  have "filter (\<lambda>x. sFamily x \<noteq> f) (map (\<lambda>x. if sFamily x = f \<and> sRevoked x = None then g x else x) xs) =
      filter (\<lambda>x. sFamily x \<noteq> f) xs" if "\<And>x. sFamily (g x) = sFamily x" for f g and xs :: "session list"
    using that by (induction xs) auto
  then have "filter (\<lambda>x. sFamily x \<noteq> sFamily s) (sessions st3) = filter (\<lambda>x. sFamily x \<noteq> sFamily s) (sessions st2)"
    by (simp add: r(4) revokeAndPurgeFamily_def revokeFamily_def revokeWhere_def)
  moreover have "list_all (\<lambda>t. utFamily t \<noteq> sFamily s) (usedTokens st3)"
    by (simp add: r(4) revokeAndPurgeFamily_def list_all_iff)
  ultimately show ?thesis
    using r x(1) k s(2,3) liveInFamily_revoked [of "sFamily s" now' st2] by metis
qed

text \<open>The thief rotates once more before the owner presents the token again.\<close>

definition demoThief :: identity where
  "demoThief = snd (snd (rotateOnce 118 demoTTL (''a4'', ''r4'', ''c4'') ''r2'' [] [] demoRotated))"

lemma replay_after_rotation_kills_family_witness:
  "fst (rotateOnce 130 demoTTL (''a3'', ''r3'', ''c3'') ''r1'' [] [] demoThief) = Some ErrSessionReuse"
proof -
  have a: "lookupConsumedRefresh ''r1'' demoLogin = None"
    "fst (rotateOnce 110 demoTTL (''a2'', ''r2'', ''c2'') ''r1'' [] [] demoLogin) = None"
    "ttlGrace demoTTL < 130 - 110"
    "fst (rotateOnce 118 demoTTL (''a4'', ''r4'', ''c4'') ''r2'' [] [] demoRotated) = None" by code_simp+
  obtain res where r: "rotateOnce 110 demoTTL (''a2'', ''r2'', ''c2'') ''r1'' [] [] demoLogin = (None, res, demoRotated)"
    using a(2) demoRotated_def by (metis prod.collapse)
  obtain res2 where r2: "rotateOnce 118 demoTTL (''a4'', ''r4'', ''c4'') ''r2'' [] [] demoRotated = (None, res2, demoThief)"
    using a(4) demoThief_def by (metis prod.collapse)
  have n: "length (usedTokens demoThief) = 2" "length (usedTokens demoRotated) = 1" by code_simp+
  have "\<not> forgets demoTTL demoRotated demoThief"
    using forgets_shrinks [of demoTTL demoRotated demoThief] n by auto
  then have run: "idRun demoTTL demoRotated demoThief" using idStep.rotate [OF r2] by (intro r_into_rtranclp) simp
  show ?thesis
    using replay_after_rotation_kills_family [OF demo_login_reach a(1) r run _ a(3), of "(''a3'', ''r3'', ''c3'')" "[]" "[]"]
    by (metis prod.collapse)
qed

end
