(* ===== verification/Accounts.thy ===== *)
theory Accounts
  imports Sessions
begin

text \<open>
  What holds of the accounts in every reachable database: unique ids, addresses and owner, the owner's
  seat, and what the administrative operations and invitations do.
\<close>

section \<open>Unique accounts\<close>

definition accInv :: "identity \<Rightarrow> bool" where
  "accInv st = (uniqueUsers (users st) \<and> distinct (map uId (users st)) \<and>
                list_all (\<lambda>u. uId u < userSeq st) (users st))"

lemma accInv_frame: "users st' = users st \<Longrightarrow> userSeq st' = userSeq st \<Longrightarrow> accInv st \<Longrightarrow> accInv st'"
  by (simp add: accInv_def)

lemma accInv_revokeWhere [simp]: "accInv (revokeWhere P r now st) = accInv st"
  by (simp add: accInv_def)

lemma userSeq_writeUsers: "writeUsers P f st = Inr st' \<Longrightarrow> userSeq st' = userSeq st"
  by (drule writeUsers_Inr) simp

lemma accInv_writeUsers:
  assumes "writeUsers P f st = Inr st'" "accInv st" "\<And>u. uId (f u) = uId u"
  shows "accInv st'"
proof -
  note w = writeUsers_Inr [OF assms(1)]
  have "map uId (users st') = map uId (users st)" using w assms(3) by simp
  then have "distinct (map uId (users st'))" using assms(2) by (simp only: accInv_def)
  moreover have "list_all (\<lambda>u. uId u < userSeq st') (users st')"
    using assms(2,3) w by (auto simp: accInv_def list_all_iff)
  ultimately show ?thesis
    using writeUsers_unique [OF assms(1)] assms(2) by (simp add: accInv_def)
qed

lemma accInv_insertUser:
  assumes "insertUser u st = Inr (u', st')" "accInv st"
  shows "accInv st'"
proof -
  note w = insertUser_Inr [OF assms(1)]
  have "uId x < userSeq st" if "x \<in> set (users st)" for x
    using assms(2) that by (simp add: accInv_def list_all_iff)
  then have "userSeq st \<notin> uId ` set (users st)" by force
  moreover have "list_all (\<lambda>u. uId u < userSeq st') (users st')"
    using assms(2) w(1) by (auto simp: w(2) accInv_def list_all_iff)
  moreover have "users st' = users st @ [u']" "uId u' = userSeq st" using w(1,2) by simp_all
  ultimately show ?thesis
    using assms(2) w(3) by (simp add: accInv_def)
qed

text \<open>Where the seat is: the owner row, and it is active.\<close>

definition seatHeld :: "identity \<Rightarrow> bool" where
  "seatHeld st = (\<exists>u\<in>set (users st). uRole u = RoleOwner \<and> uStatus u = StatusActive)"

lemma seatHeld_revokeWhere [simp]: "seatHeld (revokeWhere P r now st) = seatHeld st"
  by (simp add: seatHeld_def)

lemma seatHeld_writeUsers:
  assumes "writeUsers P f st = Inr st'" "seatHeld st"
    "\<And>u. u \<in> set (users st) \<Longrightarrow> P u \<Longrightarrow> uRole u = RoleOwner \<Longrightarrow> uStatus u = StatusActive \<Longrightarrow>
       uRole (f u) = RoleOwner \<and> uStatus (f u) = StatusActive"
  shows "seatHeld st'"
proof -
  from assms(2) obtain u where u: "u \<in> set (users st)" "uRole u = RoleOwner" "uStatus u = StatusActive"
    by (auto simp: seatHeld_def)
  let ?v = "if P u then f u else u"
  have "?v \<in> set (users st')" using u(1) writeUsers_Inr [OF assms(1)] by auto
  moreover have "uRole ?v = RoleOwner \<and> uStatus ?v = StatusActive" using u assms(3) by auto
  ultimately show ?thesis unfolding seatHeld_def by blast
qed

lemma seatHeld_insertUser: "insertUser u st = Inr (u', st') \<Longrightarrow> seatHeld st \<Longrightarrow> seatHeld st'"
  by (drule insertUser_Inr(2)) (auto simp: seatHeld_def)

lemma seatHeld_users: "users st' = users st \<Longrightarrow> seatHeld st \<Longrightarrow> seatHeld st'"
  by (simp add: seatHeld_def)

text \<open>The two invariants together, in the form the operations keep them.\<close>

definition goodStep :: "identity \<Rightarrow> identity \<Rightarrow> bool" where
  "goodStep st st' = ((accInv st \<longrightarrow> accInv st') \<and> (accInv st \<longrightarrow> seatHeld st \<longrightarrow> seatHeld st'))"

lemma goodStep_refl [simp]: "goodStep st st"
  by (simp add: goodStep_def)

lemma goodStep_same: "users st' = users st \<Longrightarrow> userSeq st' = userSeq st \<Longrightarrow> goodStep st st'"
  by (simp add: goodStep_def accInv_def seatHeld_def)

lemma goodStep_revokeWhere [simp]: "goodStep st (revokeWhere P r now st') = goodStep st st'"
  by (simp add: goodStep_def)

lemma goodStep_trans: "goodStep a b \<Longrightarrow> goodStep b c \<Longrightarrow> goodStep a c"
  by (simp add: goodStep_def)

lemma goodStep_commitTx: "goodStep st st' \<Longrightarrow> goodStep st (snd (commitTx i r st' st))"
  using commitTx_cases [of i r st' st] by auto

lemma goodStep_writeUsers:
  assumes "writeUsers P f st = Inr st'" "\<And>u. uId (f u) = uId u"
    "\<And>u. u \<in> set (users st) \<Longrightarrow> P u \<Longrightarrow> uRole u = RoleOwner \<Longrightarrow> uStatus u = StatusActive \<Longrightarrow>
       uRole (f u) = RoleOwner \<and> uStatus (f u) = StatusActive"
  shows "goodStep st st'"
  unfolding goodStep_def
proof (intro conjI impI)
  show "accInv st'" if "accInv st" using assms(1) that assms(2) by (rule accInv_writeUsers)
  show "seatHeld st'" if "seatHeld st" using assms(1) that assms(3) by (rule seatHeld_writeUsers)
qed

lemma goodStep_insertUser: "insertUser u st = Inr (u', st') \<Longrightarrow> goodStep st st'"
  by (simp add: goodStep_def accInv_insertUser seatHeld_insertUser)

lemma good_Bootstrap: "goodStep st (snd (Bootstrap hashpw now e n p st))"
proof (cases "seatHeld st")
  case True
  then have "\<not> NeedsBootstrap st" by (auto simp: seatHeld_def NeedsBootstrap_def)
  then show ?thesis by (simp add: Bootstrap_def split: option.split)
next
  case False
  have "accInv st' " if "accInv st" "writeUsers P f st = Inr st'" "\<And>u. uId (f u) = uId u" for P f st'
    using that(2,1,3) by (rule accInv_writeUsers)
  with False show ?thesis
    by (auto simp: Bootstrap_def Let_def goodStep_def commitTx_def split: option.splits sum.splits
        intro: accInv_insertUser)
qed

lemma good_ChangePassword: "goodStep st (snd (ChangePassword verify hashpw now i k c n st))"
  by (auto simp: ChangePassword_def split: option.splits sum.splits intro!: goodStep_commitTx)
    (erule goodStep_writeUsers; simp)+

lemma good_renameUser: "goodStep st (snd (renameUser i n st))"
  by (auto simp: renameUser_def split: option.splits sum.splits) (erule goodStep_writeUsers; simp)+

lemma good_UpdateOwnProfile: "goodStep st (snd (UpdateOwnProfile i n l u d st))"
  by (auto simp: UpdateOwnProfile_def split: option.splits sum.splits)
    (erule goodStep_writeUsers; simp add: profileUpdate_def)+

lemma userById_distinct:
  assumes "distinct (map uId (users st))" "userById i st = Some u" "v \<in> set (users st)" "uId v = i"
  shows "v = u"
  using assms userById_id by (metis distinct_map inj_onD)

lemma good_UpdateUser:
  "goodStep st (snd (UpdateUser now i n r s st))"
proof (cases "accInv st \<and> (r \<noteq> None \<or> s \<noteq> None)")
  case False
  then show ?thesis by (auto simp: goodStep_def UpdateUser_def good_renameUser [unfolded goodStep_def])
next
  case True
  show ?thesis
  proof (cases "userById i st")
    case None
    then show ?thesis by (simp add: UpdateUser_def good_renameUser)
  next
    case (Some u)
    have w: "goodStep st st1"
      if "writeUsers (\<lambda>v. uId v = i) (applyUserUpdate n r s) st = Inr st1" "uRole u \<noteq> RoleOwner" for st1
    proof (rule goodStep_writeUsers [OF that(1)])
      show "uId (applyUserUpdate n r s v) = uId v" for v by (simp add: applyUserUpdate_def)
      show "uRole (applyUserUpdate n r s v) = RoleOwner \<and> uStatus (applyUserUpdate n r s v) = StatusActive"
        if "v \<in> set (users st)" "uId v = i" "uRole v = RoleOwner" for v
        using userById_distinct [OF _ Some that(1,2)] True \<open>uRole u \<noteq> RoleOwner\<close> that(3)
        by (simp add: accInv_def)
    qed
    have n: "(r = None \<and> s = None) = False" using True by auto
    show ?thesis
      unfolding UpdateUser_def n if_False Some option.case
      using True w by (auto simp: ownerIsImmutable_def split: option.splits sum.splits intro!: goodStep_commitTx)
  qed
qed

text \<open>The transfer: the two rows swap the seat.\<close>

lemma transfer_ok:
  assumes "TransferOwnership now a b st = (Inr u, st')"
  obtains fa tb st1 where "a \<noteq> b" "userById a st = Some fa" "userById b st = Some tb" "uRole fa = RoleOwner"
    "uStatus tb = StatusActive" "userById b st1 = Some u"
    "writeUsers (\<lambda>u. uId u \<in> {a, b}) (\<lambda>u. u\<lparr>uRole := (if uId u = a then RoleAdmin else RoleOwner),
        uTokenVersion := uTokenVersion u + 1\<rparr>) st = Inr st1"
    "st' = revokeWhere (\<lambda>s. sUser s \<in> {a, b}) ReasonAdminRevoked now st1"
  using assms by (auto simp: TransferOwnership_def split: if_splits option.splits sum.splits)

lemma transfer_err: "TransferOwnership now a b st = (Inl e, st') \<Longrightarrow> st' = st"
  by (auto simp: TransferOwnership_def split: if_splits option.splits sum.splits)

lemma good_TransferOwnership: "goodStep st (snd (TransferOwnership now a b st))"
proof (cases "TransferOwnership now a b st")
  case (Pair r st')
  show ?thesis
  proof (cases r)
    case (Inl e)
    with Pair transfer_err [of now a b st e st'] show ?thesis by simp
  next
    case (Inr u)
    with Pair have ok: "TransferOwnership now a b st = (Inr u, st')" by simp
    obtain fa tb st1 where t: "a \<noteq> b" "userById a st = Some fa" "userById b st = Some tb" "uRole fa = RoleOwner"
      "uStatus tb = StatusActive" "userById b st1 = Some u"
      "writeUsers (\<lambda>u. uId u \<in> {a, b}) (\<lambda>u. u\<lparr>uRole := (if uId u = a then RoleAdmin else RoleOwner),
          uTokenVersion := uTokenVersion u + 1\<rparr>) st = Inr st1"
      "st' = revokeWhere (\<lambda>s. sUser s \<in> {a, b}) ReasonAdminRevoked now st1"
      by (rule transfer_ok [OF ok])
    have "accInv st1" if "accInv st" using t(7) that by (rule accInv_writeUsers) simp
    moreover have "seatHeld st1"
    proof -
      let ?g = "\<lambda>u. u\<lparr>uRole := (if uId u = a then RoleAdmin else RoleOwner), uTokenVersion := uTokenVersion u + 1\<rparr>"
      from userById_id [OF t(3)] have "uId tb = b" "tb \<in> set (users st)" by simp_all
      then have "?g tb \<in> set (users st1)" using writeUsers_Inr [OF t(7)] by (auto simp: image_iff intro!: bexI [of _ tb])
      moreover have "uRole (?g tb) = RoleOwner" "uStatus (?g tb) = StatusActive"
        using t(1,5) \<open>uId tb = b\<close> by simp_all
      ultimately show ?thesis unfolding seatHeld_def by blast
    qed
    ultimately show ?thesis using Pair t(8) by (simp add: goodStep_def)
  qed
qed

lemma good_DeleteUser: "goodStep st (snd (DeleteUser i st))"
proof -
  have "goodStep st (cascadeUser i st)" if "userById i st = Some u" "uRole u \<noteq> RoleOwner" for u
  proof -
    have us: "users (cascadeUser i st) = filter (\<lambda>u. uId u \<noteq> i) (users st)"
      "userSeq (cascadeUser i st) = userSeq st" by (simp_all add: cascadeUser_def Let_def)
    have "accInv (cascadeUser i st)" if "accInv st"
    proof -
      have "length (filter (\<lambda>u. uRole u = RoleOwner) (filter (\<lambda>u. uId u \<noteq> i) (users st))) \<le>
        length (filter (\<lambda>u. uRole u = RoleOwner) (users st))"
        by (rule length_filter_filter_le)
      then show ?thesis using that us
        by (auto simp: accInv_def uniqueUsers_def distinct_map_filter list_all_iff intro: distinct_some_filter)
    qed
    moreover have "seatHeld (cascadeUser i st)" if "accInv st" "seatHeld st"
    proof -
      from that(2) obtain v where v: "v \<in> set (users st)" "uRole v = RoleOwner" "uStatus v = StatusActive"
        by (auto simp: seatHeld_def)
      with userById_distinct [OF _ \<open>userById i st = Some u\<close> v(1)] that(1) \<open>uRole u \<noteq> RoleOwner\<close>
      have "uId v \<noteq> i" by (auto simp: accInv_def)
      with v us show ?thesis by (auto simp: seatHeld_def)
    qed
    ultimately show ?thesis by (simp add: goodStep_def)
  qed
  then show ?thesis by (auto simp: DeleteUser_def split: option.splits)
qed

lemma good_AdminCreateUser: "goodStep st (snd (AdminCreateUser hashpw e n p r st))"
  by (auto simp: AdminCreateUser_def split: option.splits sum.splits
      intro!: goodStep_commitTx intro: goodStep_insertUser)

lemma goodStep_invites [simp]:
  "goodStep st (st'\<lparr>invites := vs\<rparr>) = goodStep st st'" "goodStep st (st'\<lparr>inviteSeq := n\<rparr>) = goodStep st st'"
  by (simp_all add: goodStep_def accInv_def seatHeld_def)

lemma good_CreateInvite: "goodStep st (snd (CreateInvite now tok m e r b d st))"
  by (simp only: CreateInvite_def Let_def snd_conv goodStep_refl goodStep_invites simp_thms split: if_split)

lemma good_RevokeInvite: "goodStep st (snd (RevokeInvite now i st))"
  by (simp add: RevokeInvite_def)

lemma insertAcceptedUser_good:
  assumes "insertAcceptedUser now e n c r st = Inr (u, st')"
  shows "goodStep st st'"
proof -
  from assms obtain u' st1 where i: "insertUser (newUser e n r (icPassword c) (Some now)) st = Inr (u', st1)"
    and s: "users st' = users st1" "userSeq st' = userSeq st1"
    by (auto simp: insertAcceptedUser_def linkIdentity_def rbind_Inr_iff split: sum.splits option.splits if_splits)
  from goodStep_trans [OF goodStep_insertUser [OF i] goodStep_same [OF s]] show ?thesis .
qed

lemma good_acceptInvite: "goodStep st (snd (acceptInvite now loc n c st))"
  by (auto simp: acceptInvite_def split: sum.splits option.splits intro!: goodStep_commitTx
      dest: insertAcceptedUser_good)

lemma insertSessionTx_users:
  "insertSessionTx now uid issue o1 st = Inr (i, st') \<Longrightarrow> users st' = users st \<and> userSeq st' = userSeq st"
  by (auto simp: insertSessionTx_def split: if_splits)

lemma good_IssueSession: "goodStep st (snd (IssueSession now family minted uid tv ttl ip ua st))"
proof -
  have "goodStep st st2"
    if "issueSessionTx now family uid issue ip ua st = Inr (i, st1)"
      "writeUsers (\<lambda>u. uId u = uid) (\<lambda>u. u\<lparr>uLastLogin := Some now\<rparr>) st1 = Inr st2" for issue i st1 st2
  proof (rule goodStep_trans)
    show "goodStep st st1" using that(1) insertSessionTx_users unfolding issueSessionTx_def
      by (metis goodStep_same)
    show "goodStep st1 st2" using that(2) by (rule goodStep_writeUsers) simp_all
  qed
  then show ?thesis by (auto simp: IssueSession_def Let_def split: option.splits sum.splits)
qed

lemma rotateOnce_users:
  assumes "rotateOnce now ttl minted tok ip ua st = (err, res, st')"
  shows "users st' = users st" "userSeq st' = userSeq st"
proof -
  have "users (snd (snd (rotateOnce now ttl minted tok ip ua st))) = users st \<and>
    userSeq (snd (snd (rotateOnce now ttl minted tok ip ua st))) = userSeq st"
    by (auto simp: rotateOnce_def handleConsumed_def replayOutsideGrace_def graceSibling_def Let_def
        revokeAndPurgeFamily_def revokeFamily_def split: option.splits sum.splits if_splits
        dest: insertSessionTx_users writeNewTokens_Inr)
  with assms show "users st' = users st" "userSeq st' = userSeq st" by simp_all
qed

lemma good_RevokeAllForUser: "goodStep st (snd (RevokeAllForUser now uid reason st))"
  by (auto simp: RevokeAllForUser_def split: option.splits sum.splits) (erule goodStep_writeUsers; simp)+

lemma good_scan: "mset us = mset (users st) \<Longrightarrow> goodStep st (st\<lparr>users := us\<rparr>)"
proof -
  assume m: "mset us = mset (users st)"
  then have s: "set us = set (users st)" by (rule mset_eq_setD)
  have "distinct (map uId us) = distinct (map uId (users st))"
    "distinct (map uEmailNorm us) = distinct (map uEmailNorm (users st))"
    "distinct (filter (\<lambda>n. n \<noteq> None) (map uUsernameNorm us)) =
     distinct (filter (\<lambda>n. n \<noteq> None) (map uUsernameNorm (users st)))"
    using m by (auto intro!: mset_eq_imp_distinct_iff)
  moreover have "length (filter P us) = length (filter P (users st))" for P
    using m by (metis mset_filter size_mset)
  ultimately show ?thesis
    using s by (simp add: goodStep_def accInv_def uniqueUsers_def seatHeld_def list_all_iff)
qed

lemma good_step: "idStep ttl st st' \<Longrightarrow> goodStep st st'"
proof (induction rule: idStep.cases)
  case (bootstrap hashpw now e n p st r st')
  with good_Bootstrap [of st hashpw now e n p] show ?thesis by simp
next
  case (changePassword verify hashpw now i k c n st r0 st')
  with good_ChangePassword [of st verify hashpw now i k c n] show ?thesis by simp
next
  case (ownProfile i n l u d st r st')
  with good_UpdateOwnProfile [of st i n l u d] show ?thesis by simp
next
  case (updateUser now i n ro s st r st')
  with good_UpdateUser [of st now i n ro s] show ?thesis by simp
next
  case (deleteUser i st r0 st')
  with good_DeleteUser [of st i] show ?thesis by simp
next
  case (transfer now a b st r st')
  with good_TransferOwnership [of st now a b] show ?thesis by simp
next
  case (createUser hashpw e n p ro st r st')
  with good_AdminCreateUser [of st hashpw e n p ro] show ?thesis by simp
next
  case (createInvite now tok mailOk e ro b d st ri st')
  with good_CreateInvite [of st now tok mailOk e ro b d] show ?thesis by simp
next
  case (revokeInvite now i st r0 st')
  with good_RevokeInvite [of st now i] show ?thesis by simp
next
  case (accept now loc n cred st r st')
  with good_acceptInvite [of st now loc n cred] show ?thesis by simp
next
  case (issue family st now minted uid tv ip ua rs st')
  with good_IssueSession [of st now family minted uid tv ttl ip ua] show ?thesis by simp
next
  case (rotate now minted tok ip ua st err res st')
  with rotateOnce_users [OF rotate(3)] show ?thesis by (simp add: goodStep_same)
next
  case (revokeAll now uid reason st r0 st')
  with good_RevokeAllForUser [of st now uid reason] show ?thesis by simp
next
  case (scan us st)
  with good_scan [OF scan(3)] show ?thesis by simp
next
  case (sweep now retain st k st')
  then show ?thesis by (auto simp: SweepIdentity_def Let_def intro!: goodStep_same)
next
  case (touch now i st st')
  then show ?thesis by (auto simp: TouchSession_def intro!: goodStep_same)
next
  case (revokeSession now uid i reason st r0 st')
  then show ?thesis by (auto simp: RevokeSession_def split: if_splits)
next
  case (logout now a rt reason st st')
  then show ?thesis by (auto simp: RevokeFamilyByTokens_def Let_def)
qed

lemma idReach_accInv: "idReach ttl st \<Longrightarrow> accInv st"
proof (induction rule: idReach.induct)
  case (step st st')
  then show ?case using good_step by (auto simp: goodStep_def)
qed (simp add: accInv_def initIdentity_def)

lemma seat_run:
  "(idStep ttl)\<^sup>*\<^sup>* st st' \<Longrightarrow> idReach ttl st \<Longrightarrow> seatHeld st \<Longrightarrow> idReach ttl st' \<and> seatHeld st'"
proof (induction rule: rtranclp_induct)
  case (step y z)
  then show ?case using good_step idReach_accInv idReach.step by (meson goodStep_def)
qed simp

text \<open>
  C1.  The owner's seat is never empty and never shared.  Once the instance has an active owner, then
  after any sequence of repository operations by anybody (edits, deletions, transfers, invitations,
  sign-ins, password changes, in any order and with any arguments) exactly one account is the owner,
  it is active, and the setup screen stays closed: \<open>Bootstrap\<close> refuses with \<open>ErrAlreadySetUp\<close>.
\<close>

theorem owner_seat_never_empty:
  assumes "idReach ttl st" "seatHeld st" "(idStep ttl)\<^sup>*\<^sup>* st st'" "hashpw password = Some h"
  shows "length (filter (\<lambda>u. uRole u = RoleOwner) (users st')) = 1 \<and> seatHeld st' \<and>
    Bootstrap hashpw now email name password st' = (Inl ErrAlreadySetUp, st')"
proof -
  from seat_run [OF assms(3,1,2)] have r: "idReach ttl st'" and s: "seatHeld st'" by simp_all
  have "length (filter (\<lambda>u. uRole u = RoleOwner) (users st')) \<le> 1"
    using idReach_accInv [OF r] by (simp add: accInv_def uniqueUsers_def)
  moreover have "filter (\<lambda>u. uRole u = RoleOwner) (users st') \<noteq> []"
    using s by (auto simp: seatHeld_def filter_empty_conv)
  ultimately have "length (filter (\<lambda>u. uRole u = RoleOwner) (users st')) = 1"
    by (simp add: le_less)
  moreover have "\<not> NeedsBootstrap st'" using s by (auto simp: seatHeld_def NeedsBootstrap_def)
  ultimately show ?thesis using s assms(4) by (simp add: Bootstrap_def)
qed

lemma demo_seat: "seatHeld demoDb"
  by (simp add: seatHeld_def demoDb_def demoUser_def)

lemma owner_seat_never_empty_witness:
  "Bootstrap (\<lambda>p. Some p) 5 ''eve@example.org'' ''Eve'' ''pw'' demoLogin = (Inl ErrAlreadySetUp, demoLogin)"
proof -
  have "idStep demoTTL demoDb demoLogin"
    unfolding demoLogin_def by (rule idStep.issue [OF _ prod.collapse [symmetric]]) (simp add: demoDb_def)
  then have "(idStep demoTTL)\<^sup>*\<^sup>* demoDb demoLogin" by (rule r_into_rtranclp)
  from owner_seat_never_empty [OF idReach.start [OF demo_init] demo_seat this, of "\<lambda>p. Some p" "''pw''"]
  show ?thesis by simp
qed

section \<open>Administration\<close>

lemma userById_map:
  assumes "\<And>u. uId (f u) = uId u"
  shows "find (\<lambda>u. uId u = i) (map f us) = map_option f (find (\<lambda>u. uId u = i) us)"
  by (induction us) (auto simp: assms)

lemma userById_writeUsers:
  assumes "writeUsers P f st = Inr st'" "\<And>u. uId (f u) = uId u"
  shows "userById i st' = map_option (\<lambda>u. if P u then f u else u) (userById i st)"
  using userById_map [of "\<lambda>u. if P u then f u else u" i "users st"] assms(2)
  by (simp add: userById_def writeUsers_Inr [OF assms(1)])

lemma userById_revokeWhere [simp]: "userById i (revokeWhere P r now st) = userById i st"
  by (simp add: userById_def)

text \<open>No session of the account is alive any more.\<close>

definition signedOut :: "int \<Rightarrow> identity \<Rightarrow> bool" where
  "signedOut i st = list_all (\<lambda>s. sUser s = i \<longrightarrow> sRevoked s \<noteq> None) (sessions st)"

lemma signedOut_revokeWhere: "(\<And>s. sUser s = i \<Longrightarrow> P s) \<Longrightarrow> signedOut i (revokeWhere P r now st)"
  by (auto simp: signedOut_def revokeWhere_def list_all_iff)

text \<open>
  C36.  A transfer moves the seat and nothing else.  When \<open>TransferOwnership\<close> succeeds, the target is
  the only owner and is active, the outgoing owner is an administrator, every other account is as it
  was, and neither of the two keeps a live session; when it fails, nothing has changed.
\<close>

theorem transfer_moves_the_seat:
  assumes "idReach ttl st" "TransferOwnership now a b st = (r, st')"
  shows "case r of
      Inl e \<Rightarrow> st' = st
    | Inr u \<Rightarrow> uId u = b \<and> uStatus u = StatusActive \<and> filter (\<lambda>v. uRole v = RoleOwner) (users st') = [u] \<and>
        map_option uRole (userById a st') = Some RoleAdmin \<and> signedOut a st' \<and> signedOut b st' \<and>
        filter (\<lambda>v. uId v \<noteq> a \<and> uId v \<noteq> b) (users st') = filter (\<lambda>v. uId v \<noteq> a \<and> uId v \<noteq> b) (users st)"
proof (cases r)
  case (Inl e)
  with assms(2) transfer_err [of now a b st e st'] show ?thesis by simp
next
  case (Inr u)
  with assms(2) have ok: "TransferOwnership now a b st = (Inr u, st')" by simp
  let ?g = "\<lambda>u. u\<lparr>uRole := (if uId u = a then RoleAdmin else RoleOwner), uTokenVersion := uTokenVersion u + 1\<rparr>"
  obtain fa tb st1 where t: "a \<noteq> b" "userById a st = Some fa" "userById b st = Some tb" "uRole fa = RoleOwner"
      "uStatus tb = StatusActive" "userById b st1 = Some u"
      "writeUsers (\<lambda>u. uId u \<in> {a, b}) ?g st = Inr st1"
      "st' = revokeWhere (\<lambda>s. sUser s \<in> {a, b}) ReasonAdminRevoked now st1"
    by (rule transfer_ok [OF ok])
  note w = userById_writeUsers [OF t(7)]
  have ids: "uId fa = a" "uId tb = b" using userById_id t(2,3) by blast+
  have u: "u = ?g tb" using w [of b] t(3,6) ids by simp
  have "accInv st1" using t(7) idReach_accInv [OF assms(1)] by (rule accInv_writeUsers) simp
  then have "length (filter (\<lambda>v. uRole v = RoleOwner) (users st1)) \<le> 1"
    by (simp add: accInv_def uniqueUsers_def)
  moreover have "u \<in> set (filter (\<lambda>v. uRole v = RoleOwner) (users st1))"
    using userById_id [OF t(6)] u t(1) ids by simp
  ultimately have own: "filter (\<lambda>v. uRole v = RoleOwner) (users st1) = [u]"
    by (cases "filter (\<lambda>v. uRole v = RoleOwner) (users st1)") auto
  have "filter (\<lambda>v. uId v \<noteq> a \<and> uId v \<noteq> b) (map (\<lambda>u. if uId u \<in> {a, b} then ?g u else u) us) =
    filter (\<lambda>v. uId v \<noteq> a \<and> uId v \<noteq> b) us" for us by (induction us) auto
  then have rest: "filter (\<lambda>v. uId v \<noteq> a \<and> uId v \<noteq> b) (users st1) = filter (\<lambda>v. uId v \<noteq> a \<and> uId v \<noteq> b) (users st)"
    by (simp add: writeUsers_Inr [OF t(7)])
  have "map_option uRole (userById a st1) = Some RoleAdmin" using w [of a] t(2) ids by simp
  then show ?thesis
    using Inr u t(1,5,8) ids own rest by (simp add: signedOut_revokeWhere)
qed

definition demoAdmin :: user where
  "demoAdmin = demoUser\<lparr>uId := 2, uEmail := ''bob@example.org'', uEmailNorm := ''bob@example.org'',
     uRole := RoleAdmin\<rparr>"

definition demoTeam :: identity where
  "demoTeam = demoDb\<lparr>users := [demoUser, demoAdmin], userSeq := 3\<rparr>"

lemma demo_team_init: "initIdentity demoTeam"
  by code_simp

lemma transfer_moves_the_seat_witness:
  "map uId (filter (\<lambda>v. uRole v = RoleOwner) (users (snd (TransferOwnership 50 1 2 demoTeam)))) = [2]"
proof -
  obtain r st' where e: "TransferOwnership 50 1 2 demoTeam = (r, st')" by (rule prod.exhaust)
  have "isOk (fst (TransferOwnership 50 1 2 demoTeam))" by code_simp
  with e obtain u where "r = Inr u" by (cases r) auto
  with transfer_moves_the_seat [OF idReach.start [OF demo_team_init] e] e show ?thesis by simp
qed

text \<open>
  The update runs row by row and the single-owner index is checked at each row, so its outcome depends
  on which of the two rows is scanned first.
\<close>

lemma updateUserRows_skip:
  "list_all (\<lambda>u. \<not> P u) xs \<Longrightarrow> updateUserRows P f seen (xs @ us) = updateUserRows P f (seen @ xs) us"
  by (induction xs arbitrary: seen) auto

lemma find_unique_id:
  "distinct (map uId us) \<Longrightarrow> u \<in> set us \<Longrightarrow> find (\<lambda>x. uId x = uId u) us = Some u"
  by (induction us) (auto simp: image_iff)

text \<open>
  A transfer may be refused by the single-owner index for no reason the caller can see: whenever
  the scan meets the target's row before the outgoing owner's row, the row-by-row check of the unique
  index finds two owners, and an otherwise valid transfer fails with a database error.
\<close>

theorem transfer_depends_on_scan_order:
  assumes "users st = xs @ tb # ys @ fa # zs" "distinct (map uId (users st))"
    and "uRole fa = RoleOwner" "uStatus tb = StatusActive"
  shows "TransferOwnership now (uId fa) (uId tb) st = (Inl ErrSql, st)"
proof -
  let ?P = "\<lambda>u. uId u \<in> {uId fa, uId tb}"
  let ?g = "\<lambda>u. u\<lparr>uRole := (if uId u = uId fa then RoleAdmin else RoleOwner), uTokenVersion := uTokenVersion u + 1\<rparr>"
  have ne: "uId fa \<noteq> uId tb" and xs: "list_all (\<lambda>u. \<not> ?P u) xs"
    using assms(1,2) by (auto simp: list_all_iff image_iff)
  have v: "violates (?g tb) (xs @ ys @ fa # zs) \<noteq> None"
  proof
    assume n: "violates (?g tb) (xs @ ys @ fa # zs) = None"
    have "uRole (?g tb) = RoleOwner" using ne by simp
    from violates_None(3) [OF n this] assms(3) show False by (simp add: filter_empty_conv)
  qed
  then have "\<exists>c. writeUsers ?P ?g st = Inl c"
    unfolding writeUsers_def assms(1) updateUserRows_skip [OF xs]
    by (auto split: option.splits)
  moreover have "userById (uId fa) st = Some fa" "userById (uId tb) st = Some tb"
    using assms(1,2) by (auto simp: userById_def intro!: find_unique_id)
  ultimately show ?thesis using ne assms(3,4) by (auto simp: TransferOwnership_def)
qed

lemma transfer_depends_on_scan_order_witness:
  "TransferOwnership 50 1 2 (demoTeam\<lparr>users := [demoAdmin, demoUser]\<rparr>) =
     (Inl ErrSql, demoTeam\<lparr>users := [demoAdmin, demoUser]\<rparr>)"
  using transfer_depends_on_scan_order [of "demoTeam\<lparr>users := [demoAdmin, demoUser]\<rparr>" "[]" demoAdmin "[]" demoUser "[]" 50]
  by (simp add: demoAdmin_def demoUser_def)

section \<open>Revocation\<close>

lemma ResolveAccess_Inr:
  assumes "ResolveAccess now h st = Inr (p, csrf)"
  obtains s u where "s \<in> set (sessions st)" "sAccess s = h" "sessionLive now s" "csrf = sCsrf s"
    "userById (sUser s) st = Some u" "uStatus u = StatusActive"
    "p = \<lparr>prUser = sUser s, prRole = uRole u, prSession = sId s, prToken = 0, prVia = ViaSession\<rparr>"
  using assms that by (auto simp: ResolveAccess_def dest!: find_SomeD split: option.splits if_splits)

text \<open>Nothing the account held before gets anybody in.\<close>

definition lockedOut :: "int \<Rightarrow> identity \<Rightarrow> bool" where
  "lockedOut i st =
     ((\<forall>now h. case ResolveAccess now h st of Inl e \<Rightarrow> True | Inr (p, csrf) \<Rightarrow> prUser p \<noteq> i) \<and>
      (\<forall>now ttl minted tok ip ua. case rotateOnce now ttl minted tok ip ua st of
          (err, res, st') \<Rightarrow> rrTokens res = None \<or> rrUser res \<noteq> i))"

lemma signedOut_lockedOut:
  assumes "signedOut i st" shows "lockedOut i st"
  unfolding lockedOut_def
proof (intro conjI allI)
  note so = assms [unfolded signedOut_def list_all_iff, rule_format]
  fix now h
  show "case ResolveAccess now h st of Inl e \<Rightarrow> True | Inr (p, csrf) \<Rightarrow> prUser p \<noteq> i"
  proof (cases "ResolveAccess now h st")
    case (Inr pc)
    obtain p csrf where pc: "pc = (p, csrf)" by (cases pc)
    from Inr [unfolded pc] obtain s where "s \<in> set (sessions st)" "sessionLive now s" "prUser p = sUser s"
      by (rule ResolveAccess_Inr) simp
    with so have "prUser p \<noteq> i" unfolding sessionLive_def by metis
    then show ?thesis using Inr pc by simp
  qed simp
next
  note so = assms [unfolded signedOut_def list_all_iff, rule_format]
  fix now ttl minted tok ip ua
  have "rrTokens res = None \<or> rrUser res \<noteq> i" if "rotateOnce now ttl minted tok ip ua st = (err, res, st')" for err res st'
  proof (cases "lookupConsumedRefresh tok st")
    case (Some t)
    show ?thesis
    proof (cases "find (\<lambda>s. sId s = utSession t) (sessions st)")
      case None
      with that Some show ?thesis
        by (auto simp: rotateOnce_def handleConsumed_def replayOutsideGrace_def graceSibling_def emptyRotate_def
            Let_def split: if_splits)
    next
      case (Some s)
      then have "s \<in> set (sessions st)" by (auto dest: find_SomeD)
      with so have "sRevoked s = None \<Longrightarrow> sUser s \<noteq> i" by blast
      with that Some \<open>lookupConsumedRefresh tok st = Some t\<close> show ?thesis
        by (auto simp: rotateOnce_def handleConsumed_def replayOutsideGrace_def graceSibling_def emptyRotate_def
            Let_def split: if_splits sum.splits)
    qed
  next
    case None
    show ?thesis
    proof (cases err)
      case None
      with that \<open>lookupConsumedRefresh tok st = None\<close> obtain s u where l: "lockLiveRefresh now tok st = Inr (s, u)"
        "rrUser res = uId u"
        by (auto simp: rotateOnce_def Let_def split: sum.splits if_splits)
      then have "s \<in> set (sessions st)" "sRevoked s = None" "userById (sUser s) st = Some u"
        by (auto simp: lockLiveRefresh_def dest!: find_SomeD split: option.splits)
      with so l(2) userById_id [of "sUser s" st u] show ?thesis by metis
    next
      case (Some e)
      with that \<open>lookupConsumedRefresh tok st = None\<close> show ?thesis
        by (auto simp: rotateOnce_def emptyRotate_def Let_def split: sum.splits if_splits)
    qed
  qed
  then show "case rotateOnce now ttl minted tok ip ua st of (err, res, st') \<Rightarrow> rrTokens res = None \<or> rrUser res \<noteq> i"
    by (simp split: prod.split)
qed

text \<open>
  C32.  Signing an account out everywhere is complete.  After \<open>RevokeAllForUser\<close> no access token
  resolves to the account and no refresh token, live or consumed, inside the grace window or not,
  yields tokens for it; and a sign-in that verified the password before the revocation, and so carries
  the old credential epoch, cannot open a session any more.
\<close>

theorem revoke_all_is_complete:
  assumes "idReach ttl st" "RevokeAllForUser now i reason st = (Inr (), st')" "userById i st = Some u"
  shows "lockedOut i st' \<and>
    fst (IssueSession now' family minted i (uTokenVersion u) ttl ip ua st') = Inl ErrSessionInvalid"
proof -
  let ?f = "\<lambda>u. u\<lparr>uTokenVersion := uTokenVersion u + 1\<rparr>"
  from assms(2) obtain st1 where w: "writeUsers (\<lambda>u. uId u = i) ?f st = Inr st1"
    and st': "st' = revokeWhere (\<lambda>s. sUser s = i) reason now st1"
    by (auto simp: RevokeAllForUser_def split: option.splits sum.splits)
  have "accInv st1" using w idReach_accInv [OF assms(1)] by (rule accInv_writeUsers) simp
  moreover have b: "userById i st1 = Some (?f u)"
    using userById_writeUsers [OF w, of i] assms(3) userById_id [OF assms(3)] by simp
  ultimately have "uTokenVersion v \<noteq> uTokenVersion u" if "v \<in> set (users st1)" "uId v = i" for v
    using userById_distinct [OF _ b that] by (simp add: accInv_def)
  then have "find (\<lambda>v. uId v = i \<and> uStatus v = StatusActive \<and> uTokenVersion v = uTokenVersion u) (users st') = None"
    by (auto simp: st' find_None_iff)
  moreover have "signedOut i st'" unfolding st' by (rule signedOut_revokeWhere)
  ultimately show ?thesis by (simp add: IssueSession_def Let_def signedOut_lockedOut)
qed

lemma revoke_all_is_complete_witness:
  "lockedOut 1 (snd (RevokeAllForUser 120 1 ReasonLogoutAll demoSibling))"
proof -
  have e: "fst (RevokeAllForUser 120 1 ReasonLogoutAll demoSibling) = Inr ()"
    "userById 1 demoSibling = Some (demoUser\<lparr>uLastLogin := Some 100\<rparr>)" by code_simp+
  from revoke_all_is_complete [OF demo_sibling_reach prod.collapse [symmetric, of "RevokeAllForUser 120 1 ReasonLogoutAll demoSibling",
      unfolded e(1)] e(2)]
  show ?thesis by simp
qed

text \<open>
  C35.  An administrator's edit takes effect on the sessions.  When \<open>UpdateUser\<close> succeeds in making a
  non-administrator an administrator, every session the account held is revoked, so nothing opened
  with the old role carries the new one; and whenever it changes role or status, the owner is not the
  target and the credential epoch moves.
\<close>

theorem promotion_revokes_sessions:
  assumes "idReach ttl st" "UpdateUser now i name r s st = (Inr u', st')" "r \<noteq> None \<or> s \<noteq> None"
    and "userById i st = Some u"
  shows "uRole u \<noteq> RoleOwner \<and> u' = applyUserUpdate name r s u \<and> userById i st' = Some u' \<and>
    uTokenVersion u' = uTokenVersion u + 1 \<and>
    (isAdminPromotion (uRole u) r \<longrightarrow> lockedOut i st')"
proof -
  have n: "(r = None \<and> s = None) = False" using assms(3) by auto
  from assms(2) obtain st1 where o: "\<not> ownerIsImmutable (uRole u) r s"
    and w: "writeUsers (\<lambda>v. uId v = i) (applyUserUpdate name r s) st = Inr st1"
    and c: "commitTx i (applyUserUpdate name r s u)
        (if isAdminPromotion (uRole u) r then revokeWhere (\<lambda>s. sUser s = i) ReasonAdminRevoked now st1 else st1) st
      = (Inr u', st')"
    unfolding UpdateUser_def n if_False assms(4) option.case
    by (auto split: if_splits option.splits sum.splits)
  have i: "uId (applyUserUpdate name r s v) = uId v" for v by (simp add: applyUserUpdate_def)
  from c have e: "u' = applyUserUpdate name r s u"
    "st' = (if isAdminPromotion (uRole u) r then revokeWhere (\<lambda>s. sUser s = i) ReasonAdminRevoked now st1 else st1)"
    by (auto simp: commitTx_def split: option.splits if_splits)
  have "userById i st1 = Some u'"
    using userById_writeUsers [OF w i, of i] assms(4) userById_id [OF assms(4)] e(1) by simp
  moreover have "uTokenVersion u' = uTokenVersion u + 1"
    using assms(3) by (auto simp: e(1) applyUserUpdate_def)
  moreover have "uRole u \<noteq> RoleOwner" using o assms(3) by (auto simp: ownerIsImmutable_def)
  ultimately show ?thesis using e by (simp add: signedOut_lockedOut signedOut_revokeWhere)
qed

definition demoEditor :: user where
  "demoEditor = demoAdmin\<lparr>uRole := RoleEditor\<rparr>"

lemma promotion_revokes_sessions_witness:
  "uRole (the (userById 2 (snd (UpdateUser 60 2 None (Some RoleAdmin) None (demoTeam\<lparr>users := [demoUser, demoEditor]\<rparr>)))))
     = RoleAdmin \<and>
   lockedOut 2 (snd (UpdateUser 60 2 None (Some RoleAdmin) None (demoTeam\<lparr>users := [demoUser, demoEditor]\<rparr>)))"
proof -
  let ?st = "demoTeam\<lparr>users := [demoUser, demoEditor]\<rparr>"
  let ?r = "UpdateUser 60 2 None (Some RoleAdmin) None ?st"
  have i: "initIdentity ?st"
    by code_simp
  have b: "userById 2 ?st = Some demoEditor" "isOk (fst ?r)" "isAdminPromotion (uRole demoEditor) (Some RoleAdmin)"
    "uRole (applyUserUpdate None (Some RoleAdmin) None demoEditor) = RoleAdmin" by code_simp+
  from b(2) obtain u' where u': "?r = (Inr u', snd ?r)" by (cases ?r; cases "fst ?r") auto
  from promotion_revokes_sessions [OF idReach.start [OF i] u' _ b(1)] b(3,4) show ?thesis by simp
qed

section \<open>Invitations\<close>

definition invInv :: "identity \<Rightarrow> bool" where
  "invInv st =
     (list_all (\<lambda>v. iId v < inviteSeq st \<and> iRole v \<in> {RoleAdmin, RoleEditor, RoleViewer}) (invites st) \<and>
      distinct (map iId (invites st)) \<and>
      distinct (map iEmailNorm (filter inviteOpen (invites st))))"

text \<open>The invitation with this id can never be claimed again.\<close>

definition inviteClosed :: "int \<Rightarrow> identity \<Rightarrow> bool" where
  "inviteClosed k st = (k < inviteSeq st \<and> list_all (\<lambda>v. iId v = k \<longrightarrow> \<not> inviteOpen v) (invites st))"

definition invStep :: "identity \<Rightarrow> identity \<Rightarrow> bool" where
  "invStep st st' = ((invInv st \<longrightarrow> invInv st') \<and> (\<forall>k. inviteClosed k st \<longrightarrow> inviteClosed k st'))"

lemma invStep_same: "invites st' = invites st \<Longrightarrow> inviteSeq st' = inviteSeq st \<Longrightarrow> invStep st st'"
  by (simp add: invStep_def invInv_def inviteClosed_def)

lemma invStep_map:
  assumes "invites st' = map f (invites st)" "inviteSeq st' = inviteSeq st"
    "\<And>v. iId (f v) = iId v \<and> iRole (f v) = iRole v \<and> iEmailNorm (f v) = iEmailNorm v \<and> (inviteOpen (f v) \<longrightarrow> inviteOpen v)"
  shows "invStep st st'"
proof -
  have "map iId (invites st') = map iId (invites st)" using assms(1,3) by simp
  moreover have open_first: "filter (\<lambda>v. inviteOpen (f v)) vs = filter (\<lambda>v. inviteOpen (f v)) (filter inviteOpen vs)" for vs
    using assms(3) by (induction vs) auto
  then have "distinct (map iEmailNorm (filter inviteOpen (map f vs)))"
    if "distinct (map iEmailNorm (filter inviteOpen vs))" for vs
  proof -
    have "filter inviteOpen (map f vs) = map f (filter (\<lambda>v. inviteOpen (f v)) vs)" by (simp add: filter_map comp_def)
    then have "map iEmailNorm (filter inviteOpen (map f vs)) = map iEmailNorm (filter (\<lambda>v. inviteOpen (f v)) vs)"
      using assms(3) by simp
    also have "\<dots> = map iEmailNorm (filter (\<lambda>v. inviteOpen (f v)) (filter inviteOpen vs))"
      by (simp only: open_first [symmetric])
    finally show ?thesis using that by (simp only: distinct_map_filter)
  qed
  ultimately show ?thesis
    using assms unfolding invStep_def invInv_def inviteClosed_def
    by (auto simp: list_all_iff simp del: map_map)
qed

lemma invStep_map_upd:
  assumes "\<And>v. iId (f v) = iId v \<and> iRole (f v) = iRole v \<and> iEmailNorm (f v) = iEmailNorm v \<and>
    (inviteOpen (f v) \<longrightarrow> inviteOpen v)"
  shows "invStep st (st\<lparr>invites := map f (invites st)\<rparr>)"
  by (rule invStep_map [OF _ _ assms]) simp_all

lemma invStep_filter:
  assumes "invites st' = filter P (invites st)" "inviteSeq st' = inviteSeq st"
  shows "invStep st st'"
proof -
  have "filter inviteOpen (filter P vs) = filter P (filter inviteOpen vs)" for vs
    by (simp add: conj_commute)
  then show ?thesis
    using assms by (auto simp: invStep_def invInv_def inviteClosed_def list_all_iff distinct_map_filter simp del: filter_filter)
qed

lemma invStep_commitTx: "invStep st st' \<Longrightarrow> invStep st (snd (commitTx i r st' st))"
  using commitTx_cases [of i r st' st] invStep_same [of st st] by auto

lemma inviteSeq_frame:
  "inviteSeq (revokeWhere P r now st) = inviteSeq st"
  "writeUsers Q f st = Inr st' \<Longrightarrow> inviteSeq st' = inviteSeq st"
  "insertUser u st = Inr (u', st') \<Longrightarrow> inviteSeq st' = inviteSeq st"
  by (simp add: revokeWhere_def, drule writeUsers_Inr, simp, drule insertUser_Inr(2), simp)

lemma invStep_writeUsers: "writeUsers P f st = Inr st' \<Longrightarrow> invStep st st'"
  by (rule invStep_same) (simp_all add: writeUsers_frame inviteSeq_frame)

lemma invStep_insertUser: "insertUser u st = Inr (u', st') \<Longrightarrow> invStep st st'"
  by (rule invStep_same) (simp_all add: insertUser_frame inviteSeq_frame)

lemma invStep_revokeWhere [simp]: "invStep st (revokeWhere P r now st') = invStep st st'"
  by (simp add: invStep_def invInv_def inviteClosed_def inviteSeq_frame)

lemma invStep_refl [simp]: "invStep st st"
  by (rule invStep_same) simp_all

lemmas invStep_intros = invStep_commitTx invStep_writeUsers invStep_insertUser

lemma inv_accounts:
  "invStep st (snd (Bootstrap hashpw now e n p st))"
  "invStep st (snd (ChangePassword verify hashpw now i k c n st))"
  "invStep st (snd (renameUser i rn st))"
  "invStep st (snd (UpdateOwnProfile i on l u d st))"
  "invStep st (snd (TransferOwnership now a b st))"
  "invStep st (snd (AdminCreateUser hashpw e n p r st))"
  "invStep st (snd (RevokeAllForUser now i reason st))"
        apply (auto simp: Bootstrap_def Let_def split: option.splits sum.splits intro: invStep_intros)[1]
       apply (auto simp: ChangePassword_def split: option.splits sum.splits intro!: invStep_commitTx intro: invStep_intros)[1]
      apply (auto simp: renameUser_def split: option.splits sum.splits intro: invStep_intros)[1]
     apply (auto simp: UpdateOwnProfile_def split: option.splits sum.splits intro: invStep_intros)[1]
    apply (auto simp: TransferOwnership_def split: option.splits sum.splits intro: invStep_intros)[1]
   apply (auto simp: AdminCreateUser_def split: option.splits sum.splits intro: invStep_intros)[1]
  apply (auto simp: RevokeAllForUser_def split: option.splits sum.splits intro: invStep_intros)[1]
  done

lemma inv_UpdateUser: "invStep st (snd (UpdateUser now i n r s st))"
  by (auto simp: UpdateUser_def inv_accounts(3) split: option.splits sum.splits
      intro!: invStep_commitTx intro: invStep_intros)

lemma inv_DeleteUser: "invStep st (snd (DeleteUser i st))"
proof -
  have "invStep st (cascadeUser i st)"
    by (rule invStep_map [where f = "\<lambda>v. v\<lparr>iInvitedBy := (if iInvitedBy v = Some i then None else iInvitedBy v),
          iAcceptedUser := (if iAcceptedUser v = Some i then None else iAcceptedUser v)\<rparr>"])
      (simp_all add: cascadeUser_def Let_def inviteOpen_def)
  then show ?thesis by (auto simp: DeleteUser_def split: option.splits)
qed

lemma inv_RevokeInvite: "invStep st (snd (RevokeInvite now i st))"
proof -
  have "invStep st (st\<lparr>invites := map (\<lambda>v. if iId v = i \<and> inviteOpen v then v\<lparr>iRevoked := Some now\<rparr> else v) (invites st)\<rparr>)"
    by (rule invStep_map_upd) (simp add: inviteOpen_def)
  then show ?thesis by (simp add: RevokeInvite_def)
qed

lemma invStep_trans: "invStep a b \<Longrightarrow> invStep b c \<Longrightarrow> invStep a c"
  by (simp add: invStep_def)

lemma insertAcceptedUser_inv:
  assumes "insertAcceptedUser now e n c r st = Inr (u, st')"
  shows "invStep st st'" "uRole u = r" "u \<in> set (users st')"
proof -
  from assms obtain st1 where i: "insertUser (newUser e n r (icPassword c) (Some now)) st = Inr (u, st1)"
    and s: "invites st' = invites st1" "inviteSeq st' = inviteSeq st1" "users st' = users st1"
    by (auto simp: insertAcceptedUser_def linkIdentity_def rbind_Inr_iff split: sum.splits option.splits if_splits)
  from invStep_trans [OF invStep_insertUser [OF i] invStep_same [OF s(1,2)]] show "invStep st st'" .
  note w = insertUser_Inr [OF i]
  from w(1) show "uRole u = r" by (simp add: newUser_def)
  have "users st1 = users st @ [u]" by (subst w(2)) simp
  with s(3) show "u \<in> set (users st')" by simp
qed

lemma markAccepted_inv:
  "invStep st (st\<lparr>invites := map (\<lambda>w. if iId w = k then w\<lparr>iAccepted := Some now, iAcceptedUser := a\<rparr> else w) (invites st)\<rparr>)"
  by (rule invStep_map_upd) (simp add: inviteOpen_def)

lemma inv_acceptInvite: "invStep st (snd (acceptInvite now loc n c st))"
  by (auto simp: acceptInvite_def split: sum.splits option.splits
      intro!: invStep_commitTx intro: invStep_trans [OF insertAcceptedUser_inv(1) markAccepted_inv])

lemma inv_CreateInvite:
  assumes "CreateInvite now tok m e r b d st = (res, st')"
  shows "invStep st st'"
proof (cases res)
  case (Inl err)
  with assms have "st' = st" by (simp add: CreateInvite_def Let_def split: if_splits)
  then show ?thesis by simp
next
  case (Inr v)
  define old where "old = supersedeInvites now (NormalizeEmail e) (invites st)"
  from assms Inr have st': "st' = st\<lparr>invites := old @ [v], inviteSeq := inviteSeq st + 1\<rparr>"
    and v: "iId v = inviteSeq st" "iRole v = r" "iEmailNorm v = NormalizeEmail e" and ok: "\<not> inviteRefused v old st"
    unfolding CreateInvite_def Let_def old_def [symmetric] by (auto split: if_splits)
  from ok have ok: "r \<in> {RoleAdmin, RoleEditor, RoleViewer}" "\<not> (\<exists>w\<in>set old. iEmailNorm w = NormalizeEmail e \<and> inviteOpen w)"
    unfolding inviteRefused_def v by blast+
  have s: "invStep st (st\<lparr>invites := old\<rparr>)"
    unfolding old_def supersedeInvites_def by (rule invStep_map_upd) (simp add: inviteOpen_def)
  have "invInv st'" if "invInv st"
  proof -
    from s that have i: "invInv (st\<lparr>invites := old\<rparr>)" by (simp add: invStep_def)
    then have "iId w < inviteSeq st" if "w \<in> set old" for w using that by (simp add: invInv_def list_all_iff)
    then have "inviteSeq st \<notin> iId ` set old" by force
    moreover have "NormalizeEmail e \<notin> iEmailNorm ` set (filter inviteOpen old)" using ok(2) by auto
    ultimately show ?thesis
      using i v ok(1) by (auto simp: invInv_def st' list_all_iff)
  qed
  moreover have "inviteClosed k st'" if "inviteClosed k st" for k
  proof -
    from s that have "inviteClosed k (st\<lparr>invites := old\<rparr>)" by (simp add: invStep_def)
    with v(1) show ?thesis by (simp add: inviteClosed_def st')
  qed
  ultimately show ?thesis by (simp add: invStep_def)
qed

lemma insertSession_inv: "insertSessionTx now uid issue o1 st = Inr (i, st') \<Longrightarrow> invStep st st'"
  by (rule invStep_same) (auto simp: insertSessionTx_def split: if_splits)

lemma inv_IssueSession: "invStep st (snd (IssueSession now family minted uid tv ttl ip ua st))"
  by (auto simp: IssueSession_def issueSessionTx_def Let_def split: option.splits sum.splits
      intro: invStep_trans [OF insertSession_inv invStep_writeUsers])

lemma inv_rotateOnce: "invStep st (snd (snd (rotateOnce now ttl minted tok ip ua st)))"
proof -
  have "invStep st st'" if "writeNewTokens now' i issue ip' ua' (st\<lparr>usedTokens := ts\<rparr>) = Inr st'" for now' i issue ip' ua' ts st'
    using writeNewTokens_Inr [OF that] by (intro invStep_same) simp_all
  moreover have "invStep st (revokeAndPurgeFamily now' f st)" for now' f
    by (rule invStep_same) (simp_all add: revokeAndPurgeFamily_def revokeFamily_def inviteSeq_frame)
  ultimately show ?thesis
    by (auto simp: rotateOnce_def handleConsumed_def replayOutsideGrace_def graceSibling_def Let_def revokeFamily_def
        split: option.splits sum.splits if_splits intro: insertSession_inv)
qed

lemma inv_SweepIdentity: "invStep st (snd (SweepIdentity now retain st))"
  by (rule invStep_filter) (simp_all add: SweepIdentity_def Let_def)

lemma inv_step: "idStep ttl st st' \<Longrightarrow> invStep st st'"
proof (induction rule: idStep.cases)
  case (bootstrap hashpw now e n p st r st')
  with inv_accounts(1) [of st hashpw now e n p] show ?thesis by simp
next
  case (changePassword verify hashpw now i k c n st r0 st')
  with inv_accounts(2) [of st verify hashpw now i k c n] show ?thesis by simp
next
  case (ownProfile i n l u d st r st')
  with inv_accounts(4) [of st i n l u d] show ?thesis by simp
next
  case (updateUser now i n ro s st r st')
  with inv_UpdateUser [of st now i n ro s] show ?thesis by simp
next
  case (deleteUser i st r0 st')
  with inv_DeleteUser [of st i] show ?thesis by simp
next
  case (transfer now a b st r st')
  with inv_accounts(5) [of st now a b] show ?thesis by simp
next
  case (createUser hashpw e n p ro st r st')
  with inv_accounts(6) [of st hashpw e n p ro] show ?thesis by simp
next
  case (createInvite now tok mailOk e ro b d st ri st')
  with inv_CreateInvite show ?thesis by blast
next
  case (revokeInvite now i st r0 st')
  with inv_RevokeInvite [of st now i] show ?thesis by simp
next
  case (accept now loc n cred st r st')
  with inv_acceptInvite [of st now loc n cred] show ?thesis by simp
next
  case (issue family st now minted uid tv ip ua rs st')
  with inv_IssueSession [of st now family minted uid tv ttl ip ua] show ?thesis by simp
next
  case (rotate now minted tok ip ua st err res st')
  with inv_rotateOnce [of st now ttl minted tok ip ua] show ?thesis by simp
next
  case (revokeAll now uid reason st r0 st')
  with inv_accounts(7) [of st now uid reason] show ?thesis by simp
next
  case (sweep now retain st k st')
  with inv_SweepIdentity [of st now retain] show ?thesis by simp
next
  case (scan us st)
  then show ?thesis by (auto intro!: invStep_same)
next
  case (touch now i st st')
  then show ?thesis by (auto simp: TouchSession_def intro!: invStep_same)
next
  case (revokeSession now uid i reason st r0 st')
  then show ?thesis by (auto simp: RevokeSession_def split: if_splits)
next
  case (logout now a rt reason st st')
  then show ?thesis by (auto simp: RevokeFamilyByTokens_def Let_def)
qed

lemma inv_run: "(idStep ttl)\<^sup>*\<^sup>* st st' \<Longrightarrow> invStep st st'"
  by (induction rule: rtranclp_induct) (auto intro: invStep_trans inv_step)

text \<open>
  C34.  An invitation is claimed at most once, for the role it was issued with.  When \<open>acceptInvite\<close>
  succeeds, it consumed one live invitation that matches the locator; the new account exists, has that
  invitation's role and is not the owner; and in no later database, whatever operations ran in
  between, is that invitation open again or does accepting it by id succeed.  At any time at most one
  invitation is open per address.
\<close>

theorem invitation_claimed_once:
  assumes "invInv st" "acceptInvite now loc name cred st = (Inr u, st')" "(idStep ttl)\<^sup>*\<^sup>* st' st''"
  shows "\<exists>v\<in>set (invites st). inviteLive now v \<and> (byToken loc = None \<or> byToken loc = Some (iToken v)) \<and>
    (byId loc = None \<or> byId loc = Some (iId v)) \<and>
    u \<in> set (users st') \<and> uRole u = iRole v \<and> uRole u \<noteq> RoleOwner \<and>
    list_all (\<lambda>w. iId w = iId v \<longrightarrow> \<not> inviteOpen w) (invites st'') \<and>
    \<not> isOk (fst (acceptInvite later \<lparr>byToken = None, byId = Some (iId v)\<rparr> name' cred' st'')) \<and>
    distinct (map iEmailNorm (filter inviteOpen (invites st'')))"
proof -
  from assms(2) obtain v u1 st1 where l: "lookupLiveInvite now loc st = Inr v"
    and ins: "insertAcceptedUser now (iEmail v) name cred (iRole v) st = Inr (u1, st1)"
    and c: "commitTx (uId u1) u1 (st1\<lparr>invites := map (\<lambda>w. if iId w = iId v
              then w\<lparr>iAccepted := Some now, iAcceptedUser := Some (uId u1)\<rparr> else w) (invites st1)\<rparr>) st = (Inr u, st')"
    by (auto simp: acceptInvite_def split: if_splits sum.splits option.splits)
  from c have u: "u = u1" and st': "st' = st1\<lparr>invites := map (\<lambda>w. if iId w = iId v
              then w\<lparr>iAccepted := Some now, iAcceptedUser := Some (uId u1)\<rparr> else w) (invites st1)\<rparr>"
    by (auto simp: commitTx_def split: option.splits if_splits)
  from l have v: "v \<in> set (invites st)" "inviteLive now v" "byToken loc = None \<or> byToken loc = Some (iToken v)"
    "byId loc = None \<or> byId loc = Some (iId v)"
    by (auto simp: lookupLiveInvite_def dest!: find_SomeD split: option.splits)
  note ui = insertAcceptedUser_inv [OF ins]
  have k: "iId v < inviteSeq st1" and r: "iRole v \<noteq> RoleOwner"
    using assms(1) v(1) insertAcceptedUser_frame(4) [OF ins] ui(1)
    by (auto simp: invStep_def invInv_def list_all_iff RoleOwner_def RoleAdmin_def RoleEditor_def RoleViewer_def)
  have "inviteClosed (iId v) st'" using k by (auto simp: st' inviteClosed_def list_all_iff inviteOpen_def)
  with inv_run [OF assms(3)] have cl: "inviteClosed (iId v) st''" by (simp add: invStep_def)
  have "invInv st'" using assms(1) ui(1) markAccepted_inv by (simp add: st' invStep_def)
  with inv_run [OF assms(3)] have "invInv st''" by (simp add: invStep_def)
  moreover have "lookupLiveInvite later \<lparr>byToken = None, byId = Some (iId v)\<rparr> st'' = Inl ErrInviteInvalid"
    using cl by (auto simp: lookupLiveInvite_def inviteClosed_def list_all_iff inviteLive_def find_None_iff split: option.splits
        dest!: find_SomeD)
  then have "\<not> isOk (fst (acceptInvite later \<lparr>byToken = None, byId = Some (iId v)\<rparr> name' cred' st''))"
    by (simp add: acceptInvite_def)
  ultimately show ?thesis
    using v u ui(2,3) r cl by (intro bexI [of _ v]) (auto simp: st' invInv_def inviteClosed_def)
qed

definition demoInvited :: identity where
  "demoInvited = snd (CreateInvite 10 ''tok'' True ''eve@example.org'' RoleEditor 1 1000 demoDb)"

lemma invitation_claimed_once_witness:
  "map iId (filter inviteOpen (invites demoInvited)) = [1] \<and>
   (\<exists>v\<in>set (invites demoInvited). iId v = 1 \<and>
     \<not> isOk (fst (acceptInvite 30 \<lparr>byToken = None, byId = Some (iId v)\<rparr> ''Eve'' \<lparr>icPassword = Some ''h'', icIdentity = None\<rparr>
       (snd (acceptInvite 20 \<lparr>byToken = Some ''tok'', byId = None\<rparr> ''Eve'' \<lparr>icPassword = Some ''h'', icIdentity = None\<rparr>
          demoInvited)))))"
proof -
  let ?loc = "\<lparr>byToken = Some ''tok'', byId = None\<rparr>" and ?c = "\<lparr>icPassword = Some ''h'', icIdentity = None\<rparr>"
  have i: "invInv demoDb" by (simp add: invInv_def demoDb_def)
  have inv: "invInv demoInvited"
    using inv_CreateInvite [OF prod.collapse [symmetric]] i unfolding demoInvited_def invStep_def by blast
  have "isOk (fst (acceptInvite 20 ?loc ''Eve'' ?c demoInvited))" by code_simp
  then obtain u where acc: "acceptInvite 20 ?loc ''Eve'' ?c demoInvited =
      (Inr u, snd (acceptInvite 20 ?loc ''Eve'' ?c demoInvited))"
    by (cases "acceptInvite 20 ?loc ''Eve'' ?c demoInvited"; cases "fst (acceptInvite 20 ?loc ''Eve'' ?c demoInvited)") auto
  from invitation_claimed_once [OF inv acc rtranclp.rtrancl_refl,
      where later = 30 and name' = "''Eve''" and cred' = ?c]
  have t: "\<exists>v\<in>set (invites demoInvited). \<not> isOk (fst (acceptInvite 30 \<lparr>byToken = None, byId = Some (iId v)\<rparr> ''Eve'' ?c
       (snd (acceptInvite 20 ?loc ''Eve'' ?c demoInvited))))"
    by blast
  have "map iId (filter inviteOpen (invites demoInvited)) = [1]" "map iId (invites demoInvited) = [1]" by code_simp+
  moreover from this(2) have "\<forall>v\<in>set (invites demoInvited). iId v = 1" by (auto simp: map_eq_Cons_conv)
  ultimately show ?thesis using t by blast
qed

end
