(* ===== verification/ApiTokens.thy ===== *)
theory ApiTokens
  imports Accounts
begin

text \<open>
  Bearer credentials, \<open>backend/internal/auth/repository_apitoken.go\<close>: their display form
  \<open>fx_<id>_<secret>\<close>, and the table they live in.  Hashing a secret (\<open>secrets.Hash\<close>, SHA-256) is the
  argument \<open>H\<close>.
\<close>

section \<open>The display form\<close>

definition APITokenPrefix :: string where
  "APITokenPrefix = ''fx_''"

definition ScopeContent :: string where
  "ScopeContent = ''content''"

definition maxTokensPerUser :: nat where
  "maxTokensPerUser = 1"

text \<open>\<open>strings.CutPrefix\<close>.\<close>

definition cutPrefix :: "string \<Rightarrow> string \<Rightarrow> string option" where
  "cutPrefix s p = (if take (length p) s = p then Some (drop (length p) s) else None)"

definition parseAPIToken :: "string \<Rightarrow> (int \<times> string) option" where
  "parseAPIToken presented =
     (case cutPrefix (goTrimSpace presented) APITokenPrefix of
        None \<Rightarrow> None
      | Some rest \<Rightarrow>
          (case splitFirst CHR ''_'' rest of
             None \<Rightarrow> None
           | Some (a, b) \<Rightarrow>
               if a = [] \<or> b = [] then None
               else (case parseInt64 a of
                       None \<Rightarrow> None
                     | Some i \<Rightarrow> if i \<le> 0 then None else Some (i, b))))"

definition displayAPIToken :: "int \<Rightarrow> string \<Rightarrow> string" where
  "displayAPIToken i raw = APITokenPrefix @ formatNat (nat i) @ ''_'' @ raw"

section \<open>The table\<close>

record apiToken =
  atId :: int
  atUser :: int
  atName :: string
  atHash :: string
  atScope :: string
  atCreated :: gotime
  atLastUsed :: "gotime option"
  atExpires :: "gotime option"
  atRevoked :: "gotime option"

record tokenDb =
  apiTokens :: "apiToken list"
  tokenSeq :: int

datatype tokenErr = ErrTokenInvalid | ErrTokenNotFound | ErrTooManyAPITokens | ErrTokenNoUser

text \<open>\<open>CreateAPIToken\<close> returns the row and the display form; \<open>raw\<close> is the fresh secret.\<close>

definition CreateAPIToken ::
  "(string \<Rightarrow> string) \<Rightarrow> gotime \<Rightarrow> string \<Rightarrow> int \<Rightarrow> string \<Rightarrow> duration \<Rightarrow> identity \<Rightarrow> tokenDb \<Rightarrow>
   (tokenErr + apiToken \<times> string) \<times> tokenDb" where
  "CreateAPIToken H now raw uid name ttl st db =
     (case userById uid st of
        None \<Rightarrow> (Inl ErrTokenNoUser, db)
      | Some _ \<Rightarrow>
          if maxTokensPerUser \<le> length (filter (\<lambda>t. atUser t = uid \<and> atRevoked t = None) (apiTokens db))
          then (Inl ErrTooManyAPITokens, db)
          else let t = \<lparr>atId = tokenSeq db, atUser = uid, atName = name, atHash = H raw,
                        atScope = ScopeContent, atCreated = now, atLastUsed = None,
                        atExpires = (if 0 < ttl then Some (now + ttl) else None), atRevoked = None\<rparr>
               in (Inr (t, displayAPIToken (atId t) raw),
                   db\<lparr>apiTokens := apiTokens db @ [t], tokenSeq := tokenSeq db + 1\<rparr>))"

definition tokenUsable :: "gotime \<Rightarrow> apiToken \<Rightarrow> bool" where
  "tokenUsable now t = (atRevoked t = None \<and> (case atExpires t of None \<Rightarrow> True | Some e \<Rightarrow> now < e))"

definition ResolveAPIToken ::
  "(string \<Rightarrow> string) \<Rightarrow> gotime \<Rightarrow> string \<Rightarrow> identity \<Rightarrow> tokenDb \<Rightarrow> tokenErr + principal" where
  "ResolveAPIToken H now presented st db =
     (case parseAPIToken presented of
        None \<Rightarrow> Inl ErrTokenInvalid
      | Some (i, secret) \<Rightarrow>
          (case find (\<lambda>t. atId t = i \<and> tokenUsable now t \<and> userById (atUser t) st \<noteq> None) (apiTokens db) of
             None \<Rightarrow> Inl ErrTokenInvalid
           | Some t \<Rightarrow>
               (case userById (atUser t) st of
                  None \<Rightarrow> Inl ErrTokenInvalid
                | Some u \<Rightarrow>
                    if H secret \<noteq> atHash t then Inl ErrTokenInvalid
                    else if uStatus u \<noteq> StatusActive then Inl ErrTokenInvalid
                    else Inr \<lparr>prUser = atUser t, prRole = uRole u, prSession = 0, prToken = i,
                              prVia = ViaAPIToken\<rparr>)))"

definition TouchAPIToken :: "gotime \<Rightarrow> int \<Rightarrow> tokenDb \<Rightarrow> tokenDb" where
  "TouchAPIToken now i db =
     db\<lparr>apiTokens := map (\<lambda>t. if atId t = i then t\<lparr>atLastUsed := Some now\<rparr> else t) (apiTokens db)\<rparr>"

definition ListAPITokens :: "int \<Rightarrow> tokenDb \<Rightarrow> apiToken list" where
  "ListAPITokens uid db =
     rev (sort_key atCreated (filter (\<lambda>t. atUser t = uid \<and> atRevoked t = None) (apiTokens db)))"

definition RevokeAPIToken :: "gotime \<Rightarrow> int \<Rightarrow> int \<Rightarrow> tokenDb \<Rightarrow> (tokenErr + unit) \<times> tokenDb" where
  "RevokeAPIToken now uid i db =
     (if \<exists>t\<in>set (apiTokens db). atId t = i \<and> atUser t = uid \<and> atRevoked t = None
      then (Inr (), db\<lparr>apiTokens := map (\<lambda>t. if atId t = i \<and> atUser t = uid \<and> atRevoked t = None
                                              then t\<lparr>atRevoked := Some now\<rparr> else t) (apiTokens db)\<rparr>)
      else (Inl ErrTokenNotFound, db))"

definition SweepAPITokens :: "gotime \<Rightarrow> duration \<Rightarrow> tokenDb \<Rightarrow> nat \<times> tokenDb" where
  "SweepAPITokens now retain db =
     (let dead = (\<lambda>t. (case atRevoked t of None \<Rightarrow> False | Some x \<Rightarrow> x < now - retain) \<or>
                      (case atExpires t of None \<Rightarrow> False | Some x \<Rightarrow> x < now - retain))
      in (length (filter dead (apiTokens db)), db\<lparr>apiTokens := filter (\<lambda>t. \<not> dead t) (apiTokens db)\<rparr>))"

section \<open>Properties\<close>

lemma cutPrefix_append [simp]: "cutPrefix (p @ s) p = Some s"
  by (simp add: cutPrefix_def)

text \<open>
  The display form of a token parses back to what it was made of: for every positive 64-bit id
  and every non-empty secret that does not end in white space (base64url never does), even one that
  itself contains the separator.
\<close>

theorem api_token_roundtrip:
  assumes "0 < i" "i < 2 ^ 63" "raw \<noteq> []" "\<not> isGoSpace (last raw)"
  shows "parseAPIToken (displayAPIToken i raw) = Some (i, raw)"
proof -
  have t: "goTrimSpace (displayAPIToken i raw) = displayAPIToken i raw"
    using assms(3,4) by (intro goTrimSpace_solid) (simp_all add: displayAPIToken_def APITokenPrefix_def isGoSpace_def)
  have "CHR ''_'' \<notin> set (formatNat (nat i))"
  proof
    assume "CHR ''_'' \<in> set (formatNat (nat i))"
    from formatNat_range [OF this] show False by simp
  qed
  then have "splitFirst CHR ''_'' (formatNat (nat i) @ CHR ''_'' # raw) = Some (formatNat (nat i), raw)"
    by (rule splitFirst_append)
  moreover have "parseInt64 (formatNat (nat i)) = Some i"
    using parseInt64_format [of "nat i"] assms(1,2) by simp
  moreover have "displayAPIToken i raw = APITokenPrefix @ (formatNat (nat i) @ CHR ''_'' # raw)"
    by (simp add: displayAPIToken_def)
  ultimately show ?thesis
    unfolding parseAPIToken_def t using assms(1,3) by (simp only: cutPrefix_append) (simp add: formatNat_nonempty)
qed

lemma api_token_roundtrip_witness:
  "parseAPIToken (displayAPIToken 1042 ''a_b-c'') = Some (1042, ''a_b-c'')"
  by (rule api_token_roundtrip) (simp_all add: isGoSpace_def)

text \<open>Every operation on the token table, by anybody and with any arguments.\<close>

inductive tokStep :: "tokenDb \<Rightarrow> tokenDb \<Rightarrow> bool" where
  create: "CreateAPIToken H now raw uid name ttl st db = (r, db') \<Longrightarrow> tokStep db db'"
| touch: "tokStep db (TouchAPIToken now i db)"
| revoke: "RevokeAPIToken now uid i db = (r0, db') \<Longrightarrow> tokStep db db'"
| sweep: "SweepAPITokens now retain db = (k, db') \<Longrightarrow> tokStep db db'"

definition liveTokens :: "int \<Rightarrow> tokenDb \<Rightarrow> nat" where
  "liveTokens uid db = length (filter (\<lambda>t. atUser t = uid \<and> atRevoked t = None) (apiTokens db))"

lemma liveTokens_map:
  assumes "\<And>t. atUser (f t) = atUser t \<and> (atRevoked (f t) = None \<longrightarrow> atRevoked t = None)"
  shows "length (filter (\<lambda>t. atUser t = uid \<and> atRevoked t = None) (map f ts)) \<le>
    length (filter (\<lambda>t. atUser t = uid \<and> atRevoked t = None) ts)"
  using assms by (induction ts) (auto simp: le_SucI)

lemma tokStep_live:
  assumes "tokStep db db'" "\<forall>u. liveTokens u db \<le> maxTokensPerUser"
  shows "liveTokens u db' \<le> maxTokensPerUser"
  using assms
proof cases
  case (create H now raw uid name ttl st r)
  with assms(2) show ?thesis
    by (auto simp: CreateAPIToken_def liveTokens_def Let_def split: option.splits if_splits)
next
  case (touch now i)
  have "liveTokens u db' \<le> liveTokens u db"
  proof -
    have e: "apiTokens db' = map (\<lambda>t. if atId t = i then t\<lparr>atLastUsed := Some now\<rparr> else t) (apiTokens db)"
      using touch by (simp add: TouchAPIToken_def)
    show ?thesis unfolding liveTokens_def e by (rule liveTokens_map) simp
  qed
  with assms(2) show ?thesis using le_trans by blast
next
  case (revoke now uid i r0)
  have "liveTokens u db' \<le> liveTokens u db"
  proof (cases "\<exists>t\<in>set (apiTokens db). atId t = i \<and> atUser t = uid \<and> atRevoked t = None")
    case True
    with revoke have e: "apiTokens db' = map (\<lambda>t. if atId t = i \<and> atUser t = uid \<and> atRevoked t = None
        then t\<lparr>atRevoked := Some now\<rparr> else t) (apiTokens db)" by (auto simp: RevokeAPIToken_def)
    show ?thesis unfolding liveTokens_def e by (rule liveTokens_map) simp
  next
    case False
    with revoke show ?thesis by (simp add: RevokeAPIToken_def)
  qed
  with assms(2) show ?thesis using le_trans by blast
next
  case (sweep now retain k)
  have "liveTokens u db' \<le> liveTokens u db"
  proof -
    have "\<exists>P. apiTokens db' = filter P (apiTokens db)" using sweep by (auto simp: SweepAPITokens_def Let_def)
    then obtain P where "apiTokens db' = filter P (apiTokens db)" ..
    then show ?thesis unfolding liveTokens_def by (simp only: length_filter_filter_le)
  qed
  with assms(2) show ?thesis using le_trans by blast
qed

text \<open>
  C38.  One bearer credential per account: after any sequence of operations on an empty token table no
  account holds more than one token that is not revoked; and a bearer value resolves only to an
  account that is active, with the account's current role, through a token of that account that is
  neither revoked nor expired and whose stored hash is the hash of the presented secret.
\<close>

theorem api_token_is_single_and_live:
  assumes "tokStep\<^sup>*\<^sup>* \<lparr>apiTokens = [], tokenSeq = 1\<rparr> db" "ResolveAPIToken H now presented st db = Inr p"
  shows "liveTokens uid db \<le> 1 \<and> prVia p = ViaAPIToken \<and> prSession p = 0 \<and>
    (\<exists>u. userById (prUser p) st = Some u \<and> uStatus u = StatusActive \<and> uRole u = prRole p) \<and>
    (\<exists>t\<in>set (apiTokens db). atId t = prToken p \<and> atUser t = prUser p \<and> tokenUsable now t \<and>
      (case parseAPIToken presented of None \<Rightarrow> False | Some (i, secret) \<Rightarrow> i = atId t \<and> H secret = atHash t))"
proof -
  have "\<forall>u. liveTokens u db \<le> maxTokensPerUser"
    using assms(1)
  proof (induction rule: rtranclp_induct)
    case base
    then show ?case by (simp add: liveTokens_def)
  next
    case (step y z)
    then show ?case using tokStep_live by blast
  qed
  then have cap: "liveTokens uid db \<le> 1" by (simp add: maxTokensPerUser_def)
  from assms(2) obtain i secret t u where r: "parseAPIToken presented = Some (i, secret)"
    "find (\<lambda>t. atId t = i \<and> tokenUsable now t \<and> userById (atUser t) st \<noteq> None) (apiTokens db) = Some t"
    "userById (atUser t) st = Some u" "H secret = atHash t" "uStatus u = StatusActive"
    "p = \<lparr>prUser = atUser t, prRole = uRole u, prSession = 0, prToken = i, prVia = ViaAPIToken\<rparr>"
    unfolding ResolveAPIToken_def by (auto split: option.splits if_splits)
  note f = find_SomeD [OF r(2)]
  from cap r(1,3-6) f show ?thesis by (intro conjI bexI [of _ t]) simp_all
qed

definition demoTokens :: tokenDb where
  "demoTokens = snd (CreateAPIToken rev 10 ''abc'' 1 ''ext'' 0 demoDb \<lparr>apiTokens = [], tokenSeq = 1\<rparr>)"

lemma api_token_is_single_and_live_witness:
  "liveTokens 1 demoTokens = 1 \<and> (\<exists>p. ResolveAPIToken rev 20 ''fx_1_abc'' demoDb demoTokens = Inr p \<and>
     prVia p = ViaAPIToken \<and> prUser p = 1)"
proof -
  have s: "tokStep\<^sup>*\<^sup>* \<lparr>apiTokens = [], tokenSeq = 1\<rparr> demoTokens"
    unfolding demoTokens_def by (rule r_into_rtranclp, rule tokStep.create [OF prod.collapse [symmetric]])
  have c: "isOk (ResolveAPIToken rev 20 ''fx_1_abc'' demoDb demoTokens)" "liveTokens 1 demoTokens = 1"
    "map_option prUser (case ResolveAPIToken rev 20 ''fx_1_abc'' demoDb demoTokens of Inl _ \<Rightarrow> None | Inr p \<Rightarrow> Some p) = Some 1"
    by code_simp+
  then obtain p where p: "ResolveAPIToken rev 20 ''fx_1_abc'' demoDb demoTokens = Inr p"
    by (cases "ResolveAPIToken rev 20 ''fx_1_abc'' demoDb demoTokens") auto
  from api_token_is_single_and_live [OF s p] c p show ?thesis by simp
qed

end
