(* ===== verification/Gates.thy ===== *)
theory Gates
  imports ApiTokens
begin

text \<open>
  What stands between a request and a handler: \<open>auth/middleware.go\<close> (credential resolution, CSRF,
  activity throttle, administrator gate), \<open>pkg/authgate\<close> and the chain \<open>server/mount.go\<close> mounts in
  front of the administration surface.

  A handler maps a request and the server's state to a response and a state; a middleware wraps a
  handler.  A middleware that refuses never applies \<open>next\<close>, so a theorem about every \<open>next\<close> says when
  the handler behind it can run.
\<close>

section \<open>Requests and state\<close>

record request =
  rqMethod :: string
  rqAccessCookie :: string
  rqAuthHeader :: string
  rqCsrfHeader :: string
  rqPrincipal :: "principal option"

record response =
  rsStatus :: int
  rsCode :: string
  rsClearSession :: bool

record gateState =
  gsDb :: identity
  gsTokens :: tokenDb
  gsTouch :: "((string \<times> int) \<times> gotime) list"
  gsBoot :: int

type_synonym handler = "request \<Rightarrow> gateState \<Rightarrow> response \<times> gateState"

definition refuse :: "int \<Rightarrow> string \<Rightarrow> response" where
  "refuse status code = \<lparr>rsStatus = status, rsCode = code, rsClearSession = False\<rparr>"

definition WithPrincipal :: "principal \<Rightarrow> request \<Rightarrow> request" where
  "WithPrincipal p rq = rq\<lparr>rqPrincipal := Some p\<rparr>"

definition FromContext :: "request \<Rightarrow> principal option" where
  "FromContext rq = rqPrincipal rq"

section \<open>The activity throttle\<close>

definition touchInterval :: duration where
  "touchInterval = minute"

definition shouldTouch :: "gotime \<Rightarrow> string \<times> int \<Rightarrow> gateState \<Rightarrow> bool \<times> gateState" where
  "shouldTouch now k st =
     (if (case map_of (gsTouch st) k of None \<Rightarrow> False | Some seen \<Rightarrow> now - seen < touchInterval)
      then (False, st)
      else (True, st\<lparr>gsTouch := AList.update k now (gsTouch st)\<rparr>))"

definition maybeTouch :: "gotime \<Rightarrow> int \<Rightarrow> gateState \<Rightarrow> gateState" where
  "maybeTouch now sid st =
     (case shouldTouch now (ViaSession, sid) st of
        (due, st') \<Rightarrow> if due then st'\<lparr>gsDb := TouchSession now sid (gsDb st')\<rparr> else st')"

definition touchPrincipal :: "gotime \<Rightarrow> principal \<Rightarrow> gateState \<Rightarrow> gateState" where
  "touchPrincipal now p st =
     (if prVia p = ViaAPIToken
      then (case shouldTouch now (ViaAPIToken, prToken p) st of
              (due, st') \<Rightarrow> if due then st'\<lparr>gsTokens := TouchAPIToken now (prToken p) (gsTokens st')\<rparr> else st')
      else maybeTouch now (prSession p) st)"

definition forgetTouch :: "int \<Rightarrow> gateState \<Rightarrow> gateState" where
  "forgetTouch sid st = st\<lparr>gsTouch := AList.delete (ViaSession, sid) (gsTouch st)\<rparr>"

definition SweepTouch :: "gotime \<Rightarrow> duration \<Rightarrow> gateState \<Rightarrow> nat \<times> gateState" where
  "SweepTouch now olderThan st =
     (let cutoff = now - olderThan
      in (length (filter (\<lambda>(k, seen). seen < cutoff) (gsTouch st)),
          st\<lparr>gsTouch := filter (\<lambda>(k, seen). \<not> seen < cutoff) (gsTouch st)\<rparr>))"

section \<open>Resolving the credential\<close>

definition isSafeMethod :: "string \<Rightarrow> bool" where
  "isSafeMethod m = (map (\<lambda>c. if 97 \<le> (of_char c :: nat) \<and> (of_char c :: nat) \<le> 122
                              then char_of ((of_char c :: nat) - 32) else c) m
                     \<in> {''GET'', ''HEAD'', ''OPTIONS''})"

definition bearerToken :: "string \<Rightarrow> string option" where
  "bearerToken h =
     (let scheme = ''bearer '' in
      if length h < length scheme \<or> goToLower (take (length scheme) h) \<noteq> scheme then None
      else let rest = goTrimSpace (drop (length scheme) h)
           in if rest = [] then None else Some rest)"

datatype resolveErr = NoCredential | SessionRefused authErr | TokenRefused tokenErr

definition resolveRequest ::
  "(string \<Rightarrow> string) \<Rightarrow> gotime \<Rightarrow> request \<Rightarrow> gateState \<Rightarrow> resolveErr + principal \<times> string option" where
  "resolveRequest H now rq st =
     (if rqAccessCookie rq \<noteq> []
      then (case ResolveAccess now (H (rqAccessCookie rq)) (gsDb st) of
              Inl e \<Rightarrow> Inl (SessionRefused e)
            | Inr (p, csrf) \<Rightarrow> Inr (p, Some csrf))
      else (case bearerToken (rqAuthHeader rq) of
              None \<Rightarrow> Inl NoCredential
            | Some bearer \<Rightarrow>
                (case ResolveAPIToken H now bearer (gsDb st) (gsTokens st) of
                   Inl e \<Rightarrow> Inl (TokenRefused e)
                 | Inr p \<Rightarrow> Inr (p, None))))"

definition verifyCSRF :: "(string \<Rightarrow> string) \<Rightarrow> request \<Rightarrow> principal \<Rightarrow> string option \<Rightarrow> response option" where
  "verifyCSRF H rq p csrfHash =
     (if isSafeMethod (rqMethod rq) then None
      else if prVia p \<noteq> ViaSession then None
      else if rqCsrfHeader rq = [] \<or> csrfHash \<noteq> Some (H (rqCsrfHeader rq))
      then Some (refuse 403 ''csrf_failed'')
      else None)"

definition Authenticate :: "(string \<Rightarrow> string) \<Rightarrow> gotime \<Rightarrow> handler \<Rightarrow> handler" where
  "Authenticate H now next rq st =
     (case resolveRequest H now rq st of
        Inl e \<Rightarrow> ((refuse 401 ''unauthorized'')\<lparr>rsClearSession := (e \<noteq> NoCredential)\<rparr>, st)
      | Inr (p, csrfHash) \<Rightarrow>
          (case verifyCSRF H rq p csrfHash of
             Some resp \<Rightarrow> (resp, st)
           | None \<Rightarrow> next (WithPrincipal p rq) (touchPrincipal now p st)))"

definition Optional :: "(string \<Rightarrow> string) \<Rightarrow> gotime \<Rightarrow> handler \<Rightarrow> handler" where
  "Optional H now next rq st =
     (case resolveRequest H now rq st of
        Inl e \<Rightarrow> next rq st
      | Inr (p, csrfHash) \<Rightarrow>
          (case verifyCSRF H rq p csrfHash of
             Some resp \<Rightarrow> (resp, st)
           | None \<Rightarrow> next (WithPrincipal p rq) st))"

section \<open>Gates\<close>

definition RequireAdmin :: "handler \<Rightarrow> handler" where
  "RequireAdmin next rq st =
     (case FromContext rq of
        None \<Rightarrow> (refuse 404 ''not_found'', st)
      | Some p \<Rightarrow> if \<not> IsAdmin (prRole p) then (refuse 404 ''not_found'', st) else next rq st)"

text \<open>A nil matrix is \<open>None\<close>.\<close>

definition RequirePermission :: "(role \<Rightarrow> permission \<Rightarrow> bool) option \<Rightarrow> permission \<Rightarrow> handler \<Rightarrow> handler" where
  "RequirePermission g p next rq st =
     (if (case FromContext rq of
            None \<Rightarrow> True
          | Some pr \<Rightarrow> (case g of None \<Rightarrow> True | Some can \<Rightarrow> \<not> can (prRole pr) p))
      then (refuse 403 ''forbidden_role'', st)
      else next rq st)"

definition RequireWrite :: "(role \<Rightarrow> permission \<Rightarrow> bool) option \<Rightarrow> permission \<Rightarrow> handler \<Rightarrow> handler" where
  "RequireWrite g p next rq st =
     (if rqMethod rq \<in> {''GET'', ''HEAD'', ''OPTIONS''} then next rq st
      else RequirePermission g p next rq st)"

definition RejectAPIToken :: "handler \<Rightarrow> handler" where
  "RejectAPIToken next rq st =
     (case FromContext rq of
        Some p \<Rightarrow> if prVia p = ViaAPIToken then (refuse 403 ''token_scope'', st) else next rq st
      | None \<Rightarrow> next rq st)"

text \<open>
  The administrator gate of the middleware: with the policy on, a confirmed second factor as well.
  \<open>totpPolicy\<close> is the optional \<open>adminFactorMode\<close>, \<open>confirmed uid totpOnly\<close> the repository's
  \<open>HasConfirmedSecondFactor\<close>, \<open>None\<close> when its query fails.
\<close>

definition requireTOTPForAdmins :: "bool option \<Rightarrow> bool" where
  "requireTOTPForAdmins totpPolicy = (case totpPolicy of None \<Rightarrow> False | Some b \<Rightarrow> b)"

definition MwRequireAdmin ::
  "bool \<Rightarrow> bool option \<Rightarrow> (int \<Rightarrow> bool \<Rightarrow> bool option) \<Rightarrow> handler \<Rightarrow> handler" where
  "MwRequireAdmin require2FA totpPolicy confirmed next =
     RequireAdmin (\<lambda>rq st.
       if require2FA
       then (case confirmed (case FromContext rq of Some p \<Rightarrow> prUser p | None \<Rightarrow> 0)
                     (requireTOTPForAdmins totpPolicy) of
               None \<Rightarrow> (refuse 500 ''internal'', st)
             | Some ok \<Rightarrow> if \<not> ok then (refuse 403 ''admin_2fa_required'', st) else next rq st)
       else next rq st)"

text \<open>
  With \<open>AUTH_ENABLED=0\<close> nobody signs in: every request is attributed to one administrator, an active
  owner first, then the active administrator of the lowest id.  \<open>gsBoot\<close> is the cached id, 0 before the first
  success; \<open>up\<close> says whether the database answers.
\<close>

definition bootstrapAdmin :: "identity \<Rightarrow> int option" where
  "bootstrapAdmin st =
     (let active = (\<lambda>r. lowestId (filter (\<lambda>u. uRole u = r \<and> uStatus u = StatusActive) (users st)))
      in case active RoleOwner of
           Some u \<Rightarrow> Some (uId u)
         | None \<Rightarrow> map_option uId (active RoleAdmin))"

definition bootstrapPrincipal :: "bool \<Rightarrow> handler \<Rightarrow> handler" where
  "bootstrapPrincipal up next rq st =
     (case (if gsBoot st \<noteq> 0 then Some (gsBoot st) else if up then bootstrapAdmin (gsDb st) else None) of
        None \<Rightarrow> (refuse 503 ''principal_unavailable'', st)
      | Some i \<Rightarrow>
          next (WithPrincipal \<lparr>prUser = i, prRole = RoleOwner, prSession = 0, prToken = 0, prVia = ViaSession\<rparr> rq)
               (st\<lparr>gsBoot := i\<rparr>))"

text \<open>
  The administration surface as mounted: the principal, the administrator gate, the token gate, and
  one route gated on one permission.  The two switches on \<open>AUTH_ENABLED\<close> choose who the principal is and whether
  the second factor is asked for.  The request quota and the content audit in between are not modelled.
\<close>

definition principalStack :: "bool \<Rightarrow> bool \<Rightarrow> (string \<Rightarrow> string) \<Rightarrow> gotime \<Rightarrow> handler \<Rightarrow> handler" where
  "principalStack authEnabled up H now next =
     (if authEnabled then Authenticate H now next else bootstrapPrincipal up next)"

definition adminRoute ::
  "bool \<Rightarrow> bool \<Rightarrow> (string \<Rightarrow> string) \<Rightarrow> gotime \<Rightarrow> bool \<Rightarrow> bool option \<Rightarrow> (int \<Rightarrow> bool \<Rightarrow> bool option) \<Rightarrow>
   (role \<Rightarrow> permission \<Rightarrow> bool) option \<Rightarrow> permission \<Rightarrow> handler \<Rightarrow> handler" where
  "adminRoute authEnabled up H now require2FA totpPolicy confirmed g p h =
     principalStack authEnabled up H now
       ((if authEnabled then MwRequireAdmin require2FA totpPolicy confirmed else RequireAdmin)
          (RejectAPIToken (RequirePermission g p h)))"

section \<open>The contract of the credential store\<close>

text \<open>
  What the middleware relies on in \<open>sessionLookup\<close>: each kind of credential marks its principal, and
  both refuse an account that is not active.
\<close>

locale session_lookup =
  fixes resolveAccess :: "gotime \<Rightarrow> string \<Rightarrow> 'db \<Rightarrow> 'e + principal \<times> string"
    and resolveToken :: "gotime \<Rightarrow> string \<Rightarrow> 'db \<Rightarrow> 'f + principal"
    and activeAs :: "'db \<Rightarrow> int \<Rightarrow> role \<Rightarrow> bool"
  assumes access_principal: "resolveAccess now tok db = Inr (p, csrf) \<Longrightarrow>
      prVia p = ViaSession \<and> prToken p = 0 \<and> activeAs db (prUser p) (prRole p)"
    and token_principal: "resolveToken now tok db = Inr p \<Longrightarrow>
      prVia p = ViaAPIToken \<and> prSession p = 0 \<and> activeAs db (prUser p) (prRole p)"
begin

text \<open>Either credential identifies an active account with its current role, and says which kind it is.\<close>

lemma principal_is_current:
  "resolveAccess now tok db = Inr (p, csrf) \<or> resolveToken now tok db = Inr p \<Longrightarrow>
   activeAs db (prUser p) (prRole p) \<and> (prVia p = ViaSession \<or> prVia p = ViaAPIToken)"
  using access_principal token_principal by metis

lemma csrf_applies:
  "resolveAccess now tok db = Inr (p, csrf) \<Longrightarrow> prVia p \<noteq> ViaAPIToken"
  using access_principal by (fastforce simp: ViaSession_def ViaAPIToken_def)

end

definition accountActiveAs :: "identity \<Rightarrow> int \<Rightarrow> role \<Rightarrow> bool" where
  "accountActiveAs st i r =
     (case userById i st of None \<Rightarrow> False | Some u \<Rightarrow> uStatus u = StatusActive \<and> uRole u = r)"

lemma ResolveAPIToken_Inr:
  assumes "ResolveAPIToken H now presented st db = Inr p"
  shows "prVia p = ViaAPIToken" "prSession p = 0" "accountActiveAs st (prUser p) (prRole p)"
  using assms by (auto simp: ResolveAPIToken_def accountActiveAs_def split: option.splits if_splits)

interpretation store: session_lookup
  "\<lambda>now tok db. ResolveAccess now (H tok) (fst db)"
  "\<lambda>now tok db. ResolveAPIToken H now tok (fst db) (snd db)"
  "\<lambda>db. accountActiveAs (fst db)" for H
proof unfold_locales
  fix now tok p csrf and db :: "identity \<times> tokenDb"
  assume "ResolveAccess now (H tok) (fst db) = Inr (p, csrf)"
  then show "prVia p = ViaSession \<and> prToken p = 0 \<and> accountActiveAs (fst db) (prUser p) (prRole p)"
    by (rule ResolveAccess_Inr) (simp add: accountActiveAs_def)
next
  fix now tok p and db :: "identity \<times> tokenDb"
  assume "ResolveAPIToken H now tok (fst db) (snd db) = Inr p"
  from ResolveAPIToken_Inr [OF this]
  show "prVia p = ViaAPIToken \<and> prSession p = 0 \<and> accountActiveAs (fst db) (prUser p) (prRole p)" by simp
qed

section \<open>Properties\<close>

lemma resolveRequest_Inr:
  assumes "resolveRequest H now rq st = Inr (p, csrf)"
  shows "accountActiveAs (gsDb st) (prUser p) (prRole p)"
    "prVia p = ViaSession \<or> prVia p = ViaAPIToken"
    "prVia p = ViaSession \<Longrightarrow> \<exists>s\<in>set (sessions (gsDb st)). sessionLive now s \<and> sId s = prSession p \<and>
       sUser s = prUser p \<and> csrf = Some (sCsrf s)"
proof -
  let ?db = "(gsDb st, gsTokens st)"
  consider (access) c where "ResolveAccess now (H (rqAccessCookie rq)) (fst ?db) = Inr (p, c)" "csrf = Some c"
    | (token) b where "ResolveAPIToken H now b (fst ?db) (snd ?db) = Inr p"
    using assms by (auto simp: resolveRequest_def split: if_splits sum.splits option.splits)
  then have r: "accountActiveAs (gsDb st) (prUser p) (prRole p) \<and> (prVia p = ViaSession \<or> prVia p = ViaAPIToken) \<and>
    (prVia p = ViaSession \<longrightarrow> (\<exists>s\<in>set (sessions (gsDb st)). sessionLive now s \<and> sId s = prSession p \<and>
       sUser s = prUser p \<and> csrf = Some (sCsrf s)))"
  proof cases
    case access
    have "\<exists>s\<in>set (sessions (gsDb st)). sessionLive now s \<and> sId s = prSession p \<and> sUser s = prUser p \<and> csrf = Some (sCsrf s)"
      using access(1) by (rule ResolveAccess_Inr) (use access(2) in \<open>auto intro!: bexI\<close>)
    moreover have "accountActiveAs (fst ?db) (prUser p) (prRole p) \<and> (prVia p = ViaSession \<or> prVia p = ViaAPIToken)"
      using store.principal_is_current [where H = H and tok = "rqAccessCookie rq" and db = ?db] access(1) by blast
    ultimately show ?thesis by simp
  next
    case token
    then have "accountActiveAs (fst ?db) (prUser p) (prRole p) \<and> (prVia p = ViaSession \<or> prVia p = ViaAPIToken)"
      using store.principal_is_current [where H = H and tok = b and db = ?db] by blast
    moreover have "prVia p \<noteq> ViaSession"
      using store.token_principal [where H = H and tok = b and db = ?db] token by (simp add: ViaSession_def ViaAPIToken_def)
    ultimately show ?thesis by simp
  qed
  then show "accountActiveAs (gsDb st) (prUser p) (prRole p)" "prVia p = ViaSession \<or> prVia p = ViaAPIToken"
    "prVia p = ViaSession \<Longrightarrow> \<exists>s\<in>set (sessions (gsDb st)). sessionLive now s \<and> sId s = prSession p \<and>
       sUser s = prUser p \<and> csrf = Some (sCsrf s)" by simp_all
qed

text \<open>
  C7.  Authentication fails closed.  For every request and every state, either \<open>Authenticate\<close> answers
  401 or 403 by itself, the same whatever handler it protects and with nothing changed; or it runs the
  handler with a principal whose account is active and whose role is the account's current one, and,
  when the method is unsafe and the credential a cookie session, only after the CSRF header hashed to
  the value stored with that very session, which is live.
\<close>

theorem authentication_fails_closed:
  "(\<exists>resp. rsStatus resp \<in> {401, 403} \<and> (\<forall>next. Authenticate H now next rq st = (resp, st))) \<or>
   (\<exists>p. (\<forall>next. Authenticate H now next rq st = next (WithPrincipal p rq) (touchPrincipal now p st)) \<and>
      accountActiveAs (gsDb st) (prUser p) (prRole p) \<and>
      (if isSafeMethod (rqMethod rq) then True
       else prVia p = ViaAPIToken \<or>
         (\<exists>s\<in>set (sessions (gsDb st)). sessionLive now s \<and> sId s = prSession p \<and> sUser s = prUser p \<and>
            rqCsrfHeader rq \<noteq> [] \<and> sCsrf s = H (rqCsrfHeader rq))))"
proof (cases "resolveRequest H now rq st")
  case (Inl e)
  then show ?thesis
    by (intro disjI1 exI [of _ "(refuse 401 ''unauthorized'')\<lparr>rsClearSession := (e \<noteq> NoCredential)\<rparr>"])
      (simp add: Authenticate_def refuse_def)
next
  case (Inr pc)
  obtain p csrf where pc: "pc = (p, csrf)" by (cases pc)
  note r = resolveRequest_Inr [OF Inr [unfolded pc]]
  show ?thesis
  proof (cases "verifyCSRF H rq p csrf")
    case (Some resp)
    then have "rsStatus resp = 403" by (auto simp: verifyCSRF_def refuse_def split: if_splits)
    with Inr pc Some show ?thesis by (intro disjI1 exI [of _ resp]) (simp add: Authenticate_def)
  next
    case None
    have "prVia p = ViaAPIToken \<or> (\<exists>s\<in>set (sessions (gsDb st)). sessionLive now s \<and> sId s = prSession p \<and>
        sUser s = prUser p \<and> rqCsrfHeader rq \<noteq> [] \<and> sCsrf s = H (rqCsrfHeader rq))"
      if "\<not> isSafeMethod (rqMethod rq)"
      using None that r(2,3) by (auto simp: verifyCSRF_def split: if_splits)
    with Inr pc None r(1) show ?thesis
      by (intro disjI2 exI [of _ p]) (simp add: Authenticate_def)
  qed
qed

lemma bootstrapAdmin_Some:
  assumes "bootstrapAdmin st = Some i"
  shows "\<exists>u\<in>set (users st). uId u = i \<and> uStatus u = StatusActive \<and> IsAdmin (uRole u)"
  using assms by (auto simp: bootstrapAdmin_def Let_def IsAdmin_def split: option.splits dest!: lowestId_mem)

text \<open>With signing in switched off, the surface is behind the bootstrap principal alone.\<close>

lemma adminRoute_open:
  "(\<exists>resp st'. \<forall>h. adminRoute False up H now require2FA totpPolicy confirmed g perm h rq st = (resp, st')) \<or>
   (\<exists>p st'. (\<forall>h. adminRoute False up H now require2FA totpPolicy confirmed g perm h rq st = h (WithPrincipal p rq) st') \<and>
      prRole p = RoleOwner \<and> prVia p = ViaSession \<and>
      (prUser p = gsBoot st \<or> (\<exists>u\<in>set (users (gsDb st)). uId u = prUser p \<and> uStatus u = StatusActive \<and> IsAdmin (uRole u))))"
proof -
  let ?i = "if gsBoot st \<noteq> 0 then Some (gsBoot st) else if up then bootstrapAdmin (gsDb st) else None"
  let ?p = "\<lambda>i. \<lparr>prUser = i, prRole = RoleOwner, prSession = 0, prToken = 0, prVia = ViaSession\<rparr>"
  have o: "IsAdmin RoleOwner" "ViaSession \<noteq> ViaAPIToken" by (simp_all add: IsAdmin_def ViaSession_def ViaAPIToken_def)
  show ?thesis
  proof (cases ?i)
    case None
    then show ?thesis by (simp add: adminRoute_def principalStack_def bootstrapPrincipal_def)
  next
    case (Some i)
    have w: "i = gsBoot st \<or> (\<exists>u\<in>set (users (gsDb st)). uId u = i \<and> uStatus u = StatusActive \<and> IsAdmin (uRole u))"
      using Some bootstrapAdmin_Some by (auto split: if_splits)
    have a: "adminRoute False up H now require2FA totpPolicy confirmed g perm h rq st =
        RequirePermission g perm h (WithPrincipal (?p i) rq) (st\<lparr>gsBoot := i\<rparr>)" for h
      using Some o by (simp add: adminRoute_def principalStack_def bootstrapPrincipal_def RequireAdmin_def RejectAPIToken_def
          FromContext_def WithPrincipal_def)
    show ?thesis
    proof (cases "\<exists>can. g = Some can \<and> can RoleOwner perm")
      case True
      then show ?thesis using a w
        by (intro disjI2 exI [of _ "?p i"] exI [of _ "st\<lparr>gsBoot := i\<rparr>"])
          (auto simp: RequirePermission_def FromContext_def WithPrincipal_def)
    next
      case False
      then show ?thesis using a
        by (intro disjI1 exI [of _ "refuse 403 ''forbidden_role''"] exI [of _ "st\<lparr>gsBoot := i\<rparr>"])
          (auto simp: RequirePermission_def FromContext_def WithPrincipal_def split: option.split)
    qed
  qed
qed

text \<open>
  C6.  An owner-only route of the administration surface.  Take any locked permission other than
  reading one's own content and any stored matrix.  Whatever the request and the state, every request
  whose handler does not run gets an answer that does not depend on the handler.  With \<open>AUTH_ENABLED=1\<close>
  the handler of a route gated on the permission runs only for a live cookie session of an active account that is the
  owner, with its second factor confirmed when the policy asks for one.  With \<open>AUTH_ENABLED=0\<close> there is no
  such gate: any request is attributed, with the owner's role, to the cached administrator or to one who is
  active when it is looked up.
\<close>

theorem locked_admin_routes_are_owner_only:
  assumes "IsPermissionLocked perm" "perm \<noteq> PermContentRead"
  shows "(\<exists>resp st'. \<forall>h. adminRoute authEnabled up H now require2FA totpPolicy confirmed (Some (grantsCan (Resolve stored))) perm h rq st
        = (resp, st')) \<or>
    (\<exists>p st'. (\<forall>h. adminRoute authEnabled up H now require2FA totpPolicy confirmed (Some (grantsCan (Resolve stored))) perm h rq st
        = h (WithPrincipal p rq) st') \<and>
       prRole p = RoleOwner \<and> prVia p = ViaSession \<and>
       (if authEnabled
        then accountActiveAs (gsDb st) (prUser p) RoleOwner \<and>
          (\<exists>s\<in>set (sessions (gsDb st)). sessionLive now s \<and> sId s = prSession p \<and> sUser s = prUser p) \<and>
          (if require2FA then confirmed (prUser p) (requireTOTPForAdmins totpPolicy) = Some True else True)
        else prUser p = gsBoot st \<or>
          (\<exists>u\<in>set (users (gsDb st)). uId u = prUser p \<and> uStatus u = StatusActive \<and> IsAdmin (uRole u))))"
proof (cases authEnabled)
  case False
  have "authEnabled = False" using False by simp
  then show ?thesis using adminRoute_open by (simp only: if_False)
next
  case True
  let ?g = "Some (grantsCan (Resolve stored))"
  note chain = adminRoute_def principalStack_def Authenticate_def MwRequireAdmin_def RequireAdmin_def RejectAPIToken_def
    RequirePermission_def FromContext_def WithPrincipal_def
  show ?thesis
  proof (cases "resolveRequest H now rq st")
    case (Inl e)
    then show ?thesis using True by (intro disjI1) (simp add: adminRoute_def principalStack_def Authenticate_def)
  next
    case (Inr pc)
    obtain p csrf where pc: "pc = (p, csrf)" by (cases pc)
    note r = resolveRequest_Inr [OF Inr [unfolded pc]]
    show ?thesis
    proof (cases "verifyCSRF H rq p csrf = None \<and> IsAdmin (prRole p) \<and> prVia p \<noteq> ViaAPIToken \<and>
        grantsCan (Resolve stored) (prRole p) perm \<and>
        (require2FA \<longrightarrow> confirmed (prUser p) (requireTOTPForAdmins totpPolicy) = Some True)")
      case yes: True
      with True Inr pc have "adminRoute authEnabled up H now require2FA totpPolicy confirmed ?g perm h rq st
          = h (WithPrincipal p rq) (touchPrincipal now p st)" for h
        by (simp add: chain)
      moreover have "prRole p = RoleOwner" using resolved.locked_owner_only [OF assms] yes by blast
      moreover have "prVia p = ViaSession" using r(2) yes by blast
      moreover have "\<exists>s\<in>set (sessions (gsDb st)). sessionLive now s \<and> sId s = prSession p \<and> sUser s = prUser p"
        using r(2,3) yes by blast
      ultimately show ?thesis using True yes r(1) by (intro disjI2 exI) auto
    next
      case no: False
      with True Inr pc have "adminRoute authEnabled up H now require2FA totpPolicy confirmed ?g perm h rq st
          = adminRoute authEnabled up H now require2FA totpPolicy confirmed ?g perm g rq st" for g h
        by (auto simp: chain split: option.split)
      then show ?thesis by (metis prod.collapse)
    qed
  qed
qed

text \<open>
  A browser signed in as the account of \<open>demoDb\<close>, whose hashes are the identity for the sake of the
  example.
\<close>

definition demoState :: gateState where
  "demoState = \<lparr>gsDb = demoLogin, gsTokens = \<lparr>apiTokens = [], tokenSeq = 1\<rparr>, gsTouch = [], gsBoot = 0\<rparr>"

definition demoRequest :: request where
  "demoRequest = \<lparr>rqMethod = ''POST'', rqAccessCookie = ''a1'', rqAuthHeader = [], rqCsrfHeader = ''c1'',
     rqPrincipal = None\<rparr>"

definition okHandler :: handler where
  "okHandler rq st = (refuse 200 ''ok'', st)"

lemma locked_admin_routes_are_owner_only_witness:
  "\<exists>p :: principal. prRole p = RoleOwner \<and> prVia p = ViaSession \<and> accountActiveAs demoLogin (prUser p) RoleOwner"
proof -
  have l: "IsPermissionLocked PermInstanceIPBlock" "PermInstanceIPBlock \<noteq> PermContentRead" by code_simp+
  have "rsStatus (fst (adminRoute True True (\<lambda>x. x) 105 True None (\<lambda>_ _. Some True) (Some (grantsCan (Resolve [])))
      PermInstanceIPBlock okHandler demoRequest demoState)) = 200"
  proof -
    have "resolveRequest (\<lambda>x. x) 105 demoRequest demoState =
        Inr (\<lparr>prUser = 1, prRole = RoleOwner, prSession = 1, prToken = 0, prVia = ViaSession\<rparr>, Some ''c1'')"
      by code_simp
    moreover have "IsAdmin RoleOwner" "ViaSession \<noteq> ViaAPIToken" "isSafeMethod ''POST'' = False" by code_simp+
    moreover have "grantsCan (Resolve []) RoleOwner PermInstanceIPBlock"
      using l(1) locked_known resolved.owner_holds by blast
    ultimately show ?thesis
      by (simp add: adminRoute_def principalStack_def Authenticate_def verifyCSRF_def MwRequireAdmin_def RequireAdmin_def RejectAPIToken_def
          RequirePermission_def FromContext_def WithPrincipal_def okHandler_def refuse_def demoRequest_def)
  qed
  moreover have "rsStatus (fst (adminRoute True True (\<lambda>x. x) 105 True None (\<lambda>_ _. Some True) (Some (grantsCan (Resolve [])))
      PermInstanceIPBlock (\<lambda>rq st. (refuse 201 ''other'', st)) demoRequest demoState)) \<noteq> 200"
    by (auto simp: adminRoute_def principalStack_def Authenticate_def MwRequireAdmin_def RequireAdmin_def RejectAPIToken_def
        RequirePermission_def refuse_def verifyCSRF_def split: sum.split option.split)
  ultimately have notA: "\<not> (\<exists>resp st'. \<forall>h. adminRoute True True (\<lambda>x. x) 105 True None (\<lambda>_ _. Some True)
      (Some (grantsCan (Resolve []))) PermInstanceIPBlock h demoRequest demoState = (resp, st'))"
    by (metis fst_conv)
  have "\<exists>p st'. (\<forall>h. adminRoute True True (\<lambda>x. x) 105 True None (\<lambda>_ _. Some True)
      (Some (grantsCan (Resolve []))) PermInstanceIPBlock h demoRequest demoState = h (WithPrincipal p demoRequest) st') \<and>
      prRole p = RoleOwner \<and> prVia p = ViaSession \<and> accountActiveAs (gsDb demoState) (prUser p) RoleOwner"
    using locked_admin_routes_are_owner_only [OF l, of True True "\<lambda>x. x" 105 True None "\<lambda>_ _. Some True" "[]" demoRequest demoState]
    by (simp only: notA if_True simp_thms) blast
  then obtain p :: principal where "prRole p = RoleOwner" "prVia p = ViaSession" "accountActiveAs (gsDb demoState) (prUser p) RoleOwner"
    by (elim exE conjE)
  then show ?thesis by (intro exI [of _ p]) (simp add: demoState_def)
qed

text \<open>
  The administration surface does not exist for anybody else.  An authenticated request whose
  account has no administrator role gets the 404 of an unknown route, whether it came with a cookie or
  with an API token, whatever the route, the permission and the second factor policy.
\<close>

theorem admin_surface_is_hidden:
  assumes "resolveRequest H now rq st = Inr (p, csrf)" "verifyCSRF H rq p csrf = None" "\<not> IsAdmin (prRole p)"
  shows "adminRoute True up H now require2FA totpPolicy confirmed g perm h rq st =
    (refuse 404 ''not_found'', touchPrincipal now p st)"
  using assms by (simp add: adminRoute_def principalStack_def Authenticate_def MwRequireAdmin_def RequireAdmin_def FromContext_def
      WithPrincipal_def)

lemma admin_surface_is_hidden_witness:
  "fst (adminRoute True True (\<lambda>x. x) 105 True None (\<lambda>_ _. Some True) (Some roleCan) PermUsersRead okHandler demoRequest
     (demoState\<lparr>gsDb := demoLogin\<lparr>users := [demoUser\<lparr>uRole := RoleEditor\<rparr>]\<rparr>\<rparr>)) = refuse 404 ''not_found''"
proof -
  let ?st = "demoState\<lparr>gsDb := demoLogin\<lparr>users := [demoUser\<lparr>uRole := RoleEditor\<rparr>]\<rparr>\<rparr>"
  have r: "resolveRequest (\<lambda>x. x) 105 demoRequest ?st =
      Inr (\<lparr>prUser = 1, prRole = RoleEditor, prSession = 1, prToken = 0, prVia = ViaSession\<rparr>, Some ''c1'')"
    and c: "verifyCSRF (\<lambda>x. x) demoRequest \<lparr>prUser = 1, prRole = RoleEditor, prSession = 1, prToken = 0, prVia = ViaSession\<rparr>
        (Some ''c1'') = None"
    and a: "IsAdmin RoleEditor = False" by code_simp+
  show ?thesis using admin_surface_is_hidden [OF r c] a by simp
qed

end
