(* ===== verification/Content.thy ===== *)
theory Content
  imports Prelude
begin

text \<open>
  The content half of the schema: folders, links, notes, tags and the tables that hang off them, with
  the referential actions the migrations declare, and the application-level cascade of
  \<open>backend/internal/entityrefs/purge.go\<close> and \<open>backend/internal/pkg/clicklog/clicklog.go\<close>.

  \<open>content\<close> is one list of records per table; the order of a list is the order in which a statement
  scans the table.  \<open>link_tag\<close> and \<open>click_log\<close> are polymorphic: a row names its entity by a kind and a
  number, and no foreign key removes it with the entity.
\<close>

section \<open>Tables\<close>

record folder =
  fId :: int
  fUser :: int
  fName :: string
  fColor :: string
  fParent :: "int option"
  fCreated :: gotime
  fHash :: "string option"
  fHint :: "string option"

record link =
  lkId :: int
  lkUser :: int
  lkUrl :: string
  lkTitle :: string
  lkSlug :: string
  lkFolder :: "int option"
  lkPinned :: bool
  lkPublic :: bool
  lkOg :: "string option"
  lkFavicon :: "string option"
  lkCreated :: gotime

record noteRow =
  nId :: int
  nUser :: int
  nTitle :: string
  nSlug :: string
  nBody :: string
  nText :: string
  nFolder :: "int option"
  nPinned :: bool
  nPublic :: bool
  nCreated :: gotime
  nUpdated :: gotime

record tag =
  tgId :: int
  tgUser :: int
  tgName :: string
  tgColor :: string

record linkTag =
  ltKind :: string
  ltEntity :: int
  ltTag :: int

record click =
  ckUser :: int
  ckKind :: string
  ckEntity :: int
  ckAt :: gotime

record clickStat =
  csUser :: int
  csKind :: string
  csEntity :: int
  csCount :: nat
  csLast :: gotime

record media =
  mdKey :: string
  mdUser :: int
  mdLease :: "gotime option"

record mediaRef =
  mrUser :: int
  mrNote :: int
  mrKey :: string

text \<open>The columns of \<open>app_user\<close> the content packages read: the master recovery password.\<close>

record master =
  msUser :: int
  msHash :: "string option"
  msHint :: "string option"

record content =
  folders :: "folder list"
  links :: "link list"
  noteRows :: "noteRow list"
  tags :: "tag list"
  linkTags :: "linkTag list"
  clicks :: "click list"
  clickStats :: "clickStat list"
  mediaRows :: "media list"
  mediaRefs :: "mediaRef list"
  masters :: "master list"
  folderSeq :: int
  noteSeq :: int
  tagSeq :: int

datatype contentErr =
    ErrNotFound | ErrLocked | ErrWrongPassword | ErrHintWithoutPassword | ErrHintMatchesPassword
  | ErrParentCycle | ErrSelfParent | ErrDescendantProtected nat | ErrGateUnavailable
  | ErrMasterNotConfigured | ErrStaleMasterProof | ErrStaleWrite | ErrSlugTaken | ErrCreateExhausted
  | ErrInvalidInput string | ErrUnsupportedKind | ErrHashFailed | ErrConstraint | ErrSerialization | ErrDb

section \<open>Referential actions\<close>

definition folderOf :: "int \<Rightarrow> int \<Rightarrow> content \<Rightarrow> folder option" where
  "folderOf uid i db = find (\<lambda>f. fUser f = uid \<and> fId f = i) (folders db)"

definition noteOf :: "int \<Rightarrow> int \<Rightarrow> content \<Rightarrow> noteRow option" where
  "noteOf uid i db = find (\<lambda>n. nUser n = uid \<and> nId n = i) (noteRows db)"

text \<open>\<open>ON DELETE SET NULL (folder_id)\<close> and \<open>(parent_id)\<close>.\<close>

definition clearParent :: "(folder \<Rightarrow> bool) \<Rightarrow> folder list \<Rightarrow> folder \<Rightarrow> folder" where
  "clearParent P dead f =
     (if list_ex (\<lambda>d. P d \<and> fUser d = fUser f \<and> fParent f = Some (fId d)) dead then f\<lparr>fParent := None\<rparr> else f)"

definition clearLink :: "(folder \<Rightarrow> bool) \<Rightarrow> folder list \<Rightarrow> link \<Rightarrow> link" where
  "clearLink P dead l =
     (if list_ex (\<lambda>d. P d \<and> fUser d = lkUser l \<and> lkFolder l = Some (fId d)) dead then l\<lparr>lkFolder := None\<rparr> else l)"

definition clearNote :: "(folder \<Rightarrow> bool) \<Rightarrow> folder list \<Rightarrow> noteRow \<Rightarrow> noteRow" where
  "clearNote P dead n =
     (if list_ex (\<lambda>d. P d \<and> fUser d = nUser n \<and> nFolder n = Some (fId d)) dead then n\<lparr>nFolder := None\<rparr> else n)"

definition deleteFolders :: "(folder \<Rightarrow> bool) \<Rightarrow> content \<Rightarrow> content" where
  "deleteFolders P db = db\<lparr>
     folders := map (clearParent P (folders db)) (filter (\<lambda>f. \<not> P f) (folders db)),
     links := map (clearLink P (folders db)) (links db),
     noteRows := map (clearNote P (folders db)) (noteRows db)\<rparr>"

text \<open>
  \<open>note_media_ref\<close> follows its note (\<open>ON DELETE CASCADE\<close>), and the statement trigger
  \<open>note_media_ref_release_after_delete\<close> expires the lease of every object that lost its last reference.
\<close>

definition referenced :: "media \<Rightarrow> mediaRef list \<Rightarrow> bool" where
  "referenced m refs = list_ex (\<lambda>r. mrUser r = mdUser m \<and> mrKey r = mdKey m) refs"

definition deleteRefs :: "gotime \<Rightarrow> (mediaRef \<Rightarrow> bool) \<Rightarrow> content \<Rightarrow> content" where
  "deleteRefs now P db =
     (let dead = filter P (mediaRefs db); kept = filter (\<lambda>r. \<not> P r) (mediaRefs db)
      in db\<lparr>mediaRefs := kept,
            mediaRows := map (\<lambda>m. if referenced m dead \<and> \<not> referenced m kept then m\<lparr>mdLease := Some now\<rparr> else m)
                           (mediaRows db)\<rparr>)"

definition deleteNotes :: "gotime \<Rightarrow> (noteRow \<Rightarrow> bool) \<Rightarrow> content \<Rightarrow> content" where
  "deleteNotes now P db =
     (deleteRefs now (\<lambda>r. list_ex (\<lambda>n. P n \<and> nUser n = mrUser r \<and> nId n = mrNote r) (noteRows db)) db)
       \<lparr>noteRows := filter (\<lambda>n. \<not> P n) (noteRows db)\<rparr>"

section \<open>Polymorphic references\<close>

definition entityTable :: "string \<Rightarrow> bool" where
  "entityTable kind = (kind = ''link'' \<or> kind = ''note'')"

definition purgeWhere :: "(string \<Rightarrow> int \<Rightarrow> bool) \<Rightarrow> int \<Rightarrow> content \<Rightarrow> content" where
  "purgeWhere P uid db = db\<lparr>
     linkTags := filter (\<lambda>t. \<not> P (ltKind t) (ltEntity t)) (linkTags db),
     clicks := filter (\<lambda>c. \<not> (ckUser c = uid \<and> P (ckKind c) (ckEntity c))) (clicks db),
     clickStats := filter (\<lambda>c. \<not> (csUser c = uid \<and> P (csKind c) (csEntity c))) (clickStats db)\<rparr>"

definition PurgeOne :: "int \<Rightarrow> string \<Rightarrow> int \<Rightarrow> content \<Rightarrow> contentErr + content" where
  "PurgeOne uid kind i db =
     (if \<not> entityTable kind then Inl ErrUnsupportedKind
      else Inr (purgeWhere (\<lambda>k e. k = kind \<and> e = i) uid db))"

definition ownedIds :: "int \<Rightarrow> string \<Rightarrow> content \<Rightarrow> int list" where
  "ownedIds uid kind db =
     (if kind = ''link'' then map lkId (filter (\<lambda>l. lkUser l = uid) (links db))
      else map nId (filter (\<lambda>n. nUser n = uid) (noteRows db)))"

definition PurgeOwnerSet :: "int \<Rightarrow> string \<Rightarrow> int list \<Rightarrow> content \<Rightarrow> contentErr + content" where
  "PurgeOwnerSet uid kind ids db =
     (if \<not> entityTable kind then Inl ErrUnsupportedKind
      else if ids = [] then Inr db
      else Inr (purgeWhere (\<lambda>k e. k = kind \<and> e \<in> set ids \<and> e \<in> set (ownedIds uid kind db)) uid db))"

definition inSubtree :: "int \<Rightarrow> int list \<Rightarrow> content \<Rightarrow> string \<Rightarrow> int \<Rightarrow> bool" where
  "inSubtree uid sub db k e =
     ((k = ''link'' \<and> list_ex (\<lambda>l. lkId l = e \<and> lkUser l = uid \<and> (\<exists>f\<in>set sub. lkFolder l = Some f)) (links db)) \<or>
      (k = ''note'' \<and> list_ex (\<lambda>n. nId n = e \<and> nUser n = uid \<and> (\<exists>f\<in>set sub. nFolder n = Some f)) (noteRows db)))"

definition PurgeFolderSubtree :: "int \<Rightarrow> int list \<Rightarrow> content \<Rightarrow> content" where
  "PurgeFolderSubtree uid sub db = purgeWhere (inSubtree uid sub db) uid db"

definition ownedEntity :: "int \<Rightarrow> content \<Rightarrow> string \<Rightarrow> int \<Rightarrow> bool" where
  "ownedEntity uid db k e =
     ((k = ''link'' \<and> e \<in> set (ownedIds uid ''link'' db)) \<or> (k = ''note'' \<and> e \<in> set (ownedIds uid ''note'' db)))"

definition PurgeOwner :: "int \<Rightarrow> content \<Rightarrow> content" where
  "PurgeOwner uid db = db\<lparr>
     clickStats := filter (\<lambda>c. csUser c \<noteq> uid) (clickStats db),
     linkTags := filter (\<lambda>t. \<not> ownedEntity uid db (ltKind t) (ltEntity t)) (linkTags db),
     clicks := filter (\<lambda>c. \<not> (ckUser c = uid \<and> ownedEntity uid db (ckKind c) (ckEntity c))) (clicks db)\<rparr>"

section \<open>The click log and its ranking projection\<close>

text \<open>
  \<open>Record\<close> writes a click and bumps its projection in one transaction; \<open>allow\<close> is what
  \<open>clickctx.Allow\<close> answers for this request.
\<close>

fun bumpStat :: "gotime \<Rightarrow> int \<Rightarrow> string \<Rightarrow> int \<Rightarrow> clickStat list \<Rightarrow> clickStat list" where
  "bumpStat now uid kind i [] = [\<lparr>csUser = uid, csKind = kind, csEntity = i, csCount = 1, csLast = now\<rparr>]"
| "bumpStat now uid kind i (c # cs) =
     (if csUser c = uid \<and> csKind c = kind \<and> csEntity c = i
      then c\<lparr>csCount := Suc (csCount c), csLast := now\<rparr> # cs else c # bumpStat now uid kind i cs)"

definition Record :: "bool \<Rightarrow> gotime \<Rightarrow> string \<Rightarrow> int \<Rightarrow> int \<Rightarrow> content \<Rightarrow> content" where
  "Record allow now kind i owner db =
     (if allow
      then db\<lparr>clicks := clicks db @ [\<lparr>ckUser = owner, ckKind = kind, ckEntity = i, ckAt = now\<rparr>],
              clickStats := bumpStat now owner kind i (clickStats db)\<rparr>
      else db)"

text \<open>\<open>RefreshOwner\<close> regroups the owner's history.\<close>

definition clicksOf :: "int \<Rightarrow> string \<Rightarrow> int \<Rightarrow> click list \<Rightarrow> click list" where
  "clicksOf uid kind i cs = filter (\<lambda>c. ckUser c = uid \<and> ckKind c = kind \<and> ckEntity c = i) cs"

definition groupKeys :: "int \<Rightarrow> click list \<Rightarrow> (string \<times> int) list" where
  "groupKeys uid cs = remdups (map (\<lambda>c. (ckKind c, ckEntity c)) (filter (\<lambda>c. ckUser c = uid) cs))"

definition groupStat :: "int \<Rightarrow> click list \<Rightarrow> string \<times> int \<Rightarrow> clickStat" where
  "groupStat uid cs ke = \<lparr>csUser = uid, csKind = fst ke, csEntity = snd ke,
     csCount = length (clicksOf uid (fst ke) (snd ke) cs),
     csLast = Max (set (map ckAt (clicksOf uid (fst ke) (snd ke) cs)))\<rparr>"

definition RefreshOwner :: "int \<Rightarrow> content \<Rightarrow> content" where
  "RefreshOwner uid db = db\<lparr>clickStats :=
     filter (\<lambda>c. csUser c \<noteq> uid) (clickStats db) @ map (groupStat uid (clicks db)) (groupKeys uid (clicks db))\<rparr>"

section \<open>The projection follows the log\<close>

text \<open>What the ranking projection says of an entity, and what the log says of it.\<close>

definition csKey :: "clickStat \<Rightarrow> int \<times> string \<times> int" where
  "csKey c = (csUser c, csKind c, csEntity c)"

definition ckKey :: "click \<Rightarrow> int \<times> string \<times> int" where
  "ckKey c = (ckUser c, ckKind c, ckEntity c)"

definition statOf :: "int \<times> string \<times> int \<Rightarrow> clickStat list \<Rightarrow> (nat \<times> gotime) option" where
  "statOf key cs = map_option (\<lambda>c. (csCount c, csLast c)) (find (\<lambda>c. csKey c = key) cs)"

definition logStat :: "int \<times> string \<times> int \<Rightarrow> click list \<Rightarrow> (nat \<times> gotime) option" where
  "logStat key cs =
     (let mine = filter (\<lambda>c. ckKey c = key) cs
      in if mine = [] then None else Some (length mine, Max (set (map ckAt mine))))"

definition statsExact :: "content \<Rightarrow> bool" where
  "statsExact db = (\<forall>key. statOf key (clickStats db) = logStat key (clicks db))"

lemma find_filter_key:
  "find (\<lambda>c. f c = key) (filter (\<lambda>c. \<not> Q (f c)) xs) = (if Q key then None else find (\<lambda>c. f c = key) xs)"
  by (induction xs) auto

lemma statOf_bump:
  "statOf key (bumpStat now uid kind i cs) =
     (if key = (uid, kind, i)
      then Some (case statOf key cs of None \<Rightarrow> (1, now) | Some (n, _) \<Rightarrow> (Suc n, now))
      else statOf key cs)"
  by (induction now uid kind i cs rule: bumpStat.induct) (auto simp: statOf_def csKey_def)

lemma logStat_snoc:
  assumes "list_all (\<lambda>c. ckAt c \<le> ckAt x) cs"
  shows "logStat key (cs @ [x]) =
     (if key = ckKey x
      then Some (case logStat key cs of None \<Rightarrow> (1, ckAt x) | Some (n, _) \<Rightarrow> (Suc n, ckAt x))
      else logStat key cs)"
proof -
  have "Max (insert (ckAt x) (ckAt ` {c \<in> set cs. ckKey c = ckKey x})) = ckAt x"
    using assms by (intro Max_eqI) (auto simp: list_all_iff)
  then show ?thesis by (auto simp: logStat_def Let_def filter_empty_conv Un_commute)
qed

lemma statOf_filter: "statOf key (filter (\<lambda>c. \<not> Q (csKey c)) cs) = (if Q key then None else statOf key cs)"
  by (simp add: statOf_def find_filter_key)

lemma logStat_filter: "logStat key (filter (\<lambda>c. \<not> Q (ckKey c)) cs) = (if Q key then None else logStat key cs)"
proof -
  have "filter (\<lambda>c. ckKey c = key) (filter (\<lambda>c. \<not> Q (ckKey c)) cs) =
      (if Q key then [] else filter (\<lambda>c. ckKey c = key) cs)"
    by (induction cs) auto
  then show ?thesis by (simp add: logStat_def Let_def)
qed

lemma purgeWhere_stats: "statsExact db \<Longrightarrow> statsExact (purgeWhere P uid db)"
  using statOf_filter [of _ "\<lambda>k. fst k = uid \<and> P (fst (snd k)) (snd (snd k))" "clickStats db"]
    logStat_filter [of _ "\<lambda>k. fst k = uid \<and> P (fst (snd k)) (snd (snd k))" "clicks db"]
  by (simp add: statsExact_def purgeWhere_def csKey_def ckKey_def)

lemma Record_stats:
  assumes "statsExact db" "list_all (\<lambda>c. ckAt c \<le> now) (clicks db)"
  shows "statsExact (Record allow now kind i owner db)"
proof -
  let ?x = "\<lparr>ckUser = owner, ckKind = kind, ckEntity = i, ckAt = now\<rparr>"
  have x: "ckKey ?x = (owner, kind, i)" "ckAt ?x = now" by (simp_all add: ckKey_def)
  have "statOf key (bumpStat now owner kind i (clickStats db)) = logStat key (clicks db @ [?x])" for key
    using assms by (simp only: logStat_snoc [where x = ?x, unfolded x] statOf_bump x statsExact_def)
  with assms(1) show ?thesis by (simp add: statsExact_def Record_def)
qed

lemma clicksOf_key: "clicksOf uid kind i cs = filter (\<lambda>c. ckKey c = (uid, kind, i)) cs"
  by (simp add: clicksOf_def ckKey_def)

lemma statOf_append: "statOf key (xs @ ys) = (case statOf key xs of None \<Rightarrow> statOf key ys | Some v \<Rightarrow> Some v)"
proof -
  have "find (\<lambda>c. csKey c = key) (xs @ ys) =
      (case find (\<lambda>c. csKey c = key) xs of None \<Rightarrow> find (\<lambda>c. csKey c = key) ys | Some v \<Rightarrow> Some v)"
    by (induction xs) auto
  then show ?thesis by (simp add: statOf_def split: option.splits)
qed

lemma statOf_groups:
  "statOf (u, k, e) (map (groupStat uid cs) ks) =
     (if u = uid \<and> (k, e) \<in> set ks
      then Some (length (clicksOf uid k e cs), Max (set (map ckAt (clicksOf uid k e cs)))) else None)"
  by (induction ks) (auto simp: statOf_def groupStat_def csKey_def)

lemma groupKeys_iff: "(k, e) \<in> set (groupKeys uid cs) \<longleftrightarrow> clicksOf uid k e cs \<noteq> []"
  by (auto simp: groupKeys_def clicksOf_def filter_empty_conv image_iff)

lemma RefreshOwner_owner:
  "statOf (uid, k, e) (clickStats (RefreshOwner uid db)) = logStat (uid, k, e) (clicks db)"
proof -
  have "statOf (uid, k, e) (filter (\<lambda>c. csUser c \<noteq> uid) (clickStats db)) = None"
    using statOf_filter [of "(uid, k, e)" "\<lambda>q. fst q = uid" "clickStats db"] by (simp add: csKey_def)
  then show ?thesis
    by (simp add: RefreshOwner_def statOf_append statOf_groups groupKeys_iff logStat_def Let_def clicksOf_key)
qed

lemma RefreshOwner_other:
  "u \<noteq> uid \<Longrightarrow> statOf (u, k, e) (clickStats (RefreshOwner uid db)) = statOf (u, k, e) (clickStats db)"
  using statOf_filter [of "(u, k, e)" "\<lambda>q. fst q = uid" "clickStats db"]
  by (simp add: RefreshOwner_def statOf_append statOf_groups csKey_def split: option.splits)

lemma RefreshOwner_stats: "statsExact db \<Longrightarrow> statsExact (RefreshOwner uid db)"
  unfolding statsExact_def
proof (intro allI)
  fix key :: "int \<times> string \<times> int"
  assume s: "\<forall>key. statOf key (clickStats db) = logStat key (clicks db)"
  obtain u k e where key: "key = (u, k, e)" by (cases key)
  have c: "clicks (RefreshOwner uid db) = clicks db" by (simp add: RefreshOwner_def)
  show "statOf key (clickStats (RefreshOwner uid db)) = logStat key (clicks (RefreshOwner uid db))"
    using s RefreshOwner_owner [of uid k e db] RefreshOwner_other [of u uid k e db]
    by (cases "u = uid") (simp_all add: key c)
qed

lemma PurgeOwner_stats:
  assumes "statsExact db"
  shows "statsExact (PurgeOwner uid db) \<longleftrightarrow>
    (\<forall>c\<in>set (clicks db). ckUser c = uid \<longrightarrow> ownedEntity uid db (ckKind c) (ckEntity c))"
proof -
  let ?owned = "\<lambda>q :: int \<times> string \<times> int. fst q = uid \<and> ownedEntity uid db (fst (snd q)) (snd (snd q))"
  have s: "statOf q (clickStats (PurgeOwner uid db)) = (if fst q = uid then None else statOf q (clickStats db))" for q
    using statOf_filter [of q "\<lambda>q. fst q = uid" "clickStats db"] by (simp add: PurgeOwner_def csKey_def)
  have l: "logStat q (clicks (PurgeOwner uid db)) = (if ?owned q then None else logStat q (clicks db))" for q
    using logStat_filter [of q ?owned "clicks db"] by (simp add: PurgeOwner_def ckKey_def)
  have n: "logStat q (clicks db) = None \<longleftrightarrow> (\<forall>c\<in>set (clicks db). ckKey c \<noteq> q)" for q
    by (auto simp: logStat_def Let_def filter_empty_conv)
  have "statsExact (PurgeOwner uid db) \<longleftrightarrow> (\<forall>q. fst q = uid \<and> \<not> ?owned q \<longrightarrow> logStat q (clicks db) = None)"
    using assms unfolding statsExact_def s l by auto
  also have "\<dots> \<longleftrightarrow> (\<forall>c\<in>set (clicks db). ckUser c = uid \<longrightarrow> ownedEntity uid db (ckKind c) (ckEntity c))"
    unfolding n by (auto simp: ckKey_def)
  finally show ?thesis .
qed

text \<open>
  C40. The projection says of every entity exactly what the log says, how many clicks it has and when the last
  one was, and it keeps saying so: through a click recorded no earlier than the ones before it, coalesced or
  not, through a purge of an entity, of a set or of a folder's contents, and through a rebuild, which also
  repairs a projection that had drifted.  The wipe of an owner clears the whole projection of the owner but
  only the clicks on entities it still has: it keeps the two in step exactly when every click of the owner is
  on such an entity.
\<close>

theorem projection_follows_log:
  assumes "statsExact db" "list_all (\<lambda>c. ckAt c \<le> now) (clicks db)"
  shows "statsExact (Record allow now kind i owner db) \<and>
    (case PurgeOne uid kind' i' db of Inl _ \<Rightarrow> \<not> entityTable kind' | Inr db' \<Rightarrow> statsExact db') \<and>
    (case PurgeOwnerSet uid kind' ids db of Inl _ \<Rightarrow> \<not> entityTable kind' | Inr db' \<Rightarrow> statsExact db') \<and>
    statsExact (PurgeFolderSubtree uid sub db) \<and> statsExact (RefreshOwner uid db) \<and>
    (\<forall>drift k e. statOf (uid, k, e) (clickStats (RefreshOwner uid (db\<lparr>clickStats := drift\<rparr>))) =
       logStat (uid, k, e) (clicks db)) \<and>
    (statsExact (PurgeOwner uid db) \<longleftrightarrow>
       (\<forall>c\<in>set (clicks db). ckUser c = uid \<longrightarrow> ownedEntity uid db (ckKind c) (ckEntity c)))"
  using assms RefreshOwner_owner [of uid _ _ "db\<lparr>clickStats := _\<rparr>"]
  by (simp add: Record_stats PurgeOne_def PurgeOwnerSet_def PurgeFolderSubtree_def purgeWhere_stats RefreshOwner_stats
      PurgeOwner_stats)

definition emptyContent :: content where
  "emptyContent = \<lparr>folders = [], links = [], noteRows = [], tags = [], linkTags = [], clicks = [],
     clickStats = [], mediaRows = [], mediaRefs = [], masters = [], folderSeq = 1, noteSeq = 1, tagSeq = 1\<rparr>"

lemma emptyContent_stats: "statsExact emptyContent"
  by (simp add: statsExact_def statOf_def logStat_def emptyContent_def)

lemma projection_follows_log_witness:
  "statOf (1, ''link'', 7) (clickStats (Record True 9 ''link'' 7 1 (Record True 4 ''link'' 7 1 emptyContent))) = Some (2, 9)"
proof -
  let ?db = "Record True 4 ''link'' 7 1 emptyContent"
  have c: "clicks ?db = [\<lparr>ckUser = 1, ckKind = ''link'', ckEntity = 7, ckAt = 4\<rparr>]"
    by (simp add: Record_def emptyContent_def)
  have "statsExact ?db"
    using projection_follows_log [of emptyContent 4 True "''link''" 7 1] emptyContent_stats
    by (simp add: emptyContent_def)
  then have "statsExact (Record True 9 ''link'' 7 1 ?db)"
    using projection_follows_log [of ?db 9 True "''link''" 7 1] by (simp add: c)
  then have "statOf (1, ''link'', 7) (clickStats (Record True 9 ''link'' 7 1 ?db)) =
      logStat (1, ''link'', 7) (clicks (Record True 9 ''link'' 7 1 ?db))"
    by (simp add: statsExact_def)
  also have "\<dots> = Some (2, 9)" by (simp add: Record_def emptyContent_def logStat_def ckKey_def)
  finally show ?thesis .
qed

text \<open>
  The order of the times matters: the upsert writes the recording transaction's own \<open>now()\<close>, the
  time it began, without comparing it with the stored one.  When a click that began earlier is
  recorded after one that began later, the projection's last click moves back behind the log's.
\<close>

theorem projection_can_move_back:
  "statOf (u, k, e) (clickStats (Record True t k e u (Record True (t + 1) k e u emptyContent))) = Some (2, t) \<and>
   logStat (u, k, e) (clicks (Record True t k e u (Record True (t + 1) k e u emptyContent))) = Some (2, t + 1)"
  by (simp add: Record_def emptyContent_def statOf_def csKey_def logStat_def ckKey_def)

end
