(* ===== verification/UnlockToken.thy ===== *)
theory UnlockToken
  imports Content "HOL-Library.Countable"
begin

text \<open>
  Folder unlock tokens and the gate they open: \<open>backend/internal/folders/password.go\<close> and
  \<open>content_gate.go\<close>.  \<open>mac secret message\<close> is the hexadecimal HMAC-SHA256; the key is an argument.
  A gate reads the folder's hash each time it is asked, so a check takes the database as it is then.
\<close>

section \<open>Tokens\<close>

definition unlockTokenTTL :: duration where
  "unlockTokenTTL = 24 * hour"

definition signUnlockToken :: "(string \<Rightarrow> string \<Rightarrow> string) \<Rightarrow> string \<Rightarrow> int \<Rightarrow> string \<Rightarrow> int \<Rightarrow> string" where
  "signUnlockToken mac secret folderID passwordHash exp =
     mac secret (formatInt folderID @ '':'' @ formatInt exp @ '':'' @ passwordHash)"

definition IssueUnlockToken ::
  "(string \<Rightarrow> string \<Rightarrow> string) \<Rightarrow> gotime \<Rightarrow> string \<Rightarrow> int \<Rightarrow> string \<Rightarrow> string" where
  "IssueUnlockToken mac now secret folderID passwordHash =
     (let exp = unixSeconds (now + unlockTokenTTL)
      in signUnlockToken mac secret folderID passwordHash exp @ ''.'' @ formatInt exp)"

definition VerifyUnlockToken ::
  "(string \<Rightarrow> string \<Rightarrow> string) \<Rightarrow> gotime \<Rightarrow> string \<Rightarrow> int \<Rightarrow> string \<Rightarrow> string \<Rightarrow> bool" where
  "VerifyUnlockToken mac now secret folderID passwordHash token =
     (case splitFirst CHR ''.'' token of
        None \<Rightarrow> False
      | Some (m, expStr) \<Rightarrow>
          (case parseInt64 expStr of
             None \<Rightarrow> False
           | Some exp \<Rightarrow>
               if exp < unixSeconds now then False
               else m = signUnlockToken mac secret folderID passwordHash exp))"

definition CheckUnlock ::
  "(string \<Rightarrow> string \<Rightarrow> string) \<Rightarrow> gotime \<Rightarrow> string \<Rightarrow> int \<Rightarrow> string option \<Rightarrow> string \<Rightarrow> contentErr option" where
  "CheckUnlock mac now secret folderID passwordHash token =
     (case passwordHash of
        None \<Rightarrow> None
      | Some h \<Rightarrow>
          if token = [] \<or> \<not> VerifyUnlockToken mac now secret folderID h token then Some ErrLocked else None)"

section \<open>The content gate\<close>

definition PasswordHashFor :: "int \<Rightarrow> int \<Rightarrow> content \<Rightarrow> contentErr + string option" where
  "PasswordHashFor uid i db = (case folderOf uid i db of None \<Rightarrow> Inl ErrNotFound | Some f \<Rightarrow> Inr (fHash f))"

record contentGate =
  gLookup :: "(int \<Rightarrow> int \<Rightarrow> content \<Rightarrow> contentErr + string option) option"
  gKey :: string

definition GateConfigured :: "contentGate \<Rightarrow> bool" where
  "GateConfigured g = (gLookup g \<noteq> None)"

definition GateCheck ::
  "(string \<Rightarrow> string \<Rightarrow> string) \<Rightarrow> gotime \<Rightarrow> contentGate \<Rightarrow> int \<Rightarrow> int \<Rightarrow> string \<Rightarrow> content \<Rightarrow> contentErr option" where
  "GateCheck mac now g uid folderID token db =
     (case gLookup g of
        None \<Rightarrow> Some ErrGateUnavailable
      | Some lookup \<Rightarrow>
          (case lookup uid folderID db of
             Inl e \<Rightarrow> Some e
           | Inr h \<Rightarrow> CheckUnlock mac now (gKey g) folderID h token))"

text \<open>
  \<open>ListWithContentGate\<close> checks at one time, lists at a later one and checks again; the three moments are
  \<open>(t0, db0)\<close>, \<open>db1\<close> and \<open>(t2, db2)\<close>.
\<close>

definition ListWithContentGate ::
  "(string \<Rightarrow> string \<Rightarrow> string) \<Rightarrow> contentGate \<Rightarrow> int \<Rightarrow> int option \<Rightarrow> string \<Rightarrow> (content \<Rightarrow> contentErr + 'a) \<Rightarrow>
   gotime \<times> content \<Rightarrow> content \<Rightarrow> gotime \<times> content \<Rightarrow> contentErr + 'a" where
  "ListWithContentGate mac g uid folderID token lst s0 db1 s2 =
     (case folderID of
        None \<Rightarrow> lst db1
      | Some i \<Rightarrow>
          (case GateCheck mac (fst s0) g uid i token (snd s0) of
             Some e \<Rightarrow> Inl e
           | None \<Rightarrow>
               (case lst db1 of
                  Inl e \<Rightarrow> Inl e
                | Inr out \<Rightarrow>
                    (case GateCheck mac (fst s2) g uid i token (snd s2) of
                       Some e \<Rightarrow> Inl e
                     | None \<Rightarrow> Inr out))))"

section \<open>The gate on mutations\<close>

definition entityFolderID :: "string \<Rightarrow> int \<Rightarrow> int \<Rightarrow> content \<Rightarrow> contentErr + int option" where
  "entityFolderID table uid i db =
     (if table = ''link''
      then (case find (\<lambda>l. lkUser l = uid \<and> lkId l = i) (links db) of None \<Rightarrow> Inl ErrNotFound | Some l \<Rightarrow> Inr (lkFolder l))
      else (case noteOf uid i db of None \<Rightarrow> Inl ErrNotFound | Some n \<Rightarrow> Inr (nFolder n)))"

text \<open>
  The transaction runs three statements, and other transactions commit between them.  A row it has read
  \<open>FOR NO KEY UPDATE\<close> is locked until it ends: a commit that would change or delete such a row
  has to wait.  \<open>commits held f db\<close> is what the others, who want to do \<open>f\<close>, get done meanwhile.
\<close>

datatype rowRef = FolderRow int int | LinkRow int int | NoteRow int int

fun rowKept :: "content \<Rightarrow> content \<Rightarrow> rowRef \<Rightarrow> bool" where
  "rowKept db db' (FolderRow uid i) = (folderOf uid i db' = folderOf uid i db)"
| "rowKept db db' (LinkRow uid i) =
     (find (\<lambda>l. lkUser l = uid \<and> lkId l = i) (links db') = find (\<lambda>l. lkUser l = uid \<and> lkId l = i) (links db))"
| "rowKept db db' (NoteRow uid i) = (noteOf uid i db' = noteOf uid i db)"

definition commits :: "rowRef list \<Rightarrow> (content \<Rightarrow> content) \<Rightarrow> content \<Rightarrow> content" where
  "commits held f db = (if list_all (rowKept db (f db)) held then f db else db)"

text \<open>A query that finds no row locks none.\<close>

definition lockFolder :: "int \<Rightarrow> int option \<Rightarrow> content \<Rightarrow> string option \<times> rowRef list" where
  "lockFolder uid folderID db =
     (case folderID of
        None \<Rightarrow> (None, [])
      | Some i \<Rightarrow> (case folderOf uid i db of None \<Rightarrow> (None, []) | Some f \<Rightarrow> (fHash f, [FolderRow uid i])))"

definition lockEntity :: "string \<Rightarrow> int \<Rightarrow> int \<Rightarrow> content \<Rightarrow> contentErr + (int option \<times> rowRef)" where
  "lockEntity table uid i db =
     (case entityFolderID table uid i db of
        Inl e \<Rightarrow> Inl e
      | Inr folderID \<Rightarrow> Inr (folderID, if table = ''link'' then LinkRow uid i else NoteRow uid i))"

text \<open>The answer, the rows the transaction holds then, and the database its next statement starts from.\<close>

definition CheckEntityFolderTx ::
  "(string \<Rightarrow> string \<Rightarrow> string) \<Rightarrow> gotime \<Rightarrow> string \<Rightarrow> int \<Rightarrow> int \<Rightarrow> string \<Rightarrow> string \<Rightarrow>
   (content \<Rightarrow> content) \<Rightarrow> (content \<Rightarrow> content) \<Rightarrow> content \<Rightarrow> contentErr option \<times> rowRef list \<times> content" where
  "CheckEntityFolderTx mac now table uid i secret token others1 others2 db0 =
     (if \<not> entityTable table then (Some ErrUnsupportedKind, [], db0)
      else (case entityFolderID table uid i db0 of
              Inl e \<Rightarrow> (Some e, [], db0)
            | Inr folderID \<Rightarrow>
                let db1 = commits [] others1 db0;
                    (passwordHash, held) = lockFolder uid folderID db1;
                    db2 = commits held others2 db1
                in (case lockEntity table uid i db2 of
                      Inl e \<Rightarrow> (Some e, held, db2)
                    | Inr (lockedFolderID, row) \<Rightarrow>
                        if folderID \<noteq> lockedFolderID then (Some ErrLocked, row # held, db2)
                        else (case lockedFolderID of
                                None \<Rightarrow> (None, row # held, db2)
                              | Some f \<Rightarrow> (CheckUnlock mac now secret f passwordHash token, row # held, db2)))))"

section \<open>What a token proves\<close>

lemma formatInt_no_colon: "CHR '':'' \<notin> set (formatInt i)"
  using formatInt_chars [of "CHR '':''" i] by auto

lemma formatInt_no_dot: "CHR ''.'' \<notin> set (formatInt i)"
  using formatInt_chars [of "CHR ''.''" i] by auto

lemma token_message_inj:
  assumes "formatInt i @ '':'' @ formatInt e @ '':'' @ h = formatInt i' @ '':'' @ formatInt e' @ '':'' @ h'"
  shows "i = i' \<and> e = e' \<and> h = h'"
proof -
  have 1: "formatInt i = formatInt i' \<and> formatInt e @ '':'' @ h = formatInt e' @ '':'' @ h'"
    by (rule sep_inj [where c = "CHR '':''"]) (use assms formatInt_no_colon in auto)
  then have "formatInt e = formatInt e' \<and> h = h'"
    by (intro sep_inj [where c = "CHR '':''"]) (auto simp: formatInt_no_colon)
  with 1 show ?thesis by (auto dest: formatInt_inj)
qed

text \<open>The two documented properties of the MAC: it prints hexadecimal digits, and it is collision free.\<close>

definition goodMac :: "(string \<Rightarrow> string \<Rightarrow> string) \<Rightarrow> string \<Rightarrow> bool" where
  "goodMac mac secret = (inj (mac secret) \<and> (\<forall>msg. CHR ''.'' \<notin> set (mac secret msg)))"

lemma verify_parts:
  assumes "goodMac mac secret"
  shows "VerifyUnlockToken mac now secret i h (mac secret msg @ ''.'' @ e) =
    (case parseInt64 e of
       None \<Rightarrow> False
     | Some exp \<Rightarrow> unixSeconds now \<le> exp \<and> msg = formatInt i @ '':'' @ formatInt exp @ '':'' @ h)"
proof -
  have "splitFirst CHR ''.'' (mac secret msg @ ''.'' @ e) = Some (mac secret msg, e)"
    using splitFirst_append [of "CHR ''.''" "mac secret msg" e] assms by (simp add: goodMac_def)
  moreover have "(mac secret msg = mac secret msg') = (msg = msg')" for msg'
    using assms by (auto simp: goodMac_def inj_def)
  ultimately show ?thesis by (auto simp: VerifyUnlockToken_def signUnlockToken_def split: option.splits)
qed

lemma verify_shape:
  assumes "VerifyUnlockToken mac now secret i h token"
  shows "\<exists>exp e. token = mac secret (formatInt i @ '':'' @ formatInt exp @ '':'' @ h) @ ''.'' @ e \<and>
    parseInt64 e = Some exp \<and> unixSeconds now \<le> exp"
proof -
  obtain m e exp where p: "splitFirst CHR ''.'' token = Some (m, e)" "parseInt64 e = Some exp"
    "unixSeconds now \<le> exp" "m = signUnlockToken mac secret i h exp"
    using assms by (auto simp: VerifyUnlockToken_def split: option.splits if_splits)
  have "token = m @ ''.'' @ e" using splitFirst_Some [OF p(1)] by simp
  with p show ?thesis by (auto simp: signUnlockToken_def)
qed

text \<open>
  An unlock token opens exactly the folder it was issued for, under the password hash it was issued
  under, until its 24 hours are over: changing or clearing the password, presenting it on another
  folder, or presenting it late all fail, and until then it verifies.
\<close>

theorem unlock_token_is_bound:
  assumes "goodMac mac secret" "- (2 ^ 63) \<le> unixSeconds (t + unlockTokenTTL)" "unixSeconds (t + unlockTokenTTL) < 2 ^ 63"
  shows "VerifyUnlockToken mac now secret i' h' (IssueUnlockToken mac t secret i h) \<longleftrightarrow>
    i' = i \<and> h' = h \<and> unixSeconds now \<le> unixSeconds (t + unlockTokenTTL)"
proof -
  let ?exp = "unixSeconds (t + unlockTokenTTL)"
  have "IssueUnlockToken mac t secret i h = mac secret (formatInt i @ '':'' @ formatInt ?exp @ '':'' @ h) @ ''.'' @ formatInt ?exp"
    by (simp only: IssueUnlockToken_def Let_def signUnlockToken_def)
  moreover have "parseInt64 (formatInt ?exp) = Some ?exp" by (rule parseInt64_formatInt [OF assms(2,3)])
  ultimately have "VerifyUnlockToken mac now secret i' h' (IssueUnlockToken mac t secret i h) =
      (unixSeconds now \<le> ?exp \<and> formatInt i @ '':'' @ formatInt ?exp @ '':'' @ h = formatInt i' @ '':'' @ formatInt ?exp @ '':'' @ h')"
    by (simp only: verify_parts [OF assms(1)] option.case)
  then show ?thesis using token_message_inj [of i ?exp h i' ?exp h'] by blast
qed

text \<open>A MAC with both properties: it numbers the message and prints the number in unary.\<close>

definition tallyMac :: "string \<Rightarrow> string \<Rightarrow> string" where
  "tallyMac secret msg = replicate (to_nat msg) CHR ''a''"

lemma tallyMac_good: "goodMac tallyMac secret"
  by (auto simp: goodMac_def tallyMac_def inj_def dest: arg_cong [of _ _ size])

lemma unlock_token_is_bound_witness:
  "VerifyUnlockToken tallyMac (62135596800 * second + hour) ''key'' 7 ''h''
     (IssueUnlockToken tallyMac (62135596800 * second) ''key'' 7 ''h'') \<and>
   \<not> VerifyUnlockToken tallyMac (62135596800 * second + hour) ''key'' 7 ''new''
     (IssueUnlockToken tallyMac (62135596800 * second) ''key'' 7 ''h'')"
proof -
  have e: "unixSeconds (62135596800 * second + unlockTokenTTL) = 86400"
    "unixSeconds (62135596800 * second + hour) = 3600"
    by (simp_all add: unixSeconds_def unlockTokenTTL_def hour_def minute_def second_def)
  show ?thesis
    using unlock_token_is_bound [OF tallyMac_good [of "''key''"], of "62135596800 * second"
        "62135596800 * second + hour" 7 "''h''" 7 "''h''"]
      unlock_token_is_bound [OF tallyMac_good [of "''key''"], of "62135596800 * second"
        "62135596800 * second + hour" 7 "''new''" 7 "''h''"]
    by (simp add: e)
qed

lemma verify_same_hash:
  assumes "goodMac mac secret" "VerifyUnlockToken mac now secret i h token" "VerifyUnlockToken mac now' secret i h' token"
  shows "h = h'"
proof -
  obtain exp e where t: "token = mac secret (formatInt i @ '':'' @ formatInt exp @ '':'' @ h) @ ''.'' @ e"
    "parseInt64 e = Some exp"
    using verify_shape [OF assms(2)] by blast
  have "formatInt i @ '':'' @ formatInt exp @ '':'' @ h = formatInt i @ '':'' @ formatInt exp @ '':'' @ h'"
    using assms(3) by (simp only: t(1) verify_parts [OF assms(1)] t(2) option.case)
  then show ?thesis by simp
qed

lemma CheckUnlock_None:
  "CheckUnlock mac now secret i h token = None \<longleftrightarrow>
     (case h of None \<Rightarrow> True | Some x \<Rightarrow> token \<noteq> [] \<and> VerifyUnlockToken mac now secret i x token)"
  by (auto simp: CheckUnlock_def split: option.splits)

section \<open>What the gate relies on, and what it gives\<close>

text \<open>A folder of the caller's that the token, if it needs one, opens at this moment.\<close>

definition folderOpened ::
  "(string \<Rightarrow> string \<Rightarrow> string) \<Rightarrow> gotime \<Rightarrow> string \<Rightarrow> int \<Rightarrow> int \<Rightarrow> string \<Rightarrow> content \<Rightarrow> string option \<Rightarrow> bool" where
  "folderOpened mac now key uid i token db h =
     ((\<exists>f\<in>set (folders db). fUser f = uid \<and> fId f = i \<and> fHash f = h) \<and>
      (case h of None \<Rightarrow> True | Some x \<Rightarrow> VerifyUnlockToken mac now key i x token))"

lemma opened_same_hash:
  "goodMac mac key \<Longrightarrow> folderOpened mac now key uid i token db h \<Longrightarrow> folderOpened mac now' key uid i token db' h' \<Longrightarrow>
   h = h' \<or> h = None \<or> h' = None"
  using verify_same_hash by (fastforce simp: folderOpened_def split: option.splits)

text \<open>
  The gate relies on a lookup that finds a hash only for a folder the caller owns, and finds the hash the
  folder has then.
\<close>

locale hash_lookup =
  fixes lookup :: "int \<Rightarrow> int \<Rightarrow> content \<Rightarrow> contentErr + string option"
  assumes lookup_owned: "lookup uid i db = Inr h \<Longrightarrow> \<exists>f\<in>set (folders db). fUser f = uid \<and> fId f = i \<and> fHash f = h"
    and lookup_foreign: "\<not> (\<exists>f\<in>set (folders db). fUser f = uid \<and> fId f = i) \<Longrightarrow> lookup uid i db = Inl ErrNotFound"
begin

lemma check_opened:
  "GateCheck mac now \<lparr>gLookup = Some lookup, gKey = key\<rparr> uid i token db = None \<Longrightarrow>
   \<exists>h. folderOpened mac now key uid i token db h"
  using lookup_owned by (fastforce simp: GateCheck_def folderOpened_def CheckUnlock_None split: sum.splits option.splits)

lemma foreign_hidden:
  "\<not> (\<exists>f\<in>set (folders db). fUser f = uid \<and> fId f = i) \<Longrightarrow>
   GateCheck mac now \<lparr>gLookup = Some lookup, gKey = key\<rparr> uid i token db = Some ErrNotFound"
  using lookup_foreign by (simp add: GateCheck_def)

lemma listed_opened:
  assumes "ListWithContentGate mac \<lparr>gLookup = Some lookup, gKey = key\<rparr> uid (Some i) token lst s0 db1 s2 = Inr out"
  shows "lst db1 = Inr out \<and> (\<exists>h0 h2. folderOpened mac (fst s0) key uid i token (snd s0) h0 \<and>
    folderOpened mac (fst s2) key uid i token (snd s2) h2)"
  using assms check_opened [of mac "fst s0" key uid i token "snd s0"] check_opened [of mac "fst s2" key uid i token "snd s2"]
  by (auto simp: ListWithContentGate_def split: option.splits sum.splits)

end

lemma folderOf_Some: "folderOf uid i db = Some f \<Longrightarrow> f \<in> set (folders db) \<and> fUser f = uid \<and> fId f = i"
  unfolding folderOf_def by (drule find_SomeD) simp

lemma folderOf_None: "folderOf uid i db = None \<longleftrightarrow> \<not> (\<exists>f\<in>set (folders db). fUser f = uid \<and> fId f = i)"
  by (auto simp: folderOf_def find_None_iff)

interpretation repo: hash_lookup PasswordHashFor
proof
  show "\<exists>f\<in>set (folders db). fUser f = uid \<and> fId f = i \<and> fHash f = h"
    if "PasswordHashFor uid i db = Inr h" for uid i db h
    using that folderOf_Some [of uid i db] by (auto simp: PasswordHashFor_def split: option.splits)
  show "PasswordHashFor uid i db = Inl ErrNotFound"
    if "\<not> (\<exists>f\<in>set (folders db). fUser f = uid \<and> fId f = i)" for uid i db
    using that [folded folderOf_None] by (simp add: PasswordHashFor_def)
qed

text \<open>
  C29. What a folder-scoped list returns was fetched between two moments at which the folder belonged to
  the caller and was open to them: unprotected, or the token verified against the hash it had then.
  When it was protected at both moments, the password had not changed in between, so nothing read
  under a replaced password is ever returned; and a folder of somebody else answers not found.
\<close>

theorem gated_list_is_current:
  assumes "goodMac mac key"
    and "ListWithContentGate mac \<lparr>gLookup = Some PasswordHashFor, gKey = key\<rparr> uid (Some i) token lst (t0, db0) db1 (t2, db2) = Inr out"
  shows "lst db1 = Inr out \<and>
    (\<exists>h0 h2. folderOpened mac t0 key uid i token db0 h0 \<and> folderOpened mac t2 key uid i token db2 h2 \<and>
       (h0 = h2 \<or> h0 = None \<or> h2 = None))"
  using repo.listed_opened [OF assms(2)] opened_same_hash [OF assms(1)]
  by (metis fst_conv snd_conv)

definition openFolder :: folder where
  "openFolder = \<lparr>fId = 7, fUser = 1, fName = ''f'', fColor = ''#fff'', fParent = None, fCreated = 1,
     fHash = Some ''h'', fHint = None\<rparr>"

lemma gated_list_is_current_witness:
  "ListWithContentGate tallyMac \<lparr>gLookup = Some PasswordHashFor, gKey = ''key''\<rparr> 1 (Some 7)
     (IssueUnlockToken tallyMac (62135596800 * second) ''key'' 7 ''h'') (\<lambda>db. Inr (length (folders db)))
     (62135596800 * second, emptyContent\<lparr>folders := [openFolder]\<rparr>) (emptyContent\<lparr>folders := [openFolder]\<rparr>)
     (62135596800 * second + hour, emptyContent\<lparr>folders := [openFolder\<lparr>fHash := Some ''new''\<rparr>]\<rparr>) = Inl ErrLocked"
proof (rule ccontr)
  let ?tok = "IssueUnlockToken tallyMac (62135596800 * second) ''key'' 7 ''h''"
  let ?g = "\<lparr>gLookup = Some PasswordHashFor, gKey = ''key''\<rparr>"
  let ?db = "emptyContent\<lparr>folders := [openFolder]\<rparr>"
  let ?new = "emptyContent\<lparr>folders := [openFolder\<lparr>fHash := Some ''new''\<rparr>]\<rparr>"
  let ?r = "ListWithContentGate tallyMac ?g 1 (Some 7) ?tok (\<lambda>db. Inr (length (folders db)))
     (62135596800 * second, ?db) ?db (62135596800 * second + hour, ?new)"
  assume "?r \<noteq> Inl ErrLocked"
  moreover have "\<exists>out. ?r = Inr out \<or> ?r = Inl ErrLocked"
    by (auto simp: ListWithContentGate_def GateCheck_def PasswordHashFor_def folderOf_def openFolder_def
        CheckUnlock_def split: option.splits)
  ultimately obtain out where "?r = Inr out" by auto
  from gated_list_is_current [OF tallyMac_good this]
  have "VerifyUnlockToken tallyMac (62135596800 * second) ''key'' 7 ''h'' ?tok"
    "VerifyUnlockToken tallyMac (62135596800 * second + hour) ''key'' 7 ''new'' ?tok"
    by (auto simp: folderOpened_def openFolder_def)
  from verify_same_hash [OF tallyMac_good this] show False by simp
qed

lemma entityFolder_owned:
  assumes "entityFolderID table uid i db = Inr fo" "entityTable table"
  shows "(table = ''link'' \<and> (\<exists>l\<in>set (links db). lkUser l = uid \<and> lkId l = i \<and> lkFolder l = fo)) \<or>
    (table = ''note'' \<and> (\<exists>n\<in>set (noteRows db). nUser n = uid \<and> nId n = i \<and> nFolder n = fo))"
proof (cases "table = ''link''")
  case True
  with assms obtain l where "find (\<lambda>l. lkUser l = uid \<and> lkId l = i) (links db) = Some l" "lkFolder l = fo"
    by (auto simp: entityFolderID_def split: option.splits)
  then show ?thesis using True find_SomeD [of _ "links db" l] by auto
next
  case False
  with assms obtain n where "noteOf uid i db = Some n" "nFolder n = fo" "table = ''note''"
    by (auto simp: entityFolderID_def entityTable_def split: option.splits)
  then show ?thesis using find_SomeD [of _ "noteRows db" n] by (auto simp: noteOf_def)
qed

lemma commits_keep: "row \<in> set held \<Longrightarrow> rowKept db (commits held f db) row"
  by (cases row) (auto simp: commits_def list_all_iff)

lemma locked_entity_kept:
  assumes "lockEntity table uid i db = Inr (fo, row)" "row \<in> set held"
  shows "entityFolderID table uid i (commits held f db) = Inr fo"
  using assms(1) commits_keep [OF assms(2), of db f]
  by (auto simp: lockEntity_def entityFolderID_def split: sum.splits if_splits)

lemma locked_folder_kept:
  assumes "folderOf uid i db = Some row" "FolderRow uid i \<in> set held"
  shows "folderOf uid i (commits held f db) = Some row"
  using commits_keep [OF assms(2), of db f] assms(1) by simp

lemma commits_free [simp]: "commits [] f db = f db"
  by (simp add: commits_def)

lemma gate_passes:
  assumes "CheckEntityFolderTx mac now table uid i secret token others1 others2 db0 = (None, held, db2)"
  shows "\<exists>fo hash locks row. entityTable table \<and> lockFolder uid fo (others1 db0) = (hash, locks) \<and>
    db2 = commits locks others2 (others1 db0) \<and> lockEntity table uid i db2 = Inr (fo, row) \<and> held = row # locks \<and>
    (case fo of None \<Rightarrow> True | Some f \<Rightarrow> CheckUnlock mac now secret f hash token = None)"
proof -
  have "entityTable table" using assms by (cases "entityTable table") (simp_all add: CheckEntityFolderTx_def)
  moreover obtain fo where fo: "entityFolderID table uid i db0 = Inr fo"
    using assms \<open>entityTable table\<close> by (cases "entityFolderID table uid i db0") (simp_all add: CheckEntityFolderTx_def)
  moreover obtain hash locks where l: "lockFolder uid fo (others1 db0) = (hash, locks)" by fastforce
  moreover obtain lo row where e: "lockEntity table uid i (commits locks others2 (others1 db0)) = Inr (lo, row)"
    using assms \<open>entityTable table\<close> fo l
    by (cases "lockEntity table uid i (commits locks others2 (others1 db0))") (auto simp: CheckEntityFolderTx_def)
  moreover have "lo = fo"
    using assms \<open>entityTable table\<close> fo l e by (simp add: CheckEntityFolderTx_def Let_def split: if_splits)
  ultimately show ?thesis
    using assms by (cases fo) (auto simp: CheckEntityFolderTx_def Let_def)
qed

text \<open>
  C30. The gate on a mutation sees through a concurrent move or password change, at whatever moment the
  other transactions commit: between its statements, or before the mutation writes.  When it lets a link
  or note through, then in the state the mutation writes to the row is the caller's, and it lies in no
  folder or in one that has no password then, or whose password then is the one the token verifies
  against.  The exception, which the code allows, is a folder that had already been deleted when the gate
  came to lock it.
\<close>

theorem mutation_gate_is_current:
  assumes "CheckEntityFolderTx mac now table uid i secret token others1 others2 db0 = (None, held, db2)"
    and "db3 = commits held others3 db2"
  shows "\<exists>fo. ((table = ''link'' \<and> (\<exists>l\<in>set (links db3). lkUser l = uid \<and> lkId l = i \<and> lkFolder l = fo)) \<or>
      (table = ''note'' \<and> (\<exists>n\<in>set (noteRows db3). nUser n = uid \<and> nId n = i \<and> nFolder n = fo))) \<and>
    (case fo of
       None \<Rightarrow> True
     | Some f \<Rightarrow> folderOf uid f (others1 db0) = None \<or>
         (\<exists>row. folderOf uid f db3 = Some row \<and>
            (case fHash row of None \<Rightarrow> True | Some h \<Rightarrow> token \<noteq> [] \<and> VerifyUnlockToken mac now secret f h token)))"
proof -
  obtain fo hash locks row where fo: "entityTable table" "lockFolder uid fo (others1 db0) = (hash, locks)"
    "db2 = commits locks others2 (others1 db0)" "lockEntity table uid i db2 = Inr (fo, row)" "held = row # locks"
    "case fo of None \<Rightarrow> True | Some f \<Rightarrow> CheckUnlock mac now secret f hash token = None"
    using gate_passes [OF assms(1)] by blast
  have e: "entityFolderID table uid i db3 = Inr fo" unfolding assms(2) by (rule locked_entity_kept [OF fo(4)]) (simp add: fo(5))
  show ?thesis
  proof (intro exI [of _ fo] conjI entityFolder_owned [OF e fo(1)])
    show "case fo of None \<Rightarrow> True | Some f \<Rightarrow> folderOf uid f (others1 db0) = None \<or>
       (\<exists>row. folderOf uid f db3 = Some row \<and>
          (case fHash row of None \<Rightarrow> True | Some h \<Rightarrow> token \<noteq> [] \<and> VerifyUnlockToken mac now secret f h token))"
    proof (cases "\<exists>f r. fo = Some f \<and> folderOf uid f (others1 db0) = Some r")
      case True
      then obtain f r where r: "fo = Some f" "folderOf uid f (others1 db0) = Some r" by blast
      then have l: "hash = fHash r" "FolderRow uid f \<in> set locks" using fo(2) by (auto simp: lockFolder_def)
      have "folderOf uid f db3 = Some r"
        unfolding assms(2) fo(3) by (rule locked_folder_kept [OF locked_folder_kept [OF r(2) l(2)]]) (simp add: fo(5) l(2))
      then show ?thesis using fo(6) r l(1) by (auto simp: CheckUnlock_None split: option.splits)
    qed (auto split: option.splits)
  qed
qed

text \<open>
  A note in a protected folder and a good token.  The owner's other request wants to change the folder's
  password while the gate is at work, and has to wait.
\<close>

definition gatedDb :: content where
  "gatedDb = emptyContent\<lparr>noteRows := [\<lparr>nId = 1, nUser = 1, nTitle = ''t'', nSlug = ''t'', nBody = [],
     nText = [], nFolder = Some 7, nPinned = False, nPublic = False, nCreated = 1, nUpdated = 1\<rparr>], folders := [openFolder]\<rparr>"

definition repassword :: "content \<Rightarrow> content" where
  "repassword db = db\<lparr>folders := map (\<lambda>f. f\<lparr>fHash := Some ''new''\<rparr>) (folders db)\<rparr>"

lemma mutation_gate_is_current_witness:
  "let tok = IssueUnlockToken tallyMac (62135596800 * second) ''key'' 7 ''h'';
       (answer, held, db2) = CheckEntityFolderTx tallyMac (62135596800 * second) ''note'' 1 1 ''key'' tok (\<lambda>db. db) repassword gatedDb;
       db3 = commits held repassword db2
   in answer = None \<and> (\<exists>row. folderOf 1 7 db3 = Some row \<and> fHash row = Some ''h'' \<and>
        VerifyUnlockToken tallyMac (62135596800 * second) ''key'' 7 ''h'' tok)"
proof -
  let ?now = "62135596800 * second :: gotime"
  let ?tok = "IssueUnlockToken tallyMac ?now ''key'' 7 ''h''" and ?held = "[NoteRow 1 1, FolderRow 1 7]"
  have e: "unixSeconds (?now + unlockTokenTTL) = 86400" "unixSeconds ?now = 0"
    by (simp_all add: unixSeconds_def unlockTokenTTL_def hour_def minute_def second_def)
  have v: "VerifyUnlockToken tallyMac ?now ''key'' 7 ''h'' ?tok"
    using unlock_token_is_bound [OF tallyMac_good [of "''key''"], of ?now ?now 7 "''h''" 7 "''h''"] by (simp add: e)
  have n: "?tok \<noteq> []" by (simp add: IssueUnlockToken_def Let_def)
  have blocked: "commits [FolderRow 1 7] repassword gatedDb = gatedDb" "commits ?held repassword gatedDb = gatedDb"
    by (simp_all add: commits_def repassword_def gatedDb_def folderOf_def openFolder_def)
  have lock: "lockFolder 1 (Some 7) gatedDb = (Some ''h'', [FolderRow 1 7])"
    "lockEntity ''note'' 1 1 gatedDb = Inr (Some 7, NoteRow 1 1)" "entityFolderID ''note'' 1 1 gatedDb = Inr (Some 7)"
    by (simp_all add: lockFolder_def lockEntity_def entityFolderID_def noteOf_def gatedDb_def folderOf_def openFolder_def)
  have c: "CheckEntityFolderTx tallyMac ?now ''note'' 1 1 ''key'' ?tok (\<lambda>db. db) repassword gatedDb = (None, ?held, gatedDb)"
    using v n by (simp add: CheckEntityFolderTx_def entityTable_def lock blocked CheckUnlock_def)
  have f: "folderOf 1 7 gatedDb = Some openFolder" "fHash openFolder = Some ''h''"
    by (simp_all add: folderOf_def gatedDb_def openFolder_def)
  have "nFolder n = Some 7" if "n \<in> set (noteRows gatedDb)" for n
    using that by (simp add: gatedDb_def)
  then show ?thesis using mutation_gate_is_current [OF c refl, of repassword] f c blocked(2) by (auto simp: Let_def)
qed

end
