(* ===== verification/NoteMedia.thy ===== *)
theory NoteMedia
  imports Content "HOL-Library.Char_ord" "HOL-Library.List_Lexorder" "HOL-Library.Product_Lexorder"
begin

text \<open>
  Inline note media, \<open>backend/internal/notemedia\<close>: which object keys a note's HTML mentions
  (\<open>keys.go\<close>), the ownership rows, leases and references (\<open>repository.go\<close>), and the sweeper
  (\<open>repository_system.go\<close>).  The object store is the list of the keys it holds; deleting from it may
  fail, and \<open>del\<close> stands for the \<open>ObjectDeleter\<close> port.
\<close>

section \<open>Keys in HTML\<close>

text \<open>
  The regular expression \<open>proxyKeyRE\<close> as a scanner: a value is cut into literal characters and
  references.  A reference stands at the start of the value or right after a delimiter.
\<close>

datatype piece = PLit char | PRef string

definition isMediaDelim :: "char \<Rightarrow> bool" where
  "isMediaDelim c = ((of_char c :: nat) \<in> {34, 39, 9, 10, 12, 13, 32, 40, 61})"

definition isKeyChar :: "char \<Rightarrow> bool" where
  "isKeyChar c = (let n = (of_char c :: nat)
     in 65 \<le> n \<and> n \<le> 90 \<or> 97 \<le> n \<and> n \<le> 122 \<or> 48 \<le> n \<and> n \<le> 57 \<or> n = 46 \<or> n = 95 \<or> n = 45)"

definition filesMarker :: string where
  "filesMarker = ''/api/files/''"

definition notesPrefix :: string where
  "notesPrefix = ''notes/''"

definition stripPrefix :: "string \<Rightarrow> string \<Rightarrow> string option" where
  "stripPrefix p s = (if take (length p) s = p then Some (drop (length p) s) else None)"

definition fileMatch :: "string \<Rightarrow> (string \<times> string) option" where
  "fileMatch s =
     (case stripPrefix (filesMarker @ notesPrefix) s of
        None \<Rightarrow> None
      | Some r \<Rightarrow> if takeWhile isKeyChar r = [] then None
                   else Some (notesPrefix @ takeWhile isKeyChar r, dropWhile isKeyChar r))"

lemma stripPrefix_Some: "stripPrefix p s = Some r \<longleftrightarrow> s = p @ r"
  by (auto simp: stripPrefix_def) (metis append_take_drop_id)

lemma fileMatch_Some:
  "fileMatch s = Some (k, rest) \<Longrightarrow>
   \<exists>ks. k = notesPrefix @ ks \<and> ks \<noteq> [] \<and> list_all isKeyChar ks \<and> s = filesMarker @ k @ rest \<and>
     (rest \<noteq> [] \<longrightarrow> \<not> isKeyChar (hd rest))"
  by (auto simp: fileMatch_def stripPrefix_Some list_all_iff hd_dropWhile split: option.splits if_splits
      dest: set_takeWhileD)

function midPieces :: "string \<Rightarrow> piece list" where
  "midPieces [] = []"
| "midPieces (c # s) =
     (if isMediaDelim c
      then (case fileMatch s of
              Some (k, rest) \<Rightarrow> PLit c # PRef k # midPieces rest
            | None \<Rightarrow> PLit c # midPieces s)
      else PLit c # midPieces s)"
  by pat_completeness auto
termination
  by (relation "measure length") (auto dest!: fileMatch_Some)

definition pieces :: "string \<Rightarrow> piece list" where
  "pieces s = (case fileMatch s of Some (k, rest) \<Rightarrow> PRef k # midPieces rest | None \<Rightarrow> midPieces s)"

fun pieceText :: "piece \<Rightarrow> string" where
  "pieceText (PLit c) = [c]"
| "pieceText (PRef k) = filesMarker @ k"

fun pieceKeys :: "piece \<Rightarrow> string list" where
  "pieceKeys (PLit c) = []"
| "pieceKeys (PRef k) = [k]"

definition Keys :: "string list \<Rightarrow> string list" where
  "Keys values = sort (remdups (concat (map (\<lambda>v. concat (map pieceKeys (pieces v))) values)))"

fun mapPiece :: "(string \<Rightarrow> string option) \<Rightarrow> piece \<Rightarrow> piece" where
  "mapPiece m (PLit c) = PLit c"
| "mapPiece m (PRef k) = PRef (case m k of None \<Rightarrow> k | Some k' \<Rightarrow> k')"

definition Rewrite :: "string \<Rightarrow> (string \<Rightarrow> string option) \<Rightarrow> string" where
  "Rewrite v m = concat (map (pieceText \<circ> mapPiece m) (pieces v))"

section \<open>Leases and references\<close>

definition LeaseTTL :: duration where
  "LeaseTTL = 24 * hour"

definition DeleteBatchMax :: nat where
  "DeleteBatchMax = 100"

definition objectDeleteMax :: nat where
  "objectDeleteMax = 1000"

text \<open>The check constraint \<open>note_media_key_format\<close>.\<close>

definition isHexLower :: "char \<Rightarrow> bool" where
  "isHexLower c = (let n = (of_char c :: nat) in 48 \<le> n \<and> n \<le> 57 \<or> 97 \<le> n \<and> n \<le> 102)"

definition uuidShape :: "string \<Rightarrow> bool" where
  "uuidShape s = (length s = 36 \<and>
     list_all (\<lambda>(i, c). if i \<in> {8, 13, 18, 23} then c = CHR ''-'' else isHexLower c) (zip [0..<36] s))"

definition mediaKeyFormat :: "string \<Rightarrow> bool" where
  "mediaKeyFormat key = (case stripPrefix notesPrefix key of
     None \<Rightarrow> False
   | Some r \<Rightarrow> uuidShape (take 36 r) \<and>
       drop 36 r \<in> {''.jpg'', ''.jpeg'', ''.png'', ''.gif'', ''.webp''})"

definition accountExists :: "int \<Rightarrow> content \<Rightarrow> bool" where
  "accountExists uid db = list_ex (\<lambda>m. msUser m = uid) (masters db)"

definition RegisterLease :: "gotime \<Rightarrow> int \<Rightarrow> string \<Rightarrow> content \<Rightarrow> contentErr + content" where
  "RegisterLease now uid key db =
     (if list_ex (\<lambda>m. mdKey m = key) (mediaRows db) \<or> \<not> mediaKeyFormat key \<or> \<not> accountExists uid db
      then Inl ErrConstraint
      else Inr (db\<lparr>mediaRows := mediaRows db @ [\<lparr>mdKey = key, mdUser = uid, mdLease = Some (now + LeaseTTL)\<rparr>]\<rparr>))"

definition dropMedia :: "(media \<Rightarrow> bool) \<Rightarrow> content \<Rightarrow> content" where
  "dropMedia P db =
     db\<lparr>mediaRows := filter (\<lambda>m. \<not> (P m \<and> \<not> referenced m (mediaRefs db))) (mediaRows db)\<rparr>"

definition ForgetLease :: "int \<Rightarrow> string \<Rightarrow> content \<Rightarrow> content" where
  "ForgetLease uid key = dropMedia (\<lambda>m. mdUser m = uid \<and> mdKey m = key)"

definition expireReleased :: "gotime \<Rightarrow> int \<Rightarrow> string list \<Rightarrow> content \<Rightarrow> string list \<times> content" where
  "expireReleased now uid keys db =
     (if keys = [] then ([], db)
      else let hit = (\<lambda>m. mdUser m = uid \<and> mdKey m \<in> set keys \<and> \<not> referenced m (mediaRefs db))
           in (map mdKey (filter hit (mediaRows db)),
               db\<lparr>mediaRows := map (\<lambda>m. if hit m then m\<lparr>mdLease := Some now\<rparr> else m) (mediaRows db)\<rparr>))"

text \<open>\<open>INSERT ... ON CONFLICT DO NOTHING\<close> into \<open>note_media_ref\<close>, whose key is \<open>(note_id, object_key)\<close>.\<close>

definition insertRef :: "mediaRef list \<Rightarrow> mediaRef \<Rightarrow> mediaRef list" where
  "insertRef refs r =
     (if list_ex (\<lambda>x. mrNote x = mrNote r \<and> mrKey x = mrKey r) refs then refs else refs @ [r])"

definition noteExists :: "int \<Rightarrow> int \<Rightarrow> content \<Rightarrow> bool" where
  "noteExists uid i db = list_ex (\<lambda>n. nUser n = uid \<and> nId n = i) (noteRows db)"

definition insertRefs :: "mediaRef list \<Rightarrow> content \<Rightarrow> contentErr + content" where
  "insertRefs new db =
     (if list_all (\<lambda>r. noteExists (mrUser r) (mrNote r) db) new
      then Inr (db\<lparr>mediaRefs := foldl insertRef (mediaRefs db) new\<rparr>) else Inl ErrConstraint)"

definition claimKeys :: "int \<Rightarrow> string list \<Rightarrow> content \<Rightarrow> content" where
  "claimKeys uid keys db = db\<lparr>mediaRows := map (\<lambda>m.
     if mdUser m = uid \<and> mdKey m \<in> set keys \<and> referenced m (mediaRefs db) then m\<lparr>mdLease := None\<rparr> else m)
     (mediaRows db)\<rparr>"

definition releaseRefs ::
  "gotime \<Rightarrow> int \<Rightarrow> (mediaRef \<Rightarrow> bool) \<Rightarrow> content \<Rightarrow> string list \<times> content" where
  "releaseRefs now uid P db =
     expireReleased now uid (map mrKey (filter P (mediaRefs db))) (deleteRefs now P db)"

definition SyncRefs ::
  "gotime \<Rightarrow> int \<Rightarrow> int \<Rightarrow> string list \<Rightarrow> content \<Rightarrow> contentErr + (string list \<times> content)" where
  "SyncRefs now uid i keys db =
     (let stale = (\<lambda>r. mrUser r = uid \<and> mrNote r = i \<and> mrKey r \<notin> set keys);
          released = map mrKey (filter stale (mediaRefs db));
          db1 = deleteRefs now stale db
      in if keys = [] then Inr (expireReleased now uid released db1)
         else rbind (insertRefs (map (\<lambda>m. \<lparr>mrUser = uid, mrNote = i, mrKey = mdKey m\<rparr>)
                                   (filter (\<lambda>m. mdUser m = uid \<and> mdKey m \<in> set keys) (mediaRows db1))) db1)
                (\<lambda>db2. Inr (expireReleased now uid released (claimKeys uid keys db2))))"

definition ReleaseNoteRefs :: "gotime \<Rightarrow> int \<Rightarrow> int \<Rightarrow> content \<Rightarrow> string list \<times> content" where
  "ReleaseNoteRefs now uid i = releaseRefs now uid (\<lambda>r. mrUser r = uid \<and> mrNote r = i)"

definition ReleaseFolderSubtreeRefs :: "gotime \<Rightarrow> int \<Rightarrow> int list \<Rightarrow> content \<Rightarrow> content" where
  "ReleaseFolderSubtreeRefs now uid sub db =
     snd (releaseRefs now uid (\<lambda>r. mrUser r = uid \<and>
       list_ex (\<lambda>n. nUser n = uid \<and> nId n = mrNote r \<and> (\<exists>f\<in>set sub. nFolder n = Some f)) (noteRows db)) db)"

definition ReleaseOwnerRefs :: "gotime \<Rightarrow> int \<Rightarrow> content \<Rightarrow> content" where
  "ReleaseOwnerRefs now uid db = snd (releaseRefs now uid (\<lambda>r. mrUser r = uid) db)"

definition RestoreRefs ::
  "gotime \<Rightarrow> int \<Rightarrow> string list \<Rightarrow> (int \<times> string) list \<Rightarrow> content \<Rightarrow> contentErr + content" where
  "RestoreRefs now uid keys refs db =
     (let fresh = map (\<lambda>k. \<lparr>mdKey = k, mdUser = uid, mdLease = Some (now + LeaseTTL)\<rparr>) keys
      in if \<not> distinct keys \<or> list_ex (\<lambda>k. list_ex (\<lambda>m. mdKey m = k) (mediaRows db) \<or> \<not> mediaKeyFormat k) keys
            \<or> (keys \<noteq> [] \<and> \<not> accountExists uid db)
         then Inl ErrConstraint
         else let db1 = db\<lparr>mediaRows := mediaRows db @ fresh\<rparr>
              in if refs = [] then Inr db1
                 else rbind (insertRefs (map (\<lambda>(i, k). \<lparr>mrUser = uid, mrNote = i, mrKey = k\<rparr>)
                               (filter (\<lambda>(i, k). list_ex (\<lambda>m. mdUser m = uid \<and> mdKey m = k) (mediaRows db1)) refs)) db1)
                        (\<lambda>db2. Inr (claimKeys uid keys db2)))"

section \<open>Deleting objects\<close>

text \<open>
  The port the clean-up deletes through: a call names keys, touches no other key, and when it reports
  success none of the named keys is left.  A failed call may have deleted some of them.
\<close>

locale object_store =
  fixes del :: "string list \<Rightarrow> string list \<Rightarrow> bool \<times> string list"
  assumes del_spares: "x \<in> set st \<Longrightarrow> x \<notin> set ks \<Longrightarrow> x \<in> set (snd (del ks st))"
    and del_shrinks: "set (snd (del ks st)) \<subseteq> set st"
    and del_deletes: "fst (del ks st) \<Longrightarrow> x \<in> set ks \<Longrightarrow> x \<notin> set (snd (del ks st))"

text \<open>
  \<open>uploaderObjectDeleter.DeleteObjects\<close> of \<open>backend/internal/notes/repository.go\<close>, the adapter that loops
  the single-object delete and stops at the first error; \<open>down key\<close> says that deleting \<open>key\<close> fails.
\<close>

fun uploaderDeleteObjects :: "(string \<Rightarrow> bool) \<Rightarrow> string list \<Rightarrow> string list \<Rightarrow> bool \<times> string list" where
  "uploaderDeleteObjects down [] st = (True, st)"
| "uploaderDeleteObjects down (k # ks) st =
     (if down k then (False, st) else uploaderDeleteObjects down ks (filter (\<lambda>x. x \<noteq> k) st))"

text \<open>
  \<open>Client.DeleteObjects\<close> of \<open>backend/internal/storage/client.go\<close>: one multi-delete of the distinct keys in
  order.  \<open>outcome key\<close> is what the object store reports for a key that reaches it; a reported failure may
  have removed the object all the same.  \<open>ended ks = Some P\<close> says that the context ended during the call and
  only the keys in \<open>P\<close> reached the store.
\<close>

datatype removal = Removed | NoSuchKey | RemoveFailed bool

fun objectGone :: "removal \<Rightarrow> bool" where
  "objectGone Removed = True"
| "objectGone NoSuchKey = True"
| "objectGone (RemoveFailed gone) = gone"

fun removalOk :: "removal \<Rightarrow> bool" where
  "removalOk (RemoveFailed gone) = False"
| "removalOk _ = True"

definition clientDeleteObjects ::
  "(string \<Rightarrow> removal) \<Rightarrow> (string list \<Rightarrow> (string \<Rightarrow> bool) option) \<Rightarrow> string list \<Rightarrow> string list \<Rightarrow> bool \<times> string list" where
  "clientDeleteObjects outcome ended keys st =
     (let ordered = sort (remdups keys)
      in if ordered = [] then (True, st)
         else let sent = (case ended ordered of None \<Rightarrow> ordered | Some P \<Rightarrow> filter P ordered);
                  firstErr = find (\<lambda>k. \<not> removalOk (outcome k)) sent
              in (firstErr = None \<and> ended ordered = None, filter (\<lambda>x. \<not> (x \<in> set sent \<and> objectGone (outcome x))) st))"

text \<open>The storage a clean-up is given: the client, which deletes in bulk, or an uploader that cannot.\<close>

datatype storagePort =
  BulkClient "string \<Rightarrow> removal" "string list \<Rightarrow> (string \<Rightarrow> bool) option"
| PlainUploader "string \<Rightarrow> bool"

fun asObjectDeleter :: "storagePort \<Rightarrow> string list \<Rightarrow> string list \<Rightarrow> bool \<times> string list" where
  "asObjectDeleter (BulkClient outcome ended) = clientDeleteObjects outcome ended"
| "asObjectDeleter (PlainUploader down) = uploaderDeleteObjects down"

function deleteStorageObjects ::
  "(string list \<Rightarrow> string list \<Rightarrow> bool \<times> string list) \<Rightarrow> string list \<Rightarrow> string list \<Rightarrow> bool \<times> string list" where
  "deleteStorageObjects del keys st =
     (if keys = [] then (True, st)
      else let (ok, st1) = del (take objectDeleteMax keys) st;
               (ok', st2) = deleteStorageObjects del (drop objectDeleteMax keys) st1
           in (ok \<and> ok', st2))"
  by pat_completeness auto
termination
  by (relation "measure (\<lambda>(del, keys, st). length keys)") (auto simp: objectDeleteMax_def)

declare deleteStorageObjects.simps [simp del]

definition deleteLockedObjects ::
  "(string list \<Rightarrow> string list \<Rightarrow> bool \<times> string list) \<Rightarrow> string list \<Rightarrow> string list \<Rightarrow>
   (string list \<times> bool) \<times> string list" where
  "deleteLockedObjects del keys st =
     (if keys = [] then (([], True), st)
      else case deleteStorageObjects del keys st of
             (True, st') \<Rightarrow> ((keys, True), st')
           | (False, st') \<Rightarrow> (([], False), st'))"

text \<open>
  Both clean-ups lock the rows they selected, delete the objects, then the rows, and commit; a failed
  commit (\<open>commitOk = False\<close>) brings the rows back but not the objects.  The result is the number of
  objects deleted, or an error.
\<close>

definition finishCleanup ::
  "bool \<Rightarrow> (media \<Rightarrow> bool) \<Rightarrow> (string list \<times> bool) \<times> string list \<Rightarrow> content \<Rightarrow>
   (contentErr + nat) \<times> content \<times> string list" where
  "finishCleanup commitOk mine r db =
     (case r of ((deleted, ok), st') \<Rightarrow>
        let db' = (if deleted = [] then db else dropMedia (\<lambda>m. mine m \<and> mdKey m \<in> set deleted) db)
        in if \<not> commitOk then (Inl ErrDb, db, st')
           else (if ok then Inr (length deleted) else Inl ErrDb, db', st'))"

definition ownedUnreferenced :: "int \<Rightarrow> string list \<Rightarrow> content \<Rightarrow> string list" where
  "ownedUnreferenced uid cands db = sort (map mdKey (filter
     (\<lambda>m. mdUser m = uid \<and> mdKey m \<in> set cands \<and> mdLease m \<noteq> None \<and> \<not> referenced m (mediaRefs db))
     (mediaRows db)))"

definition DeleteOwnedUnreferenced ::
  "bool \<Rightarrow> int \<Rightarrow> string list \<Rightarrow> (string list \<Rightarrow> string list \<Rightarrow> bool \<times> string list) option \<Rightarrow>
   content \<times> string list \<Rightarrow> (contentErr + nat) \<times> content \<times> string list" where
  "DeleteOwnedUnreferenced commitOk uid candidates storage s =
     (case (storage, s) of
        (None, _) \<Rightarrow> (Inr 0, s)
      | (Some del, (db, st)) \<Rightarrow>
          if candidates = [] then (Inr 0, s)
          else finishCleanup commitOk (\<lambda>m. mdUser m = uid)
                 (deleteLockedObjects del (ownedUnreferenced uid (take DeleteBatchMax candidates) db) st) db)"

definition expiredUnreferenced :: "gotime \<Rightarrow> (string \<Rightarrow> bool) \<Rightarrow> nat \<Rightarrow> content \<Rightarrow> string list" where
  "expiredUnreferenced now busy limit db =
     map snd (take limit (sort (map (\<lambda>m. (the (mdLease m), mdKey m)) (filter
       (\<lambda>m. (case mdLease m of None \<Rightarrow> False | Some t \<Rightarrow> t \<le> now) \<and> \<not> busy (mdKey m) \<and>
             \<not> referenced m (mediaRefs db)) (mediaRows db)))))"

definition SystemSweepExpired ::
  "bool \<Rightarrow> gotime \<Rightarrow> (string \<Rightarrow> bool) \<Rightarrow> (string list \<Rightarrow> string list \<Rightarrow> bool \<times> string list) option \<Rightarrow> int \<Rightarrow>
   content \<times> string list \<Rightarrow> (contentErr + nat) \<times> content \<times> string list" where
  "SystemSweepExpired commitOk now busy storage limit s =
     (case (storage, s) of
        (None, _) \<Rightarrow> (Inr 0, s)
      | (Some del, (db, st)) \<Rightarrow>
          let n = (if limit \<le> 0 \<or> int DeleteBatchMax < limit then DeleteBatchMax else nat limit)
          in finishCleanup commitOk (\<lambda>m. True) (deleteLockedObjects del (expiredUnreferenced now busy n db) st) db)"

lemma deleteStorage_unfold:
  "snd (deleteStorageObjects del keys st) =
     (if keys = [] then st
      else snd (deleteStorageObjects del (drop objectDeleteMax keys) (snd (del (take objectDeleteMax keys) st))))"
  "fst (deleteStorageObjects del keys st) =
     (if keys = [] then True
      else fst (del (take objectDeleteMax keys) st) \<and>
        fst (deleteStorageObjects del (drop objectDeleteMax keys) (snd (del (take objectDeleteMax keys) st))))"
  by (subst deleteStorageObjects.simps; simp split: prod.splits)+

context object_store begin

lemma deleteStorage_spares: "x \<in> set st \<Longrightarrow> x \<notin> set keys \<Longrightarrow> x \<in> set (snd (deleteStorageObjects del keys st))"
proof (induction "length keys" arbitrary: keys st rule: less_induct)
  case less
  show ?case
  proof (cases "keys = []")
    case True
    with less.prems show ?thesis by (simp add: deleteStorageObjects.simps)
  next
    case False
    obtain ok st1 where d: "del (take objectDeleteMax keys) st = (ok, st1)" by fastforce
    have "x \<in> set st1"
      using del_spares [OF less.prems(1), of "take objectDeleteMax keys"] less.prems(2) d by (auto dest: in_set_takeD)
    moreover have "length (drop objectDeleteMax keys) < length keys"
      using False by (simp add: objectDeleteMax_def)
    ultimately have "x \<in> set (snd (deleteStorageObjects del (drop objectDeleteMax keys) st1))"
      using less.hyps less.prems(2) by (meson in_set_dropD)
    then show ?thesis using False d by (simp add: deleteStorage_unfold(1) [of del keys])
  qed
qed

lemma deleteStorage_shrinks: "set (snd (deleteStorageObjects del keys st)) \<subseteq> set st"
proof (induction "length keys" arbitrary: keys st rule: less_induct)
  case less
  show ?case
  proof (cases "keys = []")
    case True
    then show ?thesis by (simp add: deleteStorageObjects.simps)
  next
    case False
    obtain ok st1 where d: "del (take objectDeleteMax keys) st = (ok, st1)" by fastforce
    have "set st1 \<subseteq> set st" using del_shrinks [of "take objectDeleteMax keys" st] d by simp
    moreover have "length (drop objectDeleteMax keys) < length keys"
      using False by (simp add: objectDeleteMax_def)
    then have "set (snd (deleteStorageObjects del (drop objectDeleteMax keys) st1)) \<subseteq> set st1" by (rule less.hyps)
    ultimately show ?thesis using False d by (simp add: deleteStorage_unfold(1) [of del keys])
  qed
qed

lemma deleteStorage_deletes:
  "fst (deleteStorageObjects del keys st) \<Longrightarrow> x \<in> set keys \<Longrightarrow> x \<notin> set (snd (deleteStorageObjects del keys st))"
proof (induction "length keys" arbitrary: keys st rule: less_induct)
  case less
  have ne: "keys \<noteq> []" using less.prems(2) by auto
  obtain ok st1 where d: "del (take objectDeleteMax keys) st = (ok, st1)" by fastforce
  obtain ok' st2 where r: "deleteStorageObjects del (drop objectDeleteMax keys) st1 = (ok', st2)" by fastforce
  have k: "ok" "ok'" "snd (deleteStorageObjects del keys st) = st2"
    using less.prems(1) ne d r by (simp_all add: deleteStorage_unfold [of del keys])
  have "x \<notin> set st2"
  proof (cases "x \<in> set (take objectDeleteMax keys)")
    case True
    then have "x \<notin> set st1" using del_deletes [of "take objectDeleteMax keys" st x] d k by simp
    then show ?thesis using deleteStorage_shrinks [of "drop objectDeleteMax keys" st1] r by auto
  next
    case False
    then have "x \<in> set (drop objectDeleteMax keys)"
      using less.prems(2) by (metis Un_iff append_take_drop_id set_append)
    moreover have "length (drop objectDeleteMax keys) < length keys" using ne by (simp add: objectDeleteMax_def)
    ultimately show ?thesis using less.hyps [of "drop objectDeleteMax keys" st1] r k by simp
  qed
  with k show ?case by simp
qed

lemma locked_spares:
  "deleteLockedObjects del keys st = ((deleted, ok), st') \<Longrightarrow>
   set deleted \<subseteq> set keys \<and> (\<forall>x. x \<in> set st \<longrightarrow> x \<notin> set keys \<longrightarrow> x \<in> set st') \<and>
   (\<forall>x. x \<in> set deleted \<longrightarrow> x \<notin> set st') \<and> (ok \<longrightarrow> deleted = keys)"
  using deleteStorage_spares [of _ st keys] deleteStorage_deletes [of keys st]
  by (auto simp: deleteLockedObjects_def split: if_splits prod.splits bool.splits)

end

lemma uploader_sub: "set (snd (uploaderDeleteObjects down ks st)) \<subseteq> set st"
  by (induction down ks st rule: uploaderDeleteObjects.induct) auto

lemma uploader_deletes:
  "fst (uploaderDeleteObjects down ks st) \<Longrightarrow> x \<in> set ks \<Longrightarrow> x \<notin> set (snd (uploaderDeleteObjects down ks st))"
proof (induction down ks st rule: uploaderDeleteObjects.induct)
  case (2 down k ks st)
  then show ?case using uploader_sub [of down ks "filter (\<lambda>x. x \<noteq> k) st"] by (auto split: if_splits)
qed simp

lemma uploader_spares: "x \<in> set st \<Longrightarrow> x \<notin> set ks \<Longrightarrow> x \<in> set (snd (uploaderDeleteObjects down ks st))"
  by (induction down ks st rule: uploaderDeleteObjects.induct) auto

interpretation looped: object_store "uploaderDeleteObjects down" for down
  by unfold_locales (fact uploader_spares uploader_sub uploader_deletes)+

lemma removalOk_gone: "removalOk r \<Longrightarrow> objectGone r"
  by (cases r) simp_all

interpretation bulk: object_store "clientDeleteObjects outcome ended" for outcome ended
proof
  fix x :: string and ks st
  show "x \<in> set (snd (clientDeleteObjects outcome ended ks st))" if "x \<in> set st" "x \<notin> set ks"
    using that by (auto simp: clientDeleteObjects_def Let_def split: option.splits)
  show "set (snd (clientDeleteObjects outcome ended ks st)) \<subseteq> set st"
    by (auto simp: clientDeleteObjects_def Let_def)
  show "x \<notin> set (snd (clientDeleteObjects outcome ended ks st))"
    if "fst (clientDeleteObjects outcome ended ks st)" "x \<in> set ks"
  proof -
    have "x \<in> set (sort (remdups ks))" using that(2) by simp
    then show ?thesis using that(1) removalOk_gone [of "outcome x"]
      by (auto simp: clientDeleteObjects_def Let_def find_None_iff simp del: set_sort set_remdups split: if_splits)
  qed
qed

interpretation port: object_store "asObjectDeleter storage" for storage
  by (cases storage) (simp_all add: looped.object_store_axioms bulk.object_store_axioms)

section \<open>The media invariant\<close>

definition mediaInv :: "content \<Rightarrow> bool" where
  "mediaInv db =
     (distinct (map mdKey (mediaRows db)) \<and>
      list_all (\<lambda>r. list_ex (\<lambda>m. mdUser m = mrUser r \<and> mdKey m = mrKey r) (mediaRows db)) (mediaRefs db) \<and>
      list_all (\<lambda>r. noteExists (mrUser r) (mrNote r) db) (mediaRefs db) \<and>
      list_all (\<lambda>m. (mdLease m = None) = referenced m (mediaRefs db)) (mediaRows db))"

lemma mediaInvD:
  assumes "mediaInv db"
  shows "distinct (map mdKey (mediaRows db))"
    "r \<in> set (mediaRefs db) \<Longrightarrow> \<exists>m\<in>set (mediaRows db). mdUser m = mrUser r \<and> mdKey m = mrKey r"
    "r \<in> set (mediaRefs db) \<Longrightarrow> noteExists (mrUser r) (mrNote r) db"
    "m \<in> set (mediaRows db) \<Longrightarrow> (mdLease m = None) = referenced m (mediaRefs db)"
  using assms by (auto simp: mediaInv_def list_all_iff list_ex_iff)

lemma referenced_iff: "referenced m refs \<longleftrightarrow> (\<exists>r\<in>set refs. mrUser r = mdUser m \<and> mrKey r = mdKey m)"
  by (simp add: referenced_def list_ex_iff)

lemma media_key_eq:
  "distinct (map mdKey ms) \<Longrightarrow> m \<in> set ms \<Longrightarrow> m' \<in> set ms \<Longrightarrow> mdKey m = mdKey m' \<Longrightarrow> m = m'"
  by (auto simp: distinct_map inj_on_def)

text \<open>Rewriting leases keeps keys and owners, so only the last conjunct has to be proved again.\<close>

lemma mediaInv_releases:
  assumes "mediaInv db" "\<And>m. mdKey (f m) = mdKey m \<and> mdUser (f m) = mdUser m" "set refs \<subseteq> set (mediaRefs db)"
    and "\<And>m. m \<in> set (mediaRows db) \<Longrightarrow> (mdLease (f m) = None) = referenced m refs"
    and "mediaRows db' = map f (mediaRows db)" "mediaRefs db' = refs" "noteRows db' = noteRows db"
  shows "mediaInv db'"
proof -
  have r: "referenced (f m) refs = referenced m refs" for m using assms(2) by (simp add: referenced_iff)
  have k: "map (mdKey \<circ> f) (mediaRows db) = map mdKey (mediaRows db)" using assms(2) by (simp add: comp_def)
  have "\<exists>m\<in>set (mediaRows db). mdUser (f m) = mrUser r \<and> mdKey (f m) = mrKey r" if "r \<in> set refs" for r
    using mediaInvD(2) [OF assms(1)] assms(2,3) that by auto
  moreover have "noteExists (mrUser r) (mrNote r) db" if "r \<in> set refs" for r
    using mediaInvD(3) [OF assms(1)] assms(3) that by auto
  ultimately show ?thesis
    using mediaInvD(1) [OF assms(1)] assms(4)
    by (simp add: mediaInv_def assms(5-7) k r list_all_iff list_ex_iff noteExists_def)
qed

lemma mediaInv_deleteRefs: "mediaInv db \<Longrightarrow> mediaInv (deleteRefs now P db)"
proof -
  assume i: "mediaInv db"
  have "(mdLease (if referenced m (filter P (mediaRefs db)) \<and> \<not> referenced m (filter (\<lambda>r. \<not> P r) (mediaRefs db))
           then m\<lparr>mdLease := Some now\<rparr> else m) = None) = referenced m (filter (\<lambda>r. \<not> P r) (mediaRefs db))"
    if "m \<in> set (mediaRows db)" for m
    using mediaInvD(4) [OF i that] by (auto simp: referenced_iff)
  then show ?thesis
    by (intro mediaInv_releases [OF i, where refs = "filter (\<lambda>r. \<not> P r) (mediaRefs db)"
          and f = "\<lambda>m. if referenced m (filter P (mediaRefs db)) \<and> \<not> referenced m (filter (\<lambda>r. \<not> P r) (mediaRefs db))
             then m\<lparr>mdLease := Some now\<rparr> else m"])
      (auto simp: deleteRefs_def Let_def)
qed

lemma mediaInv_expire: "mediaInv db \<Longrightarrow> mediaInv (snd (expireReleased now uid keys db))"
proof -
  assume i: "mediaInv db"
  have "(mdLease (if mdUser m = uid \<and> mdKey m \<in> set keys \<and> \<not> referenced m (mediaRefs db)
           then m\<lparr>mdLease := Some now\<rparr> else m) = None) = referenced m (mediaRefs db)"
    if "m \<in> set (mediaRows db)" for m
    using mediaInvD(4) [OF i that] by auto
  then have "mediaInv (db\<lparr>mediaRows := map (\<lambda>m. if mdUser m = uid \<and> mdKey m \<in> set keys \<and> \<not> referenced m (mediaRefs db)
           then m\<lparr>mdLease := Some now\<rparr> else m) (mediaRows db)\<rparr>)"
    by (intro mediaInv_releases [OF i, where refs = "mediaRefs db"
          and f = "\<lambda>m. if mdUser m = uid \<and> mdKey m \<in> set keys \<and> \<not> referenced m (mediaRefs db)
             then m\<lparr>mdLease := Some now\<rparr> else m"]) auto
  with i show ?thesis by (simp add: expireReleased_def Let_def)
qed

lemma mediaInv_releaseRefs: "mediaInv db \<Longrightarrow> mediaInv (snd (releaseRefs now uid P db))"
  by (simp add: releaseRefs_def mediaInv_expire mediaInv_deleteRefs)

lemma mediaInv_dropMedia: "mediaInv db \<Longrightarrow> mediaInv (dropMedia P db)"
  by (fastforce simp: mediaInv_def dropMedia_def list_all_iff list_ex_iff referenced_iff noteExists_def
      distinct_map inj_on_def)

lemma mediaInv_fresh:
  assumes "mediaInv db" "distinct keys" "\<And>k. k \<in> set keys \<Longrightarrow> \<not> list_ex (\<lambda>m. mdKey m = k) (mediaRows db)"
  shows "mediaInv (db\<lparr>mediaRows := mediaRows db @ map (\<lambda>k. \<lparr>mdKey = k, mdUser = uid, mdLease = Some t\<rparr>) keys\<rparr>)"
proof -
  have "\<not> referenced \<lparr>mdKey = k, mdUser = uid, mdLease = Some t\<rparr> (mediaRefs db)" if "k \<in> set keys" for k
    using mediaInvD(2) [OF assms(1)] assms(3) [OF that] by (fastforce simp: referenced_iff list_ex_iff)
  then show ?thesis using assms
    by (fastforce simp: mediaInv_def list_all_iff list_ex_iff noteExists_def comp_def)
qed

lemma mediaInv_Register: "mediaInv db \<Longrightarrow> RegisterLease now uid key db = Inr db' \<Longrightarrow> mediaInv db'"
  using mediaInv_fresh [of db "[key]" uid "now + LeaseTTL"] by (auto simp: RegisterLease_def split: if_splits)

lemma insertRef_set: "set refs \<subseteq> set (insertRef refs r)" "set (insertRef refs r) \<subseteq> insert r (set refs)"
  by (auto simp: insertRef_def)

lemma insertRefs_set:
  "set refs \<subseteq> set (foldl insertRef refs new)" "set (foldl insertRef refs new) \<subseteq> set refs \<union> set new"
proof (induction new arbitrary: refs)
  case (Cons r new)
  { case 1 show ?case using Cons(1) [of "insertRef refs r"] insertRef_set(1) [of refs r] by auto }
  { case 2 show ?case using Cons(2) [of "insertRef refs r"] insertRef_set(2) [of refs r] by auto }
qed simp_all

text \<open>Two databases with the same rows up to leases and the same notes.\<close>

lemma mediaInv_intro:
  assumes "mediaRows db' = map f (mediaRows db)" "noteRows db' = noteRows db"
    and "\<And>m. mdKey (f m) = mdKey m \<and> mdUser (f m) = mdUser m" "distinct (map mdKey (mediaRows db))"
    and "\<And>r. r \<in> set (mediaRefs db') \<Longrightarrow> \<exists>m\<in>set (mediaRows db). mdUser m = mrUser r \<and> mdKey m = mrKey r"
    and "\<And>r. r \<in> set (mediaRefs db') \<Longrightarrow> noteExists (mrUser r) (mrNote r) db"
    and "\<And>m. m \<in> set (mediaRows db) \<Longrightarrow> (mdLease (f m) = None) = referenced m (mediaRefs db')"
  shows "mediaInv db'"
proof -
  have r: "referenced (f m) refs = referenced m refs" for m refs using assms(3) by (simp add: referenced_iff)
  have k: "map (mdKey \<circ> f) (mediaRows db) = map mdKey (mediaRows db)" using assms(3) by (simp add: comp_def)
  show ?thesis
    using assms(3-7) by (simp add: mediaInv_def assms(1,2) k r list_all_iff list_ex_iff noteExists_def)
qed

lemma mediaInv_claim:
  assumes "mediaInv db" "insertRefs new db = Inr db'"
    and "\<And>r. r \<in> set new \<Longrightarrow> mrUser r = uid \<and> mrKey r \<in> set keys \<and>
           (\<exists>m\<in>set (mediaRows db). mdUser m = uid \<and> mdKey m = mrKey r)"
  shows "mediaInv (claimKeys uid keys db')"
proof -
  define refs where "refs = foldl insertRef (mediaRefs db) new"
  define f where "f = (\<lambda>m. if mdUser m = uid \<and> mdKey m \<in> set keys \<and> referenced m refs then m\<lparr>mdLease := None\<rparr> else m)"
  have db': "db' = db\<lparr>mediaRefs := refs\<rparr>" "list_all (\<lambda>r. noteExists (mrUser r) (mrNote r) db) new"
    using assms(2) by (simp_all add: insertRefs_def refs_def split: if_splits)
  have up: "set (mediaRefs db) \<subseteq> set refs" "set refs \<subseteq> set (mediaRefs db) \<union> set new"
    unfolding refs_def by (rule insertRefs_set)+
  have lease: "(mdLease (f m) = None) = referenced m refs" if "m \<in> set (mediaRows db)" for m
  proof (cases "mdUser m = uid \<and> mdKey m \<in> set keys")
    case True
    then show ?thesis using mediaInvD(4) [OF assms(1) that] up(1) by (auto simp: f_def referenced_iff)
  next
    case False
    then have "referenced m refs = referenced m (mediaRefs db)"
      using up assms(3) by (fastforce simp: referenced_iff)
    then show ?thesis using False mediaInvD(4) [OF assms(1) that] by (auto simp: f_def)
  qed
  have rows: "\<exists>m\<in>set (mediaRows db). mdUser m = mrUser r \<and> mdKey m = mrKey r" if "r \<in> set refs" for r
    using that up(2) mediaInvD(2) [OF assms(1), of r] assms(3) [of r] by auto
  have exist: "noteExists (mrUser r) (mrNote r) db" if "r \<in> set refs" for r
    using that up(2) mediaInvD(3) [OF assms(1), of r] db'(2) by (auto simp: list_all_iff)
  show ?thesis
    by (rule mediaInv_intro [of _ f db])
      (auto simp: claimKeys_def db'(1) lease rows exist mediaInvD(1) [OF assms(1)], auto simp: f_def)
qed

lemma mediaInv_SyncRefs:
  assumes "mediaInv db" "SyncRefs now uid i keys db = Inr (rel, db')"
  shows "mediaInv db'"
proof (cases "keys = []")
  case True
  with assms(2) have "db' = snd (expireReleased now uid (map mrKey (filter (\<lambda>r. mrUser r = uid \<and> mrNote r = i)
      (mediaRefs db))) (deleteRefs now (\<lambda>r. mrUser r = uid \<and> mrNote r = i) db))"
    by (simp add: SyncRefs_def Let_def)
  then show ?thesis by (simp only: mediaInv_expire [OF mediaInv_deleteRefs [OF assms(1)]])
next
  case False
  let ?stale = "\<lambda>r. mrUser r = uid \<and> mrNote r = i \<and> mrKey r \<notin> set keys"
  let ?db1 = "deleteRefs now ?stale db"
  let ?new = "map (\<lambda>m. \<lparr>mrUser = uid, mrNote = i, mrKey = mdKey m\<rparr>)
    (filter (\<lambda>m. mdUser m = uid \<and> mdKey m \<in> set keys) (mediaRows ?db1))"
  from assms(2) False obtain db2 where ins: "insertRefs ?new ?db1 = Inr db2"
    and db': "expireReleased now uid (map mrKey (filter ?stale (mediaRefs db))) (claimKeys uid keys db2) = (rel, db')"
    by (auto simp: SyncRefs_def Let_def rbind_Inr_iff)
  have "mediaInv (claimKeys uid keys db2)"
    by (rule mediaInv_claim [OF mediaInv_deleteRefs [OF assms(1)] ins]) auto
  from mediaInv_expire [OF this, of now uid "map mrKey (filter ?stale (mediaRefs db))"] show ?thesis
    by (simp only: db' snd_conv)
qed

lemma mediaInv_deleteNotes:
  assumes "mediaInv db"
  shows "mediaInv (deleteNotes now P db)"
proof -
  let ?Q = "\<lambda>r. list_ex (\<lambda>n. P n \<and> nUser n = mrUser r \<and> nId n = mrNote r) (noteRows db)"
  have i: "mediaInv (deleteRefs now ?Q db)" by (rule mediaInv_deleteRefs [OF assms])
  have "noteExists (mrUser r) (mrNote r) (db\<lparr>noteRows := filter (\<lambda>n. \<not> P n) (noteRows db)\<rparr>)"
    if "r \<in> set (mediaRefs (deleteRefs now ?Q db))" for r
    using that mediaInvD(3) [OF assms, of r]
    by (auto simp: deleteRefs_def Let_def noteExists_def list_ex_iff)
  with i show ?thesis by (auto simp: mediaInv_def deleteNotes_def noteExists_def list_all_iff)
qed

lemma mediaInv_RestoreRefs:
  assumes "mediaInv db" "RestoreRefs now uid keys refs db = Inr db'" "list_all (\<lambda>(i, k). k \<in> set keys) refs"
  shows "mediaInv db'"
proof -
  let ?fresh = "map (\<lambda>k. \<lparr>mdKey = k, mdUser = uid, mdLease = Some (now + LeaseTTL)\<rparr>) keys"
  let ?db1 = "db\<lparr>mediaRows := mediaRows db @ ?fresh\<rparr>"
  have ok: "distinct keys" "\<And>k. k \<in> set keys \<Longrightarrow> \<not> list_ex (\<lambda>m. mdKey m = k) (mediaRows db)"
    using assms(2) by (auto simp: RestoreRefs_def Let_def list_ex_iff split: if_splits)
  have i: "mediaInv ?db1" by (rule mediaInv_fresh [OF assms(1) ok])
  show ?thesis
  proof (cases "refs = []")
    case True
    with i assms(2) show ?thesis by (auto simp: RestoreRefs_def Let_def split: if_splits)
  next
    case False
    let ?new = "map (\<lambda>(i, k). \<lparr>mrUser = uid, mrNote = i, mrKey = k\<rparr>)
      (filter (\<lambda>(i, k). list_ex (\<lambda>m. mdUser m = uid \<and> mdKey m = k) (mediaRows ?db1)) refs)"
    from False assms(2) obtain db2 where ins: "insertRefs ?new ?db1 = Inr db2" and db': "db' = claimKeys uid keys db2"
      by (auto simp: RestoreRefs_def Let_def rbind_Inr_iff split: if_splits)
    show ?thesis unfolding db'
      by (rule mediaInv_claim [OF i ins]) (use assms(3) in \<open>auto simp: list_all_iff list_ex_iff\<close>)
  qed
qed

section \<open>Clean-up\<close>

text \<open>What a clean-up that selected the keys \<open>picked\<close> may have done.\<close>

definition cleanupOk ::
  "content \<Rightarrow> string list \<Rightarrow> string list \<Rightarrow> (contentErr + nat) \<times> content \<times> string list \<Rightarrow> bool" where
  "cleanupOk db st picked r =
     (case r of (res, db', st') \<Rightarrow>
        mediaInv db' \<and> mediaRefs db' = mediaRefs db \<and> set st - set st' \<subseteq> set picked \<and>
        mrKey ` set (mediaRefs db) \<inter> set st \<subseteq> set st' \<and>
        (case res of
           Inl _ \<Rightarrow> mediaRows db' = mediaRows db
         | Inr n \<Rightarrow> n = length picked \<and> set picked \<inter> set st' = {} \<and>
             mediaRows db' = filter (\<lambda>m. mdKey m \<notin> set picked) (mediaRows db)))"

lemma picked_unreferenced:
  assumes "mediaInv db" "\<And>k. k \<in> set picked \<Longrightarrow> \<exists>m\<in>set (mediaRows db). mdKey m = k \<and> mine m \<and> \<not> referenced m (mediaRefs db)"
  shows "mrKey ` set (mediaRefs db) \<inter> set picked = {}"
    and "m \<in> set (mediaRows db) \<Longrightarrow> mdKey m \<in> set picked \<Longrightarrow> mine m \<and> \<not> referenced m (mediaRefs db)"
proof -
  show row: "mine m \<and> \<not> referenced m (mediaRefs db)" if m: "m \<in> set (mediaRows db)" "mdKey m \<in> set picked" for m
    using assms(2) [OF m(2)] media_key_eq [OF mediaInvD(1) [OF assms(1)] m(1)] by metis
  show "mrKey ` set (mediaRefs db) \<inter> set picked = {}"
  proof (rule ccontr)
    assume "mrKey ` set (mediaRefs db) \<inter> set picked \<noteq> {}"
    then obtain r where r: "r \<in> set (mediaRefs db)" "mrKey r \<in> set picked" by auto
    then obtain m where "m \<in> set (mediaRows db)" "mdUser m = mrUser r" "mdKey m = mrKey r"
      using mediaInvD(2) [OF assms(1)] by blast
    then show False using row [of m] r by (auto simp: referenced_iff)
  qed
qed

context object_store begin

lemma finishCleanup_ok:
  assumes "mediaInv db"
    and "\<And>k. k \<in> set picked \<Longrightarrow> \<exists>m\<in>set (mediaRows db). mdKey m = k \<and> mine m \<and> \<not> referenced m (mediaRefs db)"
  shows "cleanupOk db st picked (finishCleanup commitOk mine (deleteLockedObjects del picked st) db)"
proof -
  obtain deleted ok st' where d: "deleteLockedObjects del picked st = ((deleted, ok), st')"
    by (metis prod.collapse)
  note sp = locked_spares [OF d]
  have refs: "mrKey ` set (mediaRefs db) \<inter> set st \<subseteq> set st'"
    using picked_unreferenced(1) [of db picked mine, OF assms] sp by blast
  have rows: "mediaRows (dropMedia (\<lambda>m. mine m \<and> mdKey m \<in> set picked) db) =
      filter (\<lambda>m. mdKey m \<notin> set picked) (mediaRows db)"
    using picked_unreferenced(2) [of db picked mine, OF assms] by (auto simp: dropMedia_def intro!: filter_cong)
  have fail: "\<not> ok \<Longrightarrow> deleted = []"
    using d by (auto simp: deleteLockedObjects_def split: if_splits prod.splits bool.splits)
  have frame: "mediaRefs (dropMedia P db) = mediaRefs db" for P by (simp add: dropMedia_def)
  show ?thesis
  proof (cases "commitOk \<and> ok")
    case True
    with sp have "deleted = picked" by simp
    then show ?thesis using True d sp refs rows assms(1)
      by (auto simp: cleanupOk_def finishCleanup_def Let_def frame intro: mediaInv_dropMedia)
  next
    case False
    then show ?thesis using d sp refs fail assms(1)
      by (auto simp: cleanupOk_def finishCleanup_def Let_def)
  qed
qed

end

lemma finishCleanup_nothing:
  "mediaInv db \<Longrightarrow> cleanupOk db st [] (Inr 0, db, st)"
  by (simp add: cleanupOk_def)

text \<open>
  C28. Removing media never breaks a note.  Whichever way the storage deletes, the client's bulk delete or
  one object at a time, whatever it reports for each object, and whether the transaction commits or not,
  both the clean-up after a save and the background sweep only remove objects they selected, which are unreferenced and, for the clean-up, the caller's own;
  every object a note still references stays in the store.  When they report success the selected
  objects and their rows are gone, and when they fail every row is kept for the next attempt.
\<close>

theorem cleanup_spares_references:
  assumes "mediaInv db"
  shows "cleanupOk db st (ownedUnreferenced uid (take DeleteBatchMax cands) db)
      (DeleteOwnedUnreferenced commitOk uid cands (Some (asObjectDeleter storage)) (db, st)) \<and>
    (\<exists>picked. cleanupOk db st picked
        (SystemSweepExpired commitOk now busy (Some (asObjectDeleter storage)) limit (db, st)) \<and>
      length picked \<le> DeleteBatchMax \<and>
      set picked \<subseteq> {k. \<exists>m\<in>set (mediaRows db). mdKey m = k \<and> (\<exists>t\<le>now. mdLease m = Some t) \<and> \<not> busy k})"
proof -
  let ?n = "if limit \<le> 0 \<or> int DeleteBatchMax < limit then DeleteBatchMax else nat limit"
  let ?swept = "expiredUnreferenced now busy ?n db"
  have own: "\<exists>m\<in>set (mediaRows db). mdKey m = k \<and> mdUser m = uid \<and> \<not> referenced m (mediaRefs db)"
    if "k \<in> set (ownedUnreferenced uid (take DeleteBatchMax cands) db)" for k
    using that by (auto simp: ownedUnreferenced_def)
  have empty: "ownedUnreferenced uid (take DeleteBatchMax []) db = []" by (simp add: ownedUnreferenced_def)
  have swept: "\<exists>m\<in>set (mediaRows db). mdKey m = k \<and> (\<exists>t\<le>now. mdLease m = Some t) \<and> \<not> busy k \<and>
      \<not> referenced m (mediaRefs db)" if h: "k \<in> set ?swept" for k
  proof -
    obtain m t where "m \<in> set (mediaRows db)" "k = mdKey m" "mdLease m = Some t" "t \<le> now" "\<not> busy k"
      "\<not> referenced m (mediaRefs db)"
      using h by (auto simp: expiredUnreferenced_def dest!: in_set_takeD split: option.splits)
    then show ?thesis by blast
  qed
  have "cleanupOk db st (ownedUnreferenced uid (take DeleteBatchMax cands) db)
      (DeleteOwnedUnreferenced commitOk uid cands (Some (asObjectDeleter storage)) (db, st))"
    using port.finishCleanup_ok [OF assms own] finishCleanup_nothing [OF assms] empty
    by (cases "cands = []") (simp_all add: DeleteOwnedUnreferenced_def)
  moreover have "cleanupOk db st ?swept
      (SystemSweepExpired commitOk now busy (Some (asObjectDeleter storage)) limit (db, st))"
  proof -
    have "cleanupOk db st ?swept
        (finishCleanup commitOk (\<lambda>m. True) (deleteLockedObjects (asObjectDeleter storage) ?swept st) db)"
      by (rule port.finishCleanup_ok [OF assms]) (use swept in blast)
    then show ?thesis by (simp only: SystemSweepExpired_def Let_def prod.case option.case)
  qed
  moreover have "length ?swept \<le> DeleteBatchMax" by (auto simp: expiredUnreferenced_def)
  ultimately show ?thesis using swept by blast
qed

text \<open>A note of account 1 that uses one of its two uploads; the other upload's lease has expired.\<close>

definition mediaDemo :: content where
  "mediaDemo = emptyContent\<lparr>
     noteRows := [\<lparr>nId = 1, nUser = 1, nTitle = ''t'', nSlug = ''t'', nBody = [], nText = [], nFolder = None,
       nPinned = False, nPublic = False, nCreated = 1, nUpdated = 1\<rparr>],
     mediaRows := [\<lparr>mdKey = ''notes/a.png'', mdUser = 1, mdLease = None\<rparr>,
       \<lparr>mdKey = ''notes/b.png'', mdUser = 1, mdLease = Some 5\<rparr>],
     mediaRefs := [\<lparr>mrUser = 1, mrNote = 1, mrKey = ''notes/a.png''\<rparr>]\<rparr>"

lemma cleanup_spares_references_witness:
  "mediaInv mediaDemo \<and>
   ''notes/a.png'' \<in> set (snd (snd (DeleteOwnedUnreferenced True 1 [''notes/a.png'', ''notes/b.png'']
     (Some (asObjectDeleter (BulkClient (\<lambda>k. Removed) (\<lambda>ks. None)))) (mediaDemo, [''notes/a.png'', ''notes/b.png'']))))"
proof -
  have i: "mediaInv mediaDemo"
    by (simp add: mediaInv_def mediaDemo_def emptyContent_def noteExists_def referenced_def)
  have k: "''notes/a.png'' \<in> mrKey ` set (mediaRefs mediaDemo) \<inter> set [''notes/a.png'', ''notes/b.png'']"
    by (simp add: mediaDemo_def)
  obtain res db' st' where r: "DeleteOwnedUnreferenced True 1 [''notes/a.png'', ''notes/b.png'']
     (Some (asObjectDeleter (BulkClient (\<lambda>k. Removed) (\<lambda>ks. None)))) (mediaDemo, [''notes/a.png'', ''notes/b.png'']) = (res, db', st')"
    by (metis prod.collapse)
  have "mrKey ` set (mediaRefs mediaDemo) \<inter> set [''notes/a.png'', ''notes/b.png''] \<subseteq> set st'"
    using cleanup_spares_references [OF i, of "[''notes/a.png'', ''notes/b.png'']" 1
        "[''notes/a.png'', ''notes/b.png'']" True "BulkClient (\<lambda>k. Removed) (\<lambda>ks. None)" 9 "\<lambda>k. False" 0]
    unfolding cleanupOk_def r by simp
  then have "''notes/a.png'' \<in> set st'" using k by (rule subsetD)
  with i show ?thesis by (simp only: r snd_conv simp_thms)
qed

section \<open>Rewriting keys\<close>

lemma midPieces_text: "concat (map pieceText (midPieces s)) = s"
  by (induction s rule: midPieces.induct) (auto dest!: fileMatch_Some split: option.splits)

lemma pieces_text: "concat (map pieceText (pieces s)) = s"
  by (auto simp: pieces_def midPieces_text dest!: fileMatch_Some split: option.splits)

text \<open>A key is one the scanner reads back in full.\<close>

definition scannable :: "string \<Rightarrow> bool" where
  "scannable k = (case stripPrefix notesPrefix k of None \<Rightarrow> False | Some r \<Rightarrow> r \<noteq> [] \<and> list_all isKeyChar r)"

lemma takeWhile_key: "list_all isKeyChar ks \<Longrightarrow> (rest = [] \<or> \<not> isKeyChar (hd rest)) \<Longrightarrow>
  takeWhile isKeyChar (ks @ rest) = ks \<and> dropWhile isKeyChar (ks @ rest) = rest"
  by (induction ks) (cases rest; auto)+

lemma fileMatch_scannable:
  assumes "scannable k" "rest = [] \<or> \<not> isKeyChar (hd rest)"
  shows "fileMatch (filesMarker @ k @ rest) = Some (k, rest)"
proof -
  obtain ks where k: "k = notesPrefix @ ks" "ks \<noteq> []" "list_all isKeyChar ks"
    using assms(1) by (auto simp: scannable_def stripPrefix_Some split: option.splits)
  have "stripPrefix (filesMarker @ notesPrefix) (filesMarker @ k @ rest) = Some (ks @ rest)"
    by (simp add: stripPrefix_Some k(1))
  then show ?thesis using takeWhile_key [OF k(3) assms(2)] k(1,2) by (simp add: fileMatch_def)
qed

definition rewritten :: "(string \<Rightarrow> string option) \<Rightarrow> piece list \<Rightarrow> string" where
  "rewritten m ps = concat (map (pieceText \<circ> mapPiece m) ps)"

lemma rewritten_simps [simp]:
  "rewritten m [] = []"
  "rewritten m (PLit c # ps) = c # rewritten m ps"
  "rewritten m (PRef k # ps) = filesMarker @ (case m k of None \<Rightarrow> k | Some k' \<Rightarrow> k') @ rewritten m ps"
  by (simp_all add: rewritten_def)

text \<open>Rewriting does not touch what precedes the first delimiter, and that alone decides a match.\<close>

lemma rewritten_head:
  "takeWhile (\<lambda>c. \<not> isMediaDelim c) (rewritten m (midPieces s)) = takeWhile (\<lambda>c. \<not> isMediaDelim c) s"
  "rewritten m (midPieces s) = [] \<longleftrightarrow> s = []"
  "s \<noteq> [] \<Longrightarrow> hd (rewritten m (midPieces s)) = hd s"
  by (induction s rule: midPieces.induct) (auto split: option.splits)

lemma nodelim_key: "isKeyChar c \<Longrightarrow> \<not> isMediaDelim c"
  by (auto simp: isKeyChar_def isMediaDelim_def Let_def)

lemma takeWhile_prefix: "list_all P p \<Longrightarrow> takeWhile P (p @ r) = p @ takeWhile P r"
  by (induction p) auto

lemma fileMatch_nodelim:
  "(fileMatch s = None) = (fileMatch (takeWhile (\<lambda>c. \<not> isMediaDelim c) s) = None)"
proof -
  let ?p = "filesMarker @ notesPrefix"
  have p: "list_all (\<lambda>c. \<not> isMediaDelim c) ?p" by (simp add: filesMarker_def notesPrefix_def isMediaDelim_def)
  have head: "takeWhile isKeyChar r \<noteq> [] \<longleftrightarrow> (\<exists>c r'. r = c # r' \<and> isKeyChar c)" for r by (cases r) auto
  have iff: "fileMatch t \<noteq> None \<longleftrightarrow> (\<exists>c r. t = ?p @ c # r \<and> isKeyChar c)" for t
  proof (cases "stripPrefix ?p t")
    case None
    then have "t \<noteq> ?p @ r" for r using stripPrefix_Some [of ?p t r] by auto
    with None show ?thesis by (simp add: fileMatch_def del: append_assoc)
  next
    case (Some r)
    then have "t = ?p @ r" by (simp only: stripPrefix_Some)
    with Some head [of r] show ?thesis by (auto simp: fileMatch_def simp del: append_assoc)
  qed
  have "(\<exists>c r. s = ?p @ c # r \<and> isKeyChar c) \<longleftrightarrow>
      (\<exists>c r. takeWhile (\<lambda>c. \<not> isMediaDelim c) s = ?p @ c # r \<and> isKeyChar c)" (is "?l \<longleftrightarrow> ?r")
  proof
    assume ?l
    then obtain c r where "s = ?p @ c # r" "isKeyChar c" by blast
    then have "takeWhile (\<lambda>c. \<not> isMediaDelim c) s = ?p @ c # takeWhile (\<lambda>c. \<not> isMediaDelim c) r"
      by (simp only: takeWhile_prefix [OF p]) (simp add: nodelim_key)
    then show ?r using \<open>isKeyChar c\<close> by blast
  next
    assume ?r
    then obtain c r where "takeWhile (\<lambda>c. \<not> isMediaDelim c) s = ?p @ c # r" "isKeyChar c" by blast
    then have "s = ?p @ c # r @ dropWhile (\<lambda>c. \<not> isMediaDelim c) s"
      by (metis append.assoc append_Cons takeWhile_dropWhile_id)
    then show ?l using \<open>isKeyChar c\<close> by blast
  qed
  then show ?thesis using iff [of s] iff [of "takeWhile (\<lambda>c. \<not> isMediaDelim c) s"] by blast
qed

lemma rewritten_fileMatch: "(fileMatch (rewritten m (midPieces s)) = None) = (fileMatch s = None)"
  using fileMatch_nodelim [of s] fileMatch_nodelim [of "rewritten m (midPieces s)"]
  by (simp add: rewritten_head(1))

definition validMapping :: "(string \<Rightarrow> string option) \<Rightarrow> bool" where
  "validMapping m = (\<forall>k. case m k of None \<Rightarrow> True | Some k' \<Rightarrow> scannable k')"

lemma fileMatch_rewritten:
  assumes "validMapping m" "fileMatch s = Some (k, rest)"
  shows "fileMatch (filesMarker @ (case m k of None \<Rightarrow> k | Some k' \<Rightarrow> k') @ rewritten m (midPieces rest)) =
    Some (case m k of None \<Rightarrow> k | Some k' \<Rightarrow> k', rewritten m (midPieces rest))"
proof (rule fileMatch_scannable)
  obtain ks where "k = notesPrefix @ ks" "ks \<noteq> []" "list_all isKeyChar ks"
    and rest: "rest \<noteq> [] \<longrightarrow> \<not> isKeyChar (hd rest)"
    using fileMatch_Some [OF assms(2)] by blast
  then have "scannable k" by (simp add: scannable_def stripPrefix_def)
  moreover have "scannable k'" if "m k = Some k'" for k'
    using assms(1) that by (auto simp: validMapping_def split: option.splits)
  ultimately show "scannable (case m k of None \<Rightarrow> k | Some k' \<Rightarrow> k')" by (auto split: option.splits)
  show "rewritten m (midPieces rest) = [] \<or> \<not> isKeyChar (hd (rewritten m (midPieces rest)))"
    using rest rewritten_head(2,3) [where s = rest and m = m] by auto
qed

lemma midPieces_rewritten:
  "validMapping m \<Longrightarrow> midPieces (rewritten m (midPieces s)) = map (mapPiece m) (midPieces s)"
proof (induction s rule: midPieces.induct)
  case (2 c s)
  show ?case
  proof (cases "fileMatch s")
    case None
    then show ?thesis using 2 rewritten_fileMatch [of m s] by auto
  next
    case (Some p)
    obtain k rest where p: "p = (k, rest)" by (cases p)
    show ?thesis using 2 Some p fileMatch_rewritten [OF 2(4) Some [unfolded p]] by simp
  qed
qed simp

lemma pieces_rewritten:
  assumes "validMapping m"
  shows "pieces (rewritten m (pieces v)) = map (mapPiece m) (pieces v)"
proof (cases "fileMatch v")
  case None
  then show ?thesis using midPieces_rewritten [OF assms, of v] rewritten_fileMatch [of m v] by (simp add: pieces_def)
next
  case (Some p)
  obtain k rest where p: "p = (k, rest)" by (cases p)
  show ?thesis
    using Some p fileMatch_rewritten [OF assms Some [unfolded p]] midPieces_rewritten [OF assms, of rest]
    by (simp add: pieces_def)
qed

text \<open>
  Restoring a note renames exactly its media.  With a mapping whose new keys are well formed,
  rewriting a body and scanning the result finds the image of the keys the body had, in sorted order
  and without repetition; a body that mentions no mapped key comes back unchanged.
\<close>

theorem rewrite_renames_keys:
  assumes "validMapping m"
  shows "set (Keys [Rewrite v m]) = (\<lambda>k. case m k of None \<Rightarrow> k | Some k' \<Rightarrow> k') ` set (Keys [v]) \<and>
    sorted (Keys [Rewrite v m]) \<and> distinct (Keys [Rewrite v m]) \<and> Rewrite v (\<lambda>k. None) = v"
proof -
  have "pieces (Rewrite v m) = map (mapPiece m) (pieces v)"
    using pieces_rewritten [OF assms, of v] by (simp add: Rewrite_def rewritten_def)
  moreover have "set (concat (map pieceKeys (map (mapPiece m) ps))) =
      (\<lambda>k. case m k of None \<Rightarrow> k | Some k' \<Rightarrow> k') ` set (concat (map pieceKeys ps))" for ps
  proof (induction ps)
    case (Cons p ps)
    then show ?case by (cases p) simp_all
  qed simp
  moreover have "pieceText \<circ> mapPiece (\<lambda>k. None) = pieceText"
  proof
    fix p show "(pieceText \<circ> mapPiece (\<lambda>k. None)) p = pieceText p" by (cases p) simp_all
  qed
  ultimately show ?thesis using pieces_text [of v] by (simp add: Keys_def Rewrite_def del: map_map)
qed

lemma rewrite_renames_keys_witness:
  "set (Keys [Rewrite ''/api/files/notes/a.png'' [''notes/a.png'' \<mapsto> ''notes/b.png'']]) = {''notes/b.png''}"
proof -
  have v: "validMapping [''notes/a.png'' \<mapsto> ''notes/b.png'']"
    by (auto simp: validMapping_def scannable_def stripPrefix_def notesPrefix_def isKeyChar_def Let_def)
  have "pieces ''/api/files/notes/a.png'' = [PRef ''notes/a.png'']"
    by (simp add: pieces_def fileMatch_def stripPrefix_def filesMarker_def notesPrefix_def isKeyChar_def Let_def)
  then have "set (Keys [''/api/files/notes/a.png'']) = {''notes/a.png''}" by (simp add: Keys_def)
  with rewrite_renames_keys [OF v, of "''/api/files/notes/a.png''"] show ?thesis by simp
qed

end
