(* ===== verification/CssValid.thy ===== *)
theory CssValid
  imports Prelude
begin

text \<open>
  The allowlist of colours, \<open>backend/internal/pkg/cssvalid/cssvalid.go\<close>: a hexadecimal colour or one
  two-stop gradient.  The anchored regular expression is a deterministic parser, because a
  hexadecimal part is always followed by a character that is not a hexadecimal digit.
\<close>

definition isHexDigit :: "char \<Rightarrow> bool" where
  "isHexDigit c = (let n = (of_char c :: nat)
     in 48 \<le> n \<and> n \<le> 57 \<or> 97 \<le> n \<and> n \<le> 102 \<or> 65 \<le> n \<and> n \<le> 70)"

definition isBlank :: "char \<Rightarrow> bool" where
  "isBlank c = ((of_char c :: nat) = 32 \<or> (of_char c :: nat) = 9)"

text \<open>\<open>hexPart\<close>: \<open>#\<close> and three, four, six or eight digits; returns what follows.\<close>

definition hexPart :: "string \<Rightarrow> string option" where
  "hexPart s =
     (case s of
        [] \<Rightarrow> None
      | c # r \<Rightarrow> if c = CHR ''#'' \<and> length (takeWhile isHexDigit r) \<in> {3, 4, 6, 8}
                 then Some (dropWhile isHexDigit r) else None)"

definition lit :: "string \<Rightarrow> string \<Rightarrow> string option" where
  "lit p s = (if take (length p) s = p then Some (drop (length p) s) else None)"

definition blanks :: "string \<Rightarrow> string option" where
  "blanks s = Some (dropWhile isBlank s)"

text \<open>The parts of the pattern in order.\<close>

fun parts :: "(string \<Rightarrow> string option) list \<Rightarrow> string \<Rightarrow> string option" where
  "parts [] s = Some s"
| "parts (p # ps) s = (case p s of None \<Rightarrow> None | Some r \<Rightarrow> parts ps r)"

definition gradientParts :: "(string \<Rightarrow> string option) list" where
  "gradientParts = [lit ''linear-gradient('', blanks, lit ''135deg'', blanks, lit '','', blanks, hexPart, blanks,
     lit '','', blanks, hexPart, blanks, lit '')'']"

definition colorPattern :: "string \<Rightarrow> bool" where
  "colorPattern s = (hexPart s = Some [] \<or> parts gradientParts s = Some [])"

definition IsValidColor :: "string \<Rightarrow> bool" where
  "IsValidColor c = (if c = [] \<or> 200 < length c then False else colorPattern c)"

definition Sanitize :: "string \<Rightarrow> string \<Rightarrow> string" where
  "Sanitize c fallback =
     (let t = goTrimSpace c in if t = [] \<or> \<not> IsValidColor t then fallback else t)"

section \<open>No accepted colour carries anything else\<close>

definition colorChar :: "char \<Rightarrow> bool" where
  "colorChar c = (isHexDigit c \<or> isBlank c \<or> c \<in> set ''#linear-gradient(135deg,)'')"

definition shrinks :: "(string \<Rightarrow> string option) \<Rightarrow> bool" where
  "shrinks p = (\<forall>s r. p s = Some r \<longrightarrow> (\<exists>pre. s = pre @ r \<and> list_all colorChar pre))"

lemma shrinks_hexPart: "shrinks hexPart"
proof (unfold shrinks_def, intro allI impI)
  fix s r
  assume "hexPart s = Some r"
  then obtain t where s: "s = CHR ''#'' # t" "r = dropWhile isHexDigit t"
    by (auto simp: hexPart_def split: list.splits if_splits)
  have "s = (CHR ''#'' # takeWhile isHexDigit t) @ r" using s by simp
  moreover have "list_all colorChar (CHR ''#'' # takeWhile isHexDigit t)"
    by (auto simp: list_all_iff colorChar_def dest: set_takeWhileD)
  ultimately show "\<exists>pre. s = pre @ r \<and> list_all colorChar pre" by blast
qed

lemma shrinks_blanks: "shrinks blanks"
proof (unfold shrinks_def, intro allI impI)
  fix s r
  assume "blanks s = Some r"
  then have "s = takeWhile isBlank s @ r" by (simp add: blanks_def) (metis takeWhile_dropWhile_id)
  moreover have "list_all colorChar (takeWhile isBlank s)"
    by (auto simp: list_all_iff colorChar_def dest: set_takeWhileD)
  ultimately show "\<exists>pre. s = pre @ r \<and> list_all colorChar pre" by blast
qed

lemma shrinks_lit: "list_all colorChar p \<Longrightarrow> shrinks (lit p)"
  by (auto simp: shrinks_def lit_def) (metis append_take_drop_id)

lemma shrinks_parts: "list_all shrinks ps \<Longrightarrow> parts ps s = Some r \<Longrightarrow> \<exists>pre. s = pre @ r \<and> list_all colorChar pre"
proof (induction ps arbitrary: s)
  case Nil
  then show ?case by simp
next
  case (Cons p ps)
  then obtain t where "p s = Some t" "parts ps t = Some r" by (auto split: option.splits)
  moreover obtain pre where "s = pre @ t" "list_all colorChar pre"
    using Cons.prems(1) \<open>p s = Some t\<close> by (auto simp: shrinks_def)
  moreover obtain pre' where "t = pre' @ r" "list_all colorChar pre'"
    using Cons.IH [of t] Cons.prems(1) \<open>parts ps t = Some r\<close> by auto
  ultimately have "s = (pre @ pre') @ r" "list_all colorChar (pre @ pre')" by simp_all
  then show ?case by blast
qed

lemma shrinks_gradient: "list_all shrinks gradientParts"
  by (simp add: gradientParts_def shrinks_hexPart shrinks_blanks)
    (intro conjI shrinks_lit; simp add: colorChar_def isHexDigit_def isBlank_def Let_def)

lemma colorPattern_chars: "colorPattern s \<Longrightarrow> list_all colorChar s"
  using shrinks_parts [OF shrinks_gradient, of s "[]"] shrinks_hexPart [unfolded shrinks_def, rule_format, of s "[]"]
  by (auto simp: colorPattern_def)

lemma colorChar_safe:
  "colorChar c \<Longrightarrow> c \<notin> set '';:/@!*%<>&'' \<and> c \<notin> {CHR ''u'', CHR 0x22, CHR 0x27, CHR 0x5C, CHR 0x0A, CHR 0x0D}"
  by (auto simp: colorChar_def isHexDigit_def isBlank_def Let_def)

text \<open>
  A colour the server stores cannot smuggle CSS.  Whatever text a client, an import or a restored
  archive supplies, the sanitized value is the fallback or a string of at most 200 characters drawn
  from hexadecimal digits, blanks and the letters and punctuation of the one allowed gradient: no
  semicolon, colon, slash, quote, backslash, at sign or line break, and no \<open>u\<close>, so no \<open>url(...)\<close>.
\<close>

theorem colors_carry_no_css:
  "Sanitize c fallback = fallback \<or>
   IsValidColor (Sanitize c fallback) \<and> length (Sanitize c fallback) \<le> 200 \<and>
   list_all (\<lambda>x. x \<notin> set '';:/@!*%<>&'' \<and> x \<notin> {CHR ''u'', CHR 0x22, CHR 0x27, CHR 0x5C, CHR 0x0A, CHR 0x0D})
     (Sanitize c fallback)"
proof (cases "IsValidColor (goTrimSpace c)")
  case True
  then have "list_all colorChar (goTrimSpace c)" "length (goTrimSpace c) \<le> 200" "goTrimSpace c \<noteq> []"
    by (auto simp: IsValidColor_def intro: colorPattern_chars split: if_splits)
  then show ?thesis using True colorChar_safe by (simp add: Sanitize_def Let_def list_all_iff)
next
  case False
  then show ?thesis by (simp add: Sanitize_def Let_def)
qed

end
