(* ===== verification/Folders.thy ===== *)
theory Folders
  imports UnlockToken NoteMedia CssValid
begin

text \<open>
  Folders, \<open>backend/internal/folders\<close>: input checks (\<open>dto.go\<close>), the repository (\<open>repository.go\<close>) with its
  recursive queries, serializable update loop, password and hint rules and cascading delete.
  \<open>hashpw\<close> (bcrypt, fails on a password longer than 72 bytes) and \<open>verify hash plain\<close> are arguments.
  A method is one transaction \<open>content \<Rightarrow> (contentErr + 'a) \<times> content\<close> that returns the database it was
  given when it fails.
\<close>

section \<open>Inputs\<close>

definition minPasswordLen :: nat where
  "minPasswordLen = 4"

definition maxPasswordHintLen :: nat where
  "maxPasswordHintLen = 200"

definition MaxPlainBytes :: nat where
  "MaxPlainBytes = 72"

definition EqualsPassword :: "string \<Rightarrow> string \<Rightarrow> bool" where
  "EqualsPassword hint password =
     (let h = goTrimSpace hint; p = goTrimSpace password
      in h \<noteq> [] \<and> p \<noteq> [] \<and> goToLower h = goToLower p)"

definition normalizeHint :: "string option \<Rightarrow> string option" where
  "normalizeHint hint =
     (case hint of None \<Rightarrow> None | Some h \<Rightarrow> let s = goTrimSpace h in if s = [] then None else Some s)"

definition validateHint :: "string option \<Rightarrow> string option \<Rightarrow> contentErr option" where
  "validateHint hint password =
     (case hint of
        None \<Rightarrow> None
      | Some h \<Rightarrow>
          if maxPasswordHintLen < length h then Some (ErrInvalidInput ''hint too long'')
          else (case password of
                  None \<Rightarrow> None
                | Some p \<Rightarrow> if EqualsPassword h p then Some (ErrInvalidInput ''hint equals password'') else None))"

definition validatePlain :: "string \<Rightarrow> contentErr option" where
  "validatePlain p =
     (if length p < minPasswordLen then Some (ErrInvalidInput ''password too short'')
      else if MaxPlainBytes < length p then Some (ErrInvalidInput ''password too long'')
      else None)"

definition validateName :: "string \<Rightarrow> contentErr option" where
  "validateName n =
     (if n = [] then Some (ErrInvalidInput ''name is required'')
      else if 200 < length n then Some (ErrInvalidInput ''name too long'')
      else None)"

record folderCreate =
  fcName :: string
  fcColor :: string
  fcParent :: "int option"
  fcPassword :: "string option"
  fcHint :: "string option"

definition NormalizeCreate :: "folderCreate \<Rightarrow> folderCreate" where
  "NormalizeCreate c =
     (let col = goTrimSpace (fcColor c)
      in c\<lparr>fcName := goTrimSpace (fcName c), fcColor := (if col = [] then ''#6366F1'' else col),
           fcHint := normalizeHint (fcHint c)\<rparr>)"

definition orElse :: "'a option \<Rightarrow> 'a option \<Rightarrow> 'a option" where
  "orElse a b = (case a of None \<Rightarrow> b | Some x \<Rightarrow> Some x)"

definition ValidateCreate :: "folderCreate \<Rightarrow> contentErr option" where
  "ValidateCreate c =
     orElse (validateName (fcName c))
       (if \<not> IsValidColor (fcColor c) then Some (ErrInvalidInput ''color'')
        else orElse (case fcPassword c of None \<Rightarrow> None | Some p \<Rightarrow> validatePlain p)
               (validateHint (fcHint c) (fcPassword c)))"

text \<open>The flags say which of the tri-state fields the JSON carried.\<close>

record folderUpdate =
  fuName :: "string option"
  fuColor :: "string option"
  fuParentSet :: bool
  fuParent :: "int option"
  fuPasswordSet :: bool
  fuPassword :: "string option"
  fuCurrent :: "string option"
  fuHintSet :: bool
  fuHint :: "string option"

definition NormalizeUpdate :: "folderUpdate \<Rightarrow> folderUpdate" where
  "NormalizeUpdate u = u\<lparr>fuName := map_option goTrimSpace (fuName u), fuColor := map_option goTrimSpace (fuColor u),
     fuHint := (if fuHintSet u then normalizeHint (fuHint u) else fuHint u)\<rparr>"

definition ValidateUpdate :: "folderUpdate \<Rightarrow> contentErr option" where
  "ValidateUpdate u =
     orElse (case fuName u of None \<Rightarrow> None | Some n \<Rightarrow> validateName n)
       (orElse (case fuColor u of None \<Rightarrow> None
                | Some c \<Rightarrow> if IsValidColor c then None else Some (ErrInvalidInput ''color''))
          (orElse (if fuPasswordSet u then (case fuPassword u of None \<Rightarrow> None | Some p \<Rightarrow> validatePlain p) else None)
             (if fuHintSet u
              then validateHint (fuHint u) (if fuPasswordSet u then fuPassword u else None) else None)))"

section \<open>Create\<close>

definition folderExists :: "int \<Rightarrow> int \<Rightarrow> content \<Rightarrow> bool" where
  "folderExists uid i db = (folderOf uid i db \<noteq> None)"

definition parentOk :: "int \<Rightarrow> int option \<Rightarrow> content \<Rightarrow> bool" where
  "parentOk uid p db = (case p of None \<Rightarrow> True | Some i \<Rightarrow> folderExists uid i db)"

definition CreateFolder ::
  "(string \<Rightarrow> string option) \<Rightarrow> gotime \<Rightarrow> int \<Rightarrow> folderCreate \<Rightarrow> content \<Rightarrow> (contentErr + folder) \<times> content" where
  "CreateFolder hashpw now uid c db =
     (case (case fcPassword c of None \<Rightarrow> Inr None
            | Some p \<Rightarrow> (case hashpw p of None \<Rightarrow> Inl ErrHashFailed | Some h \<Rightarrow> Inr (Some h))) of
        Inl e \<Rightarrow> (Inl e, db)
      | Inr h \<Rightarrow>
          let f = \<lparr>fId = folderSeq db, fUser = uid, fName = fcName c, fColor = fcColor c, fParent = fcParent c,
                fCreated = now, fHash = h, fHint = (if h = None then None else fcHint c)\<rparr>
          in if accountExists uid db \<and> parentOk uid (fcParent c) db
             then (Inr f, db\<lparr>folders := folders db @ [f], folderSeq := folderSeq db + 1\<rparr>)
             else (Inl ErrConstraint, db))"

definition GetFolder :: "int \<Rightarrow> int \<Rightarrow> content \<Rightarrow> contentErr + folder" where
  "GetFolder uid i db = (case folderOf uid i db of None \<Rightarrow> Inl ErrNotFound | Some f \<Rightarrow> Inr f)"

section \<open>Update\<close>

text \<open>The prepared statement: its assignments, and what the checks inside the transaction look at.\<close>

record prepared =
  prIn :: folderUpdate
  prNewHash :: "string option"
  prHintToValidate :: "string option"

definition hasSets :: "folderUpdate \<Rightarrow> bool" where
  "hasSets u = (fuName u \<noteq> None \<or> fuColor u \<noteq> None \<or> fuPasswordSet u \<or> fuHintSet u \<or> fuParentSet u)"

definition prepareFolderUpdate ::
  "(string \<Rightarrow> string option) \<Rightarrow> int \<Rightarrow> folderUpdate \<Rightarrow> contentErr + prepared option" where
  "prepareFolderUpdate hashpw i u =
     (case (if fuPasswordSet u
            then (case fuPassword u of None \<Rightarrow> Inr None
                  | Some p \<Rightarrow> (case hashpw p of None \<Rightarrow> Inl ErrHashFailed | Some h \<Rightarrow> Inr (Some h)))
            else Inr None) of
        Inl e \<Rightarrow> Inl e
      | Inr newHash \<Rightarrow>
          if fuParentSet u \<and> fuParent u = Some i then Inl ErrSelfParent
          else if \<not> hasSets u then Inr None
          else Inr (Some \<lparr>prIn = u, prNewHash = newHash,
                 prHintToValidate = (if fuPasswordSet u \<and> fuPassword u = None then None
                                     else if fuHintSet u then fuHint u else None)\<rparr>))"

text \<open>The assignments of the statement, in \<open>appendString\<close>, \<open>appendPassword\<close>, \<open>appendHint\<close>, \<open>appendParent\<close>.\<close>

definition applySets :: "prepared \<Rightarrow> folder \<Rightarrow> folder" where
  "applySets a f =
     (let u = prIn a
      in f\<lparr>fName := (case fuName u of None \<Rightarrow> fName f | Some n \<Rightarrow> n),
           fColor := (case fuColor u of None \<Rightarrow> fColor f | Some c \<Rightarrow> c),
           fHash := (if fuPasswordSet u then prNewHash a else fHash f),
           fHint := (if fuPasswordSet u \<and> fuPassword u = None then None
                     else if fuHintSet u then fuHint u else fHint f),
           fParent := (if fuParentSet u then fuParent u else fParent f)\<rparr>)"

definition checkPasswordChangeAuthorized ::
  "(string \<Rightarrow> string \<Rightarrow> bool) \<Rightarrow> int \<Rightarrow> int \<Rightarrow> string option \<Rightarrow> content \<Rightarrow> contentErr option" where
  "checkPasswordChangeAuthorized verify uid i current db =
     (case folderOf uid i db of
        None \<Rightarrow> Some ErrNotFound
      | Some f \<Rightarrow>
          (case fHash f of
             None \<Rightarrow> None
           | Some h \<Rightarrow> (case current of None \<Rightarrow> Some ErrWrongPassword
                        | Some p \<Rightarrow> if verify h p then None else Some ErrWrongPassword)))"

definition authorizeMutation ::
  "(string \<Rightarrow> string \<Rightarrow> bool) \<Rightarrow> int \<Rightarrow> int \<Rightarrow> prepared \<Rightarrow> content \<Rightarrow> contentErr option" where
  "authorizeMutation verify uid i a db =
     (if fuPasswordSet (prIn a) \<or> fuHintSet (prIn a)
      then checkPasswordChangeAuthorized verify uid i (fuCurrent (prIn a)) db else None)"

definition loadHintIfPasswordOnly :: "int \<Rightarrow> int \<Rightarrow> prepared \<Rightarrow> content \<Rightarrow> contentErr + prepared" where
  "loadHintIfPasswordOnly uid i a db =
     (if prHintToValidate a \<noteq> None \<or> \<not> fuPasswordSet (prIn a) \<or> prNewHash a = None \<or> fuHintSet (prIn a) then Inr a
      else (case folderOf uid i db of None \<Rightarrow> Inl ErrNotFound | Some f \<Rightarrow> Inr (a\<lparr>prHintToValidate := fHint f\<rparr>)))"

definition checkHintNotPassword ::
  "(string \<Rightarrow> string \<Rightarrow> bool) \<Rightarrow> int \<Rightarrow> int \<Rightarrow> bool \<Rightarrow> string option \<Rightarrow> string \<Rightarrow> content \<Rightarrow> contentErr option" where
  "checkHintNotPassword verify uid i passwordSet newHash hint db =
     (case (if passwordSet then Inr newHash else PasswordHashFor uid i db) of
        Inl e \<Rightarrow> Some e
      | Inr None \<Rightarrow> Some ErrHintWithoutPassword
      | Inr (Some h) \<Rightarrow> if verify h hint then Some ErrHintMatchesPassword else None)"

definition rejectHintEqualsPassword ::
  "(string \<Rightarrow> string \<Rightarrow> bool) \<Rightarrow> int \<Rightarrow> int \<Rightarrow> prepared \<Rightarrow> content \<Rightarrow> contentErr option" where
  "rejectHintEqualsPassword verify uid i a db =
     (case prHintToValidate a of
        None \<Rightarrow> None
      | Some hint \<Rightarrow> checkHintNotPassword verify uid i (fuPasswordSet (prIn a)) (prNewHash a) hint db)"

text \<open>
  The recursive query walks up from the new parent.  On cyclic data it never ends; the fuel is one more
  than the number of folders, and running out of it is the value \<open>None\<close>.
\<close>

fun ancestors :: "nat \<Rightarrow> int \<Rightarrow> int option \<Rightarrow> content \<Rightarrow> int list option" where
  "ancestors fuel uid None db = Some []"
| "ancestors 0 uid (Some i) db = None"
| "ancestors (Suc fuel) uid (Some i) db =
     (case folderOf uid i db of
        None \<Rightarrow> Some []
      | Some f \<Rightarrow> map_option ((#) i) (ancestors fuel uid (fParent f) db))"

definition queryFuel :: "content \<Rightarrow> nat" where
  "queryFuel db = Suc (length (folders db))"

definition checkParentCycle :: "int \<Rightarrow> int \<Rightarrow> int \<Rightarrow> content \<Rightarrow> contentErr option" where
  "checkParentCycle uid i newParent db =
     (case ancestors (queryFuel db) uid (Some newParent) db of
        None \<Rightarrow> Some ErrDb
      | Some as \<Rightarrow> if i \<in> set as then Some ErrParentCycle else None)"

definition rejectParentCycle :: "int \<Rightarrow> int \<Rightarrow> prepared \<Rightarrow> content \<Rightarrow> contentErr option" where
  "rejectParentCycle uid i a db =
     (if fuParentSet (prIn a)
      then (case fuParent (prIn a) of None \<Rightarrow> None | Some p \<Rightarrow> checkParentCycle uid i p db) else None)"

definition execUpdate :: "int \<Rightarrow> int \<Rightarrow> prepared \<Rightarrow> content \<Rightarrow> contentErr + folder \<times> content" where
  "execUpdate uid i a db =
     (case folderOf uid i db of
        None \<Rightarrow> Inl ErrNotFound
      | Some f \<Rightarrow>
          if fuParentSet (prIn a) \<and> \<not> parentOk uid (fuParent (prIn a)) db then Inl ErrConstraint
          else Inr (applySets a f, db\<lparr>folders := map (\<lambda>g. if fUser g = uid \<and> fId g = i then applySets a g else g)
                                                   (folders db)\<rparr>))"

text \<open>
  One attempt of the serializable transaction.  A conflict surfaces before the first read, or at the
  write after every check has run.  The prepared record is shared by the attempts: the hint an
  attempt loaded into it is still there in the next one.
\<close>

datatype conflict = NoConflict | AtStart | AtWrite

definition updateOnce ::
  "(string \<Rightarrow> string \<Rightarrow> bool) \<Rightarrow> conflict \<Rightarrow> int \<Rightarrow> int \<Rightarrow> prepared \<Rightarrow> content \<Rightarrow>
   (contentErr + folder \<times> content) \<times> prepared" where
  "updateOnce verify conf uid i a db =
     (if conf = AtStart then (Inl ErrSerialization, a)
      else (case authorizeMutation verify uid i a db of
              Some e \<Rightarrow> (Inl e, a)
            | None \<Rightarrow>
                (case loadHintIfPasswordOnly uid i a db of
                   Inl e \<Rightarrow> (Inl e, a)
                 | Inr a1 \<Rightarrow>
                     (case orElse (rejectHintEqualsPassword verify uid i a1 db) (rejectParentCycle uid i a1 db) of
                        Some e \<Rightarrow> (Inl e, a1)
                      | None \<Rightarrow> (if conf = AtWrite then Inl ErrSerialization else execUpdate uid i a1 db, a1)))))"

definition maxSerializationRetries :: nat where
  "maxSerializationRetries = 3"

text \<open>
  The loop over attempts; each meets the database as it is then.  A list that runs out stands for a
  cancelled request.
\<close>

fun updateLoop ::
  "(string \<Rightarrow> string \<Rightarrow> bool) \<Rightarrow> nat \<Rightarrow> int \<Rightarrow> int \<Rightarrow> prepared \<Rightarrow> (content \<times> conflict) list \<Rightarrow>
   contentErr + folder \<times> content" where
  "updateLoop verify 0 uid i a atts = Inl ErrSerialization"
| "updateLoop verify (Suc n) uid i a [] = Inl ErrDb"
| "updateLoop verify (Suc n) uid i a ((db, conf) # atts) =
     (case updateOnce verify conf uid i a db of
        (Inr r, _) \<Rightarrow> Inr r
      | (Inl e, a') \<Rightarrow> if e = ErrSerialization then updateLoop verify n uid i a' atts else Inl e)"

definition UpdateFolder ::
  "(string \<Rightarrow> string option) \<Rightarrow> (string \<Rightarrow> string \<Rightarrow> bool) \<Rightarrow> int \<Rightarrow> int \<Rightarrow> folderUpdate \<Rightarrow>
   (content \<times> conflict) list \<Rightarrow> contentErr + folder \<times> content" where
  "UpdateFolder hashpw verify uid i u atts =
     (case prepareFolderUpdate hashpw i u of
        Inl e \<Rightarrow> Inl e
      | Inr None \<Rightarrow>
          (case atts of
             [] \<Rightarrow> Inl ErrDb
           | (db, _) # _ \<Rightarrow> (case GetFolder uid i db of Inl e \<Rightarrow> Inl e | Inr f \<Rightarrow> Inr (f, db)))
      | Inr (Some a) \<Rightarrow> updateLoop verify maxSerializationRetries uid i a atts)"

section \<open>Reset by the master password\<close>

definition masterHash :: "int \<Rightarrow> content \<Rightarrow> string option" where
  "masterHash uid db = (case find (\<lambda>m. msUser m = uid) (masters db) of None \<Rightarrow> None | Some m \<Rightarrow> msHash m)"

definition ResetPasswordByMaster ::
  "(string \<Rightarrow> string \<Rightarrow> bool) \<Rightarrow> int \<Rightarrow> int \<Rightarrow> string \<Rightarrow> content \<Rightarrow> (contentErr + unit) \<times> content" where
  "ResetPasswordByMaster verify uid i plain db =
     (case masterHash uid db of
        None \<Rightarrow> (Inl ErrMasterNotConfigured, db)
      | Some h \<Rightarrow>
          if \<not> verify h plain then (Inl ErrStaleMasterProof, db)
          else if \<not> folderExists uid i db then (Inl ErrNotFound, db)
          else (Inr (), db\<lparr>folders := map (\<lambda>g. if fUser g = uid \<and> fId g = i then g\<lparr>fHash := None, fHint := None\<rparr> else g)
                                       (folders db)\<rparr>))"

section \<open>Delete\<close>

definition authorizeFolderDelete ::
  "(string \<Rightarrow> string \<Rightarrow> string) \<Rightarrow> gotime \<Rightarrow> int \<Rightarrow> int \<Rightarrow> string \<Rightarrow> string \<Rightarrow> content \<Rightarrow> contentErr option" where
  "authorizeFolderDelete mac now uid i key token db =
     (case PasswordHashFor uid i db of
        Inl e \<Rightarrow> Some e
      | Inr h \<Rightarrow> CheckUnlock mac now key i h token)"

definition DeleteFolder ::
  "(string \<Rightarrow> string \<Rightarrow> string) \<Rightarrow> gotime \<Rightarrow> int \<Rightarrow> int \<Rightarrow> string \<Rightarrow> string \<Rightarrow> content \<Rightarrow> (contentErr + unit) \<times> content" where
  "DeleteFolder mac now uid i key token db =
     (case authorizeFolderDelete mac now uid i key token db of
        Some e \<Rightarrow> (Inl e, db)
      | None \<Rightarrow> (Inr (), deleteFolders (\<lambda>f. fUser f = uid \<and> fId f = i) db))"

text \<open>The recursive query that walks down, level by level, with the same fuel.\<close>

definition childrenOf :: "int \<Rightarrow> int list \<Rightarrow> content \<Rightarrow> int list" where
  "childrenOf uid level db = map fId (filter (\<lambda>f. fUser f = uid \<and> (\<exists>p\<in>set level. fParent f = Some p)) (folders db))"

fun subtreeFrom :: "nat \<Rightarrow> int \<Rightarrow> int list \<Rightarrow> content \<Rightarrow> int list option" where
  "subtreeFrom fuel uid [] db = Some []"
| "subtreeFrom 0 uid (x # xs) db = None"
| "subtreeFrom (Suc fuel) uid (x # xs) db =
     map_option ((@) (x # xs)) (subtreeFrom fuel uid (childrenOf uid (x # xs) db) db)"

definition materializeCascadeSubtree :: "int \<Rightarrow> int \<Rightarrow> content \<Rightarrow> int list option" where
  "materializeCascadeSubtree uid i db =
     subtreeFrom (queryFuel db) uid (if folderExists uid i db then [i] else []) db"

definition lockCascadeSubtree :: "int \<Rightarrow> int \<Rightarrow> int list \<Rightarrow> content \<Rightarrow> int list \<times> nat" where
  "lockCascadeSubtree uid i sub db =
     (let rows = filter (\<lambda>f. fUser f = uid \<and> fId f \<in> set sub) (folders db)
      in (sort (map fId rows), length (filter (\<lambda>f. fId f \<noteq> i \<and> fHash f \<noteq> None) rows)))"

definition inFolders :: "int list \<Rightarrow> int option \<Rightarrow> bool" where
  "inFolders sub fo = (case fo of None \<Rightarrow> False | Some f \<Rightarrow> f \<in> set sub)"

definition deleteCascadeContents :: "gotime \<Rightarrow> int \<Rightarrow> int list \<Rightarrow> content \<Rightarrow> content" where
  "deleteCascadeContents now uid sub db =
     (let db1 = PurgeFolderSubtree uid sub (ReleaseFolderSubtreeRefs now uid sub db);
          db2 = db1\<lparr>links := filter (\<lambda>l. \<not> (lkUser l = uid \<and> inFolders sub (lkFolder l))) (links db1)\<rparr>;
          db3 = deleteNotes now (\<lambda>n. nUser n = uid \<and> inFolders sub (nFolder n)) db2
      in deleteFolders (\<lambda>f. fUser f = uid \<and> fId f \<in> set sub) db3)"

definition deleteCascade ::
  "(string \<Rightarrow> string \<Rightarrow> string) \<Rightarrow> gotime \<Rightarrow> int \<Rightarrow> int \<Rightarrow> string \<Rightarrow> string \<Rightarrow> content \<Rightarrow>
   (contentErr + int list) \<times> content" where
  "deleteCascade mac now uid i key token db =
     (case authorizeFolderDelete mac now uid i key token db of
        Some e \<Rightarrow> (Inl e, db)
      | None \<Rightarrow>
          (case materializeCascadeSubtree uid i db of
             None \<Rightarrow> (Inl ErrDb, db)
           | Some sub \<Rightarrow>
               (case lockCascadeSubtree uid i sub db of
                  (deleted, prot) \<Rightarrow>
                    if 0 < prot then (Inl (ErrDescendantProtected prot), db)
                    else if deleted = [] then (Inl ErrNotFound, db)
                    else (Inr deleted, deleteCascadeContents now uid sub db))))"

end
