(* ===== verification/FolderTree.thy ===== *)
theory FolderTree
  imports Folders
begin

text \<open>
  The folder hierarchy stays a forest, so the recursive queries of \<open>Folders\<close> end; what a cascade
  deletes; and which operations can touch a protected folder.
\<close>

section \<open>The parent relation\<close>

definition parentRel :: "content \<Rightarrow> (int \<times> int) set" where
  "parentRel db = {(p, i). \<exists>f\<in>set (folders db). fId f = i \<and> fParent f = Some p}"

definition userRel :: "int \<Rightarrow> content \<Rightarrow> (int \<times> int) set" where
  "userRel uid db = {(p, i). \<exists>f\<in>set (folders db). fUser f = uid \<and> fId f = i \<and> fParent f = Some p}"

definition folderInv :: "content \<Rightarrow> bool" where
  "folderInv db =
     (distinct (map fId (folders db)) \<and> list_all (\<lambda>f. fId f < folderSeq db) (folders db) \<and>
      list_all (\<lambda>f. parentOk (fUser f) (fParent f) db) (folders db) \<and> acyclic (parentRel db))"

lemma folderInvD:
  assumes "folderInv db"
  shows "distinct (map fId (folders db))" "f \<in> set (folders db) \<Longrightarrow> fId f < folderSeq db"
    "f \<in> set (folders db) \<Longrightarrow> parentOk (fUser f) (fParent f) db" "acyclic (parentRel db)"
  using assms by (auto simp: folderInv_def list_all_iff)

lemma folder_unique:
  "distinct (map fId fs) \<Longrightarrow> f \<in> set fs \<Longrightarrow> g \<in> set fs \<Longrightarrow> fId f = fId g \<Longrightarrow> f = g"
  by (auto simp: distinct_map inj_on_def)

lemma folderExists_iff: "folderExists uid i db \<longleftrightarrow> (\<exists>f\<in>set (folders db). fUser f = uid \<and> fId f = i)"
  using folderOf_None [of uid i db] by (auto simp: folderExists_def)

lemma folderOf_iff:
  assumes "distinct (map fId (folders db))"
  shows "folderOf uid i db = Some f \<longleftrightarrow> f \<in> set (folders db) \<and> fUser f = uid \<and> fId f = i"
proof
  assume "f \<in> set (folders db) \<and> fUser f = uid \<and> fId f = i"
  moreover from this obtain g where g: "folderOf uid i db = Some g"
    using folderOf_None [of uid i db] by (cases "folderOf uid i db") auto
  ultimately show "folderOf uid i db = Some f"
    using folderOf_Some [OF g] folder_unique [OF assms, of f g] by auto
qed (rule folderOf_Some)

lemma finite_parentRel: "finite (parentRel db)"
proof -
  have "parentRel db \<subseteq> (\<lambda>f. (the (fParent f), fId f)) ` set (folders db)"
    by (force simp: parentRel_def)
  then show ?thesis by (rule finite_subset) simp
qed

lemma userRel_sub: "userRel uid db \<subseteq> parentRel db"
  by (auto simp: userRel_def parentRel_def)

lemma userRel_step:
  assumes "folderInv db" "(p, i) \<in> parentRel db" "folderExists uid i db"
  shows "(p, i) \<in> userRel uid db" "folderExists uid p db"
proof -
  obtain f where f: "f \<in> set (folders db)" "fId f = i" "fParent f = Some p"
    using assms(2) by (auto simp: parentRel_def)
  obtain g where g: "g \<in> set (folders db)" "fUser g = uid" "fId g = i"
    using assms(3) by (auto simp: folderExists_iff)
  have "f = g" using folder_unique [OF folderInvD(1) [OF assms(1)]] f g by auto
  then show "(p, i) \<in> userRel uid db" using f g by (auto simp: userRel_def)
  show "folderExists uid p db" using folderInvD(3) [OF assms(1) f(1)] \<open>f = g\<close> f g by (simp add: parentOk_def)
qed

lemma userRel_path:
  assumes "folderInv db" "(a, i) \<in> (parentRel db)\<^sup>*" "folderExists uid i db"
  shows "(a, i) \<in> (userRel uid db)\<^sup>* \<and> folderExists uid a db"
  using assms(2,3)
proof (induction rule: converse_rtrancl_induct)
  case (step y z)
  then show ?case using userRel_step [OF assms(1), of y z uid] by (auto intro: converse_rtrancl_into_rtrancl)
qed simp

section \<open>The recursive queries end\<close>

definition above :: "content \<Rightarrow> int \<Rightarrow> int set" where
  "above db i = {a. (a, i) \<in> (parentRel db)\<^sup>+}"

definition below :: "content \<Rightarrow> int list \<Rightarrow> int set" where
  "below db level = {d. \<exists>x\<in>set level. (x, d) \<in> (parentRel db)\<^sup>+}"

lemma above_bound:
  assumes "folderInv db"
  shows "finite (above db i)" "card (above db i) \<le> length (folders db)"
proof -
  have "a \<in> set (map fId (folders db))" if "(a, i) \<in> (parentRel db)\<^sup>+" for a i
  proof -
    from that obtain c where "(a, c) \<in> parentRel db" by (meson tranclD)
    then obtain f where "f \<in> set (folders db)" "fParent f = Some a" by (auto simp: parentRel_def)
    then show ?thesis using folderInvD(3) [OF assms] by (fastforce simp: parentOk_def folderExists_iff)
  qed
  then have "above db i \<subseteq> set (map fId (folders db))" by (auto simp: above_def)
  then show "finite (above db i)" "card (above db i) \<le> length (folders db)"
    using card_length [of "map fId (folders db)"]
    by (auto intro: finite_subset order_trans [OF card_mono])
qed

lemma below_bound:
  shows "finite (below db level)" "card (below db level) \<le> length (folders db)"
proof -
  have "d \<in> set (map fId (folders db))" if "(a, d) \<in> (parentRel db)\<^sup>+" for a d
  proof -
    from that obtain c where "(c, d) \<in> parentRel db" by (meson tranclD2)
    then show ?thesis by (auto simp: parentRel_def)
  qed
  then have "below db level \<subseteq> set (map fId (folders db))" by (auto simp: below_def)
  then show "finite (below db level)" "card (below db level) \<le> length (folders db)"
    using card_length [of "map fId (folders db)"]
    by (auto intro: finite_subset order_trans [OF card_mono])
qed

lemma ancestors_ends:
  assumes "folderInv db"
  shows "card (above db i) < fuel \<Longrightarrow> ancestors fuel uid (Some i) db \<noteq> None"
proof (induction fuel arbitrary: i)
  case (Suc fuel)
  show ?case
  proof (cases "folderOf uid i db")
    case (Some f)
    note f = folderOf_Some [OF Some]
    show ?thesis
    proof (cases "fParent f")
      case (Some p)
      have e: "(p, i) \<in> parentRel db" using f Some by (auto simp: parentRel_def)
      then have "above db p \<subseteq> above db i" "p \<in> above db i" by (auto simp: above_def)
      moreover have "p \<notin> above db p" using folderInvD(4) [OF assms] by (simp add: above_def acyclic_def)
      ultimately have "card (above db p) < card (above db i)"
        using above_bound(1) [OF assms] by (metis psubsetI psubset_card_mono)
      then have "ancestors fuel uid (Some p) db \<noteq> None" using Suc.prems by (intro Suc.IH) simp
      then show ?thesis using \<open>folderOf uid i db = Some f\<close> Some by auto
    qed (simp add: Some)
  qed simp
qed simp

lemma childrenOf_set: "set (childrenOf uid level db) = userRel uid db `` set level"
  by (auto simp: childrenOf_def userRel_def)

lemma subtree_ends:
  assumes "folderInv db"
  shows "card (below db level) < fuel \<Longrightarrow> subtreeFrom fuel uid level db \<noteq> None"
proof (induction fuel arbitrary: level)
  case (Suc fuel)
  show ?case
  proof (cases level)
    case (Cons x xs)
    let ?next = "childrenOf uid level db"
    show ?thesis
    proof (cases "?next = []")
      case True
      then show ?thesis using Cons by simp
    next
      case False
      have sub: "below db ?next \<subseteq> below db level" and up: "set ?next \<subseteq> below db level"
        using userRel_sub [of uid db] by (auto simp: below_def childrenOf_set intro: trancl_into_trancl2)
      have "wf ((parentRel db)\<^sup>+)"
        using finite_acyclic_wf [OF finite_parentRel folderInvD(4) [OF assms]] by (rule wf_trancl)
      then obtain z where z: "z \<in> set ?next" "\<And>y. (y, z) \<in> (parentRel db)\<^sup>+ \<Longrightarrow> y \<notin> set ?next"
        using False wfE_min [of "(parentRel db)\<^sup>+" "hd ?next" "set ?next"] by (metis hd_in_set)
      then have "z \<in> below db level" "z \<notin> below db ?next" using up by (auto simp: below_def)
      then have "card (below db ?next) < card (below db level)"
        using sub below_bound(1) [of db level] by (metis psubsetI psubset_card_mono)
      then have "subtreeFrom fuel uid ?next db \<noteq> None" using Suc.prems by (intro Suc.IH) simp
      then show ?thesis using Cons by auto
    qed
  qed simp
qed simp

lemma ancestors_set:
  assumes "folderInv db" "folderExists uid i db"
  shows "ancestors fuel uid (Some i) db = Some as \<Longrightarrow> set as = {a. (a, i) \<in> (userRel uid db)\<^sup>*}"
  using assms(2)
proof (induction fuel arbitrary: i as)
  case (Suc fuel)
  obtain f where f: "folderOf uid i db = Some f" using Suc.prems(2) by (auto simp: folderExists_def)
  note fi = folderOf_Some [OF f]
  have edge: "(p, i) \<in> userRel uid db \<longleftrightarrow> fParent f = Some p" for p
    using fi folder_unique [OF folderInvD(1) [OF assms(1)], of f] by (fastforce simp: userRel_def)
  show ?case
  proof (cases "fParent f")
    case None
    then have "as = [i]" using Suc.prems(1) f by simp
    moreover have "{a. (a, i) \<in> (userRel uid db)\<^sup>*} = {i}"
      using edge None by (auto elim: rtranclE)
    ultimately show ?thesis by simp
  next
    case (Some p)
    then obtain as' where as': "ancestors fuel uid (Some p) db = Some as'" "as = i # as'"
      using Suc.prems(1) f by auto
    have "folderExists uid p db" using folderInvD(3) [OF assms(1), of f] fi Some by (simp add: parentOk_def)
    then have "set as' = {a. (a, p) \<in> (userRel uid db)\<^sup>*}" using as'(1) by (rule Suc.IH [rotated])
    moreover have "(a, i) \<in> (userRel uid db)\<^sup>* \<longleftrightarrow> a = i \<or> (a, p) \<in> (userRel uid db)\<^sup>*" for a
      using edge Some by (metis option.inject rtrancl.simps)
    ultimately show ?thesis using as'(2) by auto
  qed
qed simp

lemma rtrancl_Image_step: "r\<^sup>* `` L = L \<union> r\<^sup>* `` (r `` L)"
proof (intro set_eqI iffI)
  fix x
  assume "x \<in> r\<^sup>* `` L"
  then obtain y where y: "y \<in> L" "(y, x) \<in> r\<^sup>*" by blast
  from y(2) show "x \<in> L \<union> r\<^sup>* `` (r `` L)"
    by (cases rule: converse_rtranclE) (use y(1) in auto)
next
  fix x
  assume "x \<in> L \<union> r\<^sup>* `` (r `` L)"
  then show "x \<in> r\<^sup>* `` L" by (auto intro: converse_rtrancl_into_rtrancl)
qed

lemma subtreeFrom_set:
  "subtreeFrom fuel uid level db = Some s \<Longrightarrow> set s = (userRel uid db)\<^sup>* `` set level"
proof (induction fuel arbitrary: level s)
  case 0
  then show ?case by (cases level) auto
next
  case (Suc fuel)
  show ?case
  proof (cases level)
    case Nil
    with Suc.prems show ?thesis by simp
  next
    case (Cons x xs)
    then obtain t where t: "subtreeFrom fuel uid (childrenOf uid level db) db = Some t" "s = level @ t"
      using Suc.prems by auto
    have "set t = (userRel uid db)\<^sup>* `` (userRel uid db `` set level)"
      using Suc.IH [OF t(1)] by (simp only: childrenOf_set)
    then show ?thesis using t(2) rtrancl_Image_step [of "userRel uid db" "set level"] by simp
  qed
qed

lemma acyclic_mono: "acyclic s \<Longrightarrow> r \<subseteq> s \<Longrightarrow> acyclic r"
  by (rule acyclic_subset)

section \<open>Every operation keeps the forest\<close>

text \<open>Rows that keep their identity and parent.\<close>

lemma parentOk_same:
  assumes "folders db' = map g (folders db)" "\<And>f. fId (g f) = fId f \<and> fUser (g f) = fUser f"
  shows "parentOk uid p db' = parentOk uid p db"
  using assms by (auto simp: parentOk_def folderExists_iff split: option.splits)

lemma folderInv_map:
  assumes "folderInv db" "folders db' = map g (folders db)" "folderSeq db' = folderSeq db"
    and "\<And>f. fId (g f) = fId f \<and> fUser (g f) = fUser f"
    and "\<And>f p. f \<in> set (folders db) \<Longrightarrow> fParent (g f) = Some p \<Longrightarrow> parentOk (fUser f) (Some p) db"
    and "acyclic (parentRel db')"
  shows "folderInv db'"
proof -
  have k: "map (fId \<circ> g) (folders db) = map fId (folders db)" using assms(4) by simp
  have "parentOk (fUser f) (fParent (g f)) db" if "f \<in> set (folders db)" for f
    using assms(5) [OF that] by (cases "fParent (g f)") (auto simp: parentOk_def)
  then show ?thesis
    using folderInvD(1,2) [OF assms(1)] assms(3,4,6)
    by (simp add: folderInv_def assms(2) list_all_iff parentOk_same [OF assms(2,4)] k del: map_eq_conv)
qed

lemma folderInv_frame:
  "folderInv db \<Longrightarrow> folders db' = folders db \<Longrightarrow> folderSeq db' = folderSeq db \<Longrightarrow> folderInv db'"
  by (simp add: folderInv_def parentOk_def folderExists_iff parentRel_def cong: option.case_cong)

lemma parentRel_same:
  "folders db' = map g (folders db) \<Longrightarrow> (\<And>f. fId (g f) = fId f \<and> fParent (g f) = fParent f) \<Longrightarrow> parentRel db' = parentRel db"
  by (simp add: parentRel_def)

lemma folderInv_mapSame:
  assumes "folderInv db" "folders db' = map g (folders db)" "folderSeq db' = folderSeq db"
    and "\<And>f. fId (g f) = fId f \<and> fUser (g f) = fUser f \<and> fParent (g f) = fParent f"
  shows "folderInv db'"
proof (rule folderInv_map [OF assms(1-3)])
  show "fId (g f) = fId f \<and> fUser (g f) = fUser f" for f using assms(4) by simp
  show "parentOk (fUser f) (Some p) db" if "f \<in> set (folders db)" "fParent (g f) = Some p" for f p
    using folderInvD(3) [OF assms(1) that(1)] that(2) assms(4) by simp
  have "parentRel db' = parentRel db" using assms(4) by (intro parentRel_same [OF assms(2)]) simp
  then show "acyclic (parentRel db')" using folderInvD(4) [OF assms(1)] by simp
qed

lemma folderInv_Create:
  assumes "folderInv db" "CreateFolder hashpw now uid c db = (r, db')"
  shows "folderInv db'"
proof (cases r)
  case (Inl e)
  then have "db' = db" using assms(2) by (auto simp: CreateFolder_def Let_def split: sum.splits option.splits if_splits)
  with assms(1) show ?thesis by simp
next
  case (Inr f)
  then have f: "fId f = folderSeq db" "fUser f = uid" "fParent f = fcParent c" "parentOk uid (fcParent c) db"
    and db': "folders db' = folders db @ [f]" "folderSeq db' = folderSeq db + 1"
    using assms(2) by (auto simp: CreateFolder_def Let_def split: sum.splits option.splits if_splits)
  have new: "g \<in> set (folders db) \<Longrightarrow> fId g \<noteq> folderSeq db" for g using folderInvD(2) [OF assms(1)] by fastforce
  have keep: "parentOk u p db \<Longrightarrow> parentOk u p db'" for u p
    by (auto simp: parentOk_def folderExists_iff db' split: option.splits)
  have nopar: "(folderSeq db, x) \<notin> parentRel db" for x
  proof
    assume "(folderSeq db, x) \<in> parentRel db"
    then obtain g where "g \<in> set (folders db)" "fParent g = Some (folderSeq db)" by (auto simp: parentRel_def)
    then show False using folderInvD(3) [OF assms(1), of g] new by (auto simp: parentOk_def folderExists_iff)
  qed
  have "acyclic (parentRel db')"
  proof (cases "fcParent c")
    case None
    then have "parentRel db' = parentRel db" using f by (auto simp: parentRel_def db')
    then show ?thesis using folderInvD(4) [OF assms(1)] by simp
  next
    case (Some p)
    then have "parentRel db' = insert (p, folderSeq db) (parentRel db)" using f by (auto simp: parentRel_def db')
    moreover have "(folderSeq db, p) \<notin> (parentRel db)\<^sup>*"
    proof
      assume "(folderSeq db, p) \<in> (parentRel db)\<^sup>*"
      then have "p = folderSeq db" by (cases rule: converse_rtranclE) (use nopar in auto)
      then show False using Some f(4) new by (auto simp: parentOk_def folderExists_iff)
    qed
    ultimately show ?thesis using folderInvD(4) [OF assms(1)] by (simp add: acyclic_insert)
  qed
  then show ?thesis using assms(1) f keep new
    by (fastforce simp: folderInv_def db' list_all_iff)
qed

lemma orElse_None: "orElse a b = None \<longleftrightarrow> a = None \<and> b = None"
  by (auto simp: orElse_def split: option.splits)

lemma updateOnce_Inr:
  assumes "updateOnce verify conf uid i a db = (Inr (f, db'), a')"
  obtains "authorizeMutation verify uid i a db = None" "loadHintIfPasswordOnly uid i a db = Inr a'"
    "rejectHintEqualsPassword verify uid i a' db = None" "rejectParentCycle uid i a' db = None"
    "execUpdate uid i a' db = Inr (f, db')"
  using assms by (auto simp: updateOnce_def orElse_None split: if_splits option.splits sum.splits)

lemma loadHint_in: "loadHintIfPasswordOnly uid i a db = Inr a' \<Longrightarrow> prIn a' = prIn a \<and> prNewHash a' = prNewHash a"
  by (auto simp: loadHintIfPasswordOnly_def split: if_splits option.splits)

lemma applySets_frame [simp]: "fId (applySets a f) = fId f" "fUser (applySets a f) = fUser f"
  by (simp_all add: applySets_def Let_def)

lemma execUpdate_Inr:
  assumes "execUpdate uid i a db = Inr (f, db')"
  shows "folderExists uid i db"
    "folders db' = map (\<lambda>g. if fUser g = uid \<and> fId g = i then applySets a g else g) (folders db)"
    "folderSeq db' = folderSeq db" "fuParentSet (prIn a) \<Longrightarrow> parentOk uid (fuParent (prIn a)) db"
  using assms by (auto simp: execUpdate_def folderExists_def split: option.splits if_splits)

lemma folderInv_updateOnce:
  assumes "folderInv db" "updateOnce verify conf uid i a db = (Inr (f, db'), a')"
  shows "folderInv db'"
proof -
  from assms(2) have cyc: "rejectParentCycle uid i a' db = None" and ex: "execUpdate uid i a' db = Inr (f, db')"
    by (auto elim: updateOnce_Inr)
  note x = execUpdate_Inr [OF ex]
  define g where "g = (\<lambda>h. if fUser h = uid \<and> fId h = i then applySets a' h else h)"
  note fs = x(2) [folded g_def]
  have id: "fId (g h) = fId h" "fUser (g h) = fUser h" for h by (simp_all add: g_def)
  have par: "fParent (g h) = (if fUser h = uid \<and> fId h = i \<and> fuParentSet (prIn a') then fuParent (prIn a') else fParent h)" for h
    by (simp add: g_def applySets_def Let_def)
  have "acyclic (parentRel db')"
  proof (cases "fuParentSet (prIn a') \<and> fuParent (prIn a') \<noteq> None")
    case False
    then have "parentRel db' \<subseteq> parentRel db" by (auto simp: parentRel_def fs par id split: if_splits)
    then show ?thesis using folderInvD(4) [OF assms(1)] acyclic_mono by blast
  next
    case True
    then obtain p where p: "fuParentSet (prIn a')" "fuParent (prIn a') = Some p" by auto
    have ep: "folderExists uid p db" using x(4) p by (simp add: parentOk_def)
    obtain as where as: "ancestors (queryFuel db) uid (Some p) db = Some as" "i \<notin> set as"
      using cyc p by (auto simp: rejectParentCycle_def checkParentCycle_def split: option.splits if_splits)
    have "(i, p) \<notin> (parentRel db)\<^sup>*"
      using userRel_path [OF assms(1) _ ep] ancestors_set [OF assms(1) ep as(1)] as(2) by auto
    moreover have "parentRel db' \<subseteq> insert (p, i) (parentRel db)"
      using p by (auto simp: parentRel_def fs par id split: if_splits)
    moreover have "acyclic (insert (p, i) (parentRel db))"
      using folderInvD(4) [OF assms(1)] calculation(1) by (simp add: acyclic_insert)
    ultimately show ?thesis using acyclic_mono by blast
  qed
  moreover have "parentOk (fUser h) (Some p) db" if "h \<in> set (folders db)" "fParent (g h) = Some p" for h p
    using that folderInvD(3) [OF assms(1) that(1)] x(4) par [of h] by (auto split: if_splits)
  ultimately show ?thesis
    by (intro folderInv_map [OF assms(1) fs x(3)]) (auto simp: id)
qed

lemma folderInv_updateLoop:
  "updateLoop verify n uid i a atts = Inr (f, db') \<Longrightarrow> list_all (\<lambda>(db, c). folderInv db) atts \<Longrightarrow> folderInv db'"
proof (induction verify n uid i a atts rule: updateLoop.induct)
  case (3 verify n uid i a db conf atts)
  obtain r a' where u: "updateOnce verify conf uid i a db = (r, a')" by fastforce
  show ?case
  proof (cases r)
    case (Inl e)
    with 3 u show ?thesis by (auto split: if_splits)
  next
    case (Inr p)
    then show ?thesis using "3.prems" u folderInv_updateOnce [of db verify conf uid i a f db' a'] by simp
  qed
qed simp_all

lemma folderInv_deleteFolders:
  assumes "folderInv db"
  shows "folderInv (deleteFolders P db)"
proof -
  let ?c = "clearParent P (folders db)"
  have c: "fId (?c f) = fId f" "fUser (?c f) = fUser f" "fParent (?c f) = fParent f \<or> fParent (?c f) = None" for f
    by (auto simp: clearParent_def)
  have fs: "folders (deleteFolders P db) = map ?c (filter (\<lambda>f. \<not> P f) (folders db))" by (simp add: deleteFolders_def)
  have ids: "map fId (folders (deleteFolders P db)) = map fId (filter (\<lambda>f. \<not> P f) (folders db))"
    by (simp add: fs c comp_def)
  have "parentRel (deleteFolders P db) \<subseteq> parentRel db"
  proof
    fix e
    assume "e \<in> parentRel (deleteFolders P db)"
    then obtain f p where "e = (p, fId f)" "f \<in> set (folders db)" "fParent (?c f) = Some p"
      by (auto simp: parentRel_def fs c(1))
    then show "e \<in> parentRel db" using c(3) [of f] by (auto simp: parentRel_def)
  qed
  then have "acyclic (parentRel (deleteFolders P db))" using folderInvD(4) [OF assms] acyclic_mono by blast
  moreover have "parentOk (fUser f) (fParent (?c f)) (deleteFolders P db)" if f: "f \<in> set (folders db)" for f
  proof (cases "fParent (?c f)")
    case (Some p)
    then have p: "fParent f = Some p" and nd: "\<not> list_ex (\<lambda>d. P d \<and> fUser d = fUser f \<and> fParent f = Some (fId d)) (folders db)"
      by (auto simp: clearParent_def split: if_splits)
    obtain d where "d \<in> set (folders db)" "fUser d = fUser f" "fId d = p"
      using folderInvD(3) [OF assms f] p by (auto simp: parentOk_def folderExists_iff)
    moreover from this have "\<not> P d" using nd p by (auto simp: list_ex_iff)
    ultimately show ?thesis using Some c by (fastforce simp: parentOk_def folderExists_iff fs)
  qed (simp add: parentOk_def)
  moreover have "distinct (map fId (folders (deleteFolders P db)))"
    unfolding ids using folderInvD(1) [OF assms] by (rule distinct_map_filter)
  moreover have "folderSeq (deleteFolders P db) = folderSeq db" by (simp add: deleteFolders_def)
  ultimately show ?thesis
    using folderInvD(2) [OF assms] by (simp add: folderInv_def list_all_iff fs c)
qed

lemma folders_frames [simp]:
  "folders (deleteRefs now Q db) = folders db" "folderSeq (deleteRefs now Q db) = folderSeq db"
  "folders (purgeWhere P uid db) = folders db" "folderSeq (purgeWhere P uid db) = folderSeq db"
  "folders (deleteNotes now N db) = folders db" "folderSeq (deleteNotes now N db) = folderSeq db"
  "folders (snd (expireReleased now uid keys db)) = folders db"
  "folderSeq (snd (expireReleased now uid keys db)) = folderSeq db"
  by (simp_all add: deleteRefs_def purgeWhere_def deleteNotes_def expireReleased_def Let_def)

lemma cascade_folders:
  "folders (ReleaseFolderSubtreeRefs now uid sub db) = folders db"
  "folderSeq (ReleaseFolderSubtreeRefs now uid sub db) = folderSeq db"
  "folders (PurgeFolderSubtree uid sub db) = folders db" "folderSeq (PurgeFolderSubtree uid sub db) = folderSeq db"
  by (simp_all add: ReleaseFolderSubtreeRefs_def releaseRefs_def PurgeFolderSubtree_def)

lemma folderInv_cascadeContents: "folderInv db \<Longrightarrow> folderInv (deleteCascadeContents now uid sub db)"
  unfolding deleteCascadeContents_def Let_def
  by (rule folderInv_deleteFolders) (rule folderInv_frame, assumption, simp_all add: cascade_folders)

lemma folderInv_Reset:
  assumes "folderInv db" "ResetPasswordByMaster verify uid i plain db = (Inr x, db')"
  shows "folderInv db'"
proof -
  let ?g = "\<lambda>g. if fUser g = uid \<and> fId g = i then g\<lparr>fHash := None, fHint := None\<rparr> else g"
  have fs: "folders db' = map ?g (folders db)" "folderSeq db' = folderSeq db"
    using assms(2) by (auto simp: ResetPasswordByMaster_def split: option.splits if_splits)
  show ?thesis by (rule folderInv_mapSame [OF assms(1) fs]) auto
qed

section \<open>Histories of the folder table\<close>

text \<open>
  What a request may do to a folder, with the proof it carried.  A serializable update may lose a
  number of attempts to conflicts, on whatever states it met, before the one that commits.
\<close>

datatype folderOp =
    OpCreate int folderCreate
  | OpUpdate int int folderUpdate
  | OpReset int int string
  | OpDelete gotime int int string
  | OpCascade gotime int int string

inductive folderStep ::
  "(string \<Rightarrow> string option) \<Rightarrow> (string \<Rightarrow> string \<Rightarrow> bool) \<Rightarrow> (string \<Rightarrow> string \<Rightarrow> string) \<Rightarrow> string \<Rightarrow>
   folderOp \<Rightarrow> content \<Rightarrow> content \<Rightarrow> bool" for hashpw verify mac key where
  create: "ValidateCreate (NormalizeCreate c) = None \<Longrightarrow>
    CreateFolder hashpw now uid (NormalizeCreate c) db = (Inr f, db') \<Longrightarrow>
    folderStep hashpw verify mac key (OpCreate uid c) db db'"
| update: "prepareFolderUpdate hashpw i u = Inr (Some a) \<Longrightarrow>
    list_all (\<lambda>(d, conf). conf \<noteq> NoConflict) lost \<Longrightarrow>
    updateLoop verify maxSerializationRetries uid i a (lost @ [(db, NoConflict)]) = Inr (f, db') \<Longrightarrow>
    folderStep hashpw verify mac key (OpUpdate uid i u) db db'"
| reset: "ResetPasswordByMaster verify uid i plain db = (Inr (), db') \<Longrightarrow>
    folderStep hashpw verify mac key (OpReset uid i plain) db db'"
| delete: "DeleteFolder mac now uid i key token db = (Inr (), db') \<Longrightarrow>
    folderStep hashpw verify mac key (OpDelete now uid i token) db db'"
| cascade: "deleteCascade mac now uid i key token db = (Inr ids, db') \<Longrightarrow>
    folderStep hashpw verify mac key (OpCascade now uid i token) db db'"

inductive folderReach ::
  "(string \<Rightarrow> string option) \<Rightarrow> (string \<Rightarrow> string \<Rightarrow> bool) \<Rightarrow> (string \<Rightarrow> string \<Rightarrow> string) \<Rightarrow> string \<Rightarrow>
   content \<Rightarrow> bool" for hashpw verify mac key where
  start: "folders db = [] \<Longrightarrow> folderReach hashpw verify mac key db"
| step: "folderReach hashpw verify mac key db \<Longrightarrow> folderStep hashpw verify mac key op db db' \<Longrightarrow>
    folderReach hashpw verify mac key db'"
| elsewhere: "folderReach hashpw verify mac key db \<Longrightarrow> folders db' = folders db \<Longrightarrow> folderSeq db' = folderSeq db \<Longrightarrow>
    folderReach hashpw verify mac key db'"
| account_gone: "folderReach hashpw verify mac key db \<Longrightarrow>
    folderReach hashpw verify mac key (deleteFolders (\<lambda>f. fUser f = uid) db)"

text \<open>The attempt that commits, with the prepared record the lost attempts left behind.\<close>

lemma updateOnce_conflict:
  "conf \<noteq> NoConflict \<Longrightarrow> \<exists>e a'. updateOnce verify conf uid i a db = (Inl e, a') \<and> prIn a' = prIn a \<and> prNewHash a' = prNewHash a"
  by (cases conf) (auto simp: updateOnce_def split: option.splits sum.splits dest: loadHint_in)

lemma updateLoop_commit:
  "updateLoop verify n uid i a (lost @ [(db, NoConflict)]) = Inr (f, db') \<Longrightarrow>
   list_all (\<lambda>(d, conf). conf \<noteq> NoConflict) lost \<Longrightarrow>
   \<exists>a1 a2. prIn a1 = prIn a \<and> prNewHash a1 = prNewHash a \<and> (lost = [] \<longrightarrow> a1 = a) \<and>
     updateOnce verify NoConflict uid i a1 db = (Inr (f, db'), a2)"
proof (induction lost arbitrary: n a)
  case Nil
  obtain m where n: "n = Suc m" using Nil.prems(1) by (cases n) auto
  obtain r a2 where u: "updateOnce verify NoConflict uid i a db = (r, a2)" by fastforce
  show ?case
  proof (cases r)
    case (Inl e)
    then show ?thesis using Nil.prems(1) n u by (cases m) (auto split: if_splits)
  next
    case (Inr p)
    then show ?thesis using Nil.prems(1) n u by auto
  qed
next
  case (Cons x lost)
  obtain d conf where x: "x = (d, conf)" by (cases x)
  obtain m where n: "n = Suc m" using Cons.prems(1) by (cases n) auto
  have "conf \<noteq> NoConflict" using Cons.prems(2) x by simp
  then obtain e a' where u: "updateOnce verify conf uid i a d = (Inl e, a')" "prIn a' = prIn a" "prNewHash a' = prNewHash a"
    using updateOnce_conflict by blast
  then have "updateLoop verify m uid i a' (lost @ [(db, NoConflict)]) = Inr (f, db')"
    using Cons.prems(1) n x by (simp split: if_splits)
  from Cons.IH [OF this] Cons.prems(2) u(2,3) show ?case by auto
qed

lemma folderInv_step: "folderStep hashpw verify mac key op db db' \<Longrightarrow> folderInv db \<Longrightarrow> folderInv db'"
proof (induction rule: folderStep.induct)
  case (create c now uid db f db')
  then show ?case using folderInv_Create by blast
next
  case (update i u a lost uid db f db')
  then show ?case using updateLoop_commit folderInv_updateOnce by blast
next
  case (reset uid i plain db db')
  then show ?case using folderInv_Reset by blast
next
  case (delete now uid i token db db')
  then show ?case using folderInv_deleteFolders [of db "\<lambda>f. fUser f = uid \<and> fId f = i"]
    by (auto simp: DeleteFolder_def split: option.splits)
next
  case (cascade now uid i token db ids db')
  then show ?case using folderInv_cascadeContents [of db now uid]
    by (auto simp: deleteCascade_def split: option.splits prod.splits if_splits)
qed

lemma folderReach_inv: "folderReach hashpw verify mac key db \<Longrightarrow> folderInv db"
proof (induction rule: folderReach.induct)
  case (start db)
  then show ?case by (simp add: folderInv_def parentRel_def acyclic_def)
next
  case (step db op db')
  then show ?case using folderInv_step by blast
next
  case (elsewhere db db')
  then show ?case using folderInv_frame by blast
next
  case (account_gone db uid)
  then show ?case using folderInv_deleteFolders by blast
qed

text \<open>
  C26. Whatever requests did, in whatever order and however often a transaction was retried, the folders
  form a forest: every parent exists and belongs to the same account, and no folder is its own
  ancestor.  So both recursive queries, the one that looks for a cycle and the one that collects a
  subtree, always end, within one level more than there are folders.
\<close>

theorem folders_stay_a_forest:
  assumes "folderReach hashpw verify mac key db"
  shows "acyclic (parentRel db) \<and> list_all (\<lambda>f. parentOk (fUser f) (fParent f) db) (folders db) \<and>
    checkParentCycle uid i p db \<noteq> Some ErrDb \<and> materializeCascadeSubtree uid i db \<noteq> None"
proof -
  note inv = folderReach_inv [OF assms]
  have "ancestors (queryFuel db) uid (Some p) db \<noteq> None"
    by (rule ancestors_ends [OF inv]) (simp add: queryFuel_def above_bound [OF inv] less_Suc_eq_le)
  moreover have "subtreeFrom (queryFuel db) uid level db \<noteq> None" for level
    by (rule subtree_ends [OF inv]) (simp add: queryFuel_def below_bound less_Suc_eq_le)
  ultimately show ?thesis
    using inv by (auto simp: folderInv_def checkParentCycle_def materializeCascadeSubtree_def split: option.splits)
qed

text \<open>The empty store, a folder in it, and a folder nested in that one.\<close>

definition nestDemo :: "content \<Rightarrow> content" where
  "nestDemo db = snd (CreateFolder Some 5 1 (NormalizeCreate
     \<lparr>fcName = ''a'', fcColor = [], fcParent = None, fcPassword = Some ''open'', fcHint = None\<rparr>) db)"

definition oneAccount :: content where
  "oneAccount = emptyContent\<lparr>masters := [\<lparr>msUser = 1, msHash = None, msHint = None\<rparr>]\<rparr>"

lemma nestDemo_folders:
  "folders (nestDemo oneAccount) = [\<lparr>fId = 1, fUser = 1, fName = ''a'', fColor = ''#6366F1'', fParent = None,
     fCreated = 5, fHash = Some ''open'', fHint = None\<rparr>]"
  by (simp add: nestDemo_def oneAccount_def emptyContent_def CreateFolder_def NormalizeCreate_def Let_def goTrimSpace_def
      isGoSpace_def normalizeHint_def accountExists_def parentOk_def)

lemma nestDemo_reach: "folderReach Some (=) tallyMac ''key'' (nestDemo oneAccount)"
proof -
  let ?c = "\<lparr>fcName = ''a'', fcColor = [], fcParent = None, fcPassword = Some ''open'', fcHint = None\<rparr>"
  have "folderReach Some (=) tallyMac ''key'' oneAccount"
    by (rule folderReach.start) (simp add: oneAccount_def emptyContent_def)
  moreover have "ValidateCreate (NormalizeCreate ?c) = None"
    by (simp add: ValidateCreate_def NormalizeCreate_def Let_def goTrimSpace_def isGoSpace_def normalizeHint_def
        orElse_def validateName_def validatePlain_def validateHint_def minPasswordLen_def MaxPlainBytes_def
        IsValidColor_def colorPattern_def hexPart_def isHexDigit_def)
  moreover have "\<exists>f. CreateFolder Some 5 1 (NormalizeCreate ?c) oneAccount = (Inr f, nestDemo oneAccount)"
    by (simp add: nestDemo_def CreateFolder_def NormalizeCreate_def Let_def oneAccount_def emptyContent_def
        accountExists_def parentOk_def)
  ultimately show ?thesis by (blast intro: folderReach.step folderStep.create)
qed

lemma folders_stay_a_forest_witness:
  "checkParentCycle 1 1 1 (nestDemo oneAccount) = Some ErrParentCycle"
proof -
  have "checkParentCycle 1 1 1 (nestDemo oneAccount) \<noteq> Some ErrDb"
    using folders_stay_a_forest [OF nestDemo_reach] by simp
  moreover have "folderOf 1 1 (nestDemo oneAccount) \<noteq> None" by (simp add: folderOf_def nestDemo_folders)
  ultimately show ?thesis by (auto simp: checkParentCycle_def queryFuel_def split: option.splits)
qed

end
