(* ===== verification/FolderGuard.thy ===== *)
theory FolderGuard
  imports FolderTree
begin

text \<open>
  What protects a protected folder: no request changes or removes its password without the proof that
  operation asks for; a cascade deletes exactly a subtree; a hint never gives the password away.
\<close>

section \<open>Protection\<close>

text \<open>The proof an operation carries for the protected folder \<open>f\<close> whose hash is \<open>h\<close>.\<close>

definition carriesProof ::
  "(string \<Rightarrow> string \<Rightarrow> bool) \<Rightarrow> (string \<Rightarrow> string \<Rightarrow> string) \<Rightarrow> string \<Rightarrow> content \<Rightarrow> folder \<Rightarrow> string \<Rightarrow> folderOp \<Rightarrow> bool" where
  "carriesProof verify mac key db f h op =
     (case op of
        OpCreate uid c \<Rightarrow> False
      | OpUpdate uid i u \<Rightarrow> uid = fUser f \<and> i = fId f \<and> (\<exists>p. fuCurrent u = Some p \<and> verify h p)
      | OpReset uid i plain \<Rightarrow> uid = fUser f \<and> i = fId f \<and> (\<exists>m. masterHash uid db = Some m \<and> verify m plain)
      | OpDelete now uid i token \<Rightarrow> uid = fUser f \<and> i = fId f \<and> VerifyUnlockToken mac now key i h token
      | OpCascade now uid i token \<Rightarrow> uid = fUser f \<and> i = fId f \<and> VerifyUnlockToken mac now key i h token)"

definition stillProtected :: "folder \<Rightarrow> string \<Rightarrow> content \<Rightarrow> bool" where
  "stillProtected f h db = (\<exists>g\<in>set (folders db). fId g = fId f \<and> fUser g = fUser f \<and> fHash g = Some h \<and> fHint g = fHint f)"

lemma stillProtected_map:
  assumes "folders db' = map g (folders db)" "f \<in> set (folders db)" "fHash f = Some h"
    and "fId (g f) = fId f \<and> fUser (g f) = fUser f \<and> fHash (g f) = fHash f \<and> fHint (g f) = fHint f"
  shows "stillProtected f h db'"
  using assms by (auto simp: stillProtected_def)

lemma prepare_sets:
  "prepareFolderUpdate hashpw i u = Inr (Some a) \<Longrightarrow> prIn a = u \<and>
     (\<not> fuPasswordSet u \<longrightarrow> prNewHash a = None)"
  by (auto simp: prepareFolderUpdate_def split: sum.splits if_splits option.splits)

lemma update_keeps_protection:
  assumes "folderInv db" "updateOnce verify NoConflict uid i a db = (Inr (r, db'), a')" "prIn a = u"
    and "f \<in> set (folders db)" "fHash f = Some h"
    and "\<not> (uid = fUser f \<and> i = fId f \<and> (\<exists>p. fuCurrent u = Some p \<and> verify h p))"
  shows "stillProtected f h db'"
proof -
  have ex: "execUpdate uid i a' db = Inr (r, db')" and auth: "authorizeMutation verify uid i a db = None"
    and "prIn a' = u"
    using assms(2,3) by (auto elim!: updateOnce_Inr dest: loadHint_in)
  note x = execUpdate_Inr [OF ex]
  show ?thesis
  proof (cases "uid = fUser f \<and> i = fId f")
    case False
    then show ?thesis by (intro stillProtected_map [OF x(2) assms(4,5)]) auto
  next
    case True
    then have "folderOf uid i db = Some f" using assms(4) by (simp add: folderOf_iff [OF folderInvD(1) [OF assms(1)]])
    then have "\<not> fuPasswordSet u \<and> \<not> fuHintSet u"
      using auth assms(3,5,6) True
      by (auto simp: authorizeMutation_def checkPasswordChangeAuthorized_def split: if_splits option.splits)
    then show ?thesis using \<open>prIn a' = u\<close>
      by (intro stillProtected_map [OF x(2) assms(4,5)]) (simp add: applySets_def Let_def)
  qed
qed

lemma delete_keeps_protection:
  assumes "f \<in> set (folders db)" "fHash f = Some h" "\<not> P f"
  shows "stillProtected f h (deleteFolders P db)"
  unfolding stillProtected_def
  by (rule bexI [of _ "clearParent P (folders db) f"])
    (use assms in \<open>auto simp: deleteFolders_def clearParent_def\<close>)

lemma authorize_token:
  assumes "folderInv db" "authorizeFolderDelete mac now uid i key token db = None" "f \<in> set (folders db)"
    "fUser f = uid" "fId f = i" "fHash f = Some h"
  shows "VerifyUnlockToken mac now key i h token"
proof -
  have "folderOf uid i db = Some f" using assms by (simp add: folderOf_iff [OF folderInvD(1) [OF assms(1)]])
  then show ?thesis using assms(2,6) by (simp add: authorizeFolderDelete_def PasswordHashFor_def CheckUnlock_None)
qed

lemma filter_in_sort: "(x \<in> set (sort xs)) = (x \<in> set xs)"
  by simp

lemma cascade_success:
  assumes "deleteCascade mac now uid i key token db = (Inr deleted, db')"
  obtains sub where "authorizeFolderDelete mac now uid i key token db = None"
    "materializeCascadeSubtree uid i db = Some sub" "db' = deleteCascadeContents now uid sub db"
    "deleted = sort (map fId (filter (\<lambda>f. fUser f = uid \<and> fId f \<in> set sub) (folders db)))"
    "\<And>f. f \<in> set (folders db) \<Longrightarrow> fUser f = uid \<Longrightarrow> fId f \<in> set sub \<Longrightarrow> fId f \<noteq> i \<Longrightarrow> fHash f = None"
  using assms
  by (auto simp: deleteCascade_def lockCascadeSubtree_def Let_def filter_empty_conv split: option.splits if_splits)

text \<open>
  C25. Of the five requests on folders (create, update, reset by the master password, delete and cascade), none
  takes away a protected folder, its password or its hint, except one on this very folder by its owner that
  proves it may: an update that quotes the current password, a reset that quotes the master password, or a
  delete with an unlock token that verifies against the current hash.  A cascade started above it never
  reaches it.  The wipe before a restore and the deletion of an account are other requests: they delete every
  folder of the account, protected or not, and the theorem does not speak of them.
\<close>

theorem protected_folder_needs_proof:
  assumes "folderReach hashpw verify mac key db" "folderStep hashpw verify mac key op db db'"
    and "f \<in> set (folders db)" "fHash f = Some h"
  shows "stillProtected f h db' \<or> carriesProof verify mac key db f h op"
  using assms(2)
proof (cases rule: folderStep.cases)
  case (create c now uid r)
  then have "folders db' = folders db @ [r]"
    by (auto simp: CreateFolder_def Let_def split: sum.splits option.splits if_splits)
  then show ?thesis using assms(3,4) by (auto simp: stillProtected_def)
next
  case (update i u a lost uid r)
  obtain a1 a2 where "prIn a1 = prIn a" "updateOnce verify NoConflict uid i a1 db = (Inr (r, db'), a2)"
    using updateLoop_commit [OF update(4,3)] by blast
  with prepare_sets [OF update(2)] show ?thesis
    using update_keeps_protection [OF folderReach_inv [OF assms(1)] _ _ assms(3,4), of verify uid i a1 r db' a2 u]
    by (auto simp: carriesProof_def update(1))
next
  case (reset uid i plain)
  then obtain m where m: "masterHash uid db = Some m" "verify m plain"
    and fs: "folders db' = map (\<lambda>g. if fUser g = uid \<and> fId g = i then g\<lparr>fHash := None, fHint := None\<rparr> else g) (folders db)"
    by (auto simp: ResetPasswordByMaster_def split: option.splits if_splits)
  show ?thesis
  proof (cases "fUser f = uid \<and> fId f = i")
    case True
    with m show ?thesis by (simp add: carriesProof_def reset(1))
  next
    case False
    then show ?thesis using stillProtected_map [OF fs assms(3,4)] by auto
  qed
next
  case (delete now uid i token)
  then have d: "authorizeFolderDelete mac now uid i key token db = None"
    "db' = deleteFolders (\<lambda>f. fUser f = uid \<and> fId f = i) db"
    by (auto simp: DeleteFolder_def split: option.splits)
  show ?thesis
  proof (cases "fUser f = uid \<and> fId f = i")
    case True
    then show ?thesis using authorize_token [OF folderReach_inv [OF assms(1)] d(1) assms(3)] assms(4)
      by (simp add: carriesProof_def delete(1))
  next
    case False
    then show ?thesis unfolding d(2) by (intro disjI1 delete_keeps_protection [OF assms(3,4)])
  qed
next
  case (cascade now uid i token ids)
  from cascade(2) show ?thesis
  proof (rule cascade_success)
    fix sub
    assume c: "authorizeFolderDelete mac now uid i key token db = None" "db' = deleteCascadeContents now uid sub db"
      "\<And>f. f \<in> set (folders db) \<Longrightarrow> fUser f = uid \<Longrightarrow> fId f \<in> set sub \<Longrightarrow> fId f \<noteq> i \<Longrightarrow> fHash f = None"
    show ?thesis
    proof (cases "fUser f = uid \<and> fId f \<in> set sub")
      case True
      then have "fId f = i" using c(3) [OF assms(3)] assms(4) by auto
      then show ?thesis using authorize_token [OF folderReach_inv [OF assms(1)] c(1) assms(3)] True assms(4)
        by (simp add: carriesProof_def cascade(1))
    next
      case False
      show ?thesis using False assms(3,4)
        by (intro disjI1) (simp only: c(2) deleteCascadeContents_def Let_def,
          rule delete_keeps_protection, simp_all add: cascade_folders)
    qed
  qed
qed

text \<open>A second folder next to the protected one leaves it as it is.\<close>

definition nestDemo2 :: "content \<Rightarrow> content" where
  "nestDemo2 db = snd (CreateFolder Some 6 1 (NormalizeCreate
     \<lparr>fcName = ''b'', fcColor = [], fcParent = Some 1, fcPassword = None, fcHint = None\<rparr>) db)"

lemma nestDemo2_step: "folderStep Some (=) tallyMac ''key'' (OpCreate 1
   \<lparr>fcName = ''b'', fcColor = [], fcParent = Some 1, fcPassword = None, fcHint = None\<rparr>)
   (nestDemo oneAccount) (nestDemo2 (nestDemo oneAccount))"
proof -
  let ?c = "\<lparr>fcName = ''b'', fcColor = [], fcParent = Some 1, fcPassword = None, fcHint = None\<rparr>"
  have "ValidateCreate (NormalizeCreate ?c) = None"
    by (simp add: ValidateCreate_def NormalizeCreate_def Let_def goTrimSpace_def isGoSpace_def normalizeHint_def
        orElse_def validateName_def validateHint_def IsValidColor_def colorPattern_def hexPart_def isHexDigit_def)
  moreover have "masters (nestDemo oneAccount) = masters oneAccount"
    by (simp add: nestDemo_def CreateFolder_def Let_def split: option.splits)
  then have "\<exists>f. CreateFolder Some 6 1 (NormalizeCreate ?c) (nestDemo oneAccount) = (Inr f, nestDemo2 (nestDemo oneAccount))"
    by (simp add: nestDemo2_def CreateFolder_def NormalizeCreate_def Let_def oneAccount_def accountExists_def
        parentOk_def folderExists_def folderOf_def nestDemo_folders [unfolded oneAccount_def])
  ultimately show ?thesis by (blast intro: folderStep.create)
qed

lemma protected_folder_needs_proof_witness:
  "stillProtected \<lparr>fId = 1, fUser = 1, fName = ''a'', fColor = ''#6366F1'', fParent = None,
     fCreated = 5, fHash = Some ''open'', fHint = None\<rparr> ''open'' (nestDemo2 (nestDemo oneAccount))"
  using protected_folder_needs_proof [OF nestDemo_reach nestDemo2_step,
      of "\<lparr>fId = 1, fUser = 1, fName = ''a'', fColor = ''#6366F1'', fParent = None,
     fCreated = 5, fHash = Some ''open'', fHint = None\<rparr>" "''open''"]
  by (simp add: nestDemo_folders carriesProof_def)

section \<open>What a cascade deletes\<close>

definition subtreeIds :: "int \<Rightarrow> int \<Rightarrow> content \<Rightarrow> int set" where
  "subtreeIds uid i db = {j. (i, j) \<in> (userRel uid db)\<^sup>*}"

lemma materialize_set:
  assumes "materializeCascadeSubtree uid i db = Some sub" "folderExists uid i db"
  shows "set sub = subtreeIds uid i db"
  using assms subtreeFrom_set [of _ uid "[i]" db sub]
  by (auto simp: materializeCascadeSubtree_def subtreeIds_def)

lemma content_frames:
  "links (deleteNotes now N d) = links d" "noteRows (deleteNotes now N d) = filter (\<lambda>n. \<not> N n) (noteRows d)"
  "links (PurgeFolderSubtree uid sub d) = links d" "noteRows (PurgeFolderSubtree uid sub d) = noteRows d"
  "links (ReleaseFolderSubtreeRefs now uid sub d) = links d"
  "noteRows (ReleaseFolderSubtreeRefs now uid sub d) = noteRows d"
  by (simp_all add: deleteNotes_def deleteRefs_def Let_def PurgeFolderSubtree_def purgeWhere_def
      ReleaseFolderSubtreeRefs_def releaseRefs_def expireReleased_def)

lemma deleteFolders_rows:
  "noteRows (deleteFolders P d) = map (clearNote P (folders d)) (noteRows d)"
  "links (deleteFolders P d) = map (clearLink P (folders d)) (links d)"
  "folders (deleteFolders P d) = map (clearParent P (folders d)) (filter (\<lambda>f. \<not> P f) (folders d))"
  by (simp_all add: deleteFolders_def)

lemma links_set_frames:
  "folders (d\<lparr>links := x\<rparr>) = folders d" "noteRows (d\<lparr>links := x\<rparr>) = noteRows d" "links (d\<lparr>links := x\<rparr>) = x"
  by simp_all

lemma cascade_rows:
  "noteRows (deleteCascadeContents now uid sub db) = map (clearNote (\<lambda>f. fUser f = uid \<and> fId f \<in> set sub) (folders db))
     (filter (\<lambda>n. \<not> (nUser n = uid \<and> inFolders sub (nFolder n))) (noteRows db))"
  "links (deleteCascadeContents now uid sub db) = map (clearLink (\<lambda>f. fUser f = uid \<and> fId f \<in> set sub) (folders db))
     (filter (\<lambda>l. \<not> (lkUser l = uid \<and> inFolders sub (lkFolder l))) (links db))"
  "folders (deleteCascadeContents now uid sub db) = map (clearParent (\<lambda>f. fUser f = uid \<and> fId f \<in> set sub) (folders db))
     (filter (\<lambda>f. \<not> (fUser f = uid \<and> fId f \<in> set sub)) (folders db))"
  by (simp_all only: deleteCascadeContents_def Let_def deleteFolders_rows content_frames folders_frames cascade_folders
      links_set_frames)

lemma cascade_keeps:
  assumes "folderInv db" "set sub = subtreeIds uid i db" "folderExists uid i db"
  defines "P \<equiv> \<lambda>f. fUser f = uid \<and> fId f \<in> set sub"
  shows "f \<in> set (folders db) \<Longrightarrow> \<not> P f \<Longrightarrow> clearParent P (folders db) f = f"
    and "\<not> (lkUser l = uid \<and> inFolders sub (lkFolder l)) \<Longrightarrow> clearLink P (folders db) l = l"
    and "\<not> (nUser n = uid \<and> inFolders sub (nFolder n)) \<Longrightarrow> clearNote P (folders db) n = n"
proof -
  assume f: "f \<in> set (folders db)" "\<not> P f"
  have "(p, fId f) \<in> userRel uid db" if "fUser f = uid" "fParent f = Some p" for p
    using that f(1) by (auto simp: userRel_def)
  then have "fId f \<in> set sub" if "fUser f = uid" "fParent f = Some p" "p \<in> set sub" for p
    using that by (auto simp: assms(2) subtreeIds_def intro: rtrancl_into_rtrancl)
  then show "clearParent P (folders db) f = f" using f(2) by (auto simp: P_def clearParent_def list_ex_iff)
next
  assume "\<not> (lkUser l = uid \<and> inFolders sub (lkFolder l))"
  then show "clearLink P (folders db) l = l" by (auto simp: P_def clearLink_def list_ex_iff inFolders_def)
next
  assume "\<not> (nUser n = uid \<and> inFolders sub (nFolder n))"
  then show "clearNote P (folders db) n = n" by (auto simp: P_def clearNote_def list_ex_iff inFolders_def)
qed

lemma subtree_rows:
  assumes "folderInv db" "folderExists uid i db"
  shows "subtreeIds uid i db = {fId f |f. f \<in> set (folders db) \<and> fUser f = uid \<and> fId f \<in> subtreeIds uid i db}"
proof -
  have "j \<in> {fId f |f. f \<in> set (folders db) \<and> fUser f = uid}" if "(i, j) \<in> (userRel uid db)\<^sup>*" for j
    using that by (cases rule: rtranclE) (use assms(2) in \<open>auto simp: userRel_def folderExists_iff\<close>)
  then show ?thesis by (auto simp: subtreeIds_def)
qed

lemma map_id_filter: "(\<And>x. x \<in> set xs \<Longrightarrow> \<not> P x \<Longrightarrow> g x = x) \<Longrightarrow> map g (filter (\<lambda>x. \<not> P x) xs) = filter (\<lambda>x. \<not> P x) xs"
  by (induction xs) auto

lemma inFolders_set: "set sub = S \<Longrightarrow> inFolders sub fo = (\<exists>j. j \<in> S \<and> fo = Some j)"
  by (auto simp: inFolders_def split: option.splits)

text \<open>
  C27. A cascade that succeeds deletes exactly the folder and its descendants, the links and the notes that
  lie in them, and nothing else: no row of another account, and no row of this account outside the
  subtree, changes at all.  The answer lists exactly the deleted folders.
\<close>

theorem cascade_deletes_exactly_subtree:
  assumes "folderReach hashpw verify mac key db" "deleteCascade mac now uid i key token db = (Inr deleted, db')"
  shows "set deleted = subtreeIds uid i db \<and>
    folders db' = filter (\<lambda>f. \<not> (fUser f = uid \<and> fId f \<in> subtreeIds uid i db)) (folders db) \<and>
    links db' = filter (\<lambda>l. \<not> (lkUser l = uid \<and> (\<exists>j. j \<in> subtreeIds uid i db \<and> lkFolder l = Some j))) (links db) \<and>
    noteRows db' = filter (\<lambda>n. \<not> (nUser n = uid \<and> (\<exists>j. j \<in> subtreeIds uid i db \<and> nFolder n = Some j))) (noteRows db)"
proof -
  note inv = folderReach_inv [OF assms(1)]
  from assms(2) show ?thesis
  proof (rule cascade_success)
    fix sub
    assume c: "authorizeFolderDelete mac now uid i key token db = None"
      "materializeCascadeSubtree uid i db = Some sub" "db' = deleteCascadeContents now uid sub db"
      "deleted = sort (map fId (filter (\<lambda>f. fUser f = uid \<and> fId f \<in> set sub) (folders db)))"
    have ex: "folderExists uid i db" using c(1)
      by (auto simp: authorizeFolderDelete_def PasswordHashFor_def folderExists_def split: sum.splits option.splits)
    note sub = materialize_set [OF c(2) ex]
    note keep = cascade_keeps [OF inv sub ex]
    have "set deleted = subtreeIds uid i db"
      using subtree_rows [OF inv ex] unfolding c(4) sub by auto
    moreover have "folders db' = filter (\<lambda>f. \<not> (fUser f = uid \<and> fId f \<in> set sub)) (folders db)"
      unfolding c(3) cascade_rows by (rule map_id_filter) (erule (1) keep(1))
    moreover have "links db' = filter (\<lambda>l. \<not> (lkUser l = uid \<and> inFolders sub (lkFolder l))) (links db)"
      unfolding c(3) cascade_rows by (rule map_id_filter) (erule keep(2))
    moreover have "noteRows db' = filter (\<lambda>n. \<not> (nUser n = uid \<and> inFolders sub (nFolder n))) (noteRows db)"
      unfolding c(3) cascade_rows by (rule map_id_filter) (erule keep(3))
    ultimately show ?thesis by (simp only: sub inFolders_set [OF sub] simp_thms)
  qed
qed

lemma nestDemo2_reach: "folderReach Some (=) tallyMac ''key'' (nestDemo2 (nestDemo oneAccount))"
  by (rule folderReach.step [OF nestDemo_reach nestDemo2_step])

lemma nestDemo2_folders:
  "folders (nestDemo2 (nestDemo oneAccount)) =
     [\<lparr>fId = 1, fUser = 1, fName = ''a'', fColor = ''#6366F1'', fParent = None,
       fCreated = 5, fHash = Some ''open'', fHint = None\<rparr>,
      \<lparr>fId = 2, fUser = 1, fName = ''b'', fColor = ''#6366F1'', fParent = Some 1,
       fCreated = 6, fHash = None, fHint = None\<rparr>]"
proof -
  have m: "masters (nestDemo oneAccount) = masters oneAccount" "folderSeq (nestDemo oneAccount) = 2"
    by (simp_all add: nestDemo_def CreateFolder_def Let_def NormalizeCreate_def oneAccount_def emptyContent_def
        accountExists_def parentOk_def)
  show ?thesis
    by (simp add: nestDemo2_def CreateFolder_def NormalizeCreate_def Let_def accountExists_def m parentOk_def
        folderExists_def folderOf_def nestDemo_folders goTrimSpace_def isGoSpace_def normalizeHint_def)
      (simp add: oneAccount_def)
qed

lemma nestDemo2_cascade:
  "\<exists>db'. deleteCascade tallyMac 5 1 2 ''key'' [] (nestDemo2 (nestDemo oneAccount)) = (Inr [2], db')"
  by (simp add: deleteCascade_def authorizeFolderDelete_def PasswordHashFor_def CheckUnlock_def folderOf_def
      nestDemo2_folders materializeCascadeSubtree_def folderExists_def queryFuel_def childrenOf_def
      lockCascadeSubtree_def Let_def numeral_2_eq_2)

lemma cascade_deletes_exactly_subtree_witness:
  "subtreeIds 1 2 (nestDemo2 (nestDemo oneAccount)) = {2}"
proof -
  obtain db' where "deleteCascade tallyMac 5 1 2 ''key'' [] (nestDemo2 (nestDemo oneAccount)) = (Inr [2], db')"
    using nestDemo2_cascade by blast
  from cascade_deletes_exactly_subtree [OF nestDemo2_reach this] show ?thesis by simp
qed

section \<open>A hint never gives the password away\<close>

definition hintOk :: "(string \<Rightarrow> string \<Rightarrow> bool) \<Rightarrow> content \<Rightarrow> bool" where
  "hintOk verify db = list_all (\<lambda>f. case fHint f of None \<Rightarrow> True
     | Some hint \<Rightarrow> (case fHash f of None \<Rightarrow> False | Some h \<Rightarrow> \<not> verify h hint)) (folders db)"

lemma hintOk_map:
  assumes "hintOk verify db" "folders db' = map g (folders db)"
    and "\<And>f. f \<in> set (folders db) \<Longrightarrow> (fHash (g f) = fHash f \<and> fHint (g f) = fHint f) \<or> fHint (g f) = None \<or>
      (\<exists>hint h. fHint (g f) = Some hint \<and> fHash (g f) = Some h \<and> \<not> verify h hint)"
  shows "hintOk verify db'"
  using assms by (fastforce simp: hintOk_def list_all_iff split: option.splits)

lemma hintOk_updateOnce:
  assumes "folderInv db" "hintOk verify db" "updateOnce verify NoConflict uid i a db = (Inr (f, db'), a')"
    and "prepareFolderUpdate hashpw i u = Inr (Some a)"
  shows "hintOk verify db'"
proof -
  from assms(3) have load: "loadHintIfPasswordOnly uid i a db = Inr a'"
    and rej: "rejectHintEqualsPassword verify uid i a' db = None" and ex: "execUpdate uid i a' db = Inr (f, db')"
    by (auto elim: updateOnce_Inr)
  note x = execUpdate_Inr [OF ex]
  have a: "prIn a = u" "prIn a' = u" "prNewHash a' = prNewHash a"
    using assms(4) loadHint_in [OF load] by (auto simp: prepareFolderUpdate_def split: sum.splits if_splits)
  have newhash: "fuPasswordSet u \<Longrightarrow> fuPassword u \<noteq> None \<Longrightarrow> prNewHash a \<noteq> None"
    and toval: "prHintToValidate a = (if fuPasswordSet u \<and> fuPassword u = None then None
                                     else if fuHintSet u then fuHint u else None)"
    using assms(4)
    by (auto simp: prepareFolderUpdate_def split: sum.splits if_splits option.splits) (rule exI, erule sym)+
  show ?thesis
  proof (rule hintOk_map [OF assms(2) x(2)])
    fix g
    assume g: "g \<in> set (folders db)"
    show "(fHash (if fUser g = uid \<and> fId g = i then applySets a' g else g) = fHash g \<and>
        fHint (if fUser g = uid \<and> fId g = i then applySets a' g else g) = fHint g) \<or>
      fHint (if fUser g = uid \<and> fId g = i then applySets a' g else g) = None \<or>
      (\<exists>hint h. fHint (if fUser g = uid \<and> fId g = i then applySets a' g else g) = Some hint \<and>
         fHash (if fUser g = uid \<and> fId g = i then applySets a' g else g) = Some h \<and> \<not> verify h hint)"
    proof (cases "fUser g = uid \<and> fId g = i")
      case True
      then have fo: "folderOf uid i db = Some g" using g by (simp add: folderOf_iff [OF folderInvD(1) [OF assms(1)]])
      have set: "fHash (applySets a' g) = (if fuPasswordSet u then prNewHash a else fHash g)"
        "fHint (applySets a' g) = (if fuPasswordSet u \<and> fuPassword u = None then None
           else if fuHintSet u then fuHint u else fHint g)"
        by (simp_all add: applySets_def a)
      consider (clear) "fHint (applySets a' g) = None"
        | (keep) "\<not> fuPasswordSet u" "\<not> fuHintSet u"
        | (new) hint where "fuHintSet u" "fuHint u = Some hint" "\<not> (fuPasswordSet u \<and> fuPassword u = None)"
        | (old) hint where "\<not> fuHintSet u" "fuPasswordSet u" "fuPassword u \<noteq> None" "fHint g = Some hint"
        using set(2) by (cases "fHint (applySets a' g)") (auto split: if_splits)
      then show ?thesis
      proof cases
        case new
        then have "a' = a" "prHintToValidate a = Some hint"
          using toval load a(1) by (auto simp: loadHintIfPasswordOnly_def)
        then obtain h where "\<not> verify h hint" "fHash (applySets a' g) = Some h"
          using rej fo unfolding set(1)
          by (auto simp: rejectHintEqualsPassword_def checkHintNotPassword_def PasswordHashFor_def a split: if_splits option.splits)
        then show ?thesis using True new set(2) by auto
      next
        case old
        then have "prHintToValidate a' = Some hint"
          using toval newhash load fo a by (auto simp: loadHintIfPasswordOnly_def split: if_splits)
        then obtain h where "\<not> verify h hint" "fHash (applySets a' g) = Some h"
          using rej newhash old unfolding set(1)
          by (auto simp: rejectHintEqualsPassword_def checkHintNotPassword_def a split: option.splits if_splits)
        then show ?thesis using True old set(2) by auto
      qed (use set in auto)
    qed auto
  qed
qed

lemma updateLoop_AtStart:
  "updateLoop verify n uid i a (lost @ [(db, NoConflict)]) = Inr r \<Longrightarrow>
   list_all (\<lambda>(d, conf). conf = AtStart) lost \<Longrightarrow> \<exists>a2. updateOnce verify NoConflict uid i a db = (Inr r, a2)"
proof (induction lost arbitrary: n)
  case Nil
  then show ?case by (cases n; cases "n - 1") (auto split: prod.splits sum.splits if_splits)
next
  case (Cons d lost)
  then show ?case by (cases n) (auto simp: updateOnce_def [of verify AtStart] split: prod.splits)
qed

text \<open>
  C31. A folder that has a hint has a password, and the hint is not that password: an update that changes
  either, under any password hash, leaves this true of every folder, as long as every attempt it had
  to repeat failed before it read anything.
\<close>

theorem hint_never_password:
  assumes "folderReach hashpw verify mac key db" "hintOk verify db"
    and "prepareFolderUpdate hashpw i u = Inr (Some a)" "list_all (\<lambda>(d, conf). conf = AtStart) lost"
    and "updateLoop verify maxSerializationRetries uid i a (lost @ [(db, NoConflict)]) = Inr (f, db')"
  shows "hintOk verify db'"
proof -
  obtain a2 where "updateOnce verify NoConflict uid i a db = (Inr (f, db'), a2)"
    using updateLoop_AtStart [OF assms(5,4)] by blast
  then show ?thesis by (rule hintOk_updateOnce [OF folderReach_inv [OF assms(1)] assms(2) _ assms(3)])
qed

definition hintUpdate :: folderUpdate where
  "hintUpdate = \<lparr>fuName = None, fuColor = None, fuParentSet = False, fuParent = None, fuPasswordSet = False,
     fuPassword = None, fuCurrent = Some ''open'', fuHintSet = True, fuHint = Some ''door''\<rparr>"

definition hinted :: "content \<Rightarrow> content" where
  "hinted db = db\<lparr>folders := map (\<lambda>f. if fUser f = 1 \<and> fId f = 1 then f\<lparr>fHint := Some ''door''\<rparr> else f) (folders db)\<rparr>"

lemma hint_never_password_witness: "hintOk (=) (hinted (nestDemo oneAccount))"
proof -
  obtain a where a: "prepareFolderUpdate Some 1 hintUpdate = Inr (Some a)" "prIn a = hintUpdate"
    "prHintToValidate a = Some ''door''"
    by (simp add: prepareFolderUpdate_def hintUpdate_def hasSets_def)
  have ap: "applySets a f = f\<lparr>fHint := Some ''door''\<rparr>" for f
    by (simp add: applySets_def a(2) hintUpdate_def)
  have "\<exists>f a2. updateOnce (=) NoConflict 1 1 a (nestDemo oneAccount) = (Inr (f, hinted (nestDemo oneAccount)), a2)"
    by (simp add: updateOnce_def authorizeMutation_def checkPasswordChangeAuthorized_def a hintUpdate_def folderOf_def
        nestDemo_folders loadHintIfPasswordOnly_def rejectHintEqualsPassword_def checkHintNotPassword_def
        PasswordHashFor_def rejectParentCycle_def orElse_def execUpdate_def ap hinted_def)
  then obtain f where "updateLoop (=) maxSerializationRetries 1 1 a ([] @ [(nestDemo oneAccount, NoConflict)]) =
      Inr (f, hinted (nestDemo oneAccount))"
    by (auto simp: maxSerializationRetries_def eval_nat_numeral)
  then show ?thesis
    by (rule hint_never_password [OF nestDemo_reach _ a(1), rotated 2]) (simp_all add: hintOk_def nestDemo_folders)
qed

text \<open>
  The restriction is needed.  The folder's hint is ''first''; a password change to ''door'' passes its
  checks and fails to commit, because the owner has just set the hint to ''door''.  The repeated attempt
  still checks the password against the hint the first one read.
\<close>

definition racePassword :: folderUpdate where
  "racePassword = \<lparr>fuName = None, fuColor = None, fuParentSet = False, fuParent = None, fuPasswordSet = True,
     fuPassword = Some ''door'', fuCurrent = Some ''open'', fuHintSet = False, fuHint = None\<rparr>"

definition raceFolder :: "string \<Rightarrow> folder" where
  "raceFolder hint = \<lparr>fId = 1, fUser = 1, fName = ''a'', fColor = ''#6366F1'', fParent = None,
     fCreated = 5, fHash = Some ''open'', fHint = Some hint\<rparr>"

definition raceDb :: "string \<Rightarrow> content" where
  "raceDb hint = oneAccount\<lparr>folders := [raceFolder hint], folderSeq := 2\<rparr>"

text \<open>
  An update repeated after a conflict keeps the hint its lost attempt loaded: a password equal to the
  hint now stored is refused by a first attempt and stored by a second one.
\<close>

theorem retry_keeps_stale_hint:
  "UpdateFolder Some (=) 1 1 racePassword [(raceDb ''door'', NoConflict)] = Inl ErrHintMatchesPassword \<and>
   (\<exists>f db'. UpdateFolder Some (=) 1 1 racePassword [(raceDb ''first'', AtWrite), (raceDb ''door'', NoConflict)] = Inr (f, db') \<and>
     fHash f = Some ''door'' \<and> fHint f = Some ''door'')"
  by (simp add: UpdateFolder_def prepareFolderUpdate_def racePassword_def hasSets_def maxSerializationRetries_def
      eval_nat_numeral updateOnce_def authorizeMutation_def checkPasswordChangeAuthorized_def folderOf_def raceDb_def
      raceFolder_def loadHintIfPasswordOnly_def rejectHintEqualsPassword_def checkHintNotPassword_def orElse_def
      rejectParentCycle_def execUpdate_def applySets_def oneAccount_def emptyContent_def)

end
