(* ===== verification/TwoFactor.thy ===== *)
theory TwoFactor
  imports ApiTokens "HOL-Library.Product_Lexorder"
begin

text \<open>
  The second factor, \<open>backend/internal/auth/repository_2fa.go\<close> and \<open>repository_email_factor.go\<close>: pre-auth
  challenges with their budgets, TOTP and e-mail enrollment, recovery codes, step-up proofs, e-mail
  verification and password reset.  A method is one transaction: it returns its result with the new
  database, or an error with the database it was given.  Hashes and tokens are strings; \<open>verify\<close> and
  \<open>hashpw\<close> are bcrypt, \<open>mail\<close> the draft to queue (\<open>None\<close> for a zero \<open>MailDraft\<close>) and \<open>outboxOk\<close> whether the
  outbox accepts it.
\<close>

section \<open>Tables\<close>

record challenge =
  chId :: int
  chUser :: int
  chToken :: string
  chPurpose :: string
  chVersion :: "nat option"
  chAttempts :: nat
  chSends :: nat
  chCreated :: gotime
  chExpires :: gotime
  chConsumed :: "gotime option"
  chMailbox :: bool
  chOauth :: "providerIdentity option"

record totpRow =
  toUser :: int
  toCipher :: string
  toNonce :: string
  toParams :: "string \<times> int \<times> int"
  toConfirmed :: "gotime option"
  toVersion :: "nat option"
  toSession :: "int option"
  toLast :: "int option"

record emailFactor =
  efUser :: int
  efConfirmed :: "gotime option"
  efVersion :: "nat option"
  efSession :: "int option"

record emailOtp =
  eoUser :: int
  eoChallenge :: "int option"
  eoPurpose :: string
  eoHash :: string
  eoCreated :: gotime
  eoExpires :: gotime
  eoConsumed :: "gotime option"

record recoveryCode =
  rcUser :: int
  rcHash :: string
  rcUsed :: "gotime option"

record passwordReset =
  pwUser :: int
  pwToken :: string
  pwVersion :: "nat option"
  pwExpires :: gotime
  pwConsumed :: "gotime option"

text \<open>
  Redirect states of the Google sign-in, pending moves of an address and the bearer tokens; \<open>OAuth\<close> and
  \<open>EmailChange\<close> hold the operations of the first two, \<open>ApiTokens\<close> those of the third.
\<close>

record oauthState =
  osId :: int
  osHash :: string
  osVerifier :: string
  osProvider :: string
  osPurpose :: string
  osUser :: "int option"
  osInvite :: "int option"
  osSession :: "int option"
  osVersion :: "nat option"
  osProof :: "gotime option"
  osExpires :: gotime
  osConsumed :: "gotime option"

record emailMove =
  mvId :: int
  mvUser :: int
  mvEmail :: string
  mvNorm :: string
  mvToken :: string
  mvVersion :: nat
  mvSession :: "int option"
  mvExpires :: gotime
  mvConsumed :: "gotime option"

record sideDb =
  oauthStates :: "oauthState list"
  oauthSeq :: int
  emailMoves :: "emailMove list"
  emailMoveSeq :: int
  apiDb :: tokenDb

record authdb =
  idn :: identity
  challenges :: "challenge list"
  totpRows :: "totpRow list"
  emailFactors :: "emailFactor list"
  emailOtps :: "emailOtp list"
  recoveryCodes :: "recoveryCode list"
  resets :: "passwordReset list"
  mails :: "(string \<times> string) list"
  challengeSeq :: int
  side :: sideDb

text \<open>What goes with an account (\<open>ON DELETE CASCADE\<close>).\<close>

definition cascadeSide :: "int \<Rightarrow> sideDb \<Rightarrow> sideDb" where
  "cascadeSide uid sd =
     sd\<lparr>oauthStates := filter (\<lambda>o'. osUser o' \<noteq> Some uid) (oauthStates sd),
        emailMoves := filter (\<lambda>m. mvUser m \<noteq> uid) (emailMoves sd),
        apiDb := (apiDb sd)\<lparr>apiTokens := filter (\<lambda>t. atUser t \<noteq> uid) (apiTokens (apiDb sd))\<rparr>\<rparr>"

definition PurposeTOTP :: string where "PurposeTOTP = ''totp''"
definition PurposeEnroll2FA :: string where "PurposeEnroll2FA = ''enroll_2fa''"
definition PurposeConvertGoogle :: string where "PurposeConvertGoogle = ''convert_google''"

definition OTPPurposeLogin2FA :: string where "OTPPurposeLogin2FA = ''login_2fa''"
definition OTPPurposeVerifyEmail :: string where "OTPPurposeVerifyEmail = ''verify_email''"
definition OTPPurposeEnrollEmail2FA :: string where "OTPPurposeEnrollEmail2FA = ''enroll_email_2fa''"
definition OTPPurposeStepUp2FA :: string where "OTPPurposeStepUp2FA = ''step_up_2fa''"

definition maxChallengeAttempts :: nat where "maxChallengeAttempts = 5"
definition maxChallengeSends :: nat where "maxChallengeSends = 3"
definition otpResendInterval :: duration where "otpResendInterval = 60 * second"

definition MethodTOTP :: string where "MethodTOTP = ''totp''"
definition MethodRecovery :: string where "MethodRecovery = ''recovery_code''"
definition MethodEmailOTP :: string where "MethodEmailOTP = ''email_otp''"

lemmas purpose_names = PurposeTOTP_def PurposeEnroll2FA_def PurposeConvertGoogle_def OTPPurposeLogin2FA_def
  OTPPurposeVerifyEmail_def OTPPurposeEnrollEmail2FA_def OTPPurposeStepUp2FA_def MethodTOTP_def
  MethodRecovery_def MethodEmailOTP_def

section \<open>Transactions and shared reads\<close>

definition runTx :: "authdb \<Rightarrow> authErr + 'a \<times> authdb \<Rightarrow> (authErr + 'a) \<times> authdb" where
  "runTx db r = (case r of Inl e \<Rightarrow> (Inl e, db) | Inr (x, db') \<Rightarrow> (Inr x, db'))"

definition guardTx :: "authErr option \<Rightarrow> authErr + unit" where
  "guardTx e = (case e of None \<Rightarrow> Inr () | Some x \<Rightarrow> Inl x)"

text \<open>\<open>SELECT id FROM app_user WHERE id = uid AND status = 'active' AND token_version = v FOR NO KEY UPDATE\<close>.\<close>

definition activeAt :: "int \<Rightarrow> nat \<Rightarrow> authdb \<Rightarrow> bool" where
  "activeAt uid v db =
     list_ex (\<lambda>u. uId u = uid \<and> uStatus u = StatusActive \<and> uTokenVersion u = v) (users (idn db))"

definition enqueueDraft :: "bool \<Rightarrow> string option \<Rightarrow> string \<Rightarrow> authdb \<Rightarrow> authErr + authdb" where
  "enqueueDraft outboxOk mail raw db =
     (case mail of
        None \<Rightarrow> Inr db
      | Some d \<Rightarrow> if outboxOk then Inr (db\<lparr>mails := mails db @ [(d, raw)]\<rparr>) else Inl ErrMail)"

definition spendOtps :: "gotime \<Rightarrow> (emailOtp \<Rightarrow> bool) \<Rightarrow> authdb \<Rightarrow> authdb" where
  "spendOtps now P db = db\<lparr>emailOtps := map (\<lambda>o'. if P o' \<and> eoConsumed o' = None then o'\<lparr>eoConsumed := Some now\<rparr> else o')
     (emailOtps db)\<rparr>"

definition setIdn :: "identity \<Rightarrow> authdb \<Rightarrow> authdb" where
  "setIdn st db = db\<lparr>idn := st\<rparr>"

section \<open>Challenges\<close>

record newChallenge =
  ncUser :: int
  ncPurpose :: string
  ncVersion :: nat
  ncTTL :: duration
  ncMailbox :: bool
  ncOauth :: "providerIdentity option"

definition challengeLive :: "gotime \<Rightarrow> challenge \<Rightarrow> bool" where
  "challengeLive now c = (chConsumed c = None \<and> now < chExpires c)"

definition newest :: "challenge list \<Rightarrow> challenge option" where
  "newest cs = (case sort_key (\<lambda>c. (chCreated c, chId c)) cs of [] \<Rightarrow> None | x # xs \<Rightarrow> Some (last (x # xs)))"

definition loadPreviousChallengeTx :: "gotime \<Rightarrow> newChallenge \<Rightarrow> authdb \<Rightarrow> challenge option" where
  "loadPreviousChallengeTx now nc db =
     newest (filter (\<lambda>c. chUser c = ncUser nc \<and> chPurpose c = ncPurpose nc \<and> chVersion c = Some (ncVersion nc) \<and>
                         challengeLive now c) (challenges db))"

definition supersedeChallenges :: "gotime \<Rightarrow> int \<Rightarrow> string \<Rightarrow> challenge list \<Rightarrow> challenge list" where
  "supersedeChallenges now uid purpose cs =
     map (\<lambda>c. if chUser c = uid \<and> chPurpose c = purpose \<and> chVersion c \<noteq> None \<and> chConsumed c = None
              then c\<lparr>chConsumed := Some now\<rparr> else c) cs"

definition inheritChallengeCodesTx :: "gotime \<Rightarrow> int \<Rightarrow> int \<Rightarrow> emailOtp list \<Rightarrow> emailOtp list" where
  "inheritChallengeCodesTx now prevId i os =
     map (\<lambda>o'. if eoChallenge o' = Some prevId
               then o'\<lparr>eoChallenge := Some i,
                       eoConsumed := (case eoConsumed o' of None \<Rightarrow> Some now | Some t \<Rightarrow> Some t)\<rparr> else o') os"

definition CreateChallenge ::
  "gotime \<Rightarrow> string \<Rightarrow> newChallenge \<Rightarrow> authdb \<Rightarrow> (authErr + int) \<times> authdb" where
  "CreateChallenge now tok nc db =
     (if \<not> activeAt (ncUser nc) (ncVersion nc) db then (Inl ErrChallengeInvalid, db)
      else if ncPurpose nc \<notin> {PurposeTOTP, PurposeEnroll2FA, PurposeConvertGoogle} \<or>
              tok \<in> set (map chToken (challenges db)) then (Inl ErrSql, db)
      else let prev = loadPreviousChallengeTx now nc db;
               i = challengeSeq db;
               c = \<lparr>chId = i, chUser = ncUser nc, chToken = tok, chPurpose = ncPurpose nc,
                    chVersion = Some (ncVersion nc),
                    chAttempts = (case prev of None \<Rightarrow> 0 | Some p \<Rightarrow> chAttempts p),
                    chSends = (case prev of None \<Rightarrow> 0 | Some p \<Rightarrow> chSends p),
                    chCreated = now,
                    chExpires = (case prev of None \<Rightarrow> now + ncTTL nc | Some p \<Rightarrow> chExpires p),
                    chConsumed = None,
                    chMailbox = ((case prev of None \<Rightarrow> False | Some p \<Rightarrow> chMailbox p) \<or> ncMailbox nc),
                    chOauth = ncOauth nc\<rparr>
           in (Inr i, db\<lparr>challenges := supersedeChallenges now (ncUser nc) (ncPurpose nc) (challenges db) @ [c],
                         emailOtps := (case prev of None \<Rightarrow> emailOtps db
                                       | Some p \<Rightarrow> inheritChallengeCodesTx now (chId p) i (emailOtps db)),
                         challengeSeq := i + 1\<rparr>))"

definition challengeById :: "int \<Rightarrow> authdb \<Rightarrow> challenge option" where
  "challengeById i db = find (\<lambda>c. chId c = i) (challenges db)"

text \<open>The challenge is live and its account is active in the epoch it was made for.\<close>

definition challengeOk :: "gotime \<Rightarrow> authdb \<Rightarrow> challenge \<Rightarrow> bool" where
  "challengeOk now db c =
     (challengeLive now c \<and> (case chVersion c of None \<Rightarrow> False | Some v \<Rightarrow> activeAt (chUser c) v db))"

definition ResolveChallenge ::
  "gotime \<Rightarrow> string option \<Rightarrow> string list \<Rightarrow> authdb \<Rightarrow> authErr + challenge" where
  "ResolveChallenge now tok purposes db =
     (case find (\<lambda>c. tok = Some (chToken c) \<and> challengeOk now db c) (challenges db) of
        None \<Rightarrow> Inl ErrChallengeInvalid
      | Some c \<Rightarrow>
          if purposes \<noteq> [] \<and> chPurpose c \<notin> set purposes then Inl ErrChallengeWrongPurpose
          else if maxChallengeAttempts \<le> chAttempts c then Inl ErrChallengeExhausted
          else Inr c)"

record challengeRejection =
  rjFound :: bool
  rjConsumed :: bool
  rjExpired :: bool
  rjVersionSkewed :: bool
  rjUserInactive :: bool

text \<open>A row from before epochs has a \<open>NULL\<close> version, which does not scan into a Go \<open>bool\<close>.\<close>

definition DiagnoseChallenge :: "gotime \<Rightarrow> string option \<Rightarrow> authdb \<Rightarrow> authErr + challengeRejection" where
  "DiagnoseChallenge now tok db =
     (case find (\<lambda>c. tok = Some (chToken c) \<and> userById (chUser c) (idn db) \<noteq> None) (challenges db) of
        None \<Rightarrow> Inr \<lparr>rjFound = False, rjConsumed = False, rjExpired = False, rjVersionSkewed = False, rjUserInactive = False\<rparr>
      | Some c \<Rightarrow>
          let u = the (userById (chUser c) (idn db))
          in (case chVersion c of
                None \<Rightarrow> Inl ErrSql
              | Some v \<Rightarrow> Inr \<lparr>rjFound = True, rjConsumed = (chConsumed c \<noteq> None), rjExpired = (chExpires c \<le> now),
                    rjVersionSkewed = (v \<noteq> uTokenVersion u), rjUserInactive = (uStatus u \<noteq> StatusActive)\<rparr>))"

definition lockChallengeUser :: "int \<Rightarrow> authdb \<Rightarrow> authErr + challenge" where
  "lockChallengeUser i db =
     (case challengeById i db of
        None \<Rightarrow> Inl ErrChallengeInvalid
      | Some c \<Rightarrow> if userById (chUser c) (idn db) = None then Inl ErrChallengeInvalid else Inr c)"

definition updateChallenge :: "int \<Rightarrow> (challenge \<Rightarrow> challenge) \<Rightarrow> authdb \<Rightarrow> authdb" where
  "updateChallenge i f db = db\<lparr>challenges := map (\<lambda>c. if chId c = i then f c else c) (challenges db)\<rparr>"

definition BumpChallengeAttempt :: "gotime \<Rightarrow> int \<Rightarrow> authdb \<Rightarrow> (authErr + nat) \<times> authdb" where
  "BumpChallengeAttempt now i db =
     (case lockChallengeUser i db of
        Inl e \<Rightarrow> (Inl e, db)
      | Inr c \<Rightarrow>
          if challengeOk now db c \<and> chAttempts c < maxChallengeAttempts
          then (Inr (Suc (chAttempts c)), updateChallenge i (\<lambda>c. c\<lparr>chAttempts := Suc (chAttempts c)\<rparr>) db)
          else if challengeOk now db c \<and> maxChallengeAttempts \<le> chAttempts c then (Inl ErrChallengeExhausted, db)
          else (Inl ErrChallengeInvalid, db))"

definition ConsumeChallenge :: "gotime \<Rightarrow> int \<Rightarrow> authdb \<Rightarrow> (authErr + unit) \<times> authdb" where
  "ConsumeChallenge now i db =
     (case lockChallengeUser i db of
        Inl e \<Rightarrow> (Inl e, db)
      | Inr c \<Rightarrow>
          if challengeOk now db c then (Inr (), updateChallenge i (\<lambda>c. c\<lparr>chConsumed := Some now\<rparr>) db)
          else (Inl ErrChallengeInvalid, db))"

definition codesOf :: "int \<Rightarrow> authdb \<Rightarrow> emailOtp list" where
  "codesOf i db = filter (\<lambda>o'. eoChallenge o' = Some i) (emailOtps db)"

definition diagnoseChallengeSendTx :: "gotime \<Rightarrow> challenge \<Rightarrow> duration \<Rightarrow> authdb \<Rightarrow> authErr" where
  "diagnoseChallengeSendTx now c cooldown db =
     (if \<not> challengeOk now db c then ErrChallengeInvalid
      else if maxChallengeSends \<le> chSends c then ErrSendsExhausted
      else if list_ex (\<lambda>o'. now - cooldown \<le> eoCreated o') (codesOf (chId c) db) then ErrTooSoon
      else ErrChallengeInvalid)"

definition CreateChallengeEmailOTP ::
  "gotime \<Rightarrow> int \<Rightarrow> string \<Rightarrow> duration \<Rightarrow> duration \<Rightarrow> bool \<Rightarrow> string option \<Rightarrow> authdb \<Rightarrow> (authErr + nat) \<times> authdb" where
  "CreateChallengeEmailOTP now i codeHash ttl cooldown outboxOk mail db =
     (case lockChallengeUser i db of
        Inl e \<Rightarrow> (Inl e, db)
      | Inr c \<Rightarrow>
          if challengeOk now db c \<and> chSends c < maxChallengeSends \<and>
             list_all (\<lambda>o'. eoCreated o' < now - cooldown) (codesOf i db)
          then let db1 = updateChallenge i (\<lambda>c. c\<lparr>chSends := Suc (chSends c)\<rparr>) db;
                   db2 = spendOtps now (\<lambda>o'. eoUser o' = chUser c \<and> eoPurpose o' = OTPPurposeLogin2FA) db1;
                   db3 = db2\<lparr>emailOtps := emailOtps db2 @ [\<lparr>eoUser = chUser c, eoChallenge = Some i,
                           eoPurpose = OTPPurposeLogin2FA, eoHash = codeHash, eoCreated = now, eoExpires = now + ttl,
                           eoConsumed = None\<rparr>]\<rparr>
               in runTx db (rbind (enqueueDraft outboxOk mail [] db3) (\<lambda>db4. Inr (Suc (chSends c), db4)))
          else (Inl (diagnoseChallengeSendTx now c cooldown db), db))"

section \<open>Enrollment\<close>

record sessionProof =
  spUser :: int
  spSession :: int
  spVersion :: nat

record totpProof =
  tpCounter :: int
  tpCipher :: string
  tpNonce :: string

text \<open>The parameters \<open>twofa\<close> pins.\<close>

definition pinnedParams :: "string \<times> int \<times> int" where
  "pinnedParams = (''SHA1'', 6, 30)"

definition totpOf :: "int \<Rightarrow> authdb \<Rightarrow> totpRow option" where
  "totpOf uid db = find (\<lambda>r. toUser r = uid) (totpRows db)"

definition emailFactorOf :: "int \<Rightarrow> authdb \<Rightarrow> emailFactor option" where
  "emailFactorOf uid db = find (\<lambda>r. efUser r = uid) (emailFactors db)"

definition totpEnabled :: "int \<Rightarrow> authdb \<Rightarrow> bool" where
  "totpEnabled uid db = list_ex (\<lambda>r. toUser r = uid \<and> toConfirmed r \<noteq> None) (totpRows db)"

definition emailEnabled :: "int \<Rightarrow> authdb \<Rightarrow> bool" where
  "emailEnabled uid db = list_ex (\<lambda>r. efUser r = uid \<and> efConfirmed r \<noteq> None) (emailFactors db)"

definition HasConfirmedSecondFactor :: "int \<Rightarrow> bool \<Rightarrow> authdb \<Rightarrow> bool" where
  "HasConfirmedSecondFactor uid totpOnly db = (totpEnabled uid db \<or> (\<not> totpOnly \<and> emailEnabled uid db))"

definition nullZero :: "int \<Rightarrow> int option" where
  "nullZero i = (if i = 0 then None else Some i)"

definition requireSession :: "gotime \<Rightarrow> sessionProof \<Rightarrow> authdb \<Rightarrow> authErr + unit" where
  "requireSession now sp db = guardTx (requireLiveSessionTx now (spUser sp) (spSession sp) (idn db))"

definition StartTOTPEnrollment ::
  "gotime \<Rightarrow> sessionProof \<Rightarrow> string \<Rightarrow> string \<Rightarrow> authdb \<Rightarrow> (authErr + unit) \<times> authdb" where
  "StartTOTPEnrollment now sp cipher nonce db =
     runTx db
       (if \<not> activeAt (spUser sp) (spVersion sp) db then Inl ErrChallengeInvalid
        else rbind (if spSession sp \<noteq> 0 then requireSession now sp db else Inr ()) (\<lambda>_.
          let row = \<lparr>toUser = spUser sp, toCipher = cipher, toNonce = nonce, toParams = pinnedParams,
                     toConfirmed = None, toVersion = Some (spVersion sp), toSession = nullZero (spSession sp),
                     toLast = None\<rparr>
          in (case totpOf (spUser sp) db of
                None \<Rightarrow> Inr ((), db\<lparr>totpRows := totpRows db @ [row]\<rparr>)
              | Some r \<Rightarrow>
                  if toConfirmed r \<noteq> None then Inl ErrTOTPAlreadyConfirmed
                  else Inr ((), db\<lparr>totpRows := map (\<lambda>r. if toUser r = spUser sp then row else r) (totpRows db)\<rparr>))))"

definition LoadTOTPSecret :: "int \<Rightarrow> authdb \<Rightarrow> authErr + totpRow" where
  "LoadTOTPSecret uid db = (case totpOf uid db of None \<Rightarrow> Inl ErrNoTOTP | Some r \<Rightarrow> Inr r)"

datatype issueMode = LiveSession int | PreAuth challenge sessionTTL string string

record enrollmentComplete =
  ecUser :: int
  ecVersion :: nat
  ecHashes :: "string list"
  ecSession :: issueMode

definition liveSessionID :: "enrollmentComplete \<Rightarrow> int" where
  "liveSessionID e = (case ecSession e of LiveSession i \<Rightarrow> i | PreAuth _ _ _ _ \<Rightarrow> 0)"

definition lockEnrollmentUserTx :: "gotime \<Rightarrow> enrollmentComplete \<Rightarrow> authdb \<Rightarrow> authErr + unit" where
  "lockEnrollmentUserTx now e db =
     (if \<not> activeAt (ecUser e) (ecVersion e) db then Inl ErrChallengeInvalid
      else (case ecSession e of
              LiveSession i \<Rightarrow> requireSession now \<lparr>spUser = ecUser e, spSession = i, spVersion = ecVersion e\<rparr> db
            | PreAuth _ _ _ _ \<Rightarrow> Inr ()))"

definition confirmTOTPRowTx :: "gotime \<Rightarrow> sessionProof \<Rightarrow> totpProof \<Rightarrow> authdb \<Rightarrow> authErr + authdb" where
  "confirmTOTPRowTx now sp pr db =
     (let hit = (\<lambda>r. toUser r = spUser sp \<and> toConfirmed r = None \<and> toVersion r = Some (spVersion sp) \<and>
                     toCipher r = tpCipher pr \<and> toNonce r = tpNonce pr \<and> toSession r = nullZero (spSession sp))
      in if list_ex hit (totpRows db)
         then Inr (db\<lparr>totpRows := map (\<lambda>r. if hit r then r\<lparr>toConfirmed := Some now, toLast := Some (tpCounter pr),
                                                             toSession := None\<rparr> else r) (totpRows db)\<rparr>)
         else (case totpOf (spUser sp) db of
                 None \<Rightarrow> Inl ErrNoTOTP
               | Some r \<Rightarrow> if toVersion r = None then Inl ErrChallengeInvalid else Inl ErrTOTPEnrollmentChanged))"

text \<open>The unique index on \<open>code_hash\<close> spans all accounts.\<close>

definition replaceRecoveryCodesTx :: "int \<Rightarrow> string list \<Rightarrow> authdb \<Rightarrow> authErr + authdb" where
  "replaceRecoveryCodesTx uid hashes db =
     (let kept = filter (\<lambda>r. rcUser r \<noteq> uid) (recoveryCodes db)
      in if \<not> distinct hashes \<or> list_ex (\<lambda>r. rcHash r \<in> set hashes) kept then Inl ErrSql
         else Inr (db\<lparr>recoveryCodes := kept @ map (\<lambda>h. \<lparr>rcUser = uid, rcHash = h, rcUsed = None\<rparr>) hashes\<rparr>))"

definition touchLogin :: "gotime \<Rightarrow> int \<Rightarrow> identity \<Rightarrow> authErr + identity" where
  "touchLogin now uid st =
     (case writeUsers (\<lambda>u. uId u = uid) (\<lambda>u. u\<lparr>uLastLogin := Some now\<rparr>) st of
        Inl c \<Rightarrow> Inl ErrSql | Inr st' \<Rightarrow> Inr st')"

text \<open>Both completions end in a session: the insert and the login time.\<close>

definition openSession ::
  "gotime \<Rightarrow> string \<Rightarrow> string \<times> string \<times> string \<Rightarrow> int \<Rightarrow> sessionTTL \<Rightarrow> string \<Rightarrow> string \<Rightarrow> authdb \<Rightarrow>
   authErr + sessionIssue \<times> authdb" where
  "openSession now family minted uid ttl ip ua db =
     (let issue = newSessionIssue now ttl minted
      in rbind (issueSessionTx now family uid issue ip ua (idn db)) (\<lambda>(sid, st1).
         rbind (touchLogin now uid st1) (\<lambda>st2. Inr (issue, setIdn st2 db))))"

definition finishPreAuthEnrollmentTx ::
  "gotime \<Rightarrow> string \<Rightarrow> string \<times> string \<times> string \<Rightarrow> enrollmentComplete \<Rightarrow> authdb \<Rightarrow>
   authErr + sessionIssue option \<times> authdb" where
  "finishPreAuthEnrollmentTx now family minted e db =
     (case ecSession e of
        LiveSession _ \<Rightarrow> Inr (None, db)
      | PreAuth ch ttl ip ua \<Rightarrow>
          let hit = (\<lambda>c. chId c = chId ch \<and> chUser c = ecUser e \<and> chPurpose c = PurposeEnroll2FA \<and>
                         chVersion c = Some (ecVersion e) \<and> challengeLive now c)
          in if \<not> list_ex hit (challenges db) then Inl ErrChallengeInvalid
             else rbind (openSession now family minted (ecUser e) ttl ip ua
                    (db\<lparr>challenges := map (\<lambda>c. if hit c then c\<lparr>chConsumed := Some now\<rparr> else c) (challenges db)\<rparr>))
                    (\<lambda>(issue, db'). Inr (Some issue, db')))"

definition CompleteTOTPEnrollment ::
  "gotime \<Rightarrow> string \<Rightarrow> string \<times> string \<times> string \<Rightarrow> enrollmentComplete \<Rightarrow> totpProof \<Rightarrow> authdb \<Rightarrow>
   (authErr + user \<times> sessionIssue option) \<times> authdb" where
  "CompleteTOTPEnrollment now family minted e pr db =
     runTx db
       (rbind (lockEnrollmentUserTx now e db) (\<lambda>_.
        rbind (confirmTOTPRowTx now \<lparr>spUser = ecUser e, spSession = liveSessionID e, spVersion = ecVersion e\<rparr> pr db) (\<lambda>db1.
        rbind (replaceRecoveryCodesTx (ecUser e) (ecHashes e) db1) (\<lambda>db2.
        rbind (finishPreAuthEnrollmentTx now family minted e db2) (\<lambda>(issue, db3).
        (case userById (ecUser e) (idn db3) of
           None \<Rightarrow> Inl ErrSql
         | Some u \<Rightarrow> Inr ((u, issue), db3)))))))"

section \<open>The e-mail factor\<close>

record emailOTPMint =
  emDigest :: string
  emTTL :: duration
  emCooldown :: duration
  emDraft :: "string option"

definition recentOtp :: "gotime \<Rightarrow> int \<Rightarrow> string \<Rightarrow> duration \<Rightarrow> authdb \<Rightarrow> bool" where
  "recentOtp now uid purpose cooldown db =
     list_ex (\<lambda>o'. eoUser o' = uid \<and> eoPurpose o' = purpose \<and> now - cooldown \<le> eoCreated o') (emailOtps db)"

text \<open>Supersede, insert, queue: the tail the three senders without a challenge share.\<close>

definition mintOtp ::
  "gotime \<Rightarrow> int \<Rightarrow> string \<Rightarrow> emailOTPMint \<Rightarrow> bool \<Rightarrow> string \<Rightarrow> authdb \<Rightarrow> authErr + unit \<times> authdb" where
  "mintOtp now uid purpose m outboxOk raw db =
     (let db1 = spendOtps now (\<lambda>o'. eoUser o' = uid \<and> eoPurpose o' = purpose) db;
          db2 = db1\<lparr>emailOtps := emailOtps db1 @ [\<lparr>eoUser = uid, eoChallenge = None, eoPurpose = purpose,
                  eoHash = emDigest m, eoCreated = now, eoExpires = now + emTTL m, eoConsumed = None\<rparr>]\<rparr>
      in rbind (enqueueDraft outboxOk (emDraft m) raw db2) (\<lambda>db3. Inr ((), db3)))"

definition StartEmailFactorEnrollment ::
  "gotime \<Rightarrow> sessionProof \<Rightarrow> emailOTPMint \<Rightarrow> bool \<Rightarrow> authdb \<Rightarrow> (authErr + unit) \<times> authdb" where
  "StartEmailFactorEnrollment now sp m outboxOk db =
     runTx db
       (if \<not> activeAt (spUser sp) (spVersion sp) db then Inl ErrChallengeInvalid
        else rbind (if spSession sp \<noteq> 0 then requireSession now sp db else Inr ()) (\<lambda>_.
          if recentOtp now (spUser sp) OTPPurposeEnrollEmail2FA (emCooldown m) db then Inl ErrTooSoon
          else let row = \<lparr>efUser = spUser sp, efConfirmed = None, efVersion = Some (spVersion sp),
                          efSession = nullZero (spSession sp)\<rparr>
               in rbind (case emailFactorOf (spUser sp) db of
                           None \<Rightarrow> Inr (db\<lparr>emailFactors := emailFactors db @ [row]\<rparr>)
                         | Some r \<Rightarrow>
                             if efConfirmed r \<noteq> None then Inl ErrFactorAlreadyConfirmed
                             else Inr (db\<lparr>emailFactors := map (\<lambda>r. if efUser r = spUser sp then row else r)
                                                            (emailFactors db)\<rparr>))
                    (mintOtp now (spUser sp) OTPPurposeEnrollEmail2FA m outboxOk [])))"

definition otpHit :: "gotime \<Rightarrow> int \<Rightarrow> string \<Rightarrow> string \<Rightarrow> emailOtp \<Rightarrow> bool" where
  "otpHit now uid purpose h o' =
     (eoUser o' = uid \<and> eoPurpose o' = purpose \<and> eoHash o' = h \<and> eoConsumed o' = None \<and> now < eoExpires o')"

definition spendEmailFactorEnrollmentTx ::
  "gotime \<Rightarrow> enrollmentComplete \<Rightarrow> string \<Rightarrow> authdb \<Rightarrow> authErr + authdb" where
  "spendEmailFactorEnrollmentTx now e codeHash db =
     (let code = otpHit now (ecUser e) OTPPurposeEnrollEmail2FA codeHash;
          hit = (\<lambda>r. efUser r = ecUser e \<and> efConfirmed r = None \<and> efVersion r = Some (ecVersion e) \<and>
                     (liveSessionID e = 0 \<or> efSession r = Some (liveSessionID e)))
      in if \<not> list_ex code (emailOtps db) then Inl ErrBadCredentials
         else if \<not> list_ex hit (emailFactors db) then Inl ErrNoPendingFactor
         else replaceRecoveryCodesTx (ecUser e) (ecHashes e)
                ((spendOtps now code db)\<lparr>emailFactors := map (\<lambda>r. if hit r
                   then r\<lparr>efConfirmed := Some now, efVersion := None, efSession := None\<rparr> else r) (emailFactors db)\<rparr>))"

definition CompleteEmailFactorEnrollment ::
  "gotime \<Rightarrow> string \<Rightarrow> string \<times> string \<times> string \<Rightarrow> enrollmentComplete \<Rightarrow> string \<Rightarrow> authdb \<Rightarrow>
   (authErr + user \<times> sessionIssue option) \<times> authdb" where
  "CompleteEmailFactorEnrollment now family minted e codeHash db =
     runTx db
       (rbind (lockEnrollmentUserTx now e db) (\<lambda>_.
        rbind (spendEmailFactorEnrollmentTx now e codeHash db) (\<lambda>db1.
        rbind (finishPreAuthEnrollmentTx now family minted e db1) (\<lambda>(issue, db2).
        (case userById (ecUser e) (idn db2) of
           None \<Rightarrow> Inl ErrSql
         | Some u \<Rightarrow> Inr ((u, issue), db2))))))"

definition CreateStepUpEmailOTP ::
  "gotime \<Rightarrow> sessionProof \<Rightarrow> emailOTPMint \<Rightarrow> bool \<Rightarrow> authdb \<Rightarrow> (authErr + unit) \<times> authdb" where
  "CreateStepUpEmailOTP now sp m outboxOk db =
     runTx db
       (if \<not> activeAt (spUser sp) (spVersion sp) db then Inl ErrSessionInvalid
        else rbind (requireSession now sp db) (\<lambda>_.
          if \<not> emailEnabled (spUser sp) db then Inl ErrNoPendingFactor
          else if recentOtp now (spUser sp) OTPPurposeStepUp2FA (emCooldown m) db then Inl ErrTooSoon
          else mintOtp now (spUser sp) OTPPurposeStepUp2FA m outboxOk [] db))"

definition StepUpEmailOTPIsLive :: "gotime \<Rightarrow> int \<Rightarrow> string \<Rightarrow> authdb \<Rightarrow> bool" where
  "StepUpEmailOTPIsLive now uid h db = list_ex (otpHit now uid OTPPurposeStepUp2FA h) (emailOtps db)"

definition recoveryHit :: "int \<Rightarrow> string \<Rightarrow> recoveryCode \<Rightarrow> bool" where
  "recoveryHit uid h r = (rcUser r = uid \<and> rcHash r = h \<and> rcUsed r = None)"

definition RecoveryCodeIsLive :: "int \<Rightarrow> string \<Rightarrow> authdb \<Rightarrow> bool" where
  "RecoveryCodeIsLive uid h db = list_ex (recoveryHit uid h) (recoveryCodes db)"

section \<open>Completing a sign-in\<close>

record challengeProof =
  cpTotp :: "totpProof option"
  cpEmail :: string
  cpRecovery :: string

text \<open>\<open>UPDATE totp_secret SET last_used_counter\<close>: the proof is current, and newer than the last one spent.\<close>

definition totpHit :: "int \<Rightarrow> totpProof \<Rightarrow> totpRow \<Rightarrow> bool" where
  "totpHit uid pr r =
     (toUser r = uid \<and> toConfirmed r \<noteq> None \<and> toCipher r = tpCipher pr \<and> toNonce r = tpNonce pr \<and>
      (case toLast r of None \<Rightarrow> True | Some n \<Rightarrow> n < tpCounter pr))"

definition consumeTOTPProofIfCurrentTx :: "int \<Rightarrow> totpProof \<Rightarrow> authdb \<Rightarrow> authdb option" where
  "consumeTOTPProofIfCurrentTx uid pr db =
     (if list_ex (totpHit uid pr) (totpRows db)
      then Some (db\<lparr>totpRows := map (\<lambda>r. if totpHit uid pr r then r\<lparr>toLast := Some (tpCounter pr)\<rparr> else r) (totpRows db)\<rparr>)
      else None)"

definition spendRecovery :: "gotime \<Rightarrow> int \<Rightarrow> string \<Rightarrow> authdb \<Rightarrow> authdb option" where
  "spendRecovery now uid h db =
     (if RecoveryCodeIsLive uid h db
      then Some (db\<lparr>recoveryCodes := map (\<lambda>r. if recoveryHit uid h r then r\<lparr>rcUsed := Some now\<rparr> else r) (recoveryCodes db)\<rparr>)
      else None)"

definition loginOtpHit :: "gotime \<Rightarrow> challenge \<Rightarrow> string \<Rightarrow> emailOtp \<Rightarrow> bool" where
  "loginOtpHit now ch h o' = (eoChallenge o' = Some (chId ch) \<and> otpHit now (chUser ch) OTPPurposeLogin2FA h o')"

definition spendLoginOtp :: "gotime \<Rightarrow> challenge \<Rightarrow> string \<Rightarrow> authdb \<Rightarrow> authdb option" where
  "spendLoginOtp now ch h db =
     (if list_ex (loginOtpHit now ch h) (emailOtps db) then Some (spendOtps now (loginOtpHit now ch h) db) else None)"

definition consumeChallengeProofTx ::
  "gotime \<Rightarrow> challenge \<Rightarrow> challengeProof \<Rightarrow> authdb \<Rightarrow> authErr + string \<times> authdb" where
  "consumeChallengeProofTx now ch pr db =
     (case (case cpTotp pr of None \<Rightarrow> None | Some p \<Rightarrow> consumeTOTPProofIfCurrentTx (chUser ch) p db) of
        Some db' \<Rightarrow> Inr (MethodTOTP, db')
      | None \<Rightarrow>
          (case (if cpEmail pr \<noteq> [] then spendLoginOtp now ch (cpEmail pr) db else None) of
             Some db' \<Rightarrow> Inr (MethodEmailOTP, db')
           | None \<Rightarrow>
               (case (if cpRecovery pr \<noteq> [] then spendRecovery now (chUser ch) (cpRecovery pr) db else None) of
                  Some db' \<Rightarrow> Inr (MethodRecovery, db')
                | None \<Rightarrow> Inl ErrBadCredentials)))"

definition Complete2FA ::
  "gotime \<Rightarrow> string \<Rightarrow> string \<times> string \<times> string \<Rightarrow> challenge \<Rightarrow> challengeProof \<Rightarrow> sessionTTL \<Rightarrow> string \<Rightarrow> string \<Rightarrow>
   authdb \<Rightarrow> (authErr + sessionIssue \<times> string) \<times> authdb" where
  "Complete2FA now family minted ch pr ttl ip ua db =
     runTx db
       (case chVersion ch of
          None \<Rightarrow> Inl ErrChallengeInvalid
        | Some v \<Rightarrow>
            if \<not> activeAt (chUser ch) v db then Inl ErrChallengeInvalid
            else if \<not> list_ex (\<lambda>c. chId c = chId ch \<and> chUser c = chUser ch \<and> chPurpose c = PurposeTOTP \<and>
                       chVersion c = Some v \<and> challengeLive now c \<and> chAttempts c \<le> maxChallengeAttempts) (challenges db)
            then Inl ErrChallengeInvalid
            else rbind (consumeChallengeProofTx now ch pr db) (\<lambda>(m, db1).
                 rbind (openSession now family minted (chUser ch) ttl ip ua
                          (updateChallenge (chId ch) (\<lambda>c. c\<lparr>chConsumed := Some now\<rparr>) db1)) (\<lambda>(issue, db2).
                 Inr ((issue, m), db2))))"

section \<open>Step-up\<close>

record secondFactorProof =
  sfMethod :: string
  sfTotp :: "totpProof option"
  sfDigest :: string

definition consumeTOTPProofTx :: "int \<Rightarrow> totpProof \<Rightarrow> authdb \<Rightarrow> authErr + authdb" where
  "consumeTOTPProofTx uid pr db =
     (case consumeTOTPProofIfCurrentTx uid pr db of None \<Rightarrow> Inl ErrReplay | Some db' \<Rightarrow> Inr db')"

definition consumeSecondFactorTx :: "gotime \<Rightarrow> int \<Rightarrow> secondFactorProof \<Rightarrow> authdb \<Rightarrow> authErr + authdb" where
  "consumeSecondFactorTx now uid p db =
     (if sfMethod p = MethodTOTP
      then (case sfTotp p of None \<Rightarrow> Inl ErrBadCredentials | Some pr \<Rightarrow> consumeTOTPProofTx uid pr db)
      else if sfMethod p = MethodRecovery
      then (case spendRecovery now uid (sfDigest p) db of None \<Rightarrow> Inl ErrBadCredentials | Some db' \<Rightarrow> Inr db')
      else if sfMethod p = MethodEmailOTP
      then (if StepUpEmailOTPIsLive now uid (sfDigest p) db
            then Inr (spendOtps now (otpHit now uid OTPPurposeStepUp2FA (sfDigest p)) db) else Inl ErrBadCredentials)
      else Inl ErrBadCredentials)"

definition ConsumeSecondFactor :: "gotime \<Rightarrow> int \<Rightarrow> secondFactorProof \<Rightarrow> authdb \<Rightarrow> (authErr + unit) \<times> authdb" where
  "ConsumeSecondFactor now uid p db =
     runTx db (rbind (consumeSecondFactorTx now uid p db) (\<lambda>db'. Inr ((), db')))"

definition lockUserWithPasswordAndProof ::
  "(string \<Rightarrow> string \<Rightarrow> bool) \<Rightarrow> gotime \<Rightarrow> sessionProof \<Rightarrow> string \<Rightarrow> secondFactorProof \<Rightarrow> authdb \<Rightarrow> authErr + authdb" where
  "lockUserWithPasswordAndProof verify now sp password p db =
     (case userById (spUser sp) (idn db) of
        None \<Rightarrow> Inl ErrSql
      | Some u \<Rightarrow>
          if uStatus u \<noteq> StatusActive \<or> uTokenVersion u \<noteq> spVersion sp then Inl ErrSessionInvalid
          else (case uPwHash u of
                  None \<Rightarrow> Inl ErrPasswordMissing
                | Some h \<Rightarrow>
                    if \<not> verify h password then Inl ErrBadCredentials
                    else rbind (requireSession now sp db) (\<lambda>_. consumeSecondFactorTx now (spUser sp) p db)))"

datatype factorKind = FactorTOTP | FactorEmail

definition dropFactor :: "factorKind \<Rightarrow> int \<Rightarrow> authdb \<Rightarrow> authdb" where
  "dropFactor k uid db =
     (case k of
        FactorTOTP \<Rightarrow> db\<lparr>totpRows := filter (\<lambda>r. toUser r \<noteq> uid) (totpRows db)\<rparr>
      | FactorEmail \<Rightarrow> db\<lparr>emailFactors := filter (\<lambda>r. efUser r \<noteq> uid) (emailFactors db),
                          emailOtps := filter (\<lambda>o'. \<not> (eoUser o' = uid \<and>
                             eoPurpose o' \<in> {OTPPurposeEnrollEmail2FA, OTPPurposeStepUp2FA})) (emailOtps db)\<rparr>)"

definition siblingLeft :: "factorKind \<Rightarrow> int \<Rightarrow> authdb \<Rightarrow> bool" where
  "siblingLeft k uid db = (case k of FactorTOTP \<Rightarrow> emailEnabled uid db | FactorEmail \<Rightarrow> totpEnabled uid db)"

definition factorRow :: "factorKind \<Rightarrow> int \<Rightarrow> authdb \<Rightarrow> bool" where
  "factorRow k uid db = (case k of FactorTOTP \<Rightarrow> totpOf uid db \<noteq> None | FactorEmail \<Rightarrow> emailFactorOf uid db \<noteq> None)"

definition bumpEpoch :: "int \<Rightarrow> nat \<Rightarrow> identity \<Rightarrow> authErr + identity" where
  "bumpEpoch uid v st =
     (case writeUsers (\<lambda>u. uId u = uid \<and> uTokenVersion u = v) (\<lambda>u. u\<lparr>uTokenVersion := uTokenVersion u + 1\<rparr>) st of
        Inl c \<Rightarrow> Inl ErrSql | Inr st' \<Rightarrow> Inr st')"

definition disableFactorTx :: "gotime \<Rightarrow> sessionProof \<Rightarrow> factorKind \<Rightarrow> authdb \<Rightarrow> authErr + authdb" where
  "disableFactorTx now sp k db =
     (if \<not> factorRow k (spUser sp) db then Inl ErrNoPendingFactor
      else let db1 = dropFactor k (spUser sp) db;
               db2 = (if siblingLeft k (spUser sp) db1 then db1
                      else db1\<lparr>recoveryCodes := filter (\<lambda>r. rcUser r \<noteq> spUser sp) (recoveryCodes db1)\<rparr>)
           in rbind (bumpEpoch (spUser sp) (spVersion sp) (idn db2)) (\<lambda>st.
              Inr (setIdn (revokeWhere (\<lambda>s. sUser s = spUser sp \<and> sId s \<noteq> spSession sp) ReasonPasswordChanged now st) db2)))"

definition DisableTOTP ::
  "(string \<Rightarrow> string \<Rightarrow> bool) \<Rightarrow> gotime \<Rightarrow> sessionProof \<Rightarrow> string \<Rightarrow> secondFactorProof \<Rightarrow> authdb \<Rightarrow>
   (authErr + unit) \<times> authdb" where
  "DisableTOTP verify now sp password p db =
     runTx db (rbind (lockUserWithPasswordAndProof verify now sp password p db) (\<lambda>db1.
               rbind (disableFactorTx now sp FactorTOTP db1) (\<lambda>db2. Inr ((), db2))))"

definition DisableEmailFactor ::
  "gotime \<Rightarrow> sessionProof \<Rightarrow> secondFactorProof \<Rightarrow> authdb \<Rightarrow> (authErr + unit) \<times> authdb" where
  "DisableEmailFactor now sp p db =
     runTx db
       (if \<not> activeAt (spUser sp) (spVersion sp) db then Inl ErrSessionInvalid
        else rbind (requireSession now sp db) (\<lambda>_.
             rbind (consumeSecondFactorTx now (spUser sp) p db) (\<lambda>db1.
             rbind (disableFactorTx now sp FactorEmail db1) (\<lambda>db2. Inr ((), db2)))))"

definition RegenerateRecoveryCodes ::
  "(string \<Rightarrow> string \<Rightarrow> bool) \<Rightarrow> gotime \<Rightarrow> sessionProof \<Rightarrow> string \<Rightarrow> secondFactorProof \<Rightarrow> string list \<Rightarrow> authdb \<Rightarrow>
   (authErr + unit) \<times> authdb" where
  "RegenerateRecoveryCodes verify now sp password p hashes db =
     runTx db (rbind (lockUserWithPasswordAndProof verify now sp password p db) (\<lambda>db1.
               rbind (replaceRecoveryCodesTx (spUser sp) hashes db1) (\<lambda>db2. Inr ((), db2))))"

definition CountRecoveryCodes :: "int \<Rightarrow> authdb \<Rightarrow> nat" where
  "CountRecoveryCodes uid db = length (filter (\<lambda>r. rcUser r = uid \<and> rcUsed r = None) (recoveryCodes db))"

section \<open>E-mail verification and password reset\<close>

definition CreateEmailVerification ::
  "gotime \<Rightarrow> string \<Rightarrow> int \<Rightarrow> emailOTPMint \<Rightarrow> bool \<Rightarrow> authdb \<Rightarrow> (authErr + unit) \<times> authdb" where
  "CreateEmailVerification now raw uid m outboxOk db =
     runTx db
       (case userById uid (idn db) of
          None \<Rightarrow> Inl ErrNoUser
        | Some u \<Rightarrow>
            if uVerifiedAt u \<noteq> None then Inl ErrEmailAlreadyVerified
            else if recentOtp now uid OTPPurposeVerifyEmail (emCooldown m) db then Inl ErrTooSoon
            else mintOtp now uid OTPPurposeVerifyEmail m outboxOk raw db)"

definition UserForPasswordReset :: "string \<Rightarrow> identity \<Rightarrow> user option" where
  "UserForPasswordReset email st =
     (case find (\<lambda>u. uEmailNorm u = NormalizeEmail email) (users st) of
        None \<Rightarrow> None
      | Some u \<Rightarrow> if uStatus u \<noteq> StatusActive \<or> uPwHash u = None then None else Some u)"

definition supersedeResets :: "gotime \<Rightarrow> int \<Rightarrow> passwordReset list \<Rightarrow> passwordReset list" where
  "supersedeResets now uid rs =
     map (\<lambda>r. if pwUser r = uid \<and> pwVersion r \<noteq> None \<and> pwConsumed r = None then r\<lparr>pwConsumed := Some now\<rparr> else r) rs"

definition mintReset ::
  "gotime \<Rightarrow> string \<Rightarrow> string \<Rightarrow> user \<Rightarrow> duration \<Rightarrow> bool \<Rightarrow> string option \<Rightarrow> authdb \<Rightarrow> authErr + unit \<times> authdb" where
  "mintReset now raw tok u ttl outboxOk draft db =
     (if tok \<in> set (map pwToken (resets db)) then Inl ErrSql
      else rbind (enqueueDraft outboxOk draft raw (db\<lparr>resets := supersedeResets now (uId u) (resets db) @
             [\<lparr>pwUser = uId u, pwToken = tok, pwVersion = Some (uTokenVersion u), pwExpires = now + ttl, pwConsumed = None\<rparr>]\<rparr>))
             (\<lambda>db'. Inr ((), db')))"

definition CreatePasswordReset ::
  "gotime \<Rightarrow> string \<Rightarrow> string \<Rightarrow> int \<Rightarrow> duration \<Rightarrow> bool \<Rightarrow> string option \<Rightarrow> authdb \<Rightarrow> (authErr + unit) \<times> authdb" where
  "CreatePasswordReset now raw tok uid ttl outboxOk draft db =
     runTx db
       (case userById uid (idn db) of
          None \<Rightarrow> Inl ErrSql
        | Some u \<Rightarrow> if uStatus u \<noteq> StatusActive \<or> uPwHash u = None then Inl ErrResetInvalid
                    else mintReset now raw tok u ttl outboxOk draft db)"

definition CreateAdminPasswordRecovery ::
  "gotime \<Rightarrow> string \<Rightarrow> string \<Rightarrow> int \<Rightarrow> duration \<Rightarrow> bool \<Rightarrow> (string \<Rightarrow> string \<Rightarrow> string option) \<Rightarrow> authdb \<Rightarrow>
   (authErr + unit) \<times> authdb" where
  "CreateAdminPasswordRecovery now raw tok uid ttl outboxOk draftFor db =
     runTx db
       (case userById uid (idn db) of
          None \<Rightarrow> Inl ErrNoUser
        | Some u \<Rightarrow>
            if uStatus u \<noteq> StatusActive \<or> uVerifiedAt u = None then Inl ErrRecoveryUnavailable
            else mintReset now raw tok u ttl outboxOk
                   (draftFor (uEmail u) (case uLocale u of None \<Rightarrow> [] | Some l \<Rightarrow> l)) db)"

definition resetLive :: "gotime \<Rightarrow> passwordReset \<Rightarrow> bool" where
  "resetLive now r = (pwVersion r \<noteq> None \<and> pwConsumed r = None \<and> now < pwExpires r)"

definition ConsumePasswordReset ::
  "(string \<Rightarrow> string option) \<Rightarrow> gotime \<Rightarrow> string option \<Rightarrow> string \<Rightarrow> authdb \<Rightarrow> (authErr + user) \<times> authdb" where
  "ConsumePasswordReset hashpw now tok newPassword db =
     runTx db
       (case tok of
          None \<Rightarrow> Inl ErrResetInvalid
        | Some t \<Rightarrow>
            (case hashpw newPassword of
               None \<Rightarrow> Inl ErrPwHash
             | Some h \<Rightarrow>
                 (case find (\<lambda>r. pwToken r = t \<and> resetLive now r) (resets db) of
                    None \<Rightarrow> Inl ErrResetInvalid
                  | Some r \<Rightarrow>
                      (case userById (pwUser r) (idn db) of
                         None \<Rightarrow> Inl ErrSql
                       | Some u \<Rightarrow>
                           if uStatus u \<noteq> StatusActive \<or> pwVersion r \<noteq> Some (uTokenVersion u) then Inl ErrResetInvalid
                           else let f = (\<lambda>u. u\<lparr>uPwHash := Some h, uTokenVersion := uTokenVersion u + 1,
                                           uVerifiedAt := (case uVerifiedAt u of None \<Rightarrow> Some now | Some x \<Rightarrow> Some x)\<rparr>)
                                in (case writeUsers (\<lambda>v. uId v = pwUser r \<and> uStatus v = StatusActive \<and>
                                                         uTokenVersion v = uTokenVersion u) f (idn db) of
                                      Inl c \<Rightarrow> Inl ErrSql
                                    | Inr st1 \<Rightarrow>
                                        Inr (f u, (setIdn (revokeWhere (\<lambda>s. sUser s = pwUser r) ReasonPasswordChanged now st1) db)
                                          \<lparr>resets := map (\<lambda>q. if pwToken q = t \<and> pwUser q = pwUser r \<and>
                                               pwVersion q = Some (uTokenVersion u) \<and> resetLive now q
                                               then q\<lparr>pwConsumed := Some now\<rparr> else q) (resets db)\<rparr>))))))"

definition ConsumeEmailVerification :: "gotime \<Rightarrow> string \<Rightarrow> authdb \<Rightarrow> (authErr + int) \<times> authdb" where
  "ConsumeEmailVerification now tok db =
     (let hit = (\<lambda>o'. eoHash o' = tok \<and> eoPurpose o' = OTPPurposeVerifyEmail \<and> eoConsumed o' = None \<and> now < eoExpires o')
      in case find hit (emailOtps db) of
           None \<Rightarrow> (Inl ErrBadCredentials, db)
         | Some o' \<Rightarrow>
             runTx db (case writeUsers (\<lambda>u. uId u \<in> eoUser ` set (filter hit (emailOtps db)))
                              (\<lambda>u. u\<lparr>uVerifiedAt := (case uVerifiedAt u of None \<Rightarrow> Some now | Some x \<Rightarrow> Some x)\<rparr>) (idn db) of
                         Inl c \<Rightarrow> Inl ErrSql
                       | Inr st \<Rightarrow> Inr (eoUser o', spendOtps now hit (setIdn st db))))"

definition SweepTwoFactor :: "gotime \<Rightarrow> duration \<Rightarrow> authdb \<Rightarrow> nat \<times> authdb" where
  "SweepTwoFactor now retain db =
     (let dead = filter (\<lambda>c. chExpires c < now - retain) (challenges db);
          gone = (\<lambda>o'. eoChallenge o' \<in> (Some \<circ> chId) ` set dead);
          otps = filter (\<lambda>o'. \<not> gone o') (emailOtps db)
      in (length dead + length (filter (\<lambda>o'. eoExpires o' < now - retain) otps) +
            length (filter (\<lambda>r. pwExpires r < now - retain) (resets db)),
          db\<lparr>challenges := filter (\<lambda>c. \<not> chExpires c < now - retain) (challenges db),
             emailOtps := filter (\<lambda>o'. \<not> eoExpires o' < now - retain) otps,
             resets := filter (\<lambda>r. \<not> pwExpires r < now - retain) (resets db)\<rparr>))"

end
