(* ===== verification/TwoFactorFlow.thy ===== *)
theory TwoFactorFlow
  imports TwoFactor
begin

text \<open>
  The second factor over time: the steps its transactions take, the invariant of its tables, and what it
  promises about budgets, single use, and the codes that guard a factor.
\<close>

section \<open>What a challenge may offer\<close>

text \<open>\<open>emailFactorAvailable\<close> of \<open>twofa_handler.go\<close>; \<open>smtp\<close> is \<open>mailer.Driver() == "smtp"\<close>.\<close>

definition emailFactorAvailable :: "bool \<Rightarrow> string \<Rightarrow> bool \<Rightarrow> bool \<Rightarrow> bool" where
  "emailFactorAvailable smtp purpose mailboxProven enabled =
     (purpose = PurposeTOTP \<and> \<not> mailboxProven \<and> smtp \<and> enabled)"

section \<open>Steps\<close>

text \<open>
  A label names what a successful transaction did.  \<open>Guess\<close> and \<open>Done\<close> name the account, purpose and epoch
  of the challenge, \<open>Sent\<close> the digest of the mailed code; \<open>Seeded\<close> the authenticator seed, \<open>Coded\<close> and
  \<open>Done\<close> the recovery digests that were installed.
\<close>

datatype tfLabel =
    Opened gotime
  | Guess gotime int string "nat option"
  | Done gotime int string "nat option" "string list"
  | Sent gotime int string
  | Seeded gotime int string string
  | Coded gotime int "string list"
  | Other gotime

definition labelTime :: "tfLabel \<Rightarrow> gotime" where
  "labelTime l = (case l of Opened t \<Rightarrow> t | Guess t _ _ _ \<Rightarrow> t | Done t _ _ _ _ \<Rightarrow> t | Sent t _ _ \<Rightarrow> t
     | Seeded t _ _ _ \<Rightarrow> t | Coded t _ _ \<Rightarrow> t | Other t \<Rightarrow> t)"

text \<open>
  Between two states of the accounts no epoch moves back: an account of the later state is an earlier one
  whose epoch did not fall, or a new one with an id from the sequence.
\<close>

definition accountIds :: "identity \<Rightarrow> bool" where
  "accountIds st = (distinct (map uId (users st)) \<and> list_all (\<lambda>u. uId u < userSeq st) (users st))"

definition epochGrows :: "identity \<Rightarrow> identity \<Rightarrow> bool" where
  "epochGrows st st' =
     (accountIds st' \<and> userSeq st \<le> userSeq st' \<and>
      list_all (\<lambda>u'. userSeq st \<le> uId u' \<or>
        list_ex (\<lambda>u. uId u = uId u' \<and> uTokenVersion u \<le> uTokenVersion u') (users st)) (users st'))"

text \<open>
  A step is a committed transaction of the second factor, or a change by somebody else.  The changes by others are
  as wide as the tables of the second factor allow: \<open>elsewhere\<close> replaces the accounts and sessions by any others in
  which no epoch falls, and \<open>queued\<close> the mails and the side tables.  That makes a theorem over all runs stronger,
  and it makes the mere existence of a run say nothing about accounts, sessions or mails: what a handler does to
  those is stated on the handler itself (SignIn, SessionGrants, CredentialMoves).
\<close>

inductive tfStep :: "bool \<Rightarrow> (string \<Rightarrow> string \<Rightarrow> bool) \<Rightarrow> (string \<Rightarrow> string option) \<Rightarrow> tfLabel \<Rightarrow> authdb \<Rightarrow> authdb \<Rightarrow> bool"
  for smtp verify hashpw where
  create: "CreateChallenge now tok nc db = (Inr i, db') \<Longrightarrow> tfStep smtp verify hashpw (Opened now) db db'"
| bump: "BumpChallengeAttempt now i db = (Inr n, db') \<Longrightarrow> challengeById i db = Some c \<Longrightarrow>
    tfStep smtp verify hashpw (Guess now (chUser c) (chPurpose c) (chVersion c)) db db'"
| consume: "ConsumeChallenge now i db = (Inr (), db') \<Longrightarrow> challengeById i db = Some c \<Longrightarrow>
    tfStep smtp verify hashpw (Done now (chUser c) (chPurpose c) (chVersion c) []) db db'"
| send: "challengeById i db = Some c \<Longrightarrow>
    emailFactorAvailable smtp (chPurpose c) (chMailbox c) (emailEnabled (chUser c) db0) \<Longrightarrow>
    CreateChallengeEmailOTP now i h ttl cooldown ok mail db = (Inr k, db') \<Longrightarrow>
    tfStep smtp verify hashpw (Sent now (chUser c) h) db db'"
| startTotp: "StartTOTPEnrollment now sp cipher nonce db = (Inr (), db') \<Longrightarrow>
    tfStep smtp verify hashpw (Seeded now (spUser sp) cipher nonce) db db'"
| liveTotp: "CompleteTOTPEnrollment now family minted e pr db = (Inr r, db') \<Longrightarrow> ecSession e = LiveSession sid \<Longrightarrow>
    tfStep smtp verify hashpw (Coded now (ecUser e) (ecHashes e)) db db'"
| preTotp: "CompleteTOTPEnrollment now family minted e pr db = (Inr r, db') \<Longrightarrow> ecSession e = PreAuth ch ttl ip ua \<Longrightarrow>
    tfStep smtp verify hashpw (Done now (ecUser e) PurposeEnroll2FA (Some (ecVersion e)) (ecHashes e)) db db'"
| startEmail: "StartEmailFactorEnrollment now sp m ok db = (Inr (), db') \<Longrightarrow>
    tfStep smtp verify hashpw (Other now) db db'"
| liveEmail: "CompleteEmailFactorEnrollment now family minted e h db = (Inr r, db') \<Longrightarrow> ecSession e = LiveSession sid \<Longrightarrow>
    tfStep smtp verify hashpw (Coded now (ecUser e) (ecHashes e)) db db'"
| preEmail: "CompleteEmailFactorEnrollment now family minted e h db = (Inr r, db') \<Longrightarrow> ecSession e = PreAuth ch ttl ip ua \<Longrightarrow>
    tfStep smtp verify hashpw (Done now (ecUser e) PurposeEnroll2FA (Some (ecVersion e)) (ecHashes e)) db db'"
| complete: "Complete2FA now family minted ch pr ttl ip ua db = (Inr r, db') \<Longrightarrow>
    tfStep smtp verify hashpw (Done now (chUser ch) PurposeTOTP (chVersion ch) []) db db'"
| stepUpCode: "CreateStepUpEmailOTP now sp m ok db = (Inr (), db') \<Longrightarrow> tfStep smtp verify hashpw (Other now) db db'"
| spend: "ConsumeSecondFactor now uid p db = (Inr (), db') \<Longrightarrow> tfStep smtp verify hashpw (Other now) db db'"
| disableTotp: "DisableTOTP verify now sp pw p db = (Inr (), db') \<Longrightarrow> tfStep smtp verify hashpw (Other now) db db'"
| disableEmail: "DisableEmailFactor now sp p db = (Inr (), db') \<Longrightarrow> tfStep smtp verify hashpw (Other now) db db'"
| regenerate: "RegenerateRecoveryCodes verify now sp pw p hs db = (Inr (), db') \<Longrightarrow>
    tfStep smtp verify hashpw (Coded now (spUser sp) hs) db db'"
| verification: "CreateEmailVerification now raw uid m ok db = (Inr (), db') \<Longrightarrow> tfStep smtp verify hashpw (Other now) db db'"
| verified: "ConsumeEmailVerification now tok db = (Inr uid, db') \<Longrightarrow> tfStep smtp verify hashpw (Other now) db db'"
| resetLink: "CreatePasswordReset now raw tok uid ttl ok draft db = (Inr (), db') \<Longrightarrow> tfStep smtp verify hashpw (Other now) db db'"
| adminReset: "CreateAdminPasswordRecovery now raw tok uid ttl ok draftFor db = (Inr (), db') \<Longrightarrow>
    tfStep smtp verify hashpw (Other now) db db'"
| reset: "ConsumePasswordReset hashpw now tk pw db = (Inr u, db') \<Longrightarrow> tfStep smtp verify hashpw (Other now) db db'"
| sweep: "0 \<le> retain \<Longrightarrow> SweepTwoFactor now retain db = (n, db') \<Longrightarrow> tfStep smtp verify hashpw (Other now) db db'"
| elsewhere: "epochGrows (idn db) st \<Longrightarrow> tfStep smtp verify hashpw (Other now) db (setIdn st db)"
| queued: "tfStep smtp verify hashpw (Other now) db (db\<lparr>mails := ms, side := sd\<rparr>)"
| sessionGone: "tfStep smtp verify hashpw (Other now) db (db\<lparr>totpRows := filter (\<lambda>r. toSession r \<noteq> Some sid) (totpRows db),
     emailFactors := filter (\<lambda>r. efSession r \<noteq> Some sid) (emailFactors db)\<rparr>)"
| accountGone: "tfStep smtp verify hashpw (Other now) db (db\<lparr>idn := cascadeUser uid (idn db),
     challenges := filter (\<lambda>c. chUser c \<noteq> uid) (challenges db), totpRows := filter (\<lambda>r. toUser r \<noteq> uid) (totpRows db),
     emailFactors := filter (\<lambda>r. efUser r \<noteq> uid) (emailFactors db), emailOtps := filter (\<lambda>o'. eoUser o' \<noteq> uid) (emailOtps db),
     recoveryCodes := filter (\<lambda>r. rcUser r \<noteq> uid) (recoveryCodes db), resets := filter (\<lambda>r. pwUser r \<noteq> uid) (resets db),
     side := cascadeSide uid (side db)\<rparr>)"

inductive tfRun :: "bool \<Rightarrow> (string \<Rightarrow> string \<Rightarrow> bool) \<Rightarrow> (string \<Rightarrow> string option) \<Rightarrow> tfLabel list \<Rightarrow> authdb \<Rightarrow> authdb \<Rightarrow> bool"
  for smtp verify hashpw where
  stop: "tfRun smtp verify hashpw [] db db"
| more: "tfStep smtp verify hashpw l db db' \<Longrightarrow> tfRun smtp verify hashpw ls db' db'' \<Longrightarrow>
    tfRun smtp verify hashpw (l # ls) db db''"

definition emptyAuth :: "authdb \<Rightarrow> bool" where
  "emptyAuth db = (challenges db = [] \<and> totpRows db = [] \<and> emailFactors db = [] \<and> emailOtps db = [] \<and>
     recoveryCodes db = [] \<and> resets db = [])"

section \<open>Frames\<close>

lemma runTx_Inr: "runTx db r = (Inr x, db') \<longleftrightarrow> r = Inr (x, db')"
  by (auto simp: runTx_def split: sum.splits)

lemma setIdn_frames [simp]:
  "idn (setIdn st db) = st" "challenges (setIdn st db) = challenges db" "totpRows (setIdn st db) = totpRows db"
  "emailFactors (setIdn st db) = emailFactors db" "emailOtps (setIdn st db) = emailOtps db"
  "recoveryCodes (setIdn st db) = recoveryCodes db" "resets (setIdn st db) = resets db"
  "challengeSeq (setIdn st db) = challengeSeq db"
  by (simp_all add: setIdn_def)

lemma spendOtps_frames [simp]:
  "idn (spendOtps now P db) = idn db" "challenges (spendOtps now P db) = challenges db"
  "totpRows (spendOtps now P db) = totpRows db" "emailFactors (spendOtps now P db) = emailFactors db"
  "recoveryCodes (spendOtps now P db) = recoveryCodes db" "resets (spendOtps now P db) = resets db"
  "challengeSeq (spendOtps now P db) = challengeSeq db"
  by (simp_all add: spendOtps_def)

lemma enqueue_frames:
  "enqueueDraft ok mail raw db = Inr db' \<Longrightarrow> idn db' = idn db \<and> challenges db' = challenges db \<and> totpRows db' = totpRows db \<and>
     emailFactors db' = emailFactors db \<and> emailOtps db' = emailOtps db \<and> recoveryCodes db' = recoveryCodes db \<and>
     resets db' = resets db \<and> challengeSeq db' = challengeSeq db"
  by (auto simp: enqueueDraft_def split: option.splits if_splits)

lemma updateChallenge_frames [simp]:
  "idn (updateChallenge i f db) = idn db" "totpRows (updateChallenge i f db) = totpRows db"
  "emailFactors (updateChallenge i f db) = emailFactors db" "emailOtps (updateChallenge i f db) = emailOtps db"
  "recoveryCodes (updateChallenge i f db) = recoveryCodes db" "resets (updateChallenge i f db) = resets db"
  "challengeSeq (updateChallenge i f db) = challengeSeq db"
  by (simp_all add: updateChallenge_def)

lemma replaceRecovery_frames:
  assumes "replaceRecoveryCodesTx uid hs db = Inr db'"
  shows "idn db' = idn db" "challenges db' = challenges db" "totpRows db' = totpRows db" "emailFactors db' = emailFactors db"
    "emailOtps db' = emailOtps db" "resets db' = resets db" "challengeSeq db' = challengeSeq db"
    "recoveryCodes db' = filter (\<lambda>r. rcUser r \<noteq> uid) (recoveryCodes db) @ map (\<lambda>h. \<lparr>rcUser = uid, rcHash = h, rcUsed = None\<rparr>) hs"
  using assms by (auto simp: replaceRecoveryCodesTx_def Let_def split: if_splits)

lemma consumeTotp_frames:
  assumes "consumeTOTPProofIfCurrentTx uid pr db = Some db'"
  shows "idn db' = idn db" "challenges db' = challenges db" "emailFactors db' = emailFactors db"
    "emailOtps db' = emailOtps db" "resets db' = resets db" "challengeSeq db' = challengeSeq db" "recoveryCodes db' = recoveryCodes db"
    "totpRows db' = map (\<lambda>r. if totpHit uid pr r then r\<lparr>toLast := Some (tpCounter pr)\<rparr> else r) (totpRows db)"
    "list_ex (totpHit uid pr) (totpRows db)"
  using assms by (auto simp: consumeTOTPProofIfCurrentTx_def split: if_splits)

lemma spendRecovery_frames:
  assumes "spendRecovery now uid h db = Some db'"
  shows "idn db' = idn db" "challenges db' = challenges db" "emailFactors db' = emailFactors db"
    "emailOtps db' = emailOtps db" "resets db' = resets db" "challengeSeq db' = challengeSeq db" "totpRows db' = totpRows db"
    "recoveryCodes db' = map (\<lambda>r. if recoveryHit uid h r then r\<lparr>rcUsed := Some now\<rparr> else r) (recoveryCodes db)"
    "RecoveryCodeIsLive uid h db"
  using assms by (auto simp: spendRecovery_def split: if_splits)

text \<open>What spending a step-up proof can touch.\<close>

lemma consumeSecondFactor_cases:
  assumes "consumeSecondFactorTx now uid p db = Inr db'"
  obtains (totp) pr where "consumeTOTPProofIfCurrentTx uid pr db = Some db'" "sfMethod p = MethodTOTP" "sfTotp p = Some pr"
  | (recovery) "spendRecovery now uid (sfDigest p) db = Some db'" "sfMethod p = MethodRecovery"
  | (email) "db' = spendOtps now (otpHit now uid OTPPurposeStepUp2FA (sfDigest p)) db" "sfMethod p = MethodEmailOTP"
      "StepUpEmailOTPIsLive now uid (sfDigest p) db"
  using assms
  by (auto simp: consumeSecondFactorTx_def consumeTOTPProofTx_def split: if_splits option.splits)

lemma consumeSecondFactor_frames:
  assumes "consumeSecondFactorTx now uid p db = Inr db'"
  shows "idn db' = idn db" "challenges db' = challenges db" "emailFactors db' = emailFactors db" "resets db' = resets db"
    "challengeSeq db' = challengeSeq db"
  using assms
  by (cases rule: consumeSecondFactor_cases; simp add: consumeTotp_frames spendRecovery_frames)+

lemma consumeChallengeProof_cases:
  assumes "consumeChallengeProofTx now ch pr db = Inr (m, db')"
  obtains (totp) p where "m = MethodTOTP" "cpTotp pr = Some p" "consumeTOTPProofIfCurrentTx (chUser ch) p db = Some db'"
  | (email) "m = MethodEmailOTP" "cpEmail pr \<noteq> []" "list_ex (loginOtpHit now ch (cpEmail pr)) (emailOtps db)"
      "db' = spendOtps now (loginOtpHit now ch (cpEmail pr)) db"
  | (recovery) "m = MethodRecovery" "cpRecovery pr \<noteq> []" "spendRecovery now (chUser ch) (cpRecovery pr) db = Some db'"
  using assms
  by (auto simp: consumeChallengeProofTx_def spendLoginOtp_def split: option.splits if_splits)

lemma consumeChallengeProof_frames:
  assumes "consumeChallengeProofTx now ch pr db = Inr (m, db')"
  shows "idn db' = idn db" "challenges db' = challenges db" "emailFactors db' = emailFactors db" "resets db' = resets db"
    "challengeSeq db' = challengeSeq db"
  using assms
  by (cases rule: consumeChallengeProof_cases; simp add: consumeTotp_frames spendRecovery_frames)+

lemma touchLogin_users:
  "touchLogin now uid st = Inr st' \<Longrightarrow> st' = st\<lparr>users := map (\<lambda>u. if uId u = uid then u\<lparr>uLastLogin := Some now\<rparr> else u) (users st)\<rparr>"
  by (auto simp: touchLogin_def dest!: writeUsers_Inr split: sum.splits)

lemma issueSession_users:
  assumes "issueSessionTx now family uid issue ip ua st = Inr (sid, st')"
  shows "users st' = users st" "userSeq st' = userSeq st" "sid = sessionSeq st"
    "\<exists>s. sessions st' = sessions st @ [s] \<and> sUser s = uid \<and> sId s = sid \<and> sAccess s = isAccess issue \<and> sRevoked s = None"
  using assms by (auto simp: issueSessionTx_def insertSessionTx_def split: if_splits)

lemma openSession_frames:
  assumes "openSession now family minted uid ttl ip ua db = Inr (issue, db')"
  shows "challenges db' = challenges db" "emailFactors db' = emailFactors db" "resets db' = resets db"
    "challengeSeq db' = challengeSeq db" "totpRows db' = totpRows db" "emailOtps db' = emailOtps db"
    "recoveryCodes db' = recoveryCodes db" "userSeq (idn db') = userSeq (idn db)"
    "users (idn db') = map (\<lambda>u. if uId u = uid then u\<lparr>uLastLogin := Some now\<rparr> else u) (users (idn db))"
    "\<exists>s. sessions (idn db') = sessions (idn db) @ [s] \<and> sUser s = uid \<and> sAccess s = isAccess issue \<and> sRevoked s = None"
proof -
  obtain sid st1 st2 where s: "issueSessionTx now family uid issue ip ua (idn db) = Inr (sid, st1)"
    "touchLogin now uid st1 = Inr st2" "db' = setIdn st2 db"
    using assms by (auto simp: openSession_def Let_def rbind_Inr_iff split: prod.splits)
  note f = issueSession_users [OF s(1)] touchLogin_users [OF s(2)]
  show "challenges db' = challenges db" "emailFactors db' = emailFactors db" "resets db' = resets db"
    "challengeSeq db' = challengeSeq db" "totpRows db' = totpRows db" "emailOtps db' = emailOtps db"
    "recoveryCodes db' = recoveryCodes db" "userSeq (idn db') = userSeq (idn db)"
    "users (idn db') = map (\<lambda>u. if uId u = uid then u\<lparr>uLastLogin := Some now\<rparr> else u) (users (idn db))"
    "\<exists>s. sessions (idn db') = sessions (idn db) @ [s] \<and> sUser s = uid \<and> sAccess s = isAccess issue \<and> sRevoked s = None"
    using f by (auto simp: s(3))
qed

lemma mintOtp_frames:
  assumes "mintOtp now uid purpose m ok raw db = Inr ((), db')"
  shows "idn db' = idn db" "challenges db' = challenges db" "emailFactors db' = emailFactors db" "resets db' = resets db"
    "challengeSeq db' = challengeSeq db" "totpRows db' = totpRows db" "recoveryCodes db' = recoveryCodes db"
    "emailOtps db' = emailOtps (spendOtps now (\<lambda>o'. eoUser o' = uid \<and> eoPurpose o' = purpose) db) @
       [\<lparr>eoUser = uid, eoChallenge = None, eoPurpose = purpose, eoHash = emDigest m, eoCreated = now,
         eoExpires = now + emTTL m, eoConsumed = None\<rparr>]"
  using assms by (auto simp: mintOtp_def Let_def rbind_Inr_iff dest!: enqueue_frames)

lemma bumpEpoch_Inr:
  assumes "bumpEpoch uid v st = Inr st'"
  shows "users st' = map (\<lambda>u. if uId u = uid \<and> uTokenVersion u = v then u\<lparr>uTokenVersion := Suc v\<rparr> else u) (users st)"
    "userSeq st' = userSeq st" "sessions st' = sessions st"
  using assms by (auto simp: bumpEpoch_def dest!: writeUsers_Inr split: sum.splits)

lemma disableFactor_Inr:
  assumes "disableFactorTx now sp k db = Inr db'"
  obtains st where "factorRow k (spUser sp) db" "bumpEpoch (spUser sp) (spVersion sp) (idn db) = Inr st"
    "idn db' = revokeWhere (\<lambda>s. sUser s = spUser sp \<and> sId s \<noteq> spSession sp) ReasonPasswordChanged now st"
    "challenges db' = challenges db" "challengeSeq db' = challengeSeq db" "resets db' = resets db"
    "totpRows db' = totpRows (dropFactor k (spUser sp) db)" "emailFactors db' = emailFactors (dropFactor k (spUser sp) db)"
    "emailOtps db' = emailOtps (dropFactor k (spUser sp) db)"
    "recoveryCodes db' = (if siblingLeft k (spUser sp) db' then recoveryCodes db
       else filter (\<lambda>r. rcUser r \<noteq> spUser sp) (recoveryCodes db))"
proof -
  let ?d = "dropFactor k (spUser sp) db"
  have d: "idn ?d = idn db" "challenges ?d = challenges db" "challengeSeq ?d = challengeSeq db" "resets ?d = resets db"
    "recoveryCodes ?d = recoveryCodes db"
    by (simp_all add: dropFactor_def split: factorKind.splits)
  have sib: "siblingLeft k (spUser sp) x = siblingLeft k (spUser sp) ?d"
    if "totpRows x = totpRows ?d" "emailFactors x = emailFactors ?d" for x
    using that by (simp add: siblingLeft_def totpEnabled_def emailEnabled_def split: factorKind.splits)
  have fr: "factorRow k (spUser sp) db" using assms by (auto simp: disableFactorTx_def split: if_splits)
  define e where "e = (if siblingLeft k (spUser sp) ?d then ?d
       else ?d\<lparr>recoveryCodes := filter (\<lambda>r. rcUser r \<noteq> spUser sp) (recoveryCodes ?d)\<rparr>)"
  have e: "idn e = idn db" "challenges e = challenges db" "challengeSeq e = challengeSeq db" "resets e = resets db"
    "totpRows e = totpRows ?d" "emailFactors e = emailFactors ?d" "emailOtps e = emailOtps ?d"
    by (simp_all add: e_def d)
  obtain st where st: "bumpEpoch (spUser sp) (spVersion sp) (idn e) = Inr st"
    "db' = setIdn (revokeWhere (\<lambda>s. sUser s = spUser sp \<and> sId s \<noteq> spSession sp) ReasonPasswordChanged now st) e"
    using assms fr by (auto simp: disableFactorTx_def Let_def rbind_Inr_iff e_def)
  have "recoveryCodes db' = (if siblingLeft k (spUser sp) db' then recoveryCodes db
       else filter (\<lambda>r. rcUser r \<noteq> spUser sp) (recoveryCodes db))"
    using sib [of db'] st(2) e by (simp add: e_def d)
  with fr st e show thesis by (intro that [of st]) simp_all
qed

section \<open>What each transaction did\<close>

lemma StartTOTP_Inr:
  assumes "StartTOTPEnrollment now sp cipher nonce db = (Inr (), db')"
  shows "idn db' = idn db" "challenges db' = challenges db" "challengeSeq db' = challengeSeq db" "resets db' = resets db"
    "emailOtps db' = emailOtps db" "recoveryCodes db' = recoveryCodes db" "emailFactors db' = emailFactors db"
    "\<exists>row. toUser row = spUser sp \<and> toCipher row = cipher \<and> toNonce row = nonce \<and> toConfirmed row = None \<and>
       (totpOf (spUser sp) db = None \<and> totpRows db' = totpRows db @ [row] \<or>
        (\<exists>r. totpOf (spUser sp) db = Some r \<and> toConfirmed r = None \<and>
          totpRows db' = map (\<lambda>r. if toUser r = spUser sp then row else r) (totpRows db)))"
proof -
  define row where "row = \<lparr>toUser = spUser sp, toCipher = cipher, toNonce = nonce, toParams = pinnedParams,
    toConfirmed = None, toVersion = Some (spVersion sp), toSession = nullZero (spSession sp), toLast = None\<rparr>"
  have r: "toUser row = spUser sp \<and> toCipher row = cipher \<and> toNonce row = nonce \<and> toConfirmed row = None"
    by (simp add: row_def)
  have "totpOf (spUser sp) db = None \<and> db' = db\<lparr>totpRows := totpRows db @ [row]\<rparr> \<or>
    (\<exists>r. totpOf (spUser sp) db = Some r \<and> toConfirmed r = None \<and>
      db' = db\<lparr>totpRows := map (\<lambda>r. if toUser r = spUser sp then row else r) (totpRows db)\<rparr>)"
    using assms
    by (auto simp: StartTOTPEnrollment_def runTx_Inr rbind_Inr_iff Let_def row_def [symmetric] split: if_splits option.splits)
  note c = this
  then show "idn db' = idn db" "challenges db' = challenges db" "challengeSeq db' = challengeSeq db" "resets db' = resets db"
    "emailOtps db' = emailOtps db" "recoveryCodes db' = recoveryCodes db" "emailFactors db' = emailFactors db"
    by auto
  show "\<exists>row. toUser row = spUser sp \<and> toCipher row = cipher \<and> toNonce row = nonce \<and> toConfirmed row = None \<and>
       (totpOf (spUser sp) db = None \<and> totpRows db' = totpRows db @ [row] \<or>
        (\<exists>r. totpOf (spUser sp) db = Some r \<and> toConfirmed r = None \<and>
          totpRows db' = map (\<lambda>r. if toUser r = spUser sp then row else r) (totpRows db)))"
    by (rule exI [of _ row]) (use r c in auto)
qed

lemma confirmTOTP_Inr:
  assumes "confirmTOTPRowTx now sp pr db = Inr db'"
  shows "idn db' = idn db" "challenges db' = challenges db" "challengeSeq db' = challengeSeq db" "resets db' = resets db"
    "emailOtps db' = emailOtps db" "recoveryCodes db' = recoveryCodes db" "emailFactors db' = emailFactors db"
    "\<exists>hit. list_ex hit (totpRows db) \<and> (\<forall>r. hit r \<longrightarrow> toUser r = spUser sp \<and> toConfirmed r = None) \<and>
       totpRows db' = map (\<lambda>r. if hit r then r\<lparr>toConfirmed := Some now, toLast := Some (tpCounter pr), toSession := None\<rparr> else r) (totpRows db)"
  using assms by (auto simp: confirmTOTPRowTx_def Let_def split: if_splits option.splits)

lemma finishPreAuth_Inr:
  assumes "finishPreAuthEnrollmentTx now family minted e db = Inr (issue, db')"
  shows "totpRows db' = totpRows db" "emailFactors db' = emailFactors db" "emailOtps db' = emailOtps db"
    "recoveryCodes db' = recoveryCodes db" "resets db' = resets db" "challengeSeq db' = challengeSeq db"
    "userSeq (idn db') = userSeq (idn db)"
    "users (idn db') = users (idn db) \<or>
     users (idn db') = map (\<lambda>u. if uId u = ecUser e then u\<lparr>uLastLogin := Some now\<rparr> else u) (users (idn db))"
    "case ecSession e of LiveSession _ \<Rightarrow> challenges db' = challenges db
     | PreAuth ch _ _ _ \<Rightarrow> \<exists>hit. (\<forall>c. hit c \<longrightarrow> chUser c = ecUser e \<and> chPurpose c = PurposeEnroll2FA \<and> chVersion c = Some (ecVersion e)) \<and>
         challenges db' = map (\<lambda>c. if hit c then c\<lparr>chConsumed := Some now\<rparr> else c) (challenges db)"
proof -
  have "totpRows db' = totpRows db \<and> emailFactors db' = emailFactors db \<and> emailOtps db' = emailOtps db \<and>
    recoveryCodes db' = recoveryCodes db \<and> resets db' = resets db \<and> challengeSeq db' = challengeSeq db \<and>
    userSeq (idn db') = userSeq (idn db) \<and>
    (users (idn db') = users (idn db) \<or>
     users (idn db') = map (\<lambda>u. if uId u = ecUser e then u\<lparr>uLastLogin := Some now\<rparr> else u) (users (idn db))) \<and>
    (case ecSession e of LiveSession _ \<Rightarrow> challenges db' = challenges db
     | PreAuth ch _ _ _ \<Rightarrow> \<exists>hit. (\<forall>c. hit c \<longrightarrow> chUser c = ecUser e \<and> chPurpose c = PurposeEnroll2FA \<and> chVersion c = Some (ecVersion e)) \<and>
         challenges db' = map (\<lambda>c. if hit c then c\<lparr>chConsumed := Some now\<rparr> else c) (challenges db))"
  proof (cases "ecSession e")
    case (LiveSession sid)
    then show ?thesis using assms by (simp add: finishPreAuthEnrollmentTx_def)
  next
    case (PreAuth ch ttl ip ua)
    define hit where "hit = (\<lambda>c. chId c = chId ch \<and> chUser c = ecUser e \<and> chPurpose c = PurposeEnroll2FA \<and>
                         chVersion c = Some (ecVersion e) \<and> challengeLive now c)"
    define d where "d = db\<lparr>challenges := map (\<lambda>c. if hit c then c\<lparr>chConsumed := Some now\<rparr> else c) (challenges db)\<rparr>"
    obtain i where i: "openSession now family minted (ecUser e) ttl ip ua d = Inr (i, db')"
      using assms
      by (auto simp: finishPreAuthEnrollmentTx_def PreAuth Let_def rbind_Inr_iff hit_def [symmetric] d_def [symmetric]
          split: if_splits)
    have d: "totpRows d = totpRows db" "emailFactors d = emailFactors db" "emailOtps d = emailOtps db"
      "recoveryCodes d = recoveryCodes db" "resets d = resets db" "challengeSeq d = challengeSeq db" "idn d = idn db"
      "challenges d = map (\<lambda>c. if hit c then c\<lparr>chConsumed := Some now\<rparr> else c) (challenges db)"
      by (simp_all add: d_def)
    have "\<forall>c. hit c \<longrightarrow> chUser c = ecUser e \<and> chPurpose c = PurposeEnroll2FA \<and> chVersion c = Some (ecVersion e)"
      by (simp add: hit_def)
    then have "\<exists>hit. (\<forall>c. hit c \<longrightarrow> chUser c = ecUser e \<and> chPurpose c = PurposeEnroll2FA \<and> chVersion c = Some (ecVersion e)) \<and>
         challenges db' = map (\<lambda>c. if hit c then c\<lparr>chConsumed := Some now\<rparr> else c) (challenges db)"
      using openSession_frames(1) [OF i] d(8) by (intro exI [of _ hit]) simp
    then show ?thesis using openSession_frames [OF i] d by (simp add: PreAuth)
  qed
  then show "totpRows db' = totpRows db" "emailFactors db' = emailFactors db" "emailOtps db' = emailOtps db"
    "recoveryCodes db' = recoveryCodes db" "resets db' = resets db" "challengeSeq db' = challengeSeq db"
    "userSeq (idn db') = userSeq (idn db)"
    "users (idn db') = users (idn db) \<or>
     users (idn db') = map (\<lambda>u. if uId u = ecUser e then u\<lparr>uLastLogin := Some now\<rparr> else u) (users (idn db))"
    "case ecSession e of LiveSession _ \<Rightarrow> challenges db' = challenges db
     | PreAuth ch _ _ _ \<Rightarrow> \<exists>hit. (\<forall>c. hit c \<longrightarrow> chUser c = ecUser e \<and> chPurpose c = PurposeEnroll2FA \<and> chVersion c = Some (ecVersion e)) \<and>
         challenges db' = map (\<lambda>c. if hit c then c\<lparr>chConsumed := Some now\<rparr> else c) (challenges db)"
    by blast+
qed

lemma CompleteTOTP_Inr:
  assumes "CompleteTOTPEnrollment now family minted e pr db = (Inr r, db')"
  obtains db1 db2 issue where
    "confirmTOTPRowTx now \<lparr>spUser = ecUser e, spSession = liveSessionID e, spVersion = ecVersion e\<rparr> pr db = Inr db1"
    "replaceRecoveryCodesTx (ecUser e) (ecHashes e) db1 = Inr db2"
    "finishPreAuthEnrollmentTx now family minted e db2 = Inr (issue, db')"
  using assms
  by (auto simp: CompleteTOTPEnrollment_def runTx_Inr rbind_Inr_iff split: option.splits prod.splits)

lemma spendEnrollment_Inr:
  assumes "spendEmailFactorEnrollmentTx now e h db = Inr db'"
  shows "idn db' = idn db" "challenges db' = challenges db" "challengeSeq db' = challengeSeq db" "resets db' = resets db"
    "totpRows db' = totpRows db"
    "emailOtps db' = emailOtps (spendOtps now (otpHit now (ecUser e) OTPPurposeEnrollEmail2FA h) db)"
    "recoveryCodes db' = filter (\<lambda>r. rcUser r \<noteq> ecUser e) (recoveryCodes db) @
       map (\<lambda>h. \<lparr>rcUser = ecUser e, rcHash = h, rcUsed = None\<rparr>) (ecHashes e)"
    "\<exists>hit. list_ex hit (emailFactors db) \<and> (\<forall>r. hit r \<longrightarrow> efUser r = ecUser e \<and> efConfirmed r = None) \<and>
       emailFactors db' = map (\<lambda>r. if hit r then r\<lparr>efConfirmed := Some now, efVersion := None, efSession := None\<rparr> else r) (emailFactors db)"
  using assms by (auto simp: spendEmailFactorEnrollmentTx_def Let_def replaceRecoveryCodesTx_def split: if_splits)

lemma CompleteEmail_Inr:
  assumes "CompleteEmailFactorEnrollment now family minted e h db = (Inr r, db')"
  obtains db1 issue where "spendEmailFactorEnrollmentTx now e h db = Inr db1"
    "finishPreAuthEnrollmentTx now family minted e db1 = Inr (issue, db')"
  using assms
  by (auto simp: CompleteEmailFactorEnrollment_def runTx_Inr rbind_Inr_iff split: option.splits prod.splits)

lemma StartEmail_Inr:
  assumes "StartEmailFactorEnrollment now sp m ok db = (Inr (), db')"
  shows "idn db' = idn db" "challenges db' = challenges db" "challengeSeq db' = challengeSeq db" "resets db' = resets db"
    "totpRows db' = totpRows db" "recoveryCodes db' = recoveryCodes db"
    "\<exists>row. efUser row = spUser sp \<and> efConfirmed row = None \<and>
       (emailFactorOf (spUser sp) db = None \<and> emailFactors db' = emailFactors db @ [row] \<or>
        (\<exists>r. emailFactorOf (spUser sp) db = Some r \<and> efConfirmed r = None \<and>
          emailFactors db' = map (\<lambda>r. if efUser r = spUser sp then row else r) (emailFactors db)))"
    "emailOtps db' = emailOtps (spendOtps now (\<lambda>o'. eoUser o' = spUser sp \<and> eoPurpose o' = OTPPurposeEnrollEmail2FA) db) @
       [\<lparr>eoUser = spUser sp, eoChallenge = None, eoPurpose = OTPPurposeEnrollEmail2FA, eoHash = emDigest m, eoCreated = now,
         eoExpires = now + emTTL m, eoConsumed = None\<rparr>]"
proof -
  define row where "row = \<lparr>efUser = spUser sp, efConfirmed = None, efVersion = Some (spVersion sp), efSession = nullZero (spSession sp)\<rparr>"
  have r: "efUser row = spUser sp \<and> efConfirmed row = None" by (simp add: row_def)
  obtain d where d: "mintOtp now (spUser sp) OTPPurposeEnrollEmail2FA m ok [] d = Inr ((), db')"
    and c: "emailFactorOf (spUser sp) db = None \<and> d = db\<lparr>emailFactors := emailFactors db @ [row]\<rparr> \<or>
      (\<exists>r. emailFactorOf (spUser sp) db = Some r \<and> efConfirmed r = None \<and>
        d = db\<lparr>emailFactors := map (\<lambda>r. if efUser r = spUser sp then row else r) (emailFactors db)\<rparr>)"
    using assms
    by (auto simp: StartEmailFactorEnrollment_def runTx_Inr rbind_Inr_iff Let_def row_def [symmetric] split: if_splits option.splits)
  note f = mintOtp_frames [OF d]
  have e: "idn d = idn db" "challenges d = challenges db" "challengeSeq d = challengeSeq db" "resets d = resets db"
    "totpRows d = totpRows db" "recoveryCodes d = recoveryCodes db" "emailOtps d = emailOtps db"
    using c by auto
  show "idn db' = idn db" "challenges db' = challenges db" "challengeSeq db' = challengeSeq db" "resets db' = resets db"
    "totpRows db' = totpRows db" "recoveryCodes db' = recoveryCodes db"
    using f e by simp_all
  show "emailOtps db' = emailOtps (spendOtps now (\<lambda>o'. eoUser o' = spUser sp \<and> eoPurpose o' = OTPPurposeEnrollEmail2FA) db) @
       [\<lparr>eoUser = spUser sp, eoChallenge = None, eoPurpose = OTPPurposeEnrollEmail2FA, eoHash = emDigest m, eoCreated = now,
         eoExpires = now + emTTL m, eoConsumed = None\<rparr>]"
    using f(8) e(7) by (simp add: spendOtps_def)
  show "\<exists>row. efUser row = spUser sp \<and> efConfirmed row = None \<and>
       (emailFactorOf (spUser sp) db = None \<and> emailFactors db' = emailFactors db @ [row] \<or>
        (\<exists>r. emailFactorOf (spUser sp) db = Some r \<and> efConfirmed r = None \<and>
          emailFactors db' = map (\<lambda>r. if efUser r = spUser sp then row else r) (emailFactors db)))"
    by (rule exI [of _ row]) (use r c f(3) in auto)
qed

lemma stepUpCode_Inr:
  assumes "CreateStepUpEmailOTP now sp m ok db = (Inr (), db')"
  shows "mintOtp now (spUser sp) OTPPurposeStepUp2FA m ok [] db = Inr ((), db')" "emailEnabled (spUser sp) db"
  using assms by (auto simp: CreateStepUpEmailOTP_def runTx_Inr rbind_Inr_iff split: if_splits)

lemma verification_Inr:
  "CreateEmailVerification now raw uid m ok db = (Inr (), db') \<Longrightarrow> mintOtp now uid OTPPurposeVerifyEmail m ok raw db = Inr ((), db')"
  by (auto simp: CreateEmailVerification_def runTx_Inr split: if_splits option.splits)

lemma lockProof_Inr:
  "lockUserWithPasswordAndProof verify now sp pw p db = Inr db' \<Longrightarrow> consumeSecondFactorTx now (spUser sp) p db = Inr db'"
  by (auto simp: lockUserWithPasswordAndProof_def rbind_Inr_iff split: if_splits option.splits)

lemma DisableTOTP_Inr:
  assumes "DisableTOTP verify now sp pw p db = (Inr (), db')"
  obtains db1 where "consumeSecondFactorTx now (spUser sp) p db = Inr db1" "disableFactorTx now sp FactorTOTP db1 = Inr db'"
  using assms by (auto simp: DisableTOTP_def runTx_Inr rbind_Inr_iff dest: lockProof_Inr)

lemma DisableEmail_Inr:
  assumes "DisableEmailFactor now sp p db = (Inr (), db')"
  obtains db1 where "consumeSecondFactorTx now (spUser sp) p db = Inr db1" "disableFactorTx now sp FactorEmail db1 = Inr db'"
  using assms by (auto simp: DisableEmailFactor_def runTx_Inr rbind_Inr_iff split: if_splits)

lemma Regenerate_Inr:
  assumes "RegenerateRecoveryCodes verify now sp pw p hs db = (Inr (), db')"
  obtains db1 where "consumeSecondFactorTx now (spUser sp) p db = Inr db1"
    "replaceRecoveryCodesTx (spUser sp) hs db1 = Inr db'"
  using assms by (auto simp: RegenerateRecoveryCodes_def runTx_Inr rbind_Inr_iff dest: lockProof_Inr)

lemma spend_Inr: "ConsumeSecondFactor now uid p db = (Inr (), db') \<Longrightarrow> consumeSecondFactorTx now uid p db = Inr db'"
  by (auto simp: ConsumeSecondFactor_def runTx_Inr rbind_Inr_iff)

lemma Complete2FA_Inr:
  assumes "Complete2FA now family minted ch pr ttl ip ua db = (Inr r, db')"
  obtains v c m db1 issue where "chVersion ch = Some v" "activeAt (chUser ch) v db" "c \<in> set (challenges db)"
    "chId c = chId ch" "chUser c = chUser ch" "chPurpose c = PurposeTOTP" "chVersion c = Some v" "challengeLive now c"
    "chAttempts c \<le> maxChallengeAttempts" "consumeChallengeProofTx now ch pr db = Inr (m, db1)" "r = (issue, m)"
    "openSession now family minted (chUser ch) ttl ip ua
       (updateChallenge (chId ch) (\<lambda>c. c\<lparr>chConsumed := Some now\<rparr>) db1) = Inr (issue, db')"
  using assms
  by (auto simp: Complete2FA_def runTx_Inr rbind_Inr_iff list_ex_iff split: option.splits if_splits prod.splits)

lemma mintReset_Inr:
  assumes "mintReset now raw tok u ttl ok draft db = Inr ((), db')"
  shows "idn db' = idn db" "challenges db' = challenges db" "challengeSeq db' = challengeSeq db" "totpRows db' = totpRows db"
    "emailFactors db' = emailFactors db" "emailOtps db' = emailOtps db" "recoveryCodes db' = recoveryCodes db"
  using assms by (auto simp: mintReset_def rbind_Inr_iff dest!: enqueue_frames split: if_splits)

lemma resetLink_Inr:
  assumes "CreatePasswordReset now raw tok uid ttl ok draft db = (Inr (), db')"
  obtains u where "mintReset now raw tok u ttl ok draft db = Inr ((), db')"
  using assms by (auto simp: CreatePasswordReset_def runTx_Inr split: if_splits option.splits)

lemma adminReset_Inr:
  assumes "CreateAdminPasswordRecovery now raw tok uid ttl ok draftFor db = (Inr (), db')"
  obtains u d where "mintReset now raw tok u ttl ok d db = Inr ((), db')"
  using assms by (auto simp: CreateAdminPasswordRecovery_def runTx_Inr split: if_splits option.splits)

definition afterReset :: "gotime \<Rightarrow> string \<Rightarrow> user \<Rightarrow> user" where
  "afterReset now h u = u\<lparr>uPwHash := Some h, uTokenVersion := uTokenVersion u + 1,
     uVerifiedAt := (case uVerifiedAt u of None \<Rightarrow> Some now | Some x \<Rightarrow> Some x)\<rparr>"

lemma reset_Inr:
  assumes "ConsumePasswordReset hashpw now tk pw db = (Inr u', db')"
  obtains t h r u where "tk = Some t" "hashpw pw = Some h" "r \<in> set (resets db)" "pwToken r = t" "resetLive now r"
    "userById (pwUser r) (idn db) = Some u" "uStatus u = StatusActive" "pwVersion r = Some (uTokenVersion u)"
    "users (idn db') = map (\<lambda>v. if uId v = pwUser r \<and> uStatus v = StatusActive \<and> uTokenVersion v = uTokenVersion u
       then afterReset now h v else v) (users (idn db))"
    "userSeq (idn db') = userSeq (idn db)"
    "sessions (idn db') = map (\<lambda>s. if sUser s = pwUser r \<and> sRevoked s = None
       then s\<lparr>sRevoked := Some now, sReason := Some ReasonPasswordChanged\<rparr> else s) (sessions (idn db))"
    "challenges db' = challenges db" "challengeSeq db' = challengeSeq db" "totpRows db' = totpRows db"
    "emailFactors db' = emailFactors db" "emailOtps db' = emailOtps db" "recoveryCodes db' = recoveryCodes db"
    "resets db' = map (\<lambda>q. if pwToken q = t \<and> pwUser q = pwUser r \<and> pwVersion q = Some (uTokenVersion u) \<and> resetLive now q
       then q\<lparr>pwConsumed := Some now\<rparr> else q) (resets db)"
    "u' = afterReset now h u"
proof -
  obtain t h r u st1 where s: "tk = Some t" "hashpw pw = Some h" "find (\<lambda>r. pwToken r = t \<and> resetLive now r) (resets db) = Some r"
    "userById (pwUser r) (idn db) = Some u" "uStatus u = StatusActive" "pwVersion r = Some (uTokenVersion u)"
    "writeUsers (\<lambda>v. uId v = pwUser r \<and> uStatus v = StatusActive \<and> uTokenVersion v = uTokenVersion u) (afterReset now h) (idn db) = Inr st1"
    "db' = (setIdn (revokeWhere (\<lambda>s. sUser s = pwUser r) ReasonPasswordChanged now st1) db)
       \<lparr>resets := map (\<lambda>q. if pwToken q = t \<and> pwUser q = pwUser r \<and> pwVersion q = Some (uTokenVersion u) \<and> resetLive now q
               then q\<lparr>pwConsumed := Some now\<rparr> else q) (resets db)\<rparr>"
    "u' = afterReset now h u"
    using assms unfolding ConsumePasswordReset_def Let_def runTx_Inr afterReset_def [symmetric]
    by (auto split: option.splits if_splits sum.splits)
  from find_SomeD [OF s(3)] have "r \<in> set (resets db)" "pwToken r = t" "resetLive now r" by auto
  then show thesis
    using s writeUsers_Inr [OF s(7)]
    by (intro that [of t h r u]) (auto simp: revokeWhere_def afterReset_def)
qed

lemma verified_Inr:
  assumes "ConsumeEmailVerification now tok db = (Inr uid, db')"
  obtains Q f hit where "users (idn db') = map (\<lambda>u. if Q u then f u else u) (users (idn db))"
    "\<And>u. uId (f u) = uId u \<and> uTokenVersion (f u) = uTokenVersion u" "userSeq (idn db') = userSeq (idn db)"
    "challenges db' = challenges db" "challengeSeq db' = challengeSeq db" "totpRows db' = totpRows db"
    "emailFactors db' = emailFactors db" "recoveryCodes db' = recoveryCodes db"
    "emailOtps db' = emailOtps (spendOtps now hit db)"
proof -
  obtain Q hit st where st: "writeUsers Q (\<lambda>u. u\<lparr>uVerifiedAt := (case uVerifiedAt u of None \<Rightarrow> Some now | Some x \<Rightarrow> Some x)\<rparr>) (idn db) = Inr st"
    "db' = spendOtps now hit (setIdn st db)"
    using assms unfolding ConsumeEmailVerification_def Let_def
    by (auto simp: runTx_Inr split: option.splits sum.splits)
  have "emailOtps db' = emailOtps (spendOtps now hit db)" by (simp add: st(2) spendOtps_def)
  with writeUsers_Inr [OF st(1)] st(2) show thesis
    by (intro that [of Q "\<lambda>u. u\<lparr>uVerifiedAt := (case uVerifiedAt u of None \<Rightarrow> Some now | Some x \<Rightarrow> Some x)\<rparr>" hit]) simp_all
qed

lemma spendOtps_set:
  "o' \<in> set (emailOtps (spendOtps now P db)) \<Longrightarrow> \<exists>o\<^sub>0\<in>set (emailOtps db). eoUser o' = eoUser o\<^sub>0 \<and> eoChallenge o' = eoChallenge o\<^sub>0 \<and>
     eoPurpose o' = eoPurpose o\<^sub>0 \<and> eoHash o' = eoHash o\<^sub>0 \<and> (eoConsumed o\<^sub>0 \<noteq> None \<longrightarrow> eoConsumed o' \<noteq> None)"
  by (auto simp: spendOtps_def split: if_splits)

section \<open>Epochs only grow\<close>

lemma epochGrows_refl: "accountIds st \<Longrightarrow> epochGrows st st"
  by (auto simp: epochGrows_def accountIds_def list_all_iff list_ex_iff)

lemma epochGrows_map:
  assumes "accountIds st" "users st' = map f (users st)" "userSeq st' = userSeq st"
    and "\<And>u. u \<in> set (users st) \<Longrightarrow> uId (f u) = uId u \<and> uTokenVersion u \<le> uTokenVersion (f u)"
  shows "epochGrows st st'"
proof -
  have "map uId (users st') = map uId (users st)" using assms(2,4) by simp
  then have "distinct (map uId (users st'))" using assms(1) by (simp only: accountIds_def)
  then have "accountIds st'"
    using assms(1) by (simp only: accountIds_def) (auto simp: list_all_iff assms(2,3,4))
  then show ?thesis using assms(2,3,4) by (auto simp: epochGrows_def list_all_iff list_ex_iff)
qed

lemma epochGrows_openSession:
  assumes "openSession now family minted uid ttl ip ua db = Inr (issue, db')" "accountIds (idn db)"
  shows "epochGrows (idn db) (idn db')"
  by (rule epochGrows_map [OF assms(2) openSession_frames(9,8) [OF assms(1)]]) simp

lemma epochGrows_disable:
  assumes "disableFactorTx now sp k db = Inr db'" "accountIds (idn db)"
  shows "epochGrows (idn db) (idn db')"
  using assms(1)
proof (rule disableFactor_Inr)
  fix st
  assume b: "bumpEpoch (spUser sp) (spVersion sp) (idn db) = Inr st"
    "idn db' = revokeWhere (\<lambda>s. sUser s = spUser sp \<and> sId s \<noteq> spSession sp) ReasonPasswordChanged now st"
  show ?thesis
    by (rule epochGrows_map [OF assms(2), of _ "\<lambda>u. if uId u = spUser sp \<and> uTokenVersion u = spVersion sp
          then u\<lparr>uTokenVersion := Suc (spVersion sp)\<rparr> else u"])
      (use b(2) bumpEpoch_Inr [OF b(1)] in \<open>simp_all add: revokeWhere_def\<close>)
qed

lemma epochGrows_finish:
  assumes "finishPreAuthEnrollmentTx now family minted e db = Inr (issue, db')" "accountIds (idn db)"
  shows "epochGrows (idn db) (idn db')"
proof -
  note f = finishPreAuth_Inr [OF assms(1)]
  from f(8) show ?thesis
  proof
    assume "users (idn db') = users (idn db)"
    then show ?thesis by (intro epochGrows_map [OF assms(2) _ f(7), of "\<lambda>u. u"]) simp_all
  next
    assume "users (idn db') = map (\<lambda>u. if uId u = ecUser e then u\<lparr>uLastLogin := Some now\<rparr> else u) (users (idn db))"
    then show ?thesis by (rule epochGrows_map [OF assms(2) _ f(7)]) simp
  qed
qed

lemma step_epochs:
  assumes "tfStep smtp verify hashpw l db db'" "accountIds (idn db)"
  shows "epochGrows (idn db) (idn db')"
  using assms(1)
proof cases
  case (create now tok nc i)
  then show ?thesis using epochGrows_refl [OF assms(2)] by (auto simp: CreateChallenge_def Let_def split: if_splits)
next
  case (bump now i n c)
  then show ?thesis using epochGrows_refl [OF assms(2)]
    by (auto simp: BumpChallengeAttempt_def split: sum.splits if_splits)
next
  case (consume now i c)
  then show ?thesis using epochGrows_refl [OF assms(2)]
    by (auto simp: ConsumeChallenge_def split: sum.splits if_splits)
next
  case (send i c db0 now h ttl cooldown ok mail k)
  then show ?thesis using epochGrows_refl [OF assms(2)]
    by (auto simp: CreateChallengeEmailOTP_def Let_def runTx_Inr rbind_Inr_iff dest!: enqueue_frames split: sum.splits if_splits)
next
  case (startTotp now sp cipher nonce)
  then show ?thesis using epochGrows_refl [OF assms(2)] by (simp add: StartTOTP_Inr(1))
next
  case (liveTotp now family minted e pr r sid)
  from liveTotp(2) show ?thesis
    by (rule CompleteTOTP_Inr) (metis assms(2) confirmTOTP_Inr(1) epochGrows_finish replaceRecovery_frames(1))
next
  case (preTotp now family minted e pr r ch ttl ip ua)
  from preTotp(2) show ?thesis
    by (rule CompleteTOTP_Inr) (metis assms(2) confirmTOTP_Inr(1) epochGrows_finish replaceRecovery_frames(1))
next
  case (startEmail now sp m ok)
  then show ?thesis using epochGrows_refl [OF assms(2)] by (simp add: StartEmail_Inr(1))
next
  case (liveEmail now family minted e h r sid)
  from liveEmail(2) show ?thesis
    by (rule CompleteEmail_Inr) (metis assms(2) epochGrows_finish spendEnrollment_Inr(1))
next
  case (preEmail now family minted e h r ch ttl ip ua)
  from preEmail(2) show ?thesis
    by (rule CompleteEmail_Inr) (metis assms(2) epochGrows_finish spendEnrollment_Inr(1))
next
  case (complete now family minted ch pr ttl ip ua r)
  from complete(2) show ?thesis
  proof (rule Complete2FA_Inr)
    fix m db1 issue
    assume c: "consumeChallengeProofTx now ch pr db = Inr (m, db1)"
      "openSession now family minted (chUser ch) ttl ip ua
       (updateChallenge (chId ch) (\<lambda>c. c\<lparr>chConsumed := Some now\<rparr>) db1) = Inr (issue, db')"
    show ?thesis using epochGrows_openSession [OF c(2)] assms(2) consumeChallengeProof_frames(1) [OF c(1)] by simp
  qed
next
  case (stepUpCode now sp m ok)
  then show ?thesis using epochGrows_refl [OF assms(2)] by (simp add: mintOtp_frames(1) [OF stepUpCode_Inr(1)])
next
  case (spend now uid p)
  then show ?thesis using epochGrows_refl [OF assms(2)] by (simp add: consumeSecondFactor_frames(1) [OF spend_Inr])
next
  case (disableTotp now sp pw p)
  from disableTotp(2) show ?thesis
    by (rule DisableTOTP_Inr) (metis assms(2) consumeSecondFactor_frames(1) epochGrows_disable)
next
  case (disableEmail now sp p)
  from disableEmail(2) show ?thesis
    by (rule DisableEmail_Inr) (metis assms(2) consumeSecondFactor_frames(1) epochGrows_disable)
next
  case (regenerate now sp pw p hs)
  from regenerate(2) show ?thesis
    by (rule Regenerate_Inr) (metis assms(2) consumeSecondFactor_frames(1) epochGrows_refl replaceRecovery_frames(1))
next
  case (verification now raw uid m ok)
  then show ?thesis using epochGrows_refl [OF assms(2)] by (simp add: mintOtp_frames(1) [OF verification_Inr])
next
  case (verified now tok uid)
  from verified(2) show ?thesis
  proof (rule verified_Inr)
    fix Q f
    assume u: "users (idn db') = map (\<lambda>u. if Q u then f u else u) (users (idn db))"
      "\<And>u. uId (f u) = uId u \<and> uTokenVersion (f u) = uTokenVersion u" "userSeq (idn db') = userSeq (idn db)"
    show ?thesis by (rule epochGrows_map [OF assms(2) u(1,3)]) (simp add: u(2))
  qed
next
  case (resetLink now raw tok uid ttl ok draft)
  from resetLink(2) show ?thesis by (rule resetLink_Inr) (simp add: mintReset_Inr(1) epochGrows_refl [OF assms(2)])
next
  case (adminReset now raw tok uid ttl ok draftFor)
  from adminReset(2) show ?thesis by (rule adminReset_Inr) (simp add: mintReset_Inr(1) epochGrows_refl [OF assms(2)])
next
  case (reset now tk pw u)
  from reset(2) show ?thesis
  proof (rule reset_Inr)
    fix t h r u
    assume u: "users (idn db') = map (\<lambda>v. if uId v = pwUser r \<and> uStatus v = StatusActive \<and> uTokenVersion v = uTokenVersion u
       then afterReset now h v else v) (users (idn db))" "userSeq (idn db') = userSeq (idn db)"
    show ?thesis by (rule epochGrows_map [OF assms(2) u]) (simp add: afterReset_def)
  qed
next
  case (sweep retain now n)
  then show ?thesis using epochGrows_refl [OF assms(2)] by (auto simp: SweepTwoFactor_def Let_def)
next
  case (queued now ms sd)
  then show ?thesis using epochGrows_refl [OF assms(2)] by simp
next
  case (sessionGone now sid)
  then show ?thesis using epochGrows_refl [OF assms(2)] by simp
next
  case (accountGone now uid)
  have "users (cascadeUser uid (idn db)) = filter (\<lambda>u. uId u \<noteq> uid) (users (idn db)) \<and>
      userSeq (cascadeUser uid (idn db)) = userSeq (idn db)"
    by (simp add: cascadeUser_def)
  then show ?thesis using assms(2) accountGone
    by (auto simp: epochGrows_def accountIds_def list_all_iff list_ex_iff distinct_map_filter)
qed simp

end
