(* ===== verification/TwoFactorBudget.thy ===== *)
theory TwoFactorBudget
  imports TwoFactorFlow
begin

text \<open>
  The guess budget of a pre-auth challenge.  Replacing a challenge, by entering the password again, moves
  its attempts and its expiry to the new one; so within one lifetime an account, a purpose and an epoch
  have one budget of five, however many challenges were made.
\<close>

definition unspent :: "int \<Rightarrow> string \<Rightarrow> nat \<Rightarrow> authdb \<Rightarrow> challenge list" where
  "unspent uid p v db =
     filter (\<lambda>c. chUser c = uid \<and> chPurpose c = p \<and> chVersion c = Some v \<and> chConsumed c = None) (challenges db)"

definition chIds :: "authdb \<Rightarrow> bool" where
  "chIds db = (distinct (map chId (challenges db)) \<and> list_all (\<lambda>c. chId c < challengeSeq db) (challenges db))"

text \<open>The epoch \<open>v\<close> of \<open>uid\<close> is over.\<close>

definition epochOver :: "int \<Rightarrow> nat \<Rightarrow> authdb \<Rightarrow> bool" where
  "epochOver uid v db = list_all (\<lambda>u. uId u = uid \<longrightarrow> v < uTokenVersion u) (users (idn db))"

definition epochFrom :: "int \<Rightarrow> nat \<Rightarrow> authdb \<Rightarrow> bool" where
  "epochFrom uid v db = (uid < userSeq (idn db) \<and> list_all (\<lambda>u. uId u = uid \<longrightarrow> v \<le> uTokenVersion u) (users (idn db)))"

text \<open>\<open>n\<close> guesses were charged so far, and the challenge in force expires at \<open>T\<close>.\<close>

definition charged :: "int \<Rightarrow> string \<Rightarrow> nat \<Rightarrow> gotime \<Rightarrow> nat \<Rightarrow> authdb \<Rightarrow> bool" where
  "charged uid p v T n db =
     (accountIds (idn db) \<and> chIds db \<and> epochFrom uid v db \<and> n \<le> maxChallengeAttempts \<and>
      (epochOver uid v db \<or> (\<exists>c. unspent uid p v db = [c] \<and> chExpires c = T \<and> chAttempts c = n)))"

lemma epochFrom_grows:
  "epochFrom uid v db \<Longrightarrow> epochGrows (idn db) (idn db') \<Longrightarrow> epochFrom uid v db'"
  by (fastforce simp: epochFrom_def epochGrows_def list_all_iff list_ex_iff)

lemma epochOver_grows:
  "epochOver uid v db \<Longrightarrow> epochFrom uid v db \<Longrightarrow> epochGrows (idn db) (idn db') \<Longrightarrow> epochOver uid v db'"
  by (fastforce simp: epochOver_def epochFrom_def epochGrows_def list_all_iff list_ex_iff)

lemma epochOver_not_active: "epochOver uid v db \<Longrightarrow> \<not> activeAt uid v db"
  by (auto simp: epochOver_def activeAt_def list_all_iff list_ex_iff)

lemma later_epoch:
  assumes "activeAt uid v' db" "v' \<noteq> v" "epochFrom uid v db" "accountIds (idn db)"
  shows "epochOver uid v db"
proof -
  obtain u where u: "u \<in> set (users (idn db))" "uId u = uid" "uTokenVersion u = v'"
    using assms(1) by (auto simp: activeAt_def list_ex_iff)
  have "w = u" if "w \<in> set (users (idn db))" "uId w = uid" for w
    using that u assms(4) by (auto simp: accountIds_def distinct_map dest: inj_onD)
  then show ?thesis using u assms(2,3) by (fastforce simp: epochOver_def epochFrom_def list_all_iff)
qed

lemma charged_quiet:
  assumes "charged uid p v T n db" "epochGrows (idn db) (idn db')" "challenges db' = challenges db"
    "challengeSeq db' = challengeSeq db"
  shows "charged uid p v T n db'"
  using assms epochFrom_grows [of uid v db db'] epochOver_grows [of uid v db db']
  by (auto simp: charged_def chIds_def unspent_def epochGrows_def)

text \<open>An update in place that leaves the chain alone.\<close>

lemma unspent_map:
  assumes "challenges db' = map f (challenges db)"
    and "\<And>c. c \<in> set (challenges db) \<Longrightarrow> chUser (f c) = chUser c \<and> chPurpose (f c) = chPurpose c \<and> chVersion (f c) = chVersion c"
    and "\<And>c. c \<in> set (challenges db) \<Longrightarrow> chUser c = uid \<Longrightarrow> chPurpose c = p \<Longrightarrow> chVersion c = Some v \<Longrightarrow>
      chConsumed (f c) = chConsumed c"
  shows "unspent uid p v db' = map f (unspent uid p v db)"
proof -
  let ?P = "\<lambda>c. chUser c = uid \<and> chPurpose c = p \<and> chVersion c = Some v \<and> chConsumed c = None"
  have "filter ?P (map f cs) = map f (filter ?P cs)" if "set cs \<subseteq> set (challenges db)" for cs
    using that
  proof (induction cs)
    case (Cons c cs)
    then have c: "chUser (f c) = chUser c \<and> chPurpose (f c) = chPurpose c \<and> chVersion (f c) = chVersion c" "?P (f c) = ?P c"
      using assms(2,3) [of c] by auto
    then show ?case using Cons by simp
  qed simp
  from this [of "challenges db"] show ?thesis by (simp add: unspent_def assms(1))
qed

lemma charged_map:
  assumes "charged uid p v T n db" "epochGrows (idn db) (idn db')" "challenges db' = map f (challenges db)"
    "challengeSeq db' = challengeSeq db"
    and "\<And>c. c \<in> set (challenges db) \<Longrightarrow> chId (f c) = chId c \<and> chUser (f c) = chUser c \<and> chPurpose (f c) = chPurpose c \<and>
      chVersion (f c) = chVersion c"
    and "\<And>c. c \<in> set (challenges db) \<Longrightarrow> chUser c = uid \<Longrightarrow> chPurpose c = p \<Longrightarrow> chVersion c = Some v \<Longrightarrow>
      chConsumed (f c) = chConsumed c \<and> chExpires (f c) = chExpires c \<and> chAttempts (f c) = chAttempts c"
  shows "charged uid p v T n db'"
proof -
  have "map chId (challenges db') = map chId (challenges db)" using assms(3,5) by simp
  then have ids: "distinct (map chId (challenges db'))" using assms(1) by (simp only: charged_def chIds_def)
  have "chIds db'"
    using ids assms(1) by (simp only: chIds_def charged_def) (auto simp: list_all_iff assms(3,4,5))
  moreover have "unspent uid p v db' = map f (unspent uid p v db)"
    by (rule unspent_map [OF assms(3)]) (use assms(5,6) in auto)
  moreover have "set (unspent uid p v db) \<subseteq> {c \<in> set (challenges db). chUser c = uid \<and> chPurpose c = p \<and> chVersion c = Some v}"
    by (auto simp: unspent_def)
  ultimately show ?thesis
    using assms(1,2,6) epochFrom_grows [of uid v db db'] epochOver_grows [of uid v db db']
    by (auto simp: charged_def epochGrows_def)
qed

lemma charged_filter:
  assumes "charged uid p v T n db" "epochGrows (idn db) (idn db')" "challenges db' = filter P (challenges db)"
    "challengeSeq db' = challengeSeq db"
    and "epochOver uid v db' \<or> (\<forall>c\<in>set (challenges db). chUser c = uid \<longrightarrow> chPurpose c = p \<longrightarrow> chVersion c = Some v \<longrightarrow>
      chConsumed c = None \<longrightarrow> chExpires c = T \<longrightarrow> P c)"
  shows "charged uid p v T n db'"
proof -
  have ids: "chIds db'"
    using assms(1) by (auto simp: charged_def chIds_def assms(3,4) list_all_iff distinct_map_filter)
  have e: "epochFrom uid v db'" "accountIds (idn db')" "epochOver uid v db \<Longrightarrow> epochOver uid v db'"
    using assms(1,2) epochFrom_grows [of uid v db db'] epochOver_grows [of uid v db db']
    by (auto simp: charged_def epochGrows_def)
  show ?thesis
  proof (cases "epochOver uid v db'")
    case True
    then show ?thesis using e ids assms(1) by (simp add: charged_def)
  next
    case False
    then obtain c where c: "unspent uid p v db = [c]" "chExpires c = T" "chAttempts c = n"
      using assms(1) e(3) by (auto simp: charged_def)
    have "c \<in> set (unspent uid p v db)" by (simp add: c(1))
    then have "c \<in> set (challenges db) \<and> chUser c = uid \<and> chPurpose c = p \<and> chVersion c = Some v \<and> chConsumed c = None"
      by (simp add: unspent_def)
    then have "P c" using assms(5) False c(2) by blast
    moreover have "unspent uid p v db' = filter P (unspent uid p v db)"
      by (simp add: unspent_def assms(3) conj_commute)
    ultimately show ?thesis using c e ids assms(1) by (simp add: charged_def)
  qed
qed

lemma charged_over:
  assumes "charged uid p v T n db" "epochOver uid v db" "epochGrows (idn db) (idn db')" "chIds db'"
  shows "charged uid p v T n db'"
  using assms epochFrom_grows [of uid v db db'] epochOver_grows [of uid v db db']
  by (auto simp: charged_def epochGrows_def)

lemma create_Inr:
  assumes "CreateChallenge now tok nc db = (Inr i, db')"
  obtains prev c where "activeAt (ncUser nc) (ncVersion nc) db" "prev = loadPreviousChallengeTx now nc db" "i = challengeSeq db"
    "chId c = i" "chUser c = ncUser nc" "chPurpose c = ncPurpose nc" "chVersion c = Some (ncVersion nc)" "chConsumed c = None"
    "chAttempts c = (case prev of None \<Rightarrow> 0 | Some p \<Rightarrow> chAttempts p)"
    "chSends c = (case prev of None \<Rightarrow> 0 | Some p \<Rightarrow> chSends p)"
    "chExpires c = (case prev of None \<Rightarrow> now + ncTTL nc | Some p \<Rightarrow> chExpires p)"
    "chMailbox c = ((case prev of None \<Rightarrow> False | Some p \<Rightarrow> chMailbox p) \<or> ncMailbox nc)"
    "challenges db' = supersedeChallenges now (ncUser nc) (ncPurpose nc) (challenges db) @ [c]"
    "emailOtps db' = (case prev of None \<Rightarrow> emailOtps db | Some p \<Rightarrow> inheritChallengeCodesTx now (chId p) i (emailOtps db))"
    "challengeSeq db' = i + 1" "idn db' = idn db" "totpRows db' = totpRows db" "emailFactors db' = emailFactors db"
    "recoveryCodes db' = recoveryCodes db" "resets db' = resets db"
proof -
  let ?prev = "loadPreviousChallengeTx now nc db"
  let ?c = "\<lparr>chId = challengeSeq db, chUser = ncUser nc, chToken = tok, chPurpose = ncPurpose nc,
                    chVersion = Some (ncVersion nc),
                    chAttempts = (case ?prev of None \<Rightarrow> 0 | Some p \<Rightarrow> chAttempts p),
                    chSends = (case ?prev of None \<Rightarrow> 0 | Some p \<Rightarrow> chSends p),
                    chCreated = now,
                    chExpires = (case ?prev of None \<Rightarrow> now + ncTTL nc | Some p \<Rightarrow> chExpires p),
                    chConsumed = None,
                    chMailbox = ((case ?prev of None \<Rightarrow> False | Some p \<Rightarrow> chMailbox p) \<or> ncMailbox nc),
                    chOauth = ncOauth nc\<rparr>"
  have a: "activeAt (ncUser nc) (ncVersion nc) db" "i = challengeSeq db" "db' = db\<lparr>challenges :=
      supersedeChallenges now (ncUser nc) (ncPurpose nc) (challenges db) @ [?c],
      emailOtps := (case ?prev of None \<Rightarrow> emailOtps db
                                       | Some p \<Rightarrow> inheritChallengeCodesTx now (chId p) (challengeSeq db) (emailOtps db)),
      challengeSeq := challengeSeq db + 1\<rparr>"
    using assms unfolding CreateChallenge_def Let_def by (auto split: if_splits)
  show thesis by (rule that [of ?prev ?c]) (simp_all add: a split: option.splits)
qed

lemma supersede_ids: "map chId (supersedeChallenges now uid p cs) = map chId cs"
  by (simp add: supersedeChallenges_def)

definition superseded :: "gotime \<Rightarrow> int \<Rightarrow> string \<Rightarrow> challenge \<Rightarrow> challenge" where
  "superseded now uid p c = (if chUser c = uid \<and> chPurpose c = p \<and> chVersion c \<noteq> None \<and> chConsumed c = None
     then c\<lparr>chConsumed := Some now\<rparr> else c)"

lemma superseded_simps:
  "chUser (superseded now uid p c) = chUser c" "chPurpose (superseded now uid p c) = chPurpose c"
  "chVersion (superseded now uid p c) = chVersion c" "chId (superseded now uid p c) = chId c"
  "chMailbox (superseded now uid p c) = chMailbox c"
  "chConsumed (superseded now uid p c) = None \<longleftrightarrow>
     chConsumed c = None \<and> \<not> (chUser c = uid \<and> chPurpose c = p \<and> chVersion c \<noteq> None)"
  by (auto simp: superseded_def)

lemma superseded_id:
  "\<not> (chUser c = uid \<and> chPurpose c = p) \<Longrightarrow> superseded now uid p c = c"
  by (auto simp: superseded_def)

lemma supersede_map: "supersedeChallenges now uid p cs = map (superseded now uid p) cs"
  by (simp add: supersedeChallenges_def superseded_def)

lemma supersede_unspent:
  "filter (\<lambda>c. chUser c = uid \<and> chPurpose c = p \<and> chVersion c = Some v \<and> chConsumed c = None)
     (supersedeChallenges now uid' p' cs) =
   (if uid' = uid \<and> p' = p then []
    else filter (\<lambda>c. chUser c = uid \<and> chPurpose c = p \<and> chVersion c = Some v \<and> chConsumed c = None) cs)"
proof (induction cs)
  case (Cons c cs)
  show ?case
  proof (cases "chUser c = uid' \<and> chPurpose c = p'")
    case True
    with Cons show ?thesis
      by (cases "uid' = uid \<and> p' = p"; cases "chVersion c") (simp_all add: supersede_map superseded_simps, auto)
  next
    case False
    with Cons show ?thesis by (auto simp: supersede_map superseded_id)
  qed
qed (simp add: supersede_map)

lemma charged_create:
  assumes "charged uid p v T n db" "CreateChallenge now tok nc db = (Inr i, db')" "now < T"
  shows "charged uid p v T n db'"
  using assms(2)
proof (rule create_Inr)
  fix prev c
  assume k: "activeAt (ncUser nc) (ncVersion nc) db" "prev = loadPreviousChallengeTx now nc db" "i = challengeSeq db"
    "chId c = i" "chUser c = ncUser nc" "chPurpose c = ncPurpose nc" "chVersion c = Some (ncVersion nc)" "chConsumed c = None"
    "chAttempts c = (case prev of None \<Rightarrow> 0 | Some p \<Rightarrow> chAttempts p)"
    "chExpires c = (case prev of None \<Rightarrow> now + ncTTL nc | Some p \<Rightarrow> chExpires p)"
    "challenges db' = supersedeChallenges now (ncUser nc) (ncPurpose nc) (challenges db) @ [c]"
    "challengeSeq db' = i + 1" "idn db' = idn db"
  have ids: "chIds db'"
  proof -
    have "set (map chId (challenges db)) \<subseteq> {..<challengeSeq db}" "distinct (map chId (challenges db))"
      using assms(1) by (auto simp: charged_def chIds_def list_all_iff)
    then have "distinct (map chId (challenges db'))" "\<forall>x\<in>set (map chId (challenges db')). x < challengeSeq db'"
      unfolding k(11,12) map_append supersede_ids using k(3,4) by auto
    then show ?thesis by (auto simp: chIds_def list_all_iff)
  qed
  have g: "epochGrows (idn db) (idn db')" using assms(1) k(13) epochGrows_refl by (simp add: charged_def)
  have u: "unspent uid p v db' = (if ncUser nc = uid \<and> ncPurpose nc = p then [] else unspent uid p v db) @
      (if ncUser nc = uid \<and> ncPurpose nc = p \<and> ncVersion nc = v then [c] else [])"
    unfolding unspent_def k(11) filter_append supersede_unspent using k(5-8) by simp
  show ?thesis
  proof (cases "epochOver uid v db")
    case True
    then show ?thesis by (rule charged_over [OF assms(1) _ g ids])
  next
    case False
    then obtain d where d: "unspent uid p v db = [d]" "chExpires d = T" "chAttempts d = n"
      using assms(1) by (auto simp: charged_def)
    show ?thesis
    proof (cases "ncUser nc = uid \<and> ncPurpose nc = p")
      case True
      with False k(1) later_epoch [of uid "ncVersion nc" db v] assms(1) have v: "ncVersion nc = v"
        by (auto simp: charged_def)
      have "loadPreviousChallengeTx now nc db = newest (filter (challengeLive now) (unspent uid p v db))"
        unfolding loadPreviousChallengeTx_def unspent_def filter_filter using True v
        by (intro arg_cong [where f = newest] filter_cong) (auto simp: challengeLive_def)
      moreover have "challengeLive now d"
        using arg_cong [OF d(1), of set] assms(3) d(2) by (auto simp: challengeLive_def unspent_def)
      ultimately have "prev = Some d" using k(2) d(1) by (simp add: newest_def)
      then show ?thesis using u True v k(9,10) d ids g assms(1)
        by (auto simp: charged_def epochFrom_def k(13))
    next
      case False
      then have "unspent uid p v db' = [d]" using u d(1) by auto
      then show ?thesis using d ids assms(1) by (auto simp: charged_def epochFrom_def epochOver_def k(13))
    qed
  qed
qed

section \<open>Every step keeps the account\<close>

definition isGuess :: "int \<Rightarrow> string \<Rightarrow> nat \<Rightarrow> tfLabel \<Rightarrow> bool" where
  "isGuess uid p v l = (case l of Guess t i q w \<Rightarrow> i = uid \<and> q = p \<and> w = Some v | _ \<Rightarrow> False)"

definition isDone :: "int \<Rightarrow> string \<Rightarrow> nat \<Rightarrow> tfLabel \<Rightarrow> bool" where
  "isDone uid p v l = (case l of Done t i q w _ \<Rightarrow> i = uid \<and> q = p \<and> w = Some v | _ \<Rightarrow> False)"

lemma challengeById_Some:
  assumes "chIds db"
  shows "challengeById i db = Some c \<longleftrightarrow> c \<in> set (challenges db) \<and> chId c = i"
proof
  assume "challengeById i db = Some c"
  then show "c \<in> set (challenges db) \<and> chId c = i" unfolding challengeById_def by (auto dest: find_SomeD)
next
  assume c: "c \<in> set (challenges db) \<and> chId c = i"
  then obtain d where d: "challengeById i db = Some d"
    unfolding challengeById_def by (cases "find (\<lambda>c. chId c = i) (challenges db)") (auto simp: find_None_iff)
  then have "d \<in> set (challenges db)" "chId d = i" unfolding challengeById_def by (auto dest: find_SomeD)
  then have "d = c" using c assms by (auto simp: chIds_def distinct_map dest: inj_onD)
  then show "challengeById i db = Some c" using d by simp
qed

lemma lockUser_Inr: "lockChallengeUser i db = Inr c \<Longrightarrow> challengeById i db = Some c"
  by (auto simp: lockChallengeUser_def split: option.splits if_splits)

lemma bump_Inr:
  assumes "BumpChallengeAttempt now i db = (Inr n, db')"
  obtains c where "challengeById i db = Some c" "challengeOk now db c" "chAttempts c < maxChallengeAttempts" "n = Suc (chAttempts c)"
    "db' = updateChallenge i (\<lambda>c. c\<lparr>chAttempts := Suc (chAttempts c)\<rparr>) db"
  using assms by (auto simp: BumpChallengeAttempt_def dest: lockUser_Inr split: sum.splits if_splits)

lemma chId_eq: "chIds db \<Longrightarrow> c \<in> set (challenges db) \<Longrightarrow> d \<in> set (challenges db) \<Longrightarrow> chId c = chId d \<Longrightarrow> c = d"
  by (auto simp: chIds_def distinct_map dest: inj_onD)

lemma charged_touch:
  assumes "charged uid p v T n db" "epochGrows (idn db) (idn db')" "challengeSeq db' = challengeSeq db"
    "challenges db' = map (\<lambda>c. if chId c = i then f c else c) (challenges db)"
    "c \<in> set (challenges db)" "chId c = i" "\<not> (chUser c = uid \<and> chPurpose c = p \<and> chVersion c = Some v)"
    and "\<And>c. chId (f c) = chId c \<and> chUser (f c) = chUser c \<and> chPurpose (f c) = chPurpose c \<and> chVersion (f c) = chVersion c"
  shows "charged uid p v T n db'"
proof (rule charged_map [OF assms(1,2,4,3)])
  fix d
  assume d: "d \<in> set (challenges db)" "chUser d = uid" "chPurpose d = p" "chVersion d = Some v"
  have ids: "chIds db" using assms(1) by (simp add: charged_def)
  have "chId d \<noteq> i"
  proof
    assume "chId d = i"
    then have "c = d" using chId_eq [OF ids assms(5) d(1)] assms(6) by simp
    then show False using assms(7) d by simp
  qed
  then show "chConsumed (if chId d = i then f d else d) = chConsumed d \<and> chExpires (if chId d = i then f d else d) = chExpires d \<and>
      chAttempts (if chId d = i then f d else d) = chAttempts d" by simp
qed (simp add: assms(8))

lemma chIds_same:
  "map chId (challenges db') = map chId (challenges db) \<Longrightarrow> challengeSeq db' = challengeSeq db \<Longrightarrow> chIds db \<Longrightarrow> chIds db'"
proof -
  have "chIds d \<longleftrightarrow> distinct (map chId (challenges d)) \<and> list_all (\<lambda>x. x < challengeSeq d) (map chId (challenges d))" for d
    by (simp add: chIds_def list_all_iff)
  then show "map chId (challenges db') = map chId (challenges db) \<Longrightarrow> challengeSeq db' = challengeSeq db \<Longrightarrow> chIds db \<Longrightarrow> chIds db'"
    by simp
qed

lemma charged_bump:
  assumes "charged uid p v T n db" "BumpChallengeAttempt now i db = (Inr k, db')" "challengeById i db = Some c"
  shows "charged uid p v T (if chUser c = uid \<and> chPurpose c = p \<and> chVersion c = Some v then Suc n else n) db'"
proof -
  from assms(2,3) have b: "challengeOk now db c" "chAttempts c < maxChallengeAttempts"
    "db' = updateChallenge i (\<lambda>c. c\<lparr>chAttempts := Suc (chAttempts c)\<rparr>) db"
    by (auto elim!: bump_Inr)
  have ch: "challenges db' = map (\<lambda>c. if chId c = i then c\<lparr>chAttempts := Suc (chAttempts c)\<rparr> else c) (challenges db)"
    by (simp add: b(3) updateChallenge_def)
  have ids: "chIds db" using assms(1) by (simp add: charged_def)
  then have c: "c \<in> set (challenges db)" "chId c = i" using assms(3) challengeById_Some [OF ids] by auto
  have g: "epochGrows (idn db) (idn db')" using assms(1) b(3) epochGrows_refl by (simp add: charged_def)
  show ?thesis
  proof (cases "chUser c = uid \<and> chPurpose c = p \<and> chVersion c = Some v")
    case False
    then show ?thesis using charged_touch [OF assms(1) g _ ch c] b(3) by auto
  next
    case True
    then have "\<not> epochOver uid v db" using b(1) epochOver_not_active by (auto simp: challengeOk_def)
    then obtain d where d: "unspent uid p v db = [d]" "chExpires d = T" "chAttempts d = n"
      using assms(1) by (auto simp: charged_def)
    have "c \<in> set (unspent uid p v db)" using True c b(1) by (simp add: unspent_def challengeOk_def challengeLive_def)
    then have "c = d" using d(1) by simp
    have "unspent uid p v db' = map (\<lambda>c. if chId c = i then c\<lparr>chAttempts := Suc (chAttempts c)\<rparr> else c) (unspent uid p v db)"
      by (rule unspent_map [OF ch]) auto
    then have u: "unspent uid p v db' = [d\<lparr>chAttempts := Suc n\<rparr>]" using d \<open>c = d\<close> c(2) by simp
    have "map chId (challenges db') = map chId (challenges db)" by (simp add: ch)
    then have "chIds db'" by (rule chIds_same [OF _ _ ids]) (simp add: b(3))
    then show ?thesis using True u d b(2,3) \<open>c = d\<close> assms(1) by (auto simp: charged_def epochFrom_def epochOver_def)
  qed
qed

lemma charged_hits:
  assumes "charged uid p v T n db" "epochGrows (idn db) (idn db')" "challengeSeq db' = challengeSeq db"
    "challenges db' = map (\<lambda>c. if hit c then c\<lparr>chConsumed := Some now\<rparr> else c) (challenges db)"
    "\<And>c. hit c \<Longrightarrow> \<not> (chUser c = uid \<and> chPurpose c = p \<and> chVersion c = Some v)"
  shows "charged uid p v T n db'"
  by (rule charged_map [OF assms(1,2,4,3)]) (use assms(5) in auto)

lemma charged_finish:
  assumes "charged uid p v T n db" "epochGrows (idn db) (idn db')" "challenges d = challenges db" "challengeSeq d = challengeSeq db"
    "finishPreAuthEnrollmentTx now family minted e d = Inr (issue, db')" "ecSession e = PreAuth ch ttl ip ua"
    "\<not> (ecUser e = uid \<and> PurposeEnroll2FA = p \<and> ecVersion e = v)"
  shows "charged uid p v T n db'"
proof -
  note f = finishPreAuth_Inr [OF assms(5)]
  obtain hit where h: "\<forall>c. hit c \<longrightarrow> chUser c = ecUser e \<and> chPurpose c = PurposeEnroll2FA \<and> chVersion c = Some (ecVersion e)"
    "challenges db' = map (\<lambda>c. if hit c then c\<lparr>chConsumed := Some now\<rparr> else c) (challenges d)"
    using f(9) assms(6) by auto
  show ?thesis
    by (rule charged_hits [OF assms(1,2) _ h(2) [unfolded assms(3)]]) (use h(1) assms(4,7) f(6) in auto)
qed

lemma charged_quiet_finish:
  assumes "charged uid p v T n db" "epochGrows (idn db) (idn db')" "challenges d = challenges db" "challengeSeq d = challengeSeq db"
    "finishPreAuthEnrollmentTx now family minted e d = Inr (issue, db')" "ecSession e = LiveSession sid"
  shows "charged uid p v T n db'"
  using charged_quiet [OF assms(1,2)] finishPreAuth_Inr [OF assms(5)] assms(3,4,6) by simp

lemma charged_step:
  assumes "tfStep smtp verify hashpw l db db'" "charged uid p v T n db" "labelTime l < T" "\<not> isDone uid p v l"
  shows "charged uid p v T (if isGuess uid p v l then Suc n else n) db'"
proof -
  have acc: "accountIds (idn db)" and ids: "chIds db" using assms(2) by (simp_all add: charged_def)
  note g = step_epochs [OF assms(1) acc]
  note quiet = charged_quiet [OF assms(2) g]
  from assms(1) show ?thesis
  proof cases
    case (create now tok nc i)
    then show ?thesis using charged_create [OF assms(2) create(2)] assms(3) by (simp add: isGuess_def labelTime_def)
  next
    case (bump now i k c)
    then show ?thesis using charged_bump [OF assms(2) bump(2,3)] by (auto simp: isGuess_def)
  next
    case (consume now i c)
    have b: "db' = updateChallenge i (\<lambda>c. c\<lparr>chConsumed := Some now\<rparr>) db"
      using consume(2) by (auto simp: ConsumeChallenge_def split: sum.splits if_splits)
    have c: "c \<in> set (challenges db)" "chId c = i" using consume(3) challengeById_Some [OF ids] by auto
    have "charged uid p v T n db'"
      by (rule charged_touch [OF assms(2) g _ _ c, of "\<lambda>c. c\<lparr>chConsumed := Some now\<rparr>"])
        (use assms(4) in \<open>simp_all add: b updateChallenge_def consume(1) isDone_def\<close>)
    then show ?thesis by (simp add: isGuess_def consume(1))
  next
    case (send i c db0 now h ttl cooldown ok mail k)
    have "challenges db' = map (\<lambda>c. if chId c = i then c\<lparr>chSends := Suc (chSends c)\<rparr> else c) (challenges db) \<and>
        challengeSeq db' = challengeSeq db"
      using send(4)
      by (auto simp: CreateChallengeEmailOTP_def Let_def runTx_Inr rbind_Inr_iff updateChallenge_def
          dest!: enqueue_frames split: sum.splits if_splits)
    then have "charged uid p v T n db'"
      by (intro charged_map [OF assms(2) g, of "\<lambda>c. if chId c = i then c\<lparr>chSends := Suc (chSends c)\<rparr> else c"]) auto
    then show ?thesis by (simp add: isGuess_def send(1))
  next
    case (startTotp now sp cipher nonce)
    then show ?thesis using quiet StartTOTP_Inr [OF startTotp(2)] by (simp add: isGuess_def)
  next
    case (liveTotp now family minted e pr r sid)
    from liveTotp(2) have "charged uid p v T n db'"
    proof (rule CompleteTOTP_Inr)
      fix db1 db2 issue
      assume k: "confirmTOTPRowTx now \<lparr>spUser = ecUser e, spSession = liveSessionID e, spVersion = ecVersion e\<rparr> pr db = Inr db1"
        "replaceRecoveryCodesTx (ecUser e) (ecHashes e) db1 = Inr db2"
        "finishPreAuthEnrollmentTx now family minted e db2 = Inr (issue, db')"
      show ?thesis
        by (rule charged_quiet_finish [OF assms(2) g _ _ k(3) liveTotp(3)])
          (simp_all add: replaceRecovery_frames [OF k(2)] confirmTOTP_Inr [OF k(1)])
    qed
    then show ?thesis by (simp add: isGuess_def liveTotp(1))
  next
    case (preTotp now family minted e pr r ch ttl ip ua)
    from preTotp(2) have "charged uid p v T n db'"
    proof (rule CompleteTOTP_Inr)
      fix db1 db2 issue
      assume k: "confirmTOTPRowTx now \<lparr>spUser = ecUser e, spSession = liveSessionID e, spVersion = ecVersion e\<rparr> pr db = Inr db1"
        "replaceRecoveryCodesTx (ecUser e) (ecHashes e) db1 = Inr db2"
        "finishPreAuthEnrollmentTx now family minted e db2 = Inr (issue, db')"
      show ?thesis
        by (rule charged_finish [OF assms(2) g _ _ k(3) preTotp(3)])
          (use assms(4) in \<open>simp_all add: replaceRecovery_frames [OF k(2)] confirmTOTP_Inr [OF k(1)] isDone_def preTotp(1)\<close>)
    qed
    then show ?thesis by (simp add: isGuess_def preTotp(1))
  next
    case (startEmail now sp m ok)
    then show ?thesis using quiet StartEmail_Inr [OF startEmail(2)] by (simp add: isGuess_def)
  next
    case (liveEmail now family minted e h r sid)
    from liveEmail(2) have "charged uid p v T n db'"
      by (rule CompleteEmail_Inr)
        (rule charged_quiet_finish [OF assms(2) g _ _ _ liveEmail(3)], simp_all add: spendEnrollment_Inr)
    then show ?thesis by (simp add: isGuess_def liveEmail(1))
  next
    case (preEmail now family minted e h r ch ttl ip ua)
    from preEmail(2) have "charged uid p v T n db'"
      by (rule CompleteEmail_Inr)
        (rule charged_finish [OF assms(2) g _ _ _ preEmail(3)],
          use assms(4) in \<open>simp_all add: spendEnrollment_Inr isDone_def preEmail(1)\<close>)
    then show ?thesis by (simp add: isGuess_def preEmail(1))
  next
    case (complete now family minted ch pr ttl ip ua r)
    from complete(2) have "charged uid p v T n db'"
    proof (rule Complete2FA_Inr)
      fix w c m db1 issue
      assume k: "chVersion ch = Some w" "c \<in> set (challenges db)" "chId c = chId ch" "chUser c = chUser ch"
        "chPurpose c = PurposeTOTP" "chVersion c = Some w" "consumeChallengeProofTx now ch pr db = Inr (m, db1)"
        "openSession now family minted (chUser ch) ttl ip ua
          (updateChallenge (chId ch) (\<lambda>c. c\<lparr>chConsumed := Some now\<rparr>) db1) = Inr (issue, db')"
      have "challenges db' = map (\<lambda>c. if chId c = chId ch then c\<lparr>chConsumed := Some now\<rparr> else c) (challenges db)"
        "challengeSeq db' = challengeSeq db"
        using openSession_frames(1,4) [OF k(8)] consumeChallengeProof_frames(2,5) [OF k(7)] by (simp_all add: updateChallenge_def)
      then show ?thesis
        by (intro charged_touch [OF assms(2) g _ _ k(2,3), of "\<lambda>c. c\<lparr>chConsumed := Some now\<rparr>"]) (use assms(4) k in \<open>auto simp: isDone_def complete(1)\<close>)
    qed
    then show ?thesis by (simp add: isGuess_def complete(1))
  next
    case (stepUpCode now sp m ok)
    then show ?thesis using quiet mintOtp_frames [OF stepUpCode_Inr(1) [OF stepUpCode(2)]] by (simp add: isGuess_def)
  next
    case (spend now w q)
    then show ?thesis using quiet consumeSecondFactor_frames [OF spend_Inr [OF spend(2)]] by (simp add: isGuess_def)
  next
    case (disableTotp now sp pw pp)
    from disableTotp(2) have "charged uid p v T n db'"
      by (rule DisableTOTP_Inr) (erule disableFactor_Inr, rule quiet, simp_all add: consumeSecondFactor_frames)
    then show ?thesis by (simp add: isGuess_def disableTotp(1))
  next
    case (disableEmail now sp pp)
    from disableEmail(2) have "charged uid p v T n db'"
      by (rule DisableEmail_Inr) (erule disableFactor_Inr, rule quiet, simp_all add: consumeSecondFactor_frames)
    then show ?thesis by (simp add: isGuess_def disableEmail(1))
  next
    case (regenerate now sp pw pp hs)
    from regenerate(2) have "charged uid p v T n db'"
      by (rule Regenerate_Inr) (rule quiet, simp_all add: consumeSecondFactor_frames replaceRecovery_frames)
    then show ?thesis by (simp add: isGuess_def regenerate(1))
  next
    case (verification now raw uid m ok)
    then show ?thesis using quiet mintOtp_frames [OF verification_Inr [OF verification(2)]] by (simp add: isGuess_def)
  next
    case (verified now tok w)
    from verified(2) have "charged uid p v T n db'" by (rule verified_Inr) (rule quiet)
    then show ?thesis by (simp add: isGuess_def verified(1))
  next
    case (resetLink now raw tok w ttl ok draft)
    from resetLink(2) have "charged uid p v T n db'" by (rule resetLink_Inr) (rule quiet, simp_all add: mintReset_Inr)
    then show ?thesis by (simp add: isGuess_def resetLink(1))
  next
    case (adminReset now raw tok w ttl ok draftFor)
    from adminReset(2) have "charged uid p v T n db'" by (rule adminReset_Inr) (rule quiet, simp_all add: mintReset_Inr)
    then show ?thesis by (simp add: isGuess_def adminReset(1))
  next
    case (reset now tk pw u)
    from reset(2) have "charged uid p v T n db'" by (rule reset_Inr) (rule quiet)
    then show ?thesis by (simp add: isGuess_def reset(1))
  next
    case (sweep retain now k)
    have "challenges db' = filter (\<lambda>c. \<not> chExpires c < now - retain) (challenges db)" "challengeSeq db' = challengeSeq db"
      using sweep(3) by (auto simp: SweepTwoFactor_def Let_def)
    then have "charged uid p v T n db'"
      by (intro charged_filter [OF assms(2) g]) (use assms(3) sweep(1,2) in \<open>auto simp: labelTime_def\<close>)
    then show ?thesis by (simp add: isGuess_def sweep(1))
  next
    case (elsewhere st now)
    then show ?thesis using quiet by (simp add: isGuess_def)
  next
    case (queued now ms sd)
    then show ?thesis using quiet by (simp add: isGuess_def)
  next
    case (sessionGone now sid)
    then show ?thesis using quiet by (simp add: isGuess_def)
  next
    case (accountGone now gone)
    have "charged uid p v T n db'"
      by (rule charged_filter [OF assms(2) g, of "\<lambda>c. chUser c \<noteq> gone"])
        (auto simp: accountGone epochOver_def cascadeUser_def list_all_iff)
    then show ?thesis by (simp add: isGuess_def accountGone(1))
  qed
qed

definition guesses :: "int \<Rightarrow> string \<Rightarrow> nat \<Rightarrow> tfLabel list \<Rightarrow> nat" where
  "guesses uid p v ls = length (filter (isGuess uid p v) ls)"

lemma charged_run:
  assumes "tfRun smtp verify hashpw ls db db'" "charged uid p v T n db"
    and "list_all (\<lambda>l. labelTime l < T \<and> \<not> isDone uid p v l) ls"
  shows "charged uid p v T (n + guesses uid p v ls) db'"
  using assms
proof (induction arbitrary: n rule: tfRun.induct)
  case (more l db db1 ls db2)
  from charged_step [OF more.hyps(1) more.prems(1)] more.prems(2)
  have "charged uid p v T (if isGuess uid p v l then Suc n else n) db1" by simp
  from more.IH [OF this] more.prems(2) show ?case by (auto simp: guesses_def split: if_splits)
qed (simp add: guesses_def)

lemma guesses_capped:
  assumes "accountIds (idn db0)" "chIds db0" "unspent uid p v db0 = []"
    and "CreateChallenge now tok nc db0 = (Inr i, db)"
    and "ncUser nc = uid" "ncPurpose nc = p" "ncVersion nc = v"
    and "tfRun smtp verify hashpw ls db db'"
    and "list_all (\<lambda>l. labelTime l < now + ncTTL nc \<and> \<not> isDone uid p v l) ls"
  shows "guesses uid p v ls \<le> 5"
proof -
  have "charged uid p v (now + ncTTL nc) 0 db"
    using assms(4)
  proof (rule create_Inr)
    fix prev c
    assume a: "activeAt (ncUser nc) (ncVersion nc) db0"
    assume k: "prev = loadPreviousChallengeTx now nc db0" "i = challengeSeq db0" "chId c = i" "chUser c = ncUser nc"
      "chPurpose c = ncPurpose nc" "chVersion c = Some (ncVersion nc)" "chConsumed c = None"
      "chAttempts c = (case prev of None \<Rightarrow> 0 | Some p \<Rightarrow> chAttempts p)"
      "chExpires c = (case prev of None \<Rightarrow> now + ncTTL nc | Some p \<Rightarrow> chExpires p)"
      "challenges db = supersedeChallenges now (ncUser nc) (ncPurpose nc) (challenges db0) @ [c]"
      "challengeSeq db = i + 1" "idn db = idn db0"
    have "loadPreviousChallengeTx now nc db0 = newest (filter (challengeLive now) (unspent uid p v db0))"
      unfolding loadPreviousChallengeTx_def unspent_def filter_filter assms(5-7)
      by (intro arg_cong [where f = newest] filter_cong) (auto simp: challengeLive_def)
    then have prev: "prev = None" using k(1) assms(3) by (simp add: newest_def)
    have "unspent uid p v db = [c]"
      unfolding unspent_def k(10) filter_append supersede_unspent using k(4-7) assms(5-7) by simp
    moreover have "chIds db"
    proof -
      have "set (map chId (challenges db0)) \<subseteq> {..<challengeSeq db0}" "distinct (map chId (challenges db0))"
        using assms(2) by (auto simp: chIds_def list_all_iff)
      then have "distinct (map chId (challenges db))" "\<forall>x\<in>set (map chId (challenges db)). x < challengeSeq db"
        unfolding k(10,11) map_append supersede_ids using k(2,3) by auto
      then show ?thesis by (auto simp: chIds_def list_all_iff)
    qed
    moreover obtain u where u: "u \<in> set (users (idn db0))" "uId u = uid" "uTokenVersion u = v"
      using a assms(5,7) by (auto simp: activeAt_def list_ex_iff)
    have "w = u" if "w \<in> set (users (idn db0))" "uId w = uid" for w
      using that u assms(1) by (auto simp: accountIds_def distinct_map dest: inj_onD)
    then have "epochFrom uid v db" using u assms(1) by (fastforce simp: epochFrom_def accountIds_def list_all_iff k(12))
    ultimately show ?thesis using k(8,9,12) assms(1) prev by (simp add: charged_def)
  qed
  from charged_run [OF assms(8) this assms(9)] show ?thesis by (simp add: charged_def maxChallengeAttempts_def)
qed

text \<open>
  C8. A second factor can be guessed five times and no more, between two completions.  Take a challenge made
  when its account, purpose and credential epoch had no unspent one.  Until it expires, and as long as no
  challenge of that account, purpose and epoch is completed, the guesses charged to the three are at most five
  in all, whatever else happens in between: more password entries that replace the challenge, mailed codes,
  enrollments, resets, sweeps, changes of other accounts.  A completion ends the count: the next challenge
  starts a budget of its own.
\<close>

theorem second_factor_guesses_capped:
  assumes "accountIds (idn db0)" "chIds db0" "unspent uid p v db0 = []"
    and "CreateChallenge now tok nc db0 = (Inr i, db)"
    and "ncUser nc = uid" "ncPurpose nc = p" "ncVersion nc = v"
    and "tfRun smtp verify hashpw ls db db'"
    and "list_all (\<lambda>l. labelTime l < now + ncTTL nc \<and> \<not> isDone uid p v l) ls"
  shows "guesses uid p v ls \<le> 5"
  by (rule guesses_capped [OF assms])

text \<open>One account, its first challenge, and a guess.\<close>

definition demoAuth :: authdb where
  "demoAuth = \<lparr>idn = demoDb, challenges = [], totpRows = [], emailFactors = [], emailOtps = [], recoveryCodes = [],
     resets = [], mails = [], challengeSeq = 1,
     side = \<lparr>oauthStates = [], oauthSeq = 1, emailMoves = [], emailMoveSeq = 1, apiDb = \<lparr>apiTokens = [], tokenSeq = 1\<rparr>\<rparr>\<rparr>"

definition demoChallenge :: newChallenge where
  "demoChallenge = \<lparr>ncUser = 1, ncPurpose = PurposeTOTP, ncVersion = 0, ncTTL = 600, ncMailbox = False, ncOauth = None\<rparr>"

lemma demo_active: "activeAt 1 0 demoAuth"
  by (simp add: activeAt_def demoAuth_def demoDb_def demoUser_def)

lemma second_factor_guesses_capped_witness:
  "\<exists>db db'. CreateChallenge 1 ''t'' demoChallenge demoAuth = (Inr 1, db) \<and>
     tfRun True (=) Some [Guess 5 1 PurposeTOTP (Some 0)] db db' \<and> guesses 1 PurposeTOTP 0 [Guess 5 1 PurposeTOTP (Some 0)] \<le> 5"
proof -
  define db where "db = snd (CreateChallenge 1 ''t'' demoChallenge demoAuth)"
  define db' where "db' = snd (BumpChallengeAttempt 5 1 db)"
  have act: "activeAt 1 0 \<lparr>idn = demoDb, challenges = cs, totpRows = [], emailFactors = [], emailOtps = [], recoveryCodes = [],
     resets = [], mails = [], challengeSeq = 2,
     side = \<lparr>oauthStates = [], oauthSeq = 1, emailMoves = [], emailMoveSeq = 1, apiDb = \<lparr>apiTokens = [], tokenSeq = 1\<rparr>\<rparr>\<rparr>" for cs
    by (simp add: activeAt_def demoDb_def demoUser_def)
  have c: "CreateChallenge 1 ''t'' demoChallenge demoAuth = (Inr 1, db)"
    and cs: "\<exists>c. challengeById 1 db = Some c \<and> chUser c = 1 \<and> chPurpose c = PurposeTOTP \<and> chVersion c = Some 0"
    and b: "BumpChallengeAttempt 5 1 db = (Inr 1, db')"
    using demo_active
    by (simp_all add: db_def db'_def CreateChallenge_def demoChallenge_def Let_def demoAuth_def PurposeTOTP_def
        loadPreviousChallengeTx_def newest_def supersedeChallenges_def challengeById_def BumpChallengeAttempt_def
        lockChallengeUser_def userById_def demoDb_def demoUser_def challengeOk_def challengeLive_def activeAt_def
        maxChallengeAttempts_def updateChallenge_def)
  from cs obtain ch where ch: "challengeById 1 db = Some ch" "chUser ch = 1" "chPurpose ch = PurposeTOTP" "chVersion ch = Some 0"
    by blast
  have run: "tfRun True (=) Some [Guess 5 1 PurposeTOTP (Some 0)] db db'"
    using tfStep.bump [OF b ch(1)] ch by (auto intro: tfRun.intros)
  have "guesses 1 PurposeTOTP 0 [Guess 5 1 PurposeTOTP (Some 0)] \<le> 5"
    by (rule second_factor_guesses_capped [OF _ _ _ c _ _ _ run])
      (simp_all add: demoAuth_def accountIds_def demoDb_def demoUser_def chIds_def unspent_def demoChallenge_def
        labelTime_def isDone_def)
  with c run show ?thesis by blast
qed

end
