(* ===== verification/TwoFactorSpend.thy ===== *)
theory TwoFactorSpend
  imports TwoFactorBudget
begin

text \<open>
  What happens to the proofs of a second factor over time: no step brings back a spent authenticator counter,
  recovery code or mailed code, a mailed code never satisfies a challenge whose mailbox was already used,
  recovery codes exist only beside a confirmed factor, and a password reset voids what came before it.
\<close>

section \<open>Rows across one step\<close>

text \<open>The label installs the recovery code \<open>h\<close>, or mails the code \<open>h\<close>.\<close>

definition codesLabel :: "tfLabel \<Rightarrow> int \<Rightarrow> string \<Rightarrow> bool" where
  "codesLabel l uid h = (case l of Coded _ u hs \<Rightarrow> u = uid \<and> h \<in> set hs | Done _ u _ _ hs \<Rightarrow> u = uid \<and> h \<in> set hs | _ \<Rightarrow> False)"

definition seedsLabel :: "tfLabel \<Rightarrow> int \<Rightarrow> string \<Rightarrow> string \<Rightarrow> bool" where
  "seedsLabel l uid cipher nonce = (case l of Seeded _ u c n \<Rightarrow> u = uid \<and> c = cipher \<and> n = nonce | _ \<Rightarrow> False)"

definition sendsLabel :: "tfLabel \<Rightarrow> int \<Rightarrow> string \<Rightarrow> bool" where
  "sendsLabel l uid h = (case l of Sent _ u g \<Rightarrow> u = uid \<and> g = h | _ \<Rightarrow> False)"

lemmas labels = codesLabel_def seedsLabel_def sendsLabel_def

text \<open>A row of one state continues a row of the state before.\<close>

definition totpFrom :: "totpRow \<Rightarrow> totpRow \<Rightarrow> bool" where
  "totpFrom r r' = (toUser r' = toUser r \<and> toCipher r' = toCipher r \<and> toNonce r' = toNonce r \<and>
     (toConfirmed r \<noteq> None \<longrightarrow> toConfirmed r' \<noteq> None \<and> (\<forall>n. toLast r = Some n \<longrightarrow> (\<exists>m\<ge>n. toLast r' = Some m))))"

definition codeFrom :: "recoveryCode \<Rightarrow> recoveryCode \<Rightarrow> bool" where
  "codeFrom r r' = (rcUser r' = rcUser r \<and> rcHash r' = rcHash r \<and> (rcUsed r \<noteq> None \<longrightarrow> rcUsed r' \<noteq> None))"

definition otpFrom :: "emailOtp \<Rightarrow> emailOtp \<Rightarrow> bool" where
  "otpFrom r r' = (eoUser r' = eoUser r \<and> eoHash r' = eoHash r \<and> eoPurpose r' = eoPurpose r \<and>
     (eoConsumed r' = None \<longrightarrow> eoConsumed r = None \<and> eoChallenge r' = eoChallenge r))"

definition challengeFrom :: "challenge \<Rightarrow> challenge \<Rightarrow> bool" where
  "challengeFrom c c' = (chId c' = chId c \<and> chUser c' = chUser c \<and> chPurpose c' = chPurpose c \<and> chVersion c' = chVersion c \<and>
     chMailbox c' = chMailbox c)"

lemmas froms = totpFrom_def codeFrom_def otpFrom_def challengeFrom_def

lemma from_refl [simp]: "totpFrom r r" "codeFrom q q" "otpFrom o' o'" "challengeFrom c c"
  by (auto simp: froms)

lemma from_in:
  "r \<in> set rs \<Longrightarrow> \<exists>q\<in>set rs. totpFrom q r" "c \<in> set cs \<Longrightarrow> \<exists>q\<in>set cs. codeFrom q c"
  "o' \<in> set os \<Longrightarrow> \<exists>q\<in>set os. otpFrom q o'" "h \<in> set hs \<Longrightarrow> \<exists>q\<in>set hs. challengeFrom q h"
  by (auto intro: from_refl)

text \<open>Every new row is minted by its label, or continues an old one.\<close>

definition totpKept :: "tfLabel \<Rightarrow> authdb \<Rightarrow> authdb \<Rightarrow> bool" where
  "totpKept l db db' = (\<forall>r'\<in>set (totpRows db'). (\<exists>r\<in>set (totpRows db). totpFrom r r') \<or>
     seedsLabel l (toUser r') (toCipher r') (toNonce r'))"

definition codesKept :: "tfLabel \<Rightarrow> authdb \<Rightarrow> authdb \<Rightarrow> bool" where
  "codesKept l db db' = (\<forall>r'\<in>set (recoveryCodes db'). (\<exists>r\<in>set (recoveryCodes db). codeFrom r r') \<or>
     codesLabel l (rcUser r') (rcHash r'))"

definition otpsKept :: "tfLabel \<Rightarrow> authdb \<Rightarrow> authdb \<Rightarrow> bool" where
  "otpsKept l db db' = (\<forall>r'\<in>set (emailOtps db'). (\<exists>r\<in>set (emailOtps db). otpFrom r r') \<or>
     (if eoChallenge r' = None then eoPurpose r' \<noteq> OTPPurposeLogin2FA
      else sendsLabel l (eoUser r') (eoHash r') \<and>
        (\<exists>c\<in>set (challenges db). eoChallenge r' = Some (chId c) \<and> chPurpose c = PurposeTOTP \<and> \<not> chMailbox c)))"

definition challengesKept :: "authdb \<Rightarrow> authdb \<Rightarrow> bool" where
  "challengesKept db db' = (\<forall>c'\<in>set (challenges db'). (\<exists>c\<in>set (challenges db). challengeFrom c c') \<or>
     chId c' = challengeSeq db \<and> (\<exists>v. chVersion c' = Some v \<and> activeAt (chUser c') v db))"

lemmas kepts = totpKept_def codesKept_def otpsKept_def challengesKept_def

lemma totpKept_same: "totpRows db' = totpRows db \<Longrightarrow> totpKept l db db'"
  by (auto simp: totpKept_def intro: from_refl)

lemma totpKept_sub: "set (totpRows db') \<subseteq> set (totpRows db) \<Longrightarrow> totpKept l db db'"
  by (auto simp: totpKept_def intro: from_refl)

lemma codesKept_sub: "set (recoveryCodes db') \<subseteq> set (recoveryCodes db) \<Longrightarrow> codesKept l db db'"
  by (auto simp: codesKept_def intro: from_refl)

lemma otpsKept_sub: "set (emailOtps db') \<subseteq> set (emailOtps db) \<Longrightarrow> otpsKept l db db'"
  by (auto simp: otpsKept_def intro: from_refl)

lemma challengesKept_sub: "set (challenges db') \<subseteq> set (challenges db) \<Longrightarrow> challengesKept db db'"
  by (auto simp: challengesKept_def intro: from_refl)

lemma challengesKept_map:
  "challenges db' = map f (challenges db) \<Longrightarrow> (\<And>c. challengeFrom c (f c)) \<Longrightarrow> challengesKept db db'"
  by (auto simp: challengesKept_def)

lemma totpKept_map:
  "totpRows db' = map f (totpRows db) \<Longrightarrow> (\<And>r. totpFrom r (f r)) \<Longrightarrow> totpKept l db db'"
  by (auto simp: totpKept_def)

lemma otpsKept_spend: "emailOtps db' = emailOtps (spendOtps now P db) \<Longrightarrow> otpsKept l db db'"
  by (auto simp: otpsKept_def spendOtps_def otpFrom_def)

lemma otpsKept_mint:
  assumes "emailOtps db' = emailOtps (spendOtps now P db) @ [o']" "eoChallenge o' = None" "eoPurpose o' \<noteq> OTPPurposeLogin2FA"
  shows "otpsKept l db db'"
  using assms by (auto simp: otpsKept_def spendOtps_def otpFrom_def)

lemma codesKept_replace:
  assumes "recoveryCodes db' = filter P (recoveryCodes db) @ map (\<lambda>h. \<lparr>rcUser = uid, rcHash = h, rcUsed = None\<rparr>) hs"
    "\<And>h. h \<in> set hs \<Longrightarrow> codesLabel l uid h"
  shows "codesKept l db db'"
  using assms by (auto simp: codesKept_def intro: from_refl)

text \<open>What spending a proof may do.\<close>

lemma spend_totp_kept:
  assumes "consumeTOTPProofIfCurrentTx uid pr db = Some db'"
  shows "totpKept l db db'"
  using consumeTotp_frames(8) [OF assms] by (auto simp: totpKept_def totpFrom_def totpHit_def split: option.splits)

lemma spend_recovery_kept:
  assumes "spendRecovery now uid h db = Some db'"
  shows "codesKept l db db'"
  using spendRecovery_frames(8) [OF assms] by (auto simp: codesKept_def codeFrom_def)

lemma spendProof_kept:
  assumes "consumeSecondFactorTx now uid p db = Inr db'"
  shows "totpKept l db db'" "codesKept l db db'" "otpsKept l db db'"
  using assms
  by (cases rule: consumeSecondFactor_cases;
      auto intro: spend_totp_kept spend_recovery_kept totpKept_same codesKept_sub otpsKept_sub otpsKept_spend
        simp: consumeTotp_frames spendRecovery_frames)+

lemma spendChallenge_kept:
  assumes "consumeChallengeProofTx now ch p db = Inr (m, db')"
  shows "totpKept l db db'" "codesKept l db db'" "otpsKept l db db'"
  using assms
  by (cases rule: consumeChallengeProof_cases;
      auto intro: spend_totp_kept spend_recovery_kept totpKept_same codesKept_sub otpsKept_sub otpsKept_spend
        simp: consumeTotp_frames spendRecovery_frames)+

text \<open>The tables a later part of a transaction leaves alone.\<close>

lemma kept_cong:
  "totpRows d' = totpRows db' \<Longrightarrow> totpKept l db db' \<Longrightarrow> totpKept l db d'"
  "recoveryCodes d' = recoveryCodes db' \<Longrightarrow> codesKept l db db' \<Longrightarrow> codesKept l db d'"
  "emailOtps d' = emailOtps db' \<Longrightarrow> otpsKept l db db' \<Longrightarrow> otpsKept l db d'"
  "challenges d' = challenges db' \<Longrightarrow> challengesKept db db' \<Longrightarrow> challengesKept db d'"
  by (simp_all add: kepts)

lemma confirm_kept:
  assumes "confirmTOTPRowTx now sp pr db = Inr db'"
  shows "totpKept l db db'"
proof -
  obtain hit where "\<forall>r. hit r \<longrightarrow> toUser r = spUser sp \<and> toConfirmed r = None"
    "totpRows db' = map (\<lambda>r. if hit r then r\<lparr>toConfirmed := Some now, toLast := Some (tpCounter pr), toSession := None\<rparr> else r) (totpRows db)"
    using confirmTOTP_Inr(8) [OF assms] by auto
  note h = this
  show ?thesis by (rule totpKept_map [OF h(2)]) (use h(1) in \<open>auto simp: totpFrom_def\<close>)
qed

lemma finish_challenges_kept:
  assumes "finishPreAuthEnrollmentTx now family minted e db = Inr (issue, db')"
  shows "challengesKept db db'"
proof (cases "ecSession e")
  case (LiveSession s)
  then show ?thesis using finishPreAuth_Inr(9) [OF assms] by (simp add: challengesKept_sub)
next
  case (PreAuth ch ttl ip ua)
  then obtain hit where "challenges db' = map (\<lambda>c. if hit c then c\<lparr>chConsumed := Some now\<rparr> else c) (challenges db)"
    using finishPreAuth_Inr(9) [OF assms] by auto
  then show ?thesis by (rule challengesKept_map) (simp add: challengeFrom_def)
qed

lemma send_Inr:
  assumes "CreateChallengeEmailOTP now i h ttl cooldown ok mail db = (Inr k, db')"
  obtains c where "challengeById i db = Some c" "challengeOk now db c"
    "challenges db' = map (\<lambda>c. if chId c = i then c\<lparr>chSends := Suc (chSends c)\<rparr> else c) (challenges db)"
    "emailOtps db' = emailOtps (spendOtps now (\<lambda>o'. eoUser o' = chUser c \<and> eoPurpose o' = OTPPurposeLogin2FA) db) @
       [\<lparr>eoUser = chUser c, eoChallenge = Some i, eoPurpose = OTPPurposeLogin2FA, eoHash = h, eoCreated = now,
         eoExpires = now + ttl, eoConsumed = None\<rparr>]"
    "totpRows db' = totpRows db" "recoveryCodes db' = recoveryCodes db" "emailFactors db' = emailFactors db"
    "challengeSeq db' = challengeSeq db" "idn db' = idn db"
proof -
  obtain c where c: "lockChallengeUser i db = Inr c" "challengeOk now db c"
    and e: "enqueueDraft ok mail []
       (let db2 = spendOtps now (\<lambda>o'. eoUser o' = chUser c \<and> eoPurpose o' = OTPPurposeLogin2FA)
              (updateChallenge i (\<lambda>c. c\<lparr>chSends := Suc (chSends c)\<rparr>) db)
        in db2\<lparr>emailOtps := emailOtps db2 @ [\<lparr>eoUser = chUser c, eoChallenge = Some i,
             eoPurpose = OTPPurposeLogin2FA, eoHash = h, eoCreated = now, eoExpires = now + ttl, eoConsumed = None\<rparr>]\<rparr>) = Inr db'"
    using assms by (auto simp: CreateChallengeEmailOTP_def Let_def runTx_Inr rbind_Inr_iff split: sum.splits if_splits)
  show thesis
    by (rule that [OF lockUser_Inr [OF c(1)] c(2)])
      (use enqueue_frames [OF e] in \<open>simp_all add: Let_def updateChallenge_def spendOtps_def\<close>)
qed

section \<open>No step brings a spent proof back\<close>

lemma enroll_kept:
  assumes "confirmTOTPRowTx now sp pr db = Inr db1" "replaceRecoveryCodesTx (ecUser e) (ecHashes e) db1 = Inr db2"
    "finishPreAuthEnrollmentTx now family minted e db2 = Inr (issue, db')" "\<And>h. h \<in> set (ecHashes e) \<Longrightarrow> codesLabel l (ecUser e) h"
  shows "totpKept l db db'" "codesKept l db db'" "otpsKept l db db'" "challengesKept db db'"
proof -
  note c = confirmTOTP_Inr [OF assms(1)] and r = replaceRecovery_frames [OF assms(2)] and f = finishPreAuth_Inr [OF assms(3)]
  show "totpKept l db db'" by (rule kept_cong(1) [OF _ confirm_kept [OF assms(1)]]) (simp add: f r)
  show "codesKept l db db'" by (rule codesKept_replace [OF _ assms(4)]) (simp_all add: f r c)
  show "otpsKept l db db'" by (rule otpsKept_sub) (simp add: f r c)
  show "challengesKept db db'" using finish_challenges_kept [OF assms(3)] by (simp add: challengesKept_def activeAt_def r c)
qed

lemma enrollEmail_kept:
  assumes "spendEmailFactorEnrollmentTx now e h db = Inr db1"
    "finishPreAuthEnrollmentTx now family minted e db1 = Inr (issue, db')" "\<And>h. h \<in> set (ecHashes e) \<Longrightarrow> codesLabel l (ecUser e) h"
  shows "totpKept l db db'" "codesKept l db db'" "otpsKept l db db'" "challengesKept db db'"
proof -
  note s = spendEnrollment_Inr [OF assms(1)] and f = finishPreAuth_Inr [OF assms(2)]
  show "totpKept l db db'" by (rule totpKept_same) (simp add: f s)
  show "codesKept l db db'" by (rule codesKept_replace [OF _ assms(3)]) (simp_all add: f s)
  show "otpsKept l db db'" by (rule otpsKept_spend) (simp add: f s)
  show "challengesKept db db'" using finish_challenges_kept [OF assms(2)] by (simp add: challengesKept_def activeAt_def s)
qed

lemma disable_kept:
  assumes "consumeSecondFactorTx now (spUser sp) p db = Inr db1" "disableFactorTx now sp k db1 = Inr db'"
  shows "totpKept l db db'" "codesKept l db db'" "otpsKept l db db'" "challengesKept db db'"
proof -
  note s = spendProof_kept [OF assms(1), of l] consumeSecondFactor_frames [OF assms(1)]
  from assms(2) have "set (totpRows db') \<subseteq> set (totpRows db1) \<and> set (recoveryCodes db') \<subseteq> set (recoveryCodes db1) \<and>
      set (emailOtps db') \<subseteq> set (emailOtps db1) \<and> challenges db' = challenges db1"
    by (rule disableFactor_Inr) (auto simp: dropFactor_def split: factorKind.splits if_splits)
  then show "totpKept l db db'" "codesKept l db db'" "otpsKept l db db'" "challengesKept db db'"
    using s by (auto simp: kepts intro: from_in)
qed

lemma same_kept:
  "totpRows db' = totpRows db \<Longrightarrow> recoveryCodes db' = recoveryCodes db \<Longrightarrow> emailOtps db' = emailOtps db \<Longrightarrow>
   challenges db' = challenges db \<Longrightarrow> totpKept l db db' \<and> codesKept l db db' \<and> otpsKept l db db' \<and> challengesKept db db'"
  by (simp add: totpKept_same codesKept_sub otpsKept_sub challengesKept_sub)

lemma mint_kept:
  assumes "mintOtp now uid purpose m ok raw db = Inr ((), db')" "purpose \<noteq> OTPPurposeLogin2FA"
  shows "totpKept l db db' \<and> codesKept l db db' \<and> otpsKept l db db' \<and> challengesKept db db'"
  using mintOtp_frames [OF assms(1)] assms(2)
  by (auto intro!: totpKept_same codesKept_sub challengesKept_sub otpsKept_mint)

lemma mintReset_kept:
  assumes "mintReset now raw tok u ttl ok draft db = Inr ((), db')"
  shows "totpKept l db db' \<and> codesKept l db db' \<and> otpsKept l db db' \<and> challengesKept db db'"
  by (rule same_kept) (simp_all add: mintReset_Inr [OF assms])

lemma create_kept:
  assumes "CreateChallenge now tok nc db = (Inr i, db')"
  shows "totpKept l db db' \<and> codesKept l db db' \<and> otpsKept l db db' \<and> challengesKept db db'"
  using assms
proof (rule create_Inr)
  fix prev and c :: challenge
  assume a: "activeAt (ncUser nc) (ncVersion nc) db" "chUser c = ncUser nc" "chVersion c = Some (ncVersion nc)"
  assume k: "i = challengeSeq db" "chId c = i"
    "challenges db' = supersedeChallenges now (ncUser nc) (ncPurpose nc) (challenges db) @ [c]"
    "emailOtps db' = (case prev of None \<Rightarrow> emailOtps db | Some p \<Rightarrow> inheritChallengeCodesTx now (chId p) i (emailOtps db))"
    "totpRows db' = totpRows db" "recoveryCodes db' = recoveryCodes db"
  have "challengeFrom d (superseded now (ncUser nc) (ncPurpose nc) d)" for d
    by (simp add: challengeFrom_def superseded_simps)
  then have "challengesKept db db'" using a k(1-3) by (auto simp: challengesKept_def supersede_map)
  moreover have "otpsKept l db db'"
    using k(4) by (cases prev) (auto simp: otpsKept_def inheritChallengeCodesTx_def otpFrom_def split: option.splits)
  ultimately show ?thesis using k(5,6) by (simp add: totpKept_same codesKept_sub)
qed

lemma update_kept:
  assumes "db' = updateChallenge i f db" "\<And>c. challengeFrom c (f c)"
  shows "totpKept l db db' \<and> codesKept l db db' \<and> otpsKept l db db' \<and> challengesKept db db'"
proof -
  have "challengesKept db db'"
    by (rule challengesKept_map [of _ "\<lambda>c. if chId c = i then f c else c"]) (simp_all add: assms updateChallenge_def)
  then show ?thesis by (simp add: assms(1) totpKept_same codesKept_sub otpsKept_sub)
qed

lemma complete_kept:
  assumes "Complete2FA now family minted ch pr ttl ip ua db = (Inr r, db')"
  shows "totpKept l db db' \<and> codesKept l db db' \<and> otpsKept l db db' \<and> challengesKept db db'"
  using assms
proof (rule Complete2FA_Inr)
  fix m db1 issue
  let ?u = "updateChallenge (chId ch) (\<lambda>c. c\<lparr>chConsumed := Some now\<rparr>) db1"
  assume k: "consumeChallengeProofTx now ch pr db = Inr (m, db1)"
    "openSession now family minted (chUser ch) ttl ip ua ?u = Inr (issue, db')"
  note o = openSession_frames [OF k(2)] and s = spendChallenge_kept [OF k(1), of l]
  have "challenges db' = map (\<lambda>c. if chId c = chId ch then c\<lparr>chConsumed := Some now\<rparr> else c) (challenges db)"
    using o(1) consumeChallengeProof_frames(2) [OF k(1)] by (simp add: updateChallenge_def)
  then have "challengesKept db db'" by (rule challengesKept_map) (simp add: challengeFrom_def)
  then show ?thesis using s o by (auto intro: kept_cong)
qed

lemma send_kept:
  assumes "challengeById i db = Some c" "chPurpose c = PurposeTOTP" "\<not> chMailbox c"
    "CreateChallengeEmailOTP now i h ttl cooldown ok mail db = (Inr k, db')"
  shows "totpKept (Sent now (chUser c) h) db db' \<and> codesKept (Sent now (chUser c) h) db db' \<and>
    otpsKept (Sent now (chUser c) h) db db' \<and> challengesKept db db'"
  using assms(4)
proof (rule send_Inr)
  fix d
  assume d: "challengeById i db = Some d"
    and t: "challenges db' = map (\<lambda>c. if chId c = i then c\<lparr>chSends := Suc (chSends c)\<rparr> else c) (challenges db)"
      "emailOtps db' = emailOtps (spendOtps now (\<lambda>o'. eoUser o' = chUser d \<and> eoPurpose o' = OTPPurposeLogin2FA) db) @
       [\<lparr>eoUser = chUser d, eoChallenge = Some i, eoPurpose = OTPPurposeLogin2FA, eoHash = h, eoCreated = now,
         eoExpires = now + ttl, eoConsumed = None\<rparr>]"
      "totpRows db' = totpRows db" "recoveryCodes db' = recoveryCodes db"
  have c: "c \<in> set (challenges db)" "chId c = i" "d = c"
    using assms(1) d unfolding challengeById_def by (auto dest: find_SomeD)
  have "challengesKept db db'" by (rule challengesKept_map [OF t(1)]) (simp add: challengeFrom_def)
  moreover have "otpsKept (Sent now (chUser c) h) db db'"
  proof -
    have "\<exists>c'\<in>set (challenges db). i = chId c' \<and> chPurpose c' = PurposeTOTP \<and> \<not> chMailbox c'"
      using c(1,2) assms(2,3) by blast
    moreover have "otpsKept (Sent now (chUser c) h) db (spendOtps now (\<lambda>o'. eoUser o' = chUser d \<and> eoPurpose o' = OTPPurposeLogin2FA) db)"
      by (rule otpsKept_spend) (rule refl)
    ultimately show ?thesis using c(3) unfolding otpsKept_def t(2) by (simp add: sendsLabel_def)
  qed
  ultimately show ?thesis by (simp add: totpKept_same codesKept_sub t)
qed

lemma step_kept:
  assumes "tfStep smtp verify hashpw l db db'"
  shows "totpKept l db db' \<and> codesKept l db db' \<and> otpsKept l db db' \<and> challengesKept db db'"
  using assms
proof cases
  case (create now tok nc i)
  then show ?thesis by (simp add: create_kept)
next
  case (bump now i n c)
  from bump(2) show ?thesis by (rule bump_Inr) (erule update_kept, simp add: challengeFrom_def)
next
  case (consume now i c)
  then show ?thesis
    by (auto simp: ConsumeChallenge_def challengeFrom_def split: sum.splits if_splits intro!: update_kept [OF refl, THEN conjunct1]
        update_kept [OF refl, THEN conjunct2, THEN conjunct1] update_kept [OF refl, THEN conjunct2, THEN conjunct2, THEN conjunct1]
        update_kept [OF refl, THEN conjunct2, THEN conjunct2, THEN conjunct2])
next
  case (send i c db0 now h ttl cooldown ok mail k)
  then show ?thesis using send_kept [OF send(2)] by (simp add: emailFactorAvailable_def)
next
  case (startTotp now sp cipher nonce)
  note t = StartTOTP_Inr [OF startTotp(2)]
  from t(8) obtain row where row: "toUser row = spUser sp" "toCipher row = cipher" "toNonce row = nonce"
    and "totpRows db' = totpRows db @ [row] \<or> totpRows db' = map (\<lambda>r. if toUser r = spUser sp then row else r) (totpRows db)"
    by blast
  then have in_row: "\<forall>r\<in>set (totpRows db'). r = row \<or> r \<in> set (totpRows db)" by auto
  have "totpKept l db db'"
    unfolding totpKept_def using in_row row startTotp(1) from_in(1) by (fastforce simp: seedsLabel_def)
  then show ?thesis using t by (simp add: codesKept_sub otpsKept_sub challengesKept_sub)
next
  case (liveTotp now family minted e pr r sid)
  have "codesLabel l (ecUser e) h" if "h \<in> set (ecHashes e)" for h using that liveTotp(1) by (simp add: codesLabel_def)
  then show ?thesis by (rule_tac CompleteTOTP_Inr [OF liveTotp(2)]) (intro conjI; erule (2) enroll_kept)
next
  case (preTotp now family minted e pr r ch ttl ip ua)
  have "codesLabel l (ecUser e) h" if "h \<in> set (ecHashes e)" for h using that preTotp(1) by (simp add: codesLabel_def)
  then show ?thesis by (rule_tac CompleteTOTP_Inr [OF preTotp(2)]) (intro conjI; erule (2) enroll_kept)
next
  case (startEmail now sp m ok)
  note t = StartEmail_Inr [OF startEmail(2)]
  have "otpsKept l db db'" by (rule otpsKept_mint [OF t(8)]) (simp_all add: purpose_names)
  then show ?thesis using t by (simp add: totpKept_same codesKept_sub challengesKept_sub)
next
  case (liveEmail now family minted e h r sid)
  have "codesLabel l (ecUser e) h" if "h \<in> set (ecHashes e)" for h using that liveEmail(1) by (simp add: codesLabel_def)
  then show ?thesis by (rule_tac CompleteEmail_Inr [OF liveEmail(2)]) (intro conjI; erule (1) enrollEmail_kept)
next
  case (preEmail now family minted e h r ch ttl ip ua)
  have "codesLabel l (ecUser e) h" if "h \<in> set (ecHashes e)" for h using that preEmail(1) by (simp add: codesLabel_def)
  then show ?thesis by (rule_tac CompleteEmail_Inr [OF preEmail(2)]) (intro conjI; erule (1) enrollEmail_kept)
next
  case (complete now family minted ch pr ttl ip ua r)
  then show ?thesis by (simp add: complete_kept)
next
  case (stepUpCode now sp m ok)
  show ?thesis by (rule mint_kept [OF stepUpCode_Inr(1) [OF stepUpCode(2)]]) (simp add: purpose_names)
next
  case (spend now uid p)
  note s = spend_Inr [OF spend(2)]
  show ?thesis using spendProof_kept [OF s] consumeSecondFactor_frames [OF s] by (simp add: challengesKept_sub)
next
  case (disableTotp now sp pw p)
  from disableTotp(2) show ?thesis by (rule DisableTOTP_Inr) (intro conjI; erule (1) disable_kept)
next
  case (disableEmail now sp p)
  from disableEmail(2) show ?thesis by (rule DisableEmail_Inr) (intro conjI; erule (1) disable_kept)
next
  case (regenerate now sp pw p hs)
  from regenerate(2) show ?thesis
  proof (rule Regenerate_Inr)
    fix db1
    assume k: "consumeSecondFactorTx now (spUser sp) p db = Inr db1" "replaceRecoveryCodesTx (spUser sp) hs db1 = Inr db'"
    note r = replaceRecovery_frames [OF k(2)] and s = spendProof_kept [OF k(1), of l] consumeSecondFactor_frames [OF k(1)]
    have "codesKept l db1 db'" by (rule codesKept_replace [OF r(8)]) (simp add: codesLabel_def regenerate(1))
    then have "codesKept l db db'"
      using s(2) r(8) by (auto simp: codesKept_def codesLabel_def regenerate(1))
    then show ?thesis using s r by (auto intro: kept_cong simp: challengesKept_sub)
  qed
next
  case (verification now raw uid m ok)
  show ?thesis by (rule mint_kept [OF verification_Inr [OF verification(2)]]) (simp add: purpose_names)
next
  case (verified now tok uid)
  from verified(2) show ?thesis
    by (rule verified_Inr) (simp add: totpKept_same codesKept_sub challengesKept_sub otpsKept_spend)
next
  case (resetLink now raw tok uid ttl ok draft)
  from resetLink(2) show ?thesis by (rule resetLink_Inr) (rule mintReset_kept)
next
  case (adminReset now raw tok uid ttl ok draftFor)
  from adminReset(2) show ?thesis by (rule adminReset_Inr) (rule mintReset_kept)
next
  case (reset now tk pw u)
  from reset(2) show ?thesis by (rule reset_Inr) (rule same_kept)
next
  case (sweep retain now n)
  have "totpRows db' = totpRows db" "recoveryCodes db' = recoveryCodes db" "set (emailOtps db') \<subseteq> set (emailOtps db)"
    "set (challenges db') \<subseteq> set (challenges db)"
    using sweep(3) by (auto simp: SweepTwoFactor_def Let_def)
  then show ?thesis by (simp add: totpKept_same codesKept_sub challengesKept_sub otpsKept_sub)
next
  case (elsewhere st now)
  then show ?thesis by (simp add: totpKept_same codesKept_sub challengesKept_sub otpsKept_sub)
next
  case (queued now ms sd)
  then show ?thesis by (simp add: totpKept_sub codesKept_sub challengesKept_sub otpsKept_sub)
next
  case (sessionGone now sid)
  then show ?thesis by (simp add: totpKept_sub codesKept_sub challengesKept_sub otpsKept_sub)
next
  case (accountGone now uid)
  have "set (filter P xs) \<subseteq> set xs" for P and xs :: "'z list" by auto
  then show ?thesis by (simp add: accountGone totpKept_sub codesKept_sub challengesKept_sub otpsKept_sub)
qed

section \<open>Invariants of the factor tables\<close>

text \<open>
  At most one row per account; a confirmed row is tied to no session; recovery codes only beside a confirmed
  factor, step-up codes only beside a confirmed mailbox.
\<close>

definition factorsOk :: "authdb \<Rightarrow> bool" where
  "factorsOk db =
     (distinct (map toUser (totpRows db)) \<and> distinct (map efUser (emailFactors db)) \<and>
      list_all (\<lambda>r. toConfirmed r \<noteq> None \<longrightarrow> toSession r = None) (totpRows db) \<and>
      list_all (\<lambda>r. efConfirmed r \<noteq> None \<longrightarrow> efSession r = None) (emailFactors db) \<and>
      list_all (\<lambda>r. HasConfirmedSecondFactor (rcUser r) False db) (recoveryCodes db) \<and>
      list_all (\<lambda>o'. eoPurpose o' = OTPPurposeStepUp2FA \<longrightarrow> emailEnabled (eoUser o') db) (emailOtps db))"

definition totpsOk :: "totpRow list \<Rightarrow> bool" where
  "totpsOk rs = (distinct (map toUser rs) \<and> list_all (\<lambda>r. toConfirmed r \<noteq> None \<longrightarrow> toSession r = None) rs)"

definition mailsOk :: "emailFactor list \<Rightarrow> bool" where
  "mailsOk rs = (distinct (map efUser rs) \<and> list_all (\<lambda>r. efConfirmed r \<noteq> None \<longrightarrow> efSession r = None) rs)"

text \<open>The accounts with a confirmed authenticator, with a confirmed mailbox, and with a step-up code.\<close>

definition byTotp :: "totpRow list \<Rightarrow> int set" where
  "byTotp rs = {i. \<exists>r\<in>set rs. toUser r = i \<and> toConfirmed r \<noteq> None}"

definition byMail :: "emailFactor list \<Rightarrow> int set" where
  "byMail rs = {i. \<exists>r\<in>set rs. efUser r = i \<and> efConfirmed r \<noteq> None}"

definition stepUsers :: "emailOtp list \<Rightarrow> int set" where
  "stepUsers os = set (map eoUser (filter (\<lambda>o'. eoPurpose o' = OTPPurposeStepUp2FA) os))"

definition confirmedBy :: "authdb \<Rightarrow> int set" where
  "confirmedBy db = byTotp (totpRows db) \<union> byMail (emailFactors db)"

lemma enabled_by:
  "totpEnabled uid db \<longleftrightarrow> uid \<in> byTotp (totpRows db)" "emailEnabled uid db \<longleftrightarrow> uid \<in> byMail (emailFactors db)"
  by (simp_all add: totpEnabled_def emailEnabled_def byTotp_def byMail_def list_ex_iff)

lemma has_confirmed: "HasConfirmedSecondFactor uid False db \<longleftrightarrow> uid \<in> confirmedBy db"
  by (simp add: HasConfirmedSecondFactor_def enabled_by confirmedBy_def)

lemma factorsOk_split:
  "factorsOk db \<longleftrightarrow> totpsOk (totpRows db) \<and> mailsOk (emailFactors db) \<and>
     rcUser ` set (recoveryCodes db) \<subseteq> confirmedBy db \<and> stepUsers (emailOtps db) \<subseteq> byMail (emailFactors db)"
  unfolding factorsOk_def totpsOk_def mailsOk_def has_confirmed enabled_by(2) stepUsers_def
  by (auto simp: list_all_iff)

lemma ok_more:
  assumes "factorsOk db" "totpsOk (totpRows db')" "mailsOk (emailFactors db')"
    "byTotp (totpRows db) \<subseteq> byTotp (totpRows db')" "byMail (emailFactors db) \<subseteq> byMail (emailFactors db')"
    "rcUser ` set (recoveryCodes db') \<subseteq> rcUser ` set (recoveryCodes db) \<union> confirmedBy db'"
    "stepUsers (emailOtps db') \<subseteq> stepUsers (emailOtps db) \<union> byMail (emailFactors db')"
  shows "factorsOk db'"
proof -
  have "confirmedBy db \<subseteq> confirmedBy db'" using assms(4,5) by (auto simp: confirmedBy_def)
  moreover note ok = assms(1) [unfolded factorsOk_split]
  moreover have "rcUser ` set (recoveryCodes db') \<subseteq> confirmedBy db'"
    by (rule order_trans [OF assms(6) Un_least]) (use calculation in \<open>blast intro: order_trans\<close>)+
  moreover have "stepUsers (emailOtps db') \<subseteq> byMail (emailFactors db')"
    by (rule order_trans [OF assms(7) Un_least]) (use ok assms(5) in \<open>blast intro: order_trans\<close>)+
  ultimately show ?thesis using assms(2,3) by (simp add: factorsOk_split)
qed

lemma factorsOk_cong:
  "totpRows db' = totpRows db \<Longrightarrow> emailFactors db' = emailFactors db \<Longrightarrow> recoveryCodes db' = recoveryCodes db \<Longrightarrow>
   stepUsers (emailOtps db') \<subseteq> stepUsers (emailOtps db) \<Longrightarrow> factorsOk db \<Longrightarrow> factorsOk db'"
  unfolding factorsOk_split confirmedBy_def by (metis order_trans)

lemma stepUsers_map: "(\<And>o'. eoUser (f o') = eoUser o' \<and> eoPurpose (f o') = eoPurpose o') \<Longrightarrow> stepUsers (map f os) = stepUsers os"
  by (induction os) (simp_all add: stepUsers_def)

lemma stepUsers_simps [simp]:
  "stepUsers (emailOtps (spendOtps now P db)) = stepUsers (emailOtps db)"
  "stepUsers (os @ [o']) = stepUsers os \<union> (if eoPurpose o' = OTPPurposeStepUp2FA then {eoUser o'} else {})"
  "stepUsers (inheritChallengeCodesTx now p i os) = stepUsers os"
  by (simp_all add: spendOtps_def inheritChallengeCodesTx_def stepUsers_map) (simp add: stepUsers_def)

lemma stepUsers_sub: "set os \<subseteq> set qs \<Longrightarrow> stepUsers os \<subseteq> stepUsers qs"
  by (auto simp: stepUsers_def)

lemma byTotpI: "r \<in> set rs \<Longrightarrow> toConfirmed r \<noteq> None \<Longrightarrow> toUser r \<in> byTotp rs"
  by (auto simp: byTotp_def)

lemma byMailI: "r \<in> set rs \<Longrightarrow> efConfirmed r \<noteq> None \<Longrightarrow> efUser r \<in> byMail rs"
  by (auto simp: byMail_def)

lemma byTotp_map:
  "(\<And>r. r \<in> set rs \<Longrightarrow> toUser (f r) = toUser r \<and> (toConfirmed r \<noteq> None \<longrightarrow> toConfirmed (f r) \<noteq> None)) \<Longrightarrow>
   byTotp rs \<subseteq> byTotp (map f rs)"
  by (fastforce simp: byTotp_def)

lemma byMail_map:
  "(\<And>r. r \<in> set rs \<Longrightarrow> efUser (f r) = efUser r \<and> (efConfirmed r \<noteq> None \<longrightarrow> efConfirmed (f r) \<noteq> None)) \<Longrightarrow>
   byMail rs \<subseteq> byMail (map f rs)"
  by (fastforce simp: byMail_def)

lemma totpsOk_map:
  assumes "totpsOk rs" "\<And>r. r \<in> set rs \<Longrightarrow> toUser (f r) = toUser r"
    "\<And>r. r \<in> set rs \<Longrightarrow> toConfirmed (f r) \<noteq> None \<Longrightarrow> toSession (f r) = None"
  shows "totpsOk (map f rs)"
proof -
  have "map toUser (map f rs) = map toUser rs" using assms(2) by simp
  then have "distinct (map toUser (map f rs))" using assms(1) by (simp only: totpsOk_def)
  then show ?thesis unfolding totpsOk_def using assms(3) by (simp add: list_all_iff)
qed

lemma mailsOk_map:
  assumes "mailsOk rs" "\<And>r. r \<in> set rs \<Longrightarrow> efUser (f r) = efUser r"
    "\<And>r. r \<in> set rs \<Longrightarrow> efConfirmed (f r) \<noteq> None \<Longrightarrow> efSession (f r) = None"
  shows "mailsOk (map f rs)"
proof -
  have "map efUser (map f rs) = map efUser rs" using assms(2) by simp
  then have "distinct (map efUser (map f rs))" using assms(1) by (simp only: mailsOk_def)
  then show ?thesis unfolding mailsOk_def using assms(3) by (simp add: list_all_iff)
qed

lemma totpsOk_filter: "totpsOk rs \<Longrightarrow> totpsOk (filter P rs)"
  by (auto simp: totpsOk_def distinct_map_filter list_all_iff)

lemma mailsOk_filter: "mailsOk rs \<Longrightarrow> mailsOk (filter P rs)"
  by (auto simp: mailsOk_def distinct_map_filter list_all_iff)

lemma totpOf_None: "totpOf uid db = None \<longleftrightarrow> uid \<notin> toUser ` set (totpRows db)"
  by (auto simp: totpOf_def find_None_iff)

lemma emailFactorOf_None: "emailFactorOf uid db = None \<longleftrightarrow> uid \<notin> efUser ` set (emailFactors db)"
  by (auto simp: emailFactorOf_def find_None_iff)

lemma totp_unique:
  "totpsOk (totpRows db) \<Longrightarrow> totpOf uid db = Some r \<Longrightarrow> q \<in> set (totpRows db) \<Longrightarrow> toUser q = uid \<Longrightarrow> q = r"
  unfolding totpOf_def totpsOk_def by (auto simp: distinct_map dest!: find_SomeD inj_onD)

lemma email_unique:
  "mailsOk (emailFactors db) \<Longrightarrow> emailFactorOf uid db = Some r \<Longrightarrow> q \<in> set (emailFactors db) \<Longrightarrow> efUser q = uid \<Longrightarrow> q = r"
  unfolding emailFactorOf_def mailsOk_def by (auto simp: distinct_map dest!: find_SomeD inj_onD)

lemma startTotp_ok:
  assumes "StartTOTPEnrollment now sp cipher nonce db = (Inr (), db')" "factorsOk db"
  shows "factorsOk db'"
proof -
  note t = StartTOTP_Inr [OF assms(1)] and ok = assms(2) [unfolded factorsOk_split]
  obtain row where row: "toUser row = spUser sp" "toConfirmed row = None"
    and c: "totpOf (spUser sp) db = None \<and> totpRows db' = totpRows db @ [row] \<or>
        (\<exists>r. totpOf (spUser sp) db = Some r \<and> toConfirmed r = None \<and>
          totpRows db' = map (\<lambda>r. if toUser r = spUser sp then row else r) (totpRows db))"
    using t(8) by blast
  from c have "totpsOk (totpRows db') \<and> byTotp (totpRows db) \<subseteq> byTotp (totpRows db')"
  proof (elim disjE exE conjE)
    assume a: "totpOf (spUser sp) db = None" "totpRows db' = totpRows db @ [row]"
    show ?thesis using a row ok by (auto simp: totpsOk_def totpOf_None byTotp_def)
  next
    fix r
    assume a: "totpOf (spUser sp) db = Some r" "toConfirmed r = None"
      "totpRows db' = map (\<lambda>r. if toUser r = spUser sp then row else r) (totpRows db)"
    have u: "toConfirmed q = None" if "q \<in> set (totpRows db)" "toUser q = spUser sp" for q
      using totp_unique [of db _ r q] that ok a(1,2) by blast
    have "totpsOk (totpRows db')"
      unfolding a(3) by (rule totpsOk_map) (use ok row in \<open>auto simp: totpsOk_def list_all_iff split: if_splits\<close>)
    moreover have "byTotp (totpRows db) \<subseteq> byTotp (totpRows db')"
      unfolding a(3) by (rule byTotp_map) (use u row in auto)
    ultimately show ?thesis by blast
  qed
  with ok_more [OF assms(2), of db'] ok t show ?thesis by auto
qed

lemma startEmail_ok:
  assumes "StartEmailFactorEnrollment now sp m ok db = (Inr (), db')" "factorsOk db"
  shows "factorsOk db'"
proof -
  note t = StartEmail_Inr [OF assms(1)] and ok = assms(2) [unfolded factorsOk_split]
  obtain row where row: "efUser row = spUser sp" "efConfirmed row = None"
    and c: "emailFactorOf (spUser sp) db = None \<and> emailFactors db' = emailFactors db @ [row] \<or>
        (\<exists>r. emailFactorOf (spUser sp) db = Some r \<and> efConfirmed r = None \<and>
          emailFactors db' = map (\<lambda>r. if efUser r = spUser sp then row else r) (emailFactors db))"
    using t(7) by blast
  from c have "mailsOk (emailFactors db') \<and> byMail (emailFactors db) \<subseteq> byMail (emailFactors db')"
  proof (elim disjE exE conjE)
    assume a: "emailFactorOf (spUser sp) db = None" "emailFactors db' = emailFactors db @ [row]"
    show ?thesis using a row ok by (auto simp: mailsOk_def emailFactorOf_None byMail_def)
  next
    fix r
    assume a: "emailFactorOf (spUser sp) db = Some r" "efConfirmed r = None"
      "emailFactors db' = map (\<lambda>r. if efUser r = spUser sp then row else r) (emailFactors db)"
    have u: "efConfirmed q = None" if "q \<in> set (emailFactors db)" "efUser q = spUser sp" for q
      using email_unique [of db _ r q] that ok a(1,2) by blast
    have "mailsOk (emailFactors db')"
      unfolding a(3) by (rule mailsOk_map) (use ok row in \<open>auto simp: mailsOk_def list_all_iff split: if_splits\<close>)
    moreover have "byMail (emailFactors db) \<subseteq> byMail (emailFactors db')"
      unfolding a(3) by (rule byMail_map) (use u row in auto)
    ultimately show ?thesis by blast
  qed
  with ok_more [OF assms(2), of db'] ok t show ?thesis by (auto simp: purpose_names)
qed

lemma spendTotp_ok:
  assumes "consumeTOTPProofIfCurrentTx uid pr db = Some db'" "factorsOk db"
  shows "factorsOk db'"
proof -
  note t = consumeTotp_frames [OF assms(1)] and ok = assms(2) [unfolded factorsOk_split]
  have "totpsOk (totpRows db')"
    unfolding t(8) by (rule totpsOk_map) (use ok in \<open>auto simp: totpsOk_def list_all_iff split: if_splits\<close>)
  moreover have "byTotp (totpRows db) \<subseteq> byTotp (totpRows db')" unfolding t(8) by (rule byTotp_map) simp
  ultimately show ?thesis using ok_more [OF assms(2), of db'] ok t by auto
qed

lemma spendRecovery_ok:
  assumes "spendRecovery now uid h db = Some db'" "factorsOk db"
  shows "factorsOk db'"
proof -
  note t = spendRecovery_frames [OF assms(1)] and ok = assms(2) [unfolded factorsOk_split]
  have "rcUser ` set (recoveryCodes db') \<subseteq> rcUser ` set (recoveryCodes db)" by (auto simp: t(8))
  then show ?thesis using ok_more [OF assms(2), of db'] ok t by auto
qed

lemma spendOtps_ok: "factorsOk db \<Longrightarrow> factorsOk (spendOtps now P db)"
  by (rule factorsOk_cong) simp_all

lemma spendProof_ok:
  assumes "consumeSecondFactorTx now uid p db = Inr db'" "factorsOk db"
  shows "factorsOk db'"
  using assms(1)
  by (cases rule: consumeSecondFactor_cases) (use spendTotp_ok spendRecovery_ok spendOtps_ok assms(2) in blast)+

lemma spendChallenge_ok:
  assumes "consumeChallengeProofTx now ch p db = Inr (m, db')" "factorsOk db"
  shows "factorsOk db'"
  using assms(1)
  by (cases rule: consumeChallengeProof_cases) (use spendTotp_ok spendRecovery_ok spendOtps_ok assms(2) in blast)+

text \<open>A step-up proof is accepted only from an account with a confirmed factor.\<close>

lemma spendProof_confirmed:
  assumes "consumeSecondFactorTx now uid p db = Inr db'" "factorsOk db"
  shows "uid \<in> confirmedBy db"
  using assms(1)
proof (cases rule: consumeSecondFactor_cases)
  case (totp pr)
  then show ?thesis using consumeTotp_frames(9) [OF totp(1)]
    by (auto simp: list_ex_iff totpHit_def confirmedBy_def byTotp_def)
next
  case recovery
  then show ?thesis using spendRecovery_frames(9) [OF recovery(1)] assms(2)
    by (auto simp: factorsOk_split RecoveryCodeIsLive_def list_ex_iff recoveryHit_def)
next
  case email
  then have "uid \<in> stepUsers (emailOtps db)" by (auto simp: StepUpEmailOTPIsLive_def list_ex_iff otpHit_def stepUsers_def)
  then show ?thesis using assms(2) by (auto simp: factorsOk_split confirmedBy_def)
qed

lemma replace_ok:
  assumes "factorsOk db" "replaceRecoveryCodesTx uid hs db = Inr db'" "uid \<in> confirmedBy db"
  shows "factorsOk db'"
proof -
  note t = replaceRecovery_frames [OF assms(2)] and ok = assms(1) [unfolded factorsOk_split]
  have "confirmedBy db' = confirmedBy db" by (simp add: confirmedBy_def t)
  then have "rcUser ` set (recoveryCodes db') \<subseteq> rcUser ` set (recoveryCodes db) \<union> confirmedBy db'"
    using assms(3) by (auto simp: t(8))
  then show ?thesis using ok_more [OF assms(1), of db'] ok t by auto
qed

lemma confirm_ok:
  assumes "confirmTOTPRowTx now sp pr db = Inr db'" "factorsOk db"
  shows "factorsOk db' \<and> spUser sp \<in> confirmedBy db'"
proof -
  note t = confirmTOTP_Inr [OF assms(1)] and ok = assms(2) [unfolded factorsOk_split]
  obtain hit where h: "list_ex hit (totpRows db)" "\<forall>r. hit r \<longrightarrow> toUser r = spUser sp \<and> toConfirmed r = None"
    "totpRows db' = map (\<lambda>r. if hit r then r\<lparr>toConfirmed := Some now, toLast := Some (tpCounter pr), toSession := None\<rparr> else r) (totpRows db)"
    using t(8) by auto
  have "totpsOk (totpRows db')"
    unfolding h(3) by (rule totpsOk_map) (use ok in \<open>auto simp: totpsOk_def list_all_iff split: if_splits\<close>)
  moreover have "byTotp (totpRows db) \<subseteq> byTotp (totpRows db')" unfolding h(3) by (rule byTotp_map) simp
  ultimately have "factorsOk db'" using ok_more [OF assms(2), of db'] ok t by auto
  moreover obtain r where r: "r \<in> set (totpRows db)" "hit r" using h(1) by (auto simp: list_ex_iff)
  moreover have "r\<lparr>toConfirmed := Some now, toLast := Some (tpCounter pr), toSession := None\<rparr> \<in> set (totpRows db')"
    using r unfolding h(3) by force
  from byTotpI [OF this] have "spUser sp \<in> byTotp (totpRows db')" using h(2) r by simp
  ultimately show ?thesis by (simp add: confirmedBy_def)
qed

lemma spendEnrollment_ok:
  assumes "spendEmailFactorEnrollmentTx now e h db = Inr db'" "factorsOk db"
  shows "factorsOk db'"
proof -
  note t = spendEnrollment_Inr [OF assms(1)] and ok = assms(2) [unfolded factorsOk_split]
  obtain hit where h: "list_ex hit (emailFactors db)" "\<forall>r. hit r \<longrightarrow> efUser r = ecUser e \<and> efConfirmed r = None"
    "emailFactors db' = map (\<lambda>r. if hit r then r\<lparr>efConfirmed := Some now, efVersion := None, efSession := None\<rparr> else r) (emailFactors db)"
    using t(8) by auto
  have m: "mailsOk (emailFactors db')"
    unfolding h(3) by (rule mailsOk_map) (use ok in \<open>auto simp: mailsOk_def list_all_iff split: if_splits\<close>)
  have b: "byMail (emailFactors db) \<subseteq> byMail (emailFactors db')" unfolding h(3) by (rule byMail_map) simp
  obtain r where r: "r \<in> set (emailFactors db)" "hit r" using h(1) by (auto simp: list_ex_iff)
  have "r\<lparr>efConfirmed := Some now, efVersion := None, efSession := None\<rparr> \<in> set (emailFactors db')"
    using r unfolding h(3) by force
  from byMailI [OF this] have "ecUser e \<in> byMail (emailFactors db')" using h(2) r by simp
  then have "rcUser ` set (recoveryCodes db') \<subseteq> rcUser ` set (recoveryCodes db) \<union> confirmedBy db'"
    by (auto simp: t(7) confirmedBy_def)
  then show ?thesis using ok_more [OF assms(2), of db'] m b ok t by auto
qed

lemma spendProof_keeps:
  assumes "consumeSecondFactorTx now uid p db = Inr db'"
  shows "byTotp (totpRows db) \<subseteq> byTotp (totpRows db') \<and> emailFactors db' = emailFactors db"
  using assms
proof (cases rule: consumeSecondFactor_cases)
  case (totp pr)
  have "byTotp (totpRows db) \<subseteq> byTotp (totpRows db')"
    unfolding consumeTotp_frames(8) [OF totp(1)] by (rule byTotp_map) simp
  then show ?thesis by (simp add: consumeTotp_frames [OF totp(1)])
next
  case recovery
  show ?thesis by (simp add: spendRecovery_frames [OF recovery(1)])
qed simp

lemma enrollTotp_ok:
  assumes "confirmTOTPRowTx now sp pr db = Inr db1" "replaceRecoveryCodesTx (spUser sp) hs db1 = Inr db2"
    "finishPreAuthEnrollmentTx now family minted e db2 = Inr (issue, db')" "factorsOk db"
  shows "factorsOk db'"
proof -
  have "factorsOk db2" using confirm_ok [OF assms(1,4)] replace_ok [OF _ assms(2)] by blast
  then show ?thesis by (rule factorsOk_cong [rotated 4]) (simp_all add: finishPreAuth_Inr [OF assms(3)])
qed

lemma enrollEmail_ok:
  assumes "spendEmailFactorEnrollmentTx now e h db = Inr db1" "finishPreAuthEnrollmentTx now family minted e db1 = Inr (issue, db')"
    "factorsOk db"
  shows "factorsOk db'"
  by (rule factorsOk_cong [OF _ _ _ _ spendEnrollment_ok [OF assms(1,3)]]) (simp_all add: finishPreAuth_Inr [OF assms(2)])

lemma disable_ok:
  assumes "disableFactorTx now sp k db = Inr db'" "factorsOk db"
  shows "factorsOk db'"
  using assms(1)
proof (rule disableFactor_Inr)
  fix st
  assume d: "totpRows db' = totpRows (dropFactor k (spUser sp) db)" "emailFactors db' = emailFactors (dropFactor k (spUser sp) db)"
    "recoveryCodes db' = (if siblingLeft k (spUser sp) db' then recoveryCodes db
       else filter (\<lambda>r. rcUser r \<noteq> spUser sp) (recoveryCodes db))"
  note ok = assms(2) [unfolded factorsOk_split]
  assume o: "emailOtps db' = emailOtps (dropFactor k (spUser sp) db)"
  have ts: "totpsOk (totpRows db')" "mailsOk (emailFactors db')"
    using ok by (auto simp: d(1,2) dropFactor_def totpsOk_filter mailsOk_filter split: factorKind.splits)
  have keep: "confirmedBy db \<subseteq> insert (spUser sp) (confirmedBy db')"
    by (auto simp: d(1,2) dropFactor_def confirmedBy_def byTotp_def byMail_def split: factorKind.splits)
  have "spUser sp \<in> confirmedBy db'" if "siblingLeft k (spUser sp) db'"
    using that by (auto simp: siblingLeft_def enabled_by confirmedBy_def split: factorKind.splits)
  moreover have "\<forall>r\<in>set (recoveryCodes db). rcUser r = spUser sp \<or> rcUser r \<in> confirmedBy db'"
    using ok keep by blast
  ultimately have "rcUser r \<in> confirmedBy db'" if "r \<in> set (recoveryCodes db')" for r
    using that unfolding d(3) by (cases "siblingLeft k (spUser sp) db'") auto
  then have "rcUser ` set (recoveryCodes db') \<subseteq> confirmedBy db'" by auto
  moreover have "stepUsers (emailOtps db') \<subseteq> byMail (emailFactors db')"
  proof (cases k)
    case FactorTOTP
    then show ?thesis using ok by (simp add: d(2) o dropFactor_def)
  next
    case FactorEmail
    have "byMail (emailFactors db') = byMail (emailFactors db) - {spUser sp}"
      by (auto simp: d(2) FactorEmail dropFactor_def byMail_def)
    moreover have "stepUsers (emailOtps db') = stepUsers (emailOtps db) - {spUser sp}"
      by (auto simp: o FactorEmail dropFactor_def stepUsers_def)
    ultimately show ?thesis using ok by auto
  qed
  ultimately show ?thesis using ts by (simp add: factorsOk_split)
qed

lemma sweep_frames:
  assumes "SweepTwoFactor now retain db = (n, db')"
  shows "totpRows db' = totpRows db" "emailFactors db' = emailFactors db" "recoveryCodes db' = recoveryCodes db"
    "set (emailOtps db') \<subseteq> set (emailOtps db)" "set (challenges db') \<subseteq> set (challenges db)" "set (resets db') \<subseteq> set (resets db)"
    "idn db' = idn db" "challengeSeq db' = challengeSeq db"
  using assms by (auto simp: SweepTwoFactor_def Let_def)

lemma step_factors:
  assumes "tfStep smtp verify hashpw l db db'" "factorsOk db"
  shows "factorsOk db'"
  using assms(1)
proof cases
  case (create now tok nc i)
  from create(2) show ?thesis
    by (rule create_Inr) (rule factorsOk_cong [OF _ _ _ _ assms(2)], simp_all split: option.splits)
next
  case (bump now i n c)
  from bump(2) show ?thesis by (rule bump_Inr) (simp add: factorsOk_cong [OF _ _ _ _ assms(2)])
next
  case (consume now i c)
  then show ?thesis using assms(2)
    by (auto simp: ConsumeChallenge_def intro: factorsOk_cong split: sum.splits if_splits)
next
  case (send i c db0 now h ttl cooldown ok mail k)
  from send(4) show ?thesis
    by (rule send_Inr) (rule factorsOk_cong [OF _ _ _ _ assms(2)], simp_all add: purpose_names)
next
  case (startTotp now sp cipher nonce)
  show ?thesis by (rule startTotp_ok [OF startTotp(2) assms(2)])
next
  case (liveTotp now family minted e pr r sid)
  show ?thesis by (rule CompleteTOTP_Inr [OF liveTotp(2)]) (rule enrollTotp_ok [OF _ _ _ assms(2)], assumption, simp_all)
next
  case (preTotp now family minted e pr r ch ttl ip ua)
  show ?thesis by (rule CompleteTOTP_Inr [OF preTotp(2)]) (rule enrollTotp_ok [OF _ _ _ assms(2)], assumption, simp_all)
next
  case (startEmail now sp m ok)
  show ?thesis by (rule startEmail_ok [OF startEmail(2) assms(2)])
next
  case (liveEmail now family minted e h r sid)
  show ?thesis by (rule CompleteEmail_Inr [OF liveEmail(2)]) (rule enrollEmail_ok [OF _ _ assms(2)])
next
  case (preEmail now family minted e h r ch ttl ip ua)
  show ?thesis by (rule CompleteEmail_Inr [OF preEmail(2)]) (rule enrollEmail_ok [OF _ _ assms(2)])
next
  case (complete now family minted ch pr ttl ip ua r)
  from complete(2) show ?thesis
  proof (rule Complete2FA_Inr)
    fix m db1 issue
    assume k: "consumeChallengeProofTx now ch pr db = Inr (m, db1)"
      "openSession now family minted (chUser ch) ttl ip ua (updateChallenge (chId ch) (\<lambda>c. c\<lparr>chConsumed := Some now\<rparr>) db1) = Inr (issue, db')"
    show ?thesis by (rule factorsOk_cong [OF _ _ _ _ spendChallenge_ok [OF k(1) assms(2)]]) (simp_all add: openSession_frames [OF k(2)])
  qed
next
  case (stepUpCode now sp m ok)
  note m = mintOtp_frames [OF stepUpCode_Inr(1) [OF stepUpCode(2)]] and e = stepUpCode_Inr(2) [OF stepUpCode(2)]
  show ?thesis
    by (rule ok_more [OF assms(2)]) (use assms(2) m e in \<open>simp_all add: factorsOk_split enabled_by\<close>)
next
  case (spend now uid p)
  show ?thesis by (rule spendProof_ok [OF spend_Inr [OF spend(2)] assms(2)])
next
  case (disableTotp now sp pw p)
  from disableTotp(2) show ?thesis by (rule DisableTOTP_Inr) (metis disable_ok spendProof_ok [OF _ assms(2)])
next
  case (disableEmail now sp p)
  from disableEmail(2) show ?thesis by (rule DisableEmail_Inr) (metis disable_ok spendProof_ok [OF _ assms(2)])
next
  case (regenerate now sp pw p hs)
  from regenerate(2) show ?thesis
  proof (rule Regenerate_Inr)
    fix db1
    assume k: "consumeSecondFactorTx now (spUser sp) p db = Inr db1" "replaceRecoveryCodesTx (spUser sp) hs db1 = Inr db'"
    have "confirmedBy db \<subseteq> confirmedBy db1"
      using spendProof_keeps [OF k(1)] by (auto simp: confirmedBy_def)
    then show ?thesis using replace_ok [OF spendProof_ok [OF k(1) assms(2)] k(2)] spendProof_confirmed [OF k(1) assms(2)] by blast
  qed
next
  case (verification now raw uid m ok)
  show ?thesis by (rule factorsOk_cong [OF _ _ _ _ assms(2)]) (simp_all add: mintOtp_frames [OF verification_Inr [OF verification(2)]] purpose_names)
next
  case (verified now tok uid)
  from verified(2) show ?thesis by (rule verified_Inr) (rule factorsOk_cong [OF _ _ _ _ assms(2)], simp_all)
next
  case (resetLink now raw tok uid ttl ok draft)
  from resetLink(2) show ?thesis by (rule resetLink_Inr) (rule factorsOk_cong [OF _ _ _ _ assms(2)], simp_all add: mintReset_Inr)
next
  case (adminReset now raw tok uid ttl ok draftFor)
  from adminReset(2) show ?thesis by (rule adminReset_Inr) (rule factorsOk_cong [OF _ _ _ _ assms(2)], simp_all add: mintReset_Inr)
next
  case (reset now tk pw u)
  from reset(2) show ?thesis by (rule reset_Inr) (rule factorsOk_cong [OF _ _ _ _ assms(2)], simp_all)
next
  case (sweep retain now n)
  note f = sweep_frames [OF sweep(3)]
  show ?thesis by (rule factorsOk_cong [OF f(1-3) stepUsers_sub [OF f(4)] assms(2)])
next
  case (elsewhere st now)
  then show ?thesis using assms(2) by (simp add: factorsOk_split confirmedBy_def)
next
  case (queued now ms sd)
  then show ?thesis using assms(2) by (simp add: factorsOk_split confirmedBy_def)
next
  case (sessionGone now sid)
  have "byTotp (totpRows db) \<subseteq> byTotp (totpRows db')" "byMail (emailFactors db) \<subseteq> byMail (emailFactors db')"
    using assms(2) by (auto simp: sessionGone byTotp_def byMail_def factorsOk_def list_all_iff)
  with ok_more [OF assms(2), of db'] show ?thesis
    using assms(2) sessionGone by (auto simp: factorsOk_split totpsOk_filter mailsOk_filter)
next
  case (accountGone now uid)
  note ok = assms(2) [unfolded factorsOk_split]
  have "confirmedBy db \<subseteq> insert uid (confirmedBy db')" "byMail (emailFactors db) \<subseteq> insert uid (byMail (emailFactors db'))"
    by (auto simp: accountGone confirmedBy_def byTotp_def byMail_def)
  moreover have "rcUser ` set (recoveryCodes db') = rcUser ` set (recoveryCodes db) - {uid}"
    "stepUsers (emailOtps db') = stepUsers (emailOtps db) - {uid}"
    by (auto simp: accountGone stepUsers_def)
  ultimately have "rcUser ` set (recoveryCodes db') \<subseteq> confirmedBy db' \<and> stepUsers (emailOtps db') \<subseteq> byMail (emailFactors db')"
    using ok by auto
  then show ?thesis using ok accountGone by (simp add: factorsOk_split totpsOk_filter mailsOk_filter)
qed

section \<open>Epochs of challenges and reset links\<close>

definition resetsKept :: "authdb \<Rightarrow> authdb \<Rightarrow> bool" where
  "resetsKept db db' = (\<forall>r'\<in>set (resets db').
     (\<exists>r\<in>set (resets db). pwUser r' = pwUser r \<and> pwVersion r' = pwVersion r) \<or>
     (\<exists>u\<in>set (users (idn db)). uId u = pwUser r' \<and> pwVersion r' = Some (uTokenVersion u)))"

lemma resetsKept_sub: "set (resets db') \<subseteq> set (resets db) \<Longrightarrow> resetsKept db db'"
  by (auto simp: resetsKept_def)

lemma mintReset_rows:
  assumes "mintReset now raw tok u ttl ok draft db = Inr ((), db')" "u \<in> set (users (idn db))"
  shows "resetsKept db db'"
proof -
  have "resets db' = supersedeResets now (uId u) (resets db) @
     [\<lparr>pwUser = uId u, pwToken = tok, pwVersion = Some (uTokenVersion u), pwExpires = now + ttl, pwConsumed = None\<rparr>]"
    using assms(1) by (auto simp: mintReset_def rbind_Inr_iff dest!: enqueue_frames split: if_splits)
  moreover have "\<forall>r'\<in>set (supersedeResets now (uId u) (resets db)).
      \<exists>r\<in>set (resets db). pwUser r' = pwUser r \<and> pwVersion r' = pwVersion r"
    unfolding supersedeResets_def by (auto intro: rev_bexI)
  ultimately show ?thesis using assms(2) by (auto simp: resetsKept_def)
qed

lemma step_resets:
  assumes "tfStep smtp verify hashpw l db db'"
  shows "resetsKept db db'"
  using assms
proof cases
  case (create now tok nc i)
  from create(2) show ?thesis by (rule create_Inr) (simp add: resetsKept_sub)
next
  case (bump now i n c)
  from bump(2) show ?thesis by (rule bump_Inr) (simp add: resetsKept_sub)
next
  case (consume now i c)
  then show ?thesis by (auto simp: ConsumeChallenge_def intro: resetsKept_sub split: sum.splits if_splits)
next
  case (send i c db0 now h ttl cooldown ok mail k)
  then show ?thesis
    by (auto simp: CreateChallengeEmailOTP_def Let_def runTx_Inr rbind_Inr_iff intro: resetsKept_sub
        dest!: enqueue_frames split: sum.splits if_splits)
next
  case (startTotp now sp cipher nonce)
  then show ?thesis by (simp add: resetsKept_sub StartTOTP_Inr)
next
  case (liveTotp now family minted e pr r sid)
  from liveTotp(2) show ?thesis
    by (rule CompleteTOTP_Inr) (simp add: resetsKept_sub finishPreAuth_Inr replaceRecovery_frames confirmTOTP_Inr)
next
  case (preTotp now family minted e pr r ch ttl ip ua)
  from preTotp(2) show ?thesis
    by (rule CompleteTOTP_Inr) (simp add: resetsKept_sub finishPreAuth_Inr replaceRecovery_frames confirmTOTP_Inr)
next
  case (startEmail now sp m ok)
  then show ?thesis by (simp add: resetsKept_sub StartEmail_Inr)
next
  case (liveEmail now family minted e h r sid)
  from liveEmail(2) show ?thesis
    by (rule CompleteEmail_Inr) (simp add: resetsKept_sub finishPreAuth_Inr spendEnrollment_Inr)
next
  case (preEmail now family minted e h r ch ttl ip ua)
  from preEmail(2) show ?thesis
    by (rule CompleteEmail_Inr) (simp add: resetsKept_sub finishPreAuth_Inr spendEnrollment_Inr)
next
  case (complete now family minted ch pr ttl ip ua r)
  from complete(2) show ?thesis
    by (rule Complete2FA_Inr) (simp add: resetsKept_sub openSession_frames consumeChallengeProof_frames)
next
  case (stepUpCode now sp m ok)
  show ?thesis by (simp add: resetsKept_sub mintOtp_frames [OF stepUpCode_Inr(1) [OF stepUpCode(2)]])
next
  case (spend now uid p)
  show ?thesis by (simp add: resetsKept_sub consumeSecondFactor_frames [OF spend_Inr [OF spend(2)]])
next
  case (disableTotp now sp pw p)
  from disableTotp(2) show ?thesis
    by (rule DisableTOTP_Inr) (erule disableFactor_Inr, simp add: resetsKept_sub consumeSecondFactor_frames)
next
  case (disableEmail now sp p)
  from disableEmail(2) show ?thesis
    by (rule DisableEmail_Inr) (erule disableFactor_Inr, simp add: resetsKept_sub consumeSecondFactor_frames)
next
  case (regenerate now sp pw p hs)
  from regenerate(2) show ?thesis
    by (rule Regenerate_Inr) (simp add: resetsKept_sub consumeSecondFactor_frames replaceRecovery_frames)
next
  case (verification now raw uid m ok)
  show ?thesis by (simp add: resetsKept_sub mintOtp_frames [OF verification_Inr [OF verification(2)]])
next
  case (verified now tok uid)
  then show ?thesis
    by (auto simp: ConsumeEmailVerification_def Let_def runTx_Inr intro: resetsKept_sub split: option.splits sum.splits)
next
  case (resetLink now raw tok uid ttl ok draft)
  then show ?thesis
    by (auto simp: CreatePasswordReset_def runTx_Inr intro: mintReset_rows dest: find_SomeD simp: userById_def split: option.splits if_splits)
next
  case (adminReset now raw tok uid ttl ok draftFor)
  then show ?thesis
    by (auto simp: CreateAdminPasswordRecovery_def runTx_Inr intro: mintReset_rows dest: find_SomeD simp: userById_def split: option.splits if_splits)
next
  case (reset now tk pw u)
  from reset(2) show ?thesis by (rule reset_Inr) (auto simp: resetsKept_def)
next
  case (sweep retain now n)
  show ?thesis by (rule resetsKept_sub) (rule sweep_frames [OF sweep(3)])
qed (auto intro: resetsKept_sub)

text \<open>No challenge and no reset link is of an epoch its account has not reached.\<close>

definition epochsKnown :: "authdb \<Rightarrow> bool" where
  "epochsKnown db = (accountIds (idn db) \<and>
     (\<forall>c\<in>set (challenges db). \<forall>v. chVersion c = Some v \<longrightarrow> epochFrom (chUser c) v db) \<and>
     (\<forall>r\<in>set (resets db). \<forall>v. pwVersion r = Some v \<longrightarrow> epochFrom (pwUser r) v db))"

lemma epochFrom_current:
  assumes "accountIds (idn db)" "u \<in> set (users (idn db))"
  shows "epochFrom (uId u) (uTokenVersion u) db"
proof -
  have "w = u" if "w \<in> set (users (idn db))" "uId w = uId u" for w
    using that assms by (auto simp: accountIds_def distinct_map dest: inj_onD)
  then show ?thesis using assms by (fastforce simp: epochFrom_def accountIds_def list_all_iff)
qed

lemma epochFrom_active: "accountIds (idn db) \<Longrightarrow> activeAt uid v db \<Longrightarrow> epochFrom uid v db"
  using epochFrom_current by (auto simp: activeAt_def list_ex_iff)

lemma step_epochsKnown:
  assumes "tfStep smtp verify hashpw l db db'" "epochsKnown db"
  shows "epochsKnown db'"
proof -
  have acc: "accountIds (idn db)" using assms(2) by (simp add: epochsKnown_def)
  note g = step_epochs [OF assms(1) acc] and k = step_kept [OF assms(1)] and r = step_resets [OF assms(1)]
  have "epochFrom (chUser c') v db'" if "c' \<in> set (challenges db')" "chVersion c' = Some v" for c' v
  proof -
    have "epochFrom (chUser c') v db"
      using that k assms(2) epochFrom_active [OF acc] unfolding challengesKept_def challengeFrom_def epochsKnown_def by fastforce
    then show ?thesis by (rule epochFrom_grows [OF _ g])
  qed
  moreover have "epochFrom (pwUser r') v db'" if "r' \<in> set (resets db')" "pwVersion r' = Some v" for r' v
  proof -
    have "epochFrom (pwUser r') v db"
      using that r assms(2) epochFrom_current [OF acc] unfolding resetsKept_def epochsKnown_def by fastforce
    then show ?thesis by (rule epochFrom_grows [OF _ g])
  qed
  moreover have "accountIds (idn db')" using g by (simp add: epochGrows_def)
  ultimately show ?thesis by (simp add: epochsKnown_def)
qed

text \<open>What holds after any steps from empty tables.\<close>

definition authOk :: "authdb \<Rightarrow> bool" where
  "authOk db = (factorsOk db \<and> epochsKnown db)"

lemma authOk_run:
  assumes "tfRun smtp verify hashpw ls db db'" "authOk db"
  shows "authOk db'"
  using assms by (induction rule: tfRun.induct) (auto simp: authOk_def intro: step_factors step_epochsKnown)

lemma empty_authOk: "emptyAuth db \<Longrightarrow> accountIds (idn db) \<Longrightarrow> authOk db"
  by (simp add: emptyAuth_def authOk_def factorsOk_def epochsKnown_def)

end
