(* ===== verification/TwoFactorSafety.thy ===== *)
theory TwoFactorSafety
  imports TwoFactorSpend
begin

text \<open>
  What the second factor promises: a spent proof stays spent, a mailed code belongs to the challenge it was
  sent for, recovery codes exist only beside a factor, and a password reset voids what came before it.
\<close>

section \<open>Single use\<close>

text \<open>The authenticator seed of the proof, or its recovery code, is installed by the label.\<close>

definition reinstalls :: "int \<Rightarrow> challengeProof \<Rightarrow> tfLabel \<Rightarrow> bool" where
  "reinstalls uid pr l = (codesLabel l uid (cpRecovery pr) \<or>
     (case cpTotp pr of None \<Rightarrow> False | Some p \<Rightarrow> seedsLabel l uid (tpCipher p) (tpNonce p)))"

definition counterSpent :: "int \<Rightarrow> totpProof \<Rightarrow> authdb \<Rightarrow> bool" where
  "counterSpent uid p db = (\<forall>r\<in>set (totpRows db). toUser r = uid \<and> toCipher r = tpCipher p \<and> toNonce r = tpNonce p \<longrightarrow>
     toConfirmed r \<noteq> None \<and> (\<exists>m\<ge>tpCounter p. toLast r = Some m))"

definition codeSpent :: "int \<Rightarrow> string \<Rightarrow> authdb \<Rightarrow> bool" where
  "codeSpent uid h db = (\<forall>r\<in>set (recoveryCodes db). rcUser r = uid \<and> rcHash r = h \<longrightarrow> rcUsed r \<noteq> None)"

lemma counterSpent_step:
  assumes "tfStep smtp verify hashpw l db db'" "counterSpent uid p db" "\<not> seedsLabel l uid (tpCipher p) (tpNonce p)"
  shows "counterSpent uid p db'"
  unfolding counterSpent_def
proof (intro ballI impI)
  fix r'
  assume r': "r' \<in> set (totpRows db')" "toUser r' = uid \<and> toCipher r' = tpCipher p \<and> toNonce r' = tpNonce p"
  with step_kept [OF assms(1)] assms(3) obtain r where r: "r \<in> set (totpRows db)" "totpFrom r r'"
    unfolding totpKept_def by metis
  with r'(2) assms(2) obtain m where "toConfirmed r \<noteq> None" "tpCounter p \<le> m" "toLast r = Some m"
    unfolding counterSpent_def totpFrom_def by metis
  then show "toConfirmed r' \<noteq> None \<and> (\<exists>m\<ge>tpCounter p. toLast r' = Some m)"
    using r(2) unfolding totpFrom_def by (meson order_trans)
qed

lemma codeSpent_step:
  assumes "tfStep smtp verify hashpw l db db'" "codeSpent uid h db" "\<not> codesLabel l uid h"
  shows "codeSpent uid h db'"
  using step_kept [OF assms(1)] assms(2,3) unfolding codesKept_def codeFrom_def codeSpent_def by metis

lemma counterSpent_run:
  "tfRun smtp verify hashpw ls db db' \<Longrightarrow> counterSpent uid p db \<Longrightarrow>
   list_all (\<lambda>l. \<not> seedsLabel l uid (tpCipher p) (tpNonce p)) ls \<Longrightarrow> counterSpent uid p db'"
  by (induction rule: tfRun.induct) (auto intro: counterSpent_step)

lemma codeSpent_run:
  "tfRun smtp verify hashpw ls db db' \<Longrightarrow> codeSpent uid h db \<Longrightarrow> list_all (\<lambda>l. \<not> codesLabel l uid h) ls \<Longrightarrow> codeSpent uid h db'"
  by (induction rule: tfRun.induct) (auto intro: codeSpent_step)

lemma counterSpent_refused: "counterSpent uid p db \<Longrightarrow> consumeTOTPProofIfCurrentTx uid p db = None"
  by (fastforce simp: consumeTOTPProofIfCurrentTx_def counterSpent_def list_ex_iff totpHit_def)

lemma codeSpent_refused: "codeSpent uid h db \<Longrightarrow> spendRecovery now uid h db = None"
  by (auto simp: spendRecovery_def RecoveryCodeIsLive_def list_ex_iff recoveryHit_def codeSpent_def)

lemma spend_counterSpent:
  assumes "consumeTOTPProofIfCurrentTx uid p db = Some db'" "totpsOk (totpRows db)"
  shows "counterSpent uid p db'"
proof -
  note t = consumeTotp_frames(8,9) [OF assms(1)]
  obtain q where q: "q \<in> set (totpRows db)" "totpHit uid p q" using t(2) by (auto simp: list_ex_iff)
  have u: "r = q" if "r \<in> set (totpRows db)" "toUser r = uid" for r
    using that q assms(2) by (auto simp: totpsOk_def distinct_map totpHit_def dest: inj_onD)
  show ?thesis
    unfolding counterSpent_def
  proof (intro ballI impI)
    fix r'
    assume r': "r' \<in> set (totpRows db')" "toUser r' = uid \<and> toCipher r' = tpCipher p \<and> toNonce r' = tpNonce p"
    then obtain r where r: "r \<in> set (totpRows db)" "r' = (if totpHit uid p r then r\<lparr>toLast := Some (tpCounter p)\<rparr> else r)"
      unfolding t(1) by auto
    with r' have "r = q" by (intro u) (auto split: if_splits)
    with r(2) q(2) show "toConfirmed r' \<noteq> None \<and> (\<exists>m\<ge>tpCounter p. toLast r' = Some m)" by (simp add: totpHit_def)
  qed
qed

lemma spend_codeSpent:
  assumes "spendRecovery now uid h db = Some db'"
  shows "codeSpent uid h db'"
  unfolding codeSpent_def
proof (intro ballI impI)
  fix r'
  assume r': "r' \<in> set (recoveryCodes db')" "rcUser r' = uid \<and> rcHash r' = h"
  from r'(1) obtain r where "r' = (if recoveryHit uid h r then r\<lparr>rcUsed := Some now\<rparr> else r)"
    unfolding spendRecovery_frames(8) [OF assms] set_map by (elim conjE imageE)
  with r'(2) show "rcUsed r' \<noteq> None" by (auto simp: recoveryHit_def split: if_splits)
qed

text \<open>
  C15. A second-factor proof is spent once.  After a sign-in by an authenticator code or a recovery code,
  the same proof completes no later sign-in of the account by the same method, and authorises no
  step-up, whatever happens in between, unless the same authenticator seed or the same recovery code is
  installed again.
\<close>

theorem second_factor_spent_once:
  assumes "emptyAuth db0" "accountIds (idn db0)" "tfRun smtp verify hashpw before db0 db"
    and "Complete2FA now family minted ch pr ttl ip ua db = (Inr (issue, m), db1)" "m \<noteq> MethodEmailOTP"
    and "tfRun smtp verify hashpw after db1 db2" "list_all (\<lambda>l. \<not> reinstalls (chUser ch) pr l) after"
    and "chUser ch' = chUser ch"
  shows "fst (Complete2FA now' family' minted' ch' pr ttl' ip' ua' db2) \<noteq> Inr (issue', m) \<and>
    ConsumeSecondFactor now' (chUser ch) \<lparr>sfMethod = m, sfTotp = cpTotp pr, sfDigest = cpRecovery pr\<rparr> db2 =
      (Inl (if m = MethodTOTP then ErrReplay else ErrBadCredentials), db2)"
proof -
  have "authOk db" using authOk_run [OF assms(3)] empty_authOk assms(1,2) by blast
  then have ok: "totpsOk (totpRows db)" by (simp add: authOk_def factorsOk_split)
  show ?thesis
    using assms(4)
  proof (rule Complete2FA_Inr)
    fix m' d issue0
    let ?u = "updateChallenge (chId ch) (\<lambda>c. c\<lparr>chConsumed := Some now\<rparr>) d"
    assume k: "consumeChallengeProofTx now ch pr db = Inr (m', d)" "(issue, m) = (issue0, m')"
      "openSession now family minted (chUser ch) ttl ip ua ?u = Inr (issue0, db1)"
    note o = openSession_frames [OF k(3)]
    from k(1) show ?thesis
    proof (cases rule: consumeChallengeProof_cases)
      case (totp p)
      have "counterSpent (chUser ch) p db1"
        using spend_counterSpent [OF totp(3) ok] o by (simp add: counterSpent_def)
      then have "counterSpent (chUser ch) p db2"
        by (rule counterSpent_run [OF assms(6)]) (use assms(7) totp(2) in \<open>auto simp: reinstalls_def list_all_iff\<close>)
      note r = counterSpent_refused [OF this]
      then show ?thesis using totp k(2) assms(8)
        by (auto simp: Complete2FA_def consumeChallengeProofTx_def ConsumeSecondFactor_def consumeSecondFactorTx_def
            consumeTOTPProofTx_def runTx_def rbind_def purpose_names split: option.splits sum.splits if_splits prod.splits)
    next
      case recovery
      have "codeSpent (chUser ch) (cpRecovery pr) db1"
        using spend_codeSpent [OF recovery(3)] o by (simp add: codeSpent_def)
      then have "codeSpent (chUser ch) (cpRecovery pr) db2"
        by (rule codeSpent_run [OF assms(6)]) (use assms(7) in \<open>auto simp: reinstalls_def list_all_iff\<close>)
      note r = codeSpent_refused [OF this]
      then show ?thesis using recovery k(2) assms(8)
        by (auto simp: Complete2FA_def consumeChallengeProofTx_def ConsumeSecondFactor_def consumeSecondFactorTx_def
            runTx_def rbind_def purpose_names split: option.splits sum.splits if_splits prod.splits)
    qed (use k(2) assms(5) in simp)
  qed
qed

section \<open>An account enrolls and signs in\<close>

definition enrollChallenge :: newChallenge where
  "enrollChallenge = \<lparr>ncUser = 1, ncPurpose = PurposeEnroll2FA, ncVersion = 0, ncTTL = 600, ncMailbox = False, ncOauth = None\<rparr>"

definition demoOpened :: authdb where
  "demoOpened = snd (CreateChallenge 5 ''e'' enrollChallenge demoAuth)"

definition demoSeeded :: authdb where
  "demoSeeded = snd (StartTOTPEnrollment 6 \<lparr>spUser = 1, spSession = 0, spVersion = 0\<rparr> ''c'' ''n'' demoOpened)"

definition demoEnroll :: enrollmentComplete where
  "demoEnroll = \<lparr>ecUser = 1, ecVersion = 0, ecHashes = [''r'', ''s''],
     ecSession = PreAuth (the (challengeById 1 demoSeeded)) demoTTL ''ip'' ''ua''\<rparr>"

definition demoEnrolled :: authdb where
  "demoEnrolled = snd (CompleteTOTPEnrollment 8 ''f'' (''a1'', ''r1'', ''c1'') demoEnroll
     \<lparr>tpCounter = 7, tpCipher = ''c'', tpNonce = ''n''\<rparr> demoSeeded)"

definition demoAsked :: authdb where
  "demoAsked = snd (CreateChallenge 20 ''t'' demoChallenge demoEnrolled)"

definition demoProof :: challengeProof where
  "demoProof = \<lparr>cpTotp = Some \<lparr>tpCounter = 8, tpCipher = ''c'', tpNonce = ''n''\<rparr>, cpEmail = [], cpRecovery = []\<rparr>"

definition demoSigned :: "(authErr + sessionIssue \<times> string) \<times> authdb" where
  "demoSigned = Complete2FA 30 ''g'' (''a2'', ''r2'', ''c2'') (the (challengeById 2 demoAsked)) demoProof demoTTL ''ip'' ''ua'' demoAsked"

definition demoAgain :: authdb where
  "demoAgain = snd (CreateChallenge 40 ''u'' demoChallenge (snd demoSigned))"

lemma demo_opened: "CreateChallenge 5 ''e'' enrollChallenge demoAuth = (Inr 1, demoOpened)"
  by code_simp

lemma demo_seeded:
  "StartTOTPEnrollment 6 \<lparr>spUser = 1, spSession = 0, spVersion = 0\<rparr> ''c'' ''n'' demoOpened = (Inr (), demoSeeded)"
  by code_simp

lemma demo_enrolled:
  "\<exists>r. CompleteTOTPEnrollment 8 ''f'' (''a1'', ''r1'', ''c1'') demoEnroll
     \<lparr>tpCounter = 7, tpCipher = ''c'', tpNonce = ''n''\<rparr> demoSeeded = (Inr r, demoEnrolled)"
proof -
  have "\<not> isl (fst (CompleteTOTPEnrollment 8 ''f'' (''a1'', ''r1'', ''c1'') demoEnroll
     \<lparr>tpCounter = 7, tpCipher = ''c'', tpNonce = ''n''\<rparr> demoSeeded))" by code_simp
  then show ?thesis unfolding demoEnrolled_def by (metis isl_def prod.collapse sum.collapse(2))
qed

lemma demo_asked: "CreateChallenge 20 ''t'' demoChallenge demoEnrolled = (Inr 2, demoAsked)"
  by code_simp

lemma demo_signed:
  "\<exists>issue. Complete2FA 30 ''g'' (''a2'', ''r2'', ''c2'') (the (challengeById 2 demoAsked)) demoProof demoTTL ''ip'' ''ua'' demoAsked =
     (Inr (issue, MethodTOTP), snd demoSigned)"
proof -
  have "(case fst demoSigned of Inl e \<Rightarrow> False | Inr r \<Rightarrow> snd r = MethodTOTP)" by code_simp
  then obtain issue where "fst demoSigned = Inr (issue, MethodTOTP)" by (auto split: sum.splits)
  then show ?thesis by (auto simp: demoSigned_def prod_eq_iff)
qed

lemma demo_again: "CreateChallenge 40 ''u'' demoChallenge (snd demoSigned) = (Inr 3, demoAgain)"
  by code_simp

lemma demo_start: "emptyAuth demoAuth" "accountIds (idn demoAuth)"
  by code_simp+

lemma demo_run:
  "tfRun True (=) Some [Opened 5, Seeded 6 1 ''c'' ''n'', Done 8 1 PurposeEnroll2FA (Some 0) [''r'', ''s''], Opened 20] demoAuth demoAsked"
proof -
  obtain r where r: "CompleteTOTPEnrollment 8 ''f'' (''a1'', ''r1'', ''c1'') demoEnroll
     \<lparr>tpCounter = 7, tpCipher = ''c'', tpNonce = ''n''\<rparr> demoSeeded = (Inr r, demoEnrolled)"
    using demo_enrolled by blast
  have "tfStep True (=) Some (Done 8 (ecUser demoEnroll) PurposeEnroll2FA (Some (ecVersion demoEnroll)) (ecHashes demoEnroll))
      demoSeeded demoEnrolled"
    by (rule tfStep.preTotp [OF r]) (simp add: demoEnroll_def)
  moreover have "tfStep True (=) Some (Seeded 6 1 ''c'' ''n'') demoOpened demoSeeded"
    using tfStep.startTotp [OF demo_seeded, of True "(=)" Some] by simp
  ultimately show ?thesis
    using tfStep.create [OF demo_opened, of True "(=)" Some] tfStep.create [OF demo_asked, of True "(=)" Some]
    by (auto simp: demoEnroll_def intro!: tfRun.intros)
qed

lemma demo_run_again: "tfRun True (=) Some [Opened 40] (snd demoSigned) demoAgain"
  using tfStep.create [OF demo_again, of True "(=)" Some] by (auto intro!: tfRun.intros)

lemma demo_ch: "chUser (the (challengeById 2 demoAsked)) = 1" "chUser (the (challengeById 3 demoAgain)) = 1"
  by code_simp+

lemma second_factor_spent_once_witness:
  "fst (Complete2FA 50 ''h'' (''a3'', ''r3'', ''c3'') (the (challengeById 3 demoAgain)) demoProof demoTTL ''ip'' ''ua'' demoAgain) \<noteq>
     Inr (newSessionIssue 50 demoTTL (''a3'', ''r3'', ''c3''), MethodTOTP) \<and>
   ConsumeSecondFactor 50 1 \<lparr>sfMethod = MethodTOTP, sfTotp = cpTotp demoProof, sfDigest = cpRecovery demoProof\<rparr> demoAgain =
     (Inl ErrReplay, demoAgain)"
proof -
  obtain issue where s: "Complete2FA 30 ''g'' (''a2'', ''r2'', ''c2'') (the (challengeById 2 demoAsked)) demoProof demoTTL ''ip'' ''ua'' demoAsked =
     (Inr (issue, MethodTOTP), snd demoSigned)"
    using demo_signed by blast
  show ?thesis
    using second_factor_spent_once [OF demo_start demo_run s _ demo_run_again, of "the (challengeById 3 demoAgain)"
        50 "''h''" "(''a3'', ''r3'', ''c3'')" demoTTL "''ip''" "''ua''" "newSessionIssue 50 demoTTL (''a3'', ''r3'', ''c3'')"]
    by (simp add: purpose_names demo_ch reinstalls_def labels demoProof_def)
qed

lemma step_seq:
  assumes "tfStep smtp verify hashpw l db db'"
  shows "challengeSeq db \<le> challengeSeq db'"
  using assms
proof cases
  case (create now tok nc i)
  from create(2) show ?thesis by (rule create_Inr) simp
next
  case (bump now i n c)
  from bump(2) show ?thesis by (rule bump_Inr) simp
next
  case (consume now i c)
  then show ?thesis by (auto simp: ConsumeChallenge_def split: sum.splits if_splits)
next
  case (send i c db0 now h ttl cooldown ok mail k)
  then show ?thesis
    by (auto simp: CreateChallengeEmailOTP_def Let_def runTx_Inr rbind_Inr_iff  
        dest!: enqueue_frames split: sum.splits if_splits)
next
  case (startTotp now sp cipher nonce)
  then show ?thesis by (simp add: StartTOTP_Inr)
next
  case (liveTotp now family minted e pr r sid)
  from liveTotp(2) show ?thesis
    by (rule CompleteTOTP_Inr) (simp add: finishPreAuth_Inr replaceRecovery_frames confirmTOTP_Inr)
next
  case (preTotp now family minted e pr r ch ttl ip ua)
  from preTotp(2) show ?thesis
    by (rule CompleteTOTP_Inr) (simp add: finishPreAuth_Inr replaceRecovery_frames confirmTOTP_Inr)
next
  case (startEmail now sp m ok)
  then show ?thesis by (simp add: StartEmail_Inr)
next
  case (liveEmail now family minted e h r sid)
  from liveEmail(2) show ?thesis
    by (rule CompleteEmail_Inr) (simp add: finishPreAuth_Inr spendEnrollment_Inr)
next
  case (preEmail now family minted e h r ch ttl ip ua)
  from preEmail(2) show ?thesis
    by (rule CompleteEmail_Inr) (simp add: finishPreAuth_Inr spendEnrollment_Inr)
next
  case (complete now family minted ch pr ttl ip ua r)
  from complete(2) show ?thesis
    by (rule Complete2FA_Inr) (simp add: openSession_frames consumeChallengeProof_frames)
next
  case (stepUpCode now sp m ok)
  show ?thesis by (simp add: mintOtp_frames [OF stepUpCode_Inr(1) [OF stepUpCode(2)]])
next
  case (spend now uid p)
  show ?thesis by (simp add: consumeSecondFactor_frames [OF spend_Inr [OF spend(2)]])
next
  case (disableTotp now sp pw p)
  from disableTotp(2) show ?thesis
    by (rule DisableTOTP_Inr) (erule disableFactor_Inr, simp add: consumeSecondFactor_frames)
next
  case (disableEmail now sp p)
  from disableEmail(2) show ?thesis
    by (rule DisableEmail_Inr) (erule disableFactor_Inr, simp add: consumeSecondFactor_frames)
next
  case (regenerate now sp pw p hs)
  from regenerate(2) show ?thesis
    by (rule Regenerate_Inr) (simp add: consumeSecondFactor_frames replaceRecovery_frames)
next
  case (verification now raw uid m ok)
  show ?thesis by (simp add: mintOtp_frames [OF verification_Inr [OF verification(2)]])
next
  case (verified now tok uid)
  then show ?thesis
    by (auto simp: ConsumeEmailVerification_def Let_def runTx_Inr split: option.splits sum.splits)
next
  case (resetLink now raw tok uid ttl ok draft)
  then show ?thesis
    by (auto simp: CreatePasswordReset_def runTx_Inr simp: mintReset_Inr split: option.splits if_splits)
next
  case (adminReset now raw tok uid ttl ok draftFor)
  then show ?thesis
    by (auto simp: CreateAdminPasswordRecovery_def runTx_Inr simp: mintReset_Inr split: option.splits if_splits)
next
  case (reset now tk pw u)
  from reset(2) show ?thesis by (rule reset_Inr) simp
next
  case (sweep retain now n)
  show ?thesis by (simp add: sweep_frames [OF sweep(3)])
qed auto

section \<open>Mailed codes\<close>

text \<open>Challenge ids stay unique: an account that never existed has no budget to disturb.\<close>

lemma step_chIds:
  assumes "tfStep smtp verify hashpw l db db'" "chIds db" "accountIds (idn db)"
  shows "chIds db'"
proof -
  define A where "A = insert (userSeq (idn db)) (uId ` set (users (idn db)))"
  define uid where "uid = Min A - 1"
  have fin: "finite A" by (simp add: A_def)
  have "Min A \<le> userSeq (idn db)" by (rule Min_le [OF fin]) (simp add: A_def)
  then have lt: "uid < userSeq (idn db)" by (simp add: uid_def)
  have lu: "uid < uId u" if "u \<in> set (users (idn db))" for u
  proof -
    have "Min A \<le> uId u" by (rule Min_le [OF fin]) (simp add: A_def that)
    then show ?thesis by (simp add: uid_def)
  qed
  obtain v where v: "\<And>t p hs. l \<noteq> Done t uid p (Some v) hs"
  proof (cases l)
    case (Done t i p w hs)
    show thesis by (rule that [of "case w of None \<Rightarrow> 0 | Some n \<Rightarrow> Suc n"]) (auto simp: Done split: option.splits)
  qed (rule that, simp)+
  have "charged uid PurposeTOTP v (labelTime l + 1) 0 db"
    using lt lu assms(2,3) by (fastforce simp: charged_def epochFrom_def epochOver_def list_all_iff)
  moreover have "\<not> isDone uid PurposeTOTP v l" using v by (auto simp: isDone_def split: tfLabel.splits)
  ultimately show ?thesis using charged_step [OF assms(1), of uid PurposeTOTP v "labelTime l + 1" 0] by (simp add: charged_def)
qed

text \<open>A code that can still be used was sent for a challenge that may take one.\<close>

definition mailedOk :: "authdb \<Rightarrow> bool" where
  "mailedOk db = (chIds db \<and> (\<forall>o'\<in>set (emailOtps db). \<forall>i. eoChallenge o' = Some i \<and> eoConsumed o' = None \<longrightarrow>
     i < challengeSeq db \<and> (\<forall>c\<in>set (challenges db). chId c = i \<longrightarrow> \<not> chMailbox c)))"

lemma step_mailed:
  assumes "tfStep smtp verify hashpw l db db'" "mailedOk db" "accountIds (idn db)"
  shows "mailedOk db'"
proof -
  note k = step_kept [OF assms(1)] and sq = step_seq [OF assms(1)]
  have ids: "chIds db" using assms(2) by (simp add: mailedOk_def)
  have "i < challengeSeq db' \<and> (\<forall>c\<in>set (challenges db'). chId c = i \<longrightarrow> \<not> chMailbox c)"
    if o': "o' \<in> set (emailOtps db')" "eoChallenge o' = Some i" "eoConsumed o' = None" for o' i
  proof -
    have "i < challengeSeq db \<and> (\<forall>c\<in>set (challenges db). chId c = i \<longrightarrow> \<not> chMailbox c)"
    proof (cases "\<exists>r\<in>set (emailOtps db). otpFrom r o'")
      case True
      then show ?thesis using assms(2) o' unfolding mailedOk_def otpFrom_def by metis
    next
      case False
      from k have "otpsKept l db db'" by simp
      from bspec [OF this [unfolded otpsKept_def] o'(1)] False o'(2)
      obtain c where "c \<in> set (challenges db)" "i = chId c" "\<not> chMailbox c" by auto
      then show ?thesis using chId_eq [OF ids] ids by (metis chIds_def list_all_iff)
    qed
    then show ?thesis
      using k sq unfolding challengesKept_def challengeFrom_def by (metis less_irrefl order.strict_trans2)
  qed
  then show ?thesis using step_chIds [OF assms(1) ids assms(3)] by (simp add: mailedOk_def)
qed

lemma mailed_run:
  "tfRun smtp verify hashpw ls db db' \<Longrightarrow> mailedOk db \<Longrightarrow> accountIds (idn db) \<Longrightarrow> mailedOk db'"
proof (induction rule: tfRun.induct)
  case (more l db db' ls db'')
  then show ?case using step_mailed step_epochs by (metis epochGrows_def)
qed

text \<open>A login code in the table was there before, or mailed on the way.\<close>

lemma sent_run:
  assumes "tfRun smtp verify hashpw ls db db'" "o' \<in> set (emailOtps db')" "eoPurpose o' = OTPPurposeLogin2FA"
  shows "(\<exists>r\<in>set (emailOtps db). eoUser r = eoUser o' \<and> eoHash r = eoHash o' \<and> eoPurpose r = OTPPurposeLogin2FA) \<or>
    list_ex (\<lambda>l. sendsLabel l (eoUser o') (eoHash o')) ls"
  using assms
proof (induction rule: tfRun.induct)
  case (stop db)
  then show ?case by blast
next
  case (more l db db1 ls db2)
  from more.IH [OF more.prems] show ?case
  proof
    assume "\<exists>r\<in>set (emailOtps db1). eoUser r = eoUser o' \<and> eoHash r = eoHash o' \<and> eoPurpose r = OTPPurposeLogin2FA"
    then obtain r where r: "r \<in> set (emailOtps db1)" "eoUser r = eoUser o'" "eoHash r = eoHash o'" "eoPurpose r = OTPPurposeLogin2FA"
      by blast
    show ?thesis
    proof (cases "\<exists>q\<in>set (emailOtps db). otpFrom q r")
      case True
      then show ?thesis using r unfolding otpFrom_def by metis
    next
      case False
      then have "sendsLabel l (eoUser r) (eoHash r)"
        using step_kept [OF more.hyps(1)] r(1,4) unfolding otpsKept_def by (metis (no_types, lifting))
      then show ?thesis using r by simp
    qed
  qed simp
qed

text \<open>
  C17. A mailed code is a second factor only when the mailbox was not the first.  A sign-in completed by a
  mailed code has a challenge that did not start from the mailbox, and the code is one that was mailed for
  the account's pending sign-in.
\<close>

theorem mailed_code_is_independent:
  assumes "emptyAuth db0" "accountIds (idn db0)" "tfRun smtp verify hashpw ls db0 db"
    and "Complete2FA now family minted ch pr ttl ip ua db = (Inr (issue, MethodEmailOTP), db')"
  shows "(\<exists>c. challengeById (chId ch) db = Some c \<and> chUser c = chUser ch \<and> \<not> chMailbox c) \<and>
    list_ex (\<lambda>l. sendsLabel l (chUser ch) (cpEmail pr)) ls"
  using assms(4)
proof (rule Complete2FA_Inr)
  fix c m d issue0
  assume k: "c \<in> set (challenges db)" "chId c = chId ch" "chUser c = chUser ch"
    "consumeChallengeProofTx now ch pr db = Inr (m, d)" "(issue, MethodEmailOTP) = (issue0, m)"
  have "chIds db0" "mailedOk db0" using assms(1) by (simp_all add: emptyAuth_def chIds_def mailedOk_def)
  then have ok: "mailedOk db" using mailed_run [OF assms(3)] assms(2) by blast
  from k(4) show ?thesis
  proof (cases rule: consumeChallengeProof_cases)
    case email
    then obtain o' where o': "o' \<in> set (emailOtps db)" "loginOtpHit now ch (cpEmail pr) o'" by (auto simp: list_ex_iff)
    then have e: "eoChallenge o' = Some (chId c)" "eoConsumed o' = None" "eoUser o' = chUser ch" "eoHash o' = cpEmail pr"
      "eoPurpose o' = OTPPurposeLogin2FA"
      by (simp_all add: loginOtpHit_def otpHit_def k(2))
    have "\<not> chMailbox c" using ok o'(1) e(1,2) k(1) unfolding mailedOk_def by blast
    moreover have "challengeById (chId ch) db = Some c"
      using challengeById_Some [of db] ok k(1,2) by (simp add: mailedOk_def)
    ultimately show ?thesis using sent_run [OF assms(3) o'(1) e(5)] e k(3) assms(1) by (auto simp: emptyAuth_def)
  qed (use k(5) in \<open>simp_all add: purpose_names\<close>)
qed

text \<open>A second account confirms its mailbox, and signs in with a mailed code.\<close>

definition mailOpened :: authdb where
  "mailOpened = snd (StartEmailFactorEnrollment 6 \<lparr>spUser = 1, spSession = 0, spVersion = 0\<rparr>
     \<lparr>emDigest = ''m'', emTTL = 300, emCooldown = 60, emDraft = None\<rparr> True demoOpened)"

definition mailEnroll :: enrollmentComplete where
  "mailEnroll = \<lparr>ecUser = 1, ecVersion = 0, ecHashes = [''r'', ''s''],
     ecSession = PreAuth (the (challengeById 1 mailOpened)) demoTTL ''ip'' ''ua''\<rparr>"

definition mailEnrolled :: authdb where
  "mailEnrolled = snd (CompleteEmailFactorEnrollment 8 ''f'' (''a1'', ''r1'', ''c1'') mailEnroll ''m'' mailOpened)"

definition mailAsked :: authdb where
  "mailAsked = snd (CreateChallenge 20 ''t'' demoChallenge mailEnrolled)"

definition mailSent :: authdb where
  "mailSent = snd (CreateChallengeEmailOTP 21 2 ''x'' 300 60 True None mailAsked)"

definition mailProof :: challengeProof where
  "mailProof = \<lparr>cpTotp = None, cpEmail = ''x'', cpRecovery = []\<rparr>"

definition mailSigned :: "(authErr + sessionIssue \<times> string) \<times> authdb" where
  "mailSigned = Complete2FA 30 ''g'' (''a2'', ''r2'', ''c2'') (the (challengeById 2 mailSent)) mailProof demoTTL ''ip'' ''ua'' mailSent"

lemma mail_opened: "StartEmailFactorEnrollment 6 \<lparr>spUser = 1, spSession = 0, spVersion = 0\<rparr>
     \<lparr>emDigest = ''m'', emTTL = 300, emCooldown = 60, emDraft = None\<rparr> True demoOpened = (Inr (), mailOpened)"
  by code_simp

lemma mail_enrolled:
  "\<exists>r. CompleteEmailFactorEnrollment 8 ''f'' (''a1'', ''r1'', ''c1'') mailEnroll ''m'' mailOpened = (Inr r, mailEnrolled)"
proof -
  have "\<not> isl (fst (CompleteEmailFactorEnrollment 8 ''f'' (''a1'', ''r1'', ''c1'') mailEnroll ''m'' mailOpened))" by code_simp
  then show ?thesis unfolding mailEnrolled_def by (metis isl_def prod.collapse sum.collapse(2))
qed

lemma mail_asked: "CreateChallenge 20 ''t'' demoChallenge mailEnrolled = (Inr 2, mailAsked)"
  by code_simp

lemma mail_sent: "CreateChallengeEmailOTP 21 2 ''x'' 300 60 True None mailAsked = (Inr 1, mailSent)"
  by code_simp

lemma mail_run:
  "tfRun True (=) Some [Opened 5, Other 6, Done 8 1 PurposeEnroll2FA (Some 0) [''r'', ''s''], Opened 20, Sent 21 1 ''x''] demoAuth mailSent"
proof -
  obtain r where r: "CompleteEmailFactorEnrollment 8 ''f'' (''a1'', ''r1'', ''c1'') mailEnroll ''m'' mailOpened = (Inr r, mailEnrolled)"
    using mail_enrolled by blast
  have "tfStep True (=) Some (Done 8 (ecUser mailEnroll) PurposeEnroll2FA (Some (ecVersion mailEnroll)) (ecHashes mailEnroll))
      mailOpened mailEnrolled"
    by (rule tfStep.preEmail [OF r]) (simp add: mailEnroll_def)
  moreover have c: "chUser (the (challengeById 2 mailAsked)) = 1" "challengeById 2 mailAsked = Some (the (challengeById 2 mailAsked))"
    "emailFactorAvailable True (chPurpose (the (challengeById 2 mailAsked))) (chMailbox (the (challengeById 2 mailAsked)))
       (emailEnabled (chUser (the (challengeById 2 mailAsked))) mailAsked)"
    by code_simp+
  then have "tfStep True (=) Some (Sent 21 1 ''x'') mailAsked mailSent"
    using tfStep.send [OF c(2,3) mail_sent, of "(=)" Some] by simp
  ultimately show ?thesis
    using tfStep.create [OF demo_opened, of True "(=)" Some] tfStep.create [OF mail_asked, of True "(=)" Some]
      tfStep.startEmail [OF mail_opened, of True "(=)" Some]
    by (auto simp: mailEnroll_def intro!: tfRun.intros)
qed

lemma mail_signed:
  "\<exists>issue. Complete2FA 30 ''g'' (''a2'', ''r2'', ''c2'') (the (challengeById 2 mailSent)) mailProof demoTTL ''ip'' ''ua'' mailSent =
     (Inr (issue, MethodEmailOTP), snd mailSigned)"
proof -
  have "(case fst mailSigned of Inl e \<Rightarrow> False | Inr r \<Rightarrow> snd r = MethodEmailOTP)" by code_simp
  then obtain issue where "fst mailSigned = Inr (issue, MethodEmailOTP)" by (auto split: sum.splits)
  then show ?thesis by (auto simp: mailSigned_def prod_eq_iff)
qed

lemma mailed_code_is_independent_witness:
  "(\<exists>c. challengeById (chId (the (challengeById 2 mailSent))) mailSent = Some c \<and>
      chUser c = chUser (the (challengeById 2 mailSent)) \<and> \<not> chMailbox c) \<and>
    list_ex (\<lambda>l. sendsLabel l (chUser (the (challengeById 2 mailSent))) ''x'')
      [Opened 5, Other 6, Done 8 1 PurposeEnroll2FA (Some 0) [''r'', ''s''], Opened 20, Sent 21 1 ''x'']"
proof -
  obtain issue where s: "Complete2FA 30 ''g'' (''a2'', ''r2'', ''c2'') (the (challengeById 2 mailSent)) mailProof demoTTL ''ip'' ''ua'' mailSent =
     (Inr (issue, MethodEmailOTP), snd mailSigned)"
    using mail_signed by blast
  show ?thesis using mailed_code_is_independent [OF demo_start mail_run s] by (simp add: mailProof_def)
qed

section \<open>Recovery codes\<close>

text \<open>
  C18. Recovery codes exist only for accounts with a confirmed second factor: removing the last factor
  removes them, and no enrollment that is not confirmed leaves any.
\<close>

theorem recovery_codes_need_factor:
  assumes "emptyAuth db0" "accountIds (idn db0)" "tfRun smtp verify hashpw ls db0 db" "r \<in> set (recoveryCodes db)"
  shows "HasConfirmedSecondFactor (rcUser r) False db"
proof -
  have "authOk db" using authOk_run [OF assms(3)] empty_authOk assms(1,2) by blast
  with assms(4) show ?thesis by (auto simp: authOk_def factorsOk_def list_all_iff)
qed

lemma recovery_codes_need_factor_witness: "HasConfirmedSecondFactor 1 False demoAsked"
proof -
  have "\<lparr>rcUser = 1, rcHash = ''r'', rcUsed = None\<rparr> \<in> set (recoveryCodes demoAsked)" by code_simp
  from recovery_codes_need_factor [OF demo_start demo_run this] show ?thesis by simp
qed

section \<open>Password reset\<close>

text \<open>
  C16. A password reset shuts out everyone who was in.  Afterwards the account has the new password and a new
  epoch, all its sessions are revoked, none of its pending sign-ins is usable, and no reset link of the
  account, the one just used included, resets it again.
\<close>

theorem reset_evicts_everyone:
  assumes "emptyAuth db0" "accountIds (idn db0)" "tfRun smtp verify hashpw ls db0 db"
    and "ConsumePasswordReset hashpw now tk pw db = (Inr u, db')"
  shows "u \<in> set (users (idn db')) \<and> uPwHash u = hashpw pw \<and>
    (\<forall>s. s \<in> set (sessions (idn db')) \<longrightarrow> sUser s = uId u \<longrightarrow> sRevoked s \<noteq> None) \<and>
    (\<forall>c t. c \<in> set (challenges db') \<longrightarrow> chUser c = uId u \<longrightarrow> \<not> challengeOk t db' c) \<and>
    (\<forall>t tk' pw' w. fst (ConsumePasswordReset hashpw t tk' pw' db') = Inr w \<longrightarrow> uId w \<noteq> uId u)"
  using assms(4)
proof (rule reset_Inr)
  fix t h r w
  assume k: "tk = Some t" "hashpw pw = Some h" "r \<in> set (resets db)" "pwToken r = t" "resetLive now r"
    "userById (pwUser r) (idn db) = Some w" "uStatus w = StatusActive" "pwVersion r = Some (uTokenVersion w)"
    "users (idn db') = map (\<lambda>v. if uId v = pwUser r \<and> uStatus v = StatusActive \<and> uTokenVersion v = uTokenVersion w
       then afterReset now h v else v) (users (idn db))"
    "sessions (idn db') = map (\<lambda>s. if sUser s = pwUser r \<and> sRevoked s = None
       then s\<lparr>sRevoked := Some now, sReason := Some ReasonPasswordChanged\<rparr> else s) (sessions (idn db))"
    "challenges db' = challenges db"
    "resets db' = map (\<lambda>q. if pwToken q = t \<and> pwUser q = pwUser r \<and> pwVersion q = Some (uTokenVersion w) \<and> resetLive now q
       then q\<lparr>pwConsumed := Some now\<rparr> else q) (resets db)"
  assume u: "u = afterReset now h w"
  have "authOk db" using authOk_run [OF assms(3)] empty_authOk assms(1,2) by blast
  then have ek: "epochsKnown db" and acc: "accountIds (idn db)" by (simp_all add: authOk_def epochsKnown_def)
  have w: "w \<in> set (users (idn db))" "uId w = pwUser r"
    using k(6) by (auto simp: userById_def dest: find_SomeD)
  have uq: "v = w" if "v \<in> set (users (idn db))" "uId v = pwUser r" for v
    using that w acc by (simp add: accountIds_def distinct_map inj_on_def)
  have us: "uId u = pwUser r" "uTokenVersion u = Suc (uTokenVersion w)" "uPwHash u = hashpw pw"
    by (simp_all add: u afterReset_def w k(2))
  have now_u: "v = u" if "v \<in> set (users (idn db'))" "uId v = pwUser r" for v
    using that uq k(7) w(2) unfolding k(9) u by (auto simp: afterReset_def split: if_splits)
  have known: "x \<le> uTokenVersion w" if "epochFrom (pwUser r) x db" for x
    using that w by (auto simp: epochFrom_def list_all_iff)
  have "u \<in> set (users (idn db'))"
    unfolding k(9) u using w k(7) by force
  moreover have "\<forall>s. s \<in> set (sessions (idn db')) \<longrightarrow> sUser s = uId u \<longrightarrow> sRevoked s \<noteq> None"
    unfolding k(10) us(1) by (auto split: if_splits)
  moreover have "\<not> challengeOk x db' c" if ch: "c \<in> set (challenges db')" "chUser c = uId u" for c x
  proof
    assume "challengeOk x db' c"
    then obtain v y where "chVersion c = Some v" "y \<in> set (users (idn db'))" "uId y = pwUser r" "uTokenVersion y = v"
      using ch(2) us(1) by (auto simp: challengeOk_def activeAt_def list_ex_iff split: option.splits)
    moreover from this have "v \<le> uTokenVersion w"
      using ek ch known us(1) unfolding k(11) epochsKnown_def by metis
    ultimately show False using now_u [of y] us(2) by simp
  qed
  moreover have "uId y \<noteq> uId u" if "fst (ConsumePasswordReset hashpw x tk' pw' db') = Inr y" for x tk' pw' y
  proof
    assume same: "uId y = uId u"
    from that obtain d where "ConsumePasswordReset hashpw x tk' pw' db' = (Inr y, d)" by (metis prod.collapse)
    then show False
    proof (rule reset_Inr)
      fix h' r' w'
      assume n: "r' \<in> set (resets db')" "userById (pwUser r') (idn db') = Some w'" "pwVersion r' = Some (uTokenVersion w')"
        "y = afterReset x h' w'"
      have w': "w' \<in> set (users (idn db'))" "uId w' = pwUser r'" using n(2) by (auto simp: userById_def dest: find_SomeD)
      then have p: "pwUser r' = pwUser r" using same us(1) n(4) by (simp add: afterReset_def)
      obtain q where "q \<in> set (resets db)" "pwUser q = pwUser r'" "pwVersion q = pwVersion r'"
        using n(1) unfolding k(12) by (auto split: if_splits)
      then have "uTokenVersion w' \<le> uTokenVersion w" using ek n(3) p known unfolding epochsKnown_def by metis
      then show False using now_u [of w'] w' p us(2) by simp
    qed
  qed
  ultimately show ?thesis using us(3) by blast
qed

lemma tfRun_snoc:
  "tfRun smtp verify hashpw ls db db' \<Longrightarrow> tfStep smtp verify hashpw l db' db'' \<Longrightarrow> tfRun smtp verify hashpw (ls @ [l]) db db''"
  by (induction rule: tfRun.induct) (auto intro: tfRun.intros)

text \<open>The account of the demonstration asks for a reset while it has a session and a pending sign-in.\<close>

definition demoLink :: authdb where
  "demoLink = snd (CreatePasswordReset 50 [] ''l'' 1 600 True None demoAsked)"

definition demoReset :: "(authErr + user) \<times> authdb" where
  "demoReset = ConsumePasswordReset Some 60 (Some ''l'') ''new'' demoLink"

lemma demo_link: "CreatePasswordReset 50 [] ''l'' 1 600 True None demoAsked = (Inr (), demoLink)"
  by code_simp

lemma link_run:
  "tfRun True (=) Some [Opened 5, Seeded 6 1 ''c'' ''n'', Done 8 1 PurposeEnroll2FA (Some 0) [''r'', ''s''], Opened 20, Other 50]
     demoAuth demoLink"
  using tfRun_snoc [OF demo_run tfStep.resetLink [OF demo_link]] by simp

lemma reset_evicts_everyone_witness:
  "(case fst demoReset of Inl e \<Rightarrow> False | Inr u \<Rightarrow> uId u = 1 \<and> uPwHash u = Some ''new'' \<and>
     (\<forall>s. s \<in> set (sessions (idn (snd demoReset))) \<longrightarrow> sUser s = 1 \<longrightarrow> sRevoked s \<noteq> None)) \<and>
   sessions (idn (snd demoReset)) \<noteq> [] \<and> challenges (snd demoReset) \<noteq> []"
proof -
  have "(case fst demoReset of Inl e \<Rightarrow> False | Inr u \<Rightarrow> uId u = 1)" "sessions (idn (snd demoReset)) \<noteq> []"
    "challenges (snd demoReset) \<noteq> []" by code_simp+
  moreover from this(1) obtain u where u: "fst demoReset = Inr u" "uId u = 1" by (auto split: sum.splits)
  then have "ConsumePasswordReset Some 60 (Some ''l'') ''new'' demoLink = (Inr u, snd demoReset)"
    by (simp add: demoReset_def prod_eq_iff)
  from reset_evicts_everyone [OF demo_start link_run this] u
  have "uPwHash u = Some ''new'' \<and> (\<forall>s. s \<in> set (sessions (idn (snd demoReset))) \<longrightarrow> sUser s = 1 \<longrightarrow> sRevoked s \<noteq> None)" by simp
  ultimately show ?thesis using u by simp
qed

text \<open>
  Nothing in \<open>CreatePasswordReset\<close> spaces the links: where one was minted another can be at once, and it
  supersedes the first.
\<close>

lemma reset_link_has_no_cooldown:
  assumes "CreatePasswordReset now raw tok uid ttl ok draft db = (Inr (), db1)" "tok' \<notin> set (map pwToken (resets db1))"
  shows "fst (CreatePasswordReset now raw' tok' uid ttl' True draft' db1) = Inr ()"
proof -
  obtain u where u: "userById uid (idn db) = Some u" "uStatus u = StatusActive" "uPwHash u \<noteq> None"
    "mintReset now raw tok u ttl ok draft db = Inr ((), db1)"
    using assms(1) by (auto simp: CreatePasswordReset_def runTx_Inr split: option.splits if_splits)
  have "userById uid (idn db1) = Some u" using mintReset_Inr(1) [OF u(4)] u(1) by simp
  then show ?thesis using u(2,3) assms(2)
    by (auto simp: CreatePasswordReset_def runTx_def mintReset_def rbind_def enqueueDraft_def split: option.splits)
qed

end
