(* ===== verification/TwoFactorCodes.thy ===== *)
theory TwoFactorCodes
  imports TwoFactor "HOL-Library.Word"
begin

text \<open>
  The codes of the second factor: \<open>backend/internal/auth/twofa/totp.go\<close>, \<open>recovery.go\<close>, \<open>factor.go\<close>,
  \<open>twofa_verify.go\<close> and \<open>code_mac.go\<close>.  Byte strings are \<open>string\<close>s.  \<open>hotp\<close> is the code generator of the
  OTP library (\<open>None\<close> for its error), \<open>hmac\<close> is HMAC-SHA256.
\<close>

section \<open>One-time codes as typed\<close>

definition isDigit :: "char \<Rightarrow> bool" where
  "isDigit c = (48 \<le> (of_char c :: nat) \<and> (of_char c :: nat) \<le> 57)"

definition isUpper :: "char \<Rightarrow> bool" where
  "isUpper c = (65 \<le> (of_char c :: nat) \<and> (of_char c :: nat) \<le> 90)"

definition isLower :: "char \<Rightarrow> bool" where
  "isLower c = (97 \<le> (of_char c :: nat) \<and> (of_char c :: nat) \<le> 122)"

text \<open>\<open>strings.Map\<close> drops every rune that is not an ASCII digit; no byte of a longer rune is one.\<close>

definition NormalizeOTP :: "string \<Rightarrow> string" where
  "NormalizeOTP code = filter isDigit code"

definition Digits :: nat where "Digits = 6"
definition PeriodSeconds :: int where "PeriodSeconds = 30"
definition Skew :: int where "Skew = 1"
definition RecoveryCount :: nat where "RecoveryCount = 10"

text \<open>
  The compacted form: the separators are dropped, among them U+00A0, which is the byte pair C2 A0.  Go
  also writes an invalid byte as U+FFFD; either way the result is not six digits.
\<close>

definition isSeparator :: "char \<Rightarrow> bool" where
  "isSeparator c = ((of_char c :: nat) \<in> {32, 9, 10, 13, 45, 46})"

fun compactOTP :: "string \<Rightarrow> string" where
  "compactOTP [] = []"
| "compactOTP [c] = (if isSeparator c then [] else [c])"
| "compactOTP (c # d # cs) =
     (if isSeparator c then compactOTP (d # cs)
      else if (of_char c :: nat) = 194 \<and> (of_char d :: nat) = 160 then compactOTP cs
      else c # compactOTP (d # cs))"

definition NumericOTP :: "string \<Rightarrow> string option" where
  "NumericOTP code =
     (let compact = compactOTP code
      in if length compact \<noteq> Digits then None
         else if \<not> list_all isDigit compact then None
         else Some compact)"

section \<open>Recovery codes\<close>

definition Alphabet :: string where
  "Alphabet = ''0123456789ABCDEFGHJKMNPQRSTVWXYZ''"

definition CodeChars :: nat where "CodeChars = 16"

definition codeSymbol :: "8 word \<Rightarrow> char" where
  "codeSymbol b = Alphabet ! (unat b mod length Alphabet)"

fun writeCode :: "nat \<Rightarrow> nat \<Rightarrow> 8 word list \<Rightarrow> string" where
  "writeCode grp i [] = []"
| "writeCode grp i (b # bs) =
     (if 0 < grp \<and> 0 < i \<and> i mod grp = 0 then [CHR ''-''] else []) @ codeSymbol b # writeCode grp (Suc i) bs"

text \<open>\<open>rnd\<close> is what \<open>rand.Read\<close> filled the buffer with, \<open>None\<close> for its error.\<close>

definition RandomCode :: "nat \<Rightarrow> nat \<Rightarrow> (nat \<Rightarrow> 8 word) option \<Rightarrow> string option" where
  "RandomCode symbols grp rnd =
     (case rnd of None \<Rightarrow> None | Some buf \<Rightarrow> Some (writeCode grp 0 (map buf [0..<symbols])))"

fun NewRecoveryCodes :: "nat \<Rightarrow> (nat \<Rightarrow> (nat \<Rightarrow> 8 word) option) \<Rightarrow> string list option" where
  "NewRecoveryCodes 0 rnd = Some []"
| "NewRecoveryCodes (Suc n) rnd =
     (case RandomCode CodeChars 4 (rnd 0) of
        None \<Rightarrow> None
      | Some c \<Rightarrow> (case NewRecoveryCodes n (rnd \<circ> Suc) of None \<Rightarrow> None | Some cs \<Rightarrow> Some (c # cs)))"

definition NormalizeRecovery :: "string \<Rightarrow> string" where
  "NormalizeRecovery code =
     map (\<lambda>c. if isLower c then char_of ((of_char c :: nat) - 32) else c)
       (filter (\<lambda>c. isDigit c \<or> isUpper c \<or> isLower c) code)"

section \<open>Authenticator codes\<close>

datatype twofaErr = ErrParams | ErrMismatch | ErrGenerate

record params =
  paAlgorithm :: string
  paDigits :: int
  paPeriod :: int

definition Pinned :: "params \<Rightarrow> bool" where
  "Pinned p = (paAlgorithm p = ''SHA1'' \<and> paDigits p = int Digits \<and> paPeriod p = PeriodSeconds)"

text \<open>Go's integer division truncates.\<close>

definition goQuot :: "int \<Rightarrow> int \<Rightarrow> int" where
  "goQuot a b = (if a < 0 then - ((- a) div b) else a div b)"

fun verifyAt :: "(string \<Rightarrow> nat \<Rightarrow> string option) \<Rightarrow> string \<Rightarrow> string \<Rightarrow> int list \<Rightarrow> twofaErr + int" where
  "verifyAt hotp secret code [] = Inl ErrMismatch"
| "verifyAt hotp secret code (counter # counters) =
     (if counter < 0 then verifyAt hotp secret code counters
      else (case hotp secret (nat counter) of
              None \<Rightarrow> Inl ErrGenerate
            | Some want \<Rightarrow> if want = code then Inr counter else verifyAt hotp secret code counters))"

definition Verify ::
  "(string \<Rightarrow> nat \<Rightarrow> string option) \<Rightarrow> string \<Rightarrow> string \<Rightarrow> params \<Rightarrow> gotime \<Rightarrow> twofaErr + int" where
  "Verify hotp secret code p now =
     (if \<not> Pinned p then Inl ErrParams
      else let code' = NormalizeOTP code
           in if length code' \<noteq> Digits then Inl ErrMismatch
              else let base = goQuot (unixSeconds now) PeriodSeconds
                   in verifyAt hotp secret code' (map (\<lambda>delta. base + delta) [- Skew..Skew]))"

section \<open>Which factor may go\<close>

record removalCheck =
  rmRequireForAdmins :: bool
  rmTOTPOnly :: bool
  rmIsAdmin :: bool
  rmEmailEnabled :: bool
  rmTOTPEnabled :: bool
  rmRemoving :: factorKind

definition MayRemove :: "removalCheck \<Rightarrow> bool" where
  "MayRemove c =
     (if \<not> rmRequireForAdmins c \<or> \<not> rmIsAdmin c then True
      else if rmTOTPOnly c then rmRemoving c \<noteq> FactorTOTP
      else if rmRemoving c = FactorTOTP then rmEmailEnabled c
      else rmTOTPEnabled c)"

section \<open>Keyed digests\<close>

definition codeMACVersion :: nat where "codeMACVersion = 1"

definition emailOTPSubkeyPurpose :: string where
  "emailOTPSubkeyPurpose = ''foldex/auth/code-mac/subkey/v1/email-otp''"

definition recoverySubkeyPurpose :: string where
  "recoverySubkeyPurpose = ''foldex/auth/code-mac/subkey/v1/recovery-code''"

definition recoveryCredentialPurpose :: string where
  "recoveryCredentialPurpose = ''recovery_code''"

text \<open>\<open>binary.BigEndian.PutUint32\<close> and \<open>PutUint64\<close>: the \<open>n\<close> low bytes of a number, highest first.\<close>

fun bigEndian :: "nat \<Rightarrow> nat \<Rightarrow> string" where
  "bigEndian 0 v = []"
| "bigEndian (Suc n) v = bigEndian n (v div 256) @ [char_of (v mod 256)]"

definition writeMACString :: "string \<Rightarrow> string" where
  "writeMACString value = bigEndian 4 (length value) @ value"

text \<open>\<open>uint64(i)\<close> of an \<open>int64\<close>.\<close>

definition writeMACUint64 :: "int \<Rightarrow> string" where
  "writeMACUint64 i = bigEndian 8 (nat (i mod 2 ^ 64))"

definition writeMACHeader :: "nat \<Rightarrow> string \<Rightarrow> int \<Rightarrow> string" where
  "writeMACHeader version purpose uid = char_of version # writeMACString purpose @ writeMACUint64 uid"

record codeMAC =
  emailOTPKey :: string
  recoveryKey :: string

definition deriveCodeMACSubkey :: "(string \<Rightarrow> string \<Rightarrow> string) \<Rightarrow> string \<Rightarrow> string \<Rightarrow> string" where
  "deriveCodeMACSubkey hmac masterKey purpose = hmac masterKey (writeMACString purpose)"

definition NewCodeMAC :: "(string \<Rightarrow> string \<Rightarrow> string) \<Rightarrow> string \<Rightarrow> codeMAC option" where
  "NewCodeMAC hmac masterKey =
     (if length masterKey < 32 then None
      else Some \<lparr>emailOTPKey = deriveCodeMACSubkey hmac masterKey emailOTPSubkeyPurpose,
                 recoveryKey = deriveCodeMACSubkey hmac masterKey recoverySubkeyPurpose\<rparr>)"

definition emailOTPMessage :: "nat \<Rightarrow> int \<Rightarrow> string \<Rightarrow> int option \<Rightarrow> string \<Rightarrow> string" where
  "emailOTPMessage version uid purpose challengeID code =
     writeMACHeader version purpose uid @
     (case challengeID of None \<Rightarrow> [char_of (0 :: nat)] | Some i \<Rightarrow> char_of (1 :: nat) # writeMACUint64 i) @
     writeMACString code"

definition EmailOTPDigest ::
  "(string \<Rightarrow> string \<Rightarrow> string) \<Rightarrow> codeMAC \<Rightarrow> int \<Rightarrow> string \<Rightarrow> int option \<Rightarrow> string \<Rightarrow> string" where
  "EmailOTPDigest hmac m uid purpose challengeID code =
     hmac (emailOTPKey m) (emailOTPMessage codeMACVersion uid purpose challengeID code)"

definition recoveryMessage :: "nat \<Rightarrow> int \<Rightarrow> string \<Rightarrow> string" where
  "recoveryMessage version uid code = writeMACHeader version recoveryCredentialPurpose uid @ writeMACString code"

definition RecoveryCodeDigest :: "(string \<Rightarrow> string \<Rightarrow> string) \<Rightarrow> codeMAC \<Rightarrow> int \<Rightarrow> string \<Rightarrow> string" where
  "RecoveryCodeDigest hmac m uid code = hmac (recoveryKey m) (recoveryMessage codeMACVersion uid code)"

section \<open>Recovery codes come back as issued\<close>

definition isAlnum :: "char \<Rightarrow> bool" where
  "isAlnum c = (isDigit c \<or> isUpper c \<or> isLower c)"

lemmas char_classes = isDigit_def isUpper_def isLower_def isAlnum_def isSeparator_def

lemma compact_alnum: "filter isAlnum (compactOTP s) = filter isAlnum s"
proof (induction s rule: compactOTP.induct)
  case (2 c)
  then show ?case by (auto simp: char_classes)
next
  case (3 c d cs)
  have "isSeparator c \<Longrightarrow> \<not> isAlnum c" by (auto simp: char_classes)
  moreover have "(of_char c :: nat) = 194 \<Longrightarrow> \<not> isAlnum c" "(of_char d :: nat) = 160 \<Longrightarrow> \<not> isAlnum d"
    by (auto simp: char_classes)
  ultimately show ?case using 3 by auto
qed simp

lemma digits_alnum: "list_all isDigit s \<Longrightarrow> filter isAlnum s = s"
  by (induction s) (auto simp: isAlnum_def)

lemma normalize_alnum: "NormalizeRecovery s = NormalizeRecovery (filter isAlnum s)"
  by (simp add: NormalizeRecovery_def isAlnum_def)

lemma normalize_digits: "list_all isDigit s \<Longrightarrow> NormalizeRecovery s = s"
  by (induction s) (auto simp: NormalizeRecovery_def char_classes)

lemma numeric_normalizes:
  assumes "NumericOTP s = Some d"
  shows "NormalizeRecovery s = d"
proof -
  have d: "compactOTP s = d" "list_all isDigit d"
    using assms by (auto simp: NumericOTP_def Let_def split: if_splits)
  have "NormalizeRecovery s = NormalizeRecovery (filter isAlnum (compactOTP s))"
    by (simp only: compact_alnum normalize_alnum [symmetric])
  also have "\<dots> = d" by (simp only: d(1) digits_alnum [OF d(2)] normalize_digits [OF d(2)])
  finally show ?thesis .
qed

lemma length_alphabet: "length Alphabet = 32"
  by (simp add: Alphabet_def)

lemma alphabet_chars: "list_all (\<lambda>c. isDigit c \<or> isUpper c) Alphabet"
  by code_simp

lemma codeSymbol_char: "isDigit (codeSymbol b) \<or> isUpper (codeSymbol b)"
proof -
  have "codeSymbol b \<in> set Alphabet"
    by (simp add: codeSymbol_def length_alphabet)
  then show ?thesis using alphabet_chars by (auto simp: list_all_iff)
qed

lemma codeSymbol_solid: "isAlnum (codeSymbol b)" "\<not> isLower (codeSymbol b)"
  using codeSymbol_char [of b] by (auto simp: char_classes)

lemma normalize_append: "NormalizeRecovery (a @ b) = NormalizeRecovery a @ NormalizeRecovery b"
  by (simp add: NormalizeRecovery_def)

lemma normalize_symbol: "NormalizeRecovery (codeSymbol b # s) = codeSymbol b # NormalizeRecovery s"
  using codeSymbol_solid [of b] by (simp add: NormalizeRecovery_def isAlnum_def)

lemma normalize_hyphen: "NormalizeRecovery [CHR ''-''] = []" "NormalizeRecovery [] = []"
  by code_simp+

lemma normalize_written: "NormalizeRecovery (writeCode grp i bs) = map codeSymbol bs"
proof (induction grp i bs rule: writeCode.induct)
  case (1 grp i)
  then show ?case by (simp add: NormalizeRecovery_def)
next
  case (2 grp i b bs)
  then show ?case by (simp add: normalize_append normalize_symbol normalize_hyphen)
qed

lemma NewRecoveryCodes_Suc:
  "NewRecoveryCodes (Suc n) rnd = Some cs \<longleftrightarrow>
     (\<exists>buf cs'. rnd 0 = Some buf \<and> NewRecoveryCodes n (rnd \<circ> Suc) = Some cs' \<and>
        cs = writeCode 4 0 (map buf [0..<CodeChars]) # cs')"
  by (auto simp: RandomCode_def split: option.splits)

lemma NewRecoveryCodes_shape:
  "NewRecoveryCodes n rnd = Some cs \<Longrightarrow> c \<in> set cs \<Longrightarrow>
     \<exists>buf. c = writeCode 4 0 (map buf [0..<CodeChars])"
proof (induction n arbitrary: cs rnd)
  case (Suc n)
  then show ?case by (simp only: NewRecoveryCodes_Suc) (metis set_ConsD)
qed simp

lemma length_recovery: "NewRecoveryCodes n rnd = Some cs \<Longrightarrow> length cs = n"
  by (induction n rnd arbitrary: cs rule: NewRecoveryCodes.induct) (auto split: option.splits)

text \<open>
  How a person copies a code: hyphens and spaces come and go, and capitals are written or not.  The definition
  compares what is left of both strings, and does not look at how the server normalises.
\<close>

definition punctuation :: "char \<Rightarrow> bool" where
  "punctuation c = (c = CHR ''-'' \<or> c = CHR '' '')"

definition copied :: "string \<Rightarrow> string \<Rightarrow> bool" where
  "copied code typed =
     (map asciiLower (filter (\<lambda>c. \<not> punctuation c) typed) = map asciiLower (filter (\<lambda>c. \<not> punctuation c) code))"

lemma normalize_punctuation: "NormalizeRecovery (filter (\<lambda>c. \<not> punctuation c) s) = NormalizeRecovery s"
proof (induction s)
  case (Cons c s)
  have "punctuation c \<Longrightarrow> NormalizeRecovery [c] = []" by (auto simp: punctuation_def NormalizeRecovery_def char_classes)
  then show ?case using Cons normalize_append [of "[c]" s] normalize_append [of "[c]" "filter (\<lambda>c. \<not> punctuation c) s"] by auto
qed simp

lemma normalize_case: "NormalizeRecovery (map asciiLower s) = NormalizeRecovery s"
proof (induction s)
  case (Cons c s)
  have "NormalizeRecovery [asciiLower c] = NormalizeRecovery [c]"
    by (simp add: asciiLower_def NormalizeRecovery_def char_classes)
  then show ?case
    using Cons normalize_append [of "[c]" s] normalize_append [of "[asciiLower c]" "map asciiLower s"] by simp
qed simp

lemma normalize_copied: "copied code typed \<Longrightarrow> NormalizeRecovery typed = NormalizeRecovery code"
  unfolding copied_def by (metis normalize_case normalize_punctuation)

text \<open>
  C23. A recovery code is shown in groups of four and typed back by hand.  However it is copied, with hyphens
  and spaces dropped or added anywhere and letters in either case, it reduces to what the stored digest was
  computed from: sixteen symbols of the alphabet.  And it is never taken for a six-digit code.
\<close>

theorem recovery_code_roundtrip:
  assumes "NewRecoveryCodes n rnd = Some codes" "c \<in> set codes" and "copied c typed"
  shows "NormalizeRecovery typed = NormalizeRecovery c \<and> NumericOTP typed = None \<and>
         length (NormalizeRecovery typed) = CodeChars \<and>
         list_all (\<lambda>x. x \<in> set Alphabet) (NormalizeRecovery typed) \<and>
         NormalizeRecovery (NormalizeRecovery typed) = NormalizeRecovery typed"
proof -
  obtain buf where c: "c = writeCode 4 0 (map buf [0..<CodeChars])"
    using NewRecoveryCodes_shape [OF assms(1,2)] by blast
  let ?s = "map codeSymbol (map buf [0..<CodeChars])"
  have e: "NormalizeRecovery typed = NormalizeRecovery c" by (rule normalize_copied [OF assms(3)])
  have n: "NormalizeRecovery typed = ?s" by (simp only: e c normalize_written)
  have "NumericOTP typed = None"
  proof (rule ccontr)
    assume "NumericOTP typed \<noteq> None"
    then obtain d where d: "NumericOTP typed = Some d" by blast
    then have "length d = 6" by (auto simp: NumericOTP_def Digits_def Let_def split: if_splits)
    moreover have "length d = length ?s" using numeric_normalizes [OF d] n by simp
    then have "length d = 16" by (simp add: CodeChars_def)
    ultimately show False by simp
  qed
  moreover have "NormalizeRecovery (map codeSymbol bs) = map codeSymbol bs" for bs
    by (induction bs) (simp_all add: normalize_symbol normalize_hyphen)
  then have "NormalizeRecovery ?s = ?s" .
  moreover have "codeSymbol b \<in> set Alphabet" for b
    by (simp add: codeSymbol_def length_alphabet)
  ultimately have "NumericOTP typed = None \<and> length (NormalizeRecovery typed) = CodeChars \<and>
      list_all (\<lambda>x. x \<in> set Alphabet) (NormalizeRecovery typed) \<and> NormalizeRecovery (NormalizeRecovery typed) = NormalizeRecovery typed"
    by (simp only: n simp_thms) (auto simp: list_all_iff)
  with e show ?thesis by blast
qed

definition demoRandom :: "nat \<Rightarrow> (nat \<Rightarrow> 8 word) option" where
  "demoRandom n = Some (\<lambda>i. of_nat (7 * i + n))"

definition demoCode :: string where
  "demoCode = ''07EN-W3AH-RZ6D-MV29''"

theorem recovery_code_roundtrip_witness:
  "NewRecoveryCodes 1 demoRandom = Some [demoCode] \<and> NumericOTP ''07en w3AH rz6dm -v29'' = None \<and>
   NormalizeRecovery ''07en w3AH rz6dm -v29'' = NormalizeRecovery demoCode"
proof -
  have a: "NewRecoveryCodes 1 demoRandom = Some [demoCode]" by code_simp
  have b: "copied demoCode ''07en w3AH rz6dm -v29''" by code_simp
  show ?thesis using recovery_code_roundtrip [OF a _ b] a by simp
qed

section \<open>The counter an authenticator code proves\<close>

lemma verifyAt_Inr:
  "verifyAt hotp secret code cs = Inr c \<Longrightarrow> c \<in> set cs \<and> 0 \<le> c \<and> hotp secret (nat c) = Some code"
  by (induction cs) (auto split: if_splits option.splits)

lemma skew_list: "[- Skew..Skew] = [-1, 0, 1]"
  by code_simp

lemma verifyAt_total:
  assumes "\<And>k. hotp secret k \<noteq> None" "0 \<le> c" "c \<in> set cs" "hotp secret (nat c) = Some code"
  shows "\<exists>d. verifyAt hotp secret code cs = Inr d"
  using assms(3)
proof (induction cs)
  case (Cons a cs)
  show ?case
  proof (cases "a < 0")
    case True
    then show ?thesis using Cons assms(2) by auto
  next
    case False
    obtain w where "hotp secret (nat a) = Some w" using assms(1) by blast
    then show ?thesis using Cons False assms(4) by auto
  qed
qed simp

text \<open>
  C21. A code is accepted exactly when it is the code of a step at most one away from the current one:
  the step that is returned, and burned later, started at most one minute ago and starts at most half a
  minute from now, and its code is the one typed.  Parameters other than the pinned ones never verify.
\<close>

theorem accepted_step_is_current:
  assumes "0 \<le> unixSeconds now" "\<forall>k. hotp secret k \<noteq> None"
  shows "(\<exists>c. Verify hotp secret code p now = Inr c) =
      (Pinned p \<and> length (NormalizeOTP code) = Digits \<and>
       (\<exists>c\<ge>0. \<bar>c - unixSeconds now div 30\<bar> \<le> 1 \<and> hotp secret (nat c) = Some (NormalizeOTP code))) \<and>
    (\<forall>c. Verify hotp secret code p now = Inr c \<longrightarrow> 0 \<le> c \<and> 30 * c - 30 \<le> unixSeconds now \<and>
       unixSeconds now < 30 * c + 60 \<and> hotp secret (nat c) = Some (NormalizeOTP code))"
proof -
  let ?b = "unixSeconds now div 30"
  let ?ok = "Pinned p \<and> length (NormalizeOTP code) = Digits"
  let ?hit = "\<lambda>c. 0 \<le> c \<and> \<bar>c - ?b\<bar> \<le> 1 \<and> hotp secret (nat c) = Some (NormalizeOTP code)"
  let ?v = "verifyAt hotp secret (NormalizeOTP code) [?b - 1, ?b, ?b + 1]"
  have base: "goQuot (unixSeconds now) PeriodSeconds = ?b" using assms(1) by (simp add: goQuot_def PeriodSeconds_def)
  have v: "Verify hotp secret code p now = (if \<not> Pinned p then Inl ErrParams
     else if length (NormalizeOTP code) \<noteq> Digits then Inl ErrMismatch else ?v)"
    by (simp add: Verify_def Let_def base skew_list)
  have near: "c \<in> set [?b - 1, ?b, ?b + 1] \<longleftrightarrow> \<bar>c - ?b\<bar> \<le> 1" for c by auto
  have out: "?ok \<and> ?hit c" if "Verify hotp secret code p now = Inr c" for c
  proof -
    from that have ok: ?ok and w: "?v = Inr c" by (auto simp: v split: if_splits)
    show ?thesis using verifyAt_Inr [OF w] ok near by blast
  qed
  moreover have "\<exists>d. Verify hotp secret code p now = Inr d" if "?ok" "?hit c" for c
    using verifyAt_total [of hotp secret c "[?b - 1, ?b, ?b + 1]" "NormalizeOTP code"] assms(2) that near
    by (simp only: v if_False if_True simp_thms)
  moreover have "30 * c - 30 \<le> unixSeconds now \<and> unixSeconds now < 30 * c + 60" if "?hit c" for c
    using that by linarith
  ultimately show ?thesis by blast
qed

definition demoHotp :: "string \<Rightarrow> nat \<Rightarrow> string option" where
  "demoHotp secret k = Some (let s = formatNat (k mod 10) in ''12345'' @ s)"

definition demoNow :: gotime where
  "demoNow = (62135596800 + 601) * second"

theorem accepted_step_is_current_witness:
  "Verify demoHotp ''seed'' ''123 459'' \<lparr>paAlgorithm = ''SHA1'', paDigits = 6, paPeriod = 30\<rparr> demoNow = Inr 19 \<and>
   (30 * 19 - 30 :: int) \<le> unixSeconds demoNow"
proof -
  have h: "0 \<le> unixSeconds demoNow" by code_simp
  have t: "\<forall>k. demoHotp ''seed'' k \<noteq> None" by (simp add: demoHotp_def Let_def)
  have v: "Verify demoHotp ''seed'' ''123 459'' \<lparr>paAlgorithm = ''SHA1'', paDigits = 6, paPeriod = 30\<rparr> demoNow = Inr 19"
    by code_simp
  show ?thesis using accepted_step_is_current [where now = demoNow and hotp = demoHotp and secret = "''seed''", OF h t] v by blast
qed

section \<open>What a digest is bound to\<close>

lemma length_bigEndian [simp]: "length (bigEndian n v) = n"
  by (induction n v rule: bigEndian.induct) auto

lemma bigEndian_inj: "bigEndian n u = bigEndian n v \<Longrightarrow> u mod 256 ^ n = v mod 256 ^ n"
proof (induction n arbitrary: u v)
  case (Suc n)
  then have e: "bigEndian n (u div 256) = bigEndian n (v div 256)"
    and c: "(char_of (u mod 256) :: char) = char_of (v mod 256)" by simp_all
  from Suc.IH [OF e] have hi: "u div 256 mod 256 ^ n = v div 256 mod 256 ^ n" .
  from c have "(of_char (char_of (u mod 256) :: char) :: nat) = of_char (char_of (v mod 256) :: char)" by (rule arg_cong)
  then have lo: "u mod 256 = v mod 256" by simp
  have "w mod 256 ^ Suc n = 256 * (w div 256 mod 256 ^ n) + w mod 256" for w :: nat
    by (simp only: power_Suc mod_mult2_eq)
  with hi lo show ?case by (simp only:)
qed simp

lemma writeMACUint64_inj:
  assumes "writeMACUint64 i = writeMACUint64 j" "- (2 ^ 63) \<le> i" "i < 2 ^ 63" "- (2 ^ 63) \<le> j" "j < 2 ^ 63"
  shows "i = j"
proof -
  have m: "nat (k mod 2 ^ 64) mod 256 ^ 8 = nat (k mod 2 ^ 64)" for k :: int
  proof -
    have "nat (k mod 2 ^ 64) < 2 ^ 64" by (simp add: nat_less_iff)
    then show ?thesis by simp
  qed
  have "nat (i mod 2 ^ 64) = nat (j mod 2 ^ 64)"
    using bigEndian_inj [OF assms(1) [unfolded writeMACUint64_def]] by (simp only: m)
  then have "i mod 2 ^ 64 = j mod 2 ^ 64" by (metis eq_nat_nat_iff pos_mod_sign zero_less_numeral zero_less_power)
  then have "(2 :: int) ^ 64 dvd i - j" by (simp add: mod_eq_dvd_iff)
  moreover have "\<bar>i - j\<bar> < 2 ^ 64" using assms(2-5) by simp
  ultimately show ?thesis using dvd_imp_le_int [of "i - j" "2 ^ 64"] by fastforce
qed

lemma length_Uint64 [simp]: "length (writeMACUint64 i) = 8"
  by (simp add: writeMACUint64_def)

lemma writeMACString_prefix:
  assumes "writeMACString a @ s = writeMACString b @ t" "length a < 2 ^ 32" "length b < 2 ^ 32"
  shows "a = b \<and> s = t"
proof -
  have "bigEndian 4 (length a) = bigEndian 4 (length b)" and r: "a @ s = b @ t"
    using assms(1) by (simp_all only: writeMACString_def append_assoc append_eq_append_conv length_bigEndian disjI1)
  from bigEndian_inj [OF this(1)] have "length a = length b" using assms(2,3) by simp
  with r show ?thesis by simp
qed

lemma writeMACHeader_prefix:
  assumes "writeMACHeader ver p uid @ s = writeMACHeader ver q uid' @ t"
    and "length p < 2 ^ 32" "length q < 2 ^ 32"
    and "- (2 ^ 63) \<le> uid" "uid < 2 ^ 63" "- (2 ^ 63) \<le> uid'" "uid' < 2 ^ 63"
  shows "p = q \<and> uid = uid' \<and> s = t"
proof -
  have e: "writeMACString p @ (writeMACUint64 uid @ s) = writeMACString q @ (writeMACUint64 uid' @ t)"
    using assms(1) by (simp add: writeMACHeader_def)
  from writeMACString_prefix [OF this assms(2,3)] have p: "p = q" and r: "writeMACUint64 uid @ s = writeMACUint64 uid' @ t"
    by blast+
  then have "writeMACUint64 uid = writeMACUint64 uid' \<and> s = t" by simp
  with p writeMACUint64_inj assms(4-7) show ?thesis by blast
qed

text \<open>
  C19. What is authenticated determines what it stands for: two mailed codes are authenticated as the
  same bytes only when purpose, account, challenge and code all agree.  Every field is framed, so no
  choice of a purpose or of a code shifts one field into the next.
\<close>

theorem mailed_code_binding:
  assumes "emailOTPMessage codeMACVersion uid purpose chal code = emailOTPMessage codeMACVersion uid' purpose' chal' code'"
    and "length purpose < 2 ^ 32" "length purpose' < 2 ^ 32" "length code < 2 ^ 32" "length code' < 2 ^ 32"
    and "\<forall>i\<in>{uid, uid'} \<union> set_option chal \<union> set_option chal'. - (2 ^ 63) \<le> i \<and> i < 2 ^ 63"
  shows "uid = uid' \<and> purpose = purpose' \<and> chal = chal' \<and> code = code'"
proof -
  let ?c = "\<lambda>c. case c of None \<Rightarrow> [char_of (0 :: nat)] | Some i \<Rightarrow> char_of (1 :: nat) # writeMACUint64 i"
  have "purpose = purpose' \<and> uid = uid' \<and> ?c chal @ writeMACString code = ?c chal' @ writeMACString code'"
    using writeMACHeader_prefix [OF assms(1) [unfolded emailOTPMessage_def] assms(2,3)] assms(6) by simp
  then have r: "?c chal @ writeMACString code @ [] = ?c chal' @ writeMACString code' @ []"
    and h: "purpose = purpose' \<and> uid = uid'" by simp_all
  have z: "(char_of (0 :: nat) :: char) \<noteq> char_of (1 :: nat)" by code_simp
  have "chal = chal' \<and> code = code'"
  proof (cases chal)
    case None
    then have "chal' = None" using r z by (cases chal') simp_all
    then show ?thesis using None r writeMACString_prefix [OF _ assms(4,5), of "[]" "[]"] by simp
  next
    case (Some i)
    then obtain j where j: "chal' = Some j" using r z by (cases chal') simp_all
    then have "writeMACUint64 i @ writeMACString code = writeMACUint64 j @ writeMACString code'" using r Some by simp
    then have "writeMACUint64 i = writeMACUint64 j" "writeMACString code @ [] = writeMACString code' @ []" by simp_all
    then show ?thesis using Some j writeMACUint64_inj [of i j] writeMACString_prefix [OF _ assms(4,5), of "[]" "[]"] assms(6)
      by simp
  qed
  with h show ?thesis by blast
qed

theorem mailed_code_binding_witness:
  "emailOTPMessage codeMACVersion 7 OTPPurposeLogin2FA (Some 3) ''123456'' =
   emailOTPMessage codeMACVersion 7 OTPPurposeLogin2FA (Some 3) ''123456'' \<and>
   emailOTPMessage codeMACVersion 7 OTPPurposeLogin2FA (Some 3) ''123456'' \<noteq>
   emailOTPMessage codeMACVersion 7 OTPPurposeStepUp2FA None ''123456''"
  using mailed_code_binding [of 7 OTPPurposeLogin2FA "Some 3" "''123456''" 7 OTPPurposeStepUp2FA None "''123456''"]
  by (auto simp: OTPPurposeLogin2FA_def OTPPurposeStepUp2FA_def)

section \<open>Removing a factor\<close>

text \<open>What an administrator under the policy has left, and whether it still satisfies it.\<close>

definition satisfies :: "bool \<Rightarrow> bool \<Rightarrow> bool \<Rightarrow> bool" where
  "satisfies totpOnly totp email = (totp \<or> (\<not> totpOnly \<and> email))"

lemma MayRemove_keeps:
  assumes "MayRemove c" "rmRequireForAdmins c" "rmIsAdmin c"
    and "satisfies (rmTOTPOnly c) (rmTOTPEnabled c) (rmEmailEnabled c)"
  shows "satisfies (rmTOTPOnly c) (rmTOTPEnabled c \<and> rmRemoving c \<noteq> FactorTOTP)
           (rmEmailEnabled c \<and> rmRemoving c \<noteq> FactorEmail)"
  using assms by (cases "rmRemoving c") (auto simp: MayRemove_def satisfies_def split: if_splits)

lemma MayRemove_refuses:
  assumes "\<not> MayRemove c"
  shows "rmRequireForAdmins c \<and> rmIsAdmin c \<and>
    \<not> satisfies (rmTOTPOnly c) (rmTOTPEnabled c \<and> rmRemoving c \<noteq> FactorTOTP)
        (rmEmailEnabled c \<and> rmRemoving c \<noteq> FactorEmail)"
  using assms by (cases "rmRemoving c") (auto simp: MayRemove_def satisfies_def split: if_splits)

end
