(* ===== verification/Policies.thy ===== *)
theory Policies
  imports Rbac
begin

text \<open>
  The two documents an owner edits: the instance policy (\<open>internal/policy\<close>) and the abuse policy
  (\<open>internal/abusepolicy\<close>), each one JSON row of \<open>app_setting\<close> (\<open>internal/pkg/appsetting\<close>), and the cache in
  front of the second.

  A JSON document is its list of fields, in order, with the keys as the encoder writes them (\<open>encoding/json\<close>
  also accepts them in another case); \<open>GetJSON\<close> decodes it over the default, so an absent
  field keeps its default.  A row that is not a JSON object is \<open>None\<close>.
\<close>

section \<open>Documents\<close>

datatype json = JInt int | JString string | JBool bool | JStrings "string list" | JNull | JOther

type_synonym document = "(string \<times> json) list"

section \<open>The instance policy\<close>

record policyDoc =
  poPasswordMinLength :: int
  poOTPTTLMinutes :: int
  poOTPCooldownSeconds :: int
  poGoogleAllowedDomains :: "string list"
  poGoogleAutoProvision :: bool
  poGoogleDefaultRole :: string
  poAdminSecondFactor :: string

definition MinPasswordFloor :: int where "MinPasswordFloor = 8"
definition MaxPasswordFloor :: int where "MaxPasswordFloor = 72"
definition maxStoredPasswordFloor :: int where "maxStoredPasswordFloor = 128"
definition MinOTPTTLMinutes :: int where "MinOTPTTLMinutes = 1"
definition MaxOTPTTLMinutes :: int where "MaxOTPTTLMinutes = 30"
definition MinOTPCooldownSecs :: int where "MinOTPCooldownSecs = 30"
definition MaxOTPCooldownSecs :: int where "MaxOTPCooldownSecs = 600"
definition MaxAllowedDomains :: int where "MaxAllowedDomains = 32"
definition maxDomainLen :: int where "maxDomainLen = 253"

definition AdminFactorAny :: string where "AdminFactorAny = ''any''"
definition AdminFactorTOTPOnly :: string where "AdminFactorTOTPOnly = ''totp_only''"

definition RequiresTOTPForAdmins :: "policyDoc \<Rightarrow> bool" where
  "RequiresTOTPForAdmins p = (poAdminSecondFactor p = AdminFactorTOTPOnly)"

definition policyDefault :: policyDoc where
  "policyDefault = \<lparr>poPasswordMinLength = MinPasswordFloor, poOTPTTLMinutes = 5, poOTPCooldownSeconds = 60,
     poGoogleAllowedDomains = [], poGoogleAutoProvision = False, poGoogleDefaultRole = ''editor'',
     poAdminSecondFactor = AdminFactorAny\<rparr>"

definition WithDefaults :: "policyDoc \<Rightarrow> policyDoc" where
  "WithDefaults p =
     (let p1 = (if poAdminSecondFactor p = [] then p\<lparr>poAdminSecondFactor := AdminFactorAny\<rparr> else p)
      in if poGoogleDefaultRole p1 = [] then p1\<lparr>poGoogleDefaultRole := poGoogleDefaultRole policyDefault\<rparr> else p1)"

definition hostChar :: "char \<Rightarrow> bool" where
  "hostChar c = (97 \<le> (of_char c :: nat) \<and> (of_char c :: nat) \<le> 122 \<or> 48 \<le> (of_char c :: nat) \<and> (of_char c :: nat) \<le> 57 \<or>
                 c = CHR ''-'' \<or> c = CHR ''.'')"

definition ValidHostname :: "string \<Rightarrow> bool" where
  "ValidHostname d =
     (if d = [] \<or> maxDomainLen < int (length d) then False
      else if \<not> list_all hostChar d then False
      else if hd d = CHR ''.'' \<or> last d = CHR ''.'' \<or> CHR ''.'' \<notin> set d then False
      else list_all (\<lambda>l. \<not> (l = [] \<or> hd l = CHR ''-'' \<or> last l = CHR ''-'')) (splitOn (CHR ''.'') d))"

definition validDomain :: "string \<Rightarrow> bool" where
  "validDomain d = ValidHostname (goToLower d)"

datatype policyErr = BadPasswordMin | BadOTPTTL | BadOTPCooldown | TooManyDomains | BadDomain string
  | ProvisionNeedsDomain | BadDefaultRole | BadAdminFactor | UnenforceableFloor | BadKnob string | PolicySql

definition validateNumericBounds :: "policyDoc \<Rightarrow> policyErr option" where
  "validateNumericBounds p =
     (if poPasswordMinLength p < MinPasswordFloor \<or> maxStoredPasswordFloor < poPasswordMinLength p then Some BadPasswordMin
      else if poOTPTTLMinutes p < MinOTPTTLMinutes \<or> MaxOTPTTLMinutes < poOTPTTLMinutes p then Some BadOTPTTL
      else if poOTPCooldownSeconds p < MinOTPCooldownSecs \<or> MaxOTPCooldownSecs < poOTPCooldownSeconds p then Some BadOTPCooldown
      else None)"

definition validateGoogle :: "policyDoc \<Rightarrow> policyErr option" where
  "validateGoogle p =
     (if MaxAllowedDomains < int (length (poGoogleAllowedDomains p)) then Some TooManyDomains
      else case find (\<lambda>d. \<not> validDomain d) (poGoogleAllowedDomains p) of
        Some d \<Rightarrow> Some (BadDomain d)
      | None \<Rightarrow>
          if poGoogleAutoProvision p \<and> poGoogleAllowedDomains p = [] then Some ProvisionNeedsDomain
          else if poGoogleDefaultRole p \<noteq> ''editor'' \<and> poGoogleDefaultRole p \<noteq> ''viewer'' then Some BadDefaultRole
          else None)"

definition Validate :: "policyDoc \<Rightarrow> policyErr option" where
  "Validate p =
     (case validateNumericBounds p of
        Some e \<Rightarrow> Some e
      | None \<Rightarrow>
          (case validateGoogle p of
             Some e \<Rightarrow> Some e
           | None \<Rightarrow> if poAdminSecondFactor p \<noteq> AdminFactorAny \<and> poAdminSecondFactor p \<noteq> AdminFactorTOTPOnly
                     then Some BadAdminFactor else None))"

definition ValidateForWrite :: "policyDoc \<Rightarrow> policyErr option" where
  "ValidateForWrite p =
     (case Validate p of
        Some e \<Rightarrow> Some e
      | None \<Rightarrow> if MaxPasswordFloor < poPasswordMinLength p then Some UnenforceableFloor else None)"

definition AllowsEmail :: "policyDoc \<Rightarrow> string \<Rightarrow> bool" where
  "AllowsEmail p email =
     (if poGoogleAllowedDomains p = [] then True
      else (case splitFirst (CHR ''@'') (rev email) of
              None \<Rightarrow> False
            | Some (domainR, _) \<Rightarrow>
                list_ex (\<lambda>d. goToLower (rev domainR) = goToLower d) (poGoogleAllowedDomains p)))"

text \<open>
  Decoding one field over a policy; \<open>None\<close> when the value has the wrong type (the decoder goes on and
  reports the error at the end, and the caller then drops everything it decoded).  \<open>null\<close> and unknown
  fields change nothing, except that a \<open>null\<close> list is nil.
\<close>

definition decodeField :: "string \<times> json \<Rightarrow> policyDoc \<Rightarrow> policyDoc option" where
  "decodeField kv p =
     (case kv of (k, v) \<Rightarrow>
        if k = ''password_min_length'' then (case v of JInt i \<Rightarrow> Some (p\<lparr>poPasswordMinLength := i\<rparr>) | JNull \<Rightarrow> Some p | _ \<Rightarrow> None)
        else if k = ''otp_ttl_minutes'' then (case v of JInt i \<Rightarrow> Some (p\<lparr>poOTPTTLMinutes := i\<rparr>) | JNull \<Rightarrow> Some p | _ \<Rightarrow> None)
        else if k = ''otp_cooldown_seconds'' then (case v of JInt i \<Rightarrow> Some (p\<lparr>poOTPCooldownSeconds := i\<rparr>) | JNull \<Rightarrow> Some p | _ \<Rightarrow> None)
        else if k = ''google_allowed_domains'' then
          (case v of JStrings ds \<Rightarrow> Some (p\<lparr>poGoogleAllowedDomains := ds\<rparr>) | JNull \<Rightarrow> Some (p\<lparr>poGoogleAllowedDomains := []\<rparr>) | _ \<Rightarrow> None)
        else if k = ''google_auto_provision'' then (case v of JBool b \<Rightarrow> Some (p\<lparr>poGoogleAutoProvision := b\<rparr>) | JNull \<Rightarrow> Some p | _ \<Rightarrow> None)
        else if k = ''google_default_role'' then (case v of JString s \<Rightarrow> Some (p\<lparr>poGoogleDefaultRole := s\<rparr>) | JNull \<Rightarrow> Some p | _ \<Rightarrow> None)
        else if k = ''admin_second_factor'' then (case v of JString s \<Rightarrow> Some (p\<lparr>poAdminSecondFactor := s\<rparr>) | JNull \<Rightarrow> Some p | _ \<Rightarrow> None)
        else Some p)"

definition encodePolicy :: "policyDoc \<Rightarrow> document" where
  "encodePolicy p = [(''password_min_length'', JInt (poPasswordMinLength p)), (''otp_ttl_minutes'', JInt (poOTPTTLMinutes p)),
     (''otp_cooldown_seconds'', JInt (poOTPCooldownSeconds p)), (''google_allowed_domains'', JStrings (poGoogleAllowedDomains p)),
     (''google_auto_provision'', JBool (poGoogleAutoProvision p)), (''google_default_role'', JString (poGoogleDefaultRole p)),
     (''admin_second_factor'', JString (poAdminSecondFactor p))]"

fun decodeAll :: "(string \<times> json \<Rightarrow> 'p \<Rightarrow> 'p option) \<Rightarrow> document \<Rightarrow> 'p \<Rightarrow> 'p option" where
  "decodeAll step [] p = Some p"
| "decodeAll step (kv # kvs) p = (case step kv p of None \<Rightarrow> None | Some p' \<Rightarrow> decodeAll step kvs p')"

definition decodeJSONOrFallback :: "(string \<times> json \<Rightarrow> 'p \<Rightarrow> 'p option) \<Rightarrow> document option \<Rightarrow> 'p \<Rightarrow> 'p" where
  "decodeJSONOrFallback step raw fallback =
     (case raw of None \<Rightarrow> fallback
      | Some doc \<Rightarrow> (case decodeAll step doc fallback of None \<Rightarrow> fallback | Some p \<Rightarrow> p))"

text \<open>
  The settings row: \<open>None\<close> no row, \<open>Some raw\<close> its value.  \<open>up\<close> says whether the database answers.
\<close>

type_synonym settingRow = "document option option"

definition PolicyGet :: "bool \<Rightarrow> settingRow \<Rightarrow> (policyErr option) \<times> policyDoc" where
  "PolicyGet up row =
     (if \<not> up then (Some PolicySql, policyDefault)
      else let p = (case row of None \<Rightarrow> policyDefault | Some raw \<Rightarrow> decodeJSONOrFallback decodeField raw policyDefault)
           in (None, if Validate p \<noteq> None then policyDefault else p))"

definition PolicySet :: "bool \<Rightarrow> policyDoc \<Rightarrow> settingRow \<Rightarrow> policyErr option \<times> settingRow" where
  "PolicySet up p row =
     (let q = WithDefaults p
      in case ValidateForWrite q of
           Some e \<Rightarrow> (Some e, row)
         | None \<Rightarrow> if \<not> up then (Some PolicySql, row) else (None, Some (Some (encodePolicy q))))"

definition PasswordMinLength :: "bool \<Rightarrow> settingRow \<Rightarrow> int" where
  "PasswordMinLength up row = (case PolicyGet up row of (Some _, _) \<Rightarrow> MinPasswordFloor | (None, p) \<Rightarrow> poPasswordMinLength p)"

definition GoogleAllows :: "bool \<Rightarrow> settingRow \<Rightarrow> string \<Rightarrow> bool" where
  "GoogleAllows up row email = (case PolicyGet up row of (Some _, _) \<Rightarrow> False | (None, p) \<Rightarrow> AllowsEmail p email)"

definition GoogleProvisioning :: "bool \<Rightarrow> settingRow \<Rightarrow> bool \<times> string" where
  "GoogleProvisioning up row =
     (case PolicyGet up row of (Some _, _) \<Rightarrow> (False, ''viewer'') | (None, p) \<Rightarrow> (poGoogleAutoProvision p, poGoogleDefaultRole p))"

definition PolicyOTPTTL :: "bool \<Rightarrow> settingRow \<Rightarrow> duration" where
  "PolicyOTPTTL up row =
     (case PolicyGet up row of (Some _, _) \<Rightarrow> poOTPTTLMinutes policyDefault * minute | (None, p) \<Rightarrow> poOTPTTLMinutes p * minute)"

definition PolicyRequiresTOTP :: "bool \<Rightarrow> settingRow \<Rightarrow> bool" where
  "PolicyRequiresTOTP up row = (case PolicyGet up row of (Some _, _) \<Rightarrow> False | (None, p) \<Rightarrow> RequiresTOTPForAdmins p)"

definition PolicyOTPResendCooldown :: "bool \<Rightarrow> settingRow \<Rightarrow> duration" where
  "PolicyOTPResendCooldown up row =
     (case PolicyGet up row of (Some _, _) \<Rightarrow> poOTPCooldownSeconds policyDefault * second | (None, p) \<Rightarrow> poOTPCooldownSeconds p * second)"

section \<open>The abuse policy\<close>

record abusePolicy =
  abLoginDistinctAccountsPerIP :: int
  abLoginFailuresPerAccount :: int
  abLoginWindowMinutes :: int
  abAPIWritesPerMinute :: int
  abAPIExpensivePerHour :: int
  abPublicClickCoalesceSeconds :: "int option"
  abAnomalySprayAccounts :: int
  abAnomalyHammerFailures :: int
  abAnomalyWindowMinutes :: int

definition abuseDefault :: abusePolicy where
  "abuseDefault = \<lparr>abLoginDistinctAccountsPerIP = 10, abLoginFailuresPerAccount = 5, abLoginWindowMinutes = 15,
     abAPIWritesPerMinute = 120, abAPIExpensivePerHour = 20, abPublicClickCoalesceSeconds = Some 10,
     abAnomalySprayAccounts = 10, abAnomalyHammerFailures = 20, abAnomalyWindowMinutes = 15\<rparr>"

definition MinPublicClickCoalesceSeconds :: int where "MinPublicClickCoalesceSeconds = 0"
definition MaxPublicClickCoalesceSeconds :: int where "MaxPublicClickCoalesceSeconds = 3600"

record knob =
  knName :: string
  knGet :: "abusePolicy \<Rightarrow> int"
  knSet :: "int \<Rightarrow> abusePolicy \<Rightarrow> abusePolicy"
  knMin :: int
  knMax :: int

definition knDefault :: "knob \<Rightarrow> int" where
  "knDefault f = knGet f abuseDefault"

definition knobs :: "knob list" where
  "knobs =
     [\<lparr>knName = ''login_distinct_accounts_per_ip'', knGet = abLoginDistinctAccountsPerIP,
       knSet = (\<lambda>v p. p\<lparr>abLoginDistinctAccountsPerIP := v\<rparr>), knMin = 3, knMax = 100\<rparr>,
      \<lparr>knName = ''login_failures_per_account'', knGet = abLoginFailuresPerAccount,
       knSet = (\<lambda>v p. p\<lparr>abLoginFailuresPerAccount := v\<rparr>), knMin = 3, knMax = 50\<rparr>,
      \<lparr>knName = ''login_window_minutes'', knGet = abLoginWindowMinutes,
       knSet = (\<lambda>v p. p\<lparr>abLoginWindowMinutes := v\<rparr>), knMin = 5, knMax = 60\<rparr>,
      \<lparr>knName = ''api_writes_per_minute'', knGet = abAPIWritesPerMinute,
       knSet = (\<lambda>v p. p\<lparr>abAPIWritesPerMinute := v\<rparr>), knMin = 30, knMax = 6000\<rparr>,
      \<lparr>knName = ''api_expensive_per_hour'', knGet = abAPIExpensivePerHour,
       knSet = (\<lambda>v p. p\<lparr>abAPIExpensivePerHour := v\<rparr>), knMin = 5, knMax = 1000\<rparr>,
      \<lparr>knName = ''anomaly_spray_accounts'', knGet = abAnomalySprayAccounts,
       knSet = (\<lambda>v p. p\<lparr>abAnomalySprayAccounts := v\<rparr>), knMin = 2, knMax = 1000\<rparr>,
      \<lparr>knName = ''anomaly_hammer_failures'', knGet = abAnomalyHammerFailures,
       knSet = (\<lambda>v p. p\<lparr>abAnomalyHammerFailures := v\<rparr>), knMin = 3, knMax = 1000\<rparr>,
      \<lparr>knName = ''anomaly_window_minutes'', knGet = abAnomalyWindowMinutes,
       knSet = (\<lambda>v p. p\<lparr>abAnomalyWindowMinutes := v\<rparr>), knMin = 5, knMax = 10080\<rparr>]"

definition sanitizeKnob :: "knob \<Rightarrow> abusePolicy \<Rightarrow> abusePolicy" where
  "sanitizeKnob f p =
     (let v = knGet f p; absent = (v = 0 \<and> 0 < knMin f)
      in if absent \<or> v < knMin f \<or> knMax f < v then knSet f (knDefault f) p else p)"

definition sanitizeCoalesce :: "int option \<Rightarrow> int option" where
  "sanitizeCoalesce v =
     (case v of
        None \<Rightarrow> abPublicClickCoalesceSeconds abuseDefault
      | Some i \<Rightarrow> if i < MinPublicClickCoalesceSeconds \<or> MaxPublicClickCoalesceSeconds < i
                  then abPublicClickCoalesceSeconds abuseDefault else Some i)"

definition abuseSanitize :: "abusePolicy \<Rightarrow> abusePolicy" where
  "abuseSanitize p =
     (fold sanitizeKnob knobs p)\<lparr>abPublicClickCoalesceSeconds := sanitizeCoalesce (abPublicClickCoalesceSeconds p)\<rparr>"

definition ClickCoalesceSeconds :: "abusePolicy \<Rightarrow> int" where
  "ClickCoalesceSeconds p = (case sanitizeCoalesce (abPublicClickCoalesceSeconds p) of None \<Rightarrow> 0 | Some v \<Rightarrow> v)"

definition abuseValidateForWrite :: "abusePolicy \<Rightarrow> policyErr option" where
  "abuseValidateForWrite p =
     (case find (\<lambda>f. knGet f p < knMin f \<or> knMax f < knGet f p) knobs of
        Some f \<Rightarrow> Some (BadKnob (knName f))
      | None \<Rightarrow>
          (case abPublicClickCoalesceSeconds p of
             None \<Rightarrow> None
           | Some v \<Rightarrow> if v < MinPublicClickCoalesceSeconds \<or> MaxPublicClickCoalesceSeconds < v
                       then Some (BadKnob ''public_click_coalesce_seconds'') else None))"

record bound =
  bdField :: string
  bdMin :: int
  bdMax :: int
  bdDefault :: int

definition Bounds :: "bound list" where
  "Bounds = map (\<lambda>f. \<lparr>bdField = knName f, bdMin = knMin f, bdMax = knMax f, bdDefault = knDefault f\<rparr>) knobs @
     [\<lparr>bdField = ''public_click_coalesce_seconds'', bdMin = MinPublicClickCoalesceSeconds,
       bdMax = MaxPublicClickCoalesceSeconds, bdDefault = ClickCoalesceSeconds abuseDefault\<rparr>]"

section \<open>Decoding through a pointer\<close>

text \<open>
  The coalescing window is a pointer.  The decoder starts from a copy of the fallback, whose pointer is the
  fallback's own, and writes an integer through it; a field of the wrong type is skipped and reported at
  the end.  \<open>shared\<close> is the cell the fallback points to, \<open>target\<close> where the copy points.
\<close>

datatype pointer = Shared | Nil | Own int

record decoding =
  dcOut :: abusePolicy
  dcTarget :: pointer
  dcShared :: int
  dcBad :: bool

definition decodeAbuseField :: "string \<times> json \<Rightarrow> decoding \<Rightarrow> decoding" where
  "decodeAbuseField kv d =
     (case kv of (k, v) \<Rightarrow>
        if k = ''public_click_coalesce_seconds''
        then (case v of
                JInt i \<Rightarrow> (case dcTarget d of Shared \<Rightarrow> d\<lparr>dcShared := i\<rparr> | _ \<Rightarrow> d\<lparr>dcTarget := Own i\<rparr>)
              | JNull \<Rightarrow> d\<lparr>dcTarget := Nil\<rparr>
              | _ \<Rightarrow> d\<lparr>dcBad := True\<rparr>)
        else (case find (\<lambda>f. knName f = k) knobs of
                None \<Rightarrow> d
              | Some f \<Rightarrow> (case v of JInt i \<Rightarrow> d\<lparr>dcOut := knSet f i (dcOut d)\<rparr> | JNull \<Rightarrow> d | _ \<Rightarrow> d\<lparr>dcBad := True\<rparr>)))"

definition decodeAbuse :: "document option \<Rightarrow> abusePolicy" where
  "decodeAbuse raw =
     (case raw of
        None \<Rightarrow> abuseDefault
      | Some doc \<Rightarrow>
          let d = fold decodeAbuseField doc \<lparr>dcOut = abuseDefault, dcTarget = Shared, dcShared = 10, dcBad = False\<rparr>
          in if dcBad d then abuseDefault\<lparr>abPublicClickCoalesceSeconds := Some (dcShared d)\<rparr>
             else (dcOut d)\<lparr>abPublicClickCoalesceSeconds :=
                    (case dcTarget d of Shared \<Rightarrow> Some (dcShared d) | Nil \<Rightarrow> None | Own i \<Rightarrow> Some i)\<rparr>)"

definition encodeAbuse :: "abusePolicy \<Rightarrow> document" where
  "encodeAbuse p = map (\<lambda>f. (knName f, JInt (knGet f p))) knobs @
     [(''public_click_coalesce_seconds'', (case abPublicClickCoalesceSeconds p of None \<Rightarrow> JNull | Some v \<Rightarrow> JInt v))]"

definition AbuseGet :: "bool \<Rightarrow> settingRow \<Rightarrow> policyErr option \<times> abusePolicy" where
  "AbuseGet up row =
     (if \<not> up then (Some PolicySql, abuseDefault)
      else (None, abuseSanitize (case row of None \<Rightarrow> abuseDefault | Some raw \<Rightarrow> decodeAbuse raw)))"

definition AbuseSet :: "bool \<Rightarrow> abusePolicy \<Rightarrow> settingRow \<Rightarrow> policyErr option \<times> settingRow" where
  "AbuseSet up p row =
     (case abuseValidateForWrite p of
        Some e \<Rightarrow> (Some e, row)
      | None \<Rightarrow> if \<not> up then (Some PolicySql, row) else (None, Some (Some (encodeAbuse p))))"

section \<open>The cache\<close>

definition DefaultTTL :: duration where "DefaultTTL = 30 * second"

definition unixNano :: "gotime \<Rightarrow> int" where
  "unixNano t = t - 62135596800 * second"

record cache =
  caReader :: bool
  caTtl :: duration
  caExp :: int
  caCurrent :: "abusePolicy option"

definition NewCache :: "bool \<Rightarrow> duration \<Rightarrow> cache" where
  "NewCache reader ttl = \<lparr>caReader = reader, caTtl = (if ttl \<le> 0 then DefaultTTL else ttl), caExp = 0,
                          caCurrent = Some abuseDefault\<rparr>"

definition snapshot :: "cache \<Rightarrow> abusePolicy" where
  "snapshot c = (case caCurrent c of None \<Rightarrow> abuseDefault | Some p \<Rightarrow> p)"

text \<open>The refresh from the answer of the store on; \<open>now\<close> is the clock when the answer came.\<close>

definition finishLoad :: "gotime \<Rightarrow> policyErr option \<times> abusePolicy \<Rightarrow> cache \<Rightarrow> abusePolicy \<times> cache" where
  "finishLoad now answer c =
     (case answer of
        (Some e, _) \<Rightarrow> (snapshot c, c\<lparr>caExp := unixNano (now + caTtl c)\<rparr>)
      | (None, p) \<Rightarrow> (abuseSanitize p, c\<lparr>caCurrent := Some (abuseSanitize p), caExp := unixNano (now + caTtl c)\<rparr>))"

text \<open>
  \<open>Current\<close> run alone: \<open>t0\<close>, \<open>t1\<close>, \<open>t2\<close> are its reads of the clock; a nil cache is \<open>None\<close>.
\<close>

definition Current :: "gotime \<times> gotime \<times> gotime \<Rightarrow> policyErr option \<times> abusePolicy \<Rightarrow> cache option \<Rightarrow> abusePolicy \<times> cache option" where
  "Current ts answer co =
     (case ts of (t0, t1, t2) \<Rightarrow>
       (case co of
          None \<Rightarrow> (abuseDefault, None)
        | Some c \<Rightarrow>
            if \<not> caReader c then (abuseDefault, Some c)
            else if unixNano t0 < caExp c then (snapshot c, Some c)
            else if unixNano t1 < caExp c then (snapshot c, Some c)
            else (case finishLoad t2 answer c of (p, c') \<Rightarrow> (p, Some c'))))"

definition Invalidate :: "cache option \<Rightarrow> cache option" where
  "Invalidate co = (case co of None \<Rightarrow> None | Some c \<Rightarrow> Some (c\<lparr>caExp := 0\<rparr>))"

section \<open>What is written is what is read\<close>

lemma policy_roundtrip: "decodeAll decodeField (encodePolicy p) q = Some p"
  by (simp add: encodePolicy_def decodeField_def)

lemma PolicyGet_valid: "Validate (snd (PolicyGet up row)) = None"
proof -
  have "Validate policyDefault = None" by code_simp
  then show ?thesis by (simp add: PolicyGet_def Let_def)
qed

lemma WithDefaults_same: "Validate p = None \<Longrightarrow> WithDefaults p = p"
  by (auto simp: WithDefaults_def Validate_def validateGoogle_def AdminFactorAny_def AdminFactorTOTPOnly_def Let_def
        split: option.splits if_splits)

lemma knob_inside: "f \<in> set knobs \<Longrightarrow> knMin f \<le> knDefault f \<and> knDefault f \<le> knMax f \<and> 0 < knMin f"
  by (auto simp: knobs_def knDefault_def abuseDefault_def)

lemma knob_laws:
  "f \<in> set knobs \<Longrightarrow> g \<in> set knobs \<Longrightarrow> knGet f (knSet g v p) = (if knName f = knName g then v else knGet f p)"
  by (auto simp: knobs_def)

lemma knob_coalesce: "f \<in> set knobs \<Longrightarrow> abPublicClickCoalesceSeconds (knSet f v p) = abPublicClickCoalesceSeconds p"
  by (auto simp: knobs_def)

lemma knob_names: "distinct (map knName knobs)"
  by (simp add: knobs_def)

lemma knob_unique: "f \<in> set knobs \<Longrightarrow> g \<in> set knobs \<Longrightarrow> knName f = knName g \<Longrightarrow> f = g"
  using knob_names by (auto simp: distinct_map dest: inj_onD)

lemma knGet_sanitize:
  assumes "f \<in> set knobs" "g \<in> set knobs"
  shows "knGet f (sanitizeKnob g p) =
    (if f = g \<and> (knGet f p < knMin f \<or> knMax f < knGet f p) then knDefault f else knGet f p)"
  using knob_laws [OF assms] knob_unique [OF assms] knob_inside [OF assms(1)]
  by (auto simp: sanitizeKnob_def Let_def)

lemma knGet_fold:
  assumes "f \<in> set knobs" "set gs \<subseteq> set knobs"
  shows "knGet f (fold sanitizeKnob gs p) =
    (if f \<in> set gs \<and> (knGet f p < knMin f \<or> knMax f < knGet f p) then knDefault f else knGet f p)"
  using assms(2)
proof (induction gs arbitrary: p)
  case (Cons g gs)
  then show ?case using knGet_sanitize [OF assms(1), of g p] knob_inside [OF assms(1)] by auto
qed simp

lemma knGet_coalesce: "f \<in> set knobs \<Longrightarrow> knGet f (p\<lparr>abPublicClickCoalesceSeconds := v\<rparr>) = knGet f p"
  by (auto simp: knobs_def)

lemma knGet_abuseSanitize:
  assumes "f \<in> set knobs"
  shows "knGet f (abuseSanitize p) = (if knGet f p < knMin f \<or> knMax f < knGet f p then knDefault f else knGet f p)"
  using knGet_fold [OF assms, of knobs p] assms by (simp add: abuseSanitize_def knGet_coalesce)

definition inBounds :: "abusePolicy \<Rightarrow> bool" where
  "inBounds p = (list_all (\<lambda>f. knMin f \<le> knGet f p \<and> knGet f p \<le> knMax f) knobs \<and>
     (case abPublicClickCoalesceSeconds p of None \<Rightarrow> False
      | Some v \<Rightarrow> MinPublicClickCoalesceSeconds \<le> v \<and> v \<le> MaxPublicClickCoalesceSeconds))"

lemma coalesce_inside:
  "case sanitizeCoalesce v of None \<Rightarrow> False | Some i \<Rightarrow> MinPublicClickCoalesceSeconds \<le> i \<and> i \<le> MaxPublicClickCoalesceSeconds"
  by (auto simp: sanitizeCoalesce_def abuseDefault_def MinPublicClickCoalesceSeconds_def MaxPublicClickCoalesceSeconds_def
        split: option.splits)

lemma abuseSanitize_inBounds: "inBounds (abuseSanitize p)"
proof -
  have "knMin f \<le> knGet f (abuseSanitize p) \<and> knGet f (abuseSanitize p) \<le> knMax f" if "f \<in> set knobs" for f
    using knGet_abuseSanitize [OF that, of p] knob_inside [OF that] by auto
  moreover have "abPublicClickCoalesceSeconds (abuseSanitize p) = sanitizeCoalesce (abPublicClickCoalesceSeconds p)"
    by (simp add: abuseSanitize_def)
  ultimately show ?thesis using coalesce_inside [of "abPublicClickCoalesceSeconds p"]
    by (simp only: inBounds_def list_all_iff) simp
qed

lemma knob_ext:
  assumes "\<And>f. f \<in> set knobs \<Longrightarrow> knGet f p = knGet f q"
    and "abPublicClickCoalesceSeconds p = abPublicClickCoalesceSeconds q"
  shows "p = (q :: abusePolicy)"
proof -
  have "\<forall>f\<in>set knobs. knGet f p = knGet f q" using assms(1) by blast
  then show ?thesis using assms(2) by (cases p, cases q) (simp add: knobs_def)
qed

lemma inBounds_default: "inBounds abuseDefault"
  by (simp add: inBounds_def knobs_def abuseDefault_def MinPublicClickCoalesceSeconds_def MaxPublicClickCoalesceSeconds_def)

lemma abuseSanitize_id: "inBounds p \<Longrightarrow> abuseSanitize p = p"
proof (rule knob_ext)
  fix f assume i: "inBounds p" and f: "f \<in> set knobs"
  then show "knGet f (abuseSanitize p) = knGet f p" by (auto simp: knGet_abuseSanitize [OF f] inBounds_def list_all_iff)
next
  assume "inBounds p"
  then show "abPublicClickCoalesceSeconds (abuseSanitize p) = abPublicClickCoalesceSeconds p"
    by (auto simp: abuseSanitize_def inBounds_def sanitizeCoalesce_def split: option.splits)
qed

lemma write_ok:
  "abuseValidateForWrite p = None \<Longrightarrow> abPublicClickCoalesceSeconds p \<noteq> None \<Longrightarrow> inBounds p"
  by (auto simp: abuseValidateForWrite_def inBounds_def list_all_iff find_None_iff split: option.splits if_splits)

lemma decode_encode:
  assumes "inBounds p"
  shows "decodeAbuse (Some (encodeAbuse p)) = p"
proof -
  obtain v where v: "abPublicClickCoalesceSeconds p = Some v"
    using assms by (auto simp: inBounds_def split: option.splits)
  show ?thesis
    by (cases p) (use v in \<open>simp add: decodeAbuse_def encodeAbuse_def knobs_def decodeAbuseField_def Let_def\<close>)
qed

lemma decode_encode_absent:
  assumes "abPublicClickCoalesceSeconds p = None"
  shows "decodeAbuse (Some (encodeAbuse p)) = p"
  by (cases p) (use assms in \<open>simp add: decodeAbuse_def encodeAbuse_def knobs_def decodeAbuseField_def Let_def\<close>)

lemma abuseSanitize_absent:
  assumes "abuseValidateForWrite p = None" "abPublicClickCoalesceSeconds p = None"
  shows "abuseSanitize p = p\<lparr>abPublicClickCoalesceSeconds := Some 10\<rparr>"
proof (rule knob_ext)
  fix f assume f: "f \<in> set knobs"
  then have "knMin f \<le> knGet f p \<and> knGet f p \<le> knMax f"
    using assms by (auto simp: abuseValidateForWrite_def find_None_iff split: option.splits)
  then show "knGet f (abuseSanitize p) = knGet f (p\<lparr>abPublicClickCoalesceSeconds := Some 10\<rparr>)"
    by (simp add: knGet_abuseSanitize [OF f] knGet_coalesce [OF f])
next
  show "abPublicClickCoalesceSeconds (abuseSanitize p) = abPublicClickCoalesceSeconds (p\<lparr>abPublicClickCoalesceSeconds := Some 10\<rparr>)"
    using assms(2) by (simp add: abuseSanitize_def sanitizeCoalesce_def abuseDefault_def)
qed

text \<open>
  C24. A policy that can be saved is the policy that is enforced: both documents survive encoding, storing,
  decoding and the checks of the read path unchanged, an absent coalescing window being the compiled one;
  and a password that meets the saved floor exists.
\<close>

theorem saved_policy_is_enforced:
  assumes "PolicySet True p row = (None, row')" "AbuseSet True q arow = (None, arow')"
  shows "PolicyGet True row' = (None, WithDefaults p) \<and>
    AbuseGet True arow' = (None, q\<lparr>abPublicClickCoalesceSeconds := Some (ClickCoalesceSeconds q)\<rparr>) \<and>
    MinPasswordFloor \<le> PasswordMinLength True row' \<and> PasswordMinLength True row' \<le> MaxPasswordFloor"
proof -
  have w: "ValidateForWrite (WithDefaults p) = None" "row' = Some (Some (encodePolicy (WithDefaults p)))"
    using assms(1) by (auto simp: PolicySet_def Let_def split: option.splits)
  then have v: "Validate (WithDefaults p) = None" and m: "poPasswordMinLength (WithDefaults p) \<le> MaxPasswordFloor"
    by (auto simp: ValidateForWrite_def split: option.splits if_splits)
  have g: "PolicyGet True row' = (None, WithDefaults p)"
    by (simp add: PolicyGet_def w(2) decodeJSONOrFallback_def policy_roundtrip v Let_def)
  moreover have "MinPasswordFloor \<le> poPasswordMinLength (WithDefaults p)"
    using v by (auto simp: Validate_def validateNumericBounds_def split: option.splits if_splits)
  moreover have "AbuseGet True arow' = (None, q\<lparr>abPublicClickCoalesceSeconds := Some (ClickCoalesceSeconds q)\<rparr>)"
  proof -
    have a: "abuseValidateForWrite q = None" "arow' = Some (Some (encodeAbuse q))"
      using assms(2) by (auto simp: AbuseSet_def split: option.splits)
    show ?thesis
    proof (cases "abPublicClickCoalesceSeconds q")
      case None
      then show ?thesis
        by (simp add: AbuseGet_def a decode_encode_absent abuseSanitize_absent ClickCoalesceSeconds_def sanitizeCoalesce_def abuseDefault_def)
    next
      case (Some v)
      then have b: "inBounds q" using write_ok [OF a(1)] by simp
      then have "sanitizeCoalesce (Some v) = Some v" using Some by (auto simp: inBounds_def sanitizeCoalesce_def)
      then have "q\<lparr>abPublicClickCoalesceSeconds := Some (ClickCoalesceSeconds q)\<rparr> = q"
        using Some by (simp add: ClickCoalesceSeconds_def)
      then show ?thesis by (simp add: AbuseGet_def a(2) decode_encode [OF b] abuseSanitize_id [OF b])
    qed
  qed
  ultimately show ?thesis using m by (simp add: PasswordMinLength_def)
qed

theorem saved_policy_is_enforced_witness:
  "PolicyGet True (snd (PolicySet True (policyDefault\<lparr>poPasswordMinLength := 12\<rparr>) None)) =
     (None, policyDefault\<lparr>poPasswordMinLength := 12\<rparr>) \<and>
   AbuseGet True (snd (AbuseSet True (abuseDefault\<lparr>abPublicClickCoalesceSeconds := None\<rparr>) None)) = (None, abuseDefault)"
proof -
  let ?p = "policyDefault\<lparr>poPasswordMinLength := 12\<rparr>" and ?q = "abuseDefault\<lparr>abPublicClickCoalesceSeconds := None\<rparr>"
  have a: "PolicySet True ?p None = (None, snd (PolicySet True ?p None))" by code_simp
  have b: "AbuseSet True ?q None = (None, snd (AbuseSet True ?q None))" by code_simp
  have c: "WithDefaults ?p = ?p" by code_simp
  have d: "?q\<lparr>abPublicClickCoalesceSeconds := Some (ClickCoalesceSeconds ?q)\<rparr> = abuseDefault" by code_simp
  show ?thesis using saved_policy_is_enforced [OF a b] c d by simp
qed

section \<open>The cache and the store over time\<close>

text \<open>
  The store, the cache and the refresh in flight; the mutex admits one refresh.  A request that finds the
  cached policy expired asks the store (\<open>load\<close>), and what the store answered is adopted later
  (\<open>adopt\<close>); in between an owner may save and invalidate, and the row may be edited by hand.  The label is
  what the step hands to a request.
\<close>

record limitsWorld =
  lwCache :: cache
  lwRow :: settingRow
  lwFlight :: "(policyErr option \<times> abusePolicy) option"

inductive limitsStep :: "abusePolicy option \<Rightarrow> limitsWorld \<Rightarrow> limitsWorld \<Rightarrow> bool" where
  fresh: "unixNano now < caExp (lwCache s) \<Longrightarrow> limitsStep (Some (snapshot (lwCache s))) s s"
| load: "\<not> unixNano now < caExp (lwCache s) \<Longrightarrow> lwFlight s = None \<Longrightarrow>
    limitsStep None s (s\<lparr>lwFlight := Some (AbuseGet up (lwRow s))\<rparr>)"
| adopt: "lwFlight s = Some answer \<Longrightarrow> finishLoad now answer (lwCache s) = (p, c) \<Longrightarrow>
    limitsStep (Some p) s (s\<lparr>lwCache := c, lwFlight := None\<rparr>)"
| save: "AbuseSet up q (lwRow s) = (None, row) \<Longrightarrow> limitsStep None s (s\<lparr>lwRow := row\<rparr>)"
| invalidate: "limitsStep None s (s\<lparr>lwCache := (lwCache s)\<lparr>caExp := 0\<rparr>\<rparr>)"
| edited: "limitsStep None s (s\<lparr>lwRow := row\<rparr>)"

inductive limitsRun :: "abusePolicy option list \<Rightarrow> limitsWorld \<Rightarrow> limitsWorld \<Rightarrow> bool" where
  halt: "limitsRun [] s s"
| onward: "limitsStep l s s' \<Longrightarrow> limitsRun ls s' s'' \<Longrightarrow> limitsRun (l # ls) s s''"

definition limitsOk :: "limitsWorld \<Rightarrow> bool" where
  "limitsOk s = inBounds (snapshot (lwCache s))"

lemma step_limitsOk:
  assumes "limitsStep l s s'" "limitsOk s"
  shows "limitsOk s' \<and> (case l of None \<Rightarrow> True | Some p \<Rightarrow> inBounds p)"
  using assms
proof (cases rule: limitsStep.cases)
  case (adopt answer now p c)
  then show ?thesis using assms(2) abuseSanitize_inBounds
    by (cases answer) (auto simp: finishLoad_def limitsOk_def snapshot_def split: option.splits)
qed (auto simp: limitsOk_def snapshot_def)

text \<open>
  C20. Whatever the settings row holds, whoever edits it and however long the store is away, the limits a
  request is judged by are inside the bounds: never zero, never so large that the throttle is off.
\<close>

theorem enforced_limits_are_bounded:
  assumes "limitsRun ls s s'" "lwCache s = NewCache reader ttl" "Some p \<in> set ls"
  shows "inBounds p \<and> 3 \<le> abLoginFailuresPerAccount p \<and> abLoginFailuresPerAccount p \<le> 50 \<and>
         3 \<le> abLoginDistinctAccountsPerIP p \<and> abLoginDistinctAccountsPerIP p \<le> 100 \<and>
         5 \<le> abLoginWindowMinutes p \<and> abLoginWindowMinutes p \<le> 60"
proof -
  have "limitsOk s" using assms(2) inBounds_default by (simp add: limitsOk_def snapshot_def NewCache_def)
  with assms(1,3) have b: "inBounds p"
  proof (induction rule: limitsRun.induct)
    case (onward l s s' ls s'')
    then show ?case using step_limitsOk [OF onward(1)] by auto
  qed simp
  then show ?thesis by (simp add: inBounds_def knobs_def)
qed

definition demoLimits :: limitsWorld where
  "demoLimits = \<lparr>lwCache = NewCache True 0, lwRow = Some (Some [(''login_failures_per_account'', JInt 1000000)]), lwFlight = None\<rparr>"

theorem enforced_limits_are_bounded_witness:
  "\<exists>s'. limitsRun [None, Some abuseDefault] demoLimits s' \<and> abLoginFailuresPerAccount abuseDefault \<le> 50"
proof -
  let ?s = "demoLimits\<lparr>lwFlight := Some (AbuseGet True (lwRow demoLimits))\<rparr>"
  let ?c = "(lwCache demoLimits)\<lparr>caCurrent := Some abuseDefault, caExp := unixNano (0 + caTtl (lwCache demoLimits))\<rparr>"
  have a: "limitsStep None demoLimits ?s"
    by (rule limitsStep.load [of "62135596800 * second"]) (simp_all add: demoLimits_def NewCache_def unixNano_def second_def)
  have g: "AbuseGet True (lwRow demoLimits) = (None, abuseDefault)" by code_simp
  then have "finishLoad 0 (AbuseGet True (lwRow demoLimits)) (lwCache ?s) = (abuseDefault, ?c)"
    by (simp add: finishLoad_def abuseSanitize_id inBounds_default)
  then have b: "limitsStep (Some abuseDefault) ?s (?s\<lparr>lwCache := ?c, lwFlight := None\<rparr>)"
    by (intro limitsStep.adopt) simp_all
  have r: "limitsRun [None, Some abuseDefault] demoLimits (?s\<lparr>lwCache := ?c, lwFlight := None\<rparr>)"
    by (rule limitsRun.onward [OF a limitsRun.onward [OF b limitsRun.halt]])
  have c: "lwCache demoLimits = NewCache True 0" by (simp add: demoLimits_def)
  show ?thesis using enforced_limits_are_bounded [OF r c, of abuseDefault] r by auto
qed

section \<open>Two surprises\<close>

text \<open>
  A document with one field of the wrong type is meant to read as the default.  The coalescing window it
  names is read all the same: the decoder wrote it through the pointer it shares with the fallback.
\<close>

lemma malformed_document_leaks:
  "snd (AbuseGet True (Some (Some [(''public_click_coalesce_seconds'', JInt 0), (''login_window_minutes'', JString ''x'')]))) =
     abuseDefault\<lparr>abPublicClickCoalesceSeconds := Some 0\<rparr> \<and>
   abPublicClickCoalesceSeconds abuseDefault = Some 10"
  by code_simp

text \<open>
  An invalidation is lost when a refresh is in flight: the refresh read the row before the save, and
  adopts its answer, with a new expiry, after the invalidation.  The next request is served the old limits.
\<close>

definition racedStart :: "gotime \<Rightarrow> limitsWorld" where
  "racedStart now = \<lparr>lwCache = NewCache True 0, lwRow = None, lwFlight = None\<rparr>"

lemma invalidation_can_be_lost:
  assumes "0 \<le> unixNano now"
  shows "\<exists>s'. limitsRun [None, None, None, Some abuseDefault, Some abuseDefault] (racedStart now) s' \<and>
    lwRow s' = Some (Some (encodeAbuse (abuseDefault\<lparr>abLoginFailuresPerAccount := 3\<rparr>)))"
proof -
  let ?q = "abuseDefault\<lparr>abLoginFailuresPerAccount := 3\<rparr>"
  let ?row = "Some (Some (encodeAbuse ?q))"
  define c where "c = NewCache True 0"
  let ?s0 = "\<lparr>lwCache = c, lwRow = None, lwFlight = None\<rparr>"
  let ?a = "AbuseGet True None"
  let ?s1 = "\<lparr>lwCache = c, lwRow = None, lwFlight = Some ?a\<rparr>"
  let ?s2 = "\<lparr>lwCache = c, lwRow = ?row, lwFlight = Some ?a\<rparr>"
  let ?s3 = "\<lparr>lwCache = c\<lparr>caExp := 0\<rparr>, lwRow = ?row, lwFlight = Some ?a\<rparr>"
  let ?c4 = "c\<lparr>caCurrent := Some abuseDefault, caExp := unixNano (now + 30 * second)\<rparr>"
  let ?s4 = "\<lparr>lwCache = ?c4, lwRow = ?row, lwFlight = None\<rparr>"
  have cc: "caExp c = 0" "caTtl c = 30 * second" by (simp_all add: c_def NewCache_def DefaultTTL_def)
  have a: "?a = (None, abuseDefault)" by code_simp
  have "limitsStep None ?s0 ?s1" using limitsStep.load [of now ?s0 True] assms cc by simp
  moreover have "AbuseSet True ?q None = (None, ?row)" by code_simp
  then have "limitsStep None ?s1 ?s2" using limitsStep.save [of True ?q ?s1 ?row] by simp
  moreover have "limitsStep None ?s2 ?s3" using limitsStep.invalidate [of ?s2] by simp
  moreover have "finishLoad now ?a (c\<lparr>caExp := 0\<rparr>) = (abuseDefault, ?c4)"
    by (simp add: a finishLoad_def abuseSanitize_id inBounds_default cc)
  then have "limitsStep (Some abuseDefault) ?s3 ?s4" using limitsStep.adopt [of ?s3 ?a now abuseDefault ?c4] by simp
  moreover have "limitsStep (Some abuseDefault) ?s4 ?s4"
    using limitsStep.fresh [of now ?s4] by (simp add: snapshot_def unixNano_def)
  ultimately have "limitsRun [None, None, None, Some abuseDefault, Some abuseDefault] ?s0 ?s4"
    by (blast intro: limitsRun.intros)
  then show ?thesis by (auto simp: racedStart_def c_def)
qed

end
