(* ===== verification/AuthHttp.thy ===== *)
theory AuthHttp
  imports TwoFactorCodes TwoFactorFlow AttemptLimit Policies
begin

text \<open>
  The handlers of \<open>backend/internal/auth\<close> as state transformers, and the sign-in paths they share
  (\<open>handler.go\<close>, \<open>twofa_handler.go\<close>, \<open>model.go\<close>, \<open>cookies.go\<close>).

  A handler runs against \<open>srv\<close>: the database, the in-memory limiters, the audit trail.  It is a chain of
  actions; an action that has written the response ends the chain (\<open>Inl\<close>).  Every repository call is one
  step: other requests run before it (\<open>wOthers\<close>), it reads its own clock, and it may fail (\<open>wFault\<close>).
\<close>

section \<open>Responses\<close>

datatype cookieOp =
    SetSession sessionIssue | ClearSession | SetPreAuth string duration | ClearPreAuth | SetOAuthState string duration
  | ClearOAuthState

record userView =
  uvUser :: user
  uvTOTP :: bool
  uvEmail :: bool

record pendingAuth =
  pdPurpose :: string
  pdEmail :: string
  pdMethods :: "string list"
  pdConvert :: bool
  pdReason :: string

datatype body =
    NoBody
  | ErrorBody string
  | InvalidCode nat
  | Authenticated userView string "string list"
  | Pending pendingAuth
  | RecoveryCodes "string list"
  | Secret string string
  | FactorStatus "bool list" nat
  | Sent2FA string int
  | SetupRequired
  | Anonymous
  | Redirect string
  | RedirectURL string
  | MovePending "(string \<times> gotime) option"
  | Identities "linkedIdentity list"
  | SessionList "(session \<times> bool) list"
  | InviteInfo string role gotime
  | TokenList "apiToken list"
  | TokenCreated apiToken string
  | Availability bool string

record reply =
  rpStatus :: int
  rpBody :: body

definition errReply :: "int \<Rightarrow> string \<Rightarrow> reply" where
  "errReply status code = \<lparr>rpStatus = status, rpBody = ErrorBody code\<rparr>"

definition internalError :: reply where
  "internalError = errReply 500 ''internal''"

text \<open>A nil pointer is dereferenced; the server's recovery middleware answers.\<close>

definition goPanic :: reply where
  "goPanic = errReply 500 ''panic''"

definition noContent :: reply where
  "noContent = \<lparr>rpStatus = 204, rpBody = NoBody\<rparr>"

definition accepted :: reply where
  "accepted = \<lparr>rpStatus = 202, rpBody = NoBody\<rparr>"

definition okReply :: "body \<Rightarrow> reply" where
  "okReply b = \<lparr>rpStatus = 200, rpBody = b\<rparr>"

section \<open>Configuration, requests and state\<close>

record cipher =
  cpEncrypt :: "string \<Rightarrow> (string \<times> string) option"
  cpDecrypt :: "string \<Rightarrow> string \<Rightarrow> string option"

text \<open>
  The provider of \<open>internal/oauthgoogle\<close>: whether it has credentials, the URL of the consent screen for a
  state and a PKCE challenge, the exchange of a code, and the profile behind an access token.
\<close>

record googleProfile =
  gpSubject :: string
  gpEmail :: string
  gpVerified :: bool
  gpName :: string

record googleProvider =
  goEnabled :: bool
  goAuthURL :: "string \<Rightarrow> string \<Rightarrow> string option"
  goExchange :: "string \<Rightarrow> string \<Rightarrow> string option"
  goUserInfo :: "string \<Rightarrow> googleProfile option"

text \<open>
  \<open>Handler\<close>'s immutable fields.  \<open>hPolicy\<close> is the policy store, nil or with its row and whether it answers.
  \<open>hVerify\<close> and \<open>hHash\<close> are bcrypt, \<open>hHmac\<close> HMAC-SHA256, \<open>hHotp\<close> the code
  generator of the OTP library, \<open>hDraft\<close> renders a mail from its template and arguments, \<open>hQR\<close> the
  enrollment image from the address and the seed; \<open>hLocales\<close> are the shipped catalogues.
\<close>

record handlerCfg =
  hCipher :: "cipher option"
  hCodeMAC :: "codeMAC option"
  hRequire2FA :: bool
  hAdminTOTPOnly :: "bool option"
  hSmtp :: bool
  hTTL :: sessionTTL
  hPolicy :: "(bool \<times> settingRow) option"
  hVerify :: "string \<Rightarrow> string \<Rightarrow> bool"
  hHash :: "string \<Rightarrow> string option"
  hHmac :: "string \<Rightarrow> string \<Rightarrow> string"
  hHotp :: "string \<Rightarrow> nat \<Rightarrow> string option"
  hDraft :: "string \<Rightarrow> string list \<Rightarrow> string"
  hQR :: "string \<Rightarrow> string \<Rightarrow> string option"
  hGoogle :: "googleProvider option"
  hBaseURL :: string
  hLocales :: "string list"

record authRequest =
  arPreAuth :: "string option"
  arAccess :: "string option"
  arRefresh :: "string option"
  arCsrf :: string
  arPrincipal :: "principal option"
  arIP :: string
  arUA :: string
  arOAuth :: "string option"

text \<open>
  What happens around one request: the clock at each step, what other requests do to the database before
  it, which steps fail, whether the outbox accepts, the random material, and the limits \<open>Cache.Current\<close> answers.
\<close>

record world =
  wClock :: "nat \<Rightarrow> gotime"
  wOthers :: "nat \<Rightarrow> authdb \<Rightarrow> authdb"
  wFault :: "nat \<Rightarrow> bool"
  wOutbox :: bool
  wMinted :: "string \<times> string \<times> string"
  wFamily :: string
  wToken :: string
  wSeedToken :: string
  wRandom :: "nat \<Rightarrow> (nat \<Rightarrow> 8 word) option"
  wNumber :: "nat option"
  wSeed :: "string option"
  wAbuse :: abusePolicy
  wPkce :: "(string \<times> string) option"

datatype bucket =
    LoginByIP | LoginByEmail | BootstrapIP | InviteIP | PwResetIP | PwResetEmail | StepUpUser | StepUpPasswordUser
  | OAuthIP | AvailabilityUser

record auditRecord =
  auAction :: string
  auActor :: "int option"
  auTarget :: string
  auDetail :: string

record srv =
  svDb :: authdb
  svLimits :: "bucket \<Rightarrow> limiter"
  svAudit :: "auditRecord list"
  svCookies :: "cookieOp list"
  svTick :: nat

section \<open>Actions\<close>

type_synonym 'a act = "srv \<Rightarrow> (reply + 'a) \<times> srv"

definition ret :: "'a \<Rightarrow> 'a act" where
  "ret x s = (Inr x, s)"

definition answer :: "reply \<Rightarrow> 'a act" where
  "answer r s = (Inl r, s)"

definition hbind :: "'a act \<Rightarrow> ('a \<Rightarrow> 'b act) \<Rightarrow> 'b act" where
  "hbind m f s = (case m s of (Inl r, s') \<Rightarrow> (Inl r, s') | (Inr x, s') \<Rightarrow> f x s')"

definition hthen :: "'a act \<Rightarrow> 'b act \<Rightarrow> 'b act" where
  "hthen m k = hbind m (\<lambda>_. k)"

definition cookie :: "cookieOp \<Rightarrow> unit act" where
  "cookie c s = (Inr (), s\<lparr>svCookies := svCookies s @ [c]\<rparr>)"

definition call :: "world \<Rightarrow> (gotime \<Rightarrow> authdb \<Rightarrow> (authErr + 'a) \<times> authdb) \<Rightarrow> (authErr + 'a) act" where
  "call w op s =
     (let k = svTick s; db = wOthers w k (svDb s)
      in if wFault w k then (Inr (Inl ErrSql), s\<lparr>svDb := db, svTick := Suc k\<rparr>)
         else (case op (wClock w k) db of (r, db') \<Rightarrow> (Inr r, s\<lparr>svDb := db', svTick := Suc k\<rparr>)))"

definition clockNow :: "world \<Rightarrow> gotime act" where
  "clockNow w s = (Inr (wClock w (svTick s)), s\<lparr>svTick := Suc (svTick s)\<rparr>)"

definition query :: "world \<Rightarrow> (gotime \<Rightarrow> authdb \<Rightarrow> authErr + 'a) \<Rightarrow> (authErr + 'a) act" where
  "query w f = call w (\<lambda>now db. (f now db, db))"

definition limit :: "world \<Rightarrow> bucket \<Rightarrow> (gotime \<Rightarrow> limiter \<Rightarrow> 'a \<times> limiter) \<Rightarrow> 'a act" where
  "limit w b op s =
     (let k = svTick s
      in case op (wClock w k) (svLimits s b) of
           (r, l) \<Rightarrow> (Inr r, s\<lparr>svLimits := (svLimits s)(b := l), svTick := Suc k\<rparr>))"

definition beginSlot :: "world \<Rightarrow> bucket \<Rightarrow> string \<Rightarrow> (gotime \<times> bool) act" where
  "beginSlot w b key = limit w b (\<lambda>now. Begin now key)"

definition commitFail :: "world \<Rightarrow> bucket \<Rightarrow> string \<Rightarrow> (nat \<times> gotime) act" where
  "commitFail w b key = limit w b (\<lambda>now. CommitFail now key)"

definition commitSuccess :: "world \<Rightarrow> bucket \<Rightarrow> string \<Rightarrow> unit act" where
  "commitSuccess w b key = limit w b (\<lambda>now l. ((), CommitSuccess now key l))"

definition releaseKey :: "world \<Rightarrow> bucket \<Rightarrow> string \<Rightarrow> unit act" where
  "releaseKey w b key = limit w b (\<lambda>now l. ((), Release key l))"

text \<open>\<open>Repository.Audit\<close> with its error logged and dropped.\<close>

definition audit :: "world \<Rightarrow> auditRecord \<Rightarrow> unit act" where
  "audit w a s =
     (let k = svTick s
      in (Inr (), s\<lparr>svDb := wOthers w k (svDb s), svTick := Suc k,
                    svAudit := (if wFault w k then svAudit s else svAudit s @ [a])\<rparr>))"

definition serve :: "unit act \<Rightarrow> srv \<Rightarrow> (reply \<times> cookieOp list) \<times> srv" where
  "serve h s =
     (case h (s\<lparr>svCookies := []\<rparr>) of
        (Inl r, s') \<Rightarrow> ((r, svCookies s'), s')
      | (Inr _, s') \<Rightarrow> ((okReply NoBody, svCookies s'), s'))"

definition decode :: "'a option \<Rightarrow> 'a act" where
  "decode body = (case body of None \<Rightarrow> answer (errReply 400 ''invalid_json'') | Some x \<Rightarrow> ret x)"

definition orInternal :: "authErr + 'a \<Rightarrow> 'a act" where
  "orInternal r = (case r of Inl e \<Rightarrow> answer internalError | Inr x \<Rightarrow> ret x)"

definition userBucketKey :: "string \<Rightarrow> int \<Rightarrow> string" where
  "userBucketKey prefix uid = prefix @ '':'' @ formatInt uid"

definition writeRateLimited :: "'a act" where
  "writeRateLimited = answer (errReply 429 ''too_many_attempts'')"

section \<open>Shared pieces\<close>

definition bullet :: string where
  "bullet = [char_of (226 :: nat), char_of (128 :: nat), char_of (162 :: nat)]"

text \<open>\<open>strings.LastIndex(email, "@")\<close> splits; an address without \<open>@\<close>, or starting at its only one, is hidden.\<close>

definition MaskEmail :: "string \<Rightarrow> string" where
  "MaskEmail email =
     (case splitFirst (CHR ''@'') (rev email) of
        None \<Rightarrow> bullet @ bullet @ bullet
      | Some (domainR, localR) \<Rightarrow>
          let lcl = rev localR; domain = rev domainR
          in if lcl = [] then bullet @ bullet @ bullet
             else (if length lcl \<le> 1 then bullet
                   else if length lcl = 2 then take 1 lcl @ bullet
                   else take 2 lcl @ concat (replicate (min (length lcl - 2) 6) bullet)) @ ''@'' @ domain)"

text \<open>\<open>userColumns\<close>: the account with its two factor flags.\<close>

definition loadUser :: "int \<Rightarrow> authdb \<Rightarrow> authErr + userView" where
  "loadUser uid db =
     rbind (GetUser uid (idn db)) (\<lambda>u. Inr \<lparr>uvUser = u, uvTOTP = totpEnabled uid db, uvEmail = emailEnabled uid db\<rparr>)"

definition HasSecondFactor :: "userView \<Rightarrow> bool" where
  "HasSecondFactor u = (uvTOTP u \<or> uvEmail u)"

definition challengeTTL :: duration where "challengeTTL = 10 * minute"
definition emailOTPTTL :: duration where "emailOTPTTL = 5 * minute"

definition otpTTL :: "handlerCfg \<Rightarrow> duration" where
  "otpTTL cfg = (case hPolicy cfg of None \<Rightarrow> emailOTPTTL | Some (up, row) \<Rightarrow> max (PolicyOTPTTL up row) minute)"

definition otpCooldown :: "handlerCfg \<Rightarrow> duration" where
  "otpCooldown cfg =
     (case hPolicy cfg of None \<Rightarrow> otpResendInterval | Some (up, row) \<Rightarrow> max (PolicyOTPResendCooldown up row) otpResendInterval)"

text \<open>\<open>secrets.NewNumericCode\<close>: \<open>n\<close> is the random number below \<open>10 ^ digits\<close>, \<open>None\<close> when none could be read.\<close>

definition NewNumericCode :: "nat \<Rightarrow> nat option \<Rightarrow> string option" where
  "NewNumericCode digits n =
     (if digits < 1 \<or> 18 < digits then None
      else (case n of None \<Rightarrow> None
            | Some k \<Rightarrow> let s = formatNat (k mod 10 ^ digits) in Some (replicate (digits - length s) (CHR ''0'') @ s)))"

definition enqueueMail :: "world \<Rightarrow> handlerCfg \<Rightarrow> string \<Rightarrow> string list \<Rightarrow> unit act" where
  "enqueueMail w cfg template args =
     hthen (call w (\<lambda>now db. runTx db (rbind (enqueueDraft (wOutbox w) (Some (hDraft cfg template args)) [] db)
                                            (\<lambda>db'. Inr ((), db'))))) (ret ())"

definition notifyRecoveryCodeUsed :: "world \<Rightarrow> handlerCfg \<Rightarrow> userView \<Rightarrow> unit act" where
  "notifyRecoveryCodeUsed w cfg u =
     hbind (query w (\<lambda>now db. Inr (CountRecoveryCodes (uId (uvUser u)) db))) (\<lambda>r.
       case r of Inl e \<Rightarrow> ret ()
       | Inr n \<Rightarrow> enqueueMail w cfg ''recovery_code_used'' [uEmail (uvUser u), formatNat n])"

section \<open>A proven first factor\<close>

text \<open>\<open>None\<close> is the empty purpose: the password is the whole login.\<close>

definition secondFactorPurpose :: "handlerCfg \<Rightarrow> userView \<Rightarrow> string option" where
  "secondFactorPurpose cfg u =
     (if hCipher cfg = None \<or> hCodeMAC cfg = None then None
      else if HasSecondFactor u then Some PurposeTOTP
      else if hRequire2FA cfg \<and> IsAdmin (uRole (uvUser u)) then Some PurposeEnroll2FA
      else None)"

definition pendingPayload :: "handlerCfg \<Rightarrow> userView \<Rightarrow> string \<Rightarrow> bool \<Rightarrow> pendingAuth option" where
  "pendingPayload cfg u purpose mailboxAlreadyProven =
     (if purpose = PurposeTOTP
      then Some \<lparr>pdPurpose = purpose, pdEmail = MaskEmail (uEmail (uvUser u)),
                 pdMethods = [MethodTOTP, MethodRecovery] @
                   (if emailFactorAvailable (hSmtp cfg) purpose mailboxAlreadyProven (uvEmail u) then [MethodEmailOTP] else []),
                 pdConvert = False, pdReason = []\<rparr>
      else if purpose = PurposeEnroll2FA
      then Some \<lparr>pdPurpose = purpose, pdEmail = MaskEmail (uEmail (uvUser u)), pdMethods = [], pdConvert = False,
                 pdReason = ''admin_enrollment_required''\<rparr>
      else if purpose = PurposeConvertGoogle
      then Some \<lparr>pdPurpose = purpose, pdEmail = MaskEmail (uEmail (uvUser u)), pdMethods = [], pdConvert = True, pdReason = []\<rparr>
      else None)"

definition beginChallengeFor :: "world \<Rightarrow> newChallenge \<Rightarrow> unit act" where
  "beginChallengeFor w nc =
     hbind (call w (\<lambda>now. CreateChallenge now (wToken w) nc)) (\<lambda>r.
       case r of Inl e \<Rightarrow> answer internalError
       | Inr i \<Rightarrow> cookie (SetPreAuth (wToken w) challengeTTL))"

definition beginChallenge :: "world \<Rightarrow> userView \<Rightarrow> string \<Rightarrow> bool \<Rightarrow> unit act" where
  "beginChallenge w u purpose mailboxAlreadyProven =
     beginChallengeFor w \<lparr>ncUser = uId (uvUser u), ncPurpose = purpose, ncVersion = uTokenVersion (uvUser u),
       ncTTL = challengeTTL, ncMailbox = mailboxAlreadyProven, ncOauth = None\<rparr>"

definition startChallenge :: "world \<Rightarrow> handlerCfg \<Rightarrow> userView \<Rightarrow> string \<Rightarrow> bool \<Rightarrow> 'a act" where
  "startChallenge w cfg u purpose mailboxAlreadyProven =
     (case pendingPayload cfg u purpose mailboxAlreadyProven of
        None \<Rightarrow> answer internalError
      | Some pd \<Rightarrow> hthen (beginChallenge w u purpose mailboxAlreadyProven) (answer (okReply (Pending pd))))"

definition AuditLoginSucceeded :: string where "AuditLoginSucceeded = ''login.succeeded''"

text \<open>\<open>Repository.IssueSession\<close> on the whole database.\<close>

definition issueSession :: "world \<Rightarrow> handlerCfg \<Rightarrow> authRequest \<Rightarrow> userView \<Rightarrow> (authErr + sessionIssue \<times> int) act" where
  "issueSession w cfg rq u =
     call w (\<lambda>now db. case IssueSession now (wFamily w) (wMinted w) (uId (uvUser u)) (uTokenVersion (uvUser u))
                              (hTTL cfg) (arIP rq) (arUA rq) (idn db) of
                        (r, st) \<Rightarrow> (r, setIdn st db))"

definition issueAndRespond :: "world \<Rightarrow> handlerCfg \<Rightarrow> authRequest \<Rightarrow> userView \<Rightarrow> 'a act" where
  "issueAndRespond w cfg rq u =
     hbind (issueSession w cfg rq u) (\<lambda>r.
       case r of Inl e \<Rightarrow> answer internalError
       | Inr (issue, sid) \<Rightarrow>
           hthen (cookie (SetSession issue))
          (hthen (audit w \<lparr>auAction = AuditLoginSucceeded, auActor = Some (uId (uvUser u)), auTarget = uEmail (uvUser u),
                           auDetail = []\<rparr>)
                 (answer (okReply (Authenticated u (isCsrf issue) [])))))"

definition completeLogin :: "world \<Rightarrow> handlerCfg \<Rightarrow> authRequest \<Rightarrow> userView \<Rightarrow> bool \<Rightarrow> 'a act" where
  "completeLogin w cfg rq u mailboxAlreadyProven =
     (case secondFactorPurpose cfg u of
        Some purpose \<Rightarrow> hthen (cookie ClearSession) (startChallenge w cfg u purpose mailboxAlreadyProven)
      | None \<Rightarrow> issueAndRespond w cfg rq u)"

section \<open>Refusals shared by the endpoints\<close>

definition writeChallengeError :: "authErr \<Rightarrow> 'a act" where
  "writeChallengeError e =
     (if e = ErrChallengeWrongPurpose then answer (errReply 409 ''wrong_challenge'')
      else if e = ErrChallengeExhausted then hthen (cookie ClearPreAuth) (answer (errReply 429 ''too_many_attempts''))
      else if e = ErrChallengeInvalid then hthen (cookie ClearPreAuth) (answer (errReply 401 ''challenge_invalid''))
      else answer internalError)"

definition writeSessionInvalid :: "'a act" where
  "writeSessionInvalid = hthen (cookie ClearSession) (answer (errReply 401 ''session_expired''))"

definition requireChallenge :: "world \<Rightarrow> authRequest \<Rightarrow> string list \<Rightarrow> challenge act" where
  "requireChallenge w rq purposes =
     hbind (query w (\<lambda>now. ResolveChallenge now (arPreAuth rq) purposes)) (\<lambda>r.
       case r of
         Inr c \<Rightarrow> ret c
       | Inl e \<Rightarrow>
           if e = ErrChallengeInvalid
           then hthen (query w (\<lambda>now. DiagnoseChallenge now (arPreAuth rq))) (writeChallengeError e)
           else writeChallengeError e)"

definition writeFactorTxnError :: "authErr option \<Rightarrow> unit act" where
  "writeFactorTxnError e =
     (case e of
        None \<Rightarrow> ret ()
      | Some x \<Rightarrow>
          if x = ErrChallengeInvalid then writeChallengeError x
          else if x = ErrSessionInvalid then writeSessionInvalid
          else if x = ErrNoPendingFactor then answer (errReply 409 ''email_factor_not_enabled'')
          else answer internalError)"

end
