(* ===== verification/TwoFactorHttp.thy ===== *)
theory TwoFactorHttp
  imports AuthHttp
begin

text \<open>
  The endpoints of the second factor before a session exists, and enrollment: \<open>auth/twofa_handler.go\<close> and
  \<open>auth/email_factor_handler.go\<close>.  A body that does not decode is \<open>None\<close>.
\<close>

section \<open>Proofs\<close>

definition verifyTOTP ::
  "(string \<Rightarrow> nat \<Rightarrow> string option) \<Rightarrow> string \<Rightarrow> string \<Rightarrow> params \<Rightarrow> gotime \<Rightarrow> authErr + int" where
  "verifyTOTP hotp secret code p now =
     (case Verify hotp secret code p now of
        Inr n \<Rightarrow> Inr n
      | Inl ErrMismatch \<Rightarrow> Inl ErrBadCredentials
      | Inl ErrParams \<Rightarrow> Inl ErrTOTPParams
      | Inl ErrGenerate \<Rightarrow> Inl ErrTOTPGenerate)"

definition rowParams :: "totpRow \<Rightarrow> params" where
  "rowParams r = (case toParams r of (a, d, p) \<Rightarrow> \<lparr>paAlgorithm = a, paDigits = d, paPeriod = p\<rparr>)"

definition verifyTOTPProof :: "world \<Rightarrow> handlerCfg \<Rightarrow> int \<Rightarrow> string \<Rightarrow> totpProof option act" where
  "verifyTOTPProof w cfg uid code =
     hbind (query w (\<lambda>now. LoadTOTPSecret uid)) (\<lambda>r.
       case r of Inl e \<Rightarrow> ret None
       | Inr row \<Rightarrow>
           if toConfirmed row = None then ret None
           else (case hCipher cfg of
                   None \<Rightarrow> answer goPanic
                 | Some ci \<Rightarrow>
                     (case cpDecrypt ci (toCipher row) (toNonce row) of
                        None \<Rightarrow> ret None
                      | Some secret \<Rightarrow>
                          hbind (clockNow w) (\<lambda>now.
                            case verifyTOTP (hHotp cfg) secret code (rowParams row) now of
                              Inl e \<Rightarrow> ret None
                            | Inr counter \<Rightarrow>
                                ret (Some \<lparr>tpCounter = counter, tpCipher = toCipher row, tpNonce = toNonce row\<rparr>)))))"

definition challengeProofFor ::
  "world \<Rightarrow> handlerCfg \<Rightarrow> userView \<Rightarrow> string \<Rightarrow> int option \<Rightarrow> challengeProof act" where
  "challengeProofFor w cfg u code challengeID =
     (case NumericOTP code of
        Some digits \<Rightarrow>
          hbind (verifyTOTPProof w cfg (uId (uvUser u)) digits) (\<lambda>t.
            case hCodeMAC cfg of
              None \<Rightarrow> answer goPanic
            | Some m \<Rightarrow> ret \<lparr>cpTotp = t,
                cpEmail = EmailOTPDigest (hHmac cfg) m (uId (uvUser u)) OTPPurposeLogin2FA challengeID digits,
                cpRecovery = []\<rparr>)
      | None \<Rightarrow>
          let normalized = NormalizeRecovery code
          in if normalized = [] then ret \<lparr>cpTotp = None, cpEmail = [], cpRecovery = []\<rparr>
             else (case hCodeMAC cfg of
                     None \<Rightarrow> answer goPanic
                   | Some m \<Rightarrow> ret \<lparr>cpTotp = None, cpEmail = [],
                       cpRecovery = RecoveryCodeDigest (hHmac cfg) m (uId (uvUser u)) normalized\<rparr>))"

section \<open>Completing a challenge\<close>

text \<open>\<open>Verify2FA\<close> from the charged attempt on.\<close>

definition refuseCode :: "nat \<Rightarrow> 'a act" where
  "refuseCode attempts =
     (let remaining = maxChallengeAttempts - attempts
      in if remaining = 0
         then hthen (cookie ClearPreAuth) (answer (errReply 429 ''too_many_attempts''))
         else answer \<lparr>rpStatus = 401, rpBody = InvalidCode remaining\<rparr>)"

definition finishVerify2FA ::
  "world \<Rightarrow> handlerCfg \<Rightarrow> userView \<Rightarrow> nat \<Rightarrow> authErr + sessionIssue \<times> string \<Rightarrow> unit act" where
  "finishVerify2FA w cfg u attempts r =
     (case r of
        Inl e \<Rightarrow> if e = ErrBadCredentials then refuseCode attempts else writeChallengeError e
      | Inr (tok, method) \<Rightarrow>
          hthen (if method = MethodRecovery then notifyRecoveryCodeUsed w cfg u else ret ())
         (hthen (cookie ClearPreAuth)
         (hthen (cookie (SetSession tok))
                (answer (okReply (Authenticated u (isCsrf tok) []))))))"

definition examineCode ::
  "world \<Rightarrow> handlerCfg \<Rightarrow> authRequest \<Rightarrow> string \<Rightarrow> challenge \<Rightarrow> nat \<Rightarrow> unit act" where
  "examineCode w cfg rq code ch attempts =
     hbind (query w (\<lambda>now. loadUser (chUser ch))) (\<lambda>ur.
       case ur of Inl e \<Rightarrow> answer internalError
       | Inr u \<Rightarrow>
           if uStatus (uvUser u) \<noteq> StatusActive
           then hthen (call w (\<lambda>now. ConsumeChallenge now (chId ch)))
               (hthen (cookie ClearPreAuth) (answer (errReply 401 ''challenge_invalid'')))
           else hbind (challengeProofFor w cfg u code (Some (chId ch))) (\<lambda>proof.
                hbind (call w (\<lambda>now. Complete2FA now (wFamily w) (wMinted w) ch proof (hTTL cfg) (arIP rq) (arUA rq)))
                      (finishVerify2FA w cfg u attempts)))"

definition Verify2FA :: "world \<Rightarrow> handlerCfg \<Rightarrow> authRequest \<Rightarrow> string option \<Rightarrow> unit act" where
  "Verify2FA w cfg rq input =
     hbind (requireChallenge w rq [PurposeTOTP]) (\<lambda>ch.
     hbind (decode input) (\<lambda>code.
     hbind (call w (\<lambda>now. BumpChallengeAttempt now (chId ch))) (\<lambda>b.
       case b of Inl e \<Rightarrow> writeChallengeError e
       | Inr attempts \<Rightarrow> examineCode w cfg rq code ch attempts)))"

definition SendEmailOTP :: "world \<Rightarrow> handlerCfg \<Rightarrow> authRequest \<Rightarrow> unit act" where
  "SendEmailOTP w cfg rq =
     hbind (requireChallenge w rq [PurposeTOTP]) (\<lambda>ch.
     hbind (query w (\<lambda>now. loadUser (chUser ch))) (\<lambda>ur.
       case ur of Inl e \<Rightarrow> answer internalError
       | Inr u \<Rightarrow>
           if \<not> emailFactorAvailable (hSmtp cfg) (chPurpose ch) (chMailbox ch) (uvEmail u)
           then answer (errReply 403 ''email_factor_unavailable'')
           else (case NewNumericCode Digits (wNumber w) of
                   None \<Rightarrow> answer internalError
                 | Some code \<Rightarrow>
                     (case hCodeMAC cfg of
                        None \<Rightarrow> answer goPanic
                      | Some m \<Rightarrow>
                          hbind (call w (\<lambda>now. CreateChallengeEmailOTP now (chId ch)
                                   (EmailOTPDigest (hHmac cfg) m (chUser ch) OTPPurposeLogin2FA (Some (chId ch)) code)
                                   (otpTTL cfg) (otpCooldown cfg) (wOutbox w)
                                   (Some (hDraft cfg ''login_code''
                                     [uEmail (uvUser u), code, formatInt (otpTTL cfg div minute)])))) (\<lambda>r.
                            case r of
                              Inl e \<Rightarrow> if e = ErrTooSoon \<or> e = ErrSendsExhausted then answer accepted
                                       else writeChallengeError e
                            | Inr n \<Rightarrow> answer accepted)))))"

section \<open>Who is enrolling\<close>

definition beginStepUpPassword :: "world \<Rightarrow> int \<Rightarrow> string act" where
  "beginStepUpPassword w uid =
     (let key = userBucketKey ''stepup-password'' uid
      in hbind (beginSlot w StepUpPasswordUser key) (\<lambda>(until, ok).
           if \<not> ok then writeRateLimited else ret key))"

definition enrollmentPrincipal ::
  "world \<Rightarrow> handlerCfg \<Rightarrow> authRequest \<Rightarrow> string option \<Rightarrow> (int \<times> nat \<times> int) act" where
  "enrollmentPrincipal w cfg rq input =
     (case arPrincipal rq of
        Some p \<Rightarrow>
          hbind (decode input) (\<lambda>password.
          hbind (beginStepUpPassword w (prUser p)) (\<lambda>key.
          hbind (query w (\<lambda>now db. VerifyUserPasswordEpoch (hVerify cfg) (prUser p) password (idn db))) (\<lambda>r.
            case r of
              Inl e \<Rightarrow>
                if e = ErrBadCredentials \<or> e = ErrPasswordMissing
                then hthen (commitFail w StepUpPasswordUser key) (answer (errReply 401 ''invalid_credentials''))
                else hthen (releaseKey w StepUpPasswordUser key) (answer internalError)
            | Inr v \<Rightarrow> hthen (commitSuccess w StepUpPasswordUser key) (ret (prUser p, v, prSession p)))))
      | None \<Rightarrow>
          hbind (requireChallenge w rq [PurposeEnroll2FA]) (\<lambda>ch.
            case chVersion ch of None \<Rightarrow> answer internalError | Some v \<Rightarrow> ret (chUser ch, v, 0)))"

definition enrollmentPrincipalNoPassword :: "world \<Rightarrow> authRequest \<Rightarrow> (int \<times> nat \<times> int) act" where
  "enrollmentPrincipalNoPassword w rq =
     (case arPrincipal rq of
        Some p \<Rightarrow>
          hbind (query w (\<lambda>now. loadUser (prUser p))) (\<lambda>r.
          hbind (orInternal r) (\<lambda>u. ret (prUser p, uTokenVersion (uvUser u), prSession p)))
      | None \<Rightarrow>
          hbind (requireChallenge w rq [PurposeEnroll2FA]) (\<lambda>ch.
            case chVersion ch of None \<Rightarrow> answer internalError | Some v \<Rightarrow> ret (chUser ch, v, 0)))"

definition enrollmentSessionMatches :: "int option \<Rightarrow> int \<Rightarrow> bool" where
  "enrollmentSessionMatches stored current =
     (if current = 0 then stored = None else stored = Some current)"

definition newRecoveryCodeSet :: "world \<Rightarrow> handlerCfg \<Rightarrow> int \<Rightarrow> (authErr + string list \<times> string list) act" where
  "newRecoveryCodeSet w cfg uid =
     (case NewRecoveryCodes RecoveryCount (wRandom w) of
        None \<Rightarrow> ret (Inl ErrRandom)
      | Some codes \<Rightarrow>
          (case hCodeMAC cfg of
             None \<Rightarrow> answer goPanic
           | Some m \<Rightarrow> ret (Inr (codes, map (\<lambda>c. RecoveryCodeDigest (hHmac cfg) m uid (NormalizeRecovery c)) codes))))"

section \<open>Enrolling an authenticator\<close>

definition StartTOTP :: "world \<Rightarrow> handlerCfg \<Rightarrow> authRequest \<Rightarrow> string option \<Rightarrow> unit act" where
  "StartTOTP w cfg rq input =
     hbind (enrollmentPrincipal w cfg rq input) (\<lambda>(uid, v, sid).
     hbind (query w (\<lambda>now db. GetUser uid (idn db))) (\<lambda>er.
     hbind (orInternal er) (\<lambda>eu.
       case wSeed w of None \<Rightarrow> answer internalError
       | Some seed \<Rightarrow>
           (case hCipher cfg of None \<Rightarrow> answer goPanic
            | Some ci \<Rightarrow>
                (case cpEncrypt ci seed of None \<Rightarrow> answer internalError
                 | Some (ciphertext, nonce) \<Rightarrow>
                     hbind (call w (\<lambda>now. StartTOTPEnrollment now \<lparr>spUser = uid, spSession = sid, spVersion = v\<rparr>
                                            ciphertext nonce)) (\<lambda>r.
                       case r of
                         Inl e \<Rightarrow>
                           if e = ErrTOTPAlreadyConfirmed then answer (errReply 409 ''totp_already_enabled'')
                           else if e = ErrChallengeInvalid then writeChallengeError e
                           else answer internalError
                       | Inr _ \<Rightarrow> answer (okReply (Secret seed (uEmail eu)))))))))"

definition TOTPQR :: "world \<Rightarrow> handlerCfg \<Rightarrow> authRequest \<Rightarrow> unit act" where
  "TOTPQR w cfg rq =
     hbind (enrollmentPrincipalNoPassword w rq) (\<lambda>(uid, v, sid).
     hbind (query w (\<lambda>now. LoadTOTPSecret uid)) (\<lambda>r.
       case r of Inl e \<Rightarrow> answer (errReply 404 ''not_found'')
       | Inr row \<Rightarrow>
           if toConfirmed row \<noteq> None then answer (errReply 404 ''not_found'')
           else if toVersion row \<noteq> Some v then writeChallengeError ErrChallengeInvalid
           else if \<not> enrollmentSessionMatches (toSession row) sid then writeChallengeError ErrChallengeInvalid
           else (case hCipher cfg of None \<Rightarrow> answer goPanic
                 | Some ci \<Rightarrow>
                     (case cpDecrypt ci (toCipher row) (toNonce row) of None \<Rightarrow> answer internalError
                      | Some secret \<Rightarrow>
                          hbind (query w (\<lambda>now db. GetUser uid (idn db))) (\<lambda>er.
                          hbind (orInternal er) (\<lambda>eu.
                            case hQR cfg (uEmail eu) secret of
                              None \<Rightarrow> answer internalError
                            | Some png \<Rightarrow> answer (okReply (Secret png (uEmail eu)))))))))"

definition pendingTOTPEnrollment ::
  "world \<Rightarrow> handlerCfg \<Rightarrow> int \<Rightarrow> nat \<Rightarrow> int \<Rightarrow> string \<Rightarrow> (totpRow \<times> int) act" where
  "pendingTOTPEnrollment w cfg uid v sid code =
     hbind (query w (\<lambda>now. LoadTOTPSecret uid)) (\<lambda>r.
       case r of Inl e \<Rightarrow> answer (errReply 400 ''no_enrollment'')
       | Inr row \<Rightarrow>
           if toConfirmed row \<noteq> None then answer (errReply 409 ''totp_already_enabled'')
           else if toVersion row \<noteq> Some v then writeChallengeError ErrChallengeInvalid
           else if \<not> enrollmentSessionMatches (toSession row) sid then writeChallengeError ErrChallengeInvalid
           else (case hCipher cfg of None \<Rightarrow> answer goPanic
                 | Some ci \<Rightarrow>
                     (case cpDecrypt ci (toCipher row) (toNonce row) of None \<Rightarrow> answer internalError
                      | Some secret \<Rightarrow>
                          hbind (clockNow w) (\<lambda>now.
                            case verifyTOTP (hHotp cfg) secret code (rowParams row) now of
                              Inl e \<Rightarrow> answer (errReply 401 ''invalid_code'')
                            | Inr counter \<Rightarrow> ret (row, counter)))))"

definition confirmEnrollmentSession ::
  "world \<Rightarrow> handlerCfg \<Rightarrow> authRequest \<Rightarrow> int \<Rightarrow> (challenge option \<times> issueMode) act" where
  "confirmEnrollmentSession w cfg rq sid =
     (case arPrincipal rq of
        Some p \<Rightarrow> ret (None, LiveSession sid)
      | None \<Rightarrow>
          hbind (query w (\<lambda>now. ResolveChallenge now (arPreAuth rq) [PurposeEnroll2FA])) (\<lambda>r.
            case r of Inl e \<Rightarrow> writeChallengeError e
            | Inr ch \<Rightarrow> ret (Some ch, PreAuth ch (hTTL cfg) (arIP rq) (arUA rq))))"

definition writeTOTPConfirmError :: "authErr \<Rightarrow> 'a act" where
  "writeTOTPConfirmError e =
     (if e = ErrTOTPEnrollmentChanged then answer (errReply 409 ''enrollment_changed'')
      else if e = ErrChallengeInvalid then writeChallengeError e
      else if e = ErrSessionInvalid then writeSessionInvalid
      else answer internalError)"

text \<open>
  Both confirmations end alike: the mandatory enrollment of an administrator is a sign-in, the one from
  the settings answers with the codes only.
\<close>

definition confirmed ::
  "userView \<Rightarrow> sessionIssue option \<Rightarrow> string list \<Rightarrow> challenge option \<Rightarrow> unit act" where
  "confirmed u tok codes challenge =
     (case challenge of
        None \<Rightarrow> answer (okReply (RecoveryCodes codes))
      | Some ch \<Rightarrow>
          hthen (cookie ClearPreAuth)
         (hthen (case tok of None \<Rightarrow> ret () | Some t \<Rightarrow> cookie (SetSession t))
                (answer (okReply (Authenticated u (case tok of None \<Rightarrow> [] | Some t \<Rightarrow> isCsrf t) codes)))))"

text \<open>The user the completion returns is read in its transaction, with the flags as they are then.\<close>

definition withFlags ::
  "(authErr + user \<times> 'b) \<times> authdb \<Rightarrow> (authErr + userView \<times> 'b) \<times> authdb" where
  "withFlags r =
     (case r of
        (Inl e, db) \<Rightarrow> (Inl e, db)
      | (Inr (u, x), db) \<Rightarrow>
          (Inr (\<lparr>uvUser = u, uvTOTP = totpEnabled (uId u) db, uvEmail = emailEnabled (uId u) db\<rparr>, x), db))"

definition ConfirmTOTP :: "world \<Rightarrow> handlerCfg \<Rightarrow> authRequest \<Rightarrow> string option \<Rightarrow> unit act" where
  "ConfirmTOTP w cfg rq input =
     hbind (enrollmentPrincipalNoPassword w rq) (\<lambda>(uid, v, sid).
     hbind (decode input) (\<lambda>code.
     hbind (pendingTOTPEnrollment w cfg uid v sid code) (\<lambda>(row, counter).
     hbind (newRecoveryCodeSet w cfg uid) (\<lambda>cr.
     hbind (orInternal cr) (\<lambda>(codes, hashes).
     hbind (confirmEnrollmentSession w cfg rq sid) (\<lambda>(challenge, session).
     hbind (call w (\<lambda>now db. withFlags (CompleteTOTPEnrollment now (wFamily w) (wMinted w)
              \<lparr>ecUser = uid, ecVersion = v, ecHashes = hashes, ecSession = session\<rparr>
              \<lparr>tpCounter = counter, tpCipher = toCipher row, tpNonce = toNonce row\<rparr> db))) (\<lambda>r.
       case r of Inl e \<Rightarrow> writeTOTPConfirmError e
       | Inr (u, tok) \<Rightarrow> confirmed u tok codes challenge)))))))"

end
