(* ===== verification/StepUpHttp.thy ===== *)
theory StepUpHttp
  imports TwoFactorHttp
begin

text \<open>
  The endpoints that change a credential from a live session: \<open>auth/twofa_handler.go\<close>,
  \<open>auth/email_factor_handler.go\<close>, \<open>SetPassword\<close> and \<open>ChangePassword\<close>.  They sit behind \<open>Authenticate\<close>, so
  each takes the principal.  A wrong password spends from one budget and a wrong code from another; a
  reservation is settled on every way out.
\<close>

section \<open>The step-up proof\<close>

definition tryMailedStepUpProof ::
  "world \<Rightarrow> handlerCfg \<Rightarrow> int \<Rightarrow> userView \<Rightarrow> string \<Rightarrow> (authErr + secondFactorProof) act" where
  "tryMailedStepUpProof w cfg uid u digits =
     (case (if uvEmail u then hCodeMAC cfg else None) of
        None \<Rightarrow> ret (Inl ErrBadCredentials)
      | Some m \<Rightarrow>
          let digest = EmailOTPDigest (hHmac cfg) m uid OTPPurposeStepUp2FA None digits
          in hbind (query w (\<lambda>now db. Inr (StepUpEmailOTPIsLive now uid digest db))) (\<lambda>live.
               ret (if live = Inr True then Inr \<lparr>sfMethod = MethodEmailOTP, sfTotp = None, sfDigest = digest\<rparr>
                    else Inl ErrBadCredentials)))"

definition tryNumericStepUpProof ::
  "world \<Rightarrow> handlerCfg \<Rightarrow> int \<Rightarrow> userView \<Rightarrow> string \<Rightarrow> (authErr + secondFactorProof) act" where
  "tryNumericStepUpProof w cfg uid u digits =
     hbind (if hCipher cfg \<noteq> None then verifyTOTPProof w cfg uid digits else ret None) (\<lambda>t.
       case t of
         Some p \<Rightarrow> ret (Inr \<lparr>sfMethod = MethodTOTP, sfTotp = Some p, sfDigest = []\<rparr>)
       | None \<Rightarrow> tryMailedStepUpProof w cfg uid u digits)"

definition tryRecoveryStepUpProof ::
  "world \<Rightarrow> handlerCfg \<Rightarrow> int \<Rightarrow> string \<Rightarrow> (authErr + secondFactorProof) act" where
  "tryRecoveryStepUpProof w cfg uid normalized =
     (case hCodeMAC cfg of
        None \<Rightarrow> ret (Inl ErrBadCredentials)
      | Some m \<Rightarrow>
          let digest = RecoveryCodeDigest (hHmac cfg) m uid normalized
          in hbind (query w (\<lambda>now db. Inr (RecoveryCodeIsLive uid digest db))) (\<lambda>live.
               ret (if live = Inr True then Inr \<lparr>sfMethod = MethodRecovery, sfTotp = None, sfDigest = digest\<rparr>
                    else Inl ErrBadCredentials)))"

definition tryStepUpProof ::
  "world \<Rightarrow> handlerCfg \<Rightarrow> int \<Rightarrow> userView \<Rightarrow> string \<Rightarrow> (authErr + secondFactorProof) act" where
  "tryStepUpProof w cfg uid u code =
     (case NumericOTP code of
        Some digits \<Rightarrow> tryNumericStepUpProof w cfg uid u digits
      | None \<Rightarrow>
          let normalized = NormalizeRecovery code
          in if length normalized \<noteq> CodeChars then ret (Inl ErrBadCredentials)
             else tryRecoveryStepUpProof w cfg uid normalized)"

text \<open>\<open>errProofNotAttempted\<close> and every error not named here release.\<close>

definition settleStepUp :: "world \<Rightarrow> string \<Rightarrow> authErr option \<Rightarrow> unit act" where
  "settleStepUp w key e =
     (case e of
        None \<Rightarrow> commitSuccess w StepUpUser key
      | Some x \<Rightarrow>
          if x \<in> {ErrReplay, ErrBadCredentials, ErrPasswordMissing, ErrSessionInvalid}
          then hthen (commitFail w StepUpUser key) (ret ())
          else releaseKey w StepUpUser key)"

text \<open>A deferred call also runs when the body panics.\<close>

definition deferring :: "'a act \<Rightarrow> unit act \<Rightarrow> 'a act" where
  "deferring m d s = (case m s of (Inl r, s') \<Rightarrow> (Inl r, snd (d s')) | (Inr x, s') \<Rightarrow> (Inr x, s'))"

text \<open>
  \<open>withStepUp\<close>: \<open>Inl\<close> a response was written and \<open>work\<close> never ran, \<open>Inr\<close> it ran on this proof with
  this error.
\<close>

definition withStepUp ::
  "world \<Rightarrow> handlerCfg \<Rightarrow> int \<Rightarrow> userView \<Rightarrow> string \<Rightarrow> (secondFactorProof \<Rightarrow> authErr option act) \<Rightarrow>
   (reply + secondFactorProof \<times> authErr option) act" where
  "withStepUp w cfg uid u code work =
     (let key = userBucketKey ''stepup'' uid
      in hbind (beginSlot w StepUpUser key) (\<lambda>(until, ok).
           if \<not> ok then ret (Inl (errReply 429 ''too_many_attempts''))
           else hbind (tryStepUpProof w cfg uid u code) (\<lambda>r.
             case r of
               Inl e \<Rightarrow> hthen (settleStepUp w key (Some ErrBadCredentials)) (ret (Inl (errReply 401 ''invalid_code'')))
             | Inr proof \<Rightarrow>
                 hbind (deferring (work proof) (releaseKey w StepUpUser key)) (\<lambda>e.
                   hthen (settleStepUp w key e) (ret (Inr (proof, e)))))))"

definition notifyIfRecovery :: "world \<Rightarrow> handlerCfg \<Rightarrow> userView \<Rightarrow> secondFactorProof \<Rightarrow> unit act" where
  "notifyIfRecovery w cfg u proof = (if sfMethod proof = MethodRecovery then notifyRecoveryCodeUsed w cfg u else ret ())"

definition errOf :: "authErr + 'a \<Rightarrow> authErr option" where
  "errOf r = (case r of Inl e \<Rightarrow> Some e | Inr _ \<Rightarrow> None)"

definition workThenNotify ::
  "world \<Rightarrow> handlerCfg \<Rightarrow> userView \<Rightarrow> (gotime \<Rightarrow> authdb \<Rightarrow> (authErr + unit) \<times> authdb) \<Rightarrow> secondFactorProof \<Rightarrow> authErr option act" where
  "workThenNotify w cfg u op proof =
     hbind (call w op) (\<lambda>r. hthen (if r = Inr () then notifyIfRecovery w cfg u proof else ret ()) (ret (errOf r)))"

section \<open>What an account may do about its factors\<close>

record twoFactorStatus =
  tsUser :: userView
  tsRemaining :: nat
  tsEnabled :: bool
  tsRequired :: bool
  tsCanDisableTOTP :: bool
  tsCanDisableEmail :: bool
  tsMayRemoveTOTP :: bool
  tsMayRemoveEmail :: bool
  tsEmailAvailable :: bool

definition adminTOTPOnly :: "handlerCfg \<Rightarrow> bool" where
  "adminTOTPOnly cfg = (case hAdminTOTPOnly cfg of None \<Rightarrow> False | Some b \<Rightarrow> b)"

definition mayRemoveFactor :: "handlerCfg \<Rightarrow> bool \<Rightarrow> userView \<Rightarrow> factorKind \<Rightarrow> bool" where
  "mayRemoveFactor cfg totpOnly u removing =
     MayRemove \<lparr>rmRequireForAdmins = hRequire2FA cfg, rmTOTPOnly = totpOnly, rmIsAdmin = IsAdmin (uRole (uvUser u)),
                rmEmailEnabled = uvEmail u, rmTOTPEnabled = uvTOTP u, rmRemoving = removing\<rparr>"

definition twoFactorStatusWithTOTPOnly :: "handlerCfg \<Rightarrow> userView \<Rightarrow> twoFactorStatus" where
  "twoFactorStatusWithTOTPOnly cfg u =
     (let totpOnly = adminTOTPOnly cfg;
          mayTOTP = mayRemoveFactor cfg totpOnly u FactorTOTP;
          mayEmail = mayRemoveFactor cfg totpOnly u FactorEmail
      in \<lparr>tsUser = u, tsRemaining = 0, tsEnabled = HasSecondFactor u,
          tsRequired = (hRequire2FA cfg \<and> IsAdmin (uRole (uvUser u))),
          tsCanDisableTOTP = (uvTOTP u \<and> mayTOTP), tsCanDisableEmail = (uvEmail u \<and> mayEmail),
          tsMayRemoveTOTP = mayTOTP, tsMayRemoveEmail = mayEmail, tsEmailAvailable = hSmtp cfg\<rparr>)"

definition loadTwoFactorStatusWithTOTPOnly :: "world \<Rightarrow> handlerCfg \<Rightarrow> int \<Rightarrow> (authErr + twoFactorStatus) act" where
  "loadTwoFactorStatusWithTOTPOnly w cfg uid =
     hbind (query w (\<lambda>now. loadUser uid)) (\<lambda>ur.
       case ur of Inl e \<Rightarrow> ret (Inl e)
       | Inr u \<Rightarrow> hbind (query w (\<lambda>now db. Inr (CountRecoveryCodes uid db))) (\<lambda>nr.
           ret (case nr of Inl e \<Rightarrow> Inl e
                | Inr n \<Rightarrow> Inr ((twoFactorStatusWithTOTPOnly cfg u)\<lparr>tsRemaining := n\<rparr>))))"

definition TwoFactorStatus :: "world \<Rightarrow> handlerCfg \<Rightarrow> principal \<Rightarrow> unit act" where
  "TwoFactorStatus w cfg p =
     hbind (loadTwoFactorStatusWithTOTPOnly w cfg (prUser p)) (\<lambda>r.
     hbind (orInternal r) (\<lambda>st.
       answer (okReply (FactorStatus [tsEnabled st, uvTOTP (tsUser st), uvEmail (tsUser st), tsRequired st,
         tsCanDisableTOTP st, tsCanDisableEmail st, tsEmailAvailable st] (tsRemaining st)))))"

section \<open>Removing a factor, new recovery codes\<close>

definition proofOf :: "principal \<Rightarrow> nat \<Rightarrow> sessionProof" where
  "proofOf p v = \<lparr>spUser = prUser p, spSession = prSession p, spVersion = v\<rparr>"

text \<open>
  The answers \<open>DisableTOTP\<close> and \<open>RegenerateRecoveryCodes\<close> share once the work ran; each settles the
  password reservation.
\<close>

definition passwordOutcome :: "world \<Rightarrow> string \<Rightarrow> reply \<Rightarrow> authErr option \<Rightarrow> unit act" where
  "passwordOutcome w key done e =
     (case e of
        None \<Rightarrow> hthen (commitSuccess w StepUpPasswordUser key) (answer done)
      | Some x \<Rightarrow>
          if x = ErrBadCredentials \<or> x = ErrPasswordMissing
          then hthen (commitFail w StepUpPasswordUser key) (answer (errReply 401 ''invalid_credentials''))
          else if x = ErrReplay
          then hthen (commitSuccess w StepUpPasswordUser key) (answer (errReply 401 ''invalid_code''))
          else if x = ErrSessionInvalid
          then hthen (releaseKey w StepUpPasswordUser key) writeSessionInvalid
          else hthen (releaseKey w StepUpPasswordUser key) (answer internalError))"

definition DisableTOTPHandler ::
  "world \<Rightarrow> handlerCfg \<Rightarrow> principal \<Rightarrow> (string \<times> string) option \<Rightarrow> unit act" where
  "DisableTOTPHandler w cfg p input =
     hbind (decode input) (\<lambda>(password, code).
     hbind (query w (\<lambda>now. loadUser (prUser p))) (\<lambda>ur.
     hbind (orInternal ur) (\<lambda>u.
       if \<not> tsMayRemoveTOTP (twoFactorStatusWithTOTPOnly cfg u)
       then answer (errReply 403 ''totp_required_for_admins'')
       else hbind (beginStepUpPassword w (prUser p)) (\<lambda>key.
            hbind (withStepUp w cfg (prUser p) u code (\<lambda>proof.
                     workThenNotify w cfg u
                       (\<lambda>now. DisableTOTP (hVerify cfg) now (proofOf p (uTokenVersion (uvUser u))) password proof) proof)) (\<lambda>r.
              case r of
                Inl reply \<Rightarrow> hthen (releaseKey w StepUpPasswordUser key) (answer reply)
              | Inr (proof, e) \<Rightarrow>
                  if e = Some ErrNoPendingFactor
                  then hthen (commitSuccess w StepUpPasswordUser key) (answer (errReply 409 ''totp_not_enabled''))
                  else passwordOutcome w key noContent e)))))"

definition RegenerateRecoveryCodesHandler ::
  "world \<Rightarrow> handlerCfg \<Rightarrow> principal \<Rightarrow> (string \<times> string) option \<Rightarrow> unit act" where
  "RegenerateRecoveryCodesHandler w cfg p input =
     hbind (decode input) (\<lambda>(password, code).
     hbind (query w (\<lambda>now. loadUser (prUser p))) (\<lambda>ur.
     hbind (orInternal ur) (\<lambda>u.
     hbind (beginStepUpPassword w (prUser p)) (\<lambda>key.
     hbind (withStepUp w cfg (prUser p) u code (\<lambda>proof.
              hbind (newRecoveryCodeSet w cfg (prUser p)) (\<lambda>cr.
                case cr of Inl e \<Rightarrow> ret (Some e)
                | Inr (codes, hashes) \<Rightarrow>
                    workThenNotify w cfg u (\<lambda>now. RegenerateRecoveryCodes (hVerify cfg) now
                      (proofOf p (uTokenVersion (uvUser u))) password proof hashes) proof))) (\<lambda>r.
       case r of
         Inl reply \<Rightarrow> hthen (releaseKey w StepUpPasswordUser key) (answer reply)
       | Inr (proof, e) \<Rightarrow>
           passwordOutcome w key
             (okReply (RecoveryCodes (case NewRecoveryCodes RecoveryCount (wRandom w) of None \<Rightarrow> [] | Some codes \<Rightarrow> codes))) e)))))"

definition DisableEmailFactorHandler ::
  "world \<Rightarrow> handlerCfg \<Rightarrow> principal \<Rightarrow> (string \<times> string) option \<Rightarrow> unit act" where
  "DisableEmailFactorHandler w cfg p input =
     hbind (decode input) (\<lambda>(password, code).
     hbind (beginStepUpPassword w (prUser p)) (\<lambda>key.
     hbind (query w (\<lambda>now db. VerifyUserPasswordEpoch (hVerify cfg) (prUser p) password (idn db))) (\<lambda>vr.
       case vr of
         Inl e \<Rightarrow>
           if e = ErrBadCredentials \<or> e = ErrPasswordMissing
           then hthen (commitFail w StepUpPasswordUser key) (answer (errReply 401 ''invalid_credentials''))
           else hthen (releaseKey w StepUpPasswordUser key) (answer internalError)
       | Inr v \<Rightarrow>
           hthen (commitSuccess w StepUpPasswordUser key)
          (hbind (query w (\<lambda>now. loadUser (prUser p))) (\<lambda>ur.
           hbind (orInternal ur) (\<lambda>u.
             if \<not> tsMayRemoveEmail (twoFactorStatusWithTOTPOnly cfg u)
             then answer (errReply 403 ''totp_required_for_admins'')
             else hbind (withStepUp w cfg (prUser p) u code (\<lambda>proof.
                      hbind (call w (\<lambda>now. DisableEmailFactor now (proofOf p v) proof)) (\<lambda>r. ret (errOf r)))) (\<lambda>r.
                  case r of
                    Inl reply \<Rightarrow> answer reply
                  | Inr (proof, None) \<Rightarrow> hthen (notifyIfRecovery w cfg u proof) (answer noContent)
                  | Inr (proof, Some e) \<Rightarrow>
                      if e = ErrReplay \<or> e = ErrBadCredentials then answer (errReply 401 ''invalid_code'')
                      else writeFactorTxnError (Some e))))))))"

section \<open>The e-mail factor\<close>

definition StartEmailFactor :: "world \<Rightarrow> handlerCfg \<Rightarrow> authRequest \<Rightarrow> string option \<Rightarrow> unit act" where
  "StartEmailFactor w cfg rq input =
     (case hCodeMAC cfg of
        None \<Rightarrow> answer (errReply 501 ''2fa_unavailable'')
      | Some m \<Rightarrow>
          if \<not> hSmtp cfg then answer (errReply 409 ''email_factor_unavailable'')
          else hbind (enrollmentPrincipal w cfg rq input) (\<lambda>(uid, v, sid).
               hbind (query w (\<lambda>now. loadUser uid)) (\<lambda>ur.
               hbind (orInternal ur) (\<lambda>u.
                 case NewNumericCode Digits (wNumber w) of
                   None \<Rightarrow> answer internalError
                 | Some code \<Rightarrow>
                     hbind (call w (\<lambda>now. StartEmailFactorEnrollment now
                              \<lparr>spUser = uid, spSession = sid, spVersion = v\<rparr>
                              \<lparr>emDigest = EmailOTPDigest (hHmac cfg) m uid OTPPurposeEnrollEmail2FA None code,
                               emTTL = otpTTL cfg, emCooldown = otpCooldown cfg,
                               emDraft = Some (hDraft cfg ''enroll_email_2fa''
                                 [uEmail (uvUser u), code, formatInt (otpTTL cfg div minute)])\<rparr> (wOutbox w))) (\<lambda>r.
                       if r = Inl ErrFactorAlreadyConfirmed then answer (errReply 409 ''email_factor_already_enabled'')
                       else if r = Inl ErrTooSoon then answer accepted
                       else hthen (writeFactorTxnError (errOf r))
                              (answer (okReply (Sent2FA (MaskEmail (uEmail (uvUser u))) (otpTTL cfg div second)))))))))"

definition reserveEmailFactorConfirm ::
  "world \<Rightarrow> authRequest \<Rightarrow> int \<Rightarrow> (challenge option \<times> string option) act" where
  "reserveEmailFactorConfirm w rq uid =
     (case arPrincipal rq of
        None \<Rightarrow>
          hbind (query w (\<lambda>now. ResolveChallenge now (arPreAuth rq) [PurposeEnroll2FA])) (\<lambda>r.
            case r of Inl e \<Rightarrow> writeChallengeError e
            | Inr ch \<Rightarrow>
                hbind (call w (\<lambda>now. BumpChallengeAttempt now (chId ch))) (\<lambda>b.
                  case b of Inl e \<Rightarrow> writeChallengeError e | Inr n \<Rightarrow> ret (Some ch, None)))
      | Some p \<Rightarrow>
          let key = userBucketKey ''enroll'' uid
          in hbind (beginSlot w StepUpUser key) (\<lambda>(until, ok).
               if \<not> ok then writeRateLimited else ret (None, Some key)))"

definition settleEnroll :: "world \<Rightarrow> string option \<Rightarrow> authErr option \<Rightarrow> unit act" where
  "settleEnroll w key e = (case key of None \<Rightarrow> ret () | Some k \<Rightarrow> settleStepUp w k e)"

definition ConfirmEmailFactor :: "world \<Rightarrow> handlerCfg \<Rightarrow> authRequest \<Rightarrow> string option \<Rightarrow> unit act" where
  "ConfirmEmailFactor w cfg rq input =
     (case hCodeMAC cfg of
        None \<Rightarrow> answer (errReply 501 ''2fa_unavailable'')
      | Some m \<Rightarrow>
          hbind (enrollmentPrincipalNoPassword w rq) (\<lambda>(uid, v, sid).
          hbind (decode input) (\<lambda>code.
          hbind (reserveEmailFactorConfirm w rq uid) (\<lambda>(challenge, key).
          hbind (newRecoveryCodeSet w cfg uid) (\<lambda>cr.
            case cr of
              Inl e \<Rightarrow> hthen (case key of None \<Rightarrow> ret () | Some k \<Rightarrow> releaseKey w StepUpUser k) (answer internalError)
            | Inr (codes, hashes) \<Rightarrow>
                hbind (call w (\<lambda>now db. withFlags (CompleteEmailFactorEnrollment now (wFamily w) (wMinted w)
                         \<lparr>ecUser = uid, ecVersion = v, ecHashes = hashes,
                          ecSession = (case challenge of None \<Rightarrow> LiveSession sid
                                       | Some ch \<Rightarrow> PreAuth ch (hTTL cfg) (arIP rq) (arUA rq))\<rparr>
                         (EmailOTPDigest (hHmac cfg) m uid OTPPurposeEnrollEmail2FA None (NormalizeOTP code)) db))) (\<lambda>r.
                hthen (settleEnroll w key (errOf r))
                (case r of
                   Inl e \<Rightarrow>
                     if e = ErrBadCredentials then answer (errReply 401 ''invalid_code'')
                     else if e = ErrNoPendingFactor then answer (errReply 400 ''no_enrollment'')
                     else writeFactorTxnError (Some e)
                 | Inr (u, tok) \<Rightarrow> confirmed u tok codes challenge)))))))"

definition SendStepUpEmailOTP :: "world \<Rightarrow> handlerCfg \<Rightarrow> principal \<Rightarrow> unit act" where
  "SendStepUpEmailOTP w cfg p =
     (case (if hSmtp cfg then hCodeMAC cfg else None) of
        None \<Rightarrow> answer (errReply 409 ''email_factor_unavailable'')
      | Some m \<Rightarrow>
          hbind (query w (\<lambda>now. loadUser (prUser p))) (\<lambda>ur.
          hbind (orInternal ur) (\<lambda>u.
            if \<not> uvEmail u then answer (errReply 409 ''email_factor_not_enabled'')
            else (case NewNumericCode Digits (wNumber w) of
                    None \<Rightarrow> answer internalError
                  | Some code \<Rightarrow>
                      hbind (call w (\<lambda>now. CreateStepUpEmailOTP now (proofOf p (uTokenVersion (uvUser u)))
                               \<lparr>emDigest = EmailOTPDigest (hHmac cfg) m (prUser p) OTPPurposeStepUp2FA None code,
                                emTTL = otpTTL cfg, emCooldown = otpCooldown cfg,
                                emDraft = Some (hDraft cfg ''step_up_code''
                                  [uEmail (uvUser u), code, formatInt (otpTTL cfg div minute)])\<rparr> (wOutbox w))) (\<lambda>r.
                        if r = Inr () \<or> r = Inl ErrTooSoon then answer accepted
                        else writeFactorTxnError (errOf r))))))"

section \<open>The password\<close>

definition MinPasswordLen :: int where "MinPasswordLen = 8"
definition MaxPasswordLen :: int where "MaxPasswordLen = 72"

text \<open>\<open>utf8.RuneCountInString\<close> of well-formed UTF-8: the bytes that do not continue a rune.\<close>

definition runeCount :: "string \<Rightarrow> int" where
  "runeCount s = int (length (filter (\<lambda>c. (of_char c :: nat) < 128 \<or> 192 \<le> (of_char c :: nat)) s))"

definition passwordFloor :: "handlerCfg \<Rightarrow> int" where
  "passwordFloor cfg =
     (case hPolicy cfg of None \<Rightarrow> MinPasswordLen | Some (up, row) \<Rightarrow> max (PasswordMinLength up row) MinPasswordLen)"

definition validatePassword :: "handlerCfg \<Rightarrow> string \<Rightarrow> unit act" where
  "validatePassword cfg p =
     (if runeCount p < passwordFloor cfg then answer (errReply 400 ''password_too_short'')
      else if MaxPasswordLen < int (length p) then answer (errReply 400 ''password_too_long'')
      else ret ())"

definition lockPasswordSetTx :: "gotime \<Rightarrow> sessionProof \<Rightarrow> authdb \<Rightarrow> authErr + unit" where
  "lockPasswordSetTx now sp db =
     (case userById (spUser sp) (idn db) of
        None \<Rightarrow> Inl ErrNoUser
      | Some u \<Rightarrow>
          if uStatus u \<noteq> StatusActive \<or> uTokenVersion u \<noteq> spVersion sp then Inl ErrSessionInvalid
          else if uPwHash u \<noteq> None then Inl ErrPasswordExists
          else requireSession now sp db)"

definition consumeFactorIfPresentTx :: "gotime \<Rightarrow> int \<Rightarrow> secondFactorProof \<Rightarrow> authdb \<Rightarrow> authErr + authdb" where
  "consumeFactorIfPresentTx now uid proof db =
     (if \<not> (totpEnabled uid db \<or> emailEnabled uid db) then Inr db
      else if sfMethod proof = [] then Inl ErrReplay
      else consumeSecondFactorTx now uid proof db)"

definition SetPassword ::
  "(string \<Rightarrow> string option) \<Rightarrow> gotime \<Rightarrow> sessionProof \<Rightarrow> string \<Rightarrow> secondFactorProof \<Rightarrow> authdb \<Rightarrow>
   (authErr + unit) \<times> authdb" where
  "SetPassword hashpw now sp password proof db =
     (case hashpw password of
        None \<Rightarrow> (Inl ErrPwHash, db)
      | Some h \<Rightarrow>
          runTx db
            (rbind (lockPasswordSetTx now sp db) (\<lambda>_.
             rbind (consumeFactorIfPresentTx now (spUser sp) proof db) (\<lambda>db1.
               let hit = (\<lambda>u. uId u = spUser sp \<and> uStatus u = StatusActive \<and> uTokenVersion u = spVersion sp \<and> uPwHash u = None)
               in if \<not> list_ex hit (users (idn db1)) then Inl ErrSessionInvalid
                  else (case writeUsers hit (\<lambda>u. u\<lparr>uPwHash := Some h, uTokenVersion := uTokenVersion u + 1\<rparr>) (idn db1) of
                          Inl c \<Rightarrow> Inl ErrSql
                        | Inr st \<Rightarrow>
                            Inr ((), setIdn (revokeWhere (\<lambda>s. sUser s = spUser sp \<and> sId s \<noteq> spSession sp)
                                               ReasonPasswordChanged now st) db1))))))"

definition noProof :: secondFactorProof where
  "noProof = \<lparr>sfMethod = [], sfTotp = None, sfDigest = []\<rparr>"

definition SetPasswordHandler :: "world \<Rightarrow> handlerCfg \<Rightarrow> principal \<Rightarrow> (string \<times> string) option \<Rightarrow> unit act" where
  "SetPasswordHandler w cfg p input =
     hbind (decode input) (\<lambda>(password, code).
     hthen (validatePassword cfg password)
    (hbind (query w (\<lambda>now. loadUser (prUser p))) (\<lambda>ur.
     hbind (orInternal ur) (\<lambda>u.
       if uPwHash (uvUser u) \<noteq> None then answer (errReply 409 ''password_exists'')
       else hbind (if HasSecondFactor u
                   then withStepUp w cfg (prUser p) u code (\<lambda>proof.
                          workThenNotify w cfg u
                            (\<lambda>now. SetPassword (hHash cfg) now (proofOf p (uTokenVersion (uvUser u))) password proof) proof)
                   else hbind (call w (\<lambda>now. SetPassword (hHash cfg) now (proofOf p (uTokenVersion (uvUser u))) password noProof))
                          (\<lambda>r. ret (Inr (noProof, errOf r)))) (\<lambda>r.
            case r of
              Inl reply \<Rightarrow> answer reply
            | Inr (proof, None) \<Rightarrow> answer noContent
            | Inr (proof, Some e) \<Rightarrow>
                if e = ErrPasswordExists then answer (errReply 409 ''password_exists'')
                else if e = ErrReplay then answer (errReply 401 ''invalid_code'')
                else if e = ErrSessionInvalid then writeSessionInvalid
                else answer internalError)))))"

definition ChangePasswordHandler :: "world \<Rightarrow> handlerCfg \<Rightarrow> principal \<Rightarrow> (string \<times> string) option \<Rightarrow> unit act" where
  "ChangePasswordHandler w cfg p input =
     hbind (decode input) (\<lambda>(current, new).
     hthen (validatePassword cfg new)
    (hbind (beginStepUpPassword w (prUser p)) (\<lambda>key.
     hbind (call w (\<lambda>now db. case ChangePassword (hVerify cfg) (hHash cfg) now (prUser p) (prSession p) current new (idn db) of
                               (r, st) \<Rightarrow> (r, setIdn st db))) (\<lambda>r.
       case r of
         Inr _ \<Rightarrow> hthen (commitSuccess w StepUpPasswordUser key) (answer noContent)
       | Inl e \<Rightarrow>
           if e = ErrBadCredentials \<or> e = ErrPasswordMissing
           then hthen (commitFail w StepUpPasswordUser key) (answer (errReply 401 ''invalid_credentials''))
           else hthen (releaseKey w StepUpPasswordUser key) (answer internalError)))))"

end
