(* ===== verification/LoginHttp.thy ===== *)
theory LoginHttp
  imports StepUpHttp
begin

text \<open>
  The unauthenticated sign-in surface of \<open>auth/handler.go\<close> and \<open>auth/password_handler.go\<close>: login with its two
  throttles, bootstrap, invitation acceptance, password reset, e-mail verification, \<open>/me\<close>, refresh and
  logout.
\<close>

section \<open>Validation\<close>

definition MaxEmailLen :: int where "MaxEmailLen = 320"
definition maxProfileNameRunes :: int where "maxProfileNameRunes = 120"

definition continues :: "char \<Rightarrow> bool" where
  "continues c = (128 \<le> (of_char c :: nat) \<and> (of_char c :: nat) < 192)"

fun runeCut :: "string \<Rightarrow> nat \<Rightarrow> nat" where
  "runeCut s 0 = 0"
| "runeCut s (Suc n) = (if continues (s ! Suc n) then runeCut s n else Suc n)"

definition truncateTo :: "string \<Rightarrow> nat \<Rightarrow> string" where
  "truncateTo s mx = (if length s \<le> mx then s else take (runeCut s mx) s)"

definition maxAuditEmail :: nat where "maxAuditEmail = 320"

definition atext :: "char \<Rightarrow> bool" where
  "atext c = (isLower c \<or> isUpper c \<or> isDigit c \<or> c \<in> set (''!#$%&'' @ [char_of (39 :: nat)] @ ''*+-=?^_`{|}~''))"

definition validLocalPart :: "string \<Rightarrow> bool" where
  "validLocalPart lcl = (lcl \<noteq> [] \<and> list_all (\<lambda>atom. atom \<noteq> [] \<and> list_all atext atom) (splitOn (CHR ''.'') lcl))"

fun containsSub :: "string \<Rightarrow> string \<Rightarrow> bool" where
  "containsSub p [] = (p = [])"
| "containsSub p (x # xs) = (take (length p) (x # xs) = p \<or> containsSub p xs)"

definition validateEmail :: "string \<Rightarrow> bool" where
  "validateEmail email =
     (let e = goTrimSpace email
      in if length e < 3 \<or> MaxEmailLen < int (length e) then False
         else if containsSub ''://'' e then False
         else (case splitFirst (CHR ''@'') (rev e) of
                 None \<Rightarrow> False
               | Some (domainR, localR) \<Rightarrow>
                   if localR = [] \<or> domainR = [] \<or> list_ex (\<lambda>c. (of_char c :: nat) \<in> {32, 9, 13, 10}) e then False
                   else validLocalPart (rev localR) \<and> ValidHostname (goToLower (rev domainR))))"

definition validateProfileName :: "string \<Rightarrow> string act" where
  "validateProfileName raw =
     (let trimmed = goTrimSpace raw
      in if maxProfileNameRunes < runeCount trimmed then answer (errReply 400 ''invalid_name'') else ret trimmed)"

definition requireEmail :: "string \<Rightarrow> unit act" where
  "requireEmail email = (if validateEmail email then ret () else answer (errReply 400 ''invalid_email''))"

section \<open>Login\<close>

record loginInput =
  liIdentifier :: string
  liEmail :: string
  liPassword :: string

definition who :: "loginInput \<Rightarrow> string" where
  "who i = (if liIdentifier i \<noteq> [] then liIdentifier i else liEmail i)"

definition AuditLoginFailed :: string where "AuditLoginFailed = ''login.failed''"
definition AuditRateLimited :: string where "AuditRateLimited = ''auth.rate_limited''"

definition configureLoginLimits :: "world \<Rightarrow> unit act" where
  "configureLoginLimits w =
     (let p = wAbuse w; lockout = abLoginWindowMinutes p * minute
      in hthen (limit w LoginByIP (\<lambda>now l. ((), Configure (abLoginDistinctAccountsPerIP p) lockout l)))
               (limit w LoginByEmail (\<lambda>now l. ((), Configure (abLoginFailuresPerAccount p) lockout l))))"

definition commitFailFor :: "world \<Rightarrow> bucket \<Rightarrow> string \<Rightarrow> string \<Rightarrow> (nat \<times> gotime) act" where
  "commitFailFor w b key member = limit w b (\<lambda>now. CommitFailFor now key member)"

definition recordLoginFailure :: "world \<Rightarrow> string \<Rightarrow> string \<Rightarrow> string \<Rightarrow> string act" where
  "recordLoginFailure w ipKey emailKey submitted =
     hbind (commitFailFor w LoginByIP ipKey (truncateTo submitted maxAuditEmail)) (\<lambda>(n, ipUntil).
     hbind (commitFail w LoginByEmail emailKey) (\<lambda>(m, emailUntil).
       ret (if ipUntil \<noteq> zero_time then ''origin'' else if emailUntil \<noteq> zero_time then ''account'' else [])))"

definition auditLoginRejection :: "world \<Rightarrow> string \<Rightarrow> string \<Rightarrow> unit act" where
  "auditLoginRejection w submitted lockedBucket =
     hthen (audit w \<lparr>auAction = AuditLoginFailed, auActor = None, auTarget = truncateTo submitted maxAuditEmail, auDetail = []\<rparr>)
           (if lockedBucket = [] then ret ()
            else audit w \<lparr>auAction = AuditRateLimited, auActor = None, auTarget = truncateTo submitted maxAuditEmail,
                          auDetail = lockedBucket\<rparr>)"

definition invalidCredentials :: reply where
  "invalidCredentials = errReply 401 ''invalid_credentials''"

text \<open>\<open>verifyPassword\<close> answers the account with its factor flags.\<close>

definition verifyLogin :: "handlerCfg \<Rightarrow> string \<Rightarrow> string \<Rightarrow> authdb \<Rightarrow> userView option \<times> bool \<times> authErr option" where
  "verifyLogin cfg identifier password db =
     (case verifyPassword (hVerify cfg) identifier password (idn db) of
        (None, found, e) \<Rightarrow> (None, found, e)
      | (Some u, found, e) \<Rightarrow>
          (Some \<lparr>uvUser = u, uvTOTP = totpEnabled (uId u) db, uvEmail = emailEnabled (uId u) db\<rparr>, found, e))"

text \<open>The verdict on the password: \<open>None\<close> rejects, for one of three reasons that must look alike.\<close>

definition loginVerdict :: "userView option \<times> bool \<times> authErr option \<Rightarrow> userView option" where
  "loginVerdict v =
     (case v of (u, found, e) \<Rightarrow>
        (case u of
           Some x \<Rightarrow> if found \<and> e = None \<and> uStatus (uvUser x) = StatusActive then Some x else None
         | None \<Rightarrow> None))"

definition settleLogin ::
  "world \<Rightarrow> handlerCfg \<Rightarrow> authRequest \<Rightarrow> string \<Rightarrow> string \<Rightarrow> string \<Rightarrow> userView option \<Rightarrow> unit act" where
  "settleLogin w cfg rq ipKey emailKey submitted verdict =
     (case verdict of
        None \<Rightarrow>
          hbind (recordLoginFailure w ipKey emailKey submitted) (\<lambda>locked.
          hthen (auditLoginRejection w submitted locked) (answer invalidCredentials))
      | Some u \<Rightarrow>
          hthen (commitSuccess w LoginByIP ipKey)
         (hthen (commitSuccess w LoginByEmail emailKey)
                (completeLogin w cfg rq u False)))"

definition Login :: "world \<Rightarrow> handlerCfg \<Rightarrow> authRequest \<Rightarrow> loginInput option \<Rightarrow> unit act" where
  "Login w cfg rq input =
     hbind (decode input) (\<lambda>i.
       let ipKey = ''login:ip:'' @ arIP rq; submitted = truncateTo (NormalizeEmail (who i)) maxAuditEmail
       in hthen (configureLoginLimits w)
         (hbind (beginSlot w LoginByIP ipKey) (\<lambda>(until, ok).
            if \<not> ok then writeRateLimited
            else hbind (query w (\<lambda>now db. Inr (loginBucketKey submitted (idn db)))) (\<lambda>br.
              case br of
                Inl e \<Rightarrow> hthen (releaseKey w LoginByIP ipKey) (answer internalError)
              | Inr b \<Rightarrow>
                  let emailKey = ''login:em:'' @ b
                  in hbind (beginSlot w LoginByEmail emailKey) (\<lambda>(until', ok').
                       if \<not> ok' then hthen (commitFailFor w LoginByIP ipKey submitted) (answer invalidCredentials)
                       else hbind (query w (\<lambda>now db. Inr (verifyLogin cfg (who i) (liPassword i) db))) (\<lambda>vr.
                         case vr of
                           Inl e \<Rightarrow> hthen (releaseKey w LoginByIP ipKey)
                                   (hthen (releaseKey w LoginByEmail emailKey) (answer internalError))
                         | Inr v \<Rightarrow> settleLogin w cfg rq ipKey emailKey submitted (loginVerdict v)))))))"

section \<open>Bootstrap and invitations\<close>

text \<open>An identity transaction with the factor flags of the account it returns.\<close>

definition onIdentity ::
  "world \<Rightarrow> (gotime \<Rightarrow> identity \<Rightarrow> (authErr + user) \<times> identity) \<Rightarrow> (authErr + userView) act" where
  "onIdentity w op =
     call w (\<lambda>now db. case op now (idn db) of
        (Inl e, st) \<Rightarrow> (Inl e, setIdn st db)
      | (Inr u, st) \<Rightarrow> (Inr \<lparr>uvUser = u, uvTOTP = totpEnabled (uId u) db, uvEmail = emailEnabled (uId u) db\<rparr>, setIdn st db))"

text \<open>
  Bootstrap, acceptance and reset share the shape: a slot per address, released when nothing was tried.
\<close>

definition withAddressSlot ::
  "world \<Rightarrow> bucket \<Rightarrow> string \<Rightarrow> 'i option \<Rightarrow> ('i \<Rightarrow> (authErr + userView) act) \<Rightarrow> (authErr \<Rightarrow> reply option) \<Rightarrow>
   (userView \<Rightarrow> unit act) \<Rightarrow> unit act" where
  "withAddressSlot w b key input work refusalOf done =
     hbind (beginSlot w b key) (\<lambda>(until, ok).
       if \<not> ok then writeRateLimited
       else hbind (deferring (hbind (decode input) work) (releaseKey w b key)) (\<lambda>r.
         case r of
           Inl e \<Rightarrow>
             (case refusalOf e of
                Some reply \<Rightarrow> hthen (commitFail w b key) (answer reply)
              | None \<Rightarrow> hthen (releaseKey w b key) (answer internalError))
         | Inr u \<Rightarrow> hthen (commitSuccess w b key) (done u)))"

definition BootstrapStatus :: "world \<Rightarrow> unit act" where
  "BootstrapStatus w =
     hbind (query w (\<lambda>now db. Inr (NeedsBootstrap (idn db)))) (\<lambda>r.
     hbind (orInternal r) (\<lambda>needs. answer (okReply (if needs then SetupRequired else Anonymous))))"

record bootstrapInput =
  biEmail :: string
  biName :: string
  biPassword :: string

definition BootstrapHandler :: "world \<Rightarrow> handlerCfg \<Rightarrow> authRequest \<Rightarrow> bootstrapInput option \<Rightarrow> unit act" where
  "BootstrapHandler w cfg rq input =
     withAddressSlot w BootstrapIP (''bootstrap:'' @ arIP rq) input
       (\<lambda>i. hthen (requireEmail (biEmail i))
           (hthen (validatePassword cfg (biPassword i))
           (hbind (validateProfileName (biName i)) (\<lambda>name.
             onIdentity w (\<lambda>now. Bootstrap (hHash cfg) now (biEmail i) name (biPassword i))))))
       (\<lambda>e. if e = ErrAlreadySetUp then Some (errReply 409 ''already_configured'')
            else if e = ErrEmailTaken then Some (errReply 409 ''email_taken'') else None)
       (\<lambda>u. completeLogin w cfg rq u False)"

record acceptInput =
  aiToken :: string
  aiName :: string
  aiPassword :: string

definition AcceptInviteHandler :: "world \<Rightarrow> handlerCfg \<Rightarrow> authRequest \<Rightarrow> acceptInput option \<Rightarrow> unit act" where
  "AcceptInviteHandler w cfg rq input =
     withAddressSlot w InviteIP (''invite:'' @ arIP rq) input
       (\<lambda>i. hthen (validatePassword cfg (aiPassword i))
           (hbind (validateProfileName (aiName i)) (\<lambda>name.
             onIdentity w (\<lambda>now. AcceptInvite (hHash cfg) now (aiToken i) name (aiPassword i)))))
       (\<lambda>e. if e = ErrInviteInvalid then Some (errReply 404 ''invite_invalid'')
            else if e = ErrEmailTaken then Some (errReply 409 ''email_taken'') else None)
       (\<lambda>u. completeLogin w cfg rq u False)"

section \<open>Password reset\<close>

definition passwordResetTTL :: duration where "passwordResetTTL = 30 * minute"

record resetInput =
  riToken :: string
  riPassword :: string

definition ResetPassword :: "world \<Rightarrow> handlerCfg \<Rightarrow> authRequest \<Rightarrow> resetInput option \<Rightarrow> unit act" where
  "ResetPassword w cfg rq input =
     withAddressSlot w PwResetIP (''pwreset:consume:'' @ arIP rq) input
       (\<lambda>i. hthen (validatePassword cfg (riPassword i))
             (call w (\<lambda>now db. case ConsumePasswordReset (hHash cfg) now
                        (if riToken i = [] then None else Some (riToken i)) (riPassword i) db of
                (Inl e, db') \<Rightarrow> (Inl e, db')
              | (Inr u, db') \<Rightarrow> (Inr \<lparr>uvUser = u, uvTOTP = totpEnabled (uId u) db', uvEmail = emailEnabled (uId u) db'\<rparr>, db'))))
       (\<lambda>e. if e = ErrResetInvalid then Some (errReply 404 ''reset_invalid'') else None)
       (\<lambda>u. completeLogin w cfg rq u True)"

text \<open>What \<open>UserForPasswordReset\<close> finds: the account, and whether it may reset.\<close>

definition resetTarget :: "string \<Rightarrow> authdb \<Rightarrow> user option \<times> bool" where
  "resetTarget email db =
     (find (\<lambda>u. uEmailNorm u = NormalizeEmail email) (users (idn db)), UserForPasswordReset email (idn db) \<noteq> None)"

definition sendReset :: "world \<Rightarrow> handlerCfg \<Rightarrow> string \<Rightarrow> unit act" where
  "sendReset w cfg email =
     hbind (query w (\<lambda>now db. Inr (resetTarget email db))) (\<lambda>r.
       case r of
         Inl e \<Rightarrow> ret ()
       | Inr (u, eligible) \<Rightarrow>
           (case u of
              None \<Rightarrow> ret ()
            | Some x \<Rightarrow>
                if \<not> eligible \<and> uId x \<noteq> 0 \<and> uStatus x = StatusActive \<and> uPwHash x = None
                then enqueueMail w cfg ''password_reset_unavailable'' [uEmail x]
                else if eligible
                then hthen (call w (\<lambda>now. CreatePasswordReset now (wSeedToken w) (wToken w) (uId x) passwordResetTTL (wOutbox w)
                              (Some (hDraft cfg ''password_reset'' [uEmail x, formatInt (passwordResetTTL div minute)])))) (ret ())
                else ret ()))"

definition ForgotPassword :: "world \<Rightarrow> handlerCfg \<Rightarrow> authRequest \<Rightarrow> string option \<Rightarrow> unit act" where
  "ForgotPassword w cfg rq input =
     hbind (decode input) (\<lambda>email.
       if \<not> validateEmail email then answer accepted
       else let ipKey = ''pwreset:ip:'' @ arIP rq; emailKey = ''pwreset:em:'' @ NormalizeEmail email
            in hbind (beginSlot w PwResetIP ipKey) (\<lambda>(until, ok).
                 if \<not> ok then answer accepted
                 else hbind (beginSlot w PwResetEmail emailKey) (\<lambda>(until', ok').
                   if \<not> ok' then hthen (releaseKey w PwResetIP ipKey) (answer accepted)
                   else hthen (sendReset w cfg email)
                       (hthen (commitFail w PwResetEmail emailKey)
                       (hthen (commitFail w PwResetIP ipKey) (answer accepted))))))"

section \<open>E-mail verification\<close>

definition SendEmailVerification :: "world \<Rightarrow> handlerCfg \<Rightarrow> principal \<Rightarrow> unit act" where
  "SendEmailVerification w cfg p =
     hbind (query w (\<lambda>now. loadUser (prUser p))) (\<lambda>ur.
     hbind (orInternal ur) (\<lambda>u.
       if uVerifiedAt (uvUser u) \<noteq> None then answer noContent
       else hbind (call w (\<lambda>now. CreateEmailVerification now (wSeedToken w) (prUser p)
                     \<lparr>emDigest = wToken w, emTTL = otpTTL cfg, emCooldown = otpCooldown cfg,
                      emDraft = Some (hDraft cfg ''verify_email'' [uEmail (uvUser u), formatInt (otpTTL cfg div minute)])\<rparr>
                     (wOutbox w))) (\<lambda>r.
              case r of
                Inr _ \<Rightarrow> answer accepted
              | Inl e \<Rightarrow> if e = ErrTooSoon then answer accepted
                         else if e = ErrEmailAlreadyVerified then answer noContent
                         else answer internalError)))"

definition VerifyEmail :: "world \<Rightarrow> string option \<Rightarrow> unit act" where
  "VerifyEmail w input =
     hbind (decode input) (\<lambda>token.
       if token = [] then answer (errReply 404 ''verify_invalid'')
       else hbind (call w (\<lambda>now. ConsumeEmailVerification now token)) (\<lambda>r.
              case r of
                Inr _ \<Rightarrow> answer noContent
              | Inl e \<Rightarrow> if e = ErrBadCredentials then answer (errReply 404 ''verify_invalid'') else answer internalError))"

section \<open>Sessions\<close>

definition LogoutAll :: "world \<Rightarrow> principal \<Rightarrow> unit act" where
  "LogoutAll w p =
     hbind (call w (\<lambda>now db. case RevokeAllForUser now (prUser p) ReasonLogoutAll (idn db) of (r, st) \<Rightarrow> (r, setIdn st db))) (\<lambda>r.
     hbind (orInternal r) (\<lambda>_. hthen (cookie ClearSession) (answer noContent)))"

definition Logout :: "world \<Rightarrow> authRequest \<Rightarrow> unit act" where
  "Logout w rq =
     hthen (call w (\<lambda>now db. (Inr (), setIdn (RevokeFamilyByTokens now (arAccess rq) (arRefresh rq) ReasonLogout (idn db)) db)
                            :: (authErr + unit) \<times> authdb))
    (hthen (cookie ClearSession) (answer noContent))"

definition notifyReuse :: "world \<Rightarrow> handlerCfg \<Rightarrow> int \<Rightarrow> unit act" where
  "notifyReuse w cfg uid =
     (if uid = 0 then ret ()
      else hbind (query w (\<lambda>now db. GetUser uid (idn db))) (\<lambda>r.
             case r of Inl e \<Rightarrow> ret () | Inr u \<Rightarrow> enqueueMail w cfg ''session_revoked'' [uEmail u]))"

definition Refresh :: "world \<Rightarrow> handlerCfg \<Rightarrow> authRequest \<Rightarrow> unit act" where
  "Refresh w cfg rq =
     (case arRefresh rq of
        None \<Rightarrow> answer (errReply 401 ''no_session'')
      | Some raw \<Rightarrow>
          hbind (call w (\<lambda>now db. case Rotate (\<lambda>_ _. None) (\<lambda>_. True) now (hTTL cfg) (wMinted w) raw (arIP rq) (arUA rq) (idn db) of
                                    (e, res, st) \<Rightarrow> (Inr (e, res), setIdn st db))) (\<lambda>r.
          hbind (orInternal r) (\<lambda>(e, res).
            case e of
              Some x \<Rightarrow>
                if x = ErrSessionReuse
                then hthen (notifyReuse w cfg (rrUser res))
                    (hthen (cookie ClearSession) (answer (errReply 401 ''session_revoked'')))
                else if x = ErrUserNotActive then hthen (cookie ClearSession) (answer (errReply 401 ''account_inactive''))
                else if x = ErrSessionInvalid then writeSessionInvalid
                else answer internalError
            | None \<Rightarrow>
                (case rrTokens res of
                   None \<Rightarrow> answer internalError
                 | Some tok \<Rightarrow>
                     hthen (cookie (SetSession tok))
                    (hbind (query w (\<lambda>now. loadUser (rrUser res))) (\<lambda>ur.
                     hbind (orInternal ur) (\<lambda>u. answer (okReply (Authenticated u (isCsrf tok) [])))))))))"

text \<open>\<open>/me\<close>: the pending step of a half-finished sign-in, unless no factor is left that could finish it.\<close>

definition anonymousMe :: "world \<Rightarrow> unit act" where
  "anonymousMe w =
     hbind (query w (\<lambda>now db. Inr (NeedsBootstrap (idn db)))) (\<lambda>r.
     hbind (orInternal r) (\<lambda>needs. answer (okReply (if needs then SetupRequired else Anonymous))))"

definition Me :: "world \<Rightarrow> handlerCfg \<Rightarrow> authRequest \<Rightarrow> unit act" where
  "Me w cfg rq =
     (case arPrincipal rq of
        Some p \<Rightarrow>
          hbind (query w (\<lambda>now. loadUser (prUser p))) (\<lambda>ur.
          hbind (orInternal ur) (\<lambda>u. answer (okReply (Authenticated u (arCsrf rq) []))))
      | None \<Rightarrow>
          hthen
            (hbind (query w (\<lambda>now. ResolveChallenge now (arPreAuth rq) [])) (\<lambda>cr.
               case cr of Inl e \<Rightarrow> ret ()
               | Inr ch \<Rightarrow>
                   hbind (query w (\<lambda>now. loadUser (chUser ch))) (\<lambda>ur.
                     case ur of Inl e \<Rightarrow> ret ()
                     | Inr u \<Rightarrow>
                         if chPurpose ch = PurposeTOTP \<and> \<not> tsEnabled (twoFactorStatusWithTOTPOnly cfg u)
                         then hthen (call w (\<lambda>now. ConsumeChallenge now (chId ch))) (cookie ClearPreAuth)
                         else (case pendingPayload cfg u (chPurpose ch) (chMailbox ch) of
                                 Some pd \<Rightarrow> answer (okReply (Pending pd))
                               | None \<Rightarrow> cookie ClearPreAuth))))
            (anonymousMe w))"

end
