(* ===== verification/HttpRuns.thy ===== *)
theory HttpRuns
  imports LoginHttp TwoFactorSafety Accounts
begin

text \<open>
  What the handlers do to the database, in terms of the transactions of the second factor.  The judgement
  \<open>valid\<close> is a Hoare triple under interference: whatever the other requests did in between, the
  database moves along steps of \<open>tfStep\<close>, and the postcondition holds of the value an action returns.
\<close>

section \<open>The judgement\<close>

definition sane :: "authdb \<Rightarrow> bool" where
  "sane db = (accountIds (idn db) \<and> chIds db)"

definition within :: "gotime set \<Rightarrow> tfLabel list \<Rightarrow> bool" where
  "within T ls = list_all (\<lambda>l. labelTime l \<in> T) ls"

definition runOf :: "handlerCfg \<Rightarrow> gotime set \<Rightarrow> tfLabel list \<Rightarrow> authdb \<Rightarrow> authdb \<Rightarrow> bool" where
  "runOf cfg T ls db db' = (tfRun (hSmtp cfg) (hVerify cfg) (hHash cfg) ls db db' \<and> within T ls)"

definition reaches :: "handlerCfg \<Rightarrow> gotime set \<Rightarrow> authdb \<Rightarrow> authdb \<Rightarrow> bool" where
  "reaches cfg T db db' = (\<exists>ls. runOf cfg T ls db db')"

text \<open>The clock of this request and the steps of the others stay in \<open>T\<close>.\<close>

definition honest :: "handlerCfg \<Rightarrow> gotime set \<Rightarrow> world \<Rightarrow> bool" where
  "honest cfg T w = ((\<forall>k. wClock w k \<in> T) \<and> (\<forall>k db. sane db \<longrightarrow> reaches cfg T db (wOthers w k db)))"

lemma runOf_nil: "runOf cfg T [] db db"
  by (simp add: runOf_def within_def tfRun.stop)

lemma runOf_append:
  assumes "runOf cfg T ls db db1" "runOf cfg T ms db1 db2"
  shows "runOf cfg T (ls @ ms) db db2"
proof -
  have "tfRun sm ve ha ls a b \<Longrightarrow> tfRun sm ve ha ms b c \<Longrightarrow> tfRun sm ve ha (ls @ ms) a c" for sm ve ha a b c
    by (induction rule: tfRun.induct) (auto intro: tfRun.more)
  then show ?thesis using assms by (auto simp: runOf_def within_def)
qed

lemma runOf_step: "tfStep (hSmtp cfg) (hVerify cfg) (hHash cfg) l db db' \<Longrightarrow> labelTime l \<in> T \<Longrightarrow> runOf cfg T [l] db db'"
  by (simp add: runOf_def within_def tfRun.more [OF _ tfRun.stop])

lemma reaches_refl [simp, intro]: "reaches cfg T db db"
  unfolding reaches_def using runOf_nil by blast

lemma reaches_trans: "reaches cfg T db db1 \<Longrightarrow> reaches cfg T db1 db2 \<Longrightarrow> reaches cfg T db db2"
  unfolding reaches_def using runOf_append by blast

lemma reaches_step: "tfStep (hSmtp cfg) (hVerify cfg) (hHash cfg) l db db' \<Longrightarrow> labelTime l \<in> T \<Longrightarrow> reaches cfg T db db'"
  unfolding reaches_def using runOf_step by blast

lemma reaches_identity: "epochGrows (idn db) st \<Longrightarrow> now \<in> T \<Longrightarrow> reaches cfg T db (setIdn st db)"
  by (rule reaches_step [OF tfStep.elsewhere]) (simp_all add: labelTime_def)

lemma run_sane: "tfRun sm ve ha ls db db' \<Longrightarrow> sane db \<Longrightarrow> sane db'"
proof (induction rule: tfRun.induct)
  case (more l db db' ls db'')
  then show ?case using step_epochs [OF more(1)] step_chIds [OF more(1)] by (simp add: sane_def epochGrows_def)
qed

lemma reaches_sane: "reaches cfg T db db' \<Longrightarrow> sane db \<Longrightarrow> sane db'"
  unfolding reaches_def runOf_def using run_sane by blast

text \<open>A challenge that was read stays the challenge of that id, as long as its row exists.\<close>

definition known :: "challenge \<Rightarrow> authdb \<Rightarrow> bool" where
  "known ch db = (chId ch < challengeSeq db \<and> (\<forall>c\<in>set (challenges db). chId c = chId ch \<longrightarrow> challengeFrom ch c))"

lemma known_run: "tfRun sm ve ha ls db db' \<Longrightarrow> known ch db \<Longrightarrow> known ch db'"
proof (induction rule: tfRun.induct)
  case (more l db db1 ls db2)
  have "challengesKept db db1" using step_kept [OF more(1)] by simp
  moreover have "challengeSeq db \<le> challengeSeq db1" by (rule step_seq [OF more(1)])
  ultimately have "known ch db1"
    using more.prems unfolding known_def challengesKept_def challengeFrom_def
    by (smt (verit, best) order_less_le_trans less_irrefl)
  then show ?case by (rule more.IH)
qed

lemma known_reaches: "reaches cfg T db db' \<Longrightarrow> known ch db \<Longrightarrow> known ch db'"
  unfolding reaches_def runOf_def using known_run by blast

lemma known_read: "sane db \<Longrightarrow> c \<in> set (challenges db) \<Longrightarrow> known c db"
  using chId_eq [of db c] unfolding sane_def known_def chIds_def list_all_iff by (metis from_refl(4))

definition valid :: "handlerCfg \<Rightarrow> gotime set \<Rightarrow> (authdb \<Rightarrow> bool) \<Rightarrow> 'a act \<Rightarrow> ('a \<Rightarrow> authdb \<Rightarrow> bool) \<Rightarrow> bool" where
  "valid cfg T P m Q = (\<forall>s :: srv. sane (svDb s) \<longrightarrow> P (svDb s) \<longrightarrow>
     reaches cfg T (svDb s) (svDb (snd (m s))) \<and> (\<forall>x. fst (m s) = Inr x \<longrightarrow> Q x (svDb (snd (m s)))))"

abbreviation runs :: "handlerCfg \<Rightarrow> gotime set \<Rightarrow> 'a act \<Rightarrow> bool" where
  "runs cfg T m \<equiv> valid cfg T (\<lambda>_. True) m (\<lambda>_ _. True)"

named_theorems runs_rules

lemma valid_bind:
  assumes "valid cfg T P m Q" "\<And>x. valid cfg T (Q x) (f x) R"
  shows "valid cfg T P (hbind m f) R"
  unfolding valid_def
proof (intro allI impI)
  fix s :: srv assume s: "sane (svDb s)" "P (svDb s)"
  from assms(1) s have a: "reaches cfg T (svDb s) (svDb (snd (m s)))" "\<And>x. fst (m s) = Inr x \<Longrightarrow> Q x (svDb (snd (m s)))"
    by (simp_all add: valid_def)
  show "reaches cfg T (svDb s) (svDb (snd (hbind m f s))) \<and>
    (\<forall>x. fst (hbind m f s) = Inr x \<longrightarrow> R x (svDb (snd (hbind m f s))))"
  proof (cases "m s")
    case (Pair r s')
    show ?thesis
    proof (cases r)
      case (Inl e)
      then show ?thesis using a Pair by (simp add: hbind_def)
    next
      case (Inr x)
      have "sane (svDb s')" using reaches_sane [OF a(1) s(1)] Pair by simp
      moreover have "Q x (svDb s')" using a(2) Pair Inr by simp
      ultimately have "reaches cfg T (svDb s') (svDb (snd (f x s')))"
        "\<And>y. fst (f x s') = Inr y \<Longrightarrow> R y (svDb (snd (f x s')))"
        using assms(2) [of x] unfolding valid_def by blast+
      then show ?thesis using a(1) Pair Inr by (auto simp: hbind_def intro: reaches_trans)
    qed
  qed
qed

lemma valid_weaken: "valid cfg T P m Q \<Longrightarrow> (\<And>db. P' db \<Longrightarrow> P db) \<Longrightarrow> (\<And>x db. Q x db \<Longrightarrow> Q' x db) \<Longrightarrow> valid cfg T P' m Q'"
  unfolding valid_def by blast

lemma runs_bind [runs_rules]: "runs cfg T m \<Longrightarrow> (\<And>x. runs cfg T (f x)) \<Longrightarrow> runs cfg T (hbind m f)"
  by (rule valid_bind)

lemma runs_then [runs_rules]: "runs cfg T m \<Longrightarrow> runs cfg T k \<Longrightarrow> runs cfg T (hthen m k)"
  unfolding hthen_def by (rule runs_bind)

text \<open>A fact that no step disturbs survives an action.\<close>

lemma valid_frame:
  assumes "runs cfg T m" "\<And>db db'. reaches cfg T db db' \<Longrightarrow> P db \<Longrightarrow> P db'"
  shows "valid cfg T P m (\<lambda>_. P)"
  using assms unfolding valid_def by blast

lemma valid_true: "runs cfg T m \<Longrightarrow> valid cfg T P m (\<lambda>_ _. True)"
  by (simp add: valid_def)

section \<open>The actions\<close>

lemma runs_pure [runs_rules]:
  "runs cfg T (ret x)" "runs cfg T (answer r)" "runs cfg T (cookie c)" "runs cfg T (clockNow w)"
  by (simp_all add: valid_def ret_def answer_def cookie_def clockNow_def)

lemma runs_limit [runs_rules]: "runs cfg T (limit w b op)"
  by (auto simp: valid_def limit_def Let_def split: prod.splits)

lemma runs_slots [runs_rules]:
  "runs cfg T (beginSlot w b key)" "runs cfg T (commitFail w b key)" "runs cfg T (commitSuccess w b key)"
  "runs cfg T (releaseKey w b key)" "runs cfg T (commitFailFor w b key member)"
  unfolding beginSlot_def commitFail_def commitSuccess_def releaseKey_def commitFailFor_def by (rule runs_limit)+

lemma runs_audit [runs_rules]: "honest cfg T w \<Longrightarrow> runs cfg T (audit w a)"
  by (simp add: valid_def audit_def honest_def Let_def)

text \<open>A transaction: an error leaves the tables, a result moves them along steps.\<close>

definition steps :: "handlerCfg \<Rightarrow> gotime set \<Rightarrow> (gotime \<Rightarrow> authdb \<Rightarrow> (authErr + 'a) \<times> authdb) \<Rightarrow> bool" where
  "steps cfg T op = (\<forall>now\<in>T. \<forall>db r db'. sane db \<longrightarrow> op now db = (r, db') \<longrightarrow> reaches cfg T db db')"

lemma valid_call:
  assumes "honest cfg T w" "steps cfg T op"
    and "\<And>now db r db'. now \<in> T \<Longrightarrow> sane db \<Longrightarrow> op now db = (Inr r, db') \<Longrightarrow> Q (Inr r) db'"
    and "\<And>e db. sane db \<Longrightarrow> Q (Inl e) db"
  shows "valid cfg T P (call w op) Q"
  unfolding valid_def
proof (intro allI impI)
  fix s :: srv assume s: "sane (svDb s)" "P (svDb s)"
  let ?k = "svTick s" and ?db = "wOthers w (svTick s) (svDb s)"
  have o: "reaches cfg T (svDb s) ?db" "wClock w ?k \<in> T" using assms(1) s(1) by (simp_all add: honest_def)
  obtain r db' where r: "op (wClock w ?k) ?db = (r, db')" by fastforce
  have d: "sane ?db" using reaches_sane [OF o(1) s(1)] .
  then have t: "reaches cfg T ?db db'" using assms(2) o(2) r by (auto simp: steps_def)
  show "reaches cfg T (svDb s) (svDb (snd (call w op s))) \<and> (\<forall>x. fst (call w op s) = Inr x \<longrightarrow> Q x (svDb (snd (call w op s))))"
    using o(1) reaches_trans [OF o(1) t] assms(3) [OF o(2) d] assms(4) [OF d] assms(4) [OF reaches_sane [OF t d]] r
    by (cases r) (auto simp: call_def Let_def)
qed

lemma runs_call [runs_rules]: "honest cfg T w \<Longrightarrow> steps cfg T op \<Longrightarrow> runs cfg T (call w op)"
  by (rule valid_call) simp_all

lemma steps_query: "steps cfg T (\<lambda>now db. (f now db, db))"
  by (auto simp: steps_def)

lemma runs_query [runs_rules]: "honest cfg T w \<Longrightarrow> runs cfg T (query w f)"
  unfolding query_def by (rule runs_call [OF _ steps_query])

lemma runs_split [runs_rules]:
  "(c \<Longrightarrow> runs cfg T m) \<Longrightarrow> (\<not> c \<Longrightarrow> runs cfg T k) \<Longrightarrow> runs cfg T (if c then m else k)"
  "(\<And>e. runs cfg T (f e)) \<Longrightarrow> (\<And>x. runs cfg T (g x)) \<Longrightarrow> runs cfg T (case r of Inl e \<Rightarrow> f e | Inr x \<Rightarrow> g x)"
  "runs cfg T m \<Longrightarrow> (\<And>x. runs cfg T (g x)) \<Longrightarrow> runs cfg T (case v of None \<Rightarrow> m | Some x \<Rightarrow> g x)"
  "(\<And>a b. runs cfg T (h a b)) \<Longrightarrow> runs cfg T (case p of (a, b) \<Rightarrow> h a b)"
  by (auto split: sum.split option.split prod.split)

lemma runs_deferring [runs_rules]:
  assumes "runs cfg T m" "runs cfg T d"
  shows "runs cfg T (deferring m d)"
  unfolding valid_def
proof (intro allI impI)
  fix s :: srv assume s: "sane (svDb s)"
  obtain r s' where m: "m s = (r, s')" by fastforce
  have a: "reaches cfg T (svDb s) (svDb s')" using assms(1) s m by (auto simp: valid_def)
  have "reaches cfg T (svDb s') (svDb (snd (d s')))"
    using assms(2) reaches_sane [OF a s] by (auto simp: valid_def)
  then show "reaches cfg T (svDb s) (svDb (snd (deferring m d s))) \<and> (\<forall>x. fst (deferring m d s) = Inr x \<longrightarrow> True)"
    using a m by (cases r) (auto simp: deferring_def intro: reaches_trans)
qed

section \<open>The transactions\<close>

lemma labelTimes [simp]:
  "labelTime (Opened t) = t" "labelTime (Guess t u p v) = t" "labelTime (Done t u p v hs) = t" "labelTime (Sent t u h) = t"
  "labelTime (Seeded t u c n) = t" "labelTime (Coded t u hs) = t" "labelTime (Other t) = t"
  by (simp_all add: labelTime_def)

lemma stepsI:
  assumes "\<And>now db e db'. op now db = (Inl e, db') \<Longrightarrow> db' = db"
    and "\<And>now db x db'. now \<in> T \<Longrightarrow> sane db \<Longrightarrow> op now db = (Inr x, db') \<Longrightarrow> reaches cfg T db db'"
  shows "steps cfg T op"
  unfolding steps_def
proof (intro ballI allI impI)
  fix now db r db'
  assume n: "now \<in> T" and s: "sane db" and o: "op now db = (r, db')"
  show "reaches cfg T db db'"
  proof (cases r)
    case (Inl e)
    then have "db' = db" using assms(1) o by blast
    then show ?thesis by simp
  next
    case (Inr x)
    then show ?thesis using assms(2) [OF n s] o by blast
  qed
qed

lemma runTx_Inl: "runTx db r = (Inl e, db') \<Longrightarrow> db' = db"
  by (auto simp: runTx_def split: sum.splits)

lemma CreateChallenge_Inl: "CreateChallenge now tok nc db = (Inl e, db') \<Longrightarrow> db' = db"
  by (auto simp: CreateChallenge_def Let_def split: if_splits)

lemma Bump_Inl: "BumpChallengeAttempt now i db = (Inl e, db') \<Longrightarrow> db' = db"
  by (auto simp: BumpChallengeAttempt_def split: sum.splits if_splits)

lemma Consume_Inl: "ConsumeChallenge now i db = (Inl e, db') \<Longrightarrow> db' = db"
  by (auto simp: ConsumeChallenge_def split: sum.splits if_splits)

lemma Send_Inl: "CreateChallengeEmailOTP now i h ttl cooldown ok mail db = (Inl e, db') \<Longrightarrow> db' = db"
  by (auto simp: CreateChallengeEmailOTP_def Let_def dest: runTx_Inl split: sum.splits if_splits)

lemma Verified_Inl: "ConsumeEmailVerification now tok db = (Inl e, db') \<Longrightarrow> db' = db"
  by (auto simp: ConsumeEmailVerification_def Let_def dest: runTx_Inl split: option.splits)

lemma steps_CreateChallenge [runs_rules]: "steps cfg T (\<lambda>now. CreateChallenge now tok nc)"
  by (rule stepsI, erule CreateChallenge_Inl, erule reaches_step [OF tfStep.create]) simp

lemma steps_Bump [runs_rules]: "steps cfg T (\<lambda>now. BumpChallengeAttempt now i)"
proof (rule stepsI, erule Bump_Inl)
  fix now db x db' assume b: "now \<in> T" "BumpChallengeAttempt now i db = (Inr x, db')"
  then obtain c where "challengeById i db = Some c"
    using lockUser_Inr by (auto simp: BumpChallengeAttempt_def split: sum.splits)
  from reaches_step [OF tfStep.bump [OF b(2) this]] b(1) show "reaches cfg T db db'" by simp
qed

lemma steps_Consume [runs_rules]: "steps cfg T (\<lambda>now. ConsumeChallenge now i)"
proof (rule stepsI, erule Consume_Inl)
  fix now db x db' assume b: "now \<in> T" "ConsumeChallenge now i db = (Inr x, db')"
  then obtain c where c: "challengeById i db = Some c"
    using lockUser_Inr by (auto simp: ConsumeChallenge_def split: sum.splits)
  have "ConsumeChallenge now i db = (Inr (), db')" using b(2) by simp
  from reaches_step [OF tfStep.consume [OF this c]] b(1) show "reaches cfg T db db'" by simp
qed

lemma steps_runTx:
  assumes "\<And>now x db db'. now \<in> T \<Longrightarrow> sane db \<Longrightarrow> f now db = Inr (x, db') \<Longrightarrow> reaches cfg T db db'"
  shows "steps cfg T (\<lambda>now db. runTx db (f now db))"
  by (rule stepsI, erule runTx_Inl) (simp add: runTx_Inr assms)

lemma steps_StartTOTP [runs_rules]: "steps cfg T (\<lambda>now. StartTOTPEnrollment now sp cipher nonce)"
  by (rule stepsI) (simp add: StartTOTPEnrollment_def runTx_Inl, rule reaches_step [OF tfStep.startTotp], simp_all)

lemma steps_snd:
  assumes "steps cfg T op" "\<And>now db. snd (op' now db) = snd (op now db)"
  shows "steps cfg T op'"
  unfolding steps_def
proof (intro ballI allI impI)
  fix now db r db' assume n: "now \<in> T" "sane db" "op' now db = (r, db')"
  then have "op now db = (fst (op now db), db')" using assms(2) [of now db] by (metis prod.collapse snd_conv)
  then show "reaches cfg T db db'" using assms(1) n(1,2) unfolding steps_def by blast
qed

lemma steps_withFlags [runs_rules]:
  "steps cfg T op \<Longrightarrow> steps cfg T (\<lambda>now db. withFlags (op now db))"
  by (erule steps_snd) (auto simp: withFlags_def split: prod.split sum.split)

lemma steps_CompleteTOTP [runs_rules]: "steps cfg T (\<lambda>now. CompleteTOTPEnrollment now family minted e pr)"
proof (rule stepsI)
  fix now db x db' assume c: "now \<in> T" "CompleteTOTPEnrollment now family minted e pr db = (Inr x, db')"
  show "reaches cfg T db db'"
    by (cases "ecSession e"; rule reaches_step, erule tfStep.liveTotp [OF c(2)] tfStep.preTotp [OF c(2)]) (use c(1) in simp_all)
qed (simp add: CompleteTOTPEnrollment_def runTx_Inl)

lemma steps_CompleteEmail [runs_rules]: "steps cfg T (\<lambda>now. CompleteEmailFactorEnrollment now family minted e h)"
proof (rule stepsI)
  fix now db x db' assume c: "now \<in> T" "CompleteEmailFactorEnrollment now family minted e h db = (Inr x, db')"
  show "reaches cfg T db db'"
    by (cases "ecSession e"; rule reaches_step, erule tfStep.liveEmail [OF c(2)] tfStep.preEmail [OF c(2)]) (use c(1) in simp_all)
qed (simp add: CompleteEmailFactorEnrollment_def runTx_Inl)

lemma steps_Complete2FA [runs_rules]: "steps cfg T (\<lambda>now. Complete2FA now family minted ch pr ttl ip ua)"
  by (rule stepsI) (simp add: Complete2FA_def runTx_Inl, erule reaches_step [OF tfStep.complete], simp)

lemma steps_other:
  assumes "\<And>now db e db'. op now db = (Inl e, db') \<Longrightarrow> db' = db"
    and "\<And>now db x db'. op now db = (Inr x, db') \<Longrightarrow> tfStep (hSmtp cfg) (hVerify cfg) (hHash cfg) (Other now) db db'"
  shows "steps cfg T op"
  by (rule stepsI, erule assms(1), rule reaches_step, erule assms(2)) simp

lemma steps_others [runs_rules]:
  "steps cfg T (\<lambda>now. StartEmailFactorEnrollment now sp m ok)"
  "steps cfg T (\<lambda>now. CreateStepUpEmailOTP now sp m ok)"
  "steps cfg T (\<lambda>now. DisableTOTP (hVerify cfg) now sp pw p)"
  "steps cfg T (\<lambda>now. DisableEmailFactor now sp p)"
  "steps cfg T (\<lambda>now. CreateEmailVerification now raw uid m ok)"
  "steps cfg T (\<lambda>now. CreatePasswordReset now raw tok uid ttl ok draft)"
  "steps cfg T (\<lambda>now. ConsumePasswordReset (hHash cfg) now tk pw)"
  "steps cfg T (\<lambda>now. ConsumeEmailVerification now tok)"
proof -
  show "steps cfg T (\<lambda>now. StartEmailFactorEnrollment now sp m ok)"
    by (rule steps_other) (simp add: StartEmailFactorEnrollment_def runTx_Inl, rule tfStep.startEmail, simp)
  show "steps cfg T (\<lambda>now. CreateStepUpEmailOTP now sp m ok)"
    by (rule steps_other) (simp add: CreateStepUpEmailOTP_def runTx_Inl, rule tfStep.stepUpCode, simp)
  show "steps cfg T (\<lambda>now. DisableTOTP (hVerify cfg) now sp pw p)"
    by (rule steps_other) (simp add: DisableTOTP_def runTx_Inl, rule tfStep.disableTotp, simp)
  show "steps cfg T (\<lambda>now. DisableEmailFactor now sp p)"
    by (rule steps_other) (simp add: DisableEmailFactor_def runTx_Inl, rule tfStep.disableEmail, simp)
  show "steps cfg T (\<lambda>now. CreateEmailVerification now raw uid m ok)"
    by (rule steps_other) (simp add: CreateEmailVerification_def runTx_Inl, rule tfStep.verification, simp)
  show "steps cfg T (\<lambda>now. CreatePasswordReset now raw tok uid ttl ok draft)"
    by (rule steps_other) (simp add: CreatePasswordReset_def runTx_Inl, rule tfStep.resetLink, simp)
  show "steps cfg T (\<lambda>now. ConsumePasswordReset (hHash cfg) now tk pw)"
    by (rule steps_other) (simp add: ConsumePasswordReset_def runTx_Inl, rule tfStep.reset, simp)
  show "steps cfg T (\<lambda>now. ConsumeEmailVerification now tok)"
    by (rule steps_other, erule Verified_Inl, erule tfStep.verified)
qed

lemma steps_Regenerate [runs_rules]: "steps cfg T (\<lambda>now. RegenerateRecoveryCodes (hVerify cfg) now sp pw p hs)"
  by (rule stepsI) (simp add: RegenerateRecoveryCodes_def runTx_Inl, rule reaches_step [OF tfStep.regenerate], simp_all)

section \<open>Transactions on the accounts alone\<close>

text \<open>Every one of them keeps the epochs.\<close>

lemma epochGrows_same: "accountIds st \<Longrightarrow> users st' = users st \<Longrightarrow> userSeq st' = userSeq st \<Longrightarrow> epochGrows st st'"
  by (rule epochGrows_map [of st st' "\<lambda>u. u"]) simp_all

lemma epochGrows_write:
  assumes "writeUsers P f st = Inr st'" "accountIds st" "\<And>u. uId (f u) = uId u \<and> uTokenVersion u \<le> uTokenVersion (f u)"
  shows "epochGrows st st'"
  using writeUsers_Inr [OF assms(1)]
  by (intro epochGrows_map [OF assms(2), of _ "\<lambda>u. if P u then f u else u"]) (simp_all add: assms(3))

lemma epochGrows_insert:
  assumes "insertUser u st = Inr (u', st')" "accountIds st"
  shows "epochGrows st st'"
proof -
  note i = insertUser_Inr(1,2) [OF assms(1)]
  have "userSeq st \<notin> uId ` set (users st)" using assms(2) by (auto simp: accountIds_def list_all_iff)
  then have "distinct (map uId (users st'))" using assms(2) by (simp add: i accountIds_def)
  moreover have "list_all (\<lambda>v. uId v < userSeq st') (users st')"
    using assms(2) by (auto simp: i accountIds_def list_all_iff)
  ultimately show ?thesis by (auto simp: epochGrows_def accountIds_def i list_all_iff list_ex_iff)
qed

lemma epochGrows_frame:
  "epochGrows st st' \<Longrightarrow> users st'' = users st' \<Longrightarrow> userSeq st'' = userSeq st' \<Longrightarrow> epochGrows st st''"
  by (simp add: epochGrows_def accountIds_def)

lemma epochGrows_trans:
  assumes "epochGrows a b" "epochGrows b c"
  shows "epochGrows a c"
  unfolding epochGrows_def list_all_iff list_ex_iff
proof (intro conjI ballI)
  show "accountIds c" using assms(2) by (simp add: epochGrows_def)
  show "userSeq a \<le> userSeq c" using assms by (simp add: epochGrows_def)
  fix u assume u: "u \<in> set (users c)"
  then have "userSeq b \<le> uId u \<or> (\<exists>v\<in>set (users b). uId v = uId u \<and> uTokenVersion v \<le> uTokenVersion u)"
    using assms(2) by (auto simp: epochGrows_def list_all_iff list_ex_iff)
  then show "userSeq a \<le> uId u \<or> (\<exists>v\<in>set (users a). uId v = uId u \<and> uTokenVersion v \<le> uTokenVersion u)"
    using assms(1) unfolding epochGrows_def list_all_iff list_ex_iff by (metis order_trans)
qed

lemma epochGrows_commitTx: "epochGrows st st' \<Longrightarrow> accountIds st \<Longrightarrow> epochGrows st (snd (commitTx i r st' st))"
  using commitTx_cases [of i r st' st] epochGrows_refl by auto

lemma epochs_revoke: "users (revokeWhere P r now st) = users st" "userSeq (revokeWhere P r now st) = userSeq st"
  by (simp_all add: revokeWhere_def)

lemma epochs_IssueSession:
  assumes "accountIds st"
  shows "epochGrows st (snd (IssueSession now family minted uid tv ttl ip ua st))"
proof -
  have "epochGrows st st2"
    if "issueSessionTx now family uid issue ip ua st = Inr (i, st1)"
      "writeUsers (\<lambda>u. uId u = uid) (\<lambda>u. u\<lparr>uLastLogin := Some now\<rparr>) st1 = Inr st2" for issue i st1 st2
  proof -
    have g: "epochGrows st st1" using issueSession_users(1,2) [OF that(1)] by (rule epochGrows_same [OF assms])
    then have "accountIds st1" by (simp add: epochGrows_def)
    from epochGrows_trans [OF g epochGrows_write [OF that(2) this]] show ?thesis by simp
  qed
  then show ?thesis using epochGrows_refl [OF assms] by (auto simp: IssueSession_def Let_def split: option.splits sum.splits)
qed

lemma epochs_Bootstrap:
  assumes "accountIds st"
  shows "epochGrows st (snd (Bootstrap hashpw now e n p st))"
  using epochGrows_refl [OF assms]
  by (auto simp: Bootstrap_def Let_def split: option.splits sum.splits
      intro!: epochGrows_commitTx assms elim!: epochGrows_write [OF _ assms] epochGrows_insert [OF _ assms])

lemma epochs_acceptInvite:
  assumes "accountIds st"
  shows "epochGrows st (snd (acceptInvite now loc n c st))"
proof -
  have "epochGrows st (st1\<lparr>invites := ii\<rparr>)" if i: "insertAcceptedUser now e n c r st = Inr (u, st1)" for e r u st1 ii
  proof -
    from i obtain u' st0 where a: "insertUser (newUser e n r (icPassword c) (Some now)) st = Inr (u', st0)"
      and s: "users st1 = users st0" "userSeq st1 = userSeq st0"
      by (auto simp: insertAcceptedUser_def linkIdentity_def rbind_Inr_iff split: sum.splits option.splits if_splits)
    show ?thesis by (rule epochGrows_frame [OF epochGrows_insert [OF a assms]]) (simp_all add: s)
  qed
  then show ?thesis using epochGrows_refl [OF assms]
    by (auto simp: acceptInvite_def split: sum.splits option.splits intro!: epochGrows_commitTx assms)
qed

lemma epochs_AcceptInvite:
  "accountIds st \<Longrightarrow> epochGrows st (snd (AcceptInvite hashpw now tok n p st))"
  by (auto simp: AcceptInvite_def epochGrows_refl epochs_acceptInvite split: option.split)

lemma epochs_ChangePassword:
  assumes "accountIds st"
  shows "epochGrows st (snd (ChangePassword verify hashpw now i k c n st))"
proof -
  have "epochGrows st (revokeWhere P r now st1)"
    if "writeUsers (\<lambda>v. uId v = i) (\<lambda>v. v\<lparr>uPwHash := h, uTokenVersion := uTokenVersion v + 1\<rparr>) st = Inr st1" for st1 P r h
    by (rule epochGrows_frame [OF epochGrows_write [OF that assms]]) (simp_all add: epochs_revoke)
  then show ?thesis using epochGrows_refl [OF assms]
    by (auto simp: ChangePassword_def split: option.splits sum.splits intro!: epochGrows_commitTx assms)
qed

lemma epochs_RevokeAllForUser:
  assumes "accountIds st"
  shows "epochGrows st (snd (RevokeAllForUser now uid reason st))"
proof -
  have "epochGrows st (revokeWhere P r now st1)"
    if "writeUsers (\<lambda>u. uId u = uid) (\<lambda>u. u\<lparr>uTokenVersion := uTokenVersion u + 1\<rparr>) st = Inr st1" for st1 P r
    by (rule epochGrows_frame [OF epochGrows_write [OF that assms]]) (simp_all add: epochs_revoke)
  then show ?thesis using epochGrows_refl [OF assms]
    by (auto simp: RevokeAllForUser_def split: option.splits sum.splits)
qed

lemma epochs_RevokeFamily: "accountIds st \<Longrightarrow> epochGrows st (RevokeFamilyByTokens now a r reason st)"
  by (rule epochGrows_same) (simp_all add: RevokeFamilyByTokens_def epochs_revoke)

lemma rotateAttempts_users:
  "rotateAttempts (\<lambda>_ _. None) alive (rotateOnce now ttl minted tok ip ua) ks st = (e, res, st') \<Longrightarrow>
     users st' = users st \<and> userSeq st' = userSeq st"
  by (induction ks) (auto simp: Let_def dest: rotateOnce_users split: option.splits prod.splits if_splits)

lemma epochs_Rotate:
  assumes "accountIds st" "Rotate (\<lambda>_ _. None) alive now ttl minted tok ip ua st = (e, res, st')"
  shows "epochGrows st st'"
  using rotateAttempts_users [OF assms(2) [unfolded Rotate_def]] by (auto intro: epochGrows_same [OF assms(1)])

lemma steps_identity:
  assumes "\<And>now db. sane db \<Longrightarrow> \<exists>st. snd (op now db) = setIdn st db \<and> epochGrows (idn db) st"
  shows "steps cfg T op"
  unfolding steps_def
proof (intro ballI allI impI)
  fix now db r db'
  assume "now \<in> T" "sane db" "op now db = (r, db')"
  with assms [of db now] show "reaches cfg T db db'" by (auto intro: reaches_identity)
qed

lemma steps_onIdentity:
  assumes "\<And>now st. accountIds st \<Longrightarrow> epochGrows st (snd (op now st))"
  shows "steps cfg T (\<lambda>now db. case op now (idn db) of
        (Inl e, st) \<Rightarrow> (Inl e, setIdn st db)
      | (Inr u, st) \<Rightarrow> (Inr \<lparr>uvUser = u, uvTOTP = totpEnabled (uId u) db, uvEmail = emailEnabled (uId u) db\<rparr>, setIdn st db))"
proof (rule steps_identity)
  fix now db assume "sane db"
  then have "epochGrows (idn db) (snd (op now (idn db)))" using assms by (simp add: sane_def)
  then show "\<exists>st. snd (case op now (idn db) of
        (Inl e, st) \<Rightarrow> (Inl e, setIdn st db)
      | (Inr u, st) \<Rightarrow> (Inr \<lparr>uvUser = u, uvTOTP = totpEnabled (uId u) db, uvEmail = emailEnabled (uId u) db\<rparr>, setIdn st db)) =
      setIdn st db \<and> epochGrows (idn db) st"
    by (intro exI [of _ "snd (op now (idn db))"]) (auto split: prod.split sum.split)
qed

lemma runs_onIdentity [runs_rules]:
  "honest cfg T w \<Longrightarrow> (\<And>now st. accountIds st \<Longrightarrow> epochGrows st (snd (op now st))) \<Longrightarrow> runs cfg T (onIdentity w op)"
  unfolding onIdentity_def by (rule runs_call [OF _ steps_onIdentity])

lemma steps_setIdn:
  assumes "\<And>now st. accountIds st \<Longrightarrow> epochGrows st (snd (op now st))"
  shows "steps cfg T (\<lambda>now db. case op now (idn db) of (r, st) \<Rightarrow> (r, setIdn st db))"
proof (rule steps_identity)
  fix now db assume "sane db"
  then have "epochGrows (idn db) (snd (op now (idn db)))" using assms by (simp add: sane_def)
  then show "\<exists>st. snd (case op now (idn db) of (r, st) \<Rightarrow> (r, setIdn st db)) = setIdn st db \<and> epochGrows (idn db) st"
    by (intro exI [of _ "snd (op now (idn db))"]) (simp split: prod.split)
qed

lemmas runs_identity [runs_rules] = epochs_Bootstrap epochs_AcceptInvite
  steps_setIdn [OF epochs_ChangePassword] steps_setIdn [OF epochs_RevokeAllForUser]

lemma runs_issueSession [runs_rules]: "honest cfg T w \<Longrightarrow> runs cfg T (issueSession w cfg rq u)"
  unfolding issueSession_def
  by (erule runs_call, rule steps_setIdn, rule epochs_IssueSession)

lemma steps_logout [runs_rules]:
  "steps cfg T (\<lambda>now db. (Inr (), setIdn (RevokeFamilyByTokens now a r reason (idn db)) db) :: (authErr + unit) \<times> authdb)"
  by (rule steps_identity) (auto simp: sane_def intro: epochs_RevokeFamily)

lemma steps_rotate [runs_rules]:
  "steps cfg T (\<lambda>now db. case Rotate (\<lambda>_ _. None) alive now ttl minted raw ip ua (idn db) of
      (e, res, st) \<Rightarrow> (Inr (e, res), setIdn st db))"
proof (rule steps_identity)
  fix now db assume s: "sane db"
  obtain e res st where r: "Rotate (\<lambda>_ _. None) alive now ttl minted raw ip ua (idn db) = (e, res, st)"
    by (metis prod_cases3)
  then have "epochGrows (idn db) st" using epochs_Rotate [OF _ r] s by (simp add: sane_def)
  then show "\<exists>st. snd (case Rotate (\<lambda>_ _. None) alive now ttl minted raw ip ua (idn db) of
      (e, res, st) \<Rightarrow> (Inr (e, res), setIdn st db)) = setIdn st db \<and>
      epochGrows (idn db) st" by (auto simp: r)
qed

text \<open>Setting a password spends the proof and moves the epoch.\<close>

lemma steps_SetPassword [runs_rules]: "steps cfg T (\<lambda>now. SetPassword hashpw now sp password proof)"
proof (rule stepsI)
  fix now db x db' assume t: "now \<in> T" and s: "sane db" and o: "SetPassword hashpw now sp password proof db = (Inr x, db')"
  have "\<exists>h db1 st P Q r. consumeFactorIfPresentTx now (spUser sp) proof db = Inr db1 \<and>
    writeUsers P (\<lambda>u. u\<lparr>uPwHash := h, uTokenVersion := uTokenVersion u + 1\<rparr>) (idn db1) = Inr st \<and>
    db' = setIdn (revokeWhere Q r now st) db1"
    using o unfolding SetPassword_def
    by (simp add: runTx_Inr rbind_Inr_iff Let_def split: option.splits if_splits sum.splits) blast
  then obtain h db1 st P where c: "consumeFactorIfPresentTx now (spUser sp) proof db = Inr db1"
    "writeUsers P (\<lambda>u. u\<lparr>uPwHash := h, uTokenVersion := uTokenVersion u + 1\<rparr>) (idn db1) = Inr st"
    "\<exists>Q r. db' = setIdn (revokeWhere Q r now st) db1" by blast
  have a: "reaches cfg T db db1"
  proof (cases "totpEnabled (spUser sp) db \<or> emailEnabled (spUser sp) db")
    case True
    then have "consumeSecondFactorTx now (spUser sp) proof db = Inr db1"
      using c(1) by (auto simp: consumeFactorIfPresentTx_def split: if_splits)
    then have "ConsumeSecondFactor now (spUser sp) proof db = (Inr (), db1)"
      by (simp add: ConsumeSecondFactor_def runTx_def)
    from reaches_step [OF tfStep.spend [OF this]] t show ?thesis by simp
  next
    case False
    then show ?thesis using c(1) by (auto simp: consumeFactorIfPresentTx_def)
  qed
  have "accountIds (idn db1)" using reaches_sane [OF a s] by (simp add: sane_def)
  from epochGrows_write [OF c(2) this] have "epochGrows (idn db1) st" by simp
  then have "epochGrows (idn db1) (revokeWhere Q r now st)" for Q r
    by (rule epochGrows_frame) (simp_all add: epochs_revoke)
  then show "reaches cfg T db db'" using c(3) reaches_trans [OF a reaches_identity [OF _ t]] by blast
qed (auto simp: SetPassword_def runTx_Inl split: option.splits)

section \<open>Every handler\<close>

lemma runs_decode [runs_rules]: "runs cfg T (decode b)" "runs cfg T (orInternal r)" "runs cfg T writeRateLimited"
  "runs cfg T writeSessionInvalid" "runs cfg T (refuseCode n)"
  unfolding decode_def orInternal_def writeRateLimited_def writeSessionInvalid_def refuseCode_def Let_def
  by (intro runs_rules)+

lemma runs_writes [runs_rules]:
  "runs cfg T (writeChallengeError e)" "runs cfg T (writeFactorTxnError eo)" "runs cfg T (writeTOTPConfirmError e)"
  "runs cfg T (requireEmail s)" "runs cfg T (validatePassword cfg p)" "runs cfg T (validateProfileName n)"
  "runs cfg T (confirmed u tok codes chal)" "runs cfg T (newRecoveryCodeSet w cfg uid)"
  unfolding writeChallengeError_def writeFactorTxnError_def writeTOTPConfirmError_def requireEmail_def validatePassword_def
    validateProfileName_def confirmed_def newRecoveryCodeSet_def Let_def
  by (intro runs_rules | simp)+

lemma runs_shared [runs_rules]:
  assumes h: "honest cfg T w"
  shows "runs cfg T (enqueueMail w cfg template args)"
    and "runs cfg T (beginChallenge w u purpose mb)"
    and "runs cfg T (requireChallenge w rq ps)"
    and "runs cfg T (beginStepUpPassword w uid)"
proof -
  have m: "steps cfg T (\<lambda>now db. runTx db (rbind (enqueueDraft ok draft [] db) (\<lambda>db'. Inr ((), db'))))" for ok draft
  proof (rule steps_runTx)
    fix now x db db' assume "now \<in> T" and e: "rbind (enqueueDraft ok draft [] db) (\<lambda>db'. Inr ((), db')) = Inr (x, db')"
    then have "db' = db \<or> (\<exists>ms. db' = db\<lparr>mails := ms\<rparr>)"
      by (auto simp: enqueueDraft_def rbind_Inr_iff split: option.splits if_splits)
    with \<open>now \<in> T\<close> show "reaches cfg T db db'"
      using reaches_step [OF tfStep.queued [where sd = "side db"], of now T cfg db] by auto
  qed
  show "runs cfg T (enqueueMail w cfg template args)" unfolding enqueueMail_def by (assumption | rule h m runs_rules)+
  show "runs cfg T (beginChallenge w u purpose mb)"
    unfolding beginChallenge_def beginChallengeFor_def by (assumption | rule h runs_rules)+
  show "runs cfg T (requireChallenge w rq ps)" unfolding requireChallenge_def by (assumption | rule h runs_rules | simp)+
  show "runs cfg T (beginStepUpPassword w uid)" unfolding beginStepUpPassword_def Let_def by (assumption | rule h runs_rules)+
qed

lemma runs_login_parts [runs_rules]:
  assumes h: "honest cfg T w"
  shows "runs cfg T (notifyRecoveryCodeUsed w cfg u)"
    and "runs cfg T (startChallenge w cfg u purpose mb)"
    and "runs cfg T (issueAndRespond w cfg rq u)"
    and "runs cfg T (auditLoginRejection w sub b)"
    and "runs cfg T (recordLoginFailure w k1 k2 sub)"
    and "runs cfg T (configureLoginLimits w)"
  unfolding notifyRecoveryCodeUsed_def startChallenge_def issueAndRespond_def auditLoginRejection_def recordLoginFailure_def
    configureLoginLimits_def Let_def
  by (assumption | rule h runs_rules)+

lemma runs_completeLogin [runs_rules]: "honest cfg T w \<Longrightarrow> runs cfg T (completeLogin w cfg rq u mb)"
  unfolding completeLogin_def by (assumption | rule runs_rules)+

lemma runs_settleLogin [runs_rules]: "honest cfg T w \<Longrightarrow> runs cfg T (settleLogin w cfg rq a b sub v)"
  unfolding settleLogin_def by (assumption | rule runs_rules)+

lemma runs_Login: "honest cfg T w \<Longrightarrow> runs cfg T (Login w cfg rq input)"
  unfolding Login_def Let_def by (assumption | rule runs_rules)+

lemma runs_withAddressSlot [runs_rules]:
  "(\<And>i. runs cfg T (work i)) \<Longrightarrow> (\<And>u. runs cfg T (done u)) \<Longrightarrow> runs cfg T (withAddressSlot w b key input work ref done)"
  unfolding withAddressSlot_def by (assumption | rule runs_rules)+

lemma steps_reset_view [runs_rules]:
  "steps cfg T (\<lambda>now db. case ConsumePasswordReset (hHash cfg) now tok pw db of
      (Inl e, db') \<Rightarrow> (Inl e, db')
    | (Inr u, db') \<Rightarrow> (Inr \<lparr>uvUser = u, uvTOTP = totpEnabled (uId u) db', uvEmail = emailEnabled (uId u) db'\<rparr>, db'))"
  by (rule steps_snd [OF steps_others(7) [of cfg T tok pw]]) (auto split: prod.split sum.split)

lemma runs_accounts:
  assumes h: "honest cfg T w"
  shows "runs cfg T (BootstrapStatus w)" "runs cfg T (BootstrapHandler w cfg rq bi)" "runs cfg T (AcceptInviteHandler w cfg rq ai)"
    "runs cfg T (ResetPassword w cfg rq ri)" "runs cfg T (SendEmailVerification w cfg p)" "runs cfg T (VerifyEmail w vi)"
    "runs cfg T (LogoutAll w p)" "runs cfg T (Logout w rq)" "runs cfg T (ChangePasswordHandler w cfg p ci)"
  unfolding BootstrapStatus_def BootstrapHandler_def AcceptInviteHandler_def ResetPassword_def SendEmailVerification_def
    VerifyEmail_def LogoutAll_def Logout_def ChangePasswordHandler_def
  by (assumption | rule h runs_rules)+

lemma runs_sendReset [runs_rules]: "honest cfg T w \<Longrightarrow> runs cfg T (sendReset w cfg email)"
  unfolding sendReset_def by (assumption | rule runs_rules)+

lemma runs_notifyReuse [runs_rules]: "honest cfg T w \<Longrightarrow> runs cfg T (notifyReuse w cfg uid)"
  unfolding notifyReuse_def by (assumption | rule runs_rules)+

lemma runs_anonymousMe [runs_rules]: "honest cfg T w \<Longrightarrow> runs cfg T (anonymousMe w)"
  unfolding anonymousMe_def by (assumption | rule runs_rules)+

lemma runs_sessions:
  assumes h: "honest cfg T w"
  shows "runs cfg T (ForgotPassword w cfg rq fi)" "runs cfg T (Refresh w cfg rq)" "runs cfg T (Me w cfg rq)"
  unfolding ForgotPassword_def Refresh_def Me_def Let_def
  by (assumption | rule h runs_rules)+

lemma runs_proofs [runs_rules]:
  assumes h: "honest cfg T w"
  shows "runs cfg T (verifyTOTPProof w cfg uid code)"
    and "runs cfg T (tryMailedStepUpProof w cfg uid u digits)"
    and "runs cfg T (tryRecoveryStepUpProof w cfg uid normalized)"
    and "runs cfg T (settleStepUp w key e)"
    and "runs cfg T (settleEnroll w ko e)"
  unfolding verifyTOTPProof_def tryMailedStepUpProof_def tryRecoveryStepUpProof_def settleStepUp_def settleEnroll_def Let_def
  by (assumption | rule h runs_rules)+

lemma runs_challengeProofFor [runs_rules]: "honest cfg T w \<Longrightarrow> runs cfg T (challengeProofFor w cfg u code i)"
  unfolding challengeProofFor_def Let_def by (assumption | rule runs_rules)+

lemma runs_tryStepUpProof [runs_rules]: "honest cfg T w \<Longrightarrow> runs cfg T (tryStepUpProof w cfg uid u code)"
  unfolding tryStepUpProof_def tryNumericStepUpProof_def Let_def by (assumption | rule runs_rules)+

lemma runs_withStepUp [runs_rules]:
  "honest cfg T w \<Longrightarrow> (\<And>p. runs cfg T (work p)) \<Longrightarrow> runs cfg T (withStepUp w cfg uid u code work)"
  unfolding withStepUp_def Let_def by (assumption | rule runs_rules)+

lemma runs_work [runs_rules]:
  assumes h: "honest cfg T w"
  shows "runs cfg T (notifyIfRecovery w cfg u proof)" "steps cfg T op \<Longrightarrow> runs cfg T (workThenNotify w cfg u op proof)"
    "runs cfg T (passwordOutcome w key done e)" "runs cfg T (loadTwoFactorStatusWithTOTPOnly w cfg uid)"
    "runs cfg T (enrollmentPrincipal w cfg rq input)" "runs cfg T (enrollmentPrincipalNoPassword w rq)"
    "runs cfg T (confirmEnrollmentSession w cfg rq sid)" "runs cfg T (pendingTOTPEnrollment w cfg uid v sid code)"
    "runs cfg T (reserveEmailFactorConfirm w rq uid)"
  unfolding notifyIfRecovery_def workThenNotify_def passwordOutcome_def loadTwoFactorStatusWithTOTPOnly_def
    enrollmentPrincipal_def enrollmentPrincipalNoPassword_def confirmEnrollmentSession_def pendingTOTPEnrollment_def
    reserveEmailFactorConfirm_def Let_def
  by (assumption | rule h runs_rules)+

lemma runs_enrollment:
  assumes h: "honest cfg T w"
  shows "runs cfg T (StartTOTP w cfg rq input)" "runs cfg T (TOTPQR w cfg rq)" "runs cfg T (ConfirmTOTP w cfg rq ci)"
    "runs cfg T (StartEmailFactor w cfg rq input)" "runs cfg T (ConfirmEmailFactor w cfg rq ei)"
    "runs cfg T (TwoFactorStatus w cfg p)"
  unfolding StartTOTP_def TOTPQR_def ConfirmTOTP_def StartEmailFactor_def ConfirmEmailFactor_def TwoFactorStatus_def Let_def
  by (assumption | rule h runs_rules)+

lemma runs_stepUps:
  assumes h: "honest cfg T w"
  shows "runs cfg T (DisableTOTPHandler w cfg p di)" "runs cfg T (RegenerateRecoveryCodesHandler w cfg p ri)"
    "runs cfg T (DisableEmailFactorHandler w cfg p ei)" "runs cfg T (SendStepUpEmailOTP w cfg p)"
    "runs cfg T (SetPasswordHandler w cfg p pi)"
  unfolding DisableTOTPHandler_def RegenerateRecoveryCodesHandler_def DisableEmailFactorHandler_def SendStepUpEmailOTP_def
    SetPasswordHandler_def Let_def
  by (assumption | rule h runs_rules)+

section \<open>The endpoints of a challenge\<close>

text \<open>What \<open>requireChallenge\<close> returns was read from the table, live, with guesses left and for a listed purpose.\<close>

lemma ResolveChallenge_Inr:
  assumes "ResolveChallenge now tok ps db = Inr ch"
  shows "ch \<in> set (challenges db)" "challengeOk now db ch" "ps \<noteq> [] \<Longrightarrow> chPurpose ch \<in> set ps" "tok = Some (chToken ch)"
  using assms by (auto simp: ResolveChallenge_def find_Some_iff split: option.splits if_splits)

lemma valid_query:
  assumes "honest cfg T w" "\<And>now db r. now \<in> T \<Longrightarrow> sane db \<Longrightarrow> f now db = r \<Longrightarrow> Q r db" "\<And>e db. sane db \<Longrightarrow> Q (Inl e) db"
  shows "valid cfg T P (query w f) Q"
  unfolding query_def by (rule valid_call [OF assms(1) steps_query]) (auto intro: assms(2,3))

lemma valid_weak_answer: "valid cfg T P (answer r) Q"
  by (simp add: valid_def answer_def)

lemma valid_writeChallengeError: "valid cfg T P (writeChallengeError e) Q"
  by (auto simp: valid_def writeChallengeError_def answer_def hthen_def hbind_def cookie_def)

lemma valid_requireChallenge:
  assumes "honest cfg T w"
  shows "valid cfg T P (requireChallenge w rq ps) (\<lambda>ch db. known ch db \<and> (ps \<noteq> [] \<longrightarrow> chPurpose ch \<in> set ps))"
  unfolding requireChallenge_def
proof (rule valid_bind)
  let ?Q = "\<lambda>r db. case r of Inl e \<Rightarrow> True | Inr ch \<Rightarrow> known ch db \<and> (ps \<noteq> [] \<longrightarrow> chPurpose ch \<in> set ps)"
  show "valid cfg T P (query w (\<lambda>now. ResolveChallenge now (arPreAuth rq) ps)) ?Q"
    by (rule valid_query [OF assms]) (auto dest: ResolveChallenge_Inr intro: known_read split: sum.splits)
  have w: "valid cfg T R (hthen (query w f) (writeChallengeError e)) Q" for R Q f e
    unfolding hthen_def by (rule valid_bind [OF valid_true [OF runs_query [OF assms]]]) (rule valid_writeChallengeError)
  fix r :: "authErr + challenge"
  show "valid cfg T (?Q r)
      (case r of Inr c \<Rightarrow> ret c
       | Inl e \<Rightarrow> if e = ErrChallengeInvalid then hthen (query w (\<lambda>now. DiagnoseChallenge now (arPreAuth rq))) (writeChallengeError e)
                  else writeChallengeError e)
      (\<lambda>ch db. known ch db \<and> (ps \<noteq> [] \<longrightarrow> chPurpose ch \<in> set ps))"
  proof (cases r)
    case (Inr c)
    then show ?thesis by (simp add: valid_def ret_def)
  qed (simp add: valid_writeChallengeError w)
qed

lemma known_row: "known ch db \<Longrightarrow> challengeById (chId ch) db = Some c \<Longrightarrow> challengeFrom ch c"
  by (auto simp: known_def challengeById_def find_Some_iff)

text \<open>A code is mailed only for a challenge that may take one, as it was read and as it still is.\<close>

lemma valid_send:
  assumes h: "honest cfg T w" and e: "emailFactorAvailable (hSmtp cfg) (chPurpose ch) (chMailbox ch) (emailEnabled (chUser ch) db0)"
  shows "valid cfg T (known ch) (call w (\<lambda>now. CreateChallengeEmailOTP now (chId ch) h' ttl cd ok mail)) (\<lambda>_ _. True)"
  unfolding valid_def
proof (intro allI impI)
  fix s :: srv assume s: "sane (svDb s)" and k: "known ch (svDb s)"
  let ?k = "svTick s" and ?db = "wOthers w (svTick s) (svDb s)"
  have o: "reaches cfg T (svDb s) ?db" "wClock w ?k \<in> T" using h s by (simp_all add: honest_def)
  obtain r db' where r: "CreateChallengeEmailOTP (wClock w ?k) (chId ch) h' ttl cd ok mail ?db = (r, db')" by fastforce
  have "reaches cfg T ?db db'"
  proof (cases r)
    case (Inl e)
    then have "db' = ?db" using r Send_Inl by metis
    then show ?thesis by simp
  next
    case (Inr n)
    then obtain c where c: "challengeById (chId ch) ?db = Some c"
      using r lockUser_Inr by (auto simp: CreateChallengeEmailOTP_def split: sum.splits)
    have f: "challengeFrom ch c" using known_row [OF known_reaches [OF o(1) k] c] .
    have "emailFactorAvailable (hSmtp cfg) (chPurpose c) (chMailbox c) (emailEnabled (chUser c) db0)"
      using e f by (simp add: challengeFrom_def)
    from reaches_step [OF tfStep.send [OF c this r [unfolded Inr]]] o(2) show ?thesis by simp
  qed
  then show "reaches cfg T (svDb s) (svDb (snd (call w (\<lambda>now. CreateChallengeEmailOTP now (chId ch) h' ttl cd ok mail) s))) \<and>
    (\<forall>x. fst (call w (\<lambda>now. CreateChallengeEmailOTP now (chId ch) h' ttl cd ok mail) s) = Inr x \<longrightarrow> True)"
    using o(1) r by (auto simp: call_def Let_def intro: reaches_trans)
qed

lemma loadUser_email: "loadUser uid db = Inr u \<Longrightarrow> uvEmail u = emailEnabled uid db"
  by (auto simp: loadUser_def rbind_Inr_iff)

lemma runs_SendEmailOTP: 
  assumes h: "honest cfg T w"
  shows "runs cfg T (SendEmailOTP w cfg rq)"
  unfolding SendEmailOTP_def
proof (rule valid_bind [OF valid_requireChallenge [OF h]])
  fix ch
  let ?K = "\<lambda>db. known ch db \<and> ([PurposeTOTP] \<noteq> [] \<longrightarrow> chPurpose ch \<in> set [PurposeTOTP])"
  let ?Q = "\<lambda>r db. known ch db \<and> (\<forall>u. r = Inr u \<longrightarrow> (\<exists>db0. uvEmail u = emailEnabled (chUser ch) db0))"
  let ?send = "\<lambda>u. if \<not> emailFactorAvailable (hSmtp cfg) (chPurpose ch) (chMailbox ch) (uvEmail u)
           then answer (errReply 403 ''email_factor_unavailable'')
           else (case NewNumericCode Digits (wNumber w) of
                   None \<Rightarrow> answer internalError
                 | Some code \<Rightarrow>
                     (case hCodeMAC cfg of
                        None \<Rightarrow> answer goPanic
                      | Some m \<Rightarrow>
                          hbind (call w (\<lambda>now. CreateChallengeEmailOTP now (chId ch)
                                   (EmailOTPDigest (hHmac cfg) m (chUser ch) OTPPurposeLogin2FA (Some (chId ch)) code)
                                   (otpTTL cfg) (otpCooldown cfg) (wOutbox w)
                                   (Some (hDraft cfg ''login_code''
                                     [uEmail (uvUser u), code, formatInt (otpTTL cfg div minute)])))) (\<lambda>r.
                            case r of
                              Inl e \<Rightarrow> if e = ErrTooSoon \<or> e = ErrSendsExhausted then answer accepted
                                       else writeChallengeError e
                            | Inr n \<Rightarrow> answer accepted)))"
  have q: "valid cfg T ?K (query w (\<lambda>now. loadUser (chUser ch))) ?Q"
    unfolding valid_def
  proof (intro allI impI)
    fix s :: srv assume s: "sane (svDb s)" and k: "?K (svDb s)"
    let ?db = "wOthers w (svTick s) (svDb s)"
    have o: "reaches cfg T (svDb s) ?db" using h s by (simp add: honest_def)
    then have "known ch ?db" using k known_reaches by blast
    then show "reaches cfg T (svDb s) (svDb (snd (query w (\<lambda>now. loadUser (chUser ch)) s))) \<and>
      (\<forall>x. fst (query w (\<lambda>now. loadUser (chUser ch)) s) = Inr x \<longrightarrow> ?Q x (svDb (snd (query w (\<lambda>now. loadUser (chUser ch)) s))))"
      using o by (cases "wFault w (svTick s)") (auto simp: query_def call_def Let_def dest!: loadUser_email)
  qed
  have s: "valid cfg T (?Q (Inr u)) (?send u) (\<lambda>_ _. True)" for u
  proof (cases "emailFactorAvailable (hSmtp cfg) (chPurpose ch) (chMailbox ch) (uvEmail u) \<and> NewNumericCode Digits (wNumber w) \<noteq> None \<and> hCodeMAC cfg \<noteq> None")
    case True
    then obtain code m where c: "NewNumericCode Digits (wNumber w) = Some code" "hCodeMAC cfg = Some m"
      "emailFactorAvailable (hSmtp cfg) (chPurpose ch) (chMailbox ch) (uvEmail u)" by blast
    show ?thesis
    proof (cases "\<exists>db0. uvEmail u = emailEnabled (chUser ch) db0")
      case True
      then obtain db0 where "uvEmail u = emailEnabled (chUser ch) db0" by blast
      then have a: "emailFactorAvailable (hSmtp cfg) (chPurpose ch) (chMailbox ch) (emailEnabled (chUser ch) db0)" using c(3) by simp
      show ?thesis
        by (simp only: c option.case simp_thms if_False, rule valid_bind [OF valid_weaken [OF valid_send [OF h a]]])
          (simp, simp, (rule runs_rules)+)
    next
      case False
      then show ?thesis by (auto simp: valid_def)
    qed
  qed (auto simp: valid_weak_answer split: option.split)
  show "valid cfg T ?K (hbind (query w (\<lambda>now. loadUser (chUser ch))) (\<lambda>ur. case ur of Inl e \<Rightarrow> answer internalError | Inr u \<Rightarrow> ?send u))
      (\<lambda>_ _. True)"
    by (rule valid_bind [OF q], rename_tac r, case_tac r) (simp_all only: sum.case valid_weak_answer s)
qed

section \<open>A code is charged before it is examined\<close>

text \<open>The answers of \<open>Verify2FA\<close> that tell something about the code.\<close>

definition examined :: "reply \<Rightarrow> bool" where
  "examined r = (case rpBody r of InvalidCode n \<Rightarrow> True | Authenticated u c rs \<Rightarrow> True | _ \<Rightarrow> False)"

definition guessOf :: "int \<Rightarrow> string \<Rightarrow> nat option \<Rightarrow> tfLabel \<Rightarrow> bool" where
  "guessOf uid p v l = (case l of Guess t u q x \<Rightarrow> u = uid \<and> q = p \<and> x = v | _ \<Rightarrow> False)"

definition charges :: "handlerCfg \<Rightarrow> gotime set \<Rightarrow> (authdb \<Rightarrow> bool) \<Rightarrow> 'a act \<Rightarrow> (tfLabel \<Rightarrow> bool) \<Rightarrow> bool" where
  "charges cfg T P m L = (\<forall>s :: srv. sane (svDb s) \<longrightarrow> P (svDb s) \<longrightarrow>
     (\<exists>ls. runOf cfg T ls (svDb s) (svDb (snd (m s))) \<and> (\<forall>r. fst (m s) = Inl r \<and> examined r \<longrightarrow> list_ex L ls)))"

definition plain :: "'a act \<Rightarrow> bool" where
  "plain m = (\<forall>s r. fst (m s) = Inl r \<longrightarrow> \<not> examined r)"

lemma charges_plain: "runs cfg T m \<Longrightarrow> plain m \<Longrightarrow> charges cfg T P m L"
  unfolding charges_def plain_def valid_def reaches_def by blast

lemma charges_bind:
  assumes "valid cfg T P m Q" "plain m" "\<And>x. charges cfg T (Q x) (f x) L"
  shows "charges cfg T P (hbind m f) L"
  unfolding charges_def
proof (intro allI impI)
  fix s :: srv assume s: "sane (svDb s)" "P (svDb s)"
  obtain r s' where m: "m s = (r, s')" by fastforce
  have a: "reaches cfg T (svDb s) (svDb s')" "\<And>x. r = Inr x \<Longrightarrow> Q x (svDb s')"
    using assms(1) s m by (auto simp: valid_def)
  obtain ls where ls: "runOf cfg T ls (svDb s) (svDb s')" using a(1) by (auto simp: reaches_def)
  show "\<exists>ls. runOf cfg T ls (svDb s) (svDb (snd (hbind m f s))) \<and>
    (\<forall>r. fst (hbind m f s) = Inl r \<and> examined r \<longrightarrow> list_ex L ls)"
  proof (cases r)
    case (Inl e)
    have "\<not> examined e" using assms(2) m Inl unfolding plain_def by (metis fst_conv)
    then show ?thesis using ls m Inl by (auto simp: hbind_def)
  next
    case (Inr x)
    obtain ms where ms: "runOf cfg T ms (svDb s') (svDb (snd (f x s')))"
      "\<And>r. fst (f x s') = Inl r \<Longrightarrow> examined r \<Longrightarrow> list_ex L ms"
      using assms(3) [of x] reaches_sane [OF a(1) s(1)] a(2) [OF Inr] unfolding charges_def by blast
    show ?thesis using runOf_append [OF ls ms(1)] ms(2) m Inr by (auto simp: hbind_def)
  qed
qed

lemma plain_answer: "plain (answer r) \<longleftrightarrow> \<not> examined r"
  by (simp add: plain_def answer_def)

lemma plain_ret [simp]: "plain (ret x)" "plain (call w op)" "plain (query w g)" "plain (cookie c)"
  by (auto simp: plain_def ret_def call_def query_def cookie_def Let_def split: prod.splits)

lemma plain_bind: "plain m \<Longrightarrow> (\<And>x. plain (f x)) \<Longrightarrow> plain (hbind m f)"
  unfolding plain_def hbind_def by (auto split: prod.splits sum.splits) (metis fst_conv)+

lemma plain_then: "plain m \<Longrightarrow> plain k \<Longrightarrow> plain (hthen m k)"
  unfolding hthen_def by (rule plain_bind)

lemma plain_errors [simp]:
  "\<not> examined (errReply st code)" "\<not> examined internalError"
  by (simp_all add: examined_def errReply_def internalError_def)

lemma plain_writeChallengeError: "plain (writeChallengeError e)"
  unfolding writeChallengeError_def by (auto simp: plain_answer intro!: plain_then)

lemma plain_requireChallenge: "plain (requireChallenge w rq ps)"
  unfolding requireChallenge_def
  by (auto intro!: plain_bind plain_then plain_writeChallengeError split: sum.split)

lemma plain_decode: "plain (decode b)"
  by (auto simp: decode_def plain_answer split: option.split)

lemma runs_examineCode: "honest cfg T w \<Longrightarrow> runs cfg T (examineCode w cfg rq code ch n)"
  unfolding examineCode_def finishVerify2FA_def by (assumption | rule runs_rules)+

lemma call_returns: "\<exists>r s'. call w op s = (Inr r, s')"
  by (cases "wFault w (svTick s)") (simp_all add: call_def Let_def split: prod.split)

lemma charges_bump:
  assumes h: "honest cfg T w"
  shows "charges cfg T (known ch) (hbind (call w (\<lambda>now. BumpChallengeAttempt now (chId ch)))
     (\<lambda>b. case b of Inl e \<Rightarrow> writeChallengeError e | Inr n \<Rightarrow> examineCode w cfg rq code ch n))
     (guessOf (chUser ch) (chPurpose ch) (chVersion ch))"
  unfolding charges_def
proof (intro allI impI)
  fix s :: srv assume s: "sane (svDb s)" and k: "known ch (svDb s)"
  let ?w = "call w (\<lambda>now. BumpChallengeAttempt now (chId ch)) s"
  let ?f = "\<lambda>b. case b of Inl e \<Rightarrow> writeChallengeError e | Inr n \<Rightarrow> examineCode w cfg rq code ch n"
  let ?L = "guessOf (chUser ch) (chPurpose ch) (chVersion ch)"
  let ?db = "wOthers w (svTick s) (svDb s)"
  have o: "reaches cfg T (svDb s) ?db" "wClock w (svTick s) \<in> T" using h s by (simp_all add: honest_def)
  obtain b s1 where w: "?w = (Inr b, s1)" using call_returns by blast
  have "\<exists>ls. runOf cfg T ls (svDb s) (svDb s1) \<and> (\<forall>n. b = Inr n \<longrightarrow> list_ex ?L ls)"
  proof (cases b)
    case (Inl e)
    have "reaches cfg T (svDb s) (svDb s1)"
      using runs_call [OF h steps_Bump, of "chId ch"] s w unfolding valid_def by (metis snd_conv)
    then show ?thesis using Inl by (auto simp: reaches_def)
  next
    case (Inr n)
    then have b: "BumpChallengeAttempt (wClock w (svTick s)) (chId ch) ?db = (Inr n, svDb s1)"
      using w by (auto simp: call_def Let_def split: if_splits prod.splits)
    then obtain c where c: "challengeById (chId ch) ?db = Some c" by (rule bump_Inr)
    have f: "challengeFrom ch c" using known_row [OF known_reaches [OF o(1) k] c] .
    obtain ls where ls: "runOf cfg T ls (svDb s) ?db" using o(1) by (auto simp: reaches_def)
    have g: "runOf cfg T [Guess (wClock w (svTick s)) (chUser c) (chPurpose c) (chVersion c)] ?db (svDb s1)"
      by (rule runOf_step [OF tfStep.bump [OF b c]]) (simp add: o(2))
    show ?thesis using runOf_append [OF ls g] f by (intro exI conjI) (auto simp: guessOf_def challengeFrom_def)
  qed
  then obtain ls where ls: "runOf cfg T ls (svDb s) (svDb s1)" "\<And>n. b = Inr n \<Longrightarrow> list_ex ?L ls" by blast
  have s1: "sane (svDb s1)" using reaches_sane [of cfg T "svDb s" "svDb s1"] ls(1) s by (auto simp: reaches_def)
  have "runs cfg T (?f b)" by (cases b) (simp_all add: runs_examineCode [OF h] runs_writes)
  then obtain ms where ms: "runOf cfg T ms (svDb s1) (svDb (snd (?f b s1)))"
    using s1 by (auto simp: valid_def reaches_def)
  have "list_ex ?L (ls @ ms)" if "fst (?f b s1) = Inl r" "examined r" for r
  proof (cases b)
    case (Inl e)
    then show ?thesis using that plain_writeChallengeError [of e] by (auto simp: plain_def)
  qed (simp add: ls(2))
  then show "\<exists>ls. runOf cfg T ls (svDb s) (svDb (snd (hbind (call w (\<lambda>now. BumpChallengeAttempt now (chId ch))) ?f s))) \<and>
      (\<forall>r. fst (hbind (call w (\<lambda>now. BumpChallengeAttempt now (chId ch))) ?f s) = Inl r \<and> examined r \<longrightarrow> list_ex ?L ls)"
    using runOf_append [OF ls(1) ms] w by (intro exI [of _ "ls @ ms"]) (simp add: hbind_def)
qed

text \<open>The challenge a request answers, as its first step reads it.\<close>

definition addressed :: "world \<Rightarrow> authRequest \<Rightarrow> srv \<Rightarrow> challenge option" where
  "addressed w rq s =
     (let k = svTick s
      in if wFault w k then None
         else case ResolveChallenge (wClock w k) (arPreAuth rq) [PurposeTOTP] (wOthers w k (svDb s)) of
                Inl e \<Rightarrow> None | Inr ch \<Rightarrow> Some ch)"

lemma writeChallengeError_ends: "fst (writeChallengeError e s) \<noteq> Inr x"
  by (auto simp: writeChallengeError_def hthen_def hbind_def answer_def cookie_def split: prod.split sum.split)

lemma then_ends: "fst (hthen m (writeChallengeError e) s) \<noteq> Inr x"
  by (auto simp: hthen_def hbind_def writeChallengeError_ends split: prod.split sum.split)

lemma requireChallenge_addressed:
  assumes "fst (requireChallenge w rq [PurposeTOTP] s) = Inr ch"
  shows "addressed w rq s = Some ch"
proof -
  show ?thesis
  proof (cases "wFault w (svTick s)")
    case True
    then show ?thesis using assms unfolding requireChallenge_def
      by (simp add: writeChallengeError_ends then_ends hbind_def query_def call_def Let_def split: if_splits)
  next
    case False
    let ?r = "ResolveChallenge (wClock w (svTick s)) (arPreAuth rq) [PurposeTOTP] (wOthers w (svTick s) (svDb s))"
    show ?thesis
    proof (cases ?r)
      case (Inl e)
      then show ?thesis using assms False unfolding requireChallenge_def
        by (simp add: writeChallengeError_ends then_ends hbind_def query_def call_def Let_def split: if_splits)
    next
      case (Inr c)
      then show ?thesis using assms False unfolding requireChallenge_def addressed_def
        by (simp add: hbind_def query_def call_def Let_def ret_def)
    qed
  qed
qed

lemma verify_charges:
  assumes h: "honest cfg T w" and s: "sane (svDb s)" and r: "fst (Verify2FA w cfg rq input s) = Inl r" "examined r"
  obtains ch ls where "addressed w rq s = Some ch" "runOf cfg T ls (svDb s) (svDb (snd (Verify2FA w cfg rq input s)))"
    "list_ex (guessOf (chUser ch) PurposeTOTP (chVersion ch)) ls"
proof -
  obtain r0 s1 where m: "requireChallenge w rq [PurposeTOTP] s = (r0, s1)" by fastforce
  show thesis
  proof (cases r0)
    case (Inl e)
    then have "fst (Verify2FA w cfg rq input s) = Inl e" using m by (simp add: Verify2FA_def hbind_def)
    then show thesis using r m Inl plain_requireChallenge unfolding plain_def by (metis Inl_inject fst_conv)
  next
    case (Inr ch)
    let ?L = "guessOf (chUser ch) PurposeTOTP (chVersion ch)"
    let ?bump = "hbind (call w (\<lambda>now. BumpChallengeAttempt now (chId ch)))
       (\<lambda>b. case b of Inl e \<Rightarrow> writeChallengeError e | Inr n \<Rightarrow> examineCode w cfg rq code ch n)"
    have v: "reaches cfg T (svDb s) (svDb s1)" "known ch (svDb s1)" "chPurpose ch = PurposeTOTP"
      using valid_requireChallenge [OF h, of "\<lambda>_. True" rq "[PurposeTOTP]"] s m Inr by (auto simp: valid_def)
    let ?rest = "hbind (decode input) (\<lambda>code. hbind (call w (\<lambda>now. BumpChallengeAttempt now (chId ch)))
       (\<lambda>b. case b of Inl e \<Rightarrow> writeChallengeError e | Inr n \<Rightarrow> examineCode w cfg rq code ch n))"
    have d: "valid cfg T (known ch) (decode input) (\<lambda>_. known ch)"
      by (rule valid_frame [OF runs_decode(1)]) (rule known_reaches)
    have "charges cfg T (known ch) ?rest ?L"
      using charges_bind [OF d plain_decode charges_bump [OF h]] by (simp add: v(3))
    then obtain ms where ms: "runOf cfg T ms (svDb s1) (svDb (snd (?rest s1)))"
      "\<And>r. fst (?rest s1) = Inl r \<Longrightarrow> examined r \<Longrightarrow> list_ex ?L ms"
      using reaches_sane [OF v(1) s] v(2) unfolding charges_def by blast
    obtain ls where ls: "runOf cfg T ls (svDb s) (svDb s1)" using v(1) by (auto simp: reaches_def)
    have e: "Verify2FA w cfg rq input s = ?rest s1" using m Inr by (simp add: Verify2FA_def hbind_def)
    have a: "addressed w rq s = Some ch" by (rule requireChallenge_addressed) (simp add: m Inr)
    show thesis
      by (rule that [OF a, of "ls @ ms"]) (use runOf_append [OF ls ms(1)] ms(2) r e in auto)
  qed
qed

end
