(* ===== verification/OAuth.thy ===== *)
theory OAuth
  imports LoginHttp
begin

text \<open>
  Sign-in with Google: the redirect states, linking, conversion, unlinking and provisioning of
  \<open>auth/repository_oauth.go\<close>, and the endpoints of \<open>auth/oauth_handler.go\<close> on top of them.  The provider
  itself is a parameter (\<open>hGoogle\<close>).  A foreign key to a session or an invitation that has gone takes the state
  along; here such a state stays and is refused where it is used.
\<close>

section \<open>Redirect states\<close>

definition OAuthPurposeLogin :: string where "OAuthPurposeLogin = ''login''"
definition OAuthPurposeLink :: string where "OAuthPurposeLink = ''link''"
definition OAuthPurposeAcceptInvite :: string where "OAuthPurposeAcceptInvite = ''accept_invite''"
definition ProviderGoogle :: string where "ProviderGoogle = ''google''"

definition insertOAuthState :: "oauthState \<Rightarrow> authdb \<Rightarrow> authErr + authdb" where
  "insertOAuthState st db =
     (if osHash st \<in> set (map osHash (oauthStates (side db))) then Inl ErrSql
      else Inr (db\<lparr>side := (side db)\<lparr>oauthStates := oauthStates (side db) @ [st\<lparr>osId := oauthSeq (side db)\<rparr>],
                                     oauthSeq := oauthSeq (side db) + 1\<rparr>\<rparr>))"

definition CreateOAuthState ::
  "gotime \<Rightarrow> string \<Rightarrow> string \<Rightarrow> string \<Rightarrow> string \<Rightarrow> int option \<Rightarrow> int option \<Rightarrow> duration \<Rightarrow> authdb \<Rightarrow>
   (authErr + unit) \<times> authdb" where
  "CreateOAuthState now tok provider purpose verifier uid inviteID ttl db =
     runTx db
       (rbind (insertOAuthState \<lparr>osId = 0, osHash = tok, osVerifier = verifier, osProvider = provider, osPurpose = purpose,
                 osUser = uid, osInvite = inviteID, osSession = None, osVersion = None, osProof = None,
                 osExpires = now + ttl, osConsumed = None\<rparr> db) (\<lambda>db'. Inr ((), db')))"

definition CreateOAuthLinkState ::
  "gotime \<Rightarrow> string \<Rightarrow> string \<Rightarrow> string \<Rightarrow> sessionProof \<Rightarrow> duration \<Rightarrow> authdb \<Rightarrow> (authErr + unit) \<times> authdb" where
  "CreateOAuthLinkState now tok provider verifier sp ttl db =
     runTx db
       (if \<not> (list_ex (\<lambda>s. sId s = spSession sp \<and> sUser s = spUser sp \<and> sessionLive now s) (sessions (idn db)) \<and>
               activeAt (spUser sp) (spVersion sp) db)
        then Inl ErrOAuthLinkInvalid
        else rbind (insertOAuthState \<lparr>osId = 0, osHash = tok, osVerifier = verifier, osProvider = provider,
                 osPurpose = OAuthPurposeLink, osUser = Some (spUser sp), osInvite = None, osSession = Some (spSession sp),
                 osVersion = Some (spVersion sp), osProof = Some now, osExpires = now + ttl, osConsumed = None\<rparr> db)
               (\<lambda>db'. Inr ((), db')))"

definition stateLive :: "gotime \<Rightarrow> oauthState \<Rightarrow> bool" where
  "stateLive now o' = (osConsumed o' = None \<and> now < osExpires o')"

definition ConsumeOAuthState :: "gotime \<Rightarrow> string \<Rightarrow> authdb \<Rightarrow> (authErr + oauthState) \<times> authdb" where
  "ConsumeOAuthState now raw db =
     runTx db
       (if raw = [] then Inl ErrOAuthStateInvalid
        else (case find (\<lambda>o'. osHash o' = raw \<and> stateLive now o') (oauthStates (side db)) of
                None \<Rightarrow> Inl ErrOAuthStateInvalid
              | Some o' \<Rightarrow>
                  Inr (o', db\<lparr>side := (side db)\<lparr>oauthStates :=
                             map (\<lambda>x. if osHash x = raw \<and> stateLive now x then x\<lparr>osConsumed := Some now\<rparr> else x)
                               (oauthStates (side db))\<rparr>\<rparr>)))"

definition SweepOAuthState :: "gotime \<Rightarrow> duration \<Rightarrow> authdb \<Rightarrow> nat \<times> authdb" where
  "SweepOAuthState now retain db =
     (length (filter (\<lambda>o'. osExpires o' < now - retain) (oauthStates (side db))),
      db\<lparr>side := (side db)\<lparr>oauthStates := filter (\<lambda>o'. \<not> osExpires o' < now - retain) (oauthStates (side db))\<rparr>\<rparr>)"

section \<open>Identities\<close>

definition viewOf :: "authdb \<Rightarrow> user \<Rightarrow> userView" where
  "viewOf db u = \<lparr>uvUser = u, uvTOTP = totpEnabled (uId u) db, uvEmail = emailEnabled (uId u) db\<rparr>"

definition UserByIdentity :: "string \<Rightarrow> string \<Rightarrow> authdb \<Rightarrow> authErr + userView" where
  "UserByIdentity provider subject db =
     (case find (\<lambda>li. liProvider li = provider \<and> liSubject li = subject \<and> userById (liUser li) (idn db) \<noteq> None)
             (identities (idn db)) of
        None \<Rightarrow> Inl ErrNoUser
      | Some li \<Rightarrow> rbind (GetUser (liUser li) (idn db)) (\<lambda>u. Inr (viewOf db u)))"

definition UserByEmail :: "string \<Rightarrow> authdb \<Rightarrow> authErr + userView" where
  "UserByEmail email db =
     (case find (\<lambda>u. uEmailNorm u = NormalizeEmail email) (users (idn db)) of
        None \<Rightarrow> Inl ErrNoUser | Some u \<Rightarrow> Inr (viewOf db u))"

definition ListIdentities :: "int \<Rightarrow> authdb \<Rightarrow> linkedIdentity list" where
  "ListIdentities uid db = filter (\<lambda>li. liUser li = uid) (identities (idn db))"

text \<open>\<open>state.UserID == nil || state.SessionID == nil || ... || rawAccess == ""\<close>.\<close>

definition linkProof :: "oauthState \<Rightarrow> string option \<Rightarrow> (int \<times> int \<times> nat \<times> gotime \<times> string) option" where
  "linkProof st rawAccess =
     (case (osUser st, osSession st, osVersion st, osProof st, rawAccess) of
        (Some uid, Some sid, Some v, Some t, Some raw) \<Rightarrow> if raw = [] then None else Some (uid, sid, v, t, raw)
      | _ \<Rightarrow> None)"

definition linkSession :: "gotime \<Rightarrow> int \<Rightarrow> int \<Rightarrow> string \<Rightarrow> authdb \<Rightarrow> bool" where
  "linkSession now uid sid raw db =
     list_ex (\<lambda>s. sId s = sid \<and> sUser s = uid \<and> sAccess s = raw \<and> sessionLive now s) (sessions (idn db))"

definition ValidateOAuthLinkProof ::
  "gotime \<Rightarrow> oauthState \<Rightarrow> string option \<Rightarrow> duration \<Rightarrow> authdb \<Rightarrow> authErr + unit" where
  "ValidateOAuthLinkProof now st rawAccess maxAge db =
     (case linkProof st rawAccess of
        None \<Rightarrow> Inl ErrOAuthLinkInvalid
      | Some (uid, sid, v, t, raw) \<Rightarrow>
          if linkSession now uid sid raw db \<and> activeAt uid v db \<and> now - maxAge < t then Inr () else Inl ErrOAuthLinkInvalid)"

definition LinkIdentity ::
  "gotime \<Rightarrow> oauthState \<Rightarrow> string option \<Rightarrow> providerIdentity \<Rightarrow> duration \<Rightarrow> authdb \<Rightarrow> (authErr + unit) \<times> authdb" where
  "LinkIdentity now st rawAccess pid maxAge db =
     runTx db
       (case linkProof st rawAccess of
          None \<Rightarrow> Inl ErrOAuthLinkInvalid
        | Some (uid, sid, v, t, raw) \<Rightarrow>
            if \<not> (activeAt uid v db \<and> now - maxAge < t) then Inl ErrOAuthLinkInvalid
            else if \<not> linkSession now uid sid raw db then Inl ErrOAuthLinkInvalid
            else rbind (linkIdentity uid pid (idn db)) (\<lambda>st'. Inr ((), setIdn st' db)))"

section \<open>Conversion\<close>

definition loadConvertProof :: "gotime \<Rightarrow> int \<Rightarrow> authdb \<Rightarrow> authErr + int \<times> nat \<times> string option" where
  "loadConvertProof now cid db =
     (case find (\<lambda>c. chId c = cid \<and> chPurpose c = PurposeConvertGoogle \<and> challengeOk now db c) (challenges db) of
        None \<Rightarrow> Inl ErrChallengeInvalid
      | Some c \<Rightarrow>
          (case (userById (chUser c) (idn db), chVersion c) of
             (Some u, Some v) \<Rightarrow> Inr (chUser c, v, uPwHash u)
           | _ \<Rightarrow> Inl ErrChallengeInvalid))"

definition lockConvertUserTx :: "int \<Rightarrow> nat \<Rightarrow> string \<Rightarrow> authdb \<Rightarrow> authErr + unit" where
  "lockConvertUserTx uid v provedHash db =
     (case userById uid (idn db) of
        None \<Rightarrow> Inl ErrChallengeInvalid
      | Some u \<Rightarrow>
          if uStatus u \<noteq> StatusActive \<or> uTokenVersion u \<noteq> v \<or> uPwHash u \<noteq> Some provedHash then Inl ErrChallengeInvalid
          else Inr ())"

definition consumeConvertChallengeTx ::
  "gotime \<Rightarrow> int \<Rightarrow> int \<Rightarrow> nat \<Rightarrow> authdb \<Rightarrow> authErr + providerIdentity \<times> authdb" where
  "consumeConvertChallengeTx now cid uid v db =
     (case find (\<lambda>c. chId c = cid \<and> chUser c = uid \<and> chPurpose c = PurposeConvertGoogle \<and> chVersion c = Some v \<and>
                     challengeLive now c) (challenges db) of
        None \<Rightarrow> Inl ErrChallengeInvalid
      | Some c \<Rightarrow>
          (case chOauth c of
             None \<Rightarrow> Inl ErrChallengeInvalid
           | Some pid \<Rightarrow>
               if piProvider pid = [] \<or> piSubject pid = [] then Inl ErrChallengeInvalid
               else Inr (pid, updateChallenge cid (\<lambda>c. c\<lparr>chConsumed := Some now\<rparr>) db)))"

definition retirePasswordTx :: "int \<Rightarrow> nat \<Rightarrow> string \<Rightarrow> identity \<Rightarrow> authErr + user \<times> identity" where
  "retirePasswordTx uid v h st =
     (let hit = (\<lambda>u. uId u = uid \<and> uStatus u = StatusActive \<and> uTokenVersion u = v \<and> uPwHash u = Some h)
      in if \<not> list_ex hit (users st) then Inl ErrChallengeInvalid
         else (case writeUsers hit (\<lambda>u. u\<lparr>uPwHash := None, uTokenVersion := uTokenVersion u + 1\<rparr>) st of
                 Inl c \<Rightarrow> Inl ErrSql
               | Inr st' \<Rightarrow> (case userById uid st' of None \<Rightarrow> Inl ErrSql | Some u \<Rightarrow> Inr (u, st'))))"

text \<open>The transaction of \<open>ConvertToProvider\<close>, after bcrypt compared \<open>provedHash\<close> with the password.\<close>

definition convertTx ::
  "gotime \<Rightarrow> int \<Rightarrow> int \<Rightarrow> nat \<Rightarrow> string \<Rightarrow> authdb \<Rightarrow> (authErr + userView \<times> string) \<times> authdb" where
  "convertTx now cid uid v provedHash db =
     runTx db
       (rbind (lockConvertUserTx uid v provedHash db) (\<lambda>_.
        rbind (consumeConvertChallengeTx now cid uid v db) (\<lambda>(pid, db1).
        rbind (linkIdentity uid pid (idn db1)) (\<lambda>st1.
        rbind (retirePasswordTx uid v provedHash st1) (\<lambda>(u, st2).
          let db2 = setIdn (revokeWhere (\<lambda>s. sUser s = uid) ReasonPasswordChanged now st2) db1
          in Inr ((viewOf db2 u, piEmail pid), db2))))))"

text \<open>
  \<open>ConvertToProvider\<close>: bcrypt runs between the read and the transaction, outside every lock.
\<close>

definition ConvertToProvider :: "world \<Rightarrow> handlerCfg \<Rightarrow> int \<Rightarrow> string \<Rightarrow> (authErr + userView \<times> string) act" where
  "ConvertToProvider w cfg cid password =
     hbind (query w (\<lambda>now. loadConvertProof now cid)) (\<lambda>r.
       case r of
         Inl e \<Rightarrow> ret (Inl e)
       | Inr (uid, v, provedHash) \<Rightarrow>
           (case provedHash of
              None \<Rightarrow> ret (Inl ErrBadCredentials)
            | Some h \<Rightarrow>
                if \<not> hVerify cfg h password then ret (Inl ErrBadCredentials)
                else call w (\<lambda>now. convertTx now cid uid v h)))"

definition UnlinkIdentity ::
  "(string \<Rightarrow> string \<Rightarrow> bool) \<Rightarrow> gotime \<Rightarrow> sessionProof \<Rightarrow> string \<Rightarrow> string \<Rightarrow> authdb \<Rightarrow> (authErr + unit) \<times> authdb" where
  "UnlinkIdentity verify now sp provider password db =
     runTx db
       (case userById (spUser sp) (idn db) of
          None \<Rightarrow> Inl ErrNoUser
        | Some u \<Rightarrow>
            if uStatus u \<noteq> StatusActive \<or> uTokenVersion u \<noteq> spVersion sp then Inl ErrSessionInvalid
            else rbind (requireSession now sp db) (\<lambda>_.
              if ListIdentities (spUser sp) db = [] then Inl ErrIdentityMissing
              else (case uPwHash u of
                      None \<Rightarrow> Inl ErrLastCredential
                    | Some h \<Rightarrow>
                        if \<not> verify h password then Inl ErrBadCredentials
                        else if \<not> list_ex (\<lambda>li. liUser li = spUser sp \<and> liProvider li = provider) (identities (idn db))
                        then Inl ErrIdentityMissing
                        else rbind (bumpEpoch (spUser sp) (spVersion sp)
                                     ((idn db)\<lparr>identities := filter (\<lambda>li. \<not> (liUser li = spUser sp \<and> liProvider li = provider))
                                                               (identities (idn db))\<rparr>)) (\<lambda>st.
                             Inr ((), setIdn (revokeWhere (\<lambda>s. sUser s = spUser sp \<and> sId s \<noteq> spSession sp)
                                                ReasonPasswordChanged now st) db)))))"

section \<open>Provisioning\<close>

fun takeRunes :: "nat \<Rightarrow> string \<Rightarrow> string" where
  "takeRunes n [] = []"
| "takeRunes n (c # cs) = (if continues c then c # takeRunes n cs else if n = 0 then [] else c # takeRunes (n - 1) cs)"

definition capProfileName :: "string \<Rightarrow> string" where
  "capProfileName raw =
     (let name = goTrimSpace raw
      in if maxProfileNameRunes < runeCount name then takeRunes (nat maxProfileNameRunes) name else name)"

definition ProvisionOAuthUser ::
  "gotime \<Rightarrow> string \<Rightarrow> string \<Rightarrow> providerIdentity \<Rightarrow> role \<Rightarrow> authdb \<Rightarrow> (authErr + userView) \<times> authdb" where
  "ProvisionOAuthUser now email name pid r db =
     runTx db
       (if r \<noteq> RoleEditor \<and> r \<noteq> RoleViewer then Inl ErrInvalidRole
        else (case insertUser (newUser email (capProfileName name) r None (Some now)) (idn db) of
                Inl c \<Rightarrow> Inl (if c = EmailNormUniq then ErrEmailTaken else ErrSql)
              | Inr (u, st) \<Rightarrow>
                  rbind (linkIdentity (uId u) pid st) (\<lambda>st'. let db' = setIdn st' db in Inr (viewOf db' u, db'))))"

section \<open>Starting\<close>

definition oauthStateTTL :: duration where "oauthStateTTL = 10 * minute"
definition oauthLinkProofTTL :: duration where "oauthLinkProofTTL = 5 * minute"
definition oauthKeyPrefix :: string where "oauthKeyPrefix = ''oauth:''"

text \<open>\<open>oauthEnabled\<close>, with the provider it found.\<close>

definition oauthEnabled :: "handlerCfg \<Rightarrow> googleProvider option" where
  "oauthEnabled cfg = (case hGoogle cfg of None \<Rightarrow> None | Some g \<Rightarrow> if goEnabled g then Some g else None)"

definition errOAuthDisabled :: reply where
  "errOAuthDisabled = errReply 501 ''oauth_disabled''"

text \<open>
  \<open>wPkce w = None\<close> stands for a failure of \<open>NewPKCE\<close>.  The state token is drawn inside the two repository calls,
  before they write anything, so its failure is the failure of the call.
\<close>

definition oauthStartTarget ::
  "world \<Rightarrow> googleProvider \<Rightarrow> string \<Rightarrow> int option \<Rightarrow> sessionProof option \<Rightarrow> duration \<Rightarrow> (authErr + string \<times> string) act" where
  "oauthStartTarget w g purpose inviteID proof ttl =
     (case wPkce w of
        None \<Rightarrow> ret (Inl ErrRandom)
      | Some (verifier, pkceChallenge) \<Rightarrow>
          hbind (case proof of
                   None \<Rightarrow> call w (\<lambda>now. CreateOAuthState now (wToken w) ProviderGoogle purpose verifier None inviteID ttl)
                 | Some sp \<Rightarrow> call w (\<lambda>now. CreateOAuthLinkState now (wToken w) ProviderGoogle verifier sp ttl)) (\<lambda>r.
            ret (case r of Inl e \<Rightarrow> Inl e
                 | Inr _ \<Rightarrow>
                     (case goAuthURL g (wToken w) pkceChallenge of
                        None \<Rightarrow> Inl ErrRandom
                      | Some target \<Rightarrow>
                          if take 8 target = ''https://'' then Inr (wToken w, target) else Inl ErrRandom))))"

text \<open>A slot of the per-address budget that is charged on every way out: \<open>defer h.oauthIP.CommitFail(key)\<close>.\<close>

definition afterwards :: "'a act \<Rightarrow> 'b act \<Rightarrow> 'a act" where
  "afterwards m d s = (case m s of (r, s') \<Rightarrow> (r, snd (d s')))"

definition chargedStart :: "world \<Rightarrow> authRequest \<Rightarrow> unit act \<Rightarrow> unit act" where
  "chargedStart w rq body =
     (let key = oauthKeyPrefix @ arIP rq
      in hbind (beginSlot w OAuthIP key) (\<lambda>(until, ok).
           if \<not> ok then writeRateLimited
           else afterwards body (commitFail w OAuthIP key)))"

definition OAuthStart :: "world \<Rightarrow> handlerCfg \<Rightarrow> authRequest \<Rightarrow> string \<Rightarrow> unit act" where
  "OAuthStart w cfg rq q =
     (case oauthEnabled cfg of
        None \<Rightarrow> answer errOAuthDisabled
      | Some g \<Rightarrow>
          chargedStart w rq
            (let purpose = (if q = [] then OAuthPurposeLogin else q)
             in if purpose = OAuthPurposeLink then answer (errReply 405 ''oauth_link_step_up_required'')
                else if purpose = OAuthPurposeAcceptInvite then answer (errReply 405 ''oauth_invite_post_required'')
                else if purpose \<noteq> OAuthPurposeLogin then answer (errReply 400 ''invalid_purpose'')
                else hbind (oauthStartTarget w g purpose None None oauthStateTTL) (\<lambda>r.
                     hbind (orInternal r) (\<lambda>(state, target).
                     hthen (cookie (SetOAuthState state oauthStateTTL))
                           (answer \<lparr>rpStatus = 302, rpBody = Redirect target\<rparr>)))))"

definition OAuthInviteStart :: "world \<Rightarrow> handlerCfg \<Rightarrow> authRequest \<Rightarrow> string option \<Rightarrow> unit act" where
  "OAuthInviteStart w cfg rq input =
     (case oauthEnabled cfg of
        None \<Rightarrow> answer errOAuthDisabled
      | Some g \<Rightarrow>
          hbind (decode input) (\<lambda>invite.
            chargedStart w rq
              (hbind (query w (\<lambda>now db. LookupInvite now invite (idn db))) (\<lambda>ir.
                 case ir of
                   Inl e \<Rightarrow> answer (errReply 404 ''invite_invalid'')
                 | Inr iv \<Rightarrow>
                     hbind (oauthStartTarget w g OAuthPurposeAcceptInvite (Some (iId iv)) None oauthStateTTL) (\<lambda>r.
                     hbind (orInternal r) (\<lambda>(state, target).
                     hthen (cookie (SetOAuthState state oauthStateTTL)) (answer (okReply (RedirectURL target)))))))))"

text \<open>\<open>None\<close>: the factor was spent; otherwise the answer to give.\<close>

definition checkOAuthLinkSecondFactor :: "world \<Rightarrow> handlerCfg \<Rightarrow> userView \<Rightarrow> string \<Rightarrow> reply option act" where
  "checkOAuthLinkSecondFactor w cfg u code =
     hbind (withStepUp w cfg (uId (uvUser u)) u code (\<lambda>proof.
              hbind (call w (\<lambda>now. ConsumeSecondFactor now (uId (uvUser u)) proof)) (\<lambda>r.
                case r of
                  Inl e \<Rightarrow> ret (Some ErrBadCredentials)
                | Inr _ \<Rightarrow> hthen (notifyIfRecovery w cfg u proof) (ret None)))) (\<lambda>r.
       ret (case r of Inl reply \<Rightarrow> Some reply
            | Inr (proof, Some e) \<Rightarrow> Some (errReply 401 ''invalid_code'')
            | Inr (proof, None) \<Rightarrow> None))"

definition OAuthLinkStart :: "world \<Rightarrow> handlerCfg \<Rightarrow> authRequest \<Rightarrow> principal \<Rightarrow> (string \<times> string) option \<Rightarrow> unit act" where
  "OAuthLinkStart w cfg rq p input =
     (case oauthEnabled cfg of
        None \<Rightarrow> answer errOAuthDisabled
      | Some g \<Rightarrow>
          hbind (decode input) (\<lambda>(password, code).
          hbind (beginStepUpPassword w (prUser p)) (\<lambda>key.
          hbind (query w (\<lambda>now db. VerifyUserPasswordEpoch (hVerify cfg) (prUser p) password (idn db))) (\<lambda>vr.
            case vr of
              Inl e \<Rightarrow>
                if e = ErrBadCredentials \<or> e = ErrPasswordMissing
                then hthen (commitFail w StepUpPasswordUser key) (answer (errReply 401 ''invalid_credentials''))
                else hthen (releaseKey w StepUpPasswordUser key) (answer internalError)
            | Inr v \<Rightarrow>
                hthen (commitSuccess w StepUpPasswordUser key)
               (hbind (query w (\<lambda>now. loadUser (prUser p))) (\<lambda>ur.
                hbind (orInternal ur) (\<lambda>u.
                hbind (if HasSecondFactor u then checkOAuthLinkSecondFactor w cfg u code else ret None) (\<lambda>refusal.
                  case refusal of
                    Some reply \<Rightarrow> answer reply
                  | None \<Rightarrow>
                      chargedStart w rq
                        (hbind (oauthStartTarget w g OAuthPurposeLink None (Some (proofOf p v)) oauthLinkProofTTL) (\<lambda>r.
                           if r = Inl ErrOAuthLinkInvalid then answer (errReply 401 ''invalid_credentials'')
                           else hbind (orInternal r) (\<lambda>(state, target).
                                hthen (cookie (SetOAuthState state oauthLinkProofTTL))
                                      (answer (okReply (RedirectURL target))))))))))))))"

section \<open>The callback\<close>

text \<open>\<open>url.Values{key: {value}}.Encode()\<close> for the markers used here, which need no escaping.\<close>

definition redirectToSPA :: "handlerCfg \<Rightarrow> string \<Rightarrow> string \<Rightarrow> 'a act" where
  "redirectToSPA cfg key value =
     answer \<lparr>rpStatus = 302, rpBody = Redirect (hBaseURL cfg @ ''/?'' @ key @ ''='' @ value)\<rparr>"

definition oauthRedirect :: "handlerCfg \<Rightarrow> string \<Rightarrow> 'a act" where
  "oauthRedirect cfg outcome = redirectToSPA cfg ''oauth'' outcome"

definition oauthRedirectError :: "handlerCfg \<Rightarrow> string \<Rightarrow> 'a act" where
  "oauthRedirectError cfg code = redirectToSPA cfg ''oauth_error'' code"

definition oauthDomainAllowed :: "handlerCfg \<Rightarrow> string \<Rightarrow> bool" where
  "oauthDomainAllowed cfg email = (case hPolicy cfg of None \<Rightarrow> True | Some (up, row) \<Rightarrow> GoogleAllows up row email)"

definition oauthBeginChallenge :: "world \<Rightarrow> handlerCfg \<Rightarrow> newChallenge \<Rightarrow> unit act" where
  "oauthBeginChallenge w cfg nc =
     hbind (call w (\<lambda>now. CreateChallenge now (wToken w) nc)) (\<lambda>r.
       case r of Inl e \<Rightarrow> oauthRedirectError cfg ''server_error''
       | Inr i \<Rightarrow> cookie (SetPreAuth (wToken w) challengeTTL))"

definition oauthComplete :: "world \<Rightarrow> handlerCfg \<Rightarrow> authRequest \<Rightarrow> userView \<Rightarrow> unit act" where
  "oauthComplete w cfg rq u =
     (case secondFactorPurpose cfg u of
        Some purpose \<Rightarrow>
          hthen (oauthBeginChallenge w cfg \<lparr>ncUser = uId (uvUser u), ncPurpose = purpose,
                   ncVersion = uTokenVersion (uvUser u), ncTTL = challengeTTL, ncMailbox = False, ncOauth = None\<rparr>)
                (oauthRedirect cfg ''two_factor'')
      | None \<Rightarrow>
          hbind (issueSession w cfg rq u) (\<lambda>r.
            case r of
              Inl e \<Rightarrow> oauthRedirectError cfg ''server_error''
            | Inr (issue, sid) \<Rightarrow> hthen (cookie (SetSession issue)) (oauthRedirect cfg ''signed_in'')))"

definition identityOf :: "googleProfile \<Rightarrow> providerIdentity" where
  "identityOf info = \<lparr>piProvider = ProviderGoogle, piSubject = gpSubject info, piEmail = gpEmail info\<rparr>"

definition oauthAutoProvision :: "world \<Rightarrow> handlerCfg \<Rightarrow> authRequest \<Rightarrow> googleProfile \<Rightarrow> unit act" where
  "oauthAutoProvision w cfg rq info =
     (case hPolicy cfg of
        None \<Rightarrow> oauthRedirectError cfg ''not_linked''
      | Some (up, row) \<Rightarrow>
          (case GoogleProvisioning up row of
             (enabled, r) \<Rightarrow>
               if \<not> enabled \<or> (r \<noteq> RoleEditor \<and> r \<noteq> RoleViewer) then oauthRedirectError cfg ''not_linked''
               else hbind (call w (\<lambda>now. ProvisionOAuthUser now (gpEmail info) (gpName info) (identityOf info) r)) (\<lambda>pr.
                    case pr of Inl e \<Rightarrow> oauthRedirectError cfg ''not_linked'' | Inr u \<Rightarrow> oauthComplete w cfg rq u)))"

text \<open>An unknown subject whose address belongs to an account with a password may convert it.\<close>

definition oauthOfferConversion :: "world \<Rightarrow> handlerCfg \<Rightarrow> authRequest \<Rightarrow> googleProfile \<Rightarrow> unit act" where
  "oauthOfferConversion w cfg rq info =
     (if \<not> gpVerified info then oauthRedirectError cfg ''not_linked''
      else if \<not> oauthDomainAllowed cfg (gpEmail info) then oauthRedirectError cfg ''not_linked''
      else hbind (query w (\<lambda>now. UserByEmail (gpEmail info))) (\<lambda>r.
        case r of
          Inl e \<Rightarrow> if e = ErrNoUser then oauthAutoProvision w cfg rq info else oauthRedirectError cfg ''not_linked''
        | Inr c \<Rightarrow>
            if uStatus (uvUser c) \<noteq> StatusActive then oauthRedirectError cfg ''not_linked''
            else if uPwHash (uvUser c) = None then oauthRedirectError cfg ''not_linked''
            else hthen (oauthBeginChallenge w cfg \<lparr>ncUser = uId (uvUser c), ncPurpose = PurposeConvertGoogle,
                          ncVersion = uTokenVersion (uvUser c), ncTTL = challengeTTL, ncMailbox = False,
                          ncOauth = Some (identityOf info)\<rparr>)
                       (oauthRedirect cfg ''convert'')))"

text \<open>\<open>TouchIdentity\<close> writes only the time of the last sign-in, which no decision reads.\<close>

definition TouchIdentity :: "world \<Rightarrow> unit act" where
  "TouchIdentity w = hthen (call w (\<lambda>now db. (Inr (), db) :: (authErr + unit) \<times> authdb)) (ret ())"

definition oauthFinishLogin :: "world \<Rightarrow> handlerCfg \<Rightarrow> authRequest \<Rightarrow> googleProfile \<Rightarrow> unit act" where
  "oauthFinishLogin w cfg rq info =
     hbind (query w (\<lambda>now. UserByIdentity ProviderGoogle (gpSubject info))) (\<lambda>r.
       case r of
         Inr u \<Rightarrow>
           if uStatus (uvUser u) \<noteq> StatusActive then oauthRedirectError cfg ''not_linked''
           else hthen (TouchIdentity w) (oauthComplete w cfg rq u)
       | Inl e \<Rightarrow>
           if e \<noteq> ErrNoUser then oauthRedirectError cfg ''server_error'' else oauthOfferConversion w cfg rq info)"

definition oauthFinishLink :: "world \<Rightarrow> handlerCfg \<Rightarrow> authRequest \<Rightarrow> oauthState \<Rightarrow> googleProfile \<Rightarrow> unit act" where
  "oauthFinishLink w cfg rq st info =
     (if osUser st = None then oauthRedirectError cfg ''state_invalid''
      else hbind (call w (\<lambda>now. LinkIdentity now st (arAccess rq) (identityOf info) oauthLinkProofTTL)) (\<lambda>r.
        case r of
          Inr _ \<Rightarrow> oauthRedirect cfg ''linked''
        | Inl e \<Rightarrow>
            if e = ErrOAuthLinkInvalid then oauthRedirectError cfg ''state_invalid''
            else if e = ErrIdentityTaken \<or> e = ErrIdentityExists then oauthRedirectError cfg ''already_linked''
            else oauthRedirectError cfg ''server_error''))"

definition oauthFinishInvite :: "world \<Rightarrow> handlerCfg \<Rightarrow> authRequest \<Rightarrow> oauthState \<Rightarrow> googleProfile \<Rightarrow> unit act" where
  "oauthFinishInvite w cfg rq st info =
     (case osInvite st of
        None \<Rightarrow> oauthRedirectError cfg ''state_invalid''
      | Some i \<Rightarrow>
          if \<not> gpVerified info then oauthRedirectError cfg ''email_unverified''
          else let name = (if goTrimSpace (gpName info) = [] then gpEmail info else goTrimSpace (gpName info))
               in hbind (onIdentity w (\<lambda>now. AcceptInviteWithIdentityByID now i name (identityOf info))) (\<lambda>r.
                    case r of
                      Inr u \<Rightarrow> oauthComplete w cfg rq u
                    | Inl e \<Rightarrow>
                        if e = ErrInviteEmailMismatch then oauthRedirectError cfg ''invite_email_mismatch''
                        else if e = ErrInviteInvalid then oauthRedirectError cfg ''invite_invalid''
                        else if e = ErrIdentityTaken then oauthRedirectError cfg ''already_linked''
                        else if e = ErrEmailTaken then oauthRedirectError cfg ''email_taken''
                        else oauthRedirectError cfg ''server_error''))"

record callbackQuery =
  cbError :: string
  cbState :: string
  cbCode :: string

definition oauthCheckLink :: "world \<Rightarrow> handlerCfg \<Rightarrow> authRequest \<Rightarrow> oauthState \<Rightarrow> unit act" where
  "oauthCheckLink w cfg rq st =
     (if osPurpose st \<noteq> OAuthPurposeLink then ret ()
      else hbind (query w (\<lambda>now. ValidateOAuthLinkProof now st (arAccess rq) oauthLinkProofTTL)) (\<lambda>r.
        case r of
          Inr _ \<Rightarrow> ret ()
        | Inl e \<Rightarrow> oauthRedirectError cfg (if e = ErrOAuthLinkInvalid then ''state_invalid'' else ''server_error'')))"

definition oauthFinish :: "world \<Rightarrow> handlerCfg \<Rightarrow> authRequest \<Rightarrow> oauthState \<Rightarrow> googleProfile \<Rightarrow> unit act" where
  "oauthFinish w cfg rq st info =
     (if osPurpose st = OAuthPurposeLink then oauthFinishLink w cfg rq st info
      else if osPurpose st = OAuthPurposeAcceptInvite then oauthFinishInvite w cfg rq st info
      else oauthFinishLogin w cfg rq info)"

text \<open>The state must be the one in the cookie; a missing cookie is the empty string.\<close>

definition OAuthCallback :: "world \<Rightarrow> handlerCfg \<Rightarrow> authRequest \<Rightarrow> callbackQuery \<Rightarrow> unit act" where
  "OAuthCallback w cfg rq q =
     hthen (cookie ClearOAuthState)
    (case oauthEnabled cfg of
       None \<Rightarrow> oauthRedirectError cfg ''oauth_disabled''
     | Some g \<Rightarrow>
         if cbError q \<noteq> []
         then oauthRedirectError cfg (if cbError q = ''access_denied'' then ''cancelled'' else ''provider_error'')
         else if cbState q = [] \<or> arOAuth rq \<noteq> Some (cbState q) then oauthRedirectError cfg ''state_invalid''
         else hbind (call w (\<lambda>now. ConsumeOAuthState now (cbState q))) (\<lambda>r.
           case r of
             Inl e \<Rightarrow> oauthRedirectError cfg ''state_invalid''
           | Inr st \<Rightarrow>
               if cbCode q = [] then oauthRedirectError cfg ''state_invalid''
               else hthen (oauthCheckLink w cfg rq st)
                    (case goExchange g (cbCode q) (osVerifier st) of
                       None \<Rightarrow> oauthRedirectError cfg ''provider_error''
                     | Some token \<Rightarrow>
                         (case goUserInfo g token of
                            None \<Rightarrow> oauthRedirectError cfg ''provider_error''
                          | Some info \<Rightarrow> oauthFinish w cfg rq st info))))"

section \<open>Conversion and unlinking\<close>

definition OAuthConvert :: "world \<Rightarrow> handlerCfg \<Rightarrow> authRequest \<Rightarrow> string option \<Rightarrow> unit act" where
  "OAuthConvert w cfg rq input =
     (case oauthEnabled cfg of
        None \<Rightarrow> answer errOAuthDisabled
      | Some g \<Rightarrow>
          hbind (requireChallenge w rq [PurposeConvertGoogle]) (\<lambda>ch.
          hbind (decode input) (\<lambda>password.
          hbind (call w (\<lambda>now. BumpChallengeAttempt now (chId ch))) (\<lambda>b.
            case b of
              Inl e \<Rightarrow> writeChallengeError e
            | Inr n \<Rightarrow>
                hbind (ConvertToProvider w cfg (chId ch) password) (\<lambda>r.
                  case r of
                    Inl e \<Rightarrow>
                      if e = ErrChallengeInvalid then writeChallengeError e
                      else if e = ErrBadCredentials \<or> e = ErrPasswordMissing then answer invalidCredentials
                      else if e = ErrIdentityTaken then answer (errReply 409 ''oauth_already_linked'')
                      else if e = ErrIdentityExists then answer (errReply 409 ''already_converted'')
                      else answer internalError
                  | Inr (u, googleEmail) \<Rightarrow>
                      hthen (cookie ClearPreAuth)
                     (hthen (enqueueMail w cfg ''account_converted'' [uEmail (uvUser u), googleEmail])
                            (completeLogin w cfg rq u False)))))))"

definition OAuthUnlink :: "world \<Rightarrow> handlerCfg \<Rightarrow> principal \<Rightarrow> string option \<Rightarrow> unit act" where
  "OAuthUnlink w cfg p input =
     hbind (decode input) (\<lambda>password.
     hbind (query w (\<lambda>now. loadUser (prUser p))) (\<lambda>ur.
     hbind (orInternal ur) (\<lambda>u.
     hbind (beginStepUpPassword w (prUser p)) (\<lambda>key.
     hbind (call w (\<lambda>now. UnlinkIdentity (hVerify cfg) now (proofOf p (uTokenVersion (uvUser u))) ProviderGoogle password)) (\<lambda>r.
       case r of
         Inr _ \<Rightarrow> hthen (commitSuccess w StepUpPasswordUser key) (answer noContent)
       | Inl e \<Rightarrow>
           if e = ErrPasswordMissing \<or> e = ErrLastCredential
           then hthen (releaseKey w StepUpPasswordUser key) (answer (errReply 409 ''password_required''))
           else if e = ErrBadCredentials
           then hthen (commitFail w StepUpPasswordUser key) (answer (errReply 401 ''invalid_credentials''))
           else if e = ErrIdentityMissing
           then hthen (commitSuccess w StepUpPasswordUser key) (answer (errReply 404 ''not_linked''))
           else if e = ErrSessionInvalid
           then hthen (releaseKey w StepUpPasswordUser key) writeSessionInvalid
           else hthen (releaseKey w StepUpPasswordUser key) (answer internalError))))))"

definition ListIdentitiesHandler :: "world \<Rightarrow> principal \<Rightarrow> unit act" where
  "ListIdentitiesHandler w p =
     hbind (query w (\<lambda>now db. Inr (ListIdentities (prUser p) db))) (\<lambda>r.
     hbind (orInternal r) (\<lambda>ls. answer (okReply (Identities ls))))"

end
