(* ===== verification/EmailChange.thy ===== *)
theory EmailChange
  imports LoginHttp
begin

text \<open>
  Moving an account to a new e-mail address: \<open>auth/repository_email_change.go\<close> and
  \<open>auth/email_change_handler.go\<close>.  A request is a row that only the link mailed to the new address can finish.
  Tokens are named by their digests.
\<close>

section \<open>Repository\<close>

text \<open>What the transaction reads under the row lock of the account, and what it refuses.\<close>

definition emailMoveAllowed :: "int \<Rightarrow> string \<Rightarrow> authdb \<Rightarrow> authErr + user" where
  "emailMoveAllowed uid norm db =
     (case userById uid (idn db) of
        None \<Rightarrow> Inl ErrSql
      | Some u \<Rightarrow>
          if uStatus u \<noteq> StatusActive then Inl ErrEmailChangeInvalid
          else if norm = uEmailNorm u then Inl ErrEmailUnchanged
          else if list_ex (\<lambda>v. uEmailNorm v = norm) (users (idn db)) then Inl ErrEmailTaken
          else Inr u)"

definition supersedeMoves :: "gotime \<Rightarrow> int \<Rightarrow> emailMove list \<Rightarrow> emailMove list" where
  "supersedeMoves now uid ms = map (\<lambda>m. if mvUser m = uid \<and> mvConsumed m = None then m\<lparr>mvConsumed := Some now\<rparr> else m) ms"

definition insertEmailMove :: "emailMove \<Rightarrow> authdb \<Rightarrow> authErr + authdb" where
  "insertEmailMove m db =
     (if mvToken m \<in> set (map mvToken (emailMoves (side db))) then Inl ErrSql
      else Inr (db\<lparr>side := (side db)\<lparr>emailMoves := emailMoves (side db) @ [m\<lparr>mvId := emailMoveSeq (side db)\<rparr>],
                                     emailMoveSeq := emailMoveSeq (side db) + 1\<rparr>\<rparr>))"

text \<open>\<open>notice\<close> is built from the address the transaction read.\<close>

definition RequestEmailChange ::
  "gotime \<Rightarrow> string \<Rightarrow> string \<Rightarrow> int \<Rightarrow> int \<Rightarrow> string \<Rightarrow> duration \<Rightarrow> bool \<Rightarrow> string \<Rightarrow> (string \<Rightarrow> string) \<Rightarrow> authdb \<Rightarrow>
   (authErr + string \<times> gotime) \<times> authdb" where
  "RequestEmailChange now raw digest uid sid newEmail ttl outboxOk confirm notice db =
     runTx db
       (rbind (emailMoveAllowed uid (NormalizeEmail newEmail) db) (\<lambda>u.
        rbind (insertEmailMove \<lparr>mvId = 0, mvUser = uid, mvEmail = newEmail, mvNorm = NormalizeEmail newEmail, mvToken = digest,
                  mvVersion = uTokenVersion u, mvSession = nullZero sid, mvExpires = now + ttl, mvConsumed = None\<rparr>
                (db\<lparr>side := (side db)\<lparr>emailMoves := supersedeMoves now uid (emailMoves (side db))\<rparr>\<rparr>)) (\<lambda>db1.
        rbind (enqueueDraft outboxOk (Some confirm) raw db1) (\<lambda>db2.
        rbind (enqueueDraft outboxOk (Some (notice (uEmail u))) [] db2) (\<lambda>db3.
          Inr ((newEmail, now + ttl), db3))))))"

definition lockEmailChangeTargetTx :: "int \<Rightarrow> nat \<Rightarrow> authdb \<Rightarrow> authErr + unit" where
  "lockEmailChangeTargetTx uid rowVersion db =
     (case userById uid (idn db) of
        None \<Rightarrow> Inl ErrSql
      | Some u \<Rightarrow> if uTokenVersion u \<noteq> rowVersion \<or> uStatus u \<noteq> StatusActive then Inl ErrEmailChangeInvalid else Inr ())"

text \<open>Deleting a session sets \<open>session_id\<close> to NULL, so a session that has gone no longer restricts the request.\<close>

definition requireLiveEmailChangeSessionTx :: "int option \<Rightarrow> authdb \<Rightarrow> authErr + unit" where
  "requireLiveEmailChangeSessionTx sid db =
     (case sid of
        None \<Rightarrow> Inr ()
      | Some i \<Rightarrow>
          (case find (\<lambda>s. sId s = i) (sessions (idn db)) of
             None \<Rightarrow> Inr ()
           | Some s \<Rightarrow> if sRevoked s = None then Inr () else Inl ErrEmailChangeInvalid))"

definition moveLive :: "gotime \<Rightarrow> emailMove \<Rightarrow> bool" where
  "moveLive now m = (mvConsumed m = None \<and> now < mvExpires m)"

definition loadLiveEmailChangeTx :: "gotime \<Rightarrow> string \<Rightarrow> authdb \<Rightarrow> authErr + emailMove" where
  "loadLiveEmailChangeTx now digest db =
     (case find (\<lambda>m. mvToken m = digest \<and> moveLive now m) (emailMoves (side db)) of
        None \<Rightarrow> Inl ErrEmailChangeInvalid
      | Some m \<Rightarrow>
          rbind (lockEmailChangeTargetTx (mvUser m) (mvVersion m) db) (\<lambda>_.
          rbind (requireLiveEmailChangeSessionTx (mvSession m) db) (\<lambda>_. Inr m)))"

definition moveAddress :: "gotime \<Rightarrow> string \<Rightarrow> string \<Rightarrow> user \<Rightarrow> user" where
  "moveAddress now email norm u =
     u\<lparr>uEmail := email, uEmailNorm := norm, uVerifiedAt := Some now, uTokenVersion := uTokenVersion u + 1\<rparr>"

definition applyEmailMove :: "gotime \<Rightarrow> emailMove \<Rightarrow> authdb \<Rightarrow> authErr + user \<times> authdb" where
  "applyEmailMove now m db =
     (case writeUsers (\<lambda>u. uId u = mvUser m) (moveAddress now (mvEmail m) (mvNorm m)) (idn db) of
        Inl c \<Rightarrow> Inl (if c = EmailNormUniq then ErrEmailTaken else ErrSql)
      | Inr st \<Rightarrow>
          (case userById (mvUser m) st of
             None \<Rightarrow> Inl ErrSql
           | Some u \<Rightarrow>
               Inr (u, db\<lparr>idn := revokeWhere (\<lambda>s. sUser s = mvUser m) ReasonEmailChanged now st,
                          side := (side db)\<lparr>emailMoves := map (\<lambda>x. if mvId x = mvId m then x\<lparr>mvConsumed := Some now\<rparr> else x)
                                              (emailMoves (side db))\<rparr>\<rparr>)))"

definition ConsumeEmailChange :: "gotime \<Rightarrow> string \<Rightarrow> authdb \<Rightarrow> (authErr + user) \<times> authdb" where
  "ConsumeEmailChange now digest db =
     runTx db (rbind (loadLiveEmailChangeTx now digest db) (\<lambda>m. applyEmailMove now m db))"

definition PendingEmailChangeFor :: "gotime \<Rightarrow> int \<Rightarrow> authdb \<Rightarrow> (string \<times> gotime) option" where
  "PendingEmailChangeFor now uid db =
     (case find (\<lambda>m. mvUser m = uid \<and> moveLive now m) (emailMoves (side db)) of
        None \<Rightarrow> None | Some m \<Rightarrow> Some (mvEmail m, mvExpires m))"

definition CancelEmailChange :: "gotime \<Rightarrow> int \<Rightarrow> authdb \<Rightarrow> authdb" where
  "CancelEmailChange now uid db = db\<lparr>side := (side db)\<lparr>emailMoves := supersedeMoves now uid (emailMoves (side db))\<rparr>\<rparr>"

section \<open>Handlers\<close>

definition AuditEmailChanged :: string where "AuditEmailChanged = ''user.email_changed''"

definition RequestEmailChangeHandler ::
  "world \<Rightarrow> handlerCfg \<Rightarrow> principal \<Rightarrow> (string \<times> string) option \<Rightarrow> unit act" where
  "RequestEmailChangeHandler w cfg p input =
     hbind (decode input) (\<lambda>(newEmail, password).
       let email = goTrimSpace newEmail
       in hthen (requireEmail email)
         (hbind (beginStepUpPassword w (prUser p)) (\<lambda>key.
          hbind (query w (\<lambda>now db. VerifyUserPasswordEpoch (hVerify cfg) (prUser p) password (idn db))) (\<lambda>vr.
            case vr of
              Inl e \<Rightarrow>
                if e = ErrBadCredentials \<or> e = ErrPasswordMissing
                then hthen (commitFail w StepUpPasswordUser key) (answer (errReply 401 ''invalid_credentials''))
                else hthen (releaseKey w StepUpPasswordUser key) (answer internalError)
            | Inr v \<Rightarrow>
                hthen (commitSuccess w StepUpPasswordUser key)
                (if \<not> hSmtp cfg then answer (errReply 503 ''mail_unavailable'')
                 else hbind (call w (\<lambda>now. RequestEmailChange now (wSeedToken w) (wToken w) (prUser p) (prSession p) email
                               (otpTTL cfg) (wOutbox w)
                               (hDraft cfg ''email_change_confirm'' [email, hBaseURL cfg, formatInt (otpTTL cfg div minute)])
                               (\<lambda>old. hDraft cfg ''email_change_notice'' [old, email]))) (\<lambda>r.
                      case r of
                        Inr pending \<Rightarrow> answer \<lparr>rpStatus = 202, rpBody = MovePending (Some pending)\<rparr>
                      | Inl e \<Rightarrow>
                          if e = ErrEmailTaken then answer (errReply 409 ''email_taken'')
                          else if e = ErrEmailUnchanged then answer (errReply 400 ''email_unchanged'')
                          else if e = ErrEmailChangeInvalid then answer (errReply 403 ''email_change_forbidden'')
                          else answer internalError))))))"

definition GetEmailChange :: "world \<Rightarrow> principal \<Rightarrow> unit act" where
  "GetEmailChange w p =
     hbind (query w (\<lambda>now db. Inr (PendingEmailChangeFor now (prUser p) db))) (\<lambda>r.
     hbind (orInternal r) (\<lambda>pending. answer (okReply (MovePending pending))))"

definition CancelEmailChangeHandler :: "world \<Rightarrow> principal \<Rightarrow> unit act" where
  "CancelEmailChangeHandler w p =
     hbind (call w (\<lambda>now db. (Inr (), CancelEmailChange now (prUser p) db) :: (authErr + unit) \<times> authdb)) (\<lambda>r.
     hbind (orInternal r) (\<lambda>_. answer noContent))"

definition errEmailChangeInvalid :: reply where
  "errEmailChangeInvalid = errReply 404 ''email_change_invalid''"

definition ConfirmEmailChange :: "world \<Rightarrow> string option \<Rightarrow> unit act" where
  "ConfirmEmailChange w input =
     hbind (decode input) (\<lambda>token.
       if token = [] then answer errEmailChangeInvalid
       else hbind (call w (\<lambda>now. ConsumeEmailChange now token)) (\<lambda>r.
         case r of
           Inl e \<Rightarrow>
             if e = ErrEmailChangeInvalid then answer errEmailChangeInvalid
             else if e = ErrEmailTaken then answer (errReply 409 ''email_taken'')
             else answer internalError
         | Inr u \<Rightarrow>
             hthen (cookie ClearSession)
            (hthen (audit w \<lparr>auAction = AuditEmailChanged, auActor = Some (uId u), auTarget = uEmail u, auDetail = []\<rparr>)
                   (answer noContent))))"

end
