(* ===== verification/ProfileHttp.thy ===== *)
theory ProfileHttp
  imports OAuth EmailChange
begin

text \<open>
  The remaining self-service endpoints: the profile and the invitation lookup of \<open>auth/handler.go\<close>, the device
  list, \<open>auth/availability_handler.go\<close> and \<open>auth/apitoken_handler.go\<close>.
\<close>

section \<open>User names\<close>

definition reservedUsernames :: "string list" where
  "reservedUsernames = [''admin'', ''administrator'', ''root'', ''system'', ''support'', ''security'', ''foldex'', ''api'',
     ''me'', ''null'', ''undefined'']"

definition ReservedUsername :: "string \<Rightarrow> bool" where
  "ReservedUsername norm = (norm \<in> set reservedUsernames)"

text \<open>The regular expression \<open>^[a-z0-9][a-z0-9._-]{1,30}[a-z0-9]$\<close>.\<close>

definition usernameShape :: "string \<Rightarrow> bool" where
  "usernameShape s =
     (3 \<le> length s \<and> length s \<le> 32 \<and> list_all (\<lambda>c. isLower c \<or> isDigit c \<or> c \<in> set ''._-'') s \<and>
      (isLower (hd s) \<or> isDigit (hd s)) \<and> (isLower (last s) \<or> isDigit (last s)))"

text \<open>\<open>None\<close> is \<open>ErrUsernameShape\<close>.\<close>

definition NormalizeUsername :: "string \<Rightarrow> string option" where
  "NormalizeUsername username =
     (let norm = goToLower (goTrimSpace username)
      in if norm = [] then Some []
         else if CHR ''@'' \<in> set norm \<or> \<not> usernameShape norm then None
         else if ReservedUsername norm then None
         else Some norm)"

definition UsernameAvailable :: "int \<Rightarrow> string \<Rightarrow> identity \<Rightarrow> bool" where
  "UsernameAvailable uid norm st = (\<not> list_ex (\<lambda>u. uUsernameNorm u = Some norm \<and> uId u \<noteq> uid) (users st))"

definition UsernameAvailableHandler :: "world \<Rightarrow> principal \<Rightarrow> string \<Rightarrow> unit act" where
  "UsernameAvailableHandler w p q =
     (if prUser p = 0 then answer internalError
      else let raw = goTrimSpace q; key = userBucketKey ''avail'' (prUser p)
           in if raw = [] then answer (okReply (Availability False ''empty''))
              else hbind (beginSlot w AvailabilityUser key) (\<lambda>(until, ok).
                if \<not> ok then writeRateLimited
                else hthen (commitFail w AvailabilityUser key)
                  (case NormalizeUsername raw of
                     None \<Rightarrow> answer (okReply (Availability False
                               (if ReservedUsername (goToLower raw) then ''reserved'' else ''shape'')))
                   | Some norm \<Rightarrow>
                       hbind (query w (\<lambda>now db. Inr (UsernameAvailable (prUser p) norm (idn db)))) (\<lambda>r.
                       hbind (orInternal r) (\<lambda>free.
                         answer (okReply (if free then Availability True [] else Availability False ''taken'')))))))"

text \<open>The administrator's probe of an address: taken, or free with or without somebody moving to it.\<close>

definition EmailAvailable :: "gotime \<Rightarrow> string \<Rightarrow> authdb \<Rightarrow> bool \<times> bool" where
  "EmailAvailable now norm db =
     (list_ex (\<lambda>u. uEmailNorm u = norm) (users (idn db)), list_ex (\<lambda>m. mvNorm m = norm \<and> moveLive now m) (emailMoves (side db)))"

definition EmailAvailableHandler :: "world \<Rightarrow> string \<Rightarrow> unit act" where
  "EmailAvailableHandler w q =
     (let raw = goTrimSpace q
      in if raw = [] then answer (okReply (Availability False ''empty''))
         else if \<not> validateEmail raw then answer (okReply (Availability False ''shape''))
         else hbind (query w (\<lambda>now db. Inr (EmailAvailable now (NormalizeEmail raw) db))) (\<lambda>r.
              hbind (orInternal r) (\<lambda>(taken, pending).
                answer (okReply (if taken then Availability False ''taken''
                                 else if pending then Availability True ''pending'' else Availability True [])))))"

section \<open>The profile\<close>

definition LookupLocale :: "handlerCfg \<Rightarrow> string \<Rightarrow> string option" where
  "LookupLocale cfg locale =
     (let l = goToLower (goTrimSpace locale);
          i = length (takeWhile (\<lambda>c. c \<noteq> CHR ''-'' \<and> c \<noteq> CHR ''_'') l);
          cut = (if 0 < i \<and> i < length l then take i l else l)
      in if cut \<in> set (hLocales cfg) then Some cut else None)"

record profileInput =
  upName :: "string option"
  upLocale :: "string option"
  upUsername :: "string option"

definition profileName :: "string option \<Rightarrow> string option act" where
  "profileName v = (case v of None \<Rightarrow> ret None | Some n \<Rightarrow> hbind (validateProfileName n) (\<lambda>x. ret (Some x)))"

definition profileLocale :: "handlerCfg \<Rightarrow> string option \<Rightarrow> string option act" where
  "profileLocale cfg v =
     (case v of
        None \<Rightarrow> ret None
      | Some l \<Rightarrow>
          if l = [] then ret (Some [])
          else (case LookupLocale cfg l of None \<Rightarrow> answer (errReply 400 ''invalid_locale'') | Some x \<Rightarrow> ret (Some x)))"

definition profileUsername :: "string option \<Rightarrow> (string \<times> string) option act" where
  "profileUsername v =
     (case v of
        None \<Rightarrow> ret None
      | Some u \<Rightarrow>
          (case NormalizeUsername u of
             None \<Rightarrow> answer (errReply 400 ''invalid_username'') | Some n \<Rightarrow> ret (Some (n, goTrimSpace u))))"

definition UpdateProfile :: "world \<Rightarrow> handlerCfg \<Rightarrow> authRequest \<Rightarrow> principal \<Rightarrow> profileInput option \<Rightarrow> unit act" where
  "UpdateProfile w cfg rq p input =
     hbind (decode input) (\<lambda>i.
     hbind (profileName (upName i)) (\<lambda>name.
     hbind (profileLocale cfg (upLocale i)) (\<lambda>locale.
     hbind (profileUsername (upUsername i)) (\<lambda>un.
     hbind (onIdentity w (\<lambda>now. UpdateOwnProfile (prUser p) name locale (map_option fst un) (map_option snd un))) (\<lambda>r.
       case r of
         Inr u \<Rightarrow> answer (okReply (Authenticated u (arCsrf rq) []))
       | Inl e \<Rightarrow> if e = ErrUsernameTaken then answer (errReply 409 ''username_taken'') else answer internalError)))))"

section \<open>Devices and invitations\<close>

definition SessionsHandler :: "world \<Rightarrow> principal \<Rightarrow> unit act" where
  "SessionsHandler w p =
     hbind (query w (\<lambda>now db. Inr (ListSessions now (prUser p) (prSession p) (idn db)))) (\<lambda>r.
     hbind (orInternal r) (\<lambda>ls. answer (okReply (SessionList ls))))"

text \<open>\<open>httperr.ParseID\<close>: \<open>None\<close> is the 400.\<close>

definition ParseID :: "string \<Rightarrow> int option" where
  "ParseID raw = (case parseInt64 raw of None \<Rightarrow> None | Some i \<Rightarrow> if i \<le> 0 then None else Some i)"

definition pathID :: "string \<Rightarrow> int act" where
  "pathID raw = (case ParseID raw of None \<Rightarrow> answer (errReply 400 ''invalid_id'') | Some i \<Rightarrow> ret i)"

definition RevokeSessionHandler :: "world \<Rightarrow> principal \<Rightarrow> string \<Rightarrow> unit act" where
  "RevokeSessionHandler w p raw =
     hbind (pathID raw) (\<lambda>i.
     hbind (call w (\<lambda>now db. case RevokeSession now (prUser p) i ReasonLogout (idn db) of (r, st) \<Rightarrow> (r, setIdn st db))) (\<lambda>r.
       case r of
         Inl e \<Rightarrow> if e = ErrSessionNotFound then answer (errReply 404 ''not_found'') else answer internalError
       | Inr _ \<Rightarrow> hthen (if i = prSession p then cookie ClearSession else ret ()) (answer noContent)))"

definition LookupInviteHandler :: "world \<Rightarrow> string option \<Rightarrow> unit act" where
  "LookupInviteHandler w input =
     hbind (decode input) (\<lambda>token.
     hbind (query w (\<lambda>now db. LookupInvite now token (idn db))) (\<lambda>r.
       case r of
         Inl e \<Rightarrow> answer (errReply 404 ''not_found'')
       | Inr iv \<Rightarrow> answer (okReply (InviteInfo (iEmail iv) (iRole iv) (iExpires iv)))))"

section \<open>API tokens\<close>

definition maxTokenNameLen :: int where "maxTokenNameLen = 100"

definition int64Wrap :: "int \<Rightarrow> int" where
  "int64Wrap i = (i + 2 ^ 63) mod 2 ^ 64 - 2 ^ 63"

text \<open>\<open>time.Duration(days) * 24 * time.Hour\<close>.\<close>

definition tokenTTL :: "int \<Rightarrow> duration" where
  "tokenTTL days = int64Wrap (int64Wrap (days * 24) * hour)"

definition onTokens :: "world \<Rightarrow> (gotime \<Rightarrow> identity \<Rightarrow> tokenDb \<Rightarrow> (tokenErr + 'a) \<times> tokenDb) \<Rightarrow> (authErr + tokenErr + 'a) act" where
  "onTokens w op =
     call w (\<lambda>now db. case op now (idn db) (apiDb (side db)) of
                        (r, t) \<Rightarrow> (Inr r, db\<lparr>side := (side db)\<lparr>apiDb := t\<rparr>\<rparr>))"

definition ListAPITokensHandler :: "world \<Rightarrow> principal \<Rightarrow> unit act" where
  "ListAPITokensHandler w p =
     hbind (query w (\<lambda>now db. Inr (ListAPITokens (prUser p) (apiDb (side db))))) (\<lambda>r.
     hbind (orInternal r) (\<lambda>ls. answer (okReply (TokenList ls))))"

text \<open>The decoder reads the days into an \<open>int\<close>.\<close>

definition CreateAPITokenHandler :: "world \<Rightarrow> principal \<Rightarrow> (string \<times> int) option \<Rightarrow> unit act" where
  "CreateAPITokenHandler w p input =
     hbind (decode input) (\<lambda>(rawName, days).
       let name = goTrimSpace rawName
       in if name = [] \<or> maxTokenNameLen < runeCount name then answer (errReply 400 ''invalid_name'')
          else if days < 0 then answer (errReply 400 ''invalid_expiry'')
          else hbind (onTokens w (\<lambda>now. CreateAPIToken (\<lambda>s. s) now (wToken w) (prUser p) name (tokenTTL days))) (\<lambda>r.
               hbind (orInternal r) (\<lambda>tr.
                 case tr of
                   Inl e \<Rightarrow> if e = ErrTooManyAPITokens then answer (errReply 409 ''too_many_tokens'') else answer internalError
                 | Inr (t, display) \<Rightarrow> answer \<lparr>rpStatus = 201, rpBody = TokenCreated t display\<rparr>)))"

definition RevokeAPITokenHandler :: "world \<Rightarrow> principal \<Rightarrow> string \<Rightarrow> unit act" where
  "RevokeAPITokenHandler w p raw =
     hbind (pathID raw) (\<lambda>i.
     hbind (onTokens w (\<lambda>now st. RevokeAPIToken now (prUser p) i)) (\<lambda>r.
     hbind (orInternal r) (\<lambda>tr.
       case tr of
         Inl e \<Rightarrow> if e = ErrTokenNotFound then answer (errReply 404 ''not_found'') else answer internalError
       | Inr _ \<Rightarrow> answer noContent)))"

section \<open>How long a token lives\<close>

text \<open>
  C22. An API token asked for a number of days expires exactly that long after its creation, and never when
  the number is zero, up to 106751 days, and it is refused from that instant on.  One day more and the
  64-bit product of nanoseconds wraps to a negative duration: the token never expires.
\<close>

theorem token_expiry_exact_in_range:
  assumes "0 \<le> days" "CreateAPIToken H now raw uid name (tokenTTL days) st db = (Inr (t, shown), db')"
  shows "(days \<le> 106751 \<longrightarrow> atExpires t = (if days = 0 then None else Some (now + days * 24 * hour)) \<and>
      tokenUsable later t = (days = 0 \<or> later < now + days * 24 * hour)) \<and>
    (days = 106752 \<longrightarrow> atExpires t = None \<and> tokenUsable later t)"
proof -
  have t: "atExpires t = (if 0 < tokenTTL days then Some (now + tokenTTL days) else None)" "atRevoked t = None"
    using assms(2) by (auto simp: CreateAPIToken_def Let_def split: option.splits if_splits)
  have "tokenTTL days = days * 24 * hour" if "days \<le> 106751"
    using assms(1) that by (simp add: tokenTTL_def int64Wrap_def hour_def minute_def second_def)
  moreover have "tokenTTL 106752 < 0" by code_simp
  ultimately show ?thesis using t assms(1) by (auto simp: tokenUsable_def)
qed

lemma token_expiry_exact_in_range_witness:
  "\<exists>t d. fst (CreateAPIToken rev 10 ''abc'' 1 ''ext'' (tokenTTL 30) demoDb \<lparr>apiTokens = [], tokenSeq = 1\<rparr>) = Inr (t, d) \<and>
     atExpires t = Some (10 + 30 * 24 * hour) \<and> \<not> tokenUsable (10 + 31 * 24 * hour) t"
proof -
  let ?c = "CreateAPIToken rev 10 ''abc'' 1 ''ext'' (tokenTTL 30) demoDb \<lparr>apiTokens = [], tokenSeq = 1\<rparr>"
  have "isOk (fst ?c)" by code_simp
  then obtain t d db where c: "?c = (Inr (t, d), db)" by (cases ?c) (auto simp: isOk_def split: sum.splits)
  from token_expiry_exact_in_range [OF _ c, of "10 + 31 * 24 * hour"] c show ?thesis by auto
qed

end
