(* ===== verification/AccountRuns.thy ===== *)
theory AccountRuns
  imports HttpRuns ProfileHttp
begin

text \<open>
  The endpoints of Google sign-in, of the e-mail change, of the profile and of the tokens in terms of the same
  steps: they move the accounts with growing epochs, the tables no code is checked against, and a conversion
  also consumes its challenge.
\<close>

section \<open>Transactions beside the second factor\<close>

text \<open>The accounts grow and only tables no factor is checked against change besides.\<close>

definition beside :: "authdb \<Rightarrow> authdb \<Rightarrow> bool" where
  "beside db db' = (\<exists>st ms sd. epochGrows (idn db) st \<and> db' = setIdn st (db\<lparr>mails := ms, side := sd\<rparr>))"

lemma besideI: "epochGrows (idn db) (idn db') \<Longrightarrow> db' = setIdn (idn db') (db\<lparr>mails := mails db', side := side db'\<rparr>) \<Longrightarrow> beside db db'"
  unfolding beside_def by blast

lemma beside_refl: "sane db \<Longrightarrow> beside db db"
  by (rule besideI) (simp_all add: sane_def epochGrows_refl setIdn_def)

lemma reaches_beside:
  assumes "beside db db'" "now \<in> T"
  shows "reaches cfg T db db'"
proof -
  obtain st ms sd where s: "epochGrows (idn db) st" "db' = setIdn st (db\<lparr>mails := ms, side := sd\<rparr>)"
    using assms(1) by (auto simp: beside_def)
  have "reaches cfg T db (db\<lparr>mails := ms, side := sd\<rparr>)"
    by (rule reaches_step [OF tfStep.queued [where now = now]]) (simp add: assms(2))
  moreover have "reaches cfg T (db\<lparr>mails := ms, side := sd\<rparr>) db'"
    unfolding s(2) by (rule reaches_identity [OF _ assms(2)]) (simp add: s(1))
  ultimately show ?thesis by (rule reaches_trans)
qed

lemma steps_beside:
  assumes "\<And>now db. sane db \<Longrightarrow> beside db (snd (op now db))"
  shows "steps cfg T op"
  unfolding steps_def using assms by (metis reaches_beside snd_conv)

lemma steps_runTx_beside:
  assumes "\<And>now db x db'. sane db \<Longrightarrow> f now db = Inr (x, db') \<Longrightarrow> beside db db'"
  shows "steps cfg T (\<lambda>now db. runTx db (f now db))"
  by (rule steps_runTx) (blast intro: reaches_beside assms)

text \<open>Tables at the side alone.\<close>

lemma beside_side: "sane db \<Longrightarrow> db' = db\<lparr>mails := ms, side := sd\<rparr> \<Longrightarrow> beside db db'"
  by (rule besideI) (simp_all add: sane_def epochGrows_refl setIdn_def)

lemma beside_sideOnly: "sane db \<Longrightarrow> beside db (db\<lparr>side := sd\<rparr>)"
  by (rule beside_side [where ms = "mails db" and sd = sd]) simp_all

lemma beside_idn: "epochGrows (idn db) st \<Longrightarrow> beside db (setIdn st db)"
  by (rule besideI) (simp_all add: setIdn_def)

section \<open>Google sign-in\<close>

lemma insertOAuthState_side: "insertOAuthState st db = Inr db' \<Longrightarrow> sane db \<Longrightarrow> beside db db'"
  by (auto simp: insertOAuthState_def split: if_splits intro: beside_sideOnly)

lemma steps_oauthStates [runs_rules]:
  "steps cfg T (\<lambda>now. CreateOAuthState now tok provider purpose verifier uid i ttl)"
  "steps cfg T (\<lambda>now. CreateOAuthLinkState now tok provider verifier sp ttl)"
  "steps cfg T (\<lambda>now. ConsumeOAuthState now raw)"
  unfolding CreateOAuthState_def CreateOAuthLinkState_def ConsumeOAuthState_def
  by (rule steps_runTx_beside; auto simp: rbind_Inr_iff split: if_splits option.splits
      intro: insertOAuthState_side beside_sideOnly)+

lemma linkIdentity_users: "linkIdentity uid pid st = Inr st' \<Longrightarrow> users st' = users st \<and> userSeq st' = userSeq st"
  by (auto simp: linkIdentity_def split: if_splits)

lemma steps_link [runs_rules]: "steps cfg T (\<lambda>now. LinkIdentity now st raw pid maxAge)"
  unfolding LinkIdentity_def
proof (rule steps_runTx_beside)
  fix now db x db'
  assume s: "sane db" and r: "(case linkProof st raw of None \<Rightarrow> Inl ErrOAuthLinkInvalid
    | Some (uid, sid, v, t, raw) \<Rightarrow>
        if \<not> (activeAt uid v db \<and> now - maxAge < t) then Inl ErrOAuthLinkInvalid
        else if \<not> linkSession now uid sid raw db then Inl ErrOAuthLinkInvalid
        else rbind (linkIdentity uid pid (idn db)) (\<lambda>st'. Inr ((), setIdn st' db))) = Inr (x, db')"
  from r obtain uid st' where "linkIdentity uid pid (idn db) = Inr st'" "db' = setIdn st' db"
    by (auto simp: rbind_Inr_iff split: option.splits if_splits)
  then show "beside db db'"
    using linkIdentity_users s by (auto simp: sane_def intro!: beside_idn epochGrows_same)
qed

lemma steps_provision [runs_rules]: "steps cfg T (\<lambda>now. ProvisionOAuthUser now email name pid r)"
  unfolding ProvisionOAuthUser_def
proof (rule steps_runTx_beside)
  fix now db x db'
  assume s: "sane db" and r: "(if r \<noteq> RoleEditor \<and> r \<noteq> RoleViewer then Inl ErrInvalidRole
     else (case insertUser (newUser email (capProfileName name) r None (Some now)) (idn db) of
             Inl c \<Rightarrow> Inl (if c = EmailNormUniq then ErrEmailTaken else ErrSql)
           | Inr (u, st) \<Rightarrow>
               rbind (linkIdentity (uId u) pid st) (\<lambda>st'. let db' = setIdn st' db in Inr (viewOf db' u, db')))) = Inr (x, db')"
  from r obtain u st st' where i: "insertUser (newUser email (capProfileName name) r None (Some now)) (idn db) = Inr (u, st)"
    "linkIdentity (uId u) pid st = Inr st'" "db' = setIdn st' db"
    by (auto simp: rbind_Inr_iff Let_def split: sum.splits if_splits)
  have "epochGrows (idn db) st'"
    using linkIdentity_users [OF i(2)] s by (auto simp: sane_def intro: epochGrows_frame [OF epochGrows_insert [OF i(1)]])
  then show "beside db db'" by (simp add: i(3) beside_idn)
qed

lemma steps_unlink [runs_rules]: "steps cfg T (\<lambda>now. UnlinkIdentity verify now sp provider password)"
  unfolding UnlinkIdentity_def
proof (rule steps_runTx_beside)
  fix now x and db db' :: authdb
  let ?ids = "\<lambda>db. (idn db)\<lparr>identities := filter (\<lambda>li. \<not> (liUser li = spUser sp \<and> liProvider li = provider)) (identities (idn db))\<rparr>"
  assume s: "sane db" and r: "(case userById (spUser sp) (idn db) of
          None \<Rightarrow> Inl ErrNoUser
        | Some u \<Rightarrow>
            if uStatus u \<noteq> StatusActive \<or> uTokenVersion u \<noteq> spVersion sp then Inl ErrSessionInvalid
            else rbind (requireSession now sp db) (\<lambda>_.
              if ListIdentities (spUser sp) db = [] then Inl ErrIdentityMissing
              else (case uPwHash u of
                      None \<Rightarrow> Inl ErrLastCredential
                    | Some h \<Rightarrow>
                        if \<not> verify h password then Inl ErrBadCredentials
                        else if \<not> list_ex (\<lambda>li. liUser li = spUser sp \<and> liProvider li = provider) (identities (idn db))
                        then Inl ErrIdentityMissing
                        else rbind (bumpEpoch (spUser sp) (spVersion sp) (?ids db)) (\<lambda>st.
                             Inr ((), setIdn (revokeWhere (\<lambda>s. sUser s = spUser sp \<and> sId s \<noteq> spSession sp)
                                                ReasonPasswordChanged now st) db))))) = Inr (x, db')"
  from r obtain st P where b: "bumpEpoch (spUser sp) (spVersion sp) (?ids db) = Inr st"
    "db' = setIdn (revokeWhere P ReasonPasswordChanged now st) db"
    by (auto simp: rbind_Inr_iff split: option.splits if_splits)
  have w: "writeUsers (\<lambda>u. uId u = spUser sp \<and> uTokenVersion u = spVersion sp) (\<lambda>u. u\<lparr>uTokenVersion := uTokenVersion u + 1\<rparr>) (?ids db) = Inr st"
    using b(1) by (auto simp: bumpEpoch_def split: sum.splits)
  have a: "accountIds (?ids db)" using s by (simp add: sane_def accountIds_def)
  have "epochGrows (?ids db) st" by (rule epochGrows_write [OF w a]) simp
  then have "epochGrows (?ids db) (revokeWhere P ReasonPasswordChanged now st)"
    by (rule epochGrows_frame) (simp_all add: epochs_revoke)
  then have "epochGrows (idn db) (revokeWhere P ReasonPasswordChanged now st)" by (simp add: epochGrows_def)
  then show "beside db db'" by (simp add: b(2) beside_idn)
qed

text \<open>A conversion consumes its challenge, links, retires the password and revokes.\<close>

lemma lockConvert_active: "lockConvertUserTx uid v h db = Inr () \<Longrightarrow> activeAt uid v db"
  by (auto simp: lockConvertUserTx_def activeAt_def list_ex_iff userById_def find_Some_iff split: option.splits if_splits)

lemma consumeConvert_step:
  assumes "consumeConvertChallengeTx now cid uid v db = Inr (pid, db1)" "activeAt uid v db" "sane db"
  obtains c where "c \<in> set (challenges db)" "challengeById cid db = Some c" "chUser c = uid" "chPurpose c = PurposeConvertGoogle"
    "chVersion c = Some v" "chOauth c = Some pid" "challengeOk now db c" "ConsumeChallenge now cid db = (Inr (), db1)"
proof -
  from assms(1) obtain c where c: "find (\<lambda>c. chId c = cid \<and> chUser c = uid \<and> chPurpose c = PurposeConvertGoogle \<and>
      chVersion c = Some v \<and> challengeLive now c) (challenges db) = Some c" "chOauth c = Some pid"
    "db1 = updateChallenge cid (\<lambda>c. c\<lparr>chConsumed := Some now\<rparr>) db"
    by (auto simp: consumeConvertChallengeTx_def split: option.splits if_splits)
  then have f: "c \<in> set (challenges db)" "chId c = cid" "chUser c = uid" "chPurpose c = PurposeConvertGoogle" "chVersion c = Some v"
    "challengeLive now c" by (auto simp: find_Some_iff)
  have ok: "challengeOk now db c" using f assms(2) by (simp add: challengeOk_def)
  have b: "challengeById cid db = Some c"
  proof -
    have "\<exists>d. challengeById cid db = Some d" using f(1,2) by (auto simp: challengeById_def find_None_iff not_None_eq [symmetric])
    then obtain d where d: "challengeById cid db = Some d" by blast
    then have "d \<in> set (challenges db)" "chId d = cid" by (auto simp: challengeById_def find_Some_iff)
    then show ?thesis using d chId_eq [of db d c] f(1,2) assms(3) by (simp add: sane_def)
  qed
  have "userById uid (idn db) \<noteq> None"
    using assms(2) by (auto simp: activeAt_def list_ex_iff userById_def find_None_iff)
  then have "ConsumeChallenge now cid db = (Inr (), db1)"
    using ok b f(3) c(3) by (simp add: ConsumeChallenge_def lockChallengeUser_def)
  then show thesis using that f b ok c(2) by blast
qed

lemma retire_epochs:
  assumes "retirePasswordTx uid v h st = Inr (u, st')" "accountIds st"
  shows "epochGrows st st'"
proof -
  obtain P where "writeUsers P (\<lambda>u. u\<lparr>uPwHash := None, uTokenVersion := uTokenVersion u + 1\<rparr>) st = Inr st'"
    using assms(1) by (auto simp: retirePasswordTx_def Let_def split: if_splits sum.splits option.splits)
  from epochGrows_write [OF this assms(2)] show ?thesis by simp
qed

lemma steps_convert [runs_rules]: "steps cfg T (\<lambda>now. convertTx now cid uid v h)"
  unfolding convertTx_def
proof (rule steps_runTx)
  fix now x db db' assume t: "now \<in> T" and s: "sane db" and r: "rbind (lockConvertUserTx uid v h db) (\<lambda>_.
        rbind (consumeConvertChallengeTx now cid uid v db) (\<lambda>(pid, db1).
        rbind (linkIdentity uid pid (idn db1)) (\<lambda>st1.
        rbind (retirePasswordTx uid v h st1) (\<lambda>(u, st2).
          let db2 = setIdn (revokeWhere (\<lambda>s. sUser s = uid) ReasonPasswordChanged now st2) db1
          in Inr ((viewOf db2 u, piEmail pid), db2))))) = Inr (x, db')"
  from r obtain pid db1 st1 u st2 where c: "lockConvertUserTx uid v h db = Inr ()"
    "consumeConvertChallengeTx now cid uid v db = Inr (pid, db1)" "linkIdentity uid pid (idn db1) = Inr st1"
    "retirePasswordTx uid v h st1 = Inr (u, st2)"
    "db' = setIdn (revokeWhere (\<lambda>s. sUser s = uid) ReasonPasswordChanged now st2) db1"
    by (auto simp: rbind_Inr_iff Let_def)
  obtain ch where k: "challengeById cid db = Some ch" "ConsumeChallenge now cid db = (Inr (), db1)"
    using consumeConvert_step [OF c(2) lockConvert_active [OF c(1)] s] by metis
  have a: "reaches cfg T db db1" by (rule reaches_step [OF tfStep.consume [OF k(2,1)]]) (simp add: t)
  have s1: "accountIds (idn db1)" using reaches_sane [OF a s] by (simp add: sane_def)
  have l: "epochGrows (idn db1) st1" using linkIdentity_users [OF c(3)] by (intro epochGrows_same [OF s1]) simp_all
  then have "epochGrows st1 st2" using retire_epochs [OF c(4)] by (simp add: epochGrows_def)
  from epochGrows_trans [OF l this] have "epochGrows (idn db1) (revokeWhere (\<lambda>s. sUser s = uid) ReasonPasswordChanged now st2)"
    by (rule epochGrows_frame) (simp_all add: epochs_revoke)
  then show "reaches cfg T db db'" using reaches_trans [OF a reaches_identity [OF _ t]] c(5) by blast
qed

lemma steps_spend [runs_rules]: "steps cfg T (\<lambda>now. ConsumeSecondFactor now uid p)"
  by (rule steps_other) (simp add: ConsumeSecondFactor_def runTx_Inl, rule tfStep.spend, simp)

lemma steps_id [runs_rules]: "steps cfg T (\<lambda>now db. (Inr (), db))"
  by (simp add: steps_def)

lemma epochs_AcceptInviteWithIdentityByID [runs_rules]:
  "accountIds st \<Longrightarrow> epochGrows st (snd (AcceptInviteWithIdentityByID now i name pid st))"
  by (simp add: AcceptInviteWithIdentityByID_def epochs_acceptInvite)

lemma runs_redirects [runs_rules]:
  "runs cfg T (oauthRedirect cfg outcome)" "runs cfg T (oauthRedirectError cfg code)"
  unfolding oauthRedirect_def oauthRedirectError_def redirectToSPA_def by (rule runs_rules)+

lemma runs_afterwards [runs_rules]:
  assumes "runs cfg T m" "runs cfg T d"
  shows "runs cfg T (afterwards m d)"
  unfolding valid_def
proof (intro allI impI)
  fix s :: srv assume s: "sane (svDb s)"
  obtain r s' where m: "m s = (r, s')" by fastforce
  have a: "reaches cfg T (svDb s) (svDb s')" using assms(1) s m by (auto simp: valid_def)
  have "reaches cfg T (svDb s') (svDb (snd (d s')))"
    using assms(2) reaches_sane [OF a s] by (auto simp: valid_def)
  then show "reaches cfg T (svDb s) (svDb (snd (afterwards m d s))) \<and> (\<forall>x. fst (afterwards m d s) = Inr x \<longrightarrow> True)"
    using a m by (auto simp: afterwards_def intro: reaches_trans)
qed

lemma runs_chargedStart [runs_rules]: "runs cfg T body \<Longrightarrow> runs cfg T (chargedStart w rq body)"
  unfolding chargedStart_def Let_def by (assumption | rule runs_rules)+

lemma runs_oauth_parts [runs_rules]:
  assumes h: "honest cfg T w"
  shows "runs cfg T (oauthStartTarget w g purpose i proof ttl)"
    and "runs cfg T (checkOAuthLinkSecondFactor w cfg u code)"
    and "runs cfg T (oauthBeginChallenge w cfg nc)"
    and "runs cfg T (TouchIdentity w)"
    and "runs cfg T (oauthFinishLink w cfg rq st info)"
    and "runs cfg T (oauthCheckLink w cfg rq st)"
    and "runs cfg T (ConvertToProvider w cfg cid password)"
  unfolding oauthStartTarget_def checkOAuthLinkSecondFactor_def oauthBeginChallenge_def TouchIdentity_def oauthFinishLink_def
    oauthCheckLink_def ConvertToProvider_def Let_def
  by (assumption | rule h runs_rules)+

lemma runs_oauthComplete [runs_rules]: "honest cfg T w \<Longrightarrow> runs cfg T (oauthComplete w cfg rq u)"
  unfolding oauthComplete_def by (assumption | rule runs_rules)+

lemma runs_oauthFinish [runs_rules]:
  assumes h: "honest cfg T w"
  shows "runs cfg T (oauthAutoProvision w cfg rq info)" "runs cfg T (oauthFinishInvite w cfg rq st info)"
  unfolding oauthAutoProvision_def oauthFinishInvite_def Let_def by (assumption | rule h runs_rules)+

lemma runs_oauthOfferConversion [runs_rules]: "honest cfg T w \<Longrightarrow> runs cfg T (oauthOfferConversion w cfg rq info)"
  unfolding oauthOfferConversion_def by (assumption | rule runs_rules)+

lemma runs_oauthFinishLogin [runs_rules]: "honest cfg T w \<Longrightarrow> runs cfg T (oauthFinishLogin w cfg rq info)"
  unfolding oauthFinishLogin_def by (assumption | rule runs_rules)+

lemma runs_oauth:
  assumes h: "honest cfg T w"
  shows "runs cfg T (OAuthStart w cfg rq q)" "runs cfg T (OAuthInviteStart w cfg rq ii)" "runs cfg T (OAuthLinkStart w cfg rq p li)"
    "runs cfg T (OAuthCallback w cfg rq cq)" "runs cfg T (OAuthConvert w cfg rq ci)" "runs cfg T (OAuthUnlink w cfg p ui)"
    "runs cfg T (ListIdentitiesHandler w p)"
  unfolding OAuthStart_def OAuthInviteStart_def OAuthLinkStart_def OAuthCallback_def OAuthConvert_def OAuthUnlink_def
    ListIdentitiesHandler_def oauthFinish_def Let_def
  by (assumption | rule h runs_rules)+

section \<open>The e-mail change and the profile\<close>

lemma enqueue_beside: "enqueueDraft ok mail raw db = Inr db' \<Longrightarrow> \<exists>ms. db' = db\<lparr>mails := ms\<rparr>"
  by (auto simp: enqueueDraft_def split: option.splits if_splits) (metis authdb.surjective authdb.update_convs(8))

lemma steps_requestMove [runs_rules]:
  "steps cfg T (\<lambda>now. RequestEmailChange now raw digest uid sid newEmail ttl ok confirm notice)"
  unfolding RequestEmailChange_def
proof (rule steps_runTx_beside)
  fix now x and db db' :: authdb
  let ?db0 = "db\<lparr>side := (side db)\<lparr>emailMoves := supersedeMoves now uid (emailMoves (side db))\<rparr>\<rparr>"
  assume s: "sane db" and r: "rbind (emailMoveAllowed uid (NormalizeEmail newEmail) db) (\<lambda>u.
        rbind (insertEmailMove \<lparr>mvId = 0, mvUser = uid, mvEmail = newEmail, mvNorm = NormalizeEmail newEmail, mvToken = digest,
                  mvVersion = uTokenVersion u, mvSession = nullZero sid, mvExpires = now + ttl, mvConsumed = None\<rparr> ?db0) (\<lambda>db1.
        rbind (enqueueDraft ok (Some confirm) raw db1) (\<lambda>db2.
        rbind (enqueueDraft ok (Some (notice (uEmail u))) [] db2) (\<lambda>db3. Inr ((newEmail, now + ttl), db3))))) = Inr (x, db')"
  from r obtain m db1 db2 n where c: "insertEmailMove m ?db0 = Inr db1" "enqueueDraft ok (Some confirm) raw db1 = Inr db2"
    "enqueueDraft ok (Some n) [] db2 = Inr db'"
    by (auto simp: rbind_Inr_iff)
  obtain sd where "db1 = db\<lparr>side := sd\<rparr>" using c(1) by (auto simp: insertEmailMove_def split: if_splits)
  moreover obtain ms where "db2 = db1\<lparr>mails := ms\<rparr>" using enqueue_beside [OF c(2)] by blast
  moreover obtain ms' where "db' = db2\<lparr>mails := ms'\<rparr>" using enqueue_beside [OF c(3)] by blast
  ultimately have "db' = db\<lparr>mails := ms', side := sd\<rparr>" by simp
  then show "beside db db'" using s by (rule beside_side [rotated])
qed

lemma steps_confirmMove [runs_rules]: "steps cfg T (\<lambda>now. ConsumeEmailChange now digest)"
  unfolding ConsumeEmailChange_def
proof (rule steps_runTx_beside)
  fix now db x db'
  assume s: "sane db" and r: "rbind (loadLiveEmailChangeTx now digest db) (\<lambda>m. applyEmailMove now m db) = Inr (x, db')"
  from r obtain m where m: "applyEmailMove now m db = Inr (x, db')" by (auto simp: rbind_Inr_iff)
  obtain st where c: "writeUsers (\<lambda>u. uId u = mvUser m) (moveAddress now (mvEmail m) (mvNorm m)) (idn db) = Inr st"
    "\<exists>sd Q. db' = setIdn (revokeWhere Q ReasonEmailChanged now st) (db\<lparr>side := sd\<rparr>)"
  proof (cases "writeUsers (\<lambda>u. uId u = mvUser m) (moveAddress now (mvEmail m) (mvNorm m)) (idn db)")
    case (Inr st)
    have "\<exists>sd Q. db' = setIdn (revokeWhere Q ReasonEmailChanged now st) (db\<lparr>side := sd\<rparr>)"
      using m Inr
      by (intro exI [of _ "side db'"] exI [of _ "\<lambda>s. sUser s = mvUser m"])
        (auto simp: applyEmailMove_def setIdn_def split: option.splits)
    then show ?thesis using that Inr by blast
  qed (use m in \<open>simp add: applyEmailMove_def\<close>)
  have "epochGrows (idn db) st"
    by (rule epochGrows_write [OF c(1)]) (use s in \<open>simp_all add: sane_def moveAddress_def\<close>)
  then have "epochGrows (idn db) (revokeWhere Q ReasonEmailChanged now st)" for Q
    by (rule epochGrows_frame) (simp_all add: epochs_revoke)
  then show "beside db db'"
    using c(2) by (auto simp: setIdn_def intro!: besideI)
qed

lemma steps_cancelMove [runs_rules]: "steps cfg T (\<lambda>now db. (Inr (), CancelEmailChange now uid db))"
  by (rule steps_beside) (simp add: CancelEmailChange_def beside_sideOnly)

lemma runs_emailChange:
  assumes h: "honest cfg T w"
  shows "runs cfg T (RequestEmailChangeHandler w cfg p ri)" "runs cfg T (GetEmailChange w p)"
    "runs cfg T (CancelEmailChangeHandler w p)" "runs cfg T (ConfirmEmailChange w ci)"
  unfolding RequestEmailChangeHandler_def GetEmailChange_def CancelEmailChangeHandler_def ConfirmEmailChange_def Let_def
  by (assumption | rule h runs_rules)+

lemma epochs_UpdateOwnProfile [runs_rules]:
  assumes "accountIds st"
  shows "epochGrows st (snd (UpdateOwnProfile i n l u d st))"
  using epochGrows_refl [OF assms]
  by (auto simp: UpdateOwnProfile_def profileUpdate_def split: option.splits sum.splits elim!: epochGrows_write [OF _ assms])

lemma steps_RevokeSession [runs_rules]:
  "steps cfg T (\<lambda>now db. case RevokeSession now uid i reason (idn db) of (r, st) \<Rightarrow> (r, setIdn st db))"
  by (rule steps_setIdn) (auto simp: RevokeSession_def epochs_revoke intro: epochGrows_same epochGrows_refl)

lemma runs_onTokens [runs_rules]:
  assumes h: "honest cfg T w"
  shows "runs cfg T (onTokens w op)"
  unfolding onTokens_def
  by (rule runs_call [OF h steps_beside]) (simp add: beside_sideOnly split: prod.split)

lemma runs_profile_parts [runs_rules]:
  "runs cfg T (profileName v)" "runs cfg T (profileLocale cfg lv)" "runs cfg T (profileUsername uv)" "runs cfg T (pathID raw)"
  unfolding profileName_def profileLocale_def profileUsername_def pathID_def by (assumption | rule runs_rules)+

lemma runs_profile:
  assumes h: "honest cfg T w"
  shows "runs cfg T (UsernameAvailableHandler w p q)" "runs cfg T (EmailAvailableHandler w q)" "runs cfg T (UpdateProfile w cfg rq p ui)"
    "runs cfg T (SessionsHandler w p)" "runs cfg T (RevokeSessionHandler w p raw)" "runs cfg T (LookupInviteHandler w li)"
    "runs cfg T (ListAPITokensHandler w p)" "runs cfg T (CreateAPITokenHandler w p ti)" "runs cfg T (RevokeAPITokenHandler w p raw)"
  unfolding UsernameAvailableHandler_def EmailAvailableHandler_def UpdateProfile_def SessionsHandler_def RevokeSessionHandler_def
    LookupInviteHandler_def ListAPITokensHandler_def CreateAPITokenHandler_def RevokeAPITokenHandler_def Let_def
  by (assumption | rule h runs_rules)+

end
