(* ===== verification/HttpHistory.thy ===== *)
theory HttpHistory
  imports AccountRuns
begin

text \<open>
  The route table of \<open>auth/handler.go\<close> and histories of requests: a server answers one request after the
  other while others come in between, and every change of the database is a step of the second factor.
\<close>

section \<open>Routes\<close>

datatype endpoint =
    EBootstrapStatus | EBootstrap "bootstrapInput option" | ELogin "loginInput option" | ERefresh
  | EAcceptInvite "acceptInput option" | EForgotPassword "string option" | EResetPassword "resetInput option"
  | EVerifyEmail "string option" | EVerify2FA "string option" | ESendEmailOTP | EStartTOTP "string option" | ETOTPQR
  | EConfirmTOTP "string option" | EStartEmailFactor "string option" | EConfirmEmailFactor "string option" | EMe | ELogout
  | ELogoutAll | EChangePassword "(string \<times> string) option" | ESetPassword "(string \<times> string) option" | ESendVerification
  | ETwoFactorStatus | EDisableTOTP "(string \<times> string) option" | ESendStepUp | EDisableEmailFactor "(string \<times> string) option"
  | ERegenerate "(string \<times> string) option"
  | ELookupInvite "string option" | EConfirmEmailChange "string option" | EOAuthStart string | EOAuthInviteStart "string option"
  | EOAuthLinkStart "(string \<times> string) option" | EOAuthCallback callbackQuery | EOAuthConvert "string option"
  | EOAuthUnlink "string option" | EIdentities | ESessions | ERevokeSession string | EUpdateProfile "profileInput option"
  | EUsernameAvailable string | ERequestEmailChange "(string \<times> string) option" | ECancelEmailChange | EGetEmailChange
  | EListTokens | ECreateToken "(string \<times> int) option" | ERevokeToken string

text \<open>
  The middleware has run: \<open>arPrincipal\<close> is what \<open>Authenticate\<close> or \<open>Optional\<close> resolved.  Nothing here may be
  driven by a bearer token.
\<close>

definition rejectAPIToken :: "authRequest \<Rightarrow> unit act \<Rightarrow> unit act" where
  "rejectAPIToken rq h =
     (case arPrincipal rq of
        Some p \<Rightarrow> if prVia p = ViaAPIToken then answer (errReply 403 ''token_scope'') else h
      | None \<Rightarrow> h)"

definition authenticated :: "authRequest \<Rightarrow> (principal \<Rightarrow> unit act) \<Rightarrow> unit act" where
  "authenticated rq h =
     (case arPrincipal rq of
        None \<Rightarrow> answer (errReply 401 ''unauthorized'')
      | Some p \<Rightarrow> rejectAPIToken rq (h p))"

fun Mount :: "world \<Rightarrow> handlerCfg \<Rightarrow> authRequest \<Rightarrow> endpoint \<Rightarrow> unit act" where
  "Mount w cfg rq EBootstrapStatus = BootstrapStatus w"
| "Mount w cfg rq (EBootstrap i) = BootstrapHandler w cfg rq i"
| "Mount w cfg rq (ELogin i) = Login w cfg rq i"
| "Mount w cfg rq ERefresh = Refresh w cfg rq"
| "Mount w cfg rq (EAcceptInvite i) = AcceptInviteHandler w cfg rq i"
| "Mount w cfg rq (EForgotPassword i) = ForgotPassword w cfg rq i"
| "Mount w cfg rq (EResetPassword i) = ResetPassword w cfg rq i"
| "Mount w cfg rq (EVerifyEmail i) = VerifyEmail w i"
| "Mount w cfg rq (EVerify2FA i) = Verify2FA w cfg rq i"
| "Mount w cfg rq ESendEmailOTP = SendEmailOTP w cfg rq"
| "Mount w cfg rq (EStartTOTP i) = rejectAPIToken rq (StartTOTP w cfg rq i)"
| "Mount w cfg rq ETOTPQR = rejectAPIToken rq (TOTPQR w cfg rq)"
| "Mount w cfg rq (EConfirmTOTP i) = rejectAPIToken rq (ConfirmTOTP w cfg rq i)"
| "Mount w cfg rq (EStartEmailFactor i) = rejectAPIToken rq (StartEmailFactor w cfg rq i)"
| "Mount w cfg rq (EConfirmEmailFactor i) = rejectAPIToken rq (ConfirmEmailFactor w cfg rq i)"
| "Mount w cfg rq EMe = Me w cfg rq"
| "Mount w cfg rq ELogout = Logout w rq"
| "Mount w cfg rq ELogoutAll = authenticated rq (LogoutAll w)"
| "Mount w cfg rq (EChangePassword i) = authenticated rq (\<lambda>p. ChangePasswordHandler w cfg p i)"
| "Mount w cfg rq (ESetPassword i) = authenticated rq (\<lambda>p. SetPasswordHandler w cfg p i)"
| "Mount w cfg rq ESendVerification = authenticated rq (SendEmailVerification w cfg)"
| "Mount w cfg rq ETwoFactorStatus = authenticated rq (TwoFactorStatus w cfg)"
| "Mount w cfg rq (EDisableTOTP i) = authenticated rq (\<lambda>p. DisableTOTPHandler w cfg p i)"
| "Mount w cfg rq ESendStepUp = authenticated rq (SendStepUpEmailOTP w cfg)"
| "Mount w cfg rq (EDisableEmailFactor i) = authenticated rq (\<lambda>p. DisableEmailFactorHandler w cfg p i)"
| "Mount w cfg rq (ERegenerate i) = authenticated rq (\<lambda>p. RegenerateRecoveryCodesHandler w cfg p i)"
| "Mount w cfg rq (ELookupInvite i) = LookupInviteHandler w i"
| "Mount w cfg rq (EConfirmEmailChange i) = ConfirmEmailChange w i"
| "Mount w cfg rq (EOAuthStart q) = rejectAPIToken rq (OAuthStart w cfg rq q)"
| "Mount w cfg rq (EOAuthInviteStart i) = rejectAPIToken rq (OAuthInviteStart w cfg rq i)"
| "Mount w cfg rq (EOAuthLinkStart i) = authenticated rq (\<lambda>p. OAuthLinkStart w cfg rq p i)"
| "Mount w cfg rq (EOAuthCallback q) = OAuthCallback w cfg rq q"
| "Mount w cfg rq (EOAuthConvert i) = OAuthConvert w cfg rq i"
| "Mount w cfg rq (EOAuthUnlink i) = authenticated rq (\<lambda>p. OAuthUnlink w cfg p i)"
| "Mount w cfg rq EIdentities = authenticated rq (ListIdentitiesHandler w)"
| "Mount w cfg rq ESessions = authenticated rq (SessionsHandler w)"
| "Mount w cfg rq (ERevokeSession i) = authenticated rq (\<lambda>p. RevokeSessionHandler w p i)"
| "Mount w cfg rq (EUpdateProfile i) = authenticated rq (\<lambda>p. UpdateProfile w cfg rq p i)"
| "Mount w cfg rq (EUsernameAvailable q) = authenticated rq (\<lambda>p. UsernameAvailableHandler w p q)"
| "Mount w cfg rq (ERequestEmailChange i) = authenticated rq (\<lambda>p. RequestEmailChangeHandler w cfg p i)"
| "Mount w cfg rq ECancelEmailChange = authenticated rq (CancelEmailChangeHandler w)"
| "Mount w cfg rq EGetEmailChange = authenticated rq (GetEmailChange w)"
| "Mount w cfg rq EListTokens = authenticated rq (ListAPITokensHandler w)"
| "Mount w cfg rq (ECreateToken i) = authenticated rq (\<lambda>p. CreateAPITokenHandler w p i)"
| "Mount w cfg rq (ERevokeToken i) = authenticated rq (\<lambda>p. RevokeAPITokenHandler w p i)"

lemma runs_Verify2FA: 
  assumes h: "honest cfg T w"
  shows "runs cfg T (Verify2FA w cfg rq input)"
  unfolding Verify2FA_def by (assumption | rule h runs_rules runs_examineCode)+

lemma runs_Mount:
  assumes h: "honest cfg T w"
  shows "runs cfg T (Mount w cfg rq e)"
proof -
  have a: "runs cfg T (authenticated rq k)" if "\<And>p. runs cfg T (k p)" for k
    unfolding authenticated_def rejectAPIToken_def by (rule runs_rules that)+
  have b: "runs cfg T (rejectAPIToken rq m)" if "runs cfg T m" for m
    unfolding rejectAPIToken_def by (rule runs_rules that)+
  show ?thesis
    by (cases e; simp only: Mount.simps)
      (rule a b runs_Login [OF h] runs_accounts [OF h] runs_sessions [OF h] runs_enrollment [OF h] runs_stepUps [OF h]
        runs_SendEmailOTP [OF h] runs_Verify2FA [OF h] runs_oauth [OF h] runs_emailChange [OF h] runs_profile [OF h])+
qed

section \<open>Histories\<close>

record visit =
  viWorld :: world
  viRequest :: authRequest
  viEndpoint :: endpoint

text \<open>The log keeps the state each request found and the answer it got.\<close>

fun serveAll :: "handlerCfg \<Rightarrow> visit list \<Rightarrow> srv \<Rightarrow> (visit \<times> srv \<times> reply) list \<times> srv" where
  "serveAll cfg [] s = ([], s)"
| "serveAll cfg (v # vs) s =
     (case serve (Mount (viWorld v) cfg (viRequest v) (viEndpoint v)) s of
        ((r, cookies), s1) \<Rightarrow> (case serveAll cfg vs s1 of (log, s2) \<Rightarrow> ((v, s, r) # log, s2)))"

text \<open>A request that learnt something about a code for this account and epoch.\<close>

definition examinedFor :: "int \<Rightarrow> nat \<Rightarrow> visit \<times> srv \<times> reply \<Rightarrow> bool" where
  "examinedFor uid v entry =
     (case entry of (vi, s, r) \<Rightarrow>
        (case viEndpoint vi of
           EVerify2FA i \<Rightarrow> examined r \<and> (case addressed (viWorld vi) (viRequest vi) s of
                                            None \<Rightarrow> False | Some ch \<Rightarrow> chUser ch = uid \<and> chVersion ch = Some v)
         | _ \<Rightarrow> False))"

lemma serve_state: "svDb (snd (serve h s)) = svDb (snd (h (s\<lparr>svCookies := []\<rparr>)))"
  by (auto simp: serve_def split: prod.split sum.split)

lemma serve_reply: "fst (fst (serve h s)) = (case fst (h (s\<lparr>svCookies := []\<rparr>)) of Inl r \<Rightarrow> r | Inr x \<Rightarrow> okReply NoBody)"
  by (auto simp: serve_def split: prod.split sum.split)

lemma addressed_cookies: "addressed w rq (s\<lparr>svCookies := cs\<rparr>) = addressed w rq s"
  by (simp add: addressed_def Let_def)

lemma guesses_append: "guesses uid p v (ls @ ms) = guesses uid p v ls + guesses uid p v ms"
  by (simp add: guesses_def)

lemma guesses_one: "list_ex (guessOf uid p (Some v)) ls \<Longrightarrow> 1 \<le> guesses uid p v ls"
proof -
  assume "list_ex (guessOf uid p (Some v)) ls"
  then obtain l where "l \<in> set ls" "isGuess uid p v l"
    by (auto simp: list_ex_iff guessOf_def isGuess_def split: tfLabel.splits)
  then have "filter (isGuess uid p v) ls \<noteq> []" by (auto simp: filter_empty_conv)
  then show ?thesis by (simp add: guesses_def Suc_le_eq)
qed

lemma serve_run:
  assumes h: "honest cfg T (viWorld v)" and s: "sane (svDb s)"
    and e: "serve (Mount (viWorld v) cfg (viRequest v) (viEndpoint v)) s = ((r, cs), s1)"
  shows "\<exists>ls. runOf cfg T ls (svDb s) (svDb s1) \<and> (examinedFor uid x (v, s, r) \<longrightarrow> 1 \<le> guesses uid PurposeTOTP x ls)"
proof (cases "examinedFor uid x (v, s, r)")
  case True
  then obtain i ch where i: "viEndpoint v = EVerify2FA i" "examined r" "addressed (viWorld v) (viRequest v) s = Some ch"
    "chUser ch = uid" "chVersion ch = Some x"
    by (auto simp: examinedFor_def split: endpoint.splits option.splits)
  let ?s = "s\<lparr>svCookies := []\<rparr>" and ?h = "Verify2FA (viWorld v) cfg (viRequest v) i"
  have d: "svDb s1 = svDb (snd (?h ?s))" using serve_state [of ?h s] e i(1) by simp
  have "r = (case fst (?h ?s) of Inl r \<Rightarrow> r | Inr x \<Rightarrow> okReply NoBody)" using serve_reply [of ?h s] e i(1) by simp
  then have f: "fst (?h ?s) = Inl r"
    using i(2) by (cases "fst (?h ?s)") (auto simp: examined_def okReply_def)
  obtain ch' ls where c: "addressed (viWorld v) (viRequest v) ?s = Some ch'" "runOf cfg T ls (svDb ?s) (svDb (snd (?h ?s)))"
    "list_ex (guessOf (chUser ch') PurposeTOTP (chVersion ch')) ls"
    using verify_charges [OF h _ f i(2)] s by auto
  have "ch' = ch" using c(1) i(3) by (simp add: addressed_cookies)
  then have "1 \<le> guesses uid PurposeTOTP x ls" using guesses_one [of uid PurposeTOTP x ls] c(3) i(4,5) by simp
  then show ?thesis using c(2) d by auto
next
  case False
  have "svDb s1 = svDb (snd (Mount (viWorld v) cfg (viRequest v) (viEndpoint v) (s\<lparr>svCookies := []\<rparr>)))"
    using serve_state [of "Mount (viWorld v) cfg (viRequest v) (viEndpoint v)" s] e by simp
  then have "reaches cfg T (svDb s) (svDb s1)"
    using runs_Mount [OF h, of "viRequest v" "viEndpoint v"] s
    unfolding valid_def by (metis (no_types, lifting) srv.select_convs(1) srv.surjective srv.update_convs(4))
  then show ?thesis using False by (auto simp: reaches_def)
qed

lemma served_requests_are_steps:
  assumes "sane (svDb s)" "\<forall>v\<in>set vs. honest cfg T (viWorld v)" "serveAll cfg vs s = (log, s')"
  shows "\<exists>ls. runOf cfg T ls (svDb s) (svDb s') \<and> length (filter (examinedFor uid v) log) \<le> guesses uid PurposeTOTP v ls"
  using assms
proof (induction vs arbitrary: s log)
  case Nil
  then show ?case using runOf_nil by (auto simp: guesses_def)
next
  case (Cons x vs)
  obtain r cs s1 where a: "serve (Mount (viWorld x) cfg (viRequest x) (viEndpoint x)) s = ((r, cs), s1)"
    by (metis prod.collapse)
  obtain log2 where b: "serveAll cfg vs s1 = (log2, s')" "log = (x, s, r) # log2"
    using Cons.prems(3) a by (auto split: prod.splits)
  obtain ls where ls: "runOf cfg T ls (svDb s) (svDb s1)"
    "examinedFor uid v (x, s, r) \<Longrightarrow> 1 \<le> guesses uid PurposeTOTP v ls"
    using serve_run [OF _ Cons.prems(1) a] Cons.prems(2) by (meson list.set_intros(1))
  have "sane (svDb s1)" using reaches_sane [of cfg T "svDb s"] ls(1) Cons.prems(1) by (auto simp: reaches_def)
  then obtain ms where ms: "runOf cfg T ms (svDb s1) (svDb s')"
    "length (filter (examinedFor uid v) log2) \<le> guesses uid PurposeTOTP v ms"
    using Cons.IH [OF _ _ b(1)] Cons.prems(2) by auto
  show ?case using runOf_append [OF ls(1) ms(1)] ls(2) ms(2)
    by (intro exI [of _ "ls @ ms"]) (auto simp: b(2) guesses_append)
qed

text \<open>
  C13. The endpoints are built from the transactions and nothing else: whatever requests are served, in
  whatever order and with whatever other requests in between, the database moves along steps of the
  second factor, and every answer that says something about a code has a guess of its own charged in
  that run to the account and epoch of the challenge.
\<close>

theorem served_requests_refine_steps:
  assumes "sane (svDb s)" "\<forall>v\<in>set vs. honest cfg T (viWorld v)" "serveAll cfg vs s = (log, s')"
  shows "\<exists>ls. tfRun (hSmtp cfg) (hVerify cfg) (hHash cfg) ls (svDb s) (svDb s') \<and> list_all (\<lambda>l. labelTime l \<in> T) ls \<and>
    length (filter (examinedFor uid v) log) \<le> guesses uid PurposeTOTP v ls"
  using served_requests_are_steps [OF assms, of uid v] by (simp add: runOf_def within_def)


section \<open>Two wrong codes\<close>

definition quietWorld :: "gotime \<Rightarrow> world" where
  "quietWorld now = \<lparr>wClock = (\<lambda>_. now), wOthers = (\<lambda>_ db. db), wFault = (\<lambda>_. False), wOutbox = True,
     wMinted = (''a9'', ''r9'', ''c9''), wFamily = ''f9'', wToken = ''t9'', wSeedToken = ''s9'',
     wRandom = (\<lambda>_. None), wNumber = Some 123456, wSeed = None, wAbuse = abuseDefault, wPkce = None\<rparr>"

lemma quiet_honest: "now \<in> T \<Longrightarrow> honest cfg T (quietWorld now)"
  by (simp add: honest_def quietWorld_def)

definition demoCipher :: cipher where
  "demoCipher = \<lparr>cpEncrypt = (\<lambda>s. Some (s, ''n'')), cpDecrypt = (\<lambda>c n. Some c)\<rparr>"

definition demoCfg :: handlerCfg where
  "demoCfg = \<lparr>hCipher = Some demoCipher, hCodeMAC = Some \<lparr>emailOTPKey = ''k'', recoveryKey = ''q''\<rparr>, hRequire2FA = True,
     hAdminTOTPOnly = None, hSmtp = True, hTTL = demoTTL, hPolicy = None, hVerify = (=), hHash = Some,
     hHmac = (\<lambda>k m. k @ m), hHotp = demoHotp, hDraft = (\<lambda>t args. t), hQR = (\<lambda>a b. None), hGoogle = None, hBaseURL = [], hLocales = [''en'']\<rparr>"

definition demoRequest :: authRequest where
  "demoRequest = \<lparr>arPreAuth = Some ''t'', arAccess = None, arRefresh = None, arCsrf = [], arPrincipal = None,
     arIP = ''ip'', arUA = ''ua'', arOAuth = None\<rparr>"

definition demoLimiter :: limiter where
  "demoLimiter = NewLimiter 5 (15 * minute)"

definition demoSrv :: "authdb \<Rightarrow> srv" where
  "demoSrv db = \<lparr>svDb = db, svLimits = (\<lambda>_. demoLimiter), svAudit = [], svCookies = [], svTick = 0\<rparr>"

definition demoVisits :: "visit list" where
  "demoVisits = map (\<lambda>(now, code). \<lparr>viWorld = quietWorld now, viRequest = demoRequest, viEndpoint = EVerify2FA (Some code)\<rparr>)
     [(30, ''000000''), (31, ''111111'')]"

lemma demo_visits: "\<forall>vi\<in>set demoVisits. honest demoCfg {30, 31} (viWorld vi)"
  by (simp add: demoVisits_def quiet_honest)

lemma demo_sane: "sane demoEnrolled"
  unfolding sane_def by code_simp


theorem served_requests_refine_steps_witness:
  "\<exists>ls. tfRun True (=) Some ls demoEnrolled (svDb (snd (serveAll demoCfg demoVisits (demoSrv demoEnrolled)))) \<and>
     list_all (\<lambda>l. labelTime l \<in> {30, 31}) ls"
proof -
  have s: "sane (svDb (demoSrv demoEnrolled))" by (simp add: demoSrv_def demo_sane)
  show ?thesis
    using served_requests_refine_steps [OF s demo_visits, of
      "fst (serveAll demoCfg demoVisits (demoSrv demoEnrolled))" "snd (serveAll demoCfg demoVisits (demoSrv demoEnrolled))" 1 0]
    by (auto simp: demoCfg_def demoSrv_def)
qed

end
