(* ===== verification/HttpLimits.thy ===== *)
theory HttpLimits
  imports HttpHistory
begin

text \<open>
  Reservations.  \<open>Begin\<close> takes a slot of a budget that exactly one of \<open>CommitFail\<close>, \<open>CommitFailFor\<close>,
  \<open>CommitSuccess\<close> and \<open>Release\<close> must give back, on every way out of a handler.  The judgement \<open>settles\<close> keeps
  the list of slots an action still owes.
\<close>

section \<open>What an operation of the limiter does to the slots\<close>

definition held :: "limiter \<Rightarrow> string \<Rightarrow> nat" where
  "held l key = (case map_of (entries l) key of None \<Rightarrow> 0 | Some e \<Rightarrow> inFlight e)"

lemma held_putEntry: "held (putEntry k e l) key = (if key = k then inFlight e else held l key)"
  by (simp add: held_def)

lemma held_Reset: "held (Reset k l) key = (if key = k then 0 else held l key)"
  by (simp add: held_def)

lemma held_evictOne:
  assumes "evictOneLocked now l = Some l'" "distinct (map fst (entries l))"
  shows "held l' key = held l key"
proof -
  obtain k w where k: "stalestLocked now w l = Some k" "l' = Reset k l"
    using assms(1) by (auto simp: evictOneLocked_def split: option.splits)
  then obtain e where "(k, e) \<in> set (entries l)" "inFlight e = 0"
    using stalestLocked_Some [OF k(1)] by (auto simp: evictable_def)
  then have "held l k = 0" using assms(2) by (simp add: held_def)
  then show ?thesis by (simp add: k(2) held_Reset)
qed

lemma held_evictLoop: "distinct (map fst (entries l)) \<Longrightarrow> held (evictLoop now l) key = held l key"
proof (induction now l rule: evictLoop.induct)
  case (1 now l)
  show ?case
  proof (cases "maxKeys l \<le> int (length (entries l)) \<and> evictOneLocked now l \<noteq> None")
    case True
    then obtain l' where e: "evictOneLocked now l = Some l'" by auto
    then obtain k where "l' = Reset k l" using evictOneLocked_cases by blast
    then have "distinct (map fst (entries l'))" using "1.prems" by (simp add: distinct_delete)
    then show ?thesis using "1.IH" [OF _ e] True e held_evictOne [OF e "1.prems"] by (subst evictLoop.simps) simp
  qed (subst evictLoop.simps, auto)
qed

lemma held_entryLocked:
  assumes "entryLocked now key l = (e, l0)" "distinct (map fst (entries l))"
  shows "held l0 k = held l k" "inFlight e = held l key"
proof -
  have m: "held (makeRoomLocked now l) k = held l k" for k
    using held_evictLoop [of "l\<lparr>maxKeys := DefaultMaxKeys\<rparr>"] held_evictLoop [of l] assms(2)
    by (simp add: makeRoomLocked_def held_def)
  show "held l0 k = held l k" "inFlight e = held l key"
    using assms(1) m [of k] by (auto simp: entryLocked_def held_putEntry split: option.splits) (auto simp: held_def)
qed

lemma held_Begin:
  assumes "Begin now key l = ((until, ok), l')" "distinct (map fst (entries l))"
  shows "held l' k = held l k + (if ok \<and> k = key then 1 else 0)"
proof -
  obtain e l0 where e: "entryLocked now key l = (e, l0)" by fastforce
  note h = held_entryLocked [OF e assms(2)]
  show ?thesis using assms(1) h
    by (auto simp: Begin_def e Let_def held_putEntry clearExpiredLocked_le pruneMembersLocked_le split: if_splits)
qed

lemma held_gc: "held (gcLocked key e (putEntry key e l)) k = (if k = key then inFlight e else held l k)"
  by (auto simp: gcLocked_def held_Reset held_putEntry)

lemma held_Release: "held (Release key l) k = (if k = key then held l k - 1 else held l k)"
proof (cases "map_of (entries l) key")
  case None
  then show ?thesis by (auto simp: Release_def held_def)
next
  case (Some e)
  then have "held l key = inFlight e" by (simp add: held_def)
  with Some show ?thesis by (simp add: Release_def Let_def held_gc)
qed

lemma held_CommitSuccess: "held (CommitSuccess now key l) k = (if k = key then held l k - 1 else held l k)"
proof (cases "map_of (entries l) key")
  case None
  then show ?thesis by (auto simp: CommitSuccess_def held_def)
next
  case (Some e)
  then have "held l key = inFlight e" by (simp add: held_def)
  with Some show ?thesis by (simp add: CommitSuccess_def Let_def held_gc pruneMembersLocked_le)
qed

lemma held_CommitFail:
  assumes "CommitFail now key l = (r, l')" "distinct (map fst (entries l))"
  shows "held l' k = (if k = key then held l k - 1 else held l k)"
proof -
  obtain e l0 where e: "entryLocked now key l = (e, l0)" by fastforce
  obtain r' e' where c: "countFail now l0 (releaseSlot e) = (r', e')" by fastforce
  note h = held_entryLocked [OF e assms(2)]
  have "l' = putEntry key e' l0" using assms(1) by (simp add: CommitFail_def e c)
  then show ?thesis using h countFail_props(2) [OF c] by (simp add: held_putEntry)
qed

lemma held_CommitFailFor:
  assumes "CommitFailFor now key member l = (r, l')" "wfLimiter l"
  shows "held l' k = (if k = key then held l k - 1 else held l k)"
proof -
  have d: "distinct (map fst (entries l))" using assms(2) by (simp add: wfLimiter_def)
  obtain e l0 where e: "entryLocked now key l = (e, l0)" by fastforce
  obtain r' e' where c: "countMember now member l0 (releaseSlot e) = (r', e')" by fastforce
  note h = held_entryLocked [OF e d]
  have w: "wfAttempt (releaseSlot e)" using wf_entryLocked [OF e assms(2)] by simp
  have "l' = putEntry key e' l0" using assms(1) by (simp add: CommitFailFor_def commitFailForLocked_def e c)
  moreover have "inFlight e' = inFlight (releaseSlot e)"
    using countMember_props [OF c w] by blast
  ultimately show ?thesis using h by (simp add: held_putEntry)
qed

lemma held_Configure: "held (Configure mx lock l) = held l"
  by (simp add: held_def Configure_def fun_eq_iff)

section \<open>What an action owes\<close>

definition owes :: "(bucket \<Rightarrow> string \<Rightarrow> nat) \<Rightarrow> (bucket \<times> string) list \<Rightarrow> srv \<Rightarrow> bool" where
  "owes base A s = ((\<forall>b. wfLimiter (svLimits s b)) \<and> (\<forall>b k. held (svLimits s b) k = base b k + count_list A (b, k)))"

text \<open>From a state that owes \<open>A\<close>: a response owes nothing any more, a result \<open>x\<close> owes \<open>Q x\<close>.\<close>

definition settles :: "(bucket \<times> string) list \<Rightarrow> 'a act \<Rightarrow> ('a \<Rightarrow> (bucket \<times> string) list) \<Rightarrow> bool" where
  "settles A m Q = (\<forall>base s. owes base A s \<longrightarrow>
     (case fst (m s) of Inl r \<Rightarrow> owes base [] (snd (m s)) | Inr x \<Rightarrow> owes base (Q x) (snd (m s))))"

abbreviation quiet :: "'a act \<Rightarrow> bool" where
  "quiet m \<equiv> settles [] m (\<lambda>_. [])"

definition total :: "'a act \<Rightarrow> bool" where
  "total m = (\<forall>s. \<exists>x. fst (m s) = Inr x)"

named_theorems quiet_rules
named_theorems total_rules

lemma settles_Inl: "settles A m Q \<Longrightarrow> owes base A s \<Longrightarrow> m s = (Inl r, s') \<Longrightarrow> owes base [] s'"
  unfolding settles_def by fastforce

lemma settles_Inr: "settles A m Q \<Longrightarrow> owes base A s \<Longrightarrow> m s = (Inr x, s') \<Longrightarrow> owes base (Q x) s'"
  unfolding settles_def by fastforce

lemma settlesI:
  assumes "\<And>base s r s'. owes base A s \<Longrightarrow> m s = (Inl r, s') \<Longrightarrow> owes base [] s'"
    and "\<And>base s x s'. owes base A s \<Longrightarrow> m s = (Inr x, s') \<Longrightarrow> owes base (Q x) s'"
  shows "settles A m Q"
  unfolding settles_def
proof (intro allI impI)
  fix base and s :: srv assume "owes base A s"
  then show "case fst (m s) of Inl r \<Rightarrow> owes base [] (snd (m s)) | Inr x \<Rightarrow> owes base (Q x) (snd (m s))"
    using assms [of base s] by (cases "m s"; cases "fst (m s)") simp_all
qed

lemma settles_bind:
  assumes "settles A m Q" "\<And>x. settles (Q x) (f x) R"
  shows "settles A (hbind m f) R"
proof (rule settlesI)
  fix base s r s' assume s: "owes base A s" and b: "hbind m f s = (Inl r, s')"
  obtain r0 s0 where m: "m s = (r0, s0)" by fastforce
  show "owes base [] s'"
  proof (cases r0)
    case (Inl e)
    then show ?thesis using settles_Inl [OF assms(1) s] m b by (simp add: hbind_def)
  next
    case (Inr x)
    then show ?thesis using settles_Inl [OF assms(2) settles_Inr [OF assms(1) s]] m b by (simp add: hbind_def)
  qed
next
  fix base s x s' assume s: "owes base A s" and b: "hbind m f s = (Inr x, s')"
  obtain r0 s0 where m: "m s = (r0, s0)" by fastforce
  then obtain y where "r0 = Inr y" using b by (cases r0) (auto simp: hbind_def)
  then show "owes base (R x) s'"
    using settles_Inr [OF assms(2) settles_Inr [OF assms(1) s]] m b by (simp add: hbind_def)
qed

lemma settles_then: "settles A m (\<lambda>_. B) \<Longrightarrow> settles B k R \<Longrightarrow> settles A (hthen m k) R"
  unfolding hthen_def by (rule settles_bind)

lemma settles_frame:
  assumes "total m" "quiet m"
  shows "settles A m (\<lambda>_. A)"
proof (rule settlesI)
  fix base s r s' assume "m s = (Inl r, s')"
  then show "owes base [] s'" using assms(1) unfolding total_def by (metis Inl_Inr_False fst_conv)
next
  fix base s x s' assume s: "owes base A s" and m: "m s = (Inr x, s')"
  have "owes (\<lambda>b k. base b k + count_list A (b, k)) [] s" using s by (simp add: owes_def)
  from settles_Inr [OF assms(2) this m] show "owes base A s'" by (simp add: owes_def)
qed

lemma settles_if:
  "(c \<Longrightarrow> settles A m R) \<Longrightarrow> (\<not> c \<Longrightarrow> settles A k R) \<Longrightarrow> settles A (if c then m else k) R"
  by simp

lemma settles_sum:
  "(\<And>e. settles A (f e) R) \<Longrightarrow> (\<And>x. settles A (g x) R) \<Longrightarrow> settles A (case r of Inl e \<Rightarrow> f e | Inr x \<Rightarrow> g x) R"
  by (cases r) simp_all

lemma settles_option:
  "(v = None \<Longrightarrow> settles A m R) \<Longrightarrow> (\<And>x. v = Some x \<Longrightarrow> settles A (g x) R) \<Longrightarrow>
     settles A (case v of None \<Rightarrow> m | Some x \<Rightarrow> g x) R"
  by (cases v) simp_all

lemma settles_pair: "(\<And>a b. p = (a, b) \<Longrightarrow> settles A (h a b) R) \<Longrightarrow> settles A (case p of (a, b) \<Rightarrow> h a b) R"
  by (cases p) simp

lemmas settles_split = settles_if settles_sum settles_option settles_pair

lemma settles_answer: "settles [] (answer r) Q"
  by (simp add: settles_def answer_def)

lemma settles_ret: "settles (Q x) (ret x) Q"
  by (simp add: settles_def ret_def)

section \<open>The actions\<close>

text \<open>An action that leaves the limiters alone settles nothing and owes nothing.\<close>

lemma settles_untouched:
  assumes "\<And>s. svLimits (snd (m s)) = svLimits s" "total m"
  shows "settles A m (\<lambda>_. A)"
  by (rule settlesI) (use assms in \<open>simp_all add: total_def owes_def\<close>, (metis Inl_Inr_False fst_conv snd_conv)+)

lemma total_basic [total_rules]:
  "total (ret x)" "total (cookie c)" "total (clockNow w)" "total (call w op)" "total (query w f)" "total (audit w a)"
  "total (limit w b lop)"
  by (auto simp: total_def ret_def cookie_def clockNow_def query_def call_def audit_def limit_def Let_def split: prod.split)

lemma total_bind [total_rules]: "total m \<Longrightarrow> (\<And>x. total (f x)) \<Longrightarrow> total (hbind m f)"
  unfolding total_def hbind_def by (metis (no_types, lifting) old.sum.simps(6) prod.collapse prod.simps(2))

lemma total_then [total_rules]: "total m \<Longrightarrow> total k \<Longrightarrow> total (hthen m k)"
  unfolding hthen_def by (rule total_bind)

lemma total_split [total_rules]:
  "(c \<Longrightarrow> total m) \<Longrightarrow> (\<not> c \<Longrightarrow> total k) \<Longrightarrow> total (if c then m else k)"
  "(\<And>e. total (f e)) \<Longrightarrow> (\<And>x. total (g x)) \<Longrightarrow> total (case r of Inl e \<Rightarrow> f e | Inr x \<Rightarrow> g x)"
  "(v = None \<Longrightarrow> total m) \<Longrightarrow> (\<And>x. v = Some x \<Longrightarrow> total (h x)) \<Longrightarrow> total (case v of None \<Rightarrow> m | Some x \<Rightarrow> h x)"
  "(\<And>a b. total (k' a b)) \<Longrightarrow> total (case p of (a, b) \<Rightarrow> k' a b)"
  by (auto split: sum.split option.split prod.split)

lemma settles_ret': "settles A (ret x) (\<lambda>_. A)"
  by (rule settles_ret)

lemma settles_basic:
  "settles A (cookie c) (\<lambda>_. A)" "settles A (clockNow w) (\<lambda>_. A)" "settles A (call w op) (\<lambda>_. A)"
  "settles A (query w f) (\<lambda>_. A)" "settles A (audit w a) (\<lambda>_. A)"
  by (rule settles_untouched; (rule total_rules)?;
      simp add: cookie_def clockNow_def query_def call_def audit_def Let_def split: prod.split)+

lemma quiet_answer [quiet_rules]: "quiet (answer r)"
  by (rule settles_answer)

lemmas quiet_basic [quiet_rules] = settles_basic [of "[]"] settles_ret' [of "[]"]

lemma quiet_bind [quiet_rules]: "quiet m \<Longrightarrow> (\<And>x. quiet (f x)) \<Longrightarrow> quiet (hbind m f)"
  by (rule settles_bind)

lemma quiet_then [quiet_rules]: "quiet m \<Longrightarrow> quiet k \<Longrightarrow> quiet (hthen m k)"
  by (rule settles_then)

lemmas quiet_split [quiet_rules] = settles_split [where A = "[]" and R = "\<lambda>_. []"]

text \<open>The four ways a slot moves.\<close>

lemma owes_update:
  assumes "owes base A s" "wfLimiter l'"
    and "\<And>k. held l' k + count_list A (b, k) = held (svLimits s b) k + count_list B (b, k)"
    and "\<And>c k. c \<noteq> b \<Longrightarrow> count_list B (c, k) = count_list A (c, k)"
  shows "owes base B (s\<lparr>svLimits := (svLimits s)(b := l'), svTick := n\<rparr>)"
proof -
  have "held l' k = base b k + count_list B (b, k)" for k
    using assms(1) assms(3) [of k] by (auto simp: owes_def)
  then show ?thesis using assms(1,2,4) by (auto simp: owes_def)
qed

lemma wf_distinct: "owes base A s \<Longrightarrow> distinct (map fst (entries (svLimits s b)))"
  by (simp add: owes_def wfLimiter_def)

lemma owes_held: "owes base ((b, key) # A) s \<Longrightarrow> 1 \<le> held (svLimits s b) key"
  by (simp add: owes_def)

lemma settles_limitOp:
  assumes "\<And>l now r l'. wfLimiter l \<Longrightarrow> op now l = (r, l') \<Longrightarrow> wfLimiter l'"
    and "\<And>base s now r l'. owes base A s \<Longrightarrow> op now (svLimits s b) = (r, l') \<Longrightarrow>
           (\<forall>k. held l' k + count_list A (b, k) = held (svLimits s b) k + count_list (Q r) (b, k)) \<and>
           (\<forall>c k. c \<noteq> b \<longrightarrow> count_list (Q r) (c, k) = count_list A (c, k))"
  shows "settles A (limit w b op) Q"
proof (rule settlesI)
  fix base s r s' assume "limit w b op s = (Inl r, s')"
  then show "owes base [] s'" by (simp add: limit_def Let_def split: prod.splits)
next
  fix base s x s' assume s: "owes base A s" and e: "limit w b op s = (Inr x, s')"
  obtain l' where l: "op (wClock w (svTick s)) (svLimits s b) = (x, l')"
    "s' = s\<lparr>svLimits := (svLimits s)(b := l'), svTick := Suc (svTick s)\<rparr>"
    using e by (auto simp: limit_def Let_def split: prod.splits)
  have "wfLimiter (svLimits s b)" using s by (simp add: owes_def)
  from assms(1) [OF this l(1)] assms(2) [OF s l(1)] show "owes base (Q x) s'"
    unfolding l(2) by (intro owes_update [OF s]) auto
qed

definition slotTaken :: "bucket \<Rightarrow> string \<Rightarrow> (bucket \<times> string) list \<Rightarrow> gotime \<times> bool \<Rightarrow> (bucket \<times> string) list" where
  "slotTaken b key A x = (if snd x then (b, key) # A else A)"

lemma settles_begin: "settles A (beginSlot w b key) (slotTaken b key A)"
  unfolding beginSlot_def
proof (rule settles_limitOp)
  fix l now r l' assume "wfLimiter l" "Begin now key l = (r, l')"
  then show "wfLimiter l'" using Begin_wf by (metis snd_conv)
next
  fix base s now r l' assume s: "owes base A s" and e: "Begin now key (svLimits s b) = (r, l')"
  obtain until ok where r: "r = (until, ok)" by fastforce
  show "(\<forall>k. held l' k + count_list A (b, k) = held (svLimits s b) k + count_list (slotTaken b key A r) (b, k)) \<and>
    (\<forall>c k. c \<noteq> b \<longrightarrow> count_list (slotTaken b key A r) (c, k) = count_list A (c, k))"
    using held_Begin [OF e [unfolded r] wf_distinct [OF s]] by (auto simp: slotTaken_def r)
qed

lemma settles_give:
  assumes "\<And>l now r l'. wfLimiter l \<Longrightarrow> op now l = (r, l') \<Longrightarrow>
      wfLimiter l' \<and> (\<forall>k. held l' k = (if k = key then held l k - 1 else held l k))"
  shows "settles ((b, key) # A) (limit w b op) (\<lambda>_. A)"
proof (rule settles_limitOp)
  show "wfLimiter l'" if "wfLimiter l" "op now l = (r, l')" for l now r l' using assms that by blast
next
  fix base s now r l' assume s: "owes base ((b, key) # A) s" and e: "op now (svLimits s b) = (r, l')"
  have "wfLimiter (svLimits s b)" using s by (simp add: owes_def)
  from assms [OF this e] owes_held [OF s]
  show "(\<forall>k. held l' k + count_list ((b, key) # A) (b, k) = held (svLimits s b) k + count_list A (b, k)) \<and>
    (\<forall>c k. c \<noteq> b \<longrightarrow> count_list A (c, k) = count_list ((b, key) # A) (c, k))" by auto
qed

lemma settles_swap: "settles (x # y # A) m Q \<Longrightarrow> settles (y # x # A) m Q"
  unfolding settles_def owes_def by (simp add: add.commute add.left_commute cong: if_cong) 

lemma settles_gives:
  "settles ((b, key) # A) (commitFail w b key) (\<lambda>_. A)" "settles ((b, key) # A) (commitSuccess w b key) (\<lambda>_. A)"
  "settles ((b, key) # A) (releaseKey w b key) (\<lambda>_. A)" "settles ((b, key) # A) (commitFailFor w b key member) (\<lambda>_. A)"
proof -
  have "wfLimiter l' \<and> (\<forall>k. held l' k = (if k = key then held l k - 1 else held l k))"
    if "wfLimiter l" "CommitFail now key l = (r, l')" for l now r l'
    using held_CommitFail [OF that(2)] CommitFail_wf [OF that(1), of now key] that by (simp add: wfLimiter_def)
  then show "settles ((b, key) # A) (commitFail w b key) (\<lambda>_. A)" unfolding commitFail_def by (rule settles_give)
  show "settles ((b, key) # A) (commitSuccess w b key) (\<lambda>_. A)" unfolding commitSuccess_def
    by (rule settles_give) (auto simp: held_CommitSuccess CommitSuccess_wf)
  show "settles ((b, key) # A) (releaseKey w b key) (\<lambda>_. A)" unfolding releaseKey_def
    by (rule settles_give) (auto simp: held_Release Release_wf)
  have "wfLimiter l' \<and> (\<forall>k. held l' k = (if k = key then held l k - 1 else held l k))"
    if "wfLimiter l" "CommitFailFor now key member l = (r, l')" for l now r l'
    using held_CommitFailFor [OF that(2,1)] commitFailForLocked_wf [OF that(1), of now key member True] that
    by (simp add: CommitFailFor_def)
  then show "settles ((b, key) # A) (commitFailFor w b key member) (\<lambda>_. A)" unfolding commitFailFor_def by (rule settles_give)
qed

lemma quiet_limits [quiet_rules]: "quiet (configureLoginLimits w)"
  unfolding configureLoginLimits_def Let_def
  by (rule quiet_then; rule settles_limitOp) (auto simp: Configure_wf held_Configure)

lemma settles_slot:
  assumes "\<And>u. settles ((b, key) # A) (m2 u) R" "\<And>u. settles A (m1 u) R"
  shows "settles A (hbind (beginSlot w b key) (\<lambda>(until, ok). if \<not> ok then m1 until else m2 until)) R"
  by (rule settles_bind [OF settles_begin], rename_tac x, case_tac x) (simp add: slotTaken_def assms)

text \<open>The deferred release runs when the body answered; otherwise the slot is still owed.\<close>

lemma settles_deferring:
  assumes "quiet m"
  shows "settles [(b, key)] (deferring m (releaseKey w b key)) (\<lambda>_. [(b, key)])"
proof (rule settlesI)
  fix base s r s' assume s: "owes base [(b, key)] s" and e: "deferring m (releaseKey w b key) s = (Inl r, s')"
  obtain s1 where m: "m s = (Inl r, s1)" "s' = snd (releaseKey w b key s1)"
    using e by (auto simp: deferring_def split: prod.splits sum.splits)
  let ?base = "\<lambda>c k. base c k + count_list [(b, key)] (c, k)"
  have "owes ?base [] s" using s by (simp add: owes_def)
  from settles_Inl [OF assms this m(1)] have o: "owes base [(b, key)] s1" by (simp add: owes_def)
  obtain x s2 where "releaseKey w b key s1 = (Inr x, s2)"
    using total_basic(7) unfolding total_def releaseKey_def by (metis prod.collapse)
  from settles_Inr [OF settles_gives(3) o this] show "owes base [] s'" using \<open>releaseKey w b key s1 = (Inr x, s2)\<close> m(2) by simp
next
  fix base s x s' assume s: "owes base [(b, key)] s" and e: "deferring m (releaseKey w b key) s = (Inr x, s')"
  have m: "m s = (Inr x, s')" using e by (auto simp: deferring_def split: prod.splits sum.splits)
  let ?base = "\<lambda>c k. base c k + count_list [(b, key)] (c, k)"
  have "owes ?base [] s" using s by (simp add: owes_def)
  from settles_Inr [OF assms this m] show "owes base [(b, key)] s'" by (simp add: owes_def)
qed

section \<open>The shared pieces\<close>

lemma quiet_errors [quiet_rules]:
  "quiet (decode body)" "quiet (orInternal r)" "quiet writeRateLimited" "quiet writeSessionInvalid"
  "quiet (writeChallengeError e)" "quiet (requireChallenge w rq ps)" "quiet (writeFactorTxnError eo)"
  "quiet (validatePassword cfg pw)" "quiet (validateProfileName nm)" "quiet (requireEmail em)"
  "quiet (writeTOTPConfirmError e)" "quiet (confirmed u tok codes ch)"
proof -
  show e: "quiet (writeChallengeError e)" for e unfolding writeChallengeError_def by (rule quiet_rules)+
  show v: "quiet writeSessionInvalid" unfolding writeSessionInvalid_def by (rule quiet_rules)+
  show "quiet (decode body)" unfolding decode_def by (rule quiet_rules)+
  show "quiet (orInternal r)" unfolding orInternal_def by (rule quiet_rules)+
  show "quiet writeRateLimited" unfolding writeRateLimited_def by (rule quiet_rules)+
  show "quiet (requireChallenge w rq ps)" unfolding requireChallenge_def by (rule quiet_rules e)+
  show "quiet (writeFactorTxnError eo)" unfolding writeFactorTxnError_def by (rule quiet_rules e v)+
  show "quiet (validatePassword cfg pw)" unfolding validatePassword_def by (rule quiet_rules)+
  show "quiet (validateProfileName nm)" unfolding validateProfileName_def Let_def by (rule quiet_rules)+
  show "quiet (requireEmail em)" unfolding requireEmail_def by (rule quiet_rules)+
  show "quiet (writeTOTPConfirmError e)" unfolding writeTOTPConfirmError_def by (rule quiet_rules e v)+
  show "quiet (confirmed u tok codes ch)" unfolding confirmed_def by (rule quiet_rules)+
qed

lemma quiet_sessions [quiet_rules]:
  "quiet (enqueueMail w cfg template args)" "quiet (notifyRecoveryCodeUsed w cfg u)" "quiet (notifyIfRecovery w cfg u p)"
  "quiet (workThenNotify w cfg u op p)" "quiet (startChallenge w cfg u purpose mb)" "quiet (issueAndRespond w cfg rq u)"
  "quiet (completeLogin w cfg rq u mb)" "quiet (newRecoveryCodeSet w cfg uid)" "quiet (notifyReuse w cfg uid)"
  "quiet (anonymousMe w)" "quiet (refuseCode n)" "quiet (onIdentity w iop)" "quiet (sendReset w cfg em)"
  "quiet (verifyTOTPProof w cfg uid code)" "quiet (challengeProofFor w cfg u code cid)"
  "quiet (loadTwoFactorStatusWithTOTPOnly w cfg uid)"
proof -
  show m: "quiet (enqueueMail w cfg template args)" for template args unfolding enqueueMail_def by (rule quiet_rules)+
  show n: "quiet (notifyRecoveryCodeUsed w cfg u)" unfolding notifyRecoveryCodeUsed_def by (rule quiet_rules m)+
  show p: "quiet (notifyIfRecovery w cfg u p)" unfolding notifyIfRecovery_def by (rule quiet_rules n)+
  show "quiet (workThenNotify w cfg u op p)" unfolding workThenNotify_def by (rule quiet_rules p)+
  show c: "quiet (startChallenge w cfg u purpose mb)" for purpose
    unfolding startChallenge_def beginChallenge_def beginChallengeFor_def by (rule quiet_rules)+
  show i: "quiet (issueAndRespond w cfg rq u)" unfolding issueAndRespond_def issueSession_def by (rule quiet_rules)+
  show "quiet (completeLogin w cfg rq u mb)" unfolding completeLogin_def by (rule quiet_rules c i)+
  show "quiet (newRecoveryCodeSet w cfg uid)" unfolding newRecoveryCodeSet_def by (rule quiet_rules)+
  show "quiet (notifyReuse w cfg uid)" unfolding notifyReuse_def by (rule quiet_rules m)+
  show "quiet (anonymousMe w)" unfolding anonymousMe_def by (rule quiet_rules)+
  show "quiet (refuseCode n)" unfolding refuseCode_def Let_def by (rule quiet_rules)+
  show "quiet (onIdentity w iop)" unfolding onIdentity_def by (rule quiet_rules)
  show "quiet (sendReset w cfg em)" unfolding sendReset_def by (rule quiet_rules m)+
  show v: "quiet (verifyTOTPProof w cfg uid code)" for uid code unfolding verifyTOTPProof_def by (rule quiet_rules)+
  show "quiet (challengeProofFor w cfg u code cid)" unfolding challengeProofFor_def Let_def by (rule quiet_rules v)+
  show "quiet (loadTwoFactorStatusWithTOTPOnly w cfg uid)" unfolding loadTwoFactorStatusWithTOTPOnly_def by (rule quiet_rules)+
qed

lemma total_pieces [total_rules]:
  "total (enqueueMail w cfg template args)" "total (notifyRecoveryCodeUsed w cfg u)" "total (notifyIfRecovery w cfg u p)"
  "total (workThenNotify w cfg u op p)" "total (sendReset w cfg em)"
  "hCodeMAC cfg \<noteq> None \<Longrightarrow> total (newRecoveryCodeSet w cfg uid)"
  "hCipher cfg \<noteq> None \<Longrightarrow> total (verifyTOTPProof w cfg uid code)"
proof -
  show m: "total (enqueueMail w cfg template args)" for template args unfolding enqueueMail_def by (rule total_rules)+
  show n: "total (notifyRecoveryCodeUsed w cfg u)" unfolding notifyRecoveryCodeUsed_def by (rule total_rules m)+
  show p: "total (notifyIfRecovery w cfg u p)" unfolding notifyIfRecovery_def by (rule total_rules n)+
  show "total (workThenNotify w cfg u op p)" unfolding workThenNotify_def by (rule total_rules p)+
  show "total (sendReset w cfg em)" unfolding sendReset_def by (rule total_rules m)+
  show "total (newRecoveryCodeSet w cfg uid)" if "hCodeMAC cfg \<noteq> None"
    unfolding newRecoveryCodeSet_def using that by (auto intro!: total_rules)
  show "total (verifyTOTPProof w cfg uid code)" if "hCipher cfg \<noteq> None"
    unfolding verifyTOTPProof_def using that by (auto intro!: total_rules split: option.split)
qed

section \<open>The step-up proof\<close>

text \<open>A server has both keys or neither.\<close>

definition wired :: "handlerCfg \<Rightarrow> bool" where
  "wired cfg = (hCodeMAC cfg = None \<longrightarrow> hCipher cfg = None)"

lemma quiet_try [quiet_rules]: "quiet (tryStepUpProof w cfg uid u code)"
  unfolding tryStepUpProof_def tryNumericStepUpProof_def tryMailedStepUpProof_def tryRecoveryStepUpProof_def Let_def
  by (rule quiet_rules)+

lemma total_try [total_rules]: "total (tryStepUpProof w cfg uid u code)"
  unfolding tryStepUpProof_def tryNumericStepUpProof_def tryMailedStepUpProof_def tryRecoveryStepUpProof_def Let_def
  by (rule total_rules | assumption)+

lemma settles_stepUp: "settles ((StepUpUser, key) # A) (settleStepUp w key e) (\<lambda>_. A)"
  unfolding settleStepUp_def by (rule settles_split settles_gives settles_then settles_ret')+

lemma try_rejects:
  assumes "hCodeMAC cfg = None" "hCipher cfg = None"
  shows "hbind (tryStepUpProof w cfg uid u code) k = k (Inl ErrBadCredentials)"
  by (rule ext) (simp add: assms tryStepUpProof_def tryNumericStepUpProof_def tryMailedStepUpProof_def
      tryRecoveryStepUpProof_def ret_def hbind_def Let_def split: option.split)

lemma quiet_withStepUp [quiet_rules]:
  assumes "wired cfg" "\<And>p. hCodeMAC cfg \<noteq> None \<Longrightarrow> quiet (work p)"
  shows "quiet (withStepUp w cfg uid u code work)"
proof -
  let ?key = "userBucketKey ''stepup'' uid"
  let ?k = "\<lambda>r. case r of
       Inl e \<Rightarrow> hthen (settleStepUp w ?key (Some ErrBadCredentials)) (ret (Inl (errReply 401 ''invalid_code'')))
     | Inr proof \<Rightarrow> hbind (deferring (work proof) (releaseKey w StepUpUser ?key)) (\<lambda>e.
                      hthen (settleStepUp w ?key e) (ret (Inr (proof, e))))"
  have l: "settles [(StepUpUser, ?key)] (?k (Inl e)) (\<lambda>_. [])" for e
    by (simp only: sum.case) (rule settles_then settles_stepUp settles_ret')+
  have "settles [(StepUpUser, ?key)] (hbind (tryStepUpProof w cfg uid u code) ?k) (\<lambda>_. [])"
  proof (cases "hCodeMAC cfg = None")
    case True
    then have c: "hCipher cfg = None" using assms(1) by (simp add: wired_def)
    show ?thesis unfolding try_rejects [OF True c] by (rule l)
  next
    case False
    have "settles [(StepUpUser, ?key)] (?k r) (\<lambda>_. [])" for r
    proof (cases r)
      case (Inl e) then show ?thesis using l by simp
    next
      case (Inr p)
      have "settles [(StepUpUser, ?key)] (hbind (deferring (work p) (releaseKey w StepUpUser ?key)) (\<lambda>e.
                      hthen (settleStepUp w ?key e) (ret (Inr (p, e))))) (\<lambda>_. [])"
        by (rule settles_bind [OF settles_deferring [OF assms(2) [OF False]]]) (rule settles_then settles_stepUp settles_ret')+
      then show ?thesis using Inr by simp
    qed
    then show ?thesis by (rule settles_bind [OF settles_frame [OF total_try quiet_try]])
  qed
  then show ?thesis unfolding withStepUp_def Let_def by (intro settles_slot settles_ret')
qed

lemma total_deferring: "total m \<Longrightarrow> total (deferring m d)"
  unfolding total_def deferring_def by (metis (no_types, lifting) case_prod_unfold fst_conv sum.case(2))

lemma total_settleStepUp [total_rules]: "total (settleStepUp w key e)"
  unfolding settleStepUp_def commitFail_def commitSuccess_def releaseKey_def by (rule total_rules)+

lemma total_withStepUp:
  assumes "wired cfg" "\<And>p. hCodeMAC cfg \<noteq> None \<Longrightarrow> total (work p)"
  shows "total (withStepUp w cfg uid u code work)"
proof (cases "hCodeMAC cfg = None")
  case True
  have c: "hCipher cfg = None" using assms(1) True by (simp add: wired_def)
  show ?thesis unfolding withStepUp_def Let_def try_rejects [OF True c] sum.case beginSlot_def by (rule total_rules)+
next
  case False
  show ?thesis unfolding withStepUp_def Let_def beginSlot_def
    by (rule total_rules total_deferring assms(2) [OF False])+
qed

section \<open>The endpoints\<close>

lemma settles_beginPassword:
  "settles [] (beginStepUpPassword w uid) (\<lambda>key. [(StepUpPasswordUser, key)])"
  unfolding beginStepUpPassword_def Let_def
  by (rule settles_slot) (simp_all add: writeRateLimited_def settles_answer, simp add: settles_def ret_def)

lemma settles_password:
  "settles [(StepUpPasswordUser, key)] (passwordOutcome w key done e) (\<lambda>_. [])"
  unfolding passwordOutcome_def by (rule settles_split settles_then settles_gives quiet_rules)+

lemma quiet_enrollment [quiet_rules]:
  "quiet (enrollmentPrincipal w cfg rq pw)" "quiet (enrollmentPrincipalNoPassword w rq)"
proof -
  have v: "settles [(StepUpPasswordUser, key)]
      (hbind (query w f) (\<lambda>r. case r of
              Inl e \<Rightarrow>
                if e = ErrBadCredentials \<or> e = ErrPasswordMissing
                then hthen (commitFail w StepUpPasswordUser key) (answer (errReply 401 ''invalid_credentials''))
                else hthen (releaseKey w StepUpPasswordUser key) (answer internalError)
            | Inr v \<Rightarrow> hthen (commitSuccess w StepUpPasswordUser key) (ret (uid, v, sid)))) (\<lambda>_. [])" for key f uid sid
    by (rule settles_bind [OF settles_basic(4)]) (rule settles_split settles_then settles_gives quiet_rules)+
  show "quiet (enrollmentPrincipal w cfg rq pw)"
    unfolding enrollmentPrincipal_def by (rule quiet_rules v settles_bind [OF settles_beginPassword] | simp add: v)+
  show "quiet (enrollmentPrincipalNoPassword w rq)"
    unfolding enrollmentPrincipalNoPassword_def by (rule quiet_rules)+
qed

lemma quiet_factors [quiet_rules]:
  "quiet (Verify2FA w cfg rq i)" "quiet (SendEmailOTP w cfg rq)" "quiet (StartTOTP w cfg rq i)" "quiet (TOTPQR w cfg rq)"
  "quiet (ConfirmTOTP w cfg rq i)" "quiet (StartEmailFactor w cfg rq i)" "quiet (SendStepUpEmailOTP w cfg p)"
  "quiet (TwoFactorStatus w cfg p)"
  unfolding Verify2FA_def examineCode_def finishVerify2FA_def SendEmailOTP_def StartTOTP_def TOTPQR_def ConfirmTOTP_def
    pendingTOTPEnrollment_def confirmEnrollmentSession_def StartEmailFactor_def SendStepUpEmailOTP_def TwoFactorStatus_def
  by (rule quiet_rules)+

lemma settles_withStepUp:
  assumes "wired cfg" "\<And>p. hCodeMAC cfg \<noteq> None \<Longrightarrow> quiet (work p) \<and> total (work p)"
  shows "settles A (withStepUp w cfg uid u code work) (\<lambda>_. A)"
  by (rule settles_frame [OF total_withStepUp quiet_withStepUp]) (use assms in blast)+

lemma quiet_stepUps:
  assumes c: "wired cfg"
  shows "quiet (DisableTOTPHandler w cfg p i)" "quiet (RegenerateRecoveryCodesHandler w cfg p i)"
    "quiet (DisableEmailFactorHandler w cfg p i)" "quiet (SetPasswordHandler w cfg p i)"
    "quiet (ChangePasswordHandler w cfg p i)"
proof -
  note rules = quiet_rules settles_bind [OF settles_beginPassword] settles_bind [OF settles_withStepUp [OF c]]
    settles_split settles_then settles_gives settles_password
  have n: "quiet (workThenNotify w cfg u op p) \<and> total (workThenNotify w cfg u op p)" for u op p
    by (intro conjI quiet_sessions total_pieces)
  show "quiet (DisableTOTPHandler w cfg p i)"
    unfolding DisableTOTPHandler_def by (rule rules n)+
  have r: "quiet m \<and> total m" if "m = hbind (newRecoveryCodeSet w cfg uid) (\<lambda>cr.
                case cr of Inl e \<Rightarrow> ret (Some e)
                | Inr (codes, hashes) \<Rightarrow> workThenNotify w cfg u (op hashes) p)" "hCodeMAC cfg \<noteq> None" for m uid u op p
    unfolding that(1) by (rule conjI; (rule quiet_rules total_rules that(2))+)
  show "quiet (RegenerateRecoveryCodesHandler w cfg p i)"
    unfolding RegenerateRecoveryCodesHandler_def by (rule rules r refl | assumption)+
  have d: "quiet m \<and> total m" if "m = hbind (call w op) (\<lambda>r. ret (errOf r))" for m op
    unfolding that by (rule conjI; (rule quiet_rules total_rules)+)
  show "quiet (DisableEmailFactorHandler w cfg p i)"
    unfolding DisableEmailFactorHandler_def by (rule rules d refl settles_bind [OF settles_basic(4)] | assumption)+
  show "quiet (SetPasswordHandler w cfg p i)"
    unfolding SetPasswordHandler_def by (rule rules n [THEN conjunct1] c)+
  show "quiet (ChangePasswordHandler w cfg p i)"
    unfolding ChangePasswordHandler_def by (rule rules settles_bind [OF settles_basic(3)] | assumption)+
qed

lemma quiet_ConfirmEmail [quiet_rules]: "quiet (ConfirmEmailFactor w cfg rq i)"
proof (cases "hCodeMAC cfg")
  case None
  then show ?thesis unfolding ConfirmEmailFactor_def by (simp add: quiet_answer)
next
  case (Some m)
  let ?slots = "\<lambda>x :: challenge option \<times> string option. case snd x of None \<Rightarrow> [] | Some k \<Rightarrow> [(StepUpUser, k)]"
  have w: "settles [] (writeChallengeError e) ?slots" for e
    by (rule settlesI) (use settles_Inl [OF quiet_errors(5)] writeChallengeError_ends in \<open>blast, metis fst_conv\<close>)
  have v: "settles A (ret x) ?slots" if "A = ?slots x" for A x
    by (simp add: that settles_def ret_def)
  have r: "settles [] (reserveEmailFactorConfirm w rq uid) ?slots" for uid
    unfolding reserveEmailFactorConfirm_def Let_def
    by (rule settles_option settles_bind [OF settles_basic(3)] settles_bind [OF settles_basic(4)] settles_sum settles_slot w v
        | simp add: writeRateLimited_def settles_answer)+
  have e: "settles (?slots (ch, key)) (settleEnroll w key eo) (\<lambda>_. [])" for ch key eo
    unfolding settleEnroll_def by (cases key) (simp_all add: settles_stepUp settles_ret')
  have k: "settles (?slots (ch, key)) (case key of None \<Rightarrow> ret () | Some k \<Rightarrow> releaseKey w StepUpUser k) (\<lambda>_. [])" for ch key
    by (cases key) (simp_all add: settles_gives settles_ret')
  have n: "settles A (newRecoveryCodeSet w cfg uid) (\<lambda>_. A)" for A uid
    by (rule settles_frame [OF total_pieces(6) quiet_sessions(8)]) (simp add: Some)
  show ?thesis
    unfolding ConfirmEmailFactor_def
    by (rule quiet_rules settles_bind [OF r] settles_split settles_bind [OF n] settles_bind [OF settles_basic(3)]
        settles_then [OF k] settles_then [OF e] | simp only:)+
qed

lemma quiet_accounts [quiet_rules]:
  "quiet (BootstrapHandler w cfg rq bi)" "quiet (AcceptInviteHandler w cfg rq ai)" "quiet (ResetPassword w cfg rq ri)"
  "quiet (ForgotPassword w cfg rq fi)" "quiet (Login w cfg rq li)"
proof -
  have a: "quiet (withAddressSlot w b key (input :: 'i option) work refusalOf fin)"
    if "\<And>i. quiet (work i)" "\<And>u. quiet (fin u)" for b key input work refusalOf fin
    unfolding withAddressSlot_def
    by (rule settles_slot settles_bind [OF settles_deferring] quiet_rules that settles_split settles_then settles_gives)+
  show "quiet (BootstrapHandler w cfg rq bi)" unfolding BootstrapHandler_def by (rule a quiet_rules)+
  show "quiet (AcceptInviteHandler w cfg rq ai)" unfolding AcceptInviteHandler_def by (rule a quiet_rules)+
  show "quiet (ResetPassword w cfg rq ri)" unfolding ResetPassword_def by (rule a quiet_rules)+
  have s: "settles A (sendReset w cfg em) (\<lambda>_. A)" for A em
    by (rule settles_frame [OF total_pieces(5) quiet_sessions(13)])
  show "quiet (ForgotPassword w cfg rq fi)" unfolding ForgotPassword_def Let_def
    by (rule quiet_bind quiet_errors quiet_split quiet_answer settles_slot settles_then [OF s] settles_then settles_gives)+
  have l: "settles A (recordLoginFailure w ipKey emailKey submitted) (\<lambda>_. [])"
    if "A = [(LoginByIP, ipKey), (LoginByEmail, emailKey)]" for A ipKey emailKey submitted
    unfolding recordLoginFailure_def that by (rule settles_bind [OF settles_gives(4)] settles_bind [OF settles_gives(1)] settles_split quiet_rules)+
  have v: "settles [(LoginByIP, ipKey), (LoginByEmail, emailKey)] (settleLogin w cfg rq ipKey emailKey submitted vd) (\<lambda>_. [])"
    for ipKey emailKey submitted vd
    unfolding settleLogin_def auditLoginRejection_def
    by (rule settles_option settles_bind [OF l] refl quiet_rules settles_then settles_gives)+
  show "quiet (Login w cfg rq li)" unfolding Login_def Let_def
    by (rule quiet_bind quiet_then quiet_errors quiet_limits quiet_split quiet_answer settles_slot settles_bind [OF settles_basic(4)]
        settles_split settles_swap [OF v] settles_then settles_gives settles_swap [OF settles_gives(3)])+
qed

lemma quiet_rest [quiet_rules]:
  "quiet (BootstrapStatus w)" "quiet (Refresh w cfg rq)" "quiet (VerifyEmail w vi)" "quiet (Me w cfg rq)" "quiet (Logout w rq)"
  "quiet (LogoutAll w p)" "quiet (SendEmailVerification w cfg p)"
  unfolding BootstrapStatus_def Refresh_def VerifyEmail_def Me_def Logout_def LogoutAll_def SendEmailVerification_def
  by (rule quiet_rules)+

text \<open>A deferred charge runs on every way out.\<close>

lemma settles_afterwards:
  assumes "quiet m"
  shows "settles [(b, key)] (afterwards m (commitFail w b key)) (\<lambda>_. [])"
proof -
  have e: "owes base [] (snd (commitFail w b key s1))" if "owes base [(b, key)] s1" for base s1
  proof -
    obtain x s2 where c: "commitFail w b key s1 = (Inr x, s2)"
      using total_basic(7) [of w b "\<lambda>now. CommitFail now key"] unfolding total_def commitFail_def by (metis prod.collapse)
    show ?thesis using settles_Inr [OF settles_gives(1) that c] c by simp
  qed
  have o: "owes base [(b, key)] s1" if "owes base [(b, key)] s" "m s = (r, s1)" for base s r s1
  proof -
    let ?base = "\<lambda>c k. base c k + count_list [(b, key)] (c, k)"
    have "owes ?base [] s" using that(1) by (simp add: owes_def)
    then have "owes ?base [] s1"
      using settles_Inl [OF assms] settles_Inr [OF assms] that(2) by (cases r) blast+
    then show ?thesis by (simp add: owes_def)
  qed
  have d: "owes base [] s'" if p: "owes base [(b, key)] s" "afterwards m (commitFail w b key) s = (r, s')" for base s r s'
  proof -
    obtain s1 where "m s = (r, s1)" "s' = snd (commitFail w b key s1)"
      using p(2) by (auto simp: afterwards_def split: prod.splits)
    then show ?thesis using e [OF o [OF p(1)]] by simp
  qed
  show ?thesis by (rule settlesI) (rule d, assumption+)+
qed

lemma quiet_chargedStart [quiet_rules]: "quiet body \<Longrightarrow> quiet (chargedStart w rq body)"
  unfolding chargedStart_def Let_def writeRateLimited_def
  by (intro settles_slot settles_answer settles_afterwards)

lemma quiet_issueSession [quiet_rules]: "quiet (issueSession w cfg rq u)"
  unfolding issueSession_def by (rule quiet_rules)

lemma quiet_redirects [quiet_rules]: "quiet (oauthRedirectError cfg code)" "quiet (oauthRedirect cfg code)"
  unfolding oauthRedirectError_def oauthRedirect_def redirectToSPA_def by (rule quiet_answer)+

lemma quiet_oauth_parts [quiet_rules]:
  "quiet (oauthStartTarget w g purpose i proof ttl)" "quiet (oauthBeginChallenge w cfg nc)" "quiet (TouchIdentity w)"
  "quiet (ConvertToProvider w cfg cid password)"
  unfolding oauthStartTarget_def oauthBeginChallenge_def TouchIdentity_def ConvertToProvider_def
  by (rule quiet_rules)+

lemma quiet_oauthComplete [quiet_rules]: "quiet (oauthComplete w cfg rq u)"
  unfolding oauthComplete_def by (rule quiet_rules)+

lemma quiet_oauthFinish [quiet_rules]:
  "quiet (oauthAutoProvision w cfg rq info)" "quiet (oauthFinishLink w cfg rq st info)"
  "quiet (oauthFinishInvite w cfg rq st info)" "quiet (oauthCheckLink w cfg rq st)"
  unfolding oauthAutoProvision_def oauthFinishLink_def oauthFinishInvite_def oauthCheckLink_def Let_def
  by (rule quiet_rules)+

lemma quiet_oauthFinishLogin [quiet_rules]: "quiet (oauthOfferConversion w cfg rq info)" "quiet (oauthFinishLogin w cfg rq info)"
  unfolding oauthFinishLogin_def oauthOfferConversion_def by (rule quiet_rules)+

lemma quiet_oauth [quiet_rules]:
  "quiet (OAuthStart w cfg rq q)" "quiet (OAuthInviteStart w cfg rq ii)" "quiet (OAuthCallback w cfg rq cq)"
  "quiet (OAuthConvert w cfg rq ci)" "quiet (ListIdentitiesHandler w p)"
  unfolding OAuthStart_def OAuthInviteStart_def OAuthCallback_def OAuthConvert_def ListIdentitiesHandler_def oauthFinish_def
    Let_def
  by (rule quiet_rules)+

lemma quiet_linking:
  assumes c: "wired cfg"
  shows "quiet (OAuthLinkStart w cfg rq p i)" "quiet (OAuthUnlink w cfg p ui)" "quiet (RequestEmailChangeHandler w cfg p ri)"
proof -
  have n: "quiet m \<and> total m" if "m = hbind (call w op) (\<lambda>r.
      case r of Inl e \<Rightarrow> ret (Some ErrBadCredentials) | Inr _ \<Rightarrow> hthen (notifyIfRecovery w cfg u q) (ret None))" for m op u q
    unfolding that by (rule conjI; (rule quiet_rules total_rules total_pieces)+)
  have s: "quiet (checkOAuthLinkSecondFactor w cfg u code)" for u code
    unfolding checkOAuthLinkSecondFactor_def by (rule quiet_bind quiet_rules settles_withStepUp [OF c] n refl)+
  note rules = quiet_rules s settles_bind [OF settles_beginPassword] settles_bind [OF settles_basic(4)] settles_bind [OF settles_basic(3)]
    settles_split settles_then settles_gives
  show "quiet (OAuthLinkStart w cfg rq p i)" unfolding OAuthLinkStart_def by (rule rules)+
  show "quiet (OAuthUnlink w cfg p ui)" unfolding OAuthUnlink_def by (rule rules)+
  show "quiet (RequestEmailChangeHandler w cfg p ri)" unfolding RequestEmailChangeHandler_def Let_def by (rule rules)+
qed

lemma quiet_profile [quiet_rules]:
  "quiet (GetEmailChange w p)" "quiet (CancelEmailChangeHandler w p)" "quiet (ConfirmEmailChange w ci)"
  "quiet (UpdateProfile w cfg rq p ui)" "quiet (SessionsHandler w p)" "quiet (RevokeSessionHandler w p raw)"
  "quiet (LookupInviteHandler w li)" "quiet (ListAPITokensHandler w p)" "quiet (CreateAPITokenHandler w p ti)"
  "quiet (RevokeAPITokenHandler w p raw)" "quiet (UsernameAvailableHandler w p q)"
  unfolding GetEmailChange_def CancelEmailChangeHandler_def ConfirmEmailChange_def UpdateProfile_def profileName_def
    profileLocale_def profileUsername_def SessionsHandler_def RevokeSessionHandler_def pathID_def LookupInviteHandler_def
    ListAPITokensHandler_def CreateAPITokenHandler_def RevokeAPITokenHandler_def onTokens_def UsernameAvailableHandler_def
    onIdentity_def Let_def
  by (rule quiet_rules settles_slot settles_then settles_gives)+

lemma quiet_Mount:
  assumes c: "wired cfg"
  shows "quiet (Mount w cfg rq e)"
proof -
  have a: "quiet (authenticated rq k)" if "\<And>p. quiet (k p)" for k
    unfolding authenticated_def rejectAPIToken_def by (rule quiet_rules that)+
  have b: "quiet (rejectAPIToken rq m)" if "quiet m" for m
    unfolding rejectAPIToken_def by (rule quiet_rules that)+
  show ?thesis by (cases e; simp only: Mount.simps) (rule a b quiet_rules quiet_stepUps [OF c] quiet_linking [OF c])+
qed

lemma quiet_serve:
  assumes "quiet h" "\<forall>b. wfLimiter (svLimits s b)"
  shows "\<forall>b. wfLimiter (svLimits (snd (serve h s)) b) \<and> held (svLimits (snd (serve h s)) b) k = held (svLimits s b) k"
proof -
  let ?s = "s\<lparr>svCookies := []\<rparr>" and ?base = "\<lambda>b. held (svLimits s b)"
  obtain r s' where m: "h ?s = (r, s')" by fastforce
  have o: "owes ?base [] ?s" using assms(2) by (simp add: owes_def)
  have "owes ?base [] s'"
  proof (cases r)
    case (Inl e)
    show ?thesis by (rule settles_Inl [OF assms(1) o m [unfolded Inl]])
  next
    case (Inr x)
    show ?thesis by (rule settles_Inr [OF assms(1) o m [unfolded Inr]])
  qed
  moreover have "snd (serve h s) = s'" by (cases r) (simp_all add: serve_def m)
  ultimately show ?thesis by (simp add: owes_def)
qed

text \<open>
  C14. Whatever is asked and however it ends (refused, failed in the database, undone by a concurrent
  request, panicked), a request gives back exactly the slots it took: no budget leaks and none is freed
  twice.
\<close>

theorem slots_are_returned:
  assumes "wired cfg" "\<forall>b. wfLimiter (svLimits s b)" "serveAll cfg vs s = (log, s')"
  shows "wfLimiter (svLimits s' b) \<and> held (svLimits s' b) key = held (svLimits s b) key"
  using assms(2,3)
proof (induction vs arbitrary: s log)
  case Nil
  then show ?case by simp
next
  case (Cons v vs)
  let ?h = "Mount (viWorld v) cfg (viRequest v) (viEndpoint v)"
  obtain log2 where "serveAll cfg vs (snd (serve ?h s)) = (log2, s')"
    using Cons.prems(2) by (auto split: prod.splits)
  then show ?case
    using Cons.IH [of "snd (serve ?h s)" log2]
      quiet_serve [OF quiet_Mount [OF assms(1)] Cons.prems(1), of "viWorld v" "viRequest v" "viEndpoint v" key] by auto
qed

theorem slots_are_returned_witness:
  "held (svLimits (snd (serveAll demoCfg demoVisits (demoSrv demoAsked))) StepUpUser) ''stepup:1'' = 0"
proof -
  have "wired demoCfg" by (simp add: wired_def demoCfg_def)
  moreover have "\<forall>b. wfLimiter (svLimits (demoSrv demoAsked) b)"
    by (simp add: demoSrv_def demoLimiter_def NewLimiter_def wfLimiter_def clampMax_def DefaultMaxKeys_def)
  ultimately show ?thesis
    using slots_are_returned [of demoCfg "demoSrv demoAsked" demoVisits "fst (serveAll demoCfg demoVisits (demoSrv demoAsked))"
        "snd (serveAll demoCfg demoVisits (demoSrv demoAsked))" StepUpUser "''stepup:1''"]
    by (simp add: demoSrv_def demoLimiter_def NewLimiter_def held_def)
qed

end
