(* ===== verification/SignIn.thy ===== *)
theory SignIn
  imports HttpHistory
begin

text \<open>
  That the sign-in works: with nothing failing and nobody interfering, a correct code completes a live
  challenge.  The safety theorems would hold of a server that refuses everybody.
\<close>

section \<open>A world that does not interfere\<close>

definition idle :: "world \<Rightarrow> gotime \<Rightarrow> bool" where
  "idle w now = (\<forall>k. wClock w k = now \<and> \<not> wFault w k \<and> wOthers w k = (\<lambda>db. db))"

lemma idle_quiet: "idle (quietWorld now) now"
  by (simp add: idle_def quietWorld_def)

lemma idle_call:
  "idle w now \<Longrightarrow> op now (svDb s) = (r, db') \<Longrightarrow> call w op s = (Inr r, s\<lparr>svDb := db', svTick := Suc (svTick s)\<rparr>)"
  by (simp add: idle_def call_def Let_def)

lemma idle_query: "idle w now \<Longrightarrow> query w f s = (Inr (f now (svDb s)), s\<lparr>svTick := Suc (svTick s)\<rparr>)"
  by (simp add: idle_def query_def call_def Let_def)

lemma idle_clock: "idle w now \<Longrightarrow> clockNow w s = (Inr now, s\<lparr>svTick := Suc (svTick s)\<rparr>)"
  by (simp add: idle_def clockNow_def)

section \<open>Writing one column of a well-formed table\<close>

lemma violates_untouched:
  assumes "uniqueUsers (seen @ u # us)" "uEmailNorm v = uEmailNorm u" "uUsernameNorm v = uUsernameNorm u"
    "uRole v = uRole u" "userRowOk v"
  shows "violates v (seen @ us) = None"
  using assms by (auto simp: violates_def uniqueUsers_def filter_empty_conv image_iff split: if_splits)

lemma updateUserRows_ok:
  assumes "\<And>u. userRowOk u \<Longrightarrow> userRowOk (f u) \<and> uEmailNorm (f u) = uEmailNorm u \<and> uUsernameNorm (f u) = uUsernameNorm u \<and>
      uRole (f u) = uRole u"
  shows "uniqueUsers (seen @ us) \<Longrightarrow> \<exists>r. updateUserRows P f seen us = Inr r"
proof (induction us arbitrary: seen)
  case (Cons u us)
  have "userRowOk u" using Cons.prems by (simp add: uniqueUsers_def)
  then have v: "violates (f u) (seen @ us) = None" using violates_untouched [OF Cons.prems] assms by blast
  have "uniqueUsers ((seen @ [f u]) @ us)" using uniqueUsers_replace [OF Cons.prems v] by simp
  from Cons.IH [OF this] have a: "\<exists>r. updateUserRows P f (seen @ [f u]) us = Inr r" .
  have "uniqueUsers ((seen @ [u]) @ us)" using Cons.prems by simp
  from Cons.IH [OF this] have b: "\<exists>r. updateUserRows P f (seen @ [u]) us = Inr r" .
  show ?case using a b v by simp
qed simp

lemma touchLogin_ok:
  assumes "uniqueUsers (users st)"
  shows "\<exists>st'. touchLogin now uid st = Inr st' \<and> sessions st' = sessions st \<and>
    users st' = map (\<lambda>u. if uId u = uid then u\<lparr>uLastLogin := Some now\<rparr> else u) (users st)"
proof -
  have "\<exists>r. updateUserRows (\<lambda>u. uId u = uid) (\<lambda>u. u\<lparr>uLastLogin := Some now\<rparr>) [] (users st) = Inr r"
    by (rule updateUserRows_ok) (use assms in \<open>simp_all add: userRowOk_def\<close>)
  then obtain st' where w: "writeUsers (\<lambda>u. uId u = uid) (\<lambda>u. u\<lparr>uLastLogin := Some now\<rparr>) st = Inr st'"
    by (auto simp: writeUsers_def)
  then show ?thesis using writeUsers_Inr [OF w] by (simp add: touchLogin_def)
qed

text \<open>The minted tokens are new, as 256 random bits are.\<close>

definition freshTokens :: "sessionIssue \<Rightarrow> identity \<Rightarrow> bool" where
  "freshTokens issue st = list_all (\<lambda>x. sAccess x \<noteq> isAccess issue \<and> sRefresh x \<noteq> isRefresh issue) (sessions st)"

lemma openSession_ok:
  assumes "uniqueUsers (users (idn db))" "freshTokens (newSessionIssue now ttl minted) (idn db)" "userById uid (idn db) \<noteq> None"
  shows "\<exists>db'. openSession now family minted uid ttl ip ua db = Inr (newSessionIssue now ttl minted, db') \<and>
    (\<exists>x\<in>set (sessions (idn db')). sUser x = uid \<and> sAccess x = isAccess (newSessionIssue now ttl minted) \<and> sRevoked x = None \<and>
       sAccessExp x = isAccessExp (newSessionIssue now ttl minted)) \<and>
    users (idn db') = map (\<lambda>u. if uId u = uid then u\<lparr>uLastLogin := Some now\<rparr> else u) (users (idn db))"
proof -
  let ?issue = "newSessionIssue now ttl minted"
  obtain i st1 where i: "issueSessionTx now family uid ?issue ip ua (idn db) = Inr (i, st1)" "users st1 = users (idn db)"
    "\<exists>x\<in>set (sessions st1). sUser x = uid \<and> sAccess x = isAccess ?issue \<and> sRevoked x = None \<and> sAccessExp x = isAccessExp ?issue"
    using assms(2,3) by (auto simp: issueSessionTx_def insertSessionTx_def freshTokens_def list_all_iff)
  obtain st2 where t: "touchLogin now uid st1 = Inr st2" "sessions st2 = sessions st1"
    "users st2 = map (\<lambda>u. if uId u = uid then u\<lparr>uLastLogin := Some now\<rparr> else u) (users st1)"
    using touchLogin_ok [of st1 now uid] assms(1) i(2) by auto
  show ?thesis using i t by (intro exI [of _ "setIdn st2 db"]) (auto simp: openSession_def rbind_def Let_def)
qed

section \<open>A correct authenticator code\<close>

lemma resolved:
  assumes "ResolveChallenge now tok [PurposeTOTP] db = Inr ch"
  obtains v where "ch \<in> set (challenges db)" "challengeLive now ch" "chVersion ch = Some v" "activeAt (chUser ch) v db"
    "chPurpose ch = PurposeTOTP" "chAttempts ch < maxChallengeAttempts"
proof -
  obtain c where c: "find (\<lambda>c. tok = Some (chToken c) \<and> challengeOk now db c) (challenges db) = Some c"
    using assms by (auto simp: ResolveChallenge_def split: option.splits)
  then have "c \<in> set (challenges db)" "challengeOk now db c" by (auto simp: find_Some_iff)
  then show thesis using that assms c
    by (auto simp: ResolveChallenge_def challengeOk_def split: option.splits if_splits)
qed

lemma byId_unique: "distinct (map chId cs) \<Longrightarrow> c \<in> set cs \<Longrightarrow> find (\<lambda>x. chId x = chId c) cs = Some c"
  by (induction cs) (auto simp: image_iff)

lemma active_account:
  assumes "activeAt uid v db" "distinct (map uId (users (idn db)))"
  obtains u where "userById uid (idn db) = Some u" "uId u = uid" "uStatus u = StatusActive" "uTokenVersion u = v"
proof -
  obtain u where u: "u \<in> set (users (idn db))" "uId u = uid" "uStatus u = StatusActive" "uTokenVersion u = v"
    using assms(1) by (auto simp: activeAt_def list_ex_iff)
  then show thesis using that find_unique_id [OF assms(2) u(1)] by (simp add: userById_def)
qed

lemma bump_ok:
  assumes "ResolveChallenge now tok [PurposeTOTP] db = Inr ch" "distinct (map chId (challenges db))"
    "distinct (map uId (users (idn db)))"
  shows "BumpChallengeAttempt now (chId ch) db =
    (Inr (Suc (chAttempts ch)), updateChallenge (chId ch) (\<lambda>c. c\<lparr>chAttempts := Suc (chAttempts c)\<rparr>) db)"
proof -
  obtain v where r: "ch \<in> set (challenges db)" "challengeLive now ch" "chVersion ch = Some v" "activeAt (chUser ch) v db"
    "chAttempts ch < maxChallengeAttempts" using resolved [OF assms(1)] by metis
  obtain u where "userById (chUser ch) (idn db) = Some u" using active_account [OF r(4) assms(3)] by metis
  then have "lockChallengeUser (chId ch) db = Inr ch"
    using byId_unique [OF assms(2) r(1)] by (simp add: lockChallengeUser_def challengeById_def)
  moreover have "challengeOk now db ch" using r by (simp add: challengeOk_def)
  ultimately show ?thesis using r(5) by (simp add: BumpChallengeAttempt_def)
qed

text \<open>The stored authenticator accepts the code: enrolled, readable, of a current step, not spent.\<close>

definition acceptedCode :: "handlerCfg \<Rightarrow> gotime \<Rightarrow> int \<Rightarrow> string \<Rightarrow> authdb \<Rightarrow> bool" where
  "acceptedCode cfg now uid code db =
     (case (totpOf uid db, hCipher cfg, NumericOTP code) of
        (Some row, Some ci, Some digits) \<Rightarrow>
          toConfirmed row \<noteq> None \<and>
          (case cpDecrypt ci (toCipher row) (toNonce row) of
             None \<Rightarrow> False
           | Some secret \<Rightarrow>
               (case Verify (hHotp cfg) secret digits (rowParams row) now of
                  Inl e \<Rightarrow> False
                | Inr n \<Rightarrow> (case toLast row of None \<Rightarrow> True | Some l \<Rightarrow> l < n)))
      | _ \<Rightarrow> False)"

text \<open>A code mailed for this challenge, and a recovery code, are accepted while they are live and not spent.\<close>

definition acceptedMailed :: "handlerCfg \<Rightarrow> gotime \<Rightarrow> challenge \<Rightarrow> string \<Rightarrow> authdb \<Rightarrow> bool" where
  "acceptedMailed cfg now ch code db =
     (case (NumericOTP code, hCodeMAC cfg) of
        (Some digits, Some m) \<Rightarrow>
          let h = EmailOTPDigest (hHmac cfg) m (chUser ch) OTPPurposeLogin2FA (Some (chId ch)) digits
          in h \<noteq> [] \<and> list_ex (loginOtpHit now ch h) (emailOtps db)
      | _ \<Rightarrow> False)"

definition acceptedRecovery :: "handlerCfg \<Rightarrow> int \<Rightarrow> string \<Rightarrow> authdb \<Rightarrow> bool" where
  "acceptedRecovery cfg uid code db =
     (case (NumericOTP code, hCodeMAC cfg) of
        (None, Some m) \<Rightarrow>
          NormalizeRecovery code \<noteq> [] \<and>
          (let h = RecoveryCodeDigest (hHmac cfg) m uid (NormalizeRecovery code)
           in h \<noteq> [] \<and> RecoveryCodeIsLive uid h db)
      | _ \<Rightarrow> False)"

text \<open>What the transaction looks for in a proof.\<close>

definition provable :: "gotime \<Rightarrow> challenge \<Rightarrow> challengeProof \<Rightarrow> authdb \<Rightarrow> bool" where
  "provable now ch pr db =
     ((\<exists>p. cpTotp pr = Some p \<and> (\<exists>r\<in>set (totpRows db). totpHit (chUser ch) p r)) \<or>
      (cpEmail pr \<noteq> [] \<and> list_ex (loginOtpHit now ch (cpEmail pr)) (emailOtps db)) \<or>
      (cpRecovery pr \<noteq> [] \<and> RecoveryCodeIsLive (chUser ch) (cpRecovery pr) db))"

lemma emailOtps_update [simp]: "emailOtps (updateChallenge i f db) = emailOtps db"
  by (simp add: updateChallenge_def)

lemma totpRows_update [simp]: "totpRows (updateChallenge i f db) = totpRows db"
  by (simp add: updateChallenge_def)

lemma RecoveryCodeIsLive_update [simp]: "RecoveryCodeIsLive uid h (updateChallenge i f db) = RecoveryCodeIsLive uid h db"
  by (simp add: RecoveryCodeIsLive_def updateChallenge_def)

lemma accepted_update [simp]:
  "acceptedCode cfg now uid code (updateChallenge i f db) = acceptedCode cfg now uid code db"
  "acceptedMailed cfg now ch code (updateChallenge i f db) = acceptedMailed cfg now ch code db"
  "acceptedRecovery cfg uid code (updateChallenge i f db) = acceptedRecovery cfg uid code db"
  "provable now ch pr (updateChallenge i f db) = provable now ch pr db"
  by (simp_all only: acceptedCode_def totpOf_def acceptedMailed_def acceptedRecovery_def provable_def emailOtps_update
      totpRows_update RecoveryCodeIsLive_update)

lemma totp_answers:
  assumes i: "idle w now" and c: "hCipher cfg \<noteq> None"
  obtains t k where "verifyTOTPProof w cfg uid digits s = (Inr t, s\<lparr>svTick := k\<rparr>)"
proof -
  obtain ci where "hCipher cfg = Some ci" using c by blast
  then have "\<exists>t k. verifyTOTPProof w cfg uid digits s = (Inr t, s\<lparr>svTick := k\<rparr>)"
    by (auto simp: verifyTOTPProof_def hbind_def idle_query [OF i] idle_clock [OF i] ret_def split: sum.split option.split)
  then show thesis using that by blast
qed

lemma totp_accepts:
  assumes i: "idle w now" and a: "acceptedCode cfg now uid code (svDb s)"
  obtains digits p k where "NumericOTP code = Some digits" "verifyTOTPProof w cfg uid digits s = (Inr (Some p), s\<lparr>svTick := k\<rparr>)"
    "\<exists>r\<in>set (totpRows (svDb s)). totpHit uid p r"
proof -
  obtain row ci digits secret n where d: "totpOf uid (svDb s) = Some row" "hCipher cfg = Some ci" "NumericOTP code = Some digits"
    "toConfirmed row \<noteq> None" "cpDecrypt ci (toCipher row) (toNonce row) = Some secret"
    "Verify (hHotp cfg) secret digits (rowParams row) now = Inr n" "case toLast row of None \<Rightarrow> True | Some l \<Rightarrow> l < n"
    using a unfolding acceptedCode_def by (auto split: option.splits sum.splits)
  let ?p = "\<lparr>tpCounter = n, tpCipher = toCipher row, tpNonce = toNonce row\<rparr>"
  have row: "row \<in> set (totpRows (svDb s))" "toUser row = uid"
    using d(1) by (auto simp: totpOf_def find_Some_iff)
  then have "totpHit uid ?p row" using d(4,7) by (cases "toLast row") (simp_all add: totpHit_def)
  moreover have "verifyTOTPProof w cfg uid digits s = (Inr (Some ?p), s\<lparr>svTick := Suc (Suc (svTick s))\<rparr>)"
    using d by (simp add: verifyTOTPProof_def hbind_def idle_query [OF i] idle_clock [OF i] LoadTOTPSecret_def ret_def verifyTOTP_def)
  ultimately show thesis using that d(3) row(1) by blast
qed

lemma proof_ok:
  assumes i: "idle w now" and m: "hCipher cfg \<noteq> None" "hCodeMAC cfg \<noteq> None" and u: "uId (uvUser u) = chUser ch"
    and a: "acceptedCode cfg now (chUser ch) code (svDb s) \<or> acceptedMailed cfg now ch code (svDb s) \<or>
      acceptedRecovery cfg (chUser ch) code (svDb s)"
  shows "\<exists>pr k. challengeProofFor w cfg u code (Some (chId ch)) s = (Inr pr, s\<lparr>svTick := k\<rparr>) \<and> provable now ch pr (svDb s)"
proof -
  obtain mac where mac: "hCodeMAC cfg = Some mac" using m(2) by blast
  show ?thesis
  proof (cases "NumericOTP code")
    case None
    then have "acceptedRecovery cfg (chUser ch) code (svDb s)"
      using a by (auto simp: acceptedCode_def acceptedMailed_def split: option.splits)
    then show ?thesis using None mac u
      by (auto simp: acceptedRecovery_def challengeProofFor_def provable_def ret_def Let_def intro: exI [of _ "svTick s"])
  next
    case (Some digits)
    consider (totp) "acceptedCode cfg now (chUser ch) code (svDb s)" | (mailed) "acceptedMailed cfg now ch code (svDb s)"
      using a Some by (auto simp: acceptedRecovery_def split: option.splits)
    then show ?thesis
    proof cases
      case totp
      obtain d p k where "NumericOTP code = Some d" "verifyTOTPProof w cfg (chUser ch) d s = (Inr (Some p), s\<lparr>svTick := k\<rparr>)"
        "\<exists>r\<in>set (totpRows (svDb s)). totpHit (chUser ch) p r" by (rule totp_accepts [OF i totp])
      then show ?thesis using mac by (auto simp: challengeProofFor_def hbind_def ret_def u provable_def)
    next
      case mailed
      obtain t k where "verifyTOTPProof w cfg (chUser ch) digits s = (Inr t, s\<lparr>svTick := k\<rparr>)" by (rule totp_answers [OF i m(1)])
      then show ?thesis using mac mailed Some
        by (auto simp: challengeProofFor_def hbind_def ret_def u provable_def acceptedMailed_def Let_def)
    qed
  qed
qed

lemma provable_spends:
  assumes "provable now ch pr db"
  obtains m db' where "consumeChallengeProofTx now ch pr db = Inr (m, db')" "idn db' = idn db"
proof -
  have "\<exists>r. consumeChallengeProofTx now ch pr db = Inr r"
    using assms by (auto simp: provable_def consumeChallengeProofTx_def consumeTOTPProofIfCurrentTx_def list_ex_iff
        spendLoginOtp_def spendRecovery_def split: option.split)
  then show thesis using that consumeChallengeProof_frames(1) by (metis prod.collapse)
qed

lemma complete_ok:
  assumes r: "ResolveChallenge now tok [PurposeTOTP] db = Inr ch" and w: "uniqueUsers (users (idn db))"
    and ids: "distinct (map uId (users (idn db)))" and p: "provable now ch pr db"
    and f: "freshTokens (newSessionIssue now ttl minted) (idn db)"
  shows "\<exists>m db'. Complete2FA now family minted ch pr ttl ip ua
      (updateChallenge (chId ch) (\<lambda>c. c\<lparr>chAttempts := Suc (chAttempts c)\<rparr>) db) = (Inr (newSessionIssue now ttl minted, m), db') \<and>
    (\<exists>x\<in>set (sessions (idn db')). sUser x = chUser ch \<and> sAccess x = isAccess (newSessionIssue now ttl minted) \<and> sRevoked x = None \<and>
       sAccessExp x = isAccessExp (newSessionIssue now ttl minted))"
proof -
  let ?db = "updateChallenge (chId ch) (\<lambda>c. c\<lparr>chAttempts := Suc (chAttempts c)\<rparr>) db"
  obtain v where v: "ch \<in> set (challenges db)" "challengeLive now ch" "chVersion ch = Some v" "activeAt (chUser ch) v db"
    "chPurpose ch = PurposeTOTP" "chAttempts ch < maxChallengeAttempts" by (rule resolved [OF r])
  obtain u where u: "userById (chUser ch) (idn db) = Some u" by (rule active_account [OF v(4) ids])
  have c: "list_ex (\<lambda>c. chId c = chId ch \<and> chUser c = chUser ch \<and> chPurpose c = PurposeTOTP \<and>
      chVersion c = Some v \<and> challengeLive now c \<and> chAttempts c \<le> maxChallengeAttempts) (challenges ?db)"
    using v unfolding list_ex_iff updateChallenge_def challengeLive_def
    by (intro bexI [of _ "ch\<lparr>chAttempts := Suc (chAttempts ch)\<rparr>"]) (auto simp: image_iff)
  have "provable now ch pr ?db" using p by simp
  then obtain m db1 where t: "consumeChallengeProofTx now ch pr ?db = Inr (m, db1)" "idn db1 = idn ?db" by (rule provable_spends)
  let ?db2 = "updateChallenge (chId ch) (\<lambda>c. c\<lparr>chConsumed := Some now\<rparr>) db1"
  have "idn ?db2 = idn db" using t(2) by (simp add: updateChallenge_def)
  then obtain db' where o: "openSession now family minted (chUser ch) ttl ip ua ?db2 = Inr (newSessionIssue now ttl minted, db')"
    "\<exists>x\<in>set (sessions (idn db')). sUser x = chUser ch \<and> sAccess x = isAccess (newSessionIssue now ttl minted) \<and> sRevoked x = None \<and>
       sAccessExp x = isAccessExp (newSessionIssue now ttl minted)"
    using openSession_ok [of ?db2 now ttl minted "chUser ch" family ip ua] w f u by auto
  have "activeAt (chUser ch) v ?db" using v(4) by (simp add: activeAt_def updateChallenge_def)
  then show ?thesis using v(3) c t(1) o by (auto simp: Complete2FA_def runTx_def rbind_def)
qed

text \<open>The mail about a spent recovery code changes neither accounts nor sessions, and its failure is ignored.\<close>

lemma notify_idle:
  assumes i: "idle w now"
  obtains k db' where "notifyRecoveryCodeUsed w cfg u s = (Inr (), s\<lparr>svDb := db', svTick := k\<rparr>)" "idn db' = idn (svDb s)"
proof -
  let ?n = "CountRecoveryCodes (uId (uvUser u)) (svDb s)"
  let ?r = "runTx (svDb s) (rbind (enqueueDraft (wOutbox w) (Some (hDraft cfg ''recovery_code_used'' [uEmail (uvUser u), formatNat ?n])) [] (svDb s))
      (\<lambda>db'. Inr ((), db')))"
  have "idn (snd ?r) = idn (svDb s)"
    by (cases "wOutbox w") (simp_all add: runTx_def rbind_def enqueueDraft_def)
  moreover have "notifyRecoveryCodeUsed w cfg u s = (Inr (), s\<lparr>svDb := snd ?r, svTick := Suc (Suc (svTick s))\<rparr>)"
    by (simp add: notifyRecoveryCodeUsed_def hbind_def idle_query [OF i] enqueueMail_def hthen_def
        idle_call [OF i _, OF prod.collapse [symmetric]] ret_def)
  ultimately show thesis using that by blast
qed

lemma loadUser_ok:
  assumes "activeAt uid v db" "distinct (map uId (users (idn db)))"
  obtains u where "loadUser uid db = Inr u" "uId (uvUser u) = uid" "uStatus (uvUser u) = StatusActive"
  using active_account [OF assms] that by (force simp: loadUser_def GetUser_def rbind_def)

text \<open>
  C10. A user who presents a live challenge and a correct, unspent code is signed in: a code of the enrolled
  authenticator, the code mailed for this challenge, or a recovery code.  The world is undisturbed: no step
  fails, no other request interferes, and the minted tokens are new.  Then the answer carries the account and the
  cookie carries the tokens of a session that exists, belongs to the account and is not revoked.
\<close>

theorem correct_code_signs_in:
  assumes "idle w now" "uniqueUsers (users (idn (svDb s)))" "distinct (map uId (users (idn (svDb s))))"
    and "distinct (map chId (challenges (svDb s)))"
    and "ResolveChallenge now (arPreAuth rq) [PurposeTOTP] (svDb s) = Inr ch"
    and "acceptedCode cfg now (chUser ch) code (svDb s) \<or> acceptedMailed cfg now ch code (svDb s) \<or>
      acceptedRecovery cfg (chUser ch) code (svDb s)"
    and "hCipher cfg \<noteq> None" "hCodeMAC cfg \<noteq> None"
    and "tok = newSessionIssue now (hTTL cfg) (wMinted w)" "freshTokens tok (idn (svDb s))"
  shows "\<exists>u s'. Verify2FA w cfg rq (Some code) s = (Inl (okReply (Authenticated u (isCsrf tok) [])), s') \<and>
    uId (uvUser u) = chUser ch \<and> SetSession tok \<in> set (svCookies s') \<and>
    (\<exists>x\<in>set (sessions (idn (svDb s'))). sUser x = chUser ch \<and> sAccess x = isAccess tok \<and> sRevoked x = None)"
proof -
  note i = assms(1)
  let ?db = "updateChallenge (chId ch) (\<lambda>c. c\<lparr>chAttempts := Suc (chAttempts c)\<rparr>) (svDb s)"
  let ?s = "s\<lparr>svDb := ?db, svTick := svTick s + 3\<rparr>"
  obtain v where v: "activeAt (chUser ch) v (svDb s)" using resolved [OF assms(5)] by metis
  obtain u where u: "loadUser (chUser ch) ?db = Inr u" "uId (uvUser u) = chUser ch" "uStatus (uvUser u) = StatusActive"
    using loadUser_ok [of "chUser ch" v ?db] v assms(3) by (auto simp: activeAt_def updateChallenge_def)
  have "acceptedCode cfg now (chUser ch) code (svDb ?s) \<or> acceptedMailed cfg now ch code (svDb ?s) \<or>
      acceptedRecovery cfg (chUser ch) code (svDb ?s)"
    using assms(6) by simp
  from proof_ok [OF i assms(7,8) u(2) this]
  obtain pr k where p: "challengeProofFor w cfg u code (Some (chId ch)) ?s = (Inr pr, ?s\<lparr>svTick := k\<rparr>)" "provable now ch pr (svDb s)"
    by auto
  obtain m db' where c: "Complete2FA now (wFamily w) (wMinted w) ch pr (hTTL cfg) (arIP rq) (arUA rq) ?db = (Inr (tok, m), db')"
    "\<exists>x\<in>set (sessions (idn db')). sUser x = chUser ch \<and> sAccess x = isAccess tok \<and> sRevoked x = None"
    using complete_ok [OF assms(5,2,3) p(2) assms(10) [unfolded assms(9)], of "wFamily w" "arIP rq" "arUA rq"]
    unfolding assms(9) by blast
  have q: "challengeProofFor w cfg u code (Some (chId ch)) (s\<lparr>svDb := ?db, svTick := Suc (Suc (Suc (svTick s)))\<rparr>) =
      (Inr pr, s\<lparr>svDb := ?db, svTick := k\<rparr>)" using p(1) by (simp add: numeral_3_eq_3)
  let ?t = "s\<lparr>svDb := db', svTick := Suc k\<rparr>"
  have e: "Verify2FA w cfg rq (Some code) s = finishVerify2FA w cfg u (Suc (chAttempts ch)) (Inr (tok, m)) ?t"
    using q u c(1) bump_ok [OF assms(5,4,3)] idle_call [OF i, of "\<lambda>now. BumpChallengeAttempt now (chId ch)"]
      idle_call [OF i, of "\<lambda>now. Complete2FA now (wFamily w) (wMinted w) ch pr (hTTL cfg) (arIP rq) (arUA rq)"]
    by (simp add: Verify2FA_def requireChallenge_def hbind_def hthen_def idle_query [OF i] assms(5) ret_def decode_def examineCode_def)
  obtain k2 db2 where n: "(if m = MethodRecovery then notifyRecoveryCodeUsed w cfg u else ret ()) ?t =
      (Inr (), ?t\<lparr>svDb := db2, svTick := k2\<rparr>)" "idn db2 = idn db'"
  proof (cases "m = MethodRecovery")
    case True
    then show thesis using that notify_idle [OF i, of cfg u ?t] by auto
  next
    case False
    then show thesis using that [of "Suc k" db'] by (simp add: ret_def)
  qed
  have "Verify2FA w cfg rq (Some code) s = (Inl (okReply (Authenticated u (isCsrf tok) [])),
      ?t\<lparr>svDb := db2, svTick := k2, svCookies := svCookies s @ [ClearPreAuth, SetSession tok]\<rparr>)"
    unfolding e finishVerify2FA_def hthen_def using n(1) by (simp add: hbind_def cookie_def answer_def)
  then show ?thesis using u(2) c(2) n(2) by auto
qed

definition demoAtDoor :: authdb where
  "demoAtDoor = snd (CreateChallenge demoNow ''t'' demoChallenge demoEnrolled)"

theorem correct_code_signs_in_witness:
  "\<exists>u csrf s'. Verify2FA (quietWorld demoNow) demoCfg demoRequest (Some ''123 459'') (demoSrv demoAtDoor) =
     (Inl (okReply (Authenticated u csrf [])), s') \<and> uId (uvUser u) = 1"
proof -
  let ?s = "demoSrv demoAtDoor" and ?w = "quietWorld demoNow"
  define ch where "ch = projr (ResolveChallenge demoNow (Some ''t'') [PurposeTOTP] demoAtDoor)"
  have "isOk (ResolveChallenge demoNow (Some ''t'') [PurposeTOTP] demoAtDoor)" by code_simp
  then have r: "ResolveChallenge demoNow (arPreAuth demoRequest) [PurposeTOTP] (svDb ?s) = Inr ch"
    by (auto simp: ch_def demoRequest_def demoSrv_def isOk_def split: sum.splits)
  have u: "chUser ch = 1" unfolding ch_def by code_simp
  have d: "uniqueUsers (users (idn (svDb ?s)))" "distinct (map uId (users (idn (svDb ?s))))"
    "distinct (map chId (challenges (svDb ?s)))" "acceptedCode demoCfg demoNow (chUser ch) ''123 459'' (svDb ?s)"
    unfolding u by code_simp+
  have m: "list_all (\<lambda>x. sAccess x \<noteq> ''a9'' \<and> sRefresh x \<noteq> ''r9'') (sessions (idn demoAtDoor))" by code_simp
  then have f: "freshTokens (newSessionIssue demoNow (hTTL demoCfg) (wMinted ?w)) (idn (svDb ?s))"
    by (simp add: freshTokens_def newSessionIssue_def quietWorld_def demoSrv_def)
  show ?thesis
    using correct_code_signs_in [OF idle_quiet d(1-3) r disjI1 [OF d(4)] _ _ refl f] by (auto simp: demoCfg_def u)
qed

end
