(* ===== verification/SessionGrants.thy ===== *)
theory SessionGrants
  imports SignIn
begin

text \<open>
  Which answers carry a session.  A password, an invitation, a reset link or a Google account alone opens
  one only for an account that owes no second factor; everybody else passes a code first.
\<close>

section \<open>Actions that set no session cookie\<close>

definition silent :: "'a act \<Rightarrow> bool" where
  "silent m = (\<forall>s i. SetSession i \<in> set (svCookies (snd (m s))) \<longrightarrow> SetSession i \<in> set (svCookies s))"

named_theorems silent_rules

lemma silent_basic [silent_rules]:
  "silent (ret x)" "silent (answer r)" "silent (clockNow w)" "silent (call w op)" "silent (query w f)" "silent (audit w a)"
  "silent (limit w b lop)"
  by (auto simp: silent_def ret_def answer_def clockNow_def query_def call_def audit_def limit_def Let_def split: prod.splits)

lemma silent_cookie [silent_rules]:
  "silent (cookie ClearSession)" "silent (cookie (SetPreAuth t d))" "silent (cookie ClearPreAuth)"
  "silent (cookie (SetOAuthState t d))" "silent (cookie ClearOAuthState)"
  by (simp_all add: silent_def cookie_def)

lemma silentD: "silent m \<Longrightarrow> m s = (r, s') \<Longrightarrow> SetSession i \<in> set (svCookies s') \<Longrightarrow> SetSession i \<in> set (svCookies s)"
  unfolding silent_def by (metis snd_conv)

lemma silentI:
  assumes "\<And>s r s' i. m s = (r, s') \<Longrightarrow> SetSession i \<in> set (svCookies s') \<Longrightarrow> SetSession i \<in> set (svCookies s)"
  shows "silent m"
  unfolding silent_def using assms by (metis prod.collapse)

lemma silent_bind [silent_rules]:
  assumes "silent m" "\<And>x. silent (f x)"
  shows "silent (hbind m f)"
proof (rule silentI)
  fix s :: srv and r s' i assume b: "hbind m f s = (r, s')" and i: "SetSession i \<in> set (svCookies s')"
  obtain r0 s0 where m: "m s = (r0, s0)" by fastforce
  show "SetSession i \<in> set (svCookies s)"
  proof (cases r0)
    case (Inl e)
    then show ?thesis using silentD [OF assms(1) m, of i] b i m by (simp add: hbind_def)
  next
    case (Inr x)
    then have "f x s0 = (r, s')" using b m by (simp add: hbind_def)
    then show ?thesis using silentD [OF assms(1) m, of i] silentD [OF assms(2) _ i] by simp
  qed
qed

lemma silent_then [silent_rules]: "silent m \<Longrightarrow> silent k \<Longrightarrow> silent (hthen m k)"
  unfolding hthen_def by (rule silent_bind)

lemma silent_split [silent_rules]:
  "(c \<Longrightarrow> silent m) \<Longrightarrow> (\<not> c \<Longrightarrow> silent k) \<Longrightarrow> silent (if c then m else k)"
  "(\<And>e. silent (f e)) \<Longrightarrow> (\<And>x. silent (g x)) \<Longrightarrow> silent (case r of Inl e \<Rightarrow> f e | Inr x \<Rightarrow> g x)"
  "silent m \<Longrightarrow> (\<And>x. silent (h x)) \<Longrightarrow> silent (case v of None \<Rightarrow> m | Some x \<Rightarrow> h x)"
  "(\<And>a b. silent (k' a b)) \<Longrightarrow> silent (case p of (a, b) \<Rightarrow> k' a b)"
  by (auto split: sum.split option.split prod.split)

lemma silent_deferring [silent_rules]:
  assumes "silent m" "silent d"
  shows "silent (deferring m d)"
proof (rule silentI)
  fix s :: srv and r s' i assume b: "deferring m d s = (r, s')" and i: "SetSession i \<in> set (svCookies s')"
  obtain r0 s0 where m: "m s = (r0, s0)" by fastforce
  show "SetSession i \<in> set (svCookies s)"
    using silentD [OF assms(1) m, of i] silentD [OF assms(2) prod.collapse [symmetric], of i s0] b i m
    by (cases r0) (auto simp: deferring_def)
qed

lemma silent_afterwards [silent_rules]:
  assumes "silent m" "silent d"
  shows "silent (afterwards m d)"
proof (rule silentI)
  fix s :: srv and r s' i assume b: "afterwards m d s = (r, s')" and i: "SetSession i \<in> set (svCookies s')"
  obtain r0 s0 where m: "m s = (r0, s0)" by fastforce
  show "SetSession i \<in> set (svCookies s)"
    using silentD [OF assms(1) m, of i] silentD [OF assms(2) prod.collapse [symmetric], of i s0] b i m
    by (auto simp: afterwards_def)
qed

lemma silent_slots [silent_rules]:
  "silent (beginSlot w b key)" "silent (commitFail w b key)" "silent (commitSuccess w b key)" "silent (releaseKey w b key)"
  "silent (commitFailFor w b key member)"
  unfolding beginSlot_def commitFail_def commitSuccess_def releaseKey_def commitFailFor_def by (rule silent_rules)+

lemma silent_shared [silent_rules]:
  "silent (decode body)" "silent (orInternal r)" "silent writeRateLimited" "silent writeSessionInvalid"
  "silent (writeChallengeError e)" "silent (refuseCode n)" "silent (onIdentity w iop)" "silent (issueSession w cfg rq u)"
  "silent (validatePassword cfg pw)" "silent (validateProfileName nm)" "silent (requireEmail em)"
  "silent (enqueueMail w cfg template args)" "silent (verifyTOTPProof w cfg uid code)"
  unfolding decode_def orInternal_def writeRateLimited_def writeSessionInvalid_def writeChallengeError_def refuseCode_def
    onIdentity_def issueSession_def validatePassword_def validateProfileName_def requireEmail_def enqueueMail_def
    verifyTOTPProof_def Let_def
  by (rule silent_rules)+

lemma silent_pieces [silent_rules]:
  "silent (requireChallenge w rq ps)" "silent (writeFactorTxnError eo)" "silent (notifyRecoveryCodeUsed w cfg u)"
  "silent (startChallenge w cfg u purpose mb)" "silent (beginStepUpPassword w uid)" "silent (newRecoveryCodeSet w cfg uid)"
  "silent (auditLoginRejection w sub b)" "silent (recordLoginFailure w k1 k2 sub)" "silent (configureLoginLimits w)"
  "silent (anonymousMe w)" "silent (notifyReuse w cfg uid)" "silent (settleStepUp w key e)"
  unfolding requireChallenge_def writeFactorTxnError_def notifyRecoveryCodeUsed_def startChallenge_def beginChallenge_def
    beginChallengeFor_def beginStepUpPassword_def newRecoveryCodeSet_def auditLoginRejection_def recordLoginFailure_def
    configureLoginLimits_def anonymousMe_def notifyReuse_def settleStepUp_def Let_def
  by (rule silent_rules)+

lemma silent_try [silent_rules]: "silent (tryStepUpProof w cfg uid u code)"
  unfolding tryStepUpProof_def tryNumericStepUpProof_def tryMailedStepUpProof_def tryRecoveryStepUpProof_def Let_def
  by (rule silent_rules)+

lemma silent_withStepUp [silent_rules]: "(\<And>p. silent (work p)) \<Longrightarrow> silent (withStepUp w cfg uid u code work)"
  unfolding withStepUp_def Let_def by (rule silent_rules | assumption)+

lemma silent_work [silent_rules]:
  "silent (notifyIfRecovery w cfg u proof)" "silent (workThenNotify w cfg u op proof)" "silent (passwordOutcome w key done e)"
  "silent (loadTwoFactorStatusWithTOTPOnly w cfg uid)" "silent (enrollmentPrincipal w cfg rq input)"
  "silent (enrollmentPrincipalNoPassword w rq)" "silent (sendReset w cfg email)"
  unfolding notifyIfRecovery_def workThenNotify_def passwordOutcome_def loadTwoFactorStatusWithTOTPOnly_def
    enrollmentPrincipal_def enrollmentPrincipalNoPassword_def sendReset_def Let_def
  by (rule silent_rules)+

lemma silent_endpoints:
  "silent (BootstrapStatus w)" "silent (ForgotPassword w cfg rq fi)" "silent (VerifyEmail w vi)" "silent (SendEmailOTP w cfg rq)"
  "silent (StartTOTP w cfg rq si)" "silent (TOTPQR w cfg rq)" "silent (StartEmailFactor w cfg rq ei)" "silent (Me w cfg rq)"
  "silent (Logout w rq)" "silent (LogoutAll w p)" "silent (ChangePasswordHandler w cfg p ci)" "silent (SetPasswordHandler w cfg p pi)"
  "silent (SendEmailVerification w cfg p)" "silent (TwoFactorStatus w cfg p)" "silent (DisableTOTPHandler w cfg p di)"
  "silent (SendStepUpEmailOTP w cfg p)" "silent (DisableEmailFactorHandler w cfg p di)" "silent (RegenerateRecoveryCodesHandler w cfg p ri)"
  unfolding BootstrapStatus_def ForgotPassword_def VerifyEmail_def SendEmailOTP_def StartTOTP_def TOTPQR_def StartEmailFactor_def
    Me_def Logout_def LogoutAll_def ChangePasswordHandler_def SetPasswordHandler_def SendEmailVerification_def TwoFactorStatus_def
    DisableTOTPHandler_def SendStepUpEmailOTP_def DisableEmailFactorHandler_def RegenerateRecoveryCodesHandler_def Let_def
  by (rule silent_rules)+

lemma silent_oauth [silent_rules]:
  "silent (oauthStartTarget w g purpose i proof ttl)" "silent (oauthRedirectError cfg code)" "silent (oauthRedirect cfg code)"
  "silent (TouchIdentity w)" "silent (ConvertToProvider w cfg cid password)"
  unfolding oauthStartTarget_def oauthRedirectError_def oauthRedirect_def redirectToSPA_def TouchIdentity_def ConvertToProvider_def
  by (rule silent_rules)+

lemma silent_chargedStart [silent_rules]: "silent body \<Longrightarrow> silent (chargedStart w rq body)"
  unfolding chargedStart_def Let_def by (assumption | rule silent_rules)+

lemma silent_oauth_more [silent_rules]:
  "silent (oauthBeginChallenge w cfg nc)"
  "silent (checkOAuthLinkSecondFactor w cfg u code)" "silent (oauthFinishLink w cfg rq st info)" "silent (oauthCheckLink w cfg rq st)"
  unfolding oauthBeginChallenge_def checkOAuthLinkSecondFactor_def oauthFinishLink_def oauthCheckLink_def
  by (rule silent_rules)+

lemma silent_account_endpoints:
  "silent (OAuthStart w cfg rq q)" "silent (OAuthInviteStart w cfg rq ii)" "silent (OAuthLinkStart w cfg rq p li)"
  "silent (OAuthUnlink w cfg p ui)" "silent (ListIdentitiesHandler w p)" "silent (RequestEmailChangeHandler w cfg p ri)"
  "silent (GetEmailChange w p)" "silent (CancelEmailChangeHandler w p)" "silent (ConfirmEmailChange w ci)"
  "silent (UpdateProfile w cfg rq p pi)" "silent (SessionsHandler w p)" "silent (RevokeSessionHandler w p raw)"
  "silent (LookupInviteHandler w lo)" "silent (ListAPITokensHandler w p)" "silent (CreateAPITokenHandler w p ti)"
  "silent (RevokeAPITokenHandler w p raw)" "silent (UsernameAvailableHandler w p q)"
  unfolding OAuthStart_def OAuthInviteStart_def OAuthLinkStart_def OAuthUnlink_def ListIdentitiesHandler_def
    RequestEmailChangeHandler_def GetEmailChange_def CancelEmailChangeHandler_def ConfirmEmailChange_def UpdateProfile_def
    profileName_def profileLocale_def profileUsername_def SessionsHandler_def RevokeSessionHandler_def pathID_def
    LookupInviteHandler_def ListAPITokensHandler_def CreateAPITokenHandler_def RevokeAPITokenHandler_def onTokens_def
    UsernameAvailableHandler_def Let_def
  by (rule silent_rules)+

section \<open>An account that owes a second factor\<close>

text \<open>
  A factor that is on, or an administrator's role where administrators must have one; and a session of the
  account that carries one of two tokens.
\<close>

definition owes :: "handlerCfg \<Rightarrow> int \<Rightarrow> authdb \<Rightarrow> bool" where
  "owes cfg uid db = (totpEnabled uid db \<or> emailEnabled uid db \<or>
     (hRequire2FA cfg \<and> (\<exists>u\<in>set (users (idn db)). uId u = uid \<and> IsAdmin (uRole u))))"

definition carries :: "int \<Rightarrow> string \<Rightarrow> string \<Rightarrow> authdb \<Rightarrow> bool" where
  "carries uid a r db = (\<exists>x\<in>set (sessions (idn db)). sUser x = uid \<and> (sAccess x = a \<or> sRefresh x = r))"

definition unopened :: "handlerCfg \<Rightarrow> int \<Rightarrow> world \<Rightarrow> authdb \<Rightarrow> bool" where
  "unopened cfg uid w db = (owes cfg uid db \<and> \<not> carries uid (fst (wMinted w)) (fst (snd (wMinted w))) db)"

definition minted :: "world \<Rightarrow> sessionIssue \<Rightarrow> bool" where
  "minted w i = (isAccess i = fst (wMinted w) \<and> isRefresh i = fst (snd (wMinted w)))"

text \<open>The server can check codes, and the requests around this one do not lift the debt or open that session.\<close>

definition watched :: "handlerCfg \<Rightarrow> gotime set \<Rightarrow> int \<Rightarrow> world \<Rightarrow> bool" where
  "watched cfg T uid w = (honest cfg T w \<and> hCipher cfg \<noteq> None \<and> hCodeMAC cfg \<noteq> None \<and>
     (\<forall>k db. sane db \<longrightarrow> unopened cfg uid w db \<longrightarrow> unopened cfg uid w (wOthers w k db)))"

text \<open>What an operation on accounts may do: no administrator less, no token of a session more.\<close>

definition lenient :: "identity \<Rightarrow> identity \<Rightarrow> bool" where
  "lenient st st' =
     ((\<forall>u\<in>set (users st). IsAdmin (uRole u) \<longrightarrow> (\<exists>u'\<in>set (users st'). uId u' = uId u \<and> IsAdmin (uRole u'))) \<and>
      (\<forall>x'\<in>set (sessions st'). \<exists>x\<in>set (sessions st). sUser x = sUser x' \<and> sAccess x = sAccess x' \<and> sRefresh x = sRefresh x'))"

lemma lenient_refl [simp, intro]: "lenient st st"
  by (auto simp: lenient_def)

lemma lenient_trans: "lenient a b \<Longrightarrow> lenient b c \<Longrightarrow> lenient a c"
  unfolding lenient_def by metis

lemma lenient_same: "users st' = users st \<Longrightarrow> sessions st' = sessions st \<Longrightarrow> lenient st st'"
  by (auto simp: lenient_def)

lemma lenient_write:
  assumes "writeUsers P f st = Inr st'" "\<And>u. uId (f u) = uId u" "\<And>u. IsAdmin (uRole u) \<Longrightarrow> IsAdmin (uRole (f u))"
  shows "lenient st st'"
proof -
  have "\<exists>u'\<in>set (users st'). uId u' = uId u \<and> IsAdmin (uRole u')" if "u \<in> set (users st)" "IsAdmin (uRole u)" for u
    using writeUsers_Inr [OF assms(1)] that assms(2,3) [of u]
    by (intro bexI [of _ "if P u then f u else u"]) (auto simp: image_iff)
  then show ?thesis using writeUsers_Inr [OF assms(1)] by (auto simp: lenient_def)
qed

lemma lenient_insert: "insertUser u st = Inr (v, st') \<Longrightarrow> lenient st st'"
  by (drule insertUser_Inr(2)) (auto simp: lenient_def)

lemma lenient_revoke: "lenient st (revokeWhere P r now st)"
  by (auto simp: lenient_def revokeWhere_def)

lemma lenient_link: "linkIdentity uid pid st = Inr st' \<Longrightarrow> lenient st st'"
  by (rule lenient_same) (auto simp: linkIdentity_def split: if_splits)

lemma lenient_commit: "lenient st st' \<Longrightarrow> lenient st (snd (commitTx i r st' st))"
  by (auto simp: commitTx_def split: option.split)

lemma unopened_frame:
  assumes "unopened cfg uid w db" "lenient (idn db) (idn db')" "totpRows db' = totpRows db" "emailFactors db' = emailFactors db"
  shows "unopened cfg uid w db'"
proof -
  have "owes cfg uid db'"
    using assms unfolding unopened_def owes_def lenient_def totpEnabled_def emailEnabled_def by metis
  moreover have "carries uid a r db" if "carries uid a r db'" for a r
    using assms(2) that unfolding carries_def lenient_def by metis
  ultimately show ?thesis using assms(1) by (auto simp: unopened_def)
qed

section \<open>What a session cookie rests on\<close>

text \<open>An account as a database shows it, with the flags of its factors.\<close>

definition seenIn :: "userView \<Rightarrow> authdb \<Rightarrow> bool" where
  "seenIn u db = (uvUser u \<in> set (users (idn db)) \<and> uvTOTP u = totpEnabled (uId (uvUser u)) db \<and>
     uvEmail u = emailEnabled (uId (uvUser u)) db)"

text \<open>Such a view does not pass the account that owes a factor.\<close>

definition due :: "handlerCfg \<Rightarrow> int \<Rightarrow> userView \<Rightarrow> bool" where
  "due cfg uid u = (secondFactorPurpose cfg u = None \<longrightarrow> uId (uvUser u) \<noteq> uid)"

lemma seen_due:
  assumes "watched cfg T uid w" "sane db" "unopened cfg uid w db" "seenIn u db"
  shows "due cfg uid u"
proof -
  have a: "v = uvUser u" if "v \<in> set (users (idn db))" "uId v = uId (uvUser u)" for v
    using that assms(2,4) unfolding sane_def accountIds_def seenIn_def by (metis distinct_map inj_onD)
  show ?thesis
    using assms a unfolding due_def watched_def unopened_def owes_def seenIn_def secondFactorPurpose_def HasSecondFactor_def
    by (metis option.discI)
qed

text \<open>
  Two judgements under the interference of a watched world: \<open>keeps\<close>, an action leaves the account without a
  session of those tokens; \<open>mints\<close>, a session cookie it sets is of those tokens, and the account is still
  without a session of them at the end.
\<close>

definition keeps :: "(authdb \<Rightarrow> bool) \<Rightarrow> 'a act \<Rightarrow> ('a \<Rightarrow> bool) \<Rightarrow> bool" where
  "keeps J m Q = (\<forall>s :: srv. sane (svDb s) \<longrightarrow> J (svDb s) \<longrightarrow>
     sane (svDb (snd (m s))) \<and> J (svDb (snd (m s))) \<and> (\<forall>x. fst (m s) = Inr x \<longrightarrow> Q x))"

abbreviation still :: "(authdb \<Rightarrow> bool) \<Rightarrow> 'a act \<Rightarrow> bool" where
  "still J m \<equiv> keeps J m (\<lambda>_. True)"

definition mints :: "(authdb \<Rightarrow> bool) \<Rightarrow> 'a act \<Rightarrow> (sessionIssue \<Rightarrow> bool) \<Rightarrow> bool" where
  "mints J m C = (\<forall>(s :: srv) i. sane (svDb s) \<longrightarrow> J (svDb s) \<longrightarrow> SetSession i \<in> set (svCookies (snd (m s))) \<longrightarrow>
     SetSession i \<in> set (svCookies s) \<or> (C i \<and> J (svDb (snd (m s)))))"

named_theorems still_rules

lemma keeps_bind:
  assumes "keeps J m Q" "\<And>x. Q x \<Longrightarrow> keeps J (f x) R"
  shows "keeps J (hbind m f) R"
  unfolding keeps_def
proof (intro allI impI)
  fix s :: srv assume s: "sane (svDb s)" "J (svDb s)"
  obtain r s' where m: "m s = (r, s')" by fastforce
  then have k: "sane (svDb s')" "J (svDb s')" "\<And>x. r = Inr x \<Longrightarrow> Q x" using assms(1) s unfolding keeps_def by (metis fst_conv snd_conv)+
  then have "keeps J (f x) R" if "r = Inr x" for x using assms(2) that by blast
  then show "sane (svDb (snd (hbind m f s))) \<and> J (svDb (snd (hbind m f s))) \<and> (\<forall>x. fst (hbind m f s) = Inr x \<longrightarrow> R x)"
    using k(1,2) m unfolding keeps_def by (cases r) (simp_all add: hbind_def)
qed

lemma keeps_then: "still J m \<Longrightarrow> keeps J k R \<Longrightarrow> keeps J (hthen m k) R"
  unfolding hthen_def by (rule keeps_bind)

lemma keeps_first: "still J m \<Longrightarrow> (\<And>x. keeps J (f x) R) \<Longrightarrow> keeps J (hbind m f) R"
  by (rule keeps_bind)

lemmas still_chain [still_rules] = keeps_first [where R = "\<lambda>_. True"] keeps_then [where R = "\<lambda>_. True"]

lemma still_basic [still_rules]:
  "still J (ret x)" "still J (answer r)" "still J (cookie c)" "still J (clockNow w)" "still J (limit w b op)"
  by (auto simp: keeps_def ret_def answer_def cookie_def clockNow_def limit_def Let_def split: prod.split)

lemma still_split [still_rules]:
  "(c \<Longrightarrow> still J m) \<Longrightarrow> (\<not> c \<Longrightarrow> still J k) \<Longrightarrow> still J (if c then m else k)"
  "(\<And>e. still J (f e)) \<Longrightarrow> (\<And>x. still J (g x)) \<Longrightarrow> still J (case r of Inl e \<Rightarrow> f e | Inr x \<Rightarrow> g x)"
  "still J m \<Longrightarrow> (\<And>x. still J (h x)) \<Longrightarrow> still J (case v of None \<Rightarrow> m | Some x \<Rightarrow> h x)"
  "(\<And>a b. still J (k' a b)) \<Longrightarrow> still J (case p of (a, b) \<Rightarrow> k' a b)"
  by (auto split: sum.split option.split prod.split)

lemma keeps_deferring:
  assumes "keeps J m Q" "still J d"
  shows "keeps J (deferring m d) Q"
  unfolding keeps_def
proof (intro allI impI)
  fix s :: srv assume s: "sane (svDb s)" "J (svDb s)"
  obtain r s' where m: "m s = (r, s')" by fastforce
  then have k: "sane (svDb s')" "J (svDb s')" "\<And>x. r = Inr x \<Longrightarrow> Q x" using assms(1) s unfolding keeps_def by (metis fst_conv snd_conv)+
  have d: "sane (svDb (snd (d s')))" "J (svDb (snd (d s')))" using assms(2) k(1,2) unfolding keeps_def by blast+
  show "sane (svDb (snd (deferring m d s))) \<and> J (svDb (snd (deferring m d s))) \<and> (\<forall>x. fst (deferring m d s) = Inr x \<longrightarrow> Q x)"
    using k d m by (cases r) (simp_all add: deferring_def)
qed

text \<open>A call keeps what its operation and the others keep.\<close>

definition gentle :: "handlerCfg \<Rightarrow> gotime set \<Rightarrow> int \<Rightarrow> world \<Rightarrow> (gotime \<Rightarrow> authdb \<Rightarrow> (authErr + 'a) \<times> authdb) \<Rightarrow> bool" where
  "gentle cfg T uid w op = (steps cfg T op \<and>
     (\<forall>now db. sane db \<longrightarrow> unopened cfg uid w db \<longrightarrow> unopened cfg uid w (snd (op now db))))"

lemma keeps_call:
  assumes h: "watched cfg T uid w" and g: "gentle cfg T uid w op" and e: "Q (Inl ErrSql)"
    and q: "\<And>now db. sane (snd (op now db)) \<Longrightarrow> unopened cfg uid w (snd (op now db)) \<Longrightarrow> sane db \<Longrightarrow> Q (fst (op now db))"
  shows "keeps (unopened cfg uid w) (call w op) Q"
  unfolding keeps_def
proof (intro allI impI)
  fix s :: srv assume s: "sane (svDb s)" "unopened cfg uid w (svDb s)"
  let ?db = "wOthers w (svTick s) (svDb s)" and ?now = "wClock w (svTick s)"
  have o: "sane ?db" "unopened cfg uid w ?db" "?now \<in> T"
    using h s reaches_sane unfolding watched_def honest_def by blast+
  obtain r db' where r: "op ?now ?db = (r, db')" by fastforce
  have d: "sane db'" "unopened cfg uid w db'"
    using g o r reaches_sane unfolding gentle_def steps_def by (metis snd_conv)+
  show "sane (svDb (snd (call w op s))) \<and> unopened cfg uid w (svDb (snd (call w op s))) \<and>
    (\<forall>x. fst (call w op s) = Inr x \<longrightarrow> Q x)"
    using o d e r q [of ?now ?db] by (simp add: call_def Let_def)
qed

lemma still_call [still_rules]: "watched cfg T uid w \<Longrightarrow> gentle cfg T uid w op \<Longrightarrow> still (unopened cfg uid w) (call w op)"
  by (rule keeps_call) simp_all

lemma gentle_query: "gentle cfg T uid w (\<lambda>now db. (f now db, db))"
  by (simp add: gentle_def steps_query)

lemma still_query [still_rules]: "watched cfg T uid w \<Longrightarrow> still (unopened cfg uid w) (query w f)"
  unfolding query_def by (rule still_call [OF _ gentle_query])

lemma still_audit [still_rules]:
  assumes "watched cfg T uid w"
  shows "still (unopened cfg uid w) (audit w a)"
proof -
  have "sane (wOthers w k db)" if "sane db" for k db
    using assms that reaches_sane unfolding watched_def honest_def by blast
  then show ?thesis using assms by (simp add: keeps_def audit_def Let_def watched_def)
qed

lemma mints_silent: "silent m \<Longrightarrow> mints J m C"
  by (auto simp: mints_def silent_def)

lemma mints_bind:
  assumes "keeps J m Q" "silent m" "\<And>x. Q x \<Longrightarrow> mints J (f x) C"
  shows "mints J (hbind m f) C"
  unfolding mints_def
proof (intro allI impI)
  fix s :: srv and i assume s: "sane (svDb s)" "J (svDb s)" and i: "SetSession i \<in> set (svCookies (snd (hbind m f s)))"
  obtain r s' where m: "m s = (r, s')" by fastforce
  have g: "SetSession i \<in> set (svCookies s)" if "SetSession i \<in> set (svCookies s')"
    using silentD [OF assms(2) m that] .
  show "SetSession i \<in> set (svCookies s) \<or> (C i \<and> J (svDb (snd (hbind m f s))))"
  proof (cases r)
    case (Inl e)
    then show ?thesis using g i m by (simp add: hbind_def)
  next
    case (Inr x)
    have k: "sane (svDb s')" "J (svDb s')" "Q x" using assms(1) s m Inr unfolding keeps_def by (metis fst_conv snd_conv)+
    then show ?thesis using g i m Inr assms(3) [OF k(3)] unfolding mints_def by (auto simp: hbind_def)
  qed
qed

lemma mints_frame: "still J m \<Longrightarrow> silent m \<Longrightarrow> (\<And>x. mints J (f x) C) \<Longrightarrow> mints J (hbind m f) C"
  by (rule mints_bind)

lemma mints_after: "still J m \<Longrightarrow> silent m \<Longrightarrow> mints J k C \<Longrightarrow> mints J (hthen m k) C"
  unfolding hthen_def by (rule mints_frame)

lemma mints_split:
  "(c \<Longrightarrow> mints P m G) \<Longrightarrow> (\<not> c \<Longrightarrow> mints P k G) \<Longrightarrow> mints P (if c then m else k) G"
  "(\<And>e. r = Inl e \<Longrightarrow> mints P (f e) G) \<Longrightarrow> (\<And>x. r = Inr x \<Longrightarrow> mints P (g x) G) \<Longrightarrow> mints P (case r of Inl e \<Rightarrow> f e | Inr x \<Rightarrow> g x) G"
  "(v = None \<Longrightarrow> mints P m G) \<Longrightarrow> (\<And>x. v = Some x \<Longrightarrow> mints P (h x) G) \<Longrightarrow> mints P (case v of None \<Rightarrow> m | Some x \<Rightarrow> h x) G"
  "(\<And>a b. p = (a, b) \<Longrightarrow> mints P (k' a b) G) \<Longrightarrow> mints P (case p of (a, b) \<Rightarrow> k' a b) G"
  by (auto split: sum.split option.split prod.split)

text \<open>The cookie itself, with what follows it.\<close>

lemma mints_setSession:
  assumes "C i" "still J k" "silent k"
  shows "mints J (hthen (cookie (SetSession i)) k) C"
  unfolding mints_def
proof (intro allI impI)
  fix s :: srv and j assume s: "sane (svDb s)" "J (svDb s)"
    and j: "SetSession j \<in> set (svCookies (snd (hthen (cookie (SetSession i)) k s)))"
  let ?s = "s\<lparr>svCookies := svCookies s @ [SetSession i]\<rparr>"
  have e: "hthen (cookie (SetSession i)) k s = k ?s" by (simp add: hthen_def hbind_def cookie_def)
  have "J (svDb (snd (k ?s)))" using assms(2) s unfolding keeps_def by simp
  moreover have "SetSession j \<in> set (svCookies ?s)"
    using assms(3) j unfolding e silent_def by blast
  ultimately show "SetSession j \<in> set (svCookies s) \<or> (C j \<and> J (svDb (snd (hthen (cookie (SetSession i)) k s))))"
    using assms(1) unfolding e by auto
qed

section \<open>The operations that hand out an account\<close>

lemma seenIn_viewOf: "u \<in> set (users (idn db)) \<Longrightarrow> seenIn (viewOf db u) db"
  by (simp add: seenIn_def viewOf_def)

lemma userById_mem: "userById i st = Some u \<Longrightarrow> u \<in> set (users st)"
  by (auto simp: userById_def find_Some_iff)

lemma login_seen: "loginVerdict (verifyLogin cfg i pw db) = Some u \<Longrightarrow> seenIn u db"
  by (auto simp: loginVerdict_def verifyLogin_def verifyPassword_def userByName_def seenIn_def find_Some_iff
      split: option.splits if_splits)

lemma commitTx_Inr: "commitTx i r st' st = (Inr x, st'') \<Longrightarrow> x = r \<and> st'' = st'"
  by (auto simp: commitTx_def split: option.splits if_splits)

lemma Bootstrap_mem:
  assumes "Bootstrap hashpw now email name password st = (Inr u, st')"
  shows "u \<in> set (users st')"
proof (cases "lowestId (filter (\<lambda>u. uRole u \<in> {RoleOwner, RoleAdmin} \<and> uStatus u = StatusPending) (users st))")
  case None
  then obtain h v st1 where "insertUser (newUser email name RoleOwner (Some h) (Some now)) st = Inr (v, st1)"
    "commitTx (uId v) v st1 st = (Inr u, st')"
    using assms by (auto simp: Bootstrap_def split: option.splits sum.splits if_splits)
  then show ?thesis using insertUser_Inr(2) commitTx_Inr by fastforce
next
  case (Some p)
  then have m: "p \<in> set (users st)" using lowestId_mem by fastforce
  obtain f st1 where w: "writeUsers (\<lambda>u. uId u = uId p) f st = Inr st1" "commitTx (uId p) (f p) st1 st = (Inr u, st')"
    using assms Some by (auto simp: Bootstrap_def Let_def split: option.splits sum.splits if_splits)
  then show ?thesis using commitTx_Inr [OF w(2)] writeUsers_Inr [OF w(1)] m by auto
qed

lemma insertAccepted_mem:
  assumes "insertAcceptedUser now e n c r st = Inr (u, st')"
  shows "u \<in> set (users st')"
  using assms insertUser_Inr(2)
  by (fastforce simp: insertAcceptedUser_def rbind_Inr_iff dest: linkIdentity_users split: sum.splits option.splits)

lemma acceptInvite_mem: "acceptInvite now loc n c st = (Inr u, st') \<Longrightarrow> u \<in> set (users st')"
  by (auto simp: acceptInvite_def dest!: commitTx_Inr dest: insertAccepted_mem split: sum.splits option.splits if_splits)

lemma AcceptInvite_mem:
  "AcceptInvite hashpw now tok n p st = (Inr u, st') \<Longrightarrow> u \<in> set (users st')"
  "AcceptInviteWithIdentityByID now i n pid st = (Inr u, st') \<Longrightarrow> u \<in> set (users st')"
  by (auto simp: AcceptInvite_def AcceptInviteWithIdentityByID_def dest: acceptInvite_mem split: option.splits)

lemma reset_mem:
  assumes "ConsumePasswordReset hashpw now tok pw db = (Inr u, db')"
  shows "u \<in> set (users (idn db'))"
proof -
  let ?f = "\<lambda>h u. u\<lparr>uPwHash := Some h, uTokenVersion := uTokenVersion u + 1,
      uVerifiedAt := (case uVerifiedAt u of None \<Rightarrow> Some now | Some x \<Rightarrow> Some x)\<rparr>"
  note d = assms [unfolded ConsumePasswordReset_def runTx_Inr Let_def]
  obtain t where t: "tok = Some t" using d by (cases tok) simp_all
  obtain h where h: "hashpw pw = Some h" using d t by (cases "hashpw pw") simp_all
  obtain r where r: "find (\<lambda>r. pwToken r = t \<and> resetLive now r) (resets db) = Some r"
    using d t h by (cases "find (\<lambda>r. pwToken r = t \<and> resetLive now r) (resets db)") simp_all
  obtain v where v: "userById (pwUser r) (idn db) = Some v"
    using d t h r by (cases "userById (pwUser r) (idn db)") simp_all
  have a: "uStatus v = StatusActive" using d t h r v by (simp split: if_splits)
  obtain st1 where w: "writeUsers (\<lambda>x. uId x = pwUser r \<and> uStatus x = StatusActive \<and> uTokenVersion x = uTokenVersion v)
      (?f h) (idn db) = Inr st1"
    using d t h r v
    by (cases "writeUsers (\<lambda>x. uId x = pwUser r \<and> uStatus x = StatusActive \<and> uTokenVersion x = uTokenVersion v)
      (?f h) (idn db)") (simp_all split: if_splits)
  have u: "u = ?f h v" "users (idn db') = users st1"
    using d t h r v w by (auto simp: revokeWhere_def split: if_splits)
  have "v \<in> set (users (idn db))" "uId v = pwUser r" using v by (auto simp: userById_def find_Some_iff)
  then have "?f h v \<in> set (users st1)" using writeUsers_Inr [OF w] a by (auto simp: image_iff)
  then show ?thesis using u by simp
qed

lemma provision_seen:
  assumes "ProvisionOAuthUser now email name pid r db = (Inr u, db')"
  shows "seenIn u db'"
proof -
  obtain v st st1 where p: "insertUser (newUser email (capProfileName name) r None (Some now)) (idn db) = Inr (v, st)"
    "linkIdentity (uId v) pid st = Inr st1" "u = viewOf (setIdn st1 db) v" "db' = setIdn st1 db"
    using assms by (auto simp: ProvisionOAuthUser_def runTx_Inr rbind_Inr_iff Let_def split: sum.splits if_splits)
  have "v \<in> set (users st1)" using linkIdentity_users [OF p(2)] insertUser_Inr(2) [OF p(1)] by simp
  then show ?thesis unfolding p(3,4) by (intro seenIn_viewOf) simp
qed

lemma identity_seen: "UserByIdentity provider subject db = Inr u \<Longrightarrow> seenIn u db"
  by (auto simp: UserByIdentity_def rbind_Inr_iff GetUser_def split: option.splits intro: seenIn_viewOf userById_mem)

lemma convert_seen:
  assumes "convertTx now cid uid v h db = (Inr (u, m), db')"
  shows "seenIn u db'"
proof -
  obtain db1 st1 x st2 where c: "retirePasswordTx uid v h st1 = Inr (x, st2)" "u = viewOf db' x"
    "db' = setIdn (revokeWhere (\<lambda>s. sUser s = uid) ReasonPasswordChanged now st2) db1"
    using assms by (auto simp: convertTx_def runTx_Inr rbind_Inr_iff Let_def)
  have "userById uid st2 = Some x"
    using c(1) by (auto simp: retirePasswordTx_def Let_def split: if_splits sum.splits option.splits)
  then have "x \<in> set (users (idn db'))" using userById_mem by (simp add: c(3) revokeWhere_def)
  then show ?thesis using c(2) seenIn_viewOf by simp
qed

section \<open>Completing a sign-in\<close>

lemma writeUsers_keeps: "writeUsers P f st = Inr st' \<Longrightarrow> (\<And>u. uId (f u) = uId u \<and> uRole (f u) = uRole u) \<Longrightarrow>
    lenient st st' \<and> sessions st' = sessions st"
  using lenient_write by (fastforce dest: writeUsers_Inr)

lemma gentle_IssueSession:
  assumes "v \<noteq> uid"
  shows "gentle cfg T uid w (\<lambda>now db. case IssueSession now f m v ver ttl ip ua (idn db) of (r, st) \<Rightarrow> (r, setIdn st db))"
proof -
  have a: "unopened cfg uid w (setIdn (snd (IssueSession now f m v ver ttl ip ua (idn db))) db)"
    if "unopened cfg uid w db" for now db
  proof (cases "fst (IssueSession now f m v ver ttl ip ua (idn db))")
    case (Inl e)
    then have "snd (IssueSession now f m v ver ttl ip ua (idn db)) = idn db"
      by (auto simp: IssueSession_def Let_def split: option.splits sum.splits)
    then show ?thesis using that by (simp add: setIdn_def)
  next
    case (Inr p)
    then obtain sid st1 st2 where s: "issueSessionTx now f v (newSessionIssue now ttl m) ip ua (idn db) = Inr (sid, st1)"
      "writeUsers (\<lambda>u. uId u = v) (\<lambda>u. u\<lparr>uLastLogin := Some now\<rparr>) st1 = Inr st2"
      "snd (IssueSession now f m v ver ttl ip ua (idn db)) = st2"
      by (auto simp: IssueSession_def Let_def split: option.splits sum.splits)
    obtain x where x: "sessions st2 = sessions (idn db) @ [x]" "sUser x = v"
      using issueSession_users(4) [OF s(1)] writeUsers_keeps [OF s(2)] by auto
    have "users st2 = map (\<lambda>u. if uId u = v then u\<lparr>uLastLogin := Some now\<rparr> else u) (users (idn db))"
      using issueSession_users(1) [OF s(1)] writeUsers_Inr [OF s(2)] by simp
    then show ?thesis
      using that x assms unfolding s(3) unopened_def owes_def carries_def totpEnabled_def emailEnabled_def setIdn_def by auto
  qed
  have "unopened cfg uid w (setIdn st db)"
    if "unopened cfg uid w db" "IssueSession now f m v ver ttl ip ua (idn db) = (r, st)" for now db r st
    using a [OF that(1), of now] unfolding that(2) by simp
  then show ?thesis
    unfolding gentle_def by (intro conjI steps_setIdn epochs_IssueSession allI impI) (auto split: prod.split)
qed

lemma keeps_issueSession:
  assumes h: "watched cfg T uid w" and n: "uId (uvUser u) \<noteq> uid"
  shows "keeps (unopened cfg uid w) (issueSession w cfg rq u) (\<lambda>r. \<forall>i sid. r = Inr (i, sid) \<longrightarrow> minted w i)"
  unfolding issueSession_def
proof (rule keeps_call [OF h gentle_IssueSession [OF n]])
  fix now db
  show "\<forall>i sid. fst (case IssueSession now (wFamily w) (wMinted w) (uId (uvUser u)) (uTokenVersion (uvUser u)) (hTTL cfg)
      (arIP rq) (arUA rq) (idn db) of (r, st) \<Rightarrow> (r, setIdn st db)) = Inr (i, sid) \<longrightarrow> minted w i"
    by (auto simp: IssueSession_def Let_def minted_def newSessionIssue_def split: option.splits sum.splits prod.splits)
qed simp

lemma mints_handOver:
  assumes h: "watched cfg T uid w" and d: "due cfg uid u" "secondFactorPurpose cfg u = None"
    and k: "\<And>i. silent (k i)" "\<And>i. still (unopened cfg uid w) (k i)" "\<And>e. silent (bad e)"
  shows "mints (unopened cfg uid w) (hbind (issueSession w cfg rq u) (\<lambda>r. case r of Inl e \<Rightarrow> bad e
     | Inr (issue, sid) \<Rightarrow> hthen (cookie (SetSession issue)) (k issue))) (minted w)"
proof (rule mints_bind [OF keeps_issueSession [OF h]])
  show "uId (uvUser u) \<noteq> uid" using d by (simp add: due_def)
  fix r :: "authErr + sessionIssue \<times> int" assume "\<forall>i sid. r = Inr (i, sid) \<longrightarrow> minted w i"
  then show "mints (unopened cfg uid w) (case r of Inl e \<Rightarrow> bad e | Inr (issue, sid) \<Rightarrow> hthen (cookie (SetSession issue)) (k issue))
      (minted w)"
    by (auto simp: mints_silent k(3) intro!: mints_setSession k(1,2) split: sum.split)
qed (rule silent_rules)

lemma mints_completeLogin:
  assumes h: "watched cfg T uid w" and d: "due cfg uid u"
  shows "mints (unopened cfg uid w) (completeLogin w cfg rq u mb) (minted w)"
proof (cases "secondFactorPurpose cfg u")
  case None
  then show ?thesis unfolding completeLogin_def issueAndRespond_def
    by (simp only: option.case) (rule mints_handOver [OF h d None]; (rule silent_rules still_rules h)+)
next
  case (Some p)
  have "silent (completeLogin w cfg rq u mb)" unfolding completeLogin_def Some option.case by (rule silent_rules)+
  then show ?thesis by (rule mints_silent)
qed

lemma mints_oauthComplete:
  assumes h: "watched cfg T uid w" and d: "due cfg uid u"
  shows "mints (unopened cfg uid w) (oauthComplete w cfg rq u) (minted w)"
proof (cases "secondFactorPurpose cfg u")
  case None
  then show ?thesis unfolding oauthComplete_def
    by (simp only: option.case) (rule mints_handOver [OF h d None];
      (simp only: oauthRedirect_def redirectToSPA_def oauthRedirectError_def)?; (rule silent_rules still_rules)+)
next
  case (Some p)
  have "silent (oauthComplete w cfg rq u)" unfolding oauthComplete_def Some option.case by (rule silent_rules)+
  then show ?thesis by (rule mints_silent)
qed

section \<open>Operations that keep the debt\<close>

text \<open>The account an operation hands out, where it hands out one, is not the account that owes.\<close>

definition spares :: "handlerCfg \<Rightarrow> int \<Rightarrow> ('a \<Rightarrow> userView option) \<Rightarrow> authErr + 'a \<Rightarrow> bool" where
  "spares cfg uid g r = (\<forall>x u. r = Inr x \<longrightarrow> g x = Some u \<longrightarrow> due cfg uid u)"

lemma keeps_reads:
  assumes h: "watched cfg T uid w" and g: "gentle cfg T uid w op"
    and v: "\<And>now db x u db'. sane db \<Longrightarrow> op now db = (Inr x, db') \<Longrightarrow> g x = Some u \<Longrightarrow> seenIn u db'"
  shows "keeps (unopened cfg uid w) (call w op) (spares cfg uid g)"
proof (rule keeps_call [OF h g])
  fix now db assume d: "sane (snd (op now db))" "unopened cfg uid w (snd (op now db))" "sane db"
  show "spares cfg uid g (fst (op now db))"
    unfolding spares_def using seen_due [OF h d(1,2)] v [OF d(3)] by (metis prod.collapse)
qed (simp add: spares_def)

lemma keeps_query_reads:
  assumes "watched cfg T uid w" "\<And>now db x u. f now db = Inr x \<Longrightarrow> g x = Some u \<Longrightarrow> seenIn u db"
  shows "keeps (unopened cfg uid w) (query w f) (spares cfg uid g)"
  unfolding query_def by (rule keeps_reads [OF assms(1) gentle_query]) (use assms(2) in auto)

lemma gentleI:
  assumes "steps cfg T op" "\<And>now db. lenient (idn db) (idn (snd (op now db))) \<and> totpRows (snd (op now db)) = totpRows db \<and>
    emailFactors (snd (op now db)) = emailFactors db"
  shows "gentle cfg T uid w op"
  using assms unopened_frame unfolding gentle_def by blast

lemma gentle_runTx:
  assumes "steps cfg T (\<lambda>now db. runTx db (f now db))"
    and "\<And>now db x db'. f now db = Inr (x, db') \<Longrightarrow> lenient (idn db) (idn db') \<and> totpRows db' = totpRows db \<and>
      emailFactors db' = emailFactors db"
  shows "gentle cfg T uid w (\<lambda>now db. runTx db (f now db))"
proof (rule gentleI [OF assms(1)])
  fix now db
  show "lenient (idn db) (idn (snd (runTx db (f now db)))) \<and> totpRows (snd (runTx db (f now db))) = totpRows db \<and>
    emailFactors (snd (runTx db (f now db))) = emailFactors db"
  proof (cases "f now db")
    case (Inr p)
    then show ?thesis using assms(2) [of now db "fst p" "snd p"] by (cases p) (simp add: runTx_def)
  qed (simp add: runTx_def)
qed

lemma lenient_Bootstrap: "lenient st (snd (Bootstrap hashpw now email name password st))"
  unfolding Bootstrap_def Let_def
  by (auto intro!: lenient_commit intro: lenient_insert lenient_write simp: IsAdmin_def split: option.split sum.split)

lemma lenient_insertAccepted: "insertAcceptedUser now email name cred r st = Inr (u, st') \<Longrightarrow> lenient st st'"
  unfolding insertAcceptedUser_def
  by (auto simp: rbind_Inr_iff split: sum.splits option.splits intro: lenient_insert lenient_trans [OF lenient_insert lenient_link])

lemma lenient_acceptInvite: "lenient st (snd (acceptInvite now loc name cred st))"
proof -
  have "lenient st (st1\<lparr>invites := vs\<rparr>)" if "lenient st st1" for st1 vs
    using that by (simp add: lenient_def)
  then show ?thesis unfolding acceptInvite_def
    by (auto intro!: lenient_commit dest: lenient_insertAccepted split: sum.split)
qed

lemma lenient_AcceptInvite:
  "lenient st (snd (AcceptInvite hashpw now tok name pw st))"
  "lenient st (snd (AcceptInviteWithIdentityByID now i name pid st))"
  by (auto simp: AcceptInvite_def AcceptInviteWithIdentityByID_def lenient_acceptInvite split: option.split)

lemma gentle_onIdentity:
  assumes "\<And>now st. accountIds st \<Longrightarrow> epochGrows st (snd (op now st))" "\<And>now st. lenient st (snd (op now st))"
  shows "gentle cfg T uid w (\<lambda>now db. case op now (idn db) of
        (Inl e, st) \<Rightarrow> (Inl e, setIdn st db)
      | (Inr u, st) \<Rightarrow> (Inr \<lparr>uvUser = u, uvTOTP = totpEnabled (uId u) db, uvEmail = emailEnabled (uId u) db\<rparr>, setIdn st db))"
proof (rule gentleI [OF steps_onIdentity [OF assms(1)]])
  fix now db show "lenient (idn db) (idn (snd (case op now (idn db) of
        (Inl e, st) \<Rightarrow> (Inl e, setIdn st db)
      | (Inr u, st) \<Rightarrow> (Inr \<lparr>uvUser = u, uvTOTP = totpEnabled (uId u) db, uvEmail = emailEnabled (uId u) db\<rparr>, setIdn st db)))) \<and>
    totpRows (snd (case op now (idn db) of
        (Inl e, st) \<Rightarrow> (Inl e, setIdn st db)
      | (Inr u, st) \<Rightarrow> (Inr \<lparr>uvUser = u, uvTOTP = totpEnabled (uId u) db, uvEmail = emailEnabled (uId u) db\<rparr>, setIdn st db))) = totpRows db \<and>
    emailFactors (snd (case op now (idn db) of
        (Inl e, st) \<Rightarrow> (Inl e, setIdn st db)
      | (Inr u, st) \<Rightarrow> (Inr \<lparr>uvUser = u, uvTOTP = totpEnabled (uId u) db, uvEmail = emailEnabled (uId u) db\<rparr>, setIdn st db))) = emailFactors db"
    using assms(2) [of "idn db" now] by (cases "op now (idn db)") (auto simp: setIdn_def split: sum.split)
qed

lemma gentle_reset:
  "gentle cfg T uid w (\<lambda>now db. case ConsumePasswordReset (hHash cfg) now tok pw db of
      (Inl e, db') \<Rightarrow> (Inl e, db')
    | (Inr u, db') \<Rightarrow> (Inr \<lparr>uvUser = u, uvTOTP = totpEnabled (uId u) db', uvEmail = emailEnabled (uId u) db'\<rparr>, db'))"
proof (rule gentleI [OF steps_reset_view])
  fix now db
  let ?c = "ConsumePasswordReset (hHash cfg) now tok pw db"
  have "lenient (idn db) (idn db') \<and> totpRows db' = totpRows db \<and> emailFactors db' = emailFactors db" if "?c = (r, db')" for r db'
    using that unfolding ConsumePasswordReset_def Let_def
    by (auto simp: runTx_def spendOtps_def setIdn_def split: option.splits sum.splits if_splits
        intro!: lenient_trans [OF _ lenient_revoke] elim!: lenient_write)
  then show "lenient (idn db) (idn (snd (case ?c of
      (Inl e, db') \<Rightarrow> (Inl e, db')
    | (Inr u, db') \<Rightarrow> (Inr \<lparr>uvUser = u, uvTOTP = totpEnabled (uId u) db', uvEmail = emailEnabled (uId u) db'\<rparr>, db')))) \<and>
    totpRows (snd (case ?c of
      (Inl e, db') \<Rightarrow> (Inl e, db')
    | (Inr u, db') \<Rightarrow> (Inr \<lparr>uvUser = u, uvTOTP = totpEnabled (uId u) db', uvEmail = emailEnabled (uId u) db'\<rparr>, db'))) = totpRows db \<and>
    emailFactors (snd (case ?c of
      (Inl e, db') \<Rightarrow> (Inl e, db')
    | (Inr u, db') \<Rightarrow> (Inr \<lparr>uvUser = u, uvTOTP = totpEnabled (uId u) db', uvEmail = emailEnabled (uId u) db'\<rparr>, db'))) = emailFactors db"
    by (cases ?c) (auto split: sum.split)
qed

lemma gentle_provision: "gentle cfg T uid w (\<lambda>now. ProvisionOAuthUser now email name pid r)"
  using steps_provision unfolding ProvisionOAuthUser_def
  by (rule gentle_runTx)
    (auto simp: rbind_Inr_iff setIdn_def Let_def split: if_splits sum.splits dest!: lenient_insert lenient_link,
      (erule (1) lenient_trans)+)

lemma gentle_convert: "gentle cfg T uid w (\<lambda>now. convertTx now cid owner v h)"
  using steps_convert unfolding convertTx_def
proof (rule gentle_runTx)
  fix now db x db'
  assume "rbind (lockConvertUserTx owner v h db) (\<lambda>_. rbind (consumeConvertChallengeTx now cid owner v db) (\<lambda>(pid, db1).
        rbind (linkIdentity owner pid (idn db1)) (\<lambda>st1. rbind (retirePasswordTx owner v h st1) (\<lambda>(u, st2).
          let db2 = setIdn (revokeWhere (\<lambda>s. sUser s = owner) ReasonPasswordChanged now st2) db1
          in Inr ((viewOf db2 u, piEmail pid), db2))))) = Inr (x, db')"
  then obtain pid db1 st1 u st2 where c: "consumeConvertChallengeTx now cid owner v db = Inr (pid, db1)"
    "linkIdentity owner pid (idn db1) = Inr st1" "retirePasswordTx owner v h st1 = Inr (u, st2)"
    "db' = setIdn (revokeWhere (\<lambda>s. sUser s = owner) ReasonPasswordChanged now st2) db1"
    by (auto simp: rbind_Inr_iff Let_def)
  have a: "idn db1 = idn db" "totpRows db1 = totpRows db" "emailFactors db1 = emailFactors db"
    using c(1) by (auto simp: consumeConvertChallengeTx_def updateChallenge_def split: option.splits if_splits)
  have "lenient st1 st2"
    using c(3) by (auto simp: retirePasswordTx_def Let_def split: if_splits sum.splits option.splits intro: lenient_write)
  then show "lenient (idn db) (idn db') \<and> totpRows db' = totpRows db \<and> emailFactors db' = emailFactors db"
    using lenient_trans [OF lenient_trans [OF lenient_link [OF c(2)]] lenient_revoke] a by (simp add: c(4) setIdn_def)
qed

lemma gentle_state: "gentle cfg T uid w (\<lambda>now. ConsumeOAuthState now raw)"
  using steps_oauthStates(3) unfolding ConsumeOAuthState_def
  by (rule gentle_runTx) (auto split: if_splits option.splits)

lemma gentle_bump: "gentle cfg T uid w (\<lambda>now. BumpChallengeAttempt now i)"
  by (rule gentleI [OF steps_Bump])
    (auto simp: BumpChallengeAttempt_def updateChallenge_def split: sum.split if_split)

lemma reaches_queued: "now \<in> T \<Longrightarrow> reaches cfg T db (db\<lparr>mails := ms\<rparr>)"
  using reaches_step [OF tfStep.queued [where sd = "side db"], of now T cfg db ms] by simp

lemma still_mail [still_rules]:
  assumes "watched cfg T uid w"
  shows "still (unopened cfg uid w) (enqueueMail w cfg template args)"
proof -
  have q: "enqueueDraft ok draft [] db = Inr db' \<Longrightarrow> \<exists>ms. db' = db\<lparr>mails := ms\<rparr>" for ok draft db db'
    by (cases db) (auto simp: enqueueDraft_def split: option.splits if_splits)
  have "gentle cfg T uid w (\<lambda>now db. runTx db (rbind (enqueueDraft (wOutbox w) (Some (hDraft cfg template args)) [] db)
      (\<lambda>db'. Inr ((), db'))))"
    by (rule gentle_runTx, rule steps_runTx) (auto simp: rbind_Inr_iff dest!: q intro: reaches_queued)
  then show ?thesis unfolding enqueueMail_def by (intro still_chain still_call [OF assms] still_basic)
qed

lemma still_touch [still_rules]: "watched cfg T uid w \<Longrightarrow> still (unopened cfg uid w) (TouchIdentity w)"
  unfolding TouchIdentity_def by (rule still_rules | assumption | rule gentle_query)+

lemma still_shared [still_rules]:
  "still J (decode body)" "still J (orInternal r)" "still J (beginSlot w b key)" "still J (commitFail w b key)"
  "still J (commitSuccess w b key)" "still J (releaseKey w b key)" "still J (commitFailFor w b key member)"
  "still J (configureLoginLimits w)" "still J (requireEmail em)" "still J (validatePassword cfg pw)"
  "still J (validateProfileName nm)" "still J (writeChallengeError e)"
  unfolding decode_def orInternal_def beginSlot_def commitFail_def commitSuccess_def releaseKey_def commitFailFor_def
    configureLoginLimits_def requireEmail_def validatePassword_def validateProfileName_def writeChallengeError_def Let_def
  by (rule still_rules)+

lemma still_requireChallenge [still_rules]: "watched cfg T uid w \<Longrightarrow> still (unopened cfg uid w) (requireChallenge w rq ps)"
  unfolding requireChallenge_def by (rule still_rules | assumption)+

section \<open>The endpoints\<close>

text \<open>Whatever follows an operation that may hand out an account.\<close>

lemma mints_spares:
  assumes "\<And>e. silent (bad e)" "\<And>x. (\<And>u. g x = Some u \<Longrightarrow> due cfg uid u) \<Longrightarrow> mints J (k x) C" "spares cfg uid g r"
  shows "mints J (case r of Inl e \<Rightarrow> bad e | Inr x \<Rightarrow> k x) C"
  using assms by (cases r) (simp_all add: mints_silent spares_def)

lemma mints_withAddressSlot:
  assumes h: "watched cfg T uid w"
    and work: "\<And>i. keeps (unopened cfg uid w) (work i) (spares cfg uid Some)" "\<And>i. silent (work i)"
    and fin: "\<And>u. due cfg uid u \<Longrightarrow> mints (unopened cfg uid w) (fin u) C"
  shows "mints (unopened cfg uid w) (withAddressSlot w b key input work refusalOf fin) C"
  unfolding withAddressSlot_def
proof (rule mints_frame)
  fix x :: "gotime \<times> bool"
  let ?J = "unopened cfg uid w"
  obtain until ok where x: "x = (until, ok)" by fastforce
  let ?m = "deferring (hbind (decode input) work) (releaseKey w b key)"
  have v: "keeps ?J ?m (spares cfg uid Some)"
    by (rule keeps_deferring [OF keeps_first [OF _ work(1)]]) (rule still_rules)+
  have s: "silent ?m" by (rule silent_rules work(2))+
  have r: "mints ?J (case r of
        Inl e \<Rightarrow> (case refusalOf e of
             Some reply \<Rightarrow> hthen (commitFail w b key) (answer reply)
           | None \<Rightarrow> hthen (releaseKey w b key) (answer internalError))
      | Inr u \<Rightarrow> hthen (commitSuccess w b key) (fin u)) C" if "spares cfg uid Some r" for r
  proof (rule mints_spares [OF _ _ that])
    show "silent (case refusalOf e of
             Some reply \<Rightarrow> hthen (commitFail w b key) (answer reply)
           | None \<Rightarrow> hthen (releaseKey w b key) (answer internalError))" for e by (rule silent_rules)+
    show "mints ?J (hthen (commitSuccess w b key) (fin u)) C" if "\<And>v. Some u = Some v \<Longrightarrow> due cfg uid v" for u
      by (rule mints_after [OF still_shared(5) silent_slots(3) fin]) (simp add: that)
  qed
  show "mints ?J (case x of (until, ok) \<Rightarrow> if \<not> ok then writeRateLimited else hbind ?m (\<lambda>r. case r of
        Inl e \<Rightarrow> (case refusalOf e of
             Some reply \<Rightarrow> hthen (commitFail w b key) (answer reply)
           | None \<Rightarrow> hthen (releaseKey w b key) (answer internalError))
      | Inr u \<Rightarrow> hthen (commitSuccess w b key) (fin u))) C"
    unfolding x prod.case
    by (rule mints_split(1)) (rule mints_silent, rule silent_rules, rule mints_bind [OF v s r])
qed (rule still_rules silent_rules)+

lemma keeps_onIdentity:
  assumes h: "watched cfg T uid w"
    and o: "\<And>now st. accountIds st \<Longrightarrow> epochGrows st (snd (op now st))" "\<And>now st. lenient st (snd (op now st))"
      "\<And>now st u st'. op now st = (Inr u, st') \<Longrightarrow> u \<in> set (users st')"
  shows "keeps (unopened cfg uid w) (onIdentity w op) (spares cfg uid Some)"
  unfolding onIdentity_def
proof (rule keeps_reads [OF h gentle_onIdentity [OF o(1,2)]])
  fix now db x u db'
  assume "(case op now (idn db) of
        (Inl e, st) \<Rightarrow> (Inl e, setIdn st db)
      | (Inr u, st) \<Rightarrow> (Inr \<lparr>uvUser = u, uvTOTP = totpEnabled (uId u) db, uvEmail = emailEnabled (uId u) db\<rparr>, setIdn st db)) =
      (Inr x, db')" "Some x = Some u"
  then obtain v st where r: "op now (idn db) = (Inr v, st)" "db' = setIdn st db"
    "u = \<lparr>uvUser = v, uvTOTP = totpEnabled (uId v) db, uvEmail = emailEnabled (uId v) db\<rparr>"
    by (auto split: prod.splits sum.splits)
  show "seenIn u db'" using o(3) [OF r(1)] by (simp add: seenIn_def r(2,3) totpEnabled_def emailEnabled_def)
qed

lemma mints_accounts:
  assumes h: "watched cfg T uid w"
  shows "mints (unopened cfg uid w) (BootstrapHandler w cfg rq bi) (minted w)"
    "mints (unopened cfg uid w) (AcceptInviteHandler w cfg rq ai) (minted w)"
    "mints (unopened cfg uid w) (ResetPassword w cfg rq ri) (minted w)"
proof -
  let ?J = "unopened cfg uid w"
  have b: "keeps ?J (onIdentity w (\<lambda>now. Bootstrap (hHash cfg) now e n pw)) (spares cfg uid Some)" for e n pw
    by (rule keeps_onIdentity [OF h epochs_Bootstrap lenient_Bootstrap Bootstrap_mem])
  have a: "keeps ?J (onIdentity w (\<lambda>now. AcceptInvite (hHash cfg) now tok n pw)) (spares cfg uid Some)" for tok n pw
    by (rule keeps_onIdentity [OF h epochs_AcceptInvite lenient_AcceptInvite(1) AcceptInvite_mem(1)])
  have r: "keeps ?J (call w (\<lambda>now db. case ConsumePasswordReset (hHash cfg) now tk pw db of
                (Inl e, db') \<Rightarrow> (Inl e, db')
              | (Inr u, db') \<Rightarrow> (Inr \<lparr>uvUser = u, uvTOTP = totpEnabled (uId u) db', uvEmail = emailEnabled (uId u) db'\<rparr>, db')))
      (spares cfg uid Some)" for tk pw
    by (rule keeps_reads [OF h gentle_reset]) (auto simp: seenIn_def dest: reset_mem split: prod.splits sum.splits)
  note first = keeps_then keeps_first
  show "mints ?J (BootstrapHandler w cfg rq bi) (minted w)"
    unfolding BootstrapHandler_def
    by (rule mints_withAddressSlot [OF h]; (rule mints_completeLogin [OF h] b first still_shared silent_rules | assumption)+)
  show "mints ?J (AcceptInviteHandler w cfg rq ai) (minted w)"
    unfolding AcceptInviteHandler_def
    by (rule mints_withAddressSlot [OF h]; (rule mints_completeLogin [OF h] a first still_shared silent_rules | assumption)+)
  show "mints ?J (ResetPassword w cfg rq ri) (minted w)"
    unfolding ResetPassword_def
    by (rule mints_withAddressSlot [OF h]; (rule mints_completeLogin [OF h] r first still_shared silent_rules | assumption)+)
qed

lemma mints_Login:
  assumes h: "watched cfg T uid w"
  shows "mints (unopened cfg uid w) (Login w cfg rq li) (minted w)"
proof -
  let ?J = "unopened cfg uid w"
  have v: "keeps ?J (query w (\<lambda>now db. Inr (verifyLogin cfg i pw db))) (spares cfg uid loginVerdict)" for i pw
    by (rule keeps_query_reads [OF h]) (metis login_seen sum.inject(2))
  have n: "silent (settleLogin w cfg rq a b sub None)" for a b sub
    unfolding settleLogin_def option.case by (rule silent_rules)+
  have y: "mints ?J (settleLogin w cfg rq a b sub x) (minted w)" if "\<And>u. x = Some u \<Longrightarrow> due cfg uid u" for a b sub x
  proof (cases x)
    case (Some u)
    show ?thesis unfolding settleLogin_def Some option.case
      by (intro mints_after still_shared silent_slots mints_completeLogin [OF h that [OF Some]])
  qed (simp add: mints_silent n)
  have s: "mints ?J (case r of Inl e \<Rightarrow> hthen (releaseKey w LoginByIP a)
        (hthen (releaseKey w LoginByEmail b) (answer internalError))
      | Inr v \<Rightarrow> settleLogin w cfg rq a b sub (loginVerdict v)) (minted w)" if "spares cfg uid loginVerdict r" for r a b sub
    by (rule mints_spares [OF _ _ that]) (rule silent_rules | simp add: y)+
  show ?thesis
    unfolding Login_def Let_def
    by (rule mints_after mints_frame mints_split mints_bind [OF v _ s] still_rules h silent_rules
        | assumption | rule mints_silent, (rule silent_rules)+)+
qed

lemma mints_oauthFinish:
  assumes h: "watched cfg T uid w"
  shows "mints (unopened cfg uid w) (oauthFinish w cfg rq st info) (minted w)"
proof -
  let ?G = "minted w" and ?J = "unopened cfg uid w"
  have pv: "keeps ?J (call w (\<lambda>now. ProvisionOAuthUser now e n pid r)) (spares cfg uid Some)" for e n pid r
    by (rule keeps_reads [OF h gentle_provision]) (auto dest: provision_seen)
  have ps: "mints ?J (case r of Inl e \<Rightarrow> oauthRedirectError cfg ''not_linked'' | Inr u \<Rightarrow> oauthComplete w cfg rq u) ?G"
    if "spares cfg uid Some r" for r
    by (rule mints_spares [OF _ _ that]) (simp_all add: silent_oauth mints_oauthComplete [OF h])
  have p: "mints ?J (oauthAutoProvision w cfg rq info) ?G"
    unfolding oauthAutoProvision_def
    by (rule mints_split mints_silent [OF silent_oauth(2)] mints_bind [OF pv _ ps] silent_rules | assumption)+
  have c: "mints ?J (oauthOfferConversion w cfg rq info) ?G"
    unfolding oauthOfferConversion_def
    by (rule mints_split mints_silent [OF silent_oauth(2)] mints_frame p still_rules h silent_rules
        | rule mints_silent, (rule silent_rules)+)+
  have iv: "keeps ?J (query w (\<lambda>now. UserByIdentity ProviderGoogle sub)) (spares cfg uid Some)" for sub
    by (rule keeps_query_reads [OF h]) (auto dest: identity_seen)
  have r: "mints ?J (case r of
         Inr u \<Rightarrow> if uStatus (uvUser u) \<noteq> StatusActive then oauthRedirectError cfg ''not_linked''
           else hthen (TouchIdentity w) (oauthComplete w cfg rq u)
       | Inl e \<Rightarrow> if e \<noteq> ErrNoUser then oauthRedirectError cfg ''server_error'' else oauthOfferConversion w cfg rq info) ?G"
    if "spares cfg uid Some r" for r
  proof (cases r)
    case (Inl e)
    then show ?thesis by (simp add: mints_silent silent_oauth c)
  next
    case (Inr u)
    then have "due cfg uid u" using that by (simp add: spares_def)
    then have "mints ?J (hthen (TouchIdentity w) (oauthComplete w cfg rq u)) ?G"
      by (intro mints_after still_touch [OF h] silent_oauth mints_oauthComplete [OF h])
    then show ?thesis unfolding Inr by (simp add: mints_silent silent_oauth)
  qed
  have l: "mints ?J (oauthFinishLogin w cfg rq info) ?G"
    unfolding oauthFinishLogin_def by (rule mints_bind [OF iv _ r]) (rule silent_rules | assumption)+
  have av: "keeps ?J (onIdentity w (\<lambda>now. AcceptInviteWithIdentityByID now i n pid)) (spares cfg uid Some)" for i n pid
    by (rule keeps_onIdentity [OF h epochs_AcceptInviteWithIdentityByID lenient_AcceptInvite(2) AcceptInvite_mem(2)])
  have as: "mints ?J (case r of Inr u \<Rightarrow> oauthComplete w cfg rq u
      | Inl e \<Rightarrow> if e = ErrInviteEmailMismatch then oauthRedirectError cfg ''invite_email_mismatch''
          else if e = ErrInviteInvalid then oauthRedirectError cfg ''invite_invalid''
          else if e = ErrIdentityTaken then oauthRedirectError cfg ''already_linked''
          else if e = ErrEmailTaken then oauthRedirectError cfg ''email_taken''
          else oauthRedirectError cfg ''server_error'') ?G" if "spares cfg uid Some r" for r
    by (rule mints_spares [OF _ _ that]) (simp_all add: silent_oauth mints_oauthComplete [OF h])
  have i: "mints ?J (oauthFinishInvite w cfg rq st info) ?G"
    unfolding oauthFinishInvite_def Let_def
    by (rule mints_split mints_silent [OF silent_oauth(2)] mints_bind [OF av _ as] silent_rules | assumption)+
  show ?thesis unfolding oauthFinish_def
    by (rule mints_split l i mints_silent [OF silent_oauth_more(3)])+
qed

lemma still_checkLink: "watched cfg T uid w \<Longrightarrow> still (unopened cfg uid w) (oauthCheckLink w cfg rq st)"
  unfolding oauthCheckLink_def oauthRedirectError_def redirectToSPA_def by (rule still_rules | assumption)+

lemma mints_OAuthCallback:
  assumes h: "watched cfg T uid w"
  shows "mints (unopened cfg uid w) (OAuthCallback w cfg rq q) (minted w)"
  unfolding OAuthCallback_def
  by (rule mints_after mints_frame mints_split mints_silent [OF silent_oauth(2)] mints_oauthFinish still_call [OF h gentle_state]
      still_checkLink still_basic h silent_rules)+

lemma mints_OAuthConvert:
  assumes h: "watched cfg T uid w"
  shows "mints (unopened cfg uid w) (OAuthConvert w cfg rq ci) (minted w)"
proof -
  let ?g = "\<lambda>x :: userView \<times> string. Some (fst x)" and ?J = "unopened cfg uid w"
  have c: "keeps ?J (call w (\<lambda>now. convertTx now cid owner v hh)) (spares cfg uid ?g)" for cid owner v hh
    by (rule keeps_reads [OF h gentle_convert]) (auto dest: convert_seen)
  have n: "keeps ?J (ret (Inl e)) (spares cfg uid ?g)" for e
    by (simp add: keeps_def ret_def spares_def)
  have k: "keeps ?J (ConvertToProvider w cfg cid pw) (spares cfg uid ?g)" for cid pw
    unfolding ConvertToProvider_def
    by (rule keeps_first, rule still_query [OF h]) (auto simp: c n split: sum.split option.split prod.split)
  have y: "mints ?J (case x of (u, googleEmail) \<Rightarrow> hthen (cookie ClearPreAuth)
      (hthen (enqueueMail w cfg ''account_converted'' [uEmail (uvUser u), googleEmail]) (completeLogin w cfg rq u False)))
      (minted w)" if "\<And>u. ?g x = Some u \<Longrightarrow> due cfg uid u" for x
    using that by (cases x)
      (auto intro!: mints_after still_basic still_mail [OF h] silent_rules mints_completeLogin [OF h])
  have z: "mints ?J (case r of
         Inl e \<Rightarrow> if e = ErrChallengeInvalid then writeChallengeError e
           else if e = ErrBadCredentials \<or> e = ErrPasswordMissing then answer invalidCredentials
           else if e = ErrIdentityTaken then answer (errReply 409 ''oauth_already_linked'')
           else if e = ErrIdentityExists then answer (errReply 409 ''already_converted'')
           else answer internalError
       | Inr x \<Rightarrow> case x of (u, googleEmail) \<Rightarrow> hthen (cookie ClearPreAuth)
          (hthen (enqueueMail w cfg ''account_converted'' [uEmail (uvUser u), googleEmail]) (completeLogin w cfg rq u False)))
      (minted w)" if "spares cfg uid ?g r" for r
    by (rule mints_spares [OF _ _ that]) ((rule silent_rules)+ | rule y)+
  show ?thesis
    unfolding OAuthConvert_def
    by (rule mints_frame mints_split mints_bind [OF k _ z] still_requireChallenge [OF h] still_call [OF h gentle_bump]
        still_shared silent_rules | assumption | rule mints_silent, (rule silent_rules)+)+
qed

text \<open>The steps that check a code, and the rotation of a session there already is.\<close>

definition provesMore :: "endpoint \<Rightarrow> bool" where
  "provesMore e = (case e of EVerify2FA i \<Rightarrow> True | EConfirmTOTP i \<Rightarrow> True | EConfirmEmailFactor i \<Rightarrow> True | ERefresh \<Rightarrow> True
     | _ \<Rightarrow> False)"

lemma mints_Mount:
  assumes h: "watched cfg T uid w" and n: "\<not> provesMore e"
  shows "mints (unopened cfg uid w) (Mount w cfg rq e) (minted w)"
proof -
  have a: "mints P (authenticated rq k) G" if "\<And>p. silent (k p)" for k P G
    unfolding authenticated_def rejectAPIToken_def by (rule mints_silent, (rule silent_rules that)+)
  have b: "mints P (rejectAPIToken rq m) G" if "silent m" for m P G
    unfolding rejectAPIToken_def by (rule mints_silent, (rule silent_rules that)+)
  show ?thesis
    using n by (cases e; simp only: Mount.simps provesMore_def endpoint.case not_True_eq_False)
      (rule a b silent_endpoints silent_account_endpoints mints_accounts [OF h] mints_Login [OF h] mints_OAuthCallback [OF h]
        mints_OAuthConvert [OF h] | rule mints_silent, rule silent_endpoints silent_account_endpoints)+
qed

lemma served_cookies:
  assumes "serve h s = ((r, cs), s')"
  shows "cs = svCookies (snd (h (s\<lparr>svCookies := []\<rparr>)))" "svDb s' = svDb (snd (h (s\<lparr>svCookies := []\<rparr>)))"
  using assms by (auto simp: serve_def split: prod.splits sum.splits)

text \<open>
  C4. No way in skips the second factor.  Take an account that owes one throughout: a factor is on, or it is
  an administrator's and administrators must have one.  No answer but those to a code and to a rotation
  hands out a session of it: when a password, an invitation, a reset link, a conversion or any branch of the
  Google callback is answered with a session cookie, no session with that cookie's access or refresh token
  belongs to the account in the database the answer leaves, whatever other requests do in between, as long as
  they neither lift the debt nor draw the same random tokens for that account.
\<close>

theorem session_cookie_skips_no_factor:
  assumes "sane (svDb s)" "honest cfg T w" "\<not> provesMore e" "hCipher cfg \<noteq> None" "hCodeMAC cfg \<noteq> None"
    and owed: "owes cfg uid (svDb s)" "\<And>k db. sane db \<Longrightarrow> owes cfg uid db \<Longrightarrow> owes cfg uid (wOthers w k db)"
    and fresh: "\<not> carries uid (fst (wMinted w)) (fst (snd (wMinted w))) (svDb s)"
      "\<And>k db. sane db \<Longrightarrow> carries uid (fst (wMinted w)) (fst (snd (wMinted w))) (wOthers w k db) \<Longrightarrow>
         carries uid (fst (wMinted w)) (fst (snd (wMinted w))) db"
    and served: "serve (Mount w cfg rq e) s = ((r, cs), s')" "SetSession i \<in> set cs"
  shows "\<not> (\<exists>x\<in>set (sessions (idn (svDb s'))). sUser x = uid \<and> (sAccess x = isAccess i \<or> sRefresh x = isRefresh i))"
proof -
  let ?s = "s\<lparr>svCookies := []\<rparr>"
  have "watched cfg T uid w" using assms(2,4,5) owed(2) fresh(2) unfolding watched_def unopened_def by blast
  then have m: "mints (unopened cfg uid w) (Mount w cfg rq e) (minted w)" by (rule mints_Mount [OF _ assms(3)])
  have "SetSession i \<in> set (svCookies (snd (Mount w cfg rq e ?s)))" "sane (svDb ?s)" "unopened cfg uid w (svDb ?s)"
    using served(2) served_cookies(1) [OF served(1)] assms(1) owed(1) fresh(1) by (simp_all add: unopened_def)
  then have "minted w i" "unopened cfg uid w (svDb s')"
    using m unfolding mints_def served_cookies(2) [OF served(1)] by fastforce+
  then show ?thesis by (auto simp: unopened_def carries_def minted_def)
qed

section \<open>A linked account comes back from Google\<close>

text \<open>With nothing failing and nobody interfering, the callback of a linked account without a factor opens a session.\<close>

lemma callback_opens:
  assumes i: "idle w now" and g: "oauthEnabled cfg = Some g"
    and q: "cbError q = []" "cbState q \<noteq> []" "arOAuth rq = Some (cbState q)" "cbCode q \<noteq> []"
    and st: "ConsumeOAuthState now (cbState q) (svDb s) = (Inr st, db1)" "osPurpose st = OAuthPurposeLogin"
    and p: "goExchange g (cbCode q) (osVerifier st) = Some token" "goUserInfo g token = Some info"
    and u: "UserByIdentity ProviderGoogle (gpSubject info) db1 = Inr u" "uStatus (uvUser u) = StatusActive"
      "secondFactorPurpose cfg u = None"
    and o: "IssueSession now (wFamily w) (wMinted w) (uId (uvUser u)) (uTokenVersion (uvUser u)) (hTTL cfg) (arIP rq) (arUA rq) (idn db1) =
      (Inr (issue, sid), st2)"
  shows "SetSession issue \<in> set (svCookies (snd (OAuthCallback w cfg rq q s)))"
proof -
  have "OAuthPurposeLogin \<noteq> OAuthPurposeLink" "OAuthPurposeLogin \<noteq> OAuthPurposeAcceptInvite"
    by (simp_all add: OAuthPurposeLogin_def OAuthPurposeLink_def OAuthPurposeAcceptInvite_def)
  then show ?thesis
    using g q st p u o idle_call [OF i, of "\<lambda>now. ConsumeOAuthState now (cbState q)" "s\<lparr>svCookies := svCookies s @ [ClearOAuthState]\<rparr>"]
    by (simp add: OAuthCallback_def hthen_def hbind_def cookie_def ret_def oauthCheckLink_def oauthFinish_def oauthFinishLogin_def
        idle_query [OF i] TouchIdentity_def idle_call [OF i] oauthComplete_def issueSession_def oauthRedirect_def redirectToSPA_def
        answer_def)
qed

definition demoGoogle :: googleProvider where
  "demoGoogle = \<lparr>goEnabled = True, goAuthURL = (\<lambda>s c. Some ''https://accounts.example''), goExchange = (\<lambda>c v. Some c),
     goUserInfo = (\<lambda>t. Some \<lparr>gpSubject = ''sub'', gpEmail = ''ana@example.org'', gpVerified = True, gpName = ''Ana''\<rparr>)\<rparr>"

definition demoSecond :: user where
  "demoSecond = demoUser\<lparr>uId := 2, uEmail := ''bo@example.org'', uEmailNorm := ''bo@example.org'', uRole := RoleEditor\<rparr>"

text \<open>Ana's account is linked to Google; Bo's has an authenticator.\<close>

definition demoLinked :: authdb where
  "demoLinked = demoAuth\<lparr>idn := demoDb\<lparr>users := [demoUser, demoSecond], userSeq := 3, identities := [\<lparr>liUser = 1, liProvider = ''google'', liSubject = ''sub'', liEmail = None\<rparr>]\<rparr>,
     totpRows := [\<lparr>toUser = 2, toCipher = ''c'', toNonce = ''n'', toParams = (''SHA1'', 6, 30), toConfirmed = Some 1, toVersion = None,
       toSession = None, toLast = None\<rparr>],
     side := (side demoAuth)\<lparr>oauthStates := [\<lparr>osId = 1, osHash = ''st'', osVerifier = ''v'', osProvider = ''google'', osPurpose = ''login'',
       osUser = None, osInvite = None, osSession = None, osVersion = None, osProof = None, osExpires = 600, osConsumed = None\<rparr>]\<rparr>\<rparr>"

definition demoGoogleCfg :: handlerCfg where
  "demoGoogleCfg = demoCfg\<lparr>hRequire2FA := False, hGoogle := Some demoGoogle\<rparr>"

definition demoReturn :: callbackQuery where
  "demoReturn = \<lparr>cbError = [], cbState = ''st'', cbCode = ''c''\<rparr>"

theorem session_cookie_skips_no_factor_witness:
  "\<exists>i s'. snd (serve (Mount (quietWorld 20) demoGoogleCfg (demoRequest\<lparr>arOAuth := Some ''st''\<rparr>) (EOAuthCallback demoReturn))
       (demoSrv demoLinked)) = s' \<and> owes demoGoogleCfg 2 demoLinked \<and>
     SetSession i \<in> set (snd (fst (serve (Mount (quietWorld 20) demoGoogleCfg (demoRequest\<lparr>arOAuth := Some ''st''\<rparr>)
       (EOAuthCallback demoReturn)) (demoSrv demoLinked)))) \<and>
     \<not> (\<exists>x\<in>set (sessions (idn (svDb s'))). sUser x = 2 \<and> (sAccess x = isAccess i \<or> sRefresh x = isRefresh i))"
proof -
  let ?s = "demoSrv demoLinked" and ?w = "quietWorld 20" and ?rq = "demoRequest\<lparr>arOAuth := Some ''st''\<rparr>"
  let ?m = "Mount ?w demoGoogleCfg ?rq (EOAuthCallback demoReturn)"
  have c: "isOk (fst (ConsumeOAuthState 20 ''st'' demoLinked))"
    "osPurpose (projr (fst (ConsumeOAuthState 20 ''st'' demoLinked))) = OAuthPurposeLogin" by code_simp+
  obtain st db1 where st: "ConsumeOAuthState 20 ''st'' demoLinked = (Inr st, db1)" "osPurpose st = OAuthPurposeLogin"
    using c by (cases "ConsumeOAuthState 20 ''st'' demoLinked") (auto simp: isOk_def split: sum.splits)
  have d: "idn db1 = idn demoLinked" "totpRows db1 = totpRows demoLinked" "emailFactors db1 = []"
    using st(1) by (auto simp: ConsumeOAuthState_def runTx_Inr demoLinked_def demoAuth_def split: if_splits option.splits)
  have a: "UserByIdentity ProviderGoogle ''sub'' db1 = Inr (viewOf db1 demoUser)"
    unfolding UserByIdentity_def d(1) by (simp add: demoLinked_def demoDb_def demoUser_def ProviderGoogle_def userById_def GetUser_def rbind_def)
  have b: "secondFactorPurpose demoGoogleCfg (viewOf db1 demoUser) = None"
    by (simp add: secondFactorPurpose_def HasSecondFactor_def viewOf_def totpEnabled_def emailEnabled_def demoUser_def
        d demoLinked_def demoGoogleCfg_def)
  have "isOk (fst (IssueSession 20 ''f9'' (''a9'', ''r9'', ''c9'') 1 0 demoTTL ''ip'' ''ua'' (idn demoLinked)))" by code_simp
  then obtain issue sid st2 where e: "IssueSession 20 ''f9'' (''a9'', ''r9'', ''c9'') 1 0 demoTTL ''ip'' ''ua'' (idn demoLinked) =
      (Inr (issue, sid), st2)"
    by (cases "IssueSession 20 ''f9'' (''a9'', ''r9'', ''c9'') 1 0 demoTTL ''ip'' ''ua'' (idn demoLinked)") (auto simp: isOk_def split: sum.splits)
  have o: "SetSession issue \<in> set (svCookies (snd (OAuthCallback ?w demoGoogleCfg ?rq demoReturn (?s\<lparr>svCookies := []\<rparr>))))"
    using st d(1) a b e
    by (intro callback_opens [OF idle_quiet, where g = demoGoogle and st = st and ?db1.0 = db1 and u = "viewOf db1 demoUser" and
          token = "''c''"])
      (auto simp: oauthEnabled_def demoGoogleCfg_def demoGoogle_def demoReturn_def demoSrv_def viewOf_def demoUser_def
        demoRequest_def quietWorld_def demoCfg_def)
  obtain r cs s' where m: "serve ?m ?s = ((r, cs), s')" by (metis prod.collapse)
  have i: "SetSession issue \<in> set cs" using o served_cookies(1) [OF m] by simp
  have h: "sane demoLinked" "owes demoGoogleCfg 2 demoLinked" "sessions (idn demoLinked) = []"
    unfolding sane_def by code_simp+
  have "\<not> (\<exists>x\<in>set (sessions (idn (svDb s'))). sUser x = 2 \<and> (sAccess x = isAccess issue \<or> sRefresh x = isRefresh issue))"
    by (rule session_cookie_skips_no_factor [OF _ quiet_honest [of 20 "{20}"] _ _ _ _ _ _ _ m i])
      (use h in \<open>simp_all add: demoSrv_def provesMore_def demoGoogleCfg_def demoCfg_def demoCipher_def quietWorld_def carries_def\<close>)
  then show ?thesis using h i m by auto
qed

end
