(* ===== verification/CredentialMoves.thy ===== *)
theory CredentialMoves
  imports SessionGrants
begin

text \<open>
  What a redirect state and a link to a new address are bound to.  Both are rows that a later request
  finishes; between the two any other transactions run.
\<close>

section \<open>Steps\<close>

text \<open>
  \<open>tok\<close> is a token that is not minted again, as 256 random bits are not.  Everything that leaves the two
  tables alone is \<open>elsewhere\<close>: no epoch falls.
\<close>

inductive credStep :: "string \<Rightarrow> authdb \<Rightarrow> authdb \<Rightarrow> bool" for tok where
  state: "CreateOAuthState now t provider purpose verifier uid iv ttl db = (r, db') \<Longrightarrow> t \<noteq> tok \<Longrightarrow> credStep tok db db'"
| linkState: "CreateOAuthLinkState now t provider verifier sp ttl db = (r, db') \<Longrightarrow> t \<noteq> tok \<Longrightarrow> credStep tok db db'"
| consumed: "ConsumeOAuthState now raw db = (r, db') \<Longrightarrow> credStep tok db db'"
| swept: "SweepOAuthState now retain db = (n, db') \<Longrightarrow> credStep tok db db'"
| requested: "RequestEmailChange now raw t uid sid newEmail ttl ok confirm notice db = (r, db') \<Longrightarrow> t \<noteq> tok \<Longrightarrow> credStep tok db db'"
| confirmed: "ConsumeEmailChange now t db = (r, db') \<Longrightarrow> credStep tok db db'"
| cancelled: "credStep tok db (CancelEmailChange now uid db)"
| accountGone: "side db' = cascadeSide uid (side db) \<Longrightarrow> credStep tok db db'"
| elsewhere: "oauthStates (side db') = oauthStates (side db) \<Longrightarrow> emailMoves (side db') = emailMoves (side db) \<Longrightarrow> credStep tok db db'"

abbreviation credRun :: "string \<Rightarrow> authdb \<Rightarrow> authdb \<Rightarrow> bool" where
  "credRun tok \<equiv> (credStep tok)\<^sup>*\<^sup>*"

text \<open>The two unique indexes.\<close>

definition sideOk :: "authdb \<Rightarrow> bool" where
  "sideOk db = (distinct (map osHash (oauthStates (side db))) \<and> distinct (map mvToken (emailMoves (side db))))"

text \<open>Facts about the rows of a token that survive being consumed.\<close>

definition ofStates :: "string \<Rightarrow> (oauthState \<Rightarrow> bool) \<Rightarrow> authdb \<Rightarrow> bool" where
  "ofStates tok P db = (\<forall>o'\<in>set (oauthStates (side db)). osHash o' = tok \<longrightarrow> P o')"

definition ofMoves :: "string \<Rightarrow> (emailMove \<Rightarrow> bool) \<Rightarrow> authdb \<Rightarrow> bool" where
  "ofMoves tok P db = (\<forall>m\<in>set (emailMoves (side db)). mvToken m = tok \<longrightarrow> P m)"

definition lasting :: "(oauthState \<Rightarrow> bool) \<Rightarrow> bool" where
  "lasting P = (\<forall>o' t. P o' \<longrightarrow> P (o'\<lparr>osConsumed := Some t\<rparr>))"

definition lastingMove :: "(emailMove \<Rightarrow> bool) \<Rightarrow> bool" where
  "lastingMove P = (\<forall>m t. P m \<longrightarrow> P (m\<lparr>mvConsumed := Some t\<rparr>))"

lemma consumed_keys:
  "map osHash (map (\<lambda>x. if c x then x\<lparr>osConsumed := v\<rparr> else x) xs) = map osHash xs"
  "map mvToken (map (\<lambda>x. if d x then x\<lparr>mvConsumed := v\<rparr> else x) ys) = map mvToken ys"
  by (induction xs) (simp_all add: comp_def if_distrib cong: if_cong)

lemma supersede_tokens: "map mvToken (supersedeMoves now uid ms) = map mvToken ms"
  by (simp add: supersedeMoves_def)

lemma moves_superseded:
  "lastingMove P \<Longrightarrow> (\<forall>m\<in>set ms. mvToken m = tok \<longrightarrow> P m) \<Longrightarrow> (\<forall>m\<in>set (supersedeMoves now uid ms). mvToken m = tok \<longrightarrow> P m)"
  by (auto simp: supersedeMoves_def lastingMove_def)

lemma insertOAuthState_Inr:
  assumes "insertOAuthState st db = Inr db'"
  shows "emailMoves (side db') = emailMoves (side db)" "osHash st \<notin> set (map osHash (oauthStates (side db)))"
    "oauthStates (side db') = oauthStates (side db) @ [st\<lparr>osId := oauthSeq (side db)\<rparr>]" "idn db' = idn db"
  using assms by (auto simp: insertOAuthState_def split: if_splits)

lemma enqueue_side: "enqueueDraft ok mail raw db = Inr db' \<Longrightarrow> side db' = side db \<and> idn db' = idn db"
  using enqueue_beside by force

lemma request_Inr:
  assumes "RequestEmailChange now raw t uid sid newEmail ttl ok confirm notice db = (Inr x, db')"
  obtains u where "userById uid (idn db) = Some u" "uStatus u = StatusActive"
    "t \<notin> set (map mvToken (emailMoves (side db)))" "idn db' = idn db" "oauthStates (side db') = oauthStates (side db)"
    "emailMoves (side db') = supersedeMoves now uid (emailMoves (side db)) @ [\<lparr>mvId = emailMoveSeq (side db), mvUser = uid,
       mvEmail = newEmail, mvNorm = NormalizeEmail newEmail, mvToken = t, mvVersion = uTokenVersion u, mvSession = nullZero sid,
       mvExpires = now + ttl, mvConsumed = None\<rparr>]"
proof -
  obtain u db1 db2 n where r: "emailMoveAllowed uid (NormalizeEmail newEmail) db = Inr u"
    "insertEmailMove \<lparr>mvId = 0, mvUser = uid, mvEmail = newEmail, mvNorm = NormalizeEmail newEmail, mvToken = t,
       mvVersion = uTokenVersion u, mvSession = nullZero sid, mvExpires = now + ttl, mvConsumed = None\<rparr>
       (db\<lparr>side := (side db)\<lparr>emailMoves := supersedeMoves now uid (emailMoves (side db))\<rparr>\<rparr>) = Inr db1"
    "enqueueDraft ok (Some confirm) raw db1 = Inr db2" "enqueueDraft ok (Some n) [] db2 = Inr db'"
    using assms by (auto simp: RequestEmailChange_def runTx_Inr rbind_Inr_iff)
  have u: "userById uid (idn db) = Some u" "uStatus u = StatusActive"
    using r(1) by (auto simp: emailMoveAllowed_def split: option.splits if_splits)
  have "t \<notin> set (map mvToken (supersedeMoves now uid (emailMoves (side db))))"
    using r(2) by (auto simp: insertEmailMove_def split: if_splits)
  then show thesis
    using that u r(2) enqueue_side [OF r(3)] enqueue_side [OF r(4)]
    by (auto simp: insertEmailMove_def supersede_tokens split: if_splits)
qed

lemma confirm_Inr:
  assumes "ConsumeEmailChange now t db = (Inr u, db')"
  obtains m v st where "m \<in> set (emailMoves (side db))" "mvToken m = t" "moveLive now m"
    "userById (mvUser m) (idn db) = Some v" "uTokenVersion v = mvVersion m" "uStatus v = StatusActive"
    "requireLiveEmailChangeSessionTx (mvSession m) db = Inr ()"
    "writeUsers (\<lambda>u. uId u = mvUser m) (moveAddress now (mvEmail m) (mvNorm m)) (idn db) = Inr st" "userById (mvUser m) st = Some u"
    "db' = db\<lparr>idn := revokeWhere (\<lambda>s. sUser s = mvUser m) ReasonEmailChanged now st,
              side := (side db)\<lparr>emailMoves := map (\<lambda>x. if mvId x = mvId m then x\<lparr>mvConsumed := Some now\<rparr> else x) (emailMoves (side db))\<rparr>\<rparr>"
proof -
  obtain m where m: "loadLiveEmailChangeTx now t db = Inr m" "applyEmailMove now m db = Inr (u, db')"
    using assms by (auto simp: ConsumeEmailChange_def runTx_Inr rbind_Inr_iff)
  have l: "find (\<lambda>m. mvToken m = t \<and> moveLive now m) (emailMoves (side db)) = Some m"
    "lockEmailChangeTargetTx (mvUser m) (mvVersion m) db = Inr ()" "requireLiveEmailChangeSessionTx (mvSession m) db = Inr ()"
    using m(1) by (auto simp: loadLiveEmailChangeTx_def rbind_Inr_iff split: option.splits)
  have f: "m \<in> set (emailMoves (side db))" "mvToken m = t" "moveLive now m" using l(1) by (auto simp: find_Some_iff)
  obtain v where v: "userById (mvUser m) (idn db) = Some v" "uTokenVersion v = mvVersion m" "uStatus v = StatusActive"
    using l(2) by (auto simp: lockEmailChangeTargetTx_def split: option.splits if_splits)
  obtain st where "writeUsers (\<lambda>u. uId u = mvUser m) (moveAddress now (mvEmail m) (mvNorm m)) (idn db) = Inr st"
    "userById (mvUser m) st = Some u"
    "db' = db\<lparr>idn := revokeWhere (\<lambda>s. sUser s = mvUser m) ReasonEmailChanged now st,
              side := (side db)\<lparr>emailMoves := map (\<lambda>x. if mvId x = mvId m then x\<lparr>mvConsumed := Some now\<rparr> else x) (emailMoves (side db))\<rparr>\<rparr>"
    using m(2) by (auto simp: applyEmailMove_def split: sum.splits option.splits)
  then show thesis by (rule that [OF f v l(3)])
qed

lemma insertState_keeps:
  assumes "insertOAuthState st db = Inr db'" "osHash st \<noteq> tok"
  shows "(ofStates tok P db \<longrightarrow> ofStates tok P db') \<and> (ofMoves tok Q db \<longrightarrow> ofMoves tok Q db') \<and> (sideOk db \<longrightarrow> sideOk db')"
  using insertOAuthState_Inr [OF assms(1)] assms(2) by (auto simp: ofStates_def ofMoves_def sideOk_def)

lemma step_keeps:
  assumes "credStep tok db db'" "lasting P" "lastingMove Q"
  shows "(ofStates tok P db \<longrightarrow> ofStates tok P db') \<and> (ofMoves tok Q db \<longrightarrow> ofMoves tok Q db') \<and> (sideOk db \<longrightarrow> sideOk db')"
  using assms(1)
proof cases
  case (state now t provider purpose verifier uid iv ttl r)
  show ?thesis
  proof (cases r)
    case (Inl e)
    then show ?thesis using state(1) by (auto simp: CreateOAuthState_def dest: runTx_Inl)
  next
    case (Inr x)
    then obtain st where "insertOAuthState st db = Inr db'" "osHash st = t"
      using state(1) by (auto simp: CreateOAuthState_def runTx_Inr rbind_Inr_iff)
    then show ?thesis using insertState_keeps state(2) by blast
  qed
next
  case (linkState now t provider verifier sp ttl r)
  show ?thesis
  proof (cases r)
    case (Inl e)
    then show ?thesis using linkState(1) by (auto simp: CreateOAuthLinkState_def dest: runTx_Inl)
  next
    case (Inr x)
    then obtain st where "insertOAuthState st db = Inr db'" "osHash st = t"
      using linkState(1) by (auto simp: CreateOAuthLinkState_def runTx_Inr rbind_Inr_iff split: if_splits)
    then show ?thesis using insertState_keeps linkState(2) by blast
  qed
next
  case (consumed now raw r)
  then show ?thesis using assms(2)
    by (cases r) (auto simp: ConsumeOAuthState_def runTx_def ofStates_def ofMoves_def sideOk_def lasting_def consumed_keys
        simp del: map_map split: option.splits if_splits)
next
  case (swept now retain n)
  then show ?thesis by (auto simp: SweepOAuthState_def ofStates_def ofMoves_def sideOk_def distinct_map_filter)
next
  case (requested now raw t uid sid newEmail ttl ok confirm notice r)
  show ?thesis
  proof (cases r)
    case (Inl e)
    then show ?thesis using requested(1) by (auto simp: RequestEmailChange_def dest: runTx_Inl)
  next
    case (Inr x)
    show ?thesis
      by (rule request_Inr [OF requested(1) [unfolded Inr]])
        (use requested(2) moves_superseded [OF assms(3)] in \<open>auto simp: ofStates_def ofMoves_def sideOk_def supersede_tokens\<close>)
  qed
next
  case (confirmed now t r)
  show ?thesis
  proof (cases r)
    case (Inl e)
    then show ?thesis using confirmed(1) by (auto simp: ConsumeEmailChange_def dest: runTx_Inl)
  next
    case (Inr u)
    show ?thesis
      by (rule confirm_Inr [OF confirmed(1) [unfolded Inr]])
        (use assms(3) in \<open>auto simp: ofStates_def ofMoves_def sideOk_def lastingMove_def consumed_keys simp del: map_map\<close>)
  qed
next
  case (cancelled now uid)
  then show ?thesis using moves_superseded [OF assms(3)]
    by (auto simp: CancelEmailChange_def ofStates_def ofMoves_def sideOk_def supersede_tokens)
next
  case (accountGone uid)
  then show ?thesis by (auto simp: cascadeSide_def ofStates_def ofMoves_def sideOk_def distinct_map_filter)
next
  case elsewhere
  then show ?thesis by (simp add: ofStates_def ofMoves_def sideOk_def)
qed

lemma run_keeps:
  assumes "credRun tok db db'"
  shows "lasting P \<Longrightarrow> ofStates tok P db \<Longrightarrow> ofStates tok P db'" "lastingMove Q \<Longrightarrow> ofMoves tok Q db \<Longrightarrow> ofMoves tok Q db'"
    "sideOk db \<Longrightarrow> sideOk db'"
proof -
  have l: "lasting (\<lambda>_. True)" "lastingMove (\<lambda>_. True)" by (simp_all add: lasting_def lastingMove_def)
  show "lasting P \<Longrightarrow> ofStates tok P db \<Longrightarrow> ofStates tok P db'"
    using assms by (induction rule: rtranclp_induct) (use step_keeps [OF _ _ l(2)] in blast)+
  show "lastingMove Q \<Longrightarrow> ofMoves tok Q db \<Longrightarrow> ofMoves tok Q db'"
    using assms by (induction rule: rtranclp_induct) (use step_keeps [OF _ l(1)] in blast)+
  show "sideOk db \<Longrightarrow> sideOk db'"
    using assms by (induction rule: rtranclp_induct) (use step_keeps [OF _ l] in blast)+
qed

section \<open>A link to a new address\<close>

lemma find_written:
  assumes "\<And>u. uId (f u) = uId u"
  shows "find (\<lambda>u. uId u = i) (map (\<lambda>u. if uId u = i then f u else u) us) = map_option f (find (\<lambda>u. uId u = i) us)"
  by (induction us) (simp_all add: assms)

lemma moved_row:
  assumes "writeUsers (\<lambda>u. uId u = i) (moveAddress now e n) st = Inr st'" "userById i st = Some v"
  shows "userById i st' = Some (moveAddress now e n v)"
  using writeUsers_Inr [OF assms(1)] assms(2) find_written [of "moveAddress now e n" i "users st"]
  by (simp add: userById_def moveAddress_def)

lemma same_token: "distinct (map f xs) \<Longrightarrow> x \<in> set xs \<Longrightarrow> y \<in> set xs \<Longrightarrow> f x = f y \<Longrightarrow> x = y"
  by (auto simp: distinct_map dest: inj_onD)

lemma confirm_spends:
  assumes "ConsumeEmailChange t tok db = (Inr u, db')" "sideOk db"
  shows "ofMoves tok (\<lambda>m. mvConsumed m \<noteq> None) db'"
proof (rule confirm_Inr [OF assms(1)])
  fix m v st
  assume m: "m \<in> set (emailMoves (side db))" "mvToken m = tok"
    and d: "db' = db\<lparr>idn := revokeWhere (\<lambda>s. sUser s = mvUser m) ReasonEmailChanged t st,
      side := (side db)\<lparr>emailMoves := map (\<lambda>x. if mvId x = mvId m then x\<lparr>mvConsumed := Some t\<rparr> else x) (emailMoves (side db))\<rparr>\<rparr>"
  have "x = m" if "x \<in> set (emailMoves (side db))" "mvToken x = tok" for x
    using same_token [of mvToken "emailMoves (side db)" x m] assms(2) that m by (simp add: sideOk_def)
  then show ?thesis by (auto simp: d ofMoves_def)
qed

lemma spent_move: "ofMoves tok (\<lambda>m. mvConsumed m \<noteq> None) db \<Longrightarrow> fst (ConsumeEmailChange t tok db) = Inl ErrEmailChangeInvalid"
  by (auto simp: ConsumeEmailChange_def runTx_def rbind_def loadLiveEmailChangeTx_def ofMoves_def moveLive_def find_Some_iff
      split: option.split)

text \<open>
  C11. An account moves to a new address only by the link of a request that is still its own: in time, under
  the epoch the request was made in (so no password change, reset or sign-out everywhere came between),
  with the session that proved the password not revoked.  The move verifies the address, opens a new
  epoch and revokes every session, and the link never works again.
\<close>

theorem address_moves_by_its_own_link:
  assumes "sideOk db0" "RequestEmailChange now raw tok uid sid newEmail ttl ok confirm notice db0 = (Inr x, db1)"
    and "credRun tok db1 db2" "ConsumeEmailChange t tok db2 = (Inr u, db3)" "credRun tok db3 db4"
  shows "\<exists>u0 v. userById uid (idn db0) = Some u0 \<and> userById uid (idn db2) = Some v \<and> uTokenVersion v = uTokenVersion u0 \<and>
    uStatus v = StatusActive \<and> t < now + ttl \<and>
    (\<forall>s. sid \<noteq> 0 \<and> find (\<lambda>s. sId s = sid) (sessions (idn db2)) = Some s \<longrightarrow> sRevoked s = None) \<and>
    u = v\<lparr>uEmail := newEmail, uEmailNorm := NormalizeEmail newEmail, uVerifiedAt := Some t, uTokenVersion := uTokenVersion v + 1\<rparr> \<and>
    list_all (\<lambda>s. sUser s = uid \<longrightarrow> sRevoked s \<noteq> None) (sessions (idn db3)) \<and>
    fst (ConsumeEmailChange later tok db4) = Inl ErrEmailChangeInvalid"
proof (rule request_Inr [OF assms(2)])
  fix u0
  assume u0: "userById uid (idn db0) = Some u0" and new: "tok \<notin> set (map mvToken (emailMoves (side db0)))"
    and db1: "oauthStates (side db1) = oauthStates (side db0)"
      "emailMoves (side db1) = supersedeMoves now uid (emailMoves (side db0)) @ [\<lparr>mvId = emailMoveSeq (side db0), mvUser = uid,
       mvEmail = newEmail, mvNorm = NormalizeEmail newEmail, mvToken = tok, mvVersion = uTokenVersion u0, mvSession = nullZero sid,
       mvExpires = now + ttl, mvConsumed = None\<rparr>]"
  let ?Q = "\<lambda>m. mvUser m = uid \<and> mvEmail m = newEmail \<and> mvNorm m = NormalizeEmail newEmail \<and> mvVersion m = uTokenVersion u0 \<and>
    mvSession m = nullZero sid \<and> mvExpires m = now + ttl"
  have tokens: "tok \<notin> mvToken ` set (supersedeMoves now uid (emailMoves (side db0)))"
    using new supersede_tokens [of now uid "emailMoves (side db0)"] by (metis set_map)
  have q1: "ofMoves tok ?Q db1" using tokens by (auto simp: ofMoves_def db1)
  have q2: "ofMoves tok ?Q db2" by (rule run_keeps(2) [OF assms(3) _ q1]) (simp add: lastingMove_def)
  have "sideOk db1" using assms(1) new by (simp add: sideOk_def db1 supersede_tokens)
  then have ok2: "sideOk db2" by (rule run_keeps(3) [OF assms(3)])
  show ?thesis
  proof (rule confirm_Inr [OF assms(4)])
    fix m v st
    assume m: "m \<in> set (emailMoves (side db2))" "mvToken m = tok" "moveLive t m" "userById (mvUser m) (idn db2) = Some v"
      "uTokenVersion v = mvVersion m" "uStatus v = StatusActive" "requireLiveEmailChangeSessionTx (mvSession m) db2 = Inr ()"
      and st: "writeUsers (\<lambda>u. uId u = mvUser m) (moveAddress t (mvEmail m) (mvNorm m)) (idn db2) = Inr st" "userById (mvUser m) st = Some u"
      and d: "db3 = db2\<lparr>idn := revokeWhere (\<lambda>s. sUser s = mvUser m) ReasonEmailChanged t st,
        side := (side db2)\<lparr>emailMoves := map (\<lambda>x. if mvId x = mvId m then x\<lparr>mvConsumed := Some t\<rparr> else x) (emailMoves (side db2))\<rparr>\<rparr>"
    have q: "?Q m" using q2 m(1,2) by (simp add: ofMoves_def)
    have u: "u = moveAddress t newEmail (NormalizeEmail newEmail) v" using moved_row [OF st(1) m(4)] st(2) q by simp
    have live: "sRevoked s = None" if "sid \<noteq> 0" "find (\<lambda>s. sId s = sid) (sessions (idn db2)) = Some s" for s
      using m(7) q that by (auto simp: requireLiveEmailChangeSessionTx_def nullZero_def split: option.splits if_splits)
    have rev: "list_all (\<lambda>s. sUser s = uid \<longrightarrow> sRevoked s \<noteq> None) (sessions (idn db3))"
      using q by (auto simp: d revokeWhere_def list_all_iff)
    have "ofMoves tok (\<lambda>m. mvConsumed m \<noteq> None) db4"
      by (rule run_keeps(2) [OF assms(5) _ confirm_spends [OF assms(4) ok2]]) (simp add: lastingMove_def)
    from spent_move [OF this] show ?thesis
      using u0 m q u live rev by (auto simp: moveLive_def moveAddress_def)
  qed
qed

lemma address_moves_by_its_own_link_witness:
  "\<exists>u u0 db1 db3. ConsumeEmailChange 60 ''t'' db1 = (Inr u, db3) \<and> userById 1 (idn demoAuth) = Some u0 \<and>
     uEmail u = ''new@example.org'' \<and> uTokenVersion u = uTokenVersion u0 + 1 \<and>
     fst (ConsumeEmailChange 70 ''t'' db3) = Inl ErrEmailChangeInvalid"
proof -
  let ?r = "RequestEmailChange 10 ''raw'' ''t'' 1 0 ''new@example.org'' 600 True ''c'' (\<lambda>old. ''n'') demoAuth"
  let ?c = "ConsumeEmailChange 60 ''t'' (snd ?r)"
  have "isOk (fst ?r)" "isOk (fst ?c)" by code_simp+
  then obtain x db1 u db3 where r: "?r = (Inr x, db1)" "ConsumeEmailChange 60 ''t'' db1 = (Inr u, db3)"
    by (cases ?r; cases ?c) (auto simp: isOk_def split: sum.splits)
  have "sideOk demoAuth" by (simp add: sideOk_def demoAuth_def)
  from address_moves_by_its_own_link [OF this r(1) rtranclp.rtrancl_refl r(2) rtranclp.rtrancl_refl, of 70]
  show ?thesis using r(2) by force
qed

section \<open>Linking a Google account\<close>






section \<open>Who may start\<close>

text \<open>
  \<open>drifted\<close>: only other requests moved the database.  \<open>mild\<close>: an action that writes nothing itself and never
  answers with a redirect.
\<close>

definition drifted :: "world \<Rightarrow> authdb \<Rightarrow> authdb \<Rightarrow> bool" where
  "drifted w db db' = (\<exists>ks. db' = foldl (\<lambda>d k. wOthers w k d) db ks)"

lemma drifted_refl [simp, intro]: "drifted w db db"
  unfolding drifted_def by (rule exI [of _ "[]"]) simp

lemma drifted_trans: "drifted w a b \<Longrightarrow> drifted w b c \<Longrightarrow> drifted w a c"
  unfolding drifted_def by (metis foldl_append)


definition redirects :: "reply \<Rightarrow> bool" where
  "redirects r = (case rpBody r of RedirectURL t \<Rightarrow> True | _ \<Rightarrow> False)"

definition staying :: "'a act \<Rightarrow> bool" where
  "staying m = (\<forall>s r s'. m s = (Inl r, s') \<longrightarrow> \<not> redirects r)"

definition mild :: "world \<Rightarrow> 'a act \<Rightarrow> bool" where
  "mild w m = (staying m \<and> (\<forall>s. drifted w (svDb s) (svDb (snd (m s)))))"

named_theorems mild_rules

lemma staying_answer: "staying (answer r) \<longleftrightarrow> \<not> redirects r"
  by (simp add: staying_def answer_def)



lemma mild_bind [mild_rules]:
  assumes "mild w m" "\<And>x. mild w (f x)"
  shows "mild w (hbind m f)"
proof -
  have "(fst (hbind m f s) = Inl r \<longrightarrow> \<not> redirects r) \<and> drifted w (svDb s) (svDb (snd (hbind m f s)))" for s r
  proof (cases "m s")
    case (Pair x s1)
    have d: "drifted w (svDb s) (svDb s1)" using assms(1) Pair unfolding mild_def by (metis snd_conv)
    show ?thesis
    proof (cases x)
      case (Inl e)
      then show ?thesis using assms(1) Pair d by (auto simp: hbind_def mild_def staying_def)
    next
      case (Inr y)
      have "drifted w (svDb s1) (svDb (snd (f y s1)))" "fst (f y s1) = Inl r \<longrightarrow> \<not> redirects r"
        using assms(2) [of y] unfolding mild_def staying_def by (blast, metis prod.collapse)
      then show ?thesis using Pair Inr drifted_trans [OF d] by (simp add: hbind_def)
    qed
  qed
  then show ?thesis unfolding mild_def staying_def by (metis fst_conv)
qed

lemma mild_then [mild_rules]: "mild w m \<Longrightarrow> mild w k \<Longrightarrow> mild w (hthen m k)"
  unfolding hthen_def by (rule mild_bind)

lemma mild_split [mild_rules]:
  "(c \<Longrightarrow> mild w m) \<Longrightarrow> (\<not> c \<Longrightarrow> mild w k) \<Longrightarrow> mild w (if c then m else k)"
  "(\<And>e. mild w (f e)) \<Longrightarrow> (\<And>x. mild w (g x)) \<Longrightarrow> mild w (case r of Inl e \<Rightarrow> f e | Inr x \<Rightarrow> g x)"
  "mild w m \<Longrightarrow> (\<And>x. mild w (h x)) \<Longrightarrow> mild w (case v of None \<Rightarrow> m | Some x \<Rightarrow> h x)"
  "(\<And>a b. mild w (k' a b)) \<Longrightarrow> mild w (case q of (a, b) \<Rightarrow> k' a b)"
  by (auto split: sum.split option.split prod.split)


























definition linkWorld :: world where
  "linkWorld = (quietWorld 105)\<lparr>wToken := ''st'', wPkce := Some (''v'', ''ch'')\<rparr>"


lemma linkWorld_fields [simp]:
  "wClock linkWorld k = 105" "wToken linkWorld = ''st''" "wPkce linkWorld = Some (''v'', ''ch'')"
  by (simp_all add: linkWorld_def quietWorld_def)

lemma limit_db [simp]: "svDb (snd (limit w b op s)) = svDb s"
  by (simp add: limit_def Let_def split: prod.split)




end
