(* ===== verification/Spec2Isabelle.thy ===== *)
theory Spec2Isabelle
  imports AttemptLimit Rbac Identity Sessions Accounts ApiTokens Gates FolderGuard TwoFactorSafety HttpLimits SessionGrants CredentialMoves
begin

text \<open>
  Foldex is a self-hosted link, note and folder manager: a Go server (backend/) behind a React
  client (web/).  This development models the parts of the server on which the confidentiality and
  the integrity of everything else rest: who is asking, for how long that answer holds, what the asker
  may do, what a folder password protects, and which data a deletion or a clean-up may remove.  All paths
  below are under src/backend/internal/.

  \<^bold>\<open>Parts and how they interact.\<close>
  A request first meets the authentication middleware (auth/middleware.go), which turns its cookies
  or bearer token into a principal by asking the identity repository (auth/repository.go,
  auth/rotate.go, auth/repository_apitoken.go).  The principal carries a role; the gates
  (pkg/authgate) ask the permission matrix (pkg/authctx for the compiled one, roleperm for the
  one the owner can edit) whether that role holds a permission.  A proven password is a login
  only after the second factor (auth/repository_2fa.go, auth/repository_email_factor.go) if the account owes
  one.  Google (auth/oauth_handler.go, auth/repository_oauth.go) is a second way in, and an account can move
  to another address (auth/repository_email_change.go).  Login, refresh and every endpoint that compares a password run behind the attempt limiter
  (pkg/attemptlimit).  Folders (folders/) carry passwords of their own: unlocking mints a token, and every
  content package asks the content gate with it.  Links, notes and tags share the clean-up of polymorphic
  relations (entityrefs), the click log (pkg/clicklog) and the media of notes (notemedia).

  \<^bold>\<open>Theories.\<close>
  \<^item> Prelude: the error type of the database layer, list and option lemmas the components share,
    and the collections their proofs use.
  \<^item> AttemptLimit: pkg/attemptlimit/attemptlimit.go.  The limiter is a record of its window, its
    budgets and its entries; LockedUntil, Begin, Release, CommitFail, CommitSuccess, FailFor, Reset,
    Sweep and Configure are state transformers over an explicit clock.  The ghost log of the step
    relation states the budget the limiter promises.
  \<^item> Rbac: pkg/authctx/permissions.go and roleperm/.  Both matrices provide the interface
    auth_matrix; its consequences are proved once.
  \<^item> Identity: the accounts and invitations of auth/repository.go over explicit tables with the
    constraints the migrations declare (unique e-mail, one owner, one session per token hash).
  \<^item> Sessions: issue, resolution, rotation and revocation of auth/repository.go and auth/rotate.go;
    the step relation whose steps are the repository's transactions and its invariant.
  \<^item> Accounts: what the account operations promise about the owner's seat, revocation and
    invitations, proved over the same step relation.
  \<^item> ApiTokens: auth/repository_apitoken.go.
  \<^item> Gates: auth/middleware.go, pkg/authgate, the administration chain of server/mount.go and the bootstrap
    principal of server/router.go that takes the place of authentication when AUTH_ENABLED=0.  The
    interface session_lookup is what the middleware asks of the store and is interpreted on the
    repository.
  \<^item> TwoFactor: auth/repository_2fa.go and auth/repository_email_factor.go, every transaction over a record
    of tables (authdb) that contains the identity tables.  TwoFactorFlow: the step relation tfStep, whose
    steps are those transactions and everything else that may touch the same rows, and what each step
    leaves alone.  TwoFactorBudget: the guess budget of a challenge.  TwoFactorSpend: the rows of one state
    as continuations of the rows before, the invariant of the factor tables, and epochs.
    TwoFactorSafety: the promises (single use, independence of channels, recovery codes, reset).
  \<^item> Policies: settings/policy and auth/abuse: the two policies the owner can edit, how they are stored, and the
    cache through which a request sees them.  TwoFactorCodes: the codes and digests of auth/twofa and
    auth/code_mac.go.
  \<^item> AuthHttp, TwoFactorHttp, StepUpHttp, LoginHttp: the handlers of auth/handler.go, auth/twofa_handler.go,
    auth/email_factor_handler.go and auth/password_handler.go as actions on the database, the limiters and the
    audit trail.  Before every call of the repository other requests run, the clock moves, and the call
    may fail.  OAuth: auth/repository_oauth.go and auth/oauth_handler.go, with the provider as a parameter.
    EmailChange: auth/repository_email_change.go and auth/email_change_handler.go.  ProfileHttp: the profile, the
    device list, auth/availability_handler.go and auth/apitoken_handler.go.
  \<^item> HttpRuns, AccountRuns: every handler moves the database along tfStep.  HttpHistory: the router of
    auth/handler.go and histories of requests through it.  HttpLimits: what a request does to the slots of the
    limiters.  SignIn: a correct code signs in.  SessionGrants: which answers carry the cookie of a session.
    CredentialMoves: what binds an e-mail change and a Google link to the session that asked for it.
  \<^item> Content: the rows of folders, links, notes and tags with their foreign keys; entityrefs/purge.go and
    pkg/clicklog.  NoteMedia: notemedia/ (leases, references, clean-up, keys) and the two ways its objects are
    deleted, storage/client.go in bulk and the adapter of notes/repository.go one by one; both provide the interface
    object_store.
  \<^item> UnlockToken: folders/password.go and folders/content_gate.go; other transactions commit between the
    statements of the gate as far as the rows it has locked allow.  CssValid: pkg/cssvalid.
  \<^item> Folders: folders/repository.go and folders/dto.go.  FolderTree: that the folders stay a forest under
    every operation, so both recursive queries end.  FolderGuard: what a folder password and its hint
    guarantee, and the cascade.

  \<^bold>\<open>Correspondence.\<close>
  A definition keeps the name of the Go function it models.  A transaction is one atomic step: it
  either returns its result with the new tables or an error with the tables unchanged, because the
  code rolls back.  SQL statements are written out row by row where the order matters (the unique
  index is checked as each row is written).  The clock, the hash functions (SHA-256, HMAC, bcrypt), the
  token generator, the mail outbox, the object store and database failure are arguments, never definitions;
  lemmas that need a hash to be injective on the tokens at hand say so in a hypothesis.  Times are integers in a
  fixed unit; durations are integers, as int64 nanoseconds are, and no modelled expression
  leaves that range for a configuration the loader accepts, except the lifetime of an API token, whose
  wrap-around tokenTTL writes out.

  \<^bold>\<open>What the lemmas show.\<close>
  The limiter examines at most its budget of wrong guesses per lockout window, counting the guesses still in
  flight.  The owner's seat is never empty once taken and only an explicit
  transfer moves it.  A refresh token family is one sign-in of one account, holds at most five live sessions, ends at
  its absolute deadline, and dies when a consumed token is replayed, however much later and after whatever
  other operations, as long as the token is still on record.  Revocation is complete.  An
  invitation is claimed once.  Whatever requests are served, at most five answers between a first challenge and its
  expiry say anything about a second-factor code unless a sign-in is completed, and every request gives back exactly
  the limiter slots it took.  A correct code of any of the three kinds signs in when nothing interferes, and no answer
  but the one to a code or a rotation leaves an account that owes a factor with a session for the cookie it sets.
  An address moves only for the session and the epoch that asked, and linking Google from inside an account takes
  the password, the factor and the starting session.  An API token works for one account, one
  at a time, until its expiry, never on the administration surface.  Authentication fails closed, and with it
  switched on the permissions locked to the owner stay so whatever the stored matrix says.  A challenge admits five
  guesses however often it is replaced before one is completed; a second-factor proof is spent once; a mailed code is
  never the second factor of a sign-in that began in the mailbox; recovery codes exist only beside a factor; a reset
  shuts out everyone.  No request on folders takes a protected folder away without its proof, a cascade deletes
  exactly the subtree, a listing or a mutation goes through only under the password that holds at that moment, and
  neither clean-up deletes an object a note still uses, whichever way the storage deletes.

  \<^bold>\<open>Bounds.\<close>
  The fuel of Rotate (rotateAttempts) and of a folder update (maxSerializationRetries) is the code's own
  constant.  The recursive folder queries take queryFuel, one more than the number of folders, which is
  enough because the folders form a forest (folders_stay_a_forest).  Every other loop is structural, or (the
  limiter's eviction loop) terminates by a measure, the number of entries left.

  \<^bold>\<open>Not modelled.\<close>
  HTTP encoding, cookies' attributes, response timing, tracing, metrics, and the SQL text itself.  Other requests
  that run between two steps of a handler change the database, not the limiters.  A redirect state whose session
  or invitation is deleted goes with it in the database; in the model it stays and is refused where it is used.
  The Google client is a parameter.  The administration handlers are JSON around the modelled repository.  The
  listing and ranking queries of folders, links, notes and tags are SQL with little logic outside it.
  Backups, restores and their agent, change detection, previews, screenshots, import and export, mail and
  push delivery, and the object store are mostly I/O on services outside this repository.
\<close>

end
